(* ===== verification/Prelude.thy ===== *)
theory Prelude
  imports Main "HOL-Library.Word" "HOL-Library.Char_ord" "HOL-Library.List_Lexorder"
begin

text \<open>
  What the components share.

  \<^item> The errors of the C++ code as values: an exception of OpenFHE's hierarchy
    (\<^verbatim>\<open>OPENFHE_THROW\<close>), a process exit, and undefined behaviour (an index past the end of
    a \<^verbatim>\<open>std::vector\<close> or \<^verbatim>\<open>std::string\<close>), which the models keep as a branch of its own.
  \<^item> Actions on a state that can fail, with their bind: the type of every handler, RPC stub and
    client routine. A failing action keeps the state it failed in.
  \<^item> \<^verbatim>\<open>operator[]\<close> of \<^verbatim>\<open>std::map\<close> and \<^verbatim>\<open>std::unordered_map\<close>, which inserts a default value when
    the key is missing, on partial functions; and \<^verbatim>\<open>std::map\<close> as a list of pairs in key order,
    for the code that iterates over the map.
\<close>

named_theorems res_simps \<open>the laws of results and actions\<close>
named_theorems map_simps \<open>the laws of the map operations\<close>

section \<open>Machine integers and bytes\<close>

type_synonym u32 = "32 word" \<comment> \<open>uint32_t and OpenFHE's usint\<close>
type_synonym bytes = string  \<comment> \<open>std::string, protobuf string and bytes\<close>

section \<open>Errors and results\<close>

datatype error =
    Openfhe_error string      \<comment> \<open>lbcrypto::openfhe_error\<close>
  | Serialize_error string    \<comment> \<open>lbcrypto::serialize_error\<close>
  | Deserialize_error string  \<comment> \<open>lbcrypto::deserialize_error\<close>
  | Config_error string       \<comment> \<open>lbcrypto::config_error\<close>
  | Math_error string         \<comment> \<open>lbcrypto::math_error\<close>
  | Std_exception string      \<comment> \<open>an exception of the C++ library\<close>
  | Exit_failure string       \<comment> \<open>exit(EXIT_FAILURE), exit(1), exit(-1)\<close>
  | Undefined string          \<comment> \<open>undefined behaviour\<close>

type_synonym 'a result = "error + 'a"

definition rbind :: "'a result \<Rightarrow> ('a \<Rightarrow> 'b result) \<Rightarrow> 'b result" where
  "rbind m f = (case m of Inl e \<Rightarrow> Inl e | Inr x \<Rightarrow> f x)"

lemma rbind_simps [simp, res_simps]:
  "rbind (Inl e) f = Inl e"
  "rbind (Inr x) f = f x"
  by (simp_all add: rbind_def)

lemma rbind_Inr_iff [res_simps]: "rbind m f = Inr y \<longleftrightarrow> (\<exists>x. m = Inr x \<and> f x = Inr y)"
  by (cases m) auto

lemma rbind_cong [fundef_cong]:
  "m = m' \<Longrightarrow> (\<And>x. m' = Inr x \<Longrightarrow> f x = f' x) \<Longrightarrow> rbind m f = rbind m' f'"
  by (cases m') auto

definition at :: "string \<Rightarrow> 'a list \<Rightarrow> nat \<Rightarrow> 'a result" where
  \<comment> \<open>v[i] of a vector: undefined past the end\<close>
  "at what xs i = (if i < length xs then Inr (xs ! i) else Inl (Undefined what))"

lemma at_simps [simp, res_simps]:
  "i < length xs \<Longrightarrow> at w xs i = Inr (xs ! i)"
  "\<not> i < length xs \<Longrightarrow> at w xs i = Inl (Undefined w)"
  by (simp_all add: at_def)

lemma at_Inr_iff: "at w xs i = Inr x \<longleftrightarrow> i < length xs \<and> x = xs ! i"
  by (auto simp: at_def)

section \<open>Actions: state passing with failure\<close>

type_synonym ('w, 'a) act = "'w \<Rightarrow> 'a result \<times> 'w"

definition ret :: "'a \<Rightarrow> ('w, 'a) act" where
  "ret x w = (Inr x, w)"

definition throw :: "error \<Rightarrow> ('w, 'a) act" where
  "throw e w = (Inl e, w)"

definition abind :: "('w, 'a) act \<Rightarrow> ('a \<Rightarrow> ('w, 'b) act) \<Rightarrow> ('w, 'b) act" where
  "abind m f w = (case m w of (Inl e, w') \<Rightarrow> (Inl e, w') | (Inr x, w') \<Rightarrow> f x w')"

definition lift_r :: "'a result \<Rightarrow> ('w, 'a) act" where
  "lift_r r w = (r, w)"

definition require :: "bool \<Rightarrow> error \<Rightarrow> ('w, unit) act" where
  \<comment> \<open>if (!ok) throw e\<close>
  "require ok e w = (if ok then Inr () else Inl e, w)"

lemma act_simps [simp, res_simps]:
  "ret x w = (Inr x, w)"
  "throw e w = (Inl e, w)"
  "lift_r r w = (r, w)"
  "require True e w = (Inr (), w)"
  "require False e w = (Inl e, w)"
  by (simp_all add: ret_def throw_def lift_r_def require_def)

lemma abind_Inr_iff [res_simps]:
  "abind m f w = (Inr y, w') \<longleftrightarrow> (\<exists>x v. m w = (Inr x, v) \<and> f x v = (Inr y, w'))"
  by (auto simp: abind_def split: prod.splits sum.splits)

lemma abind_step [res_simps]:
  "m w = (Inr x, v) \<Longrightarrow> abind m f w = f x v"
  "m w = (Inl e, v) \<Longrightarrow> abind m f w = (Inl e, v)"
  by (simp_all add: abind_def)

lemma abind_simps [simp, res_simps]:
  "abind (ret x) f w = f x w"
  "abind (throw e) f w = (Inl e, w)"
  "abind (lift_r (Inr x)) f w = f x w"
  "abind (lift_r (Inl e)) f w = (Inl e, w)"
  "abind (require True e) f w = f () w"
  "abind (require False e) f w = (Inl e, w)"
  by (simp_all add: abind_def)

lemma abind_require [res_simps]:
  "abind (require b e) f w = (if b then f () w else (Inl e, w))"
  by (cases b) simp_all

section \<open>operator[] on maps\<close>

definition idx :: "'v \<Rightarrow> ('k \<rightharpoonup> 'v) \<Rightarrow> 'k \<Rightarrow> 'v \<times> ('k \<rightharpoonup> 'v)" where
  \<comment> \<open>m[k] as an rvalue: the value, default-inserted when the key is missing\<close>
  "idx d m k = (case m k of None \<Rightarrow> (d, m(k \<mapsto> d)) | Some v \<Rightarrow> (v, m))"

definition idx_val :: "'v \<Rightarrow> ('k \<rightharpoonup> 'v) \<Rightarrow> 'k \<Rightarrow> 'v" where
  \<comment> \<open>what m[k] reads\<close>
  "idx_val d m k = (case m k of None \<Rightarrow> d | Some v \<Rightarrow> v)"

definition idx_map :: "'v \<Rightarrow> ('k \<rightharpoonup> 'v) \<Rightarrow> 'k \<Rightarrow> ('k \<rightharpoonup> 'v)" where
  \<comment> \<open>the map after m[k]\<close>
  "idx_map d m k = (case m k of None \<Rightarrow> m(k \<mapsto> d) | Some v \<Rightarrow> m)"

lemma idx_eq [map_simps]: "idx d m k = (idx_val d m k, idx_map d m k)"
  by (simp add: idx_def idx_val_def idx_map_def split: option.splits)

lemma idx_val_simps [simp, map_simps]:
  "idx_val d (m(k \<mapsto> v)) k = v"
  "k \<noteq> j \<Longrightarrow> idx_val d (m(k \<mapsto> v)) j = idx_val d m j"
  "idx_val d Map.empty k = d"
  by (simp_all add: idx_val_def)

lemma idx_val_upd [map_simps]: "idx_val d (m(k \<mapsto> v)) j = (if j = k then v else idx_val d m j)"
  by (simp add: idx_val_def)

lemma idx_map_val [simp, map_simps]: "idx_val d (idx_map d m k) j = idx_val d m j"
  by (auto simp: idx_val_def idx_map_def split: option.splits)

lemma idx_map_hit [simp, map_simps]: "m k = Some v \<Longrightarrow> idx_map d m k = m"
  by (simp add: idx_map_def)

lemma idx_map_idem [simp, map_simps]: "idx_map d (idx_map d m k) k = idx_map d m k"
  by (auto simp: idx_map_def split: option.splits)

lemma idx_map_dom: "dom (idx_map d m k) = insert k (dom m)"
  by (auto simp: idx_map_def split: option.splits)

section \<open>std::map in key order\<close>

fun smap_put :: "'k::linorder \<Rightarrow> 'v \<Rightarrow> ('k \<times> 'v) list \<Rightarrow> ('k \<times> 'v) list" where
  "smap_put k v [] = [(k, v)]"
| "smap_put k v ((j, w) # m) =
     (if k < j then (k, v) # (j, w) # m
      else if k = j then (k, v) # m
      else (j, w) # smap_put k v m)"

definition smap_ok :: "('k::linorder \<times> 'v) list \<Rightarrow> bool" where
  "smap_ok m \<longleftrightarrow> sorted_wrt (<) (map fst m)"

lemma smap_ok_Nil [simp]: "smap_ok []"
  by (simp add: smap_ok_def)

lemma smap_put_keys [simp]: "fst ` set (smap_put k v m) = insert k (fst ` set m)"
  by (induction k v m rule: smap_put.induct) auto

lemma smap_put_ok: "smap_ok m \<Longrightarrow> smap_ok (smap_put k v m)"
proof (induction m)
  case (Cons p m)
  then show ?case
    using smap_put_keys [of k v m] by (cases p) (auto simp: smap_ok_def)
qed (simp add: smap_ok_def)

lemma smap_put_map_of [simp, map_simps]: "map_of (smap_put k v m) = (map_of m)(k \<mapsto> v)"
  if "smap_ok m"
  using that
proof (induction m)
  case (Cons p m)
  obtain j w where p: "p = (j, w)" by (cases p)
  have ok: "smap_ok m" and lt: "\<And>i. i \<in> fst ` set m \<Longrightarrow> j < i"
    using Cons.prems by (auto simp: smap_ok_def p)
  have "map_of (smap_put k v (p # m)) i = ((map_of (p # m))(k \<mapsto> v)) i" for i
    using Cons.IH [OF ok] by (auto simp: p)
  then show ?case by blast
qed simp

lemma smap_ok_distinct: "smap_ok m \<Longrightarrow> distinct (map fst m)"
  by (simp add: smap_ok_def strict_sorted_iff)

definition smap_get :: "'v \<Rightarrow> ('k::linorder \<times> 'v) list \<Rightarrow> 'k \<Rightarrow> 'v" where
  \<comment> \<open>what m[k] reads\<close>
  "smap_get d m k = (case map_of m k of None \<Rightarrow> d | Some v \<Rightarrow> v)"

definition smap_ins :: "'v \<Rightarrow> ('k::linorder \<times> 'v) list \<Rightarrow> 'k \<Rightarrow> ('k \<times> 'v) list" where
  \<comment> \<open>the map after m[k]\<close>
  "smap_ins d m k = (case map_of m k of None \<Rightarrow> smap_put k d m | Some v \<Rightarrow> m)"

lemma smap_ins_ok: "smap_ok m \<Longrightarrow> smap_ok (smap_ins d m k)"
  by (simp add: smap_ins_def smap_put_ok split: option.split)

lemma smap_get_simps [simp, map_simps]:
  "smap_ok m \<Longrightarrow> smap_get d (smap_put k v m) j = (if j = k then v else smap_get d m j)"
  "smap_ok m \<Longrightarrow> smap_get d (smap_ins d m k) j = smap_get d m j"
  by (auto simp: smap_get_def smap_ins_def split: option.split)

section \<open>Decimal printing\<close>

fun digits_of :: "nat \<Rightarrow> string" where
  \<comment> \<open>std::to_string of an unsigned number\<close>
  "digits_of n = (if n < 10 then [char_of (48 + n)] else digits_of (n div 10) @ [char_of (48 + n mod 10)])"

declare digits_of.simps [simp del]

definition digit :: "char \<Rightarrow> bool" where
  "digit c \<longleftrightarrow> 48 \<le> (of_char c :: nat) \<and> (of_char c :: nat) \<le> 57"

fun value_of :: "nat \<Rightarrow> string \<Rightarrow> nat" where
  "value_of acc [] = acc"
| "value_of acc (c # cs) = value_of (10 * acc + (of_char c - 48)) cs"

lemma value_of_append: "value_of acc (xs @ ys) = value_of (value_of acc xs) ys"
  by (induction acc xs rule: value_of.induct) auto

lemma of_char_digit: "n < 10 \<Longrightarrow> (of_char (char_of (48 + n) :: char) :: nat) = 48 + n"
  by simp

lemma value_of_digits_of: "value_of 0 (digits_of n) = n"
proof (induction n rule: digits_of.induct)
  case (1 n)
  show ?case
    using 1 by (cases "n < 10") (simp_all add: digits_of.simps [of n] value_of_append)
qed

lemma digits_of_inj: "digits_of m = digits_of n \<Longrightarrow> m = n"
  by (metis value_of_digits_of)

lemma digits_of_digit: "c \<in> set (digits_of n) \<Longrightarrow> digit c"
proof (induction n rule: digits_of.induct)
  case (1 n)
  then show ?case
    by (cases "n < 10") (auto simp: digits_of.simps [of n] digit_def)
qed

lemma digits_of_nonempty [simp]: "digits_of n \<noteq> []"
  by (simp add: digits_of.simps [of n])

end
