(* ===== verification/Text_Utils.thy ===== *)
theory Text_Utils
  imports Prelude
begin

text \<open>
  The string helpers every demo carries a copy of: \<^verbatim>\<open>SplitString\<close> and
  \<^verbatim>\<open>buffer2PrintableString\<close> (\<^verbatim>\<open>peer_to_peer_framework/src/node_utils.cpp\<close>,
  \<^verbatim>\<open>pre_grpc_demo/src/utils.cpp\<close>), and the \<^verbatim>\<open>istream >> string\<close> of the routing table,
  access map and network map readers. \<^verbatim>\<open>SplitString\<close> of the peer to peer framework takes its
  argument by reference and leaves the last token in it; the one of the proxy demo takes a copy.
  Their loop is a \<^verbatim>\<open>partial_function\<close>, because it does not end on an empty delimiter.
\<close>

section \<open>std::string::find and SplitString\<close>

fun is_prefix :: "string \<Rightarrow> string \<Rightarrow> bool" where
  "is_prefix [] s = True"
| "is_prefix (d # ds) [] = False"
| "is_prefix (d # ds) (c # cs) = (d = c \<and> is_prefix ds cs)"

fun find_str :: "string \<Rightarrow> string \<Rightarrow> nat option" where
  \<comment> \<open>data.find(delimiter); None is npos\<close>
  "find_str d [] = (if d = [] then Some 0 else None)"
| "find_str d (c # s) = (if is_prefix d (c # s) then Some 0 else map_option Suc (find_str d s))"

partial_function (option) split_loop ::
  "string \<Rightarrow> string \<Rightarrow> string list \<Rightarrow> (string list \<times> string) option" where
  "split_loop data delim v =
     (case find_str delim data of
        None \<Rightarrow> Some (v @ [data], data)
      | Some pos \<Rightarrow> split_loop (drop (pos + length delim) data) delim (v @ [take pos data]))"

definition SplitString :: "string \<Rightarrow> string \<Rightarrow> (string list \<times> string) option" where
  \<comment> \<open>node_utils.cpp: the tokens, and what is left in the argument passed by reference\<close>
  "SplitString data delimiter = split_loop data delimiter []"

definition SplitString_copy :: "string \<Rightarrow> string \<Rightarrow> string list option" where
  \<comment> \<open>pre_grpc_demo/src/utils.cpp: the argument is a copy\<close>
  "SplitString_copy data delimiter = map_option fst (split_loop data delimiter [])"

subsection \<open>The one-character delimiter\<close>

fun split_on :: "char \<Rightarrow> string \<Rightarrow> string list" where
  "split_on c [] = [[]]"
| "split_on c (x # s) =
     (if x = c then [] # split_on c s
      else (case split_on c s of [] \<Rightarrow> [[x]] | t # ts \<Rightarrow> (x # t) # ts))"

fun join :: "string \<Rightarrow> string list \<Rightarrow> string" where
  "join d [] = []"
| "join d [t] = t"
| "join d (t # u # ts) = t @ d @ join d (u # ts)"

lemma is_prefix_iff: "is_prefix d s \<longleftrightarrow> (\<exists>r. s = d @ r)"
  by (induction d s rule: is_prefix.induct) auto

lemma find_str_Some:
  "find_str d s = Some p \<Longrightarrow> s = take p s @ d @ drop (p + length d) s \<and> p + length d \<le> length s"
proof (induction d s arbitrary: p rule: find_str.induct)
  case (2 d c s)
  show ?case
  proof (cases "is_prefix d (c # s)")
    case True
    moreover from this obtain r where "c # s = d @ r" by (auto simp: is_prefix_iff)
    moreover from 2(2) True have "p = 0" by simp
    ultimately show ?thesis by simp
  next
    case False
    with 2 obtain q where "find_str d s = Some q" and "p = Suc q" by auto
    with 2(1) [OF False] show ?thesis by auto
  qed
qed (auto split: if_splits)

lemma find_str_None: "d \<noteq> [] \<Longrightarrow> find_str d s = None \<longleftrightarrow> (\<forall>a b. s \<noteq> a @ d @ b)"
proof (induction s)
  case (Cons c s)
  have "(\<exists>a b. c # s = a @ d @ b) \<longleftrightarrow> (\<exists>b. c # s = d @ b) \<or> (\<exists>a b. s = a @ d @ b)"
    by (metis append_Cons append_Nil list.inject neq_Nil_conv)
  with Cons show ?case by (auto simp: is_prefix_iff)
qed auto

lemma find_str_first:
  "find_str d s = Some p \<Longrightarrow> d \<noteq> [] \<Longrightarrow> find_str d (take p s) = None"
proof (induction d s arbitrary: p rule: find_str.induct)
  case (2 d c s)
  show ?case
  proof (cases "is_prefix d (c # s)")
    case False
    with 2 obtain q where q: "find_str d s = Some q" "p = Suc q" by auto
    have "\<not> is_prefix d (c # take q s)"
      using False by (metis append.assoc append_Cons append_take_drop_id is_prefix_iff)
    with 2(1) [OF False q(1) 2(3)] q show ?thesis by simp
  qed (use 2 in auto)
qed (auto split: if_splits)

lemma split_loop_ends:
  assumes "d \<noteq> []"
  shows "\<exists>ts l. split_loop s d v = Some (v @ ts @ [l], l) \<and> join d (ts @ [l]) = s
      \<and> (\<forall>t \<in> set (ts @ [l]). find_str d t = None)"
  using assms
proof (induction "length s" arbitrary: s v rule: less_induct)
  case less
  show ?case
  proof (cases "find_str d s")
    case None
    then have "split_loop s d v = Some (v @ [] @ [s], s)" by (simp add: split_loop.simps)
    with None show ?thesis by (metis append_Nil join.simps(2) list.set_intros(1) set_ConsD empty_iff empty_set)
  next
    case (Some p)
    note fs = find_str_Some [OF Some]
    have "length (drop (p + length d) s) < length s" using fs less.prems by (cases d) auto
    from less.hyps [OF this less.prems, of "v @ [take p s]"]
    obtain ts l where IH: "split_loop (drop (p + length d) s) d (v @ [take p s]) = Some (v @ (take p s # ts) @ [l], l)"
      "join d (ts @ [l]) = drop (p + length d) s" "\<forall>t \<in> set (ts @ [l]). find_str d t = None"
      by auto
    have "join d ((take p s # ts) @ [l]) = s"
      using IH(2) fs by (cases ts) auto
    moreover have "split_loop s d v = Some (v @ (take p s # ts) @ [l], l)"
      using IH(1) Some by (subst split_loop.simps) simp
    ultimately show ?thesis
      using IH(3) find_str_first [OF Some less.prems] by (metis append_Cons set_ConsD)
  qed
qed

lemma split_on_nonempty [simp]: "split_on c s \<noteq> []"
  by (cases s) (auto split: list.splits)

lemma find_str_char: "find_str [c] s = (if c \<in> set s then Some (length (takeWhile (\<lambda>x. x \<noteq> c) s)) else None)"
  by (induction s) auto

lemma split_on_token: "c \<notin> set s \<Longrightarrow> split_on c s = [s]"
  by (induction s) auto

lemma split_on_append: "c \<notin> set a \<Longrightarrow> split_on c (a @ c # b) = a # split_on c b"
  by (induction a) auto

lemma split_on_tokens: "t \<in> set (split_on c s) \<Longrightarrow> c \<notin> set t"
  by (induction s arbitrary: t) (auto split: if_splits list.splits)

lemma join_split_on: "join [c] (split_on c s) = s"
proof (induction s)
  case (Cons x s)
  obtain t ts where "split_on c s = t # ts" by (cases "split_on c s") simp_all
  with Cons show ?case by (cases ts) auto
qed simp

lemma split_on_join: "ts \<noteq> [] \<Longrightarrow> \<forall>t \<in> set ts. c \<notin> set t \<Longrightarrow> split_on c (join [c] ts) = ts"
  by (induction "[c]" ts rule: join.induct) (auto simp: split_on_token split_on_append)

lemma SplitString_char:
  "SplitString s [c] = Some (split_on c s, last (split_on c s))"
proof -
  obtain ts l where *: "split_loop s [c] [] = Some (ts @ [l], l)" "join [c] (ts @ [l]) = s"
    "\<forall>t \<in> set (ts @ [l]). find_str [c] t = None"
    using split_loop_ends [of "[c]" s "[]"] by auto
  then have "split_on c s = ts @ [l]"
    using split_on_join [of "ts @ [l]" c] by (auto simp: find_str_char split: if_splits)
  with * show ?thesis by (simp add: SplitString_def)
qed

lemma SplitString_copy_char: "SplitString_copy s [c] = Some (split_on c s)"
  using SplitString_char [of s c] by (simp add: SplitString_def SplitString_copy_def)

lemma split_loop_empty: "split_loop s [] v = None"
proof -
  have f: "find_str [] s = Some 0" for s by (cases s) simp_all
  have "d \<noteq> []" if "split_loop s d v = Some r" for d r
    by (rule split_loop.raw_induct [where P = "\<lambda>s d v r. d \<noteq> []", OF _ that]) (auto simp: f split: option.splits)
  then show ?thesis by (cases "split_loop s [] v") auto
qed

text \<open>\<^verbatim>\<open>SplitString\<close> returns on every input with a non-empty delimiter: the tokens joined
  with the delimiter are the data, no token contains the delimiter, and the argument passed by
  reference is left with the last token. On an empty delimiter it never returns.\<close>

theorem SplitString_spec:
  "(delim \<noteq> [] \<longrightarrow>
     (\<exists>ts l. SplitString data delim = Some (ts @ [l], l) \<and> join delim (ts @ [l]) = data
        \<and> (\<forall>t \<in> set (ts @ [l]). \<forall>a b. t \<noteq> a @ delim @ b)))
   \<and> SplitString data [] = None"
proof (rule conjI [OF impI])
  assume d: "delim \<noteq> []"
  from split_loop_ends [OF d, of data "[]"] obtain ts l where
    "SplitString data delim = Some (ts @ [l], l)" "join delim (ts @ [l]) = data"
    "\<forall>t \<in> set (ts @ [l]). find_str delim t = None"
    by (auto simp: SplitString_def)
  then show "\<exists>ts l. SplitString data delim = Some (ts @ [l], l) \<and> join delim (ts @ [l]) = data
        \<and> (\<forall>t \<in> set (ts @ [l]). \<forall>a b. t \<noteq> a @ delim @ b)"
    using find_str_None [OF d] by blast
qed (simp add: SplitString_def split_loop_empty)

lemma SplitString_spec_witness:
  "\<exists>ts l. SplitString ''a:b::'' '':'' = Some (ts @ [l], l) \<and> join '':'' (ts @ [l]) = ''a:b::''"
  using SplitString_spec [of "'':''" "''a:b::''"] by blast

section \<open>istream >> string\<close>

definition is_space :: "char \<Rightarrow> bool" where
  \<comment> \<open>isspace of the C locale\<close>
  "is_space c = ((of_char c :: nat) \<in> {9, 10, 11, 12, 13, 32})"

fun tokens_from :: "string \<Rightarrow> string \<Rightarrow> string list" where
  \<comment> \<open>w: the characters of the token being read\<close>
  "tokens_from w [] = (if w = [] then [] else [w])"
| "tokens_from w (c # s) =
     (if is_space c then (if w = [] then tokens_from [] s else w # tokens_from [] s)
      else tokens_from (w @ [c]) s)"

definition tokens :: "string \<Rightarrow> string list" where
  \<comment> \<open>the strings that repeated >> extracts before the stream fails\<close>
  "tokens s = tokens_from [] s"

lemma tokens_Nil [simp]: "tokens [] = []"
  by (simp add: tokens_def)

lemma tokens_from_word:
  "\<forall>c \<in> set w. \<not> is_space c \<Longrightarrow> tokens_from v (w @ s) = tokens_from (v @ w) s"
  by (induction w arbitrary: v) auto

lemma tokens_word:
  "w \<noteq> [] \<Longrightarrow> \<forall>c \<in> set w. \<not> is_space c \<Longrightarrow> is_space e \<Longrightarrow> tokens (w @ e # s) = w # tokens s"
  by (simp add: tokens_def tokens_from_word)

lemma tokens_lines:
  "\<forall>w \<in> set ws. w \<noteq> [] \<and> (\<forall>c \<in> set w. \<not> is_space c) \<Longrightarrow> is_space e
   \<Longrightarrow> tokens (concat (map (\<lambda>w. w @ [e]) ws)) = ws"
  by (induction ws) (auto simp: tokens_word)

lemma tokens_from_ok:
  "t \<in> set (tokens_from w s) \<Longrightarrow> \<forall>c \<in> set w. \<not> is_space c \<Longrightarrow> t \<noteq> [] \<and> (\<forall>c \<in> set t. \<not> is_space c)"
proof (induction w s rule: tokens_from.induct)
  case (2 w c s)
  show ?case
  proof (cases "is_space c")
    case True
    show ?thesis
    proof (cases "w = []")
      case True
      with 2(4) \<open>is_space c\<close> have "t \<in> set (tokens_from [] s)" by simp
      then show ?thesis by (rule 2(1) [OF \<open>is_space c\<close> True]) simp
    next
      case False
      with 2(4) \<open>is_space c\<close> have "t = w \<or> t \<in> set (tokens_from [] s)" by simp
      then show ?thesis
      proof
        assume "t \<in> set (tokens_from [] s)"
        then show ?thesis by (rule 2(2) [OF \<open>is_space c\<close> False]) simp
      qed (use False 2(5) in blast)
    qed
  next
    case False
    have "t \<in> set (tokens_from (w @ [c]) s)" using 2(4) False by simp
    moreover have "\<forall>x \<in> set (w @ [c]). \<not> is_space x" using 2(5) False by auto
    ultimately show ?thesis by (rule 2(3) [OF False])
  qed
qed (simp split: if_splits)

lemma tokens_ok: "t \<in> set (tokens s) \<Longrightarrow> t \<noteq> [] \<and> (\<forall>c \<in> set t. \<not> is_space c)"
  unfolding tokens_def by (erule tokens_from_ok) simp

lemma tokens_append_space:
  "is_space e \<Longrightarrow> tokens ((s @ [e]) @ r) = tokens (s @ [e]) @ tokens r"
proof -
  assume e: "is_space e"
  have "tokens_from w (s @ e # r) = tokens_from w (s @ [e]) @ tokens_from [] r" for w
    using e by (induction s arbitrary: w) auto
  then show ?thesis by (simp add: tokens_def)
qed

section \<open>buffer2PrintableString\<close>

definition schar :: "char \<Rightarrow> int" where
  \<comment> \<open>static_cast of a char to int: signed, as on the platforms OpenFHE builds for by default\<close>
  "schar c = (let n = of_char c in if n < 128 then n else n - 256)"

definition dec :: "int \<Rightarrow> string" where
  \<comment> \<open>stream << int\<close>
  "dec i = (if i < 0 then CHR ''-'' # digits_of (nat (- i)) else digits_of (nat i))"

fun buffer2PrintableString :: "string \<Rightarrow> string" where
  "buffer2PrintableString [] = []"
| "buffer2PrintableString (c # str) =
     (if 31 < schar c then [c] else dec (schar c)) @ buffer2PrintableString str"

fun buffer2PrintableString_len :: "string \<Rightarrow> nat \<Rightarrow> nat \<Rightarrow> string result" where
  \<comment> \<open>the overload on a pointer and a length, from index i with k characters to go\<close>
  "buffer2PrintableString_len str i 0 = Inr []"
| "buffer2PrintableString_len str i (Suc k) =
     rbind (at ''str[i]'' str i) (\<lambda>c.
     rbind (buffer2PrintableString_len str (Suc i) k) (\<lambda>r.
       Inr ((if 31 < schar c then [c] else dec (schar c)) @ r)))"

lemma dec_printable: "c \<in> set (dec i) \<Longrightarrow> 31 < schar c"
proof -
  assume "c \<in> set (dec i)"
  then have "c = CHR ''-'' \<or> digit c" using digits_of_digit by (auto simp: dec_def split: if_splits)
  then show ?thesis
  proof
    assume "digit c"
    then have "48 \<le> (of_char c :: nat)" "(of_char c :: nat) \<le> 57" by (auto simp: digit_def)
    moreover have "(of_char c :: int) = int (of_char c)" by (rule of_nat_of_char [symmetric])
    ultimately have "48 \<le> (of_char c :: int)" "(of_char c :: int) \<le> 57" by linarith+
    then show ?thesis by (simp add: schar_def Let_def)
  qed (simp add: schar_def)
qed

lemma buffer2PrintableString_printable: "c \<in> set (buffer2PrintableString s) \<Longrightarrow> 31 < schar c"
  by (induction s) (auto dest: dec_printable split: if_splits)

lemma buffer2PrintableString_len_eq:
  "i + k \<le> length s \<Longrightarrow> buffer2PrintableString_len s i k = Inr (buffer2PrintableString (take k (drop i s)))"
  by (induction s i k rule: buffer2PrintableString_len.induct) (auto simp: Cons_nth_drop_Suc [symmetric])

section \<open>Lists of numbers as text\<close>

text \<open>A codec for the concrete instances of what the programs serialise.\<close>

definition enc_nats :: "nat list \<Rightarrow> bytes" where
  "enc_nats ns = concat (map (\<lambda>n. replicate n CHR ''x'' @ ''y'') ns)"

definition dec_nats :: "bytes \<Rightarrow> nat list" where
  "dec_nats s = map length (butlast (split_on CHR ''y'' s))"

lemma split_on_x: "split_on CHR ''y'' (replicate n CHR ''x'' @ CHR ''y'' # s) = replicate n CHR ''x'' # split_on CHR ''y'' s"
  by (induction n) simp_all

lemma split_on_not_nil [simp]: "split_on c s \<noteq> []"
  by (induction s) (auto split: list.splits)

lemma dec_enc_nats [simp]: "dec_nats (enc_nats ns) = ns"
  by (induction ns) (simp_all add: enc_nats_def dec_nats_def split_on_x)

lemma enc_nats_nil [simp]: "enc_nats (n # ns) \<noteq> []"
  by (simp add: enc_nats_def)

end
