(* ===== verification/Hex_Codec.thy ===== *)
theory Hex_Codec
  imports Text_Utils
begin

unbundle bit_operations_syntax

text \<open>
  \<^verbatim>\<open>hexstr2intvec\<close> and \<^verbatim>\<open>intvec2hexstr\<close> of \<^verbatim>\<open>pre_grpc_demo/src/utils.cpp\<close>, which the producer
  and the consumer of the proxy demo use to turn an AES key in hexadecimal digits into a vector of
  bits and back. Bytes are \<^verbatim>\<open>unsigned char\<close> (8 word), the vector holds \<^verbatim>\<open>int64_t\<close> (64 word), the
  loop indices are \<^verbatim>\<open>int\<close>s computed from 32-bit unsigned lengths. Reading past the vector is the
  result Undefined; so is the \<^verbatim>\<open>unsigned int i\<close> that \<^verbatim>\<open>iss >> std::hex >> i\<close> leaves unset when the
  two characters are blanks.
\<close>

section \<open>iss >> std::hex >> i\<close>

definition hex_val :: "char \<Rightarrow> nat option" where
  "hex_val c = (let n = of_char c in
     if 48 \<le> n \<and> n \<le> 57 then Some (n - 48)
     else if 97 \<le> n \<and> n \<le> 102 then Some (n - 87)
     else if 65 \<le> n \<and> n \<le> 70 then Some (n - 55)
     else None)"

fun hex_acc :: "u32 \<Rightarrow> string \<Rightarrow> u32" where
  \<comment> \<open>the value of the leading hexadecimal digits\<close>
  "hex_acc acc [] = acc"
| "hex_acc acc (c # s) = (case hex_val c of None \<Rightarrow> acc | Some d \<Rightarrow> hex_acc (16 * acc + of_nat d) s)"

definition scan_hex :: "string \<Rightarrow> u32 result" where
  \<comment> \<open>num_get with the hex flag: blanks, a sign, an optional 0x, digits; 0 when there is no digit\<close>
  "scan_hex s =
     (case dropWhile is_space s of
        [] \<Rightarrow> Inl (Undefined ''i is not set'')
      | c # r \<Rightarrow>
          let neg = (c = CHR ''-'');
              t = (if c = CHR ''-'' \<or> c = CHR ''+'' then r else c # r);
              u = (case t of CHR ''0'' # x # d \<Rightarrow> if x = CHR ''x'' \<or> x = CHR ''X'' then d else t | _ \<Rightarrow> t);
              v = hex_acc 0 u
          in Inr (if neg then - v else v))"

section \<open>The two functions\<close>

function hex_loop :: "string \<Rightarrow> int \<Rightarrow> 8 word list \<Rightarrow> 8 word list result" where
  \<comment> \<open>for (int ix = len-2; ix >= 0; ix -= 2)\<close>
  "hex_loop instr ix raw_bytes =
     (if ix < 0 then Inr raw_bytes
      else rbind (scan_hex (take 2 (drop (nat ix) instr))) (\<lambda>i.
             hex_loop instr (ix - 2) (raw_bytes @ [ucast i])))"
  by pat_completeness auto
termination
  by (relation "measure (\<lambda>(s, ix, r). nat (ix + 2))") auto

declare hex_loop.simps [simp del]

fun to_bits :: "nat \<Rightarrow> int \<Rightarrow> 64 word list" where
  \<comment> \<open>push_back(tmp % 2); tmp /= 2, n times\<close>
  "to_bits 0 tmp = []"
| "to_bits (Suc n) tmp = word_of_int (tmp mod 2) # to_bits n (tmp div 2)"

definition hexstr2intvec :: "string \<Rightarrow> u32 \<Rightarrow> 64 word list result" where
  "hexstr2intvec instr p =
     (if p \<noteq> 2 then Inl (Exit_failure ''only p = 2 is supported'')
      else let len = (of_nat (length instr) :: u32) in
        rbind (hex_loop instr (sint (len - 2)) []) (\<lambda>raw_bytes.
          Inr (concat (map (\<lambda>b. to_bits 8 (uint b)) raw_bytes))))"

fun pack_bits :: "64 word list \<Rightarrow> nat \<Rightarrow> nat \<Rightarrow> nat \<Rightarrow> 8 word \<Rightarrow> 8 word result" where
  \<comment> \<open>tmp |= in_bits[ix+jx] << jx, with k values of jx to go\<close>
  "pack_bits in_bits ix jx 0 tmp = Inr tmp"
| "pack_bits in_bits ix jx (Suc k) tmp =
     rbind (at ''in_bits[ix+jx]'' in_bits (ix + jx)) (\<lambda>b.
       pack_bits in_bits ix (Suc jx) k (ucast (ucast tmp OR push_bit jx b)))"

function pack_bytes :: "64 word list \<Rightarrow> nat \<Rightarrow> 8 word list \<Rightarrow> 8 word list result" where
  \<comment> \<open>for (size_t ix = 0; ix < in_bits.size(); ix += 8)\<close>
  "pack_bytes in_bits ix out_bytes =
     (if ix < length in_bits
      then rbind (pack_bits in_bits ix 0 8 0) (\<lambda>tmp. pack_bytes in_bits (ix + 8) (out_bytes @ [tmp]))
      else Inr out_bytes)"
  by pat_completeness auto
termination
  by (relation "measure (\<lambda>(b, ix, r). length b - ix)") auto

declare pack_bytes.simps [simp del]

definition hex_digit :: "nat \<Rightarrow> char" where
  "hex_digit n = (if n < 10 then char_of (48 + n) else char_of (87 + n))"

definition put_hex :: "8 word \<Rightarrow> string" where
  \<comment> \<open>setw(2), hex, setfill('0')\<close>
  "put_hex b = [hex_digit (unat b div 16), hex_digit (unat b mod 16)]"

function write_loop :: "8 word list \<Rightarrow> int \<Rightarrow> string \<Rightarrow> string result" where
  \<comment> \<open>for (int ix = len-1; ix >= 0; ix--)\<close>
  "write_loop out_bytes ix oss =
     (if ix < 0 then Inr oss
      else rbind (at ''out_bytes[ix]'' out_bytes (nat ix)) (\<lambda>b.
             write_loop out_bytes (ix - 1) (oss @ put_hex b)))"
  by pat_completeness auto
termination
  by (relation "measure (\<lambda>(s, ix, r). nat (ix + 1))") auto

declare write_loop.simps [simp del]

definition intvec2hexstr :: "64 word list \<Rightarrow> u32 \<Rightarrow> string result" where
  "intvec2hexstr in_bits p =
     (if p \<noteq> 2 then Inl (Exit_failure ''only p = 2 is supported'')
      else rbind (pack_bytes in_bits 0 []) (\<lambda>out_bytes.
        let len = (of_nat (length out_bytes) :: u32) in write_loop out_bytes (sint (len - 1)) []))"

section \<open>Bytes and bits\<close>

abbreviation byte_bits :: "8 word \<Rightarrow> 64 word list" where
  "byte_bits b \<equiv> to_bits 8 (uint b)"

lemma to_bits_length [simp]: "length (to_bits n t) = n"
  by (induction n t rule: to_bits.induct) auto

lemma to_bits_01: "x \<in> set (to_bits n t) \<Longrightarrow> x = 0 \<or> x = 1"
  by (induction n t rule: to_bits.induct) (auto simp: mod_2_eq_odd)

lemma to_bits_nth: "i < n \<Longrightarrow> to_bits n t ! i = of_bool (bit t i)"
proof (induction n t arbitrary: i rule: to_bits.induct)
  case (2 n t)
  show ?case
  proof (cases i)
    case 0
    then show ?thesis by (simp add: bit_0 odd_iff_mod_2_eq_one even_iff_mod_2_eq_zero)
  next
    case (Suc j)
    with 2 show ?thesis by (simp add: bit_Suc)
  qed
qed simp

lemma bit_push_of_bool:
  "jx < 8 \<Longrightarrow> bit (push_bit jx (of_bool b :: 64 word)) n \<longleftrightarrow> n = jx \<and> b"
  by (cases b) (auto simp: bit_push_bit_iff bit_1_iff bit_exp_iff simp del: push_bit_of_1)

lemma bit_or_byte:
  fixes t :: "8 word"
  assumes "jx < 8"
  shows "bit (ucast (ucast t OR push_bit jx (of_bool b :: 64 word)) :: 8 word) n \<longleftrightarrow> n < 8 \<and> (bit t n \<or> n = jx \<and> b)"
proof -
  have "bit (ucast (ucast t OR push_bit jx (of_bool b :: 64 word)) :: 8 word) n
      \<longleftrightarrow> n < 8 \<and> (n < 64 \<and> bit t n \<or> bit (push_bit jx (of_bool b :: 64 word)) n)"
    by (simp only: bit_ucast_iff bit_or_iff) simp
  then show ?thesis unfolding bit_push_of_bool [OF assms] by auto
qed

lemma pack_bits_bit:
  assumes "ix + jx + k \<le> length v"
    and "\<forall>i < k. v ! (ix + jx + i) = of_bool (B (jx + i))"
    and "jx + k \<le> 8"
    and "\<forall>n. bit tmp n \<longleftrightarrow> n < jx \<and> B n"
  shows "\<exists>r. pack_bits v ix jx k tmp = Inr r \<and> (\<forall>n. bit r n \<longleftrightarrow> n < jx + k \<and> B n)"
  using assms
proof (induction k arbitrary: jx tmp)
  case (Suc k)
  define t where "t = (ucast (ucast tmp OR push_bit jx (v ! (ix + jx))) :: 8 word)"
  have b: "v ! (ix + jx) = of_bool (B jx)" using Suc.prems(2) by (metis add_0_right zero_less_Suc)
  have jx: "jx < 8" using Suc.prems(3) by simp
  have "bit t n \<longleftrightarrow> n < 8 \<and> (bit tmp n \<or> n = jx \<and> B jx)" for n
    unfolding t_def b by (rule bit_or_byte [OF jx])
  then have "bit t n \<longleftrightarrow> n < Suc jx \<and> B n" for n
    using Suc.prems(4) jx less_Suc_eq [of n jx] by (metis less_trans)
  moreover have "\<forall>i<k. v ! (ix + Suc jx + i) = of_bool (B (Suc jx + i))"
    using Suc.prems(2) by (metis Suc_less_eq add_Suc_right add_Suc_shift)
  ultimately obtain r where "pack_bits v ix (Suc jx) k t = Inr r" "\<forall>n. bit r n \<longleftrightarrow> n < Suc jx + k \<and> B n"
    using Suc.IH [of "Suc jx" t] Suc.prems(1,3) by auto
  then show ?case using Suc.prems(1) by (auto simp: t_def)
qed simp

lemma pack_bits_byte:
  "pack_bits (a @ byte_bits b @ c) (length a) 0 8 0 = Inr b"
proof -
  have "\<exists>r. pack_bits (a @ byte_bits b @ c) (length a) 0 8 0 = Inr r \<and> (\<forall>n. bit r n \<longleftrightarrow> n < 0 + 8 \<and> bit b n)"
    by (rule pack_bits_bit) (auto simp: nth_append to_bits_nth bit_simps)
  then obtain r where r: "pack_bits (a @ byte_bits b @ c) (length a) 0 8 0 = Inr r"
    "\<forall>n. bit r n \<longleftrightarrow> n < 8 \<and> bit b n" by auto
  then have "r = b" by (intro bit_word_eqI) auto
  with r show ?thesis by simp
qed

lemma pack_bytes_bits:
  "pack_bytes (a @ concat (map byte_bits bs)) (length a) out = Inr (out @ bs)"
proof (induction bs arbitrary: a out)
  case (Cons b bs)
  have "pack_bytes (a @ byte_bits b @ concat (map byte_bits bs)) (length a) out
      = pack_bytes ((a @ byte_bits b) @ concat (map byte_bits bs)) (length (a @ byte_bits b)) (out @ [b])"
    by (subst pack_bytes.simps) (simp add: pack_bits_byte)
  with Cons [of "a @ byte_bits b" "out @ [b]"] show ?case by simp
qed (simp add: pack_bytes.simps)

lemma bits_byte:
  assumes "length v = 8" "set v \<subseteq> {0, 1}"
  shows "\<exists>b. v = byte_bits b"
proof -
  define t :: "8 word" where "t = horner_sum of_bool 2 (map (\<lambda>x. x = 1) v)"
  have "v ! i = byte_bits t ! i" if "i < 8" for i
    using assms(1) subsetD [OF assms(2) nth_mem [of i v]] that
    by (auto simp: to_bits_nth t_def bit_simps bit_horner_sum_bit_word_iff)
  with assms(1) have "v = byte_bits t" by (intro nth_equalityI) auto
  then show ?thesis ..
qed

lemma bits_bytes:
  assumes "length v = 8 * n" "set v \<subseteq> {0, 1}"
  shows "\<exists>bs. length bs = n \<and> v = concat (map byte_bits bs)"
  using assms
proof (induction n arbitrary: v)
  case (Suc n)
  obtain b where "take 8 v = byte_bits b"
    using bits_byte [of "take 8 v"] Suc.prems set_take_subset [of 8 v] by auto
  moreover obtain bs where "length bs = n" "drop 8 v = concat (map byte_bits bs)"
    using Suc.IH [of "drop 8 v"] Suc.prems set_drop_subset [of 8 v] by auto
  ultimately show ?case by (intro exI [of _ "b # bs"]) (metis append_take_drop_id concat.simps(2) length_Cons list.simps(9))
qed simp

section \<open>Digits\<close>

definition is_hex :: "char \<Rightarrow> bool" where
  "is_hex c \<longleftrightarrow> hex_val c \<noteq> None"

definition lower_hex :: "char \<Rightarrow> char" where
  "lower_hex c = (case hex_val c of None \<Rightarrow> c | Some d \<Rightarrow> hex_digit d)"

lemma hex_val_less: "hex_val c = Some d \<Longrightarrow> d < 16"
  by (auto simp: hex_val_def Let_def split: if_splits)

lemma hex_val_digit: "d < 16 \<Longrightarrow> hex_val (hex_digit d) = Some d"
  by (simp add: hex_val_def hex_digit_def Let_def)

lemma is_hex_not_space: "is_hex c \<Longrightarrow> \<not> is_space c \<and> c \<notin> {CHR ''-'', CHR ''+'', CHR ''x'', CHR ''X''}"
proof -
  assume "is_hex c"
  then have "let n = (of_char c :: nat) in 48 \<le> n \<and> n \<le> 57 \<or> 97 \<le> n \<and> n \<le> 102 \<or> 65 \<le> n \<and> n \<le> 70"
    by (auto simp: is_hex_def hex_val_def Let_def split: if_splits)
  then show ?thesis by (auto simp: is_space_def Let_def)
qed

lemma scan_hex_pair:
  assumes "hex_val a = Some x" "hex_val b = Some y"
  shows "scan_hex [a, b] = Inr (of_nat (16 * x + y))"
proof -
  have "is_hex a" "is_hex b" using assms by (simp_all add: is_hex_def)
  then have a: "\<not> is_space a" "a \<noteq> CHR ''-''" "a \<noteq> CHR ''+''" and b: "b \<noteq> CHR ''x''" "b \<noteq> CHR ''X''"
    using is_hex_not_space by auto
  have "scan_hex [a, b] = Inr (hex_acc 0 [a, b])"
  proof (cases "a = CHR ''0''")
    case True
    then show ?thesis using a b by (simp add: scan_hex_def)
  next
    case False
    then have "(case [a, b] of CHR ''0'' # x # d \<Rightarrow> (if x = CHR ''x'' \<or> x = CHR ''X'' then d else [a, b]) | _ \<Rightarrow> [a, b]) = [a, b]"
      using b by (auto split: char.splits list.splits bool.splits)
    then show ?thesis using a b by (simp add: scan_hex_def Let_def)
  qed
  then show ?thesis using assms by simp
qed

definition pair_byte :: "char \<times> char \<Rightarrow> 8 word" where
  "pair_byte p = of_nat (16 * the (hex_val (fst p)) + the (hex_val (snd p)))"

definition pairs_str :: "(char \<times> char) list \<Rightarrow> string" where
  "pairs_str ps = concat (map (\<lambda>(a, b). [a, b]) ps)"

definition hex_pairs :: "(char \<times> char) list \<Rightarrow> bool" where
  "hex_pairs ps \<longleftrightarrow> (\<forall>(a, b) \<in> set ps. is_hex a \<and> is_hex b)"

lemma pairs_str_length [simp]: "length (pairs_str ps) = 2 * length ps"
  by (induction ps) (auto simp: pairs_str_def)

lemma pairs_str_append [simp]: "pairs_str (xs @ ys) = pairs_str xs @ pairs_str ys"
  by (simp add: pairs_str_def)

lemma even_pairs: "even (length s) \<Longrightarrow> \<exists>ps. s = pairs_str ps"
proof (induction s rule: induct_list012)
  case (3 a b s)
  then obtain ps where "s = pairs_str ps" by auto
  then have "a # b # s = pairs_str ((a, b) # ps)" by (simp add: pairs_str_def)
  then show ?case ..
qed (simp_all add: pairs_str_def exI [of _ "[]"])

lemma hex_pairs_iff: "hex_pairs ps \<longleftrightarrow> list_all is_hex (pairs_str ps)"
  by (induction ps) (auto simp: hex_pairs_def pairs_str_def)

lemma ucast_byte: "n < 256 \<Longrightarrow> (ucast (of_nat n :: u32) :: 8 word) = of_nat n"
  by (simp add: unsigned_of_nat take_bit_nat_eq_self)

lemma hex_loop_pairs:
  "hex_pairs ps \<Longrightarrow> hex_loop (w @ pairs_str ps @ rest) (int (length w) + 2 * int (length ps) - 2) raw
     = hex_loop (w @ pairs_str ps @ rest) (int (length w) - 2) (raw @ map pair_byte (rev ps))"
proof (induction ps arbitrary: rest raw rule: rev_induct)
  case (snoc p ps)
  obtain a b where p: "p = (a, b)" by (cases p)
  have "is_hex a" "is_hex b" and ps: "hex_pairs ps" using snoc.prems by (auto simp: hex_pairs_def p)
  then obtain x y where xy: "hex_val a = Some x" "hex_val b = Some y" by (auto simp: is_hex_def)
  define s where "s = w @ pairs_str ps @ [a, b] @ rest"
  define ix where "ix = int (length w) + 2 * int (length ps)"
  have nn: "\<not> ix < 0" "nat ix = length (w @ pairs_str ps)" by (simp_all add: ix_def)
  have "take 2 (drop (nat ix) s) = [a, b]" unfolding nn(2) s_def by simp
  then have "hex_loop s ix raw = hex_loop s (ix - 2) (raw @ [pair_byte p])"
    using nn(1) hex_val_less [OF xy(1)] hex_val_less [OF xy(2)] by (subst hex_loop.simps)
      (simp add: scan_hex_pair [OF xy] pair_byte_def p xy ucast_byte del: of_nat_add of_nat_mult)
  also have "\<dots> = hex_loop s (int (length w) - 2) ((raw @ [pair_byte p]) @ map pair_byte (rev ps))"
    using snoc.IH [OF ps, of "[a, b] @ rest" "raw @ [pair_byte p]"] by (simp add: s_def ix_def)
  finally show ?case by (simp add: s_def ix_def p pairs_str_def)
qed (simp add: pairs_str_def)

lemma sint_len: "n < 2 ^ 31 \<Longrightarrow> k \<le> 2 \<Longrightarrow> sint (of_nat n - of_nat k :: u32) = int n - int k"
proof -
  assume n: "n < 2 ^ 31" "k \<le> 2"
  have "(of_nat n - of_nat k :: u32) = word_of_int (int n - int k)" by simp
  also have "sint \<dots> = int n - int k"
    unfolding signed_of_int using n by (subst signed_take_bit_int_eq_self) auto
  finally show ?thesis .
qed

lemma hexstr2intvec_pairs:
  assumes "hex_pairs ps" "length s0 \<le> 1" "length ps < 2 ^ 29"
  shows "hexstr2intvec (s0 @ pairs_str ps) 2 = Inr (concat (map (\<lambda>p. byte_bits (pair_byte p)) (rev ps)))"
proof -
  have "sint (of_nat (length (s0 @ pairs_str ps)) - of_nat 2 :: u32) = int (length s0) + 2 * int (length ps) - 2"
    using assms(2,3) by (subst sint_len) auto
  moreover have "hex_loop (s0 @ pairs_str ps @ []) (int (length s0) - 2) r = Inr r" for r
    using assms(2) by (subst hex_loop.simps) simp
  ultimately show ?thesis
    using hex_loop_pairs [OF assms(1), of s0 "[]" "[]"]
    by (simp add: hexstr2intvec_def Let_def comp_def)
qed

section \<open>Writing the digits\<close>

lemma write_loop_bytes:
  "write_loop (bs @ rest) (int (length bs) - 1) oss = Inr (oss @ concat (map put_hex (rev bs)))"
proof (induction bs arbitrary: oss rest rule: rev_induct)
  case (snoc b bs)
  have "write_loop (bs @ b # rest) (int (length bs)) oss
      = write_loop (bs @ b # rest) (int (length bs) - 1) (oss @ put_hex b)"
    by (subst write_loop.simps) simp
  with snoc [of "b # rest" "oss @ put_hex b"] show ?case by simp
qed (simp add: write_loop.simps)

lemma intvec2hexstr_bytes:
  assumes "length bs < 2 ^ 31"
  shows "intvec2hexstr (concat (map byte_bits bs)) 2 = Inr (concat (map put_hex (rev bs)))"
  using pack_bytes_bits [of "[]" bs "[]"] write_loop_bytes [of bs "[]" "[]"] sint_len [OF assms, of 1]
  by (simp add: intvec2hexstr_def Let_def)

lemma put_hex_pair:
  "is_hex a \<Longrightarrow> is_hex b \<Longrightarrow> put_hex (pair_byte (a, b)) = [lower_hex a, lower_hex b]"
proof -
  assume "is_hex a" "is_hex b"
  then obtain x y where xy: "hex_val a = Some x" "hex_val b = Some y" by (auto simp: is_hex_def)
  note lt = hex_val_less [OF xy(1)] hex_val_less [OF xy(2)]
  have "unat (of_nat (16 * x + y) :: 8 word) = 16 * x + y"
    using lt by (subst unat_of_nat) simp
  with lt xy show ?thesis by (simp add: put_hex_def pair_byte_def lower_hex_def)
qed

lemma put_hex_hex: "\<exists>a b. put_hex w = [a, b] \<and> is_hex a \<and> is_hex b \<and> pair_byte (a, b) = w"
proof -
  have "unat w < 256" using unsigned_less [of w, where ?'a = nat] by simp
  then have "unat w div 16 < 16" "unat w mod 16 < 16" by auto
  moreover have "(of_nat (16 * (unat w div 16) + unat w mod 16) :: 8 word) = w"
    by (simp only: mult_div_mod_eq) simp
  ultimately show ?thesis
    by (simp add: put_hex_def is_hex_def pair_byte_def hex_val_digit del: of_nat_add of_nat_mult)
qed

lemma put_hex_pairs: "\<exists>ps. concat (map put_hex bs) = pairs_str ps \<and> hex_pairs ps \<and> map pair_byte ps = bs"
proof (induction bs)
  case (Cons w bs)
  then obtain ps where "concat (map put_hex bs) = pairs_str ps" "hex_pairs ps" "map pair_byte ps = bs" by auto
  moreover obtain a b where "put_hex w = [a, b]" "is_hex a" "is_hex b" "pair_byte (a, b) = w"
    using put_hex_hex by blast
  ultimately show ?case
    by (intro exI [of _ "(a, b) # ps"]) (simp add: pairs_str_def hex_pairs_def)
qed (auto simp: pairs_str_def hex_pairs_def intro: exI [of _ "[]"])

lemma lower_pairs: "hex_pairs ps \<Longrightarrow> concat (map (\<lambda>p. put_hex (pair_byte p)) ps) = map lower_hex (pairs_str ps)"
  by (induction ps) (auto simp: pairs_str_def hex_pairs_def put_hex_pair)

lemma hex_there_and_back:
  assumes "even (length s)" "list_all is_hex s" "length s < 2 ^ 30"
  shows "\<exists>v. hexstr2intvec s 2 = Inr v \<and> length v = 4 * length s \<and> set v \<subseteq> {0, 1}
    \<and> intvec2hexstr v 2 = Inr (map lower_hex s)"
proof -
  obtain ps where s: "s = pairs_str ps" using even_pairs assms(1) by blast
  have ps: "hex_pairs ps" "length ps < 2 ^ 29" using assms by (simp_all add: s hex_pairs_iff)
  define bs where "bs = map pair_byte (rev ps)"
  have h: "hexstr2intvec s 2 = Inr (concat (map byte_bits bs))"
    using hexstr2intvec_pairs [OF ps(1) _ ps(2), of "[]"] by (simp add: s bs_def comp_def)
  have "concat (map put_hex (rev bs)) = map lower_hex s"
    using lower_pairs [OF ps(1)] by (simp add: bs_def s rev_map comp_def)
  moreover have "intvec2hexstr (concat (map byte_bits bs)) 2 = Inr (concat (map put_hex (rev bs)))"
    using ps(2) by (intro intvec2hexstr_bytes) (simp add: bs_def)
  moreover have "length (concat (map byte_bits bs)) = 4 * length s"
    by (simp add: s bs_def length_concat comp_def sum_list_triv)
  moreover have "set (concat (map byte_bits bs)) \<subseteq> {0, 1}" using to_bits_01 by auto
  ultimately show ?thesis
    by (intro exI [of _ "concat (map byte_bits bs)"] conjI h) simp_all
qed

section \<open>Properties\<close>

text \<open>C39: reading a string of hexadecimal digits of even length (up to 2^30 digits) gives four bits per
  digit, and printing those bits gives the string back in lower case.\<close>

theorem hex_roundtrip:
  assumes "even (length s)" "list_all is_hex s" "length s < 2 ^ 30"
  shows "\<exists>v. hexstr2intvec s 2 = Inr v \<and> length v = 4 * length s \<and> set v \<subseteq> {0, 1}
    \<and> intvec2hexstr v 2 = Inr (map lower_hex s)"
  by (rule hex_there_and_back [OF assms])

text \<open>a vector of zeros and ones whose length is a multiple of eight is printed as two digits per
  byte, and reading those digits gives the vector back.\<close>

theorem bits_roundtrip:
  assumes "8 dvd length v" "set v \<subseteq> {0, 1}" "length v < 2 ^ 31"
  shows "\<exists>s. intvec2hexstr v 2 = Inr s \<and> 4 * length s = length v \<and> hexstr2intvec s 2 = Inr v"
proof -
  from assms(1) obtain n where "length v = 8 * n" ..
  then obtain bs where bs: "length bs = n" "v = concat (map byte_bits bs)"
    using bits_bytes assms(2) by blast
  obtain ps where ps: "concat (map put_hex (rev bs)) = pairs_str ps" "hex_pairs ps" "map pair_byte ps = rev bs"
    using put_hex_pairs by blast
  have n: "length ps = n" using ps(3) bs(1) by (metis length_map length_rev)
  have "intvec2hexstr v 2 = Inr (pairs_str ps)"
    using intvec2hexstr_bytes [of bs] assms(3) \<open>length v = 8 * n\<close> by (simp add: bs ps)
  moreover have "map pair_byte (rev ps) = bs" using ps(3) by (simp add: rev_map [symmetric])
  then have "concat (map (\<lambda>p. byte_bits (pair_byte p)) (rev ps)) = v" by (auto simp: bs(2) comp_def)
  then have "hexstr2intvec (pairs_str ps) 2 = Inr v"
    using hexstr2intvec_pairs [OF ps(2), of "[]"] n assms(3) \<open>length v = 8 * n\<close>
    by simp
  ultimately show ?thesis using n \<open>length v = 8 * n\<close> by auto
qed

text \<open>A digit in front of an even number of hexadecimal digits is ignored: the loop over pairs of
  digits starts at the end and stops before it.\<close>

theorem hex_odd_digit_dropped:
  assumes "even (length s)" "list_all is_hex s" "length s < 2 ^ 30"
  shows "hexstr2intvec (c # s) 2 = hexstr2intvec s 2"
proof -
  obtain ps where s: "s = pairs_str ps" using even_pairs assms(1) by blast
  have ps: "hex_pairs ps" "length ps < 2 ^ 29" using assms by (simp_all add: s hex_pairs_iff)
  show ?thesis
    using hexstr2intvec_pairs [OF ps(1) _ ps(2), of "[c]"] hexstr2intvec_pairs [OF ps(1) _ ps(2), of "[]"]
    by (simp add: s)
qed

lemma hex_roundtrip_witness:
  "\<exists>v. hexstr2intvec ''2B7e'' 2 = Inr v \<and> length v = 16 \<and> intvec2hexstr v 2 = Inr ''2b7e''"
  using hex_roundtrip [of "''2B7e''"] by (auto simp: is_hex_def lower_hex_def hex_val_def hex_digit_def char_of_def bit_0)

lemma bits_roundtrip_witness:
  "\<exists>s. intvec2hexstr [1, 0, 1, 0, 0, 0, 0, 1] 2 = Inr s \<and> hexstr2intvec s 2 = Inr [1, 0, 1, 0, 0, 0, 0, 1]"
  using bits_roundtrip [of "[1, 0, 1, 0, 0, 0, 0, 1]"] by (simp add: dvd_eq_mod_eq_0) blast

lemma hex_odd_digit_dropped_witness: "hexstr2intvec ''f2b'' 2 = hexstr2intvec ''2b'' 2"
  using hex_odd_digit_dropped [of "''2b''" "CHR ''f''"] by (simp add: is_hex_def hex_val_def)

end
