(* ===== verification/Cmdline.thy ===== *)
theory Cmdline
  imports Text_Utils
begin

text \<open>
  \<^verbatim>\<open>processInputParams\<close> of the four programs families (\<^verbatim>\<open>peer_to_peer_framework/src/node_utils.cpp\<close>,
  \<^verbatim>\<open>pre_grpc_demo/src/utils.cpp\<close>, \<^verbatim>\<open>threshnet_aborts_grpc_demo/src/utils.cpp\<close> and
  \<^verbatim>\<open>threshnet_adjacent_measure_demo/src/utils.cpp\<close>) and the parameter structures they fill. What
  \<^verbatim>\<open>getopt_long\<close> returns call by call is an argument: a list of option characters with their
  \<^verbatim>\<open>optarg\<close>, None for the null pointer, ending where the call returns -1. Each loop assigns its
  fields in that order and stops at the first option it does not know; assigning a null
  \<^verbatim>\<open>optarg\<close> to a string is undefined. The directory of the certificates, CERTS_AND_KEYS_DIR, is
  a constant of the build and an argument here.
\<close>

type_synonym parsed = "(char \<times> string option) list"

definition arg :: "string option \<Rightarrow> string result" where
  \<comment> \<open>a std::string made from optarg\<close>
  "arg a = (case a of None \<Rightarrow> Inl (Undefined ''optarg'') | Some s \<Rightarrow> Inr s)"

lemma arg_simps [simp]: "arg (Some s) = Inr s" "arg None = Inl (Undefined ''optarg'')"
  by (simp_all add: arg_def)

fun opt_loop :: "(char \<Rightarrow> string option \<Rightarrow> 'p \<Rightarrow> (bool \<times> 'p) result) \<Rightarrow> parsed \<Rightarrow> 'p \<Rightarrow> (bool \<times> 'p) result" where
  \<comment> \<open>the while loop around the switch: False is return false\<close>
  "opt_loop step [] p = Inr (True, p)"
| "opt_loop step ((opt, a) # os) p =
     rbind (step opt a p) (\<lambda>(go, q). if go then opt_loop step os q else Inr (False, q))"

definition client_key_name :: "string \<Rightarrow> string" where
  "client_key_name n = ''client_'' @ n @ ''.key''"
definition client_crt_name :: "string \<Rightarrow> string" where
  "client_crt_name n = ''client_'' @ n @ ''.crt''"
definition server_key_name :: "string \<Rightarrow> string" where
  "server_key_name n = ''server_'' @ n @ ''.key''"
definition server_crt_name :: "string \<Rightarrow> string" where
  "server_crt_name n = ''server_'' @ n @ ''.crt''"

definition in_dirs :: "string list \<Rightarrow> string \<Rightarrow> string" where
  "in_dirs ds f = concat (map (\<lambda>d. d @ ''/'') ds) @ f"

section \<open>The peer to peer framework\<close>

record CommParams =
  NodeName :: string
  socket_address :: string
  NetworkMapFile :: string
  ApplicationFile :: string
  ExtraArgument :: string
  credentials_location :: string
  disableSSLAuthentication :: bool
  root_cert_file :: string
  server_private_key_file :: string
  server_cert_chain_file :: string
  client_private_key_file :: string
  client_cert_chain_file :: string

definition CommParams0 :: CommParams where
  "CommParams0 = \<lparr> NodeName = [], socket_address = [], NetworkMapFile = [], ApplicationFile = [],
     ExtraArgument = [], credentials_location = [], disableSSLAuthentication = False,
     root_cert_file = [], server_private_key_file = [], server_cert_chain_file = [],
     client_private_key_file = [], client_cert_chain_file = [] \<rparr>"

definition comm_switch :: "char \<Rightarrow> string option \<Rightarrow> CommParams \<Rightarrow> (bool \<times> CommParams) result" where
  "comm_switch opt a p =
     (if opt = CHR ''n'' then rbind (arg a) (\<lambda>s. Inr (True, p\<lparr>NodeName := s\<rparr>))
      else if opt = CHR ''s'' then rbind (arg a) (\<lambda>s. Inr (True, p\<lparr>socket_address := s\<rparr>))
      else if opt = CHR ''m'' then rbind (arg a) (\<lambda>s. Inr (True, p\<lparr>NetworkMapFile := s\<rparr>))
      else if opt = CHR ''f'' then rbind (arg a) (\<lambda>s. Inr (True, p\<lparr>ApplicationFile := s\<rparr>))
      else if opt = CHR ''e'' then rbind (arg a) (\<lambda>s. Inr (True, p\<lparr>ExtraArgument := s\<rparr>))
      else if opt = CHR ''l'' then rbind (arg a) (\<lambda>s. Inr (True, p\<lparr>credentials_location := s\<rparr>))
      else if opt = CHR ''W'' then rbind (arg a) (\<lambda>s.
        if s = ''ssloff'' then Inr (True, p\<lparr>disableSSLAuthentication := True\<rparr>) else Inr (False, p))
      else Inr (False, p))"

definition comm_files :: "CommParams \<Rightarrow> CommParams" where
  "comm_files p =
     (let l = credentials_location p; n = NodeName p in
      p\<lparr>root_cert_file := in_dirs [l, n] ''ca.crt'',
        server_private_key_file := in_dirs [l, n] (server_key_name n),
        server_cert_chain_file := in_dirs [l, n] (server_crt_name n),
        client_private_key_file := in_dirs [l, n] (client_key_name n),
        client_cert_chain_file := in_dirs [l, n] (client_crt_name n)\<rparr>)"

definition processInputParams :: "string \<Rightarrow> parsed \<Rightarrow> CommParams \<Rightarrow> (bool \<times> CommParams) result" where
  "processInputParams certs_dir opts outParams =
     rbind (opt_loop comm_switch opts outParams) (\<lambda>(ok, p).
       if \<not> ok then Inr (False, p)
       else if socket_address p = [] then Inr (False, p)
       else
         let p = (if socket_address p = [] then p\<lparr>socket_address := ''0.0.0.0:00''\<rparr> else p);
             p = (if credentials_location p = [] then p\<lparr>credentials_location := certs_dir\<rparr> else p)
         in Inr (True, comm_files p))"

section \<open>The proxy re-encryption demo\<close>

record PreParams =
  pre_process_name :: string
  security_model :: string
  pre_disableSSL :: bool
  key_server_socket_address :: string
  upstream_key_server_socket_address :: string
  broker_socket_address :: string
  upstream_broker_name :: string
  upstream_broker_socket_address :: string
  channel_name :: string
  pre_credentials_location :: string
  pre_root_cert_file :: string
  pre_server_private_key_file :: string
  pre_server_cert_chain_file :: string
  pre_client_private_key_file :: string
  pre_client_cert_chain_file :: string
  producer_aes_key :: string
  consumer_aes_key :: string
  routingtablepath :: string
  access_map_path :: string

definition PreParams0 :: PreParams where
  "PreParams0 = \<lparr> pre_process_name = [], security_model = [], pre_disableSSL = False,
     key_server_socket_address = [], upstream_key_server_socket_address = [],
     broker_socket_address = [], upstream_broker_name = [], upstream_broker_socket_address = [],
     channel_name = [], pre_credentials_location = [], pre_root_cert_file = [],
     pre_server_private_key_file = [], pre_server_cert_chain_file = [],
     pre_client_private_key_file = [], pre_client_cert_chain_file = [],
     producer_aes_key = ''demoData/keys/producer_aes_key'',
     consumer_aes_key = ''demoData/keys/consumer_aes_key'',
     routingtablepath = ''demoData/routingTables/'', access_map_path = [] \<rparr>"

definition pre_switch :: "char \<Rightarrow> string option \<Rightarrow> PreParams \<Rightarrow> (bool \<times> PreParams) result" where
  "pre_switch opt a p =
     (if opt = CHR ''k'' then rbind (arg a) (\<lambda>s. Inr (True, p\<lparr>key_server_socket_address := s\<rparr>))
      else if opt = CHR ''u'' then rbind (arg a) (\<lambda>s. Inr (True, p\<lparr>upstream_broker_socket_address := s\<rparr>))
      else if opt = CHR ''d'' then rbind (arg a) (\<lambda>s. Inr (True, p\<lparr>broker_socket_address := s\<rparr>))
      else if opt = CHR ''i'' then rbind (arg a) (\<lambda>s. Inr (True, p\<lparr>upstream_broker_name := s\<rparr>))
      else if opt = CHR ''s'' then rbind (arg a) (\<lambda>s. Inr (True, p\<lparr>upstream_key_server_socket_address := s\<rparr>))
      else if opt = CHR ''c'' then rbind (arg a) (\<lambda>s. Inr (True, p\<lparr>channel_name := s\<rparr>))
      else if opt = CHR ''l'' then rbind (arg a) (\<lambda>s. Inr (True, p\<lparr>pre_credentials_location := s\<rparr>))
      else if opt = CHR ''m'' then rbind (arg a) (\<lambda>s. Inr (True, p\<lparr>security_model := s\<rparr>))
      else if opt = CHR ''n'' then rbind (arg a) (\<lambda>s. Inr (True, p\<lparr>pre_process_name := s\<rparr>))
      else if opt = CHR ''a'' then rbind (arg a) (\<lambda>s. Inr (True, p\<lparr>access_map_path := s\<rparr>))
      else if opt = CHR ''W'' then rbind (arg a) (\<lambda>s.
        if s = ''ssloff'' then Inr (True, p\<lparr>pre_disableSSL := True\<rparr>) else Inr (False, p))
      else Inr (False, p))"

definition pre_files :: "PreParams \<Rightarrow> PreParams" where
  "pre_files p =
     (let l = pre_credentials_location p; n = pre_process_name p in
      p\<lparr>pre_root_cert_file := in_dirs [l, n] ''ca.crt'',
        pre_server_private_key_file := in_dirs [l, n] (server_key_name n),
        pre_server_cert_chain_file := in_dirs [l, n] (server_crt_name n),
        pre_client_private_key_file := in_dirs [l, n] (client_key_name n),
        pre_client_cert_chain_file := in_dirs [l, n] (client_crt_name n)\<rparr>)"

definition processInputParams_pre :: "string \<Rightarrow> parsed \<Rightarrow> PreParams \<Rightarrow> (bool \<times> PreParams) result" where
  "processInputParams_pre certs_dir opts outParams =
     rbind (opt_loop pre_switch opts outParams) (\<lambda>(ok, p).
       if \<not> ok then Inr (False, p)
       else if security_model p = [] then Inr (False, p)
       else if key_server_socket_address p = [] then Inr (False, p)
       else
         let p = (if key_server_socket_address p = [] then p\<lparr>key_server_socket_address := ''0.0.0.0:00''\<rparr> else p);
             p = (if pre_credentials_location p = [] then p\<lparr>pre_credentials_location := certs_dir\<rparr> else p)
         in Inr (True, pre_files p))"

section \<open>The threshold demos\<close>

fun digits_val :: "int \<Rightarrow> string \<Rightarrow> int" where
  "digits_val acc [] = acc"
| "digits_val acc (c # s) = (if digit c then digits_val (10 * acc + (of_char c - 48)) s else acc)"

definition atoi :: "string \<Rightarrow> int result" where
  \<comment> \<open>blanks, a sign, digits; a value outside int is undefined\<close>
  "atoi s =
     (let t = dropWhile is_space s;
          v = (case t of [] \<Rightarrow> 0
                | c # r \<Rightarrow> if c = CHR ''-'' then - digits_val 0 r
                           else if c = CHR ''+'' then digits_val 0 r else digits_val 0 t)
      in if - (2 ^ 31) \<le> v \<and> v < 2 ^ 31 then Inr v else Inl (Undefined ''atoi''))"

record ThrParams =
  host_name :: string
  thr_process_name :: string
  port :: string
  thr_credentials_location :: string
  client_id :: string
  Num_of_parties :: string
  aborts :: string
  computation :: string
  thr_disableSSL :: bool
  thr_socket_address :: string
  thr_root_cert_file :: string
  thr_server_private_key_file :: string
  thr_server_cert_chain_file :: string
  thr_client_private_key_file :: string
  thr_client_cert_chain_file :: string

record AdjParams = ThrParams +
  measure_id :: string
  controller_socket_address :: string
  input_file :: string

definition ThrParams0 :: ThrParams where
  "ThrParams0 = \<lparr> host_name = [], thr_process_name = [], port = [], thr_credentials_location = [],
     client_id = [], Num_of_parties = [], aborts = [], computation = [], thr_disableSSL = False,
     thr_socket_address = [], thr_root_cert_file = [], thr_server_private_key_file = [],
     thr_server_cert_chain_file = [], thr_client_private_key_file = [], thr_client_cert_chain_file = [] \<rparr>"

definition AdjParams0 :: AdjParams where
  "AdjParams0 = ThrParams.extend ThrParams0 \<lparr> measure_id = [], controller_socket_address = [], input_file = [] \<rparr>"

definition aborts_switch :: "char \<Rightarrow> string option \<Rightarrow> ThrParams \<Rightarrow> (bool \<times> ThrParams) result" where
  "aborts_switch opt a p =
     (if opt = CHR ''i'' then rbind (arg a) (\<lambda>s. Inr (True, p\<lparr>host_name := s\<rparr>))
      else if opt = CHR ''l'' then rbind (arg a) (\<lambda>s. Inr (True, p\<lparr>thr_credentials_location := s\<rparr>))
      else if opt = CHR ''d'' then rbind (arg a) (\<lambda>s. Inr (True, p\<lparr>client_id := s\<rparr>))
      else if opt = CHR ''m'' then rbind (arg a) (\<lambda>s. Inr (True, p\<lparr>Num_of_parties := s\<rparr>))
      else if opt = CHR ''n'' then rbind (arg a) (\<lambda>s. Inr (True, p\<lparr>thr_process_name := s\<rparr>))
      else if opt = CHR ''a'' then Inr (True, p\<lparr>aborts := ''1''\<rparr>)
      else if opt = CHR ''c'' then rbind (arg a) (\<lambda>s. Inr (True, p\<lparr>computation := s\<rparr>))
      else if opt = CHR ''p'' then rbind (arg a) (\<lambda>s. Inr (True, p\<lparr>port := s\<rparr>))
      else if opt = CHR ''W'' then rbind (arg a) (\<lambda>s.
        if s = ''ssloff'' then Inr (True, p\<lparr>thr_disableSSL := True\<rparr>) else Inr (False, p))
      else Inr (False, p))"

definition adjacent_switch :: "char \<Rightarrow> string option \<Rightarrow> AdjParams \<Rightarrow> (bool \<times> AdjParams) result" where
  "adjacent_switch opt a p =
     (if opt = CHR ''i'' then rbind (arg a) (\<lambda>s. Inr (True, p\<lparr>host_name := s\<rparr>))
      else if opt = CHR ''l'' then rbind (arg a) (\<lambda>s. Inr (True, p\<lparr>thr_credentials_location := s\<rparr>))
      else if opt = CHR ''d'' then rbind (arg a) (\<lambda>s. Inr (True, p\<lparr>client_id := s\<rparr>))
      else if opt = CHR ''s'' then rbind (arg a) (\<lambda>s. Inr (True, p\<lparr>measure_id := s\<rparr>))
      else if opt = CHR ''m'' then rbind (arg a) (\<lambda>s. Inr (True, p\<lparr>Num_of_parties := s\<rparr>))
      else if opt = CHR ''n'' then rbind (arg a) (\<lambda>s. Inr (True, p\<lparr>thr_process_name := s\<rparr>))
      else if opt = CHR ''a'' then rbind (arg a) (\<lambda>s. Inr (True, p\<lparr>aborts := s\<rparr>))
      else if opt = CHR ''c'' then rbind (arg a) (\<lambda>s. Inr (True, p\<lparr>computation := s\<rparr>))
      else if opt = CHR ''o'' then rbind (arg a) (\<lambda>s. Inr (True, p\<lparr>controller_socket_address := s\<rparr>))
      else if opt = CHR ''f'' then rbind (arg a) (\<lambda>s. Inr (True, p\<lparr>input_file := s\<rparr>))
      else if opt = CHR ''p'' then rbind (arg a) (\<lambda>s. Inr (True, p\<lparr>port := s\<rparr>))
      else if opt = CHR ''W'' then rbind (arg a) (\<lambda>s.
        if s = ''ssloff'' then Inr (True, p\<lparr>thr_disableSSL := True\<rparr>) else Inr (False, p))
      else Inr (False, p))"

definition thr_files :: "'a ThrParams_scheme \<Rightarrow> 'a ThrParams_scheme" where
  "thr_files p =
     (let l = thr_credentials_location p; n = thr_process_name p in
      p\<lparr>thr_root_cert_file := in_dirs [l] ''ca.crt'',
        thr_server_private_key_file := in_dirs [l, n] (server_key_name n),
        thr_server_cert_chain_file := in_dirs [l, n] (server_crt_name n),
        thr_client_private_key_file := in_dirs [l, n] (client_key_name n),
        thr_client_cert_chain_file := in_dirs [l, n] (client_crt_name n)\<rparr>)"

definition thr_finish :: "string \<Rightarrow> 'a ThrParams_scheme \<Rightarrow> (bool \<times> 'a ThrParams_scheme) result" where
  \<comment> \<open>what follows the loop: the check of the port and the defaults\<close>
  "thr_finish certs_dir p =
     (if port p = [] then Inr (False, p)
      else rbind (atoi (port p)) (\<lambda>n.
        if n < 0 \<or> n > 65535 then Inr (False, p)
        else
          let p = (if host_name p = [] then p\<lparr>host_name := ''0.0.0.0''\<rparr> else p);
              p = (if thr_credentials_location p = [] then p\<lparr>thr_credentials_location := certs_dir\<rparr> else p);
              p = p\<lparr>thr_socket_address := host_name p @ '':'' @ port p\<rparr>
          in Inr (True, thr_files p)))"

definition processInputParams_aborts :: "string \<Rightarrow> parsed \<Rightarrow> ThrParams \<Rightarrow> (bool \<times> ThrParams) result" where
  "processInputParams_aborts certs_dir opts outParams =
     rbind (opt_loop aborts_switch opts (outParams\<lparr>aborts := ''0''\<rparr>)) (\<lambda>(ok, p).
       if ok then thr_finish certs_dir p else Inr (False, p))"

definition processInputParams_adjacent :: "string \<Rightarrow> parsed \<Rightarrow> AdjParams \<Rightarrow> (bool \<times> AdjParams) result" where
  "processInputParams_adjacent certs_dir opts outParams =
     rbind (opt_loop adjacent_switch opts outParams) (\<lambda>(ok, p).
       if ok then thr_finish certs_dir p else Inr (False, p))"

section \<open>Properties\<close>

fun last_arg :: "char \<Rightarrow> parsed \<Rightarrow> string \<Rightarrow> string" where
  \<comment> \<open>the argument of the last occurrence of an option\<close>
  "last_arg c [] d = d"
| "last_arg c ((k, a) # os) d = last_arg c os (if k = c then (case a of None \<Rightarrow> d | Some s \<Rightarrow> s) else d)"

definition comm_opt_ok :: "char \<times> string option \<Rightarrow> bool" where
  "comm_opt_ok x = (case x of (c, None) \<Rightarrow> False
     | (c, Some s) \<Rightarrow> c \<in> set ''nsmfel'' \<or> (c = CHR ''W'' \<and> s = ''ssloff''))"

lemma comm_loop:
  "list_all comm_opt_ok opts \<Longrightarrow>
   opt_loop comm_switch opts p = Inr (True, p\<lparr>
     NodeName := last_arg CHR ''n'' opts (NodeName p),
     socket_address := last_arg CHR ''s'' opts (socket_address p),
     NetworkMapFile := last_arg CHR ''m'' opts (NetworkMapFile p),
     ApplicationFile := last_arg CHR ''f'' opts (ApplicationFile p),
     ExtraArgument := last_arg CHR ''e'' opts (ExtraArgument p),
     credentials_location := last_arg CHR ''l'' opts (credentials_location p),
     disableSSLAuthentication := disableSSLAuthentication p \<or> CHR ''W'' \<in> fst ` set opts\<rparr>)"
proof (induction opts arbitrary: p)
  case (Cons x os)
  obtain c s where [simp]: "x = (c, Some s)"
    using Cons.prems by (cases x; cases "snd x") (auto simp: comm_opt_ok_def)
  have "c \<in> set ''nsmfel'' \<or> c = CHR ''W'' \<and> s = ''ssloff''"
    using Cons.prems by (simp add: comm_opt_ok_def)
  then consider "c = CHR ''n''" | "c = CHR ''s''" | "c = CHR ''m''" | "c = CHR ''f''" | "c = CHR ''e''"
    | "c = CHR ''l''" | "c = CHR ''W''" "s = ''ssloff''" by auto
  then show ?case
    using Cons by cases (simp_all add: comm_switch_def)
qed simp

text \<open>C40: command lines of the peer to peer programs. When every option is known and has its argument,
  the parameters are these and no others: the last occurrence of each of the options n, s, m, f, e and l counts,
  authentication is off exactly when -Wssloff was given, the directory of the certificates is the default one when
  none was given, and the five certificate files are named after it and the node. An empty address is
  refused.\<close>

theorem processInputParams_spec:
  fixes opts :: parsed and certs_dir :: string
  assumes "list_all comm_opt_ok opts"
  defines "addr \<equiv> last_arg CHR ''s'' opts []" and "n \<equiv> last_arg CHR ''n'' opts []"
    and "l \<equiv> (if last_arg CHR ''l'' opts [] = [] then certs_dir else last_arg CHR ''l'' opts [])"
  shows "\<exists>q. processInputParams certs_dir opts CommParams0 = Inr (addr \<noteq> [], q)
    \<and> (addr \<noteq> [] \<longrightarrow> q = \<lparr> NodeName = n, socket_address = addr,
         NetworkMapFile = last_arg CHR ''m'' opts [], ApplicationFile = last_arg CHR ''f'' opts [],
         ExtraArgument = last_arg CHR ''e'' opts [], credentials_location = l,
         disableSSLAuthentication = (CHR ''W'' \<in> fst ` set opts),
         root_cert_file = l @ ''/'' @ n @ ''/ca.crt'',
         server_private_key_file = l @ ''/'' @ n @ ''/server_'' @ n @ ''.key'',
         server_cert_chain_file = l @ ''/'' @ n @ ''/server_'' @ n @ ''.crt'',
         client_private_key_file = l @ ''/'' @ n @ ''/client_'' @ n @ ''.key'',
         client_cert_chain_file = l @ ''/'' @ n @ ''/client_'' @ n @ ''.crt'' \<rparr>)"
  by (simp add: processInputParams_def comm_loop [OF assms(1)] addr_def n_def l_def comm_files_def
      CommParams0_def in_dirs_def client_crt_name_def client_key_name_def server_key_name_def server_crt_name_def Let_def)

lemma opt_loop_induct:
  assumes "opt_loop step opts p = Inr (True, q)"
    and "P [] p"
    and "\<And>os c a p q. P os p \<Longrightarrow> (c, a) \<in> set opts \<Longrightarrow> step c a p = Inr (True, q) \<Longrightarrow> P (os @ [(c, a)]) q"
  shows "P opts q"
proof -
  have "P (pre @ opts') q" if "opt_loop step opts' p = Inr (True, q)" "P pre p" "set opts' \<subseteq> set opts" for pre opts' p
    using that
  proof (induction opts' arbitrary: pre p)
    case (Cons x os)
    obtain c a where o: "x = (c, a)" by (cases x)
    from Cons.prems(1) o obtain r where r: "step c a p = Inr (True, r)" "opt_loop step os r = Inr (True, q)"
      by (auto simp: rbind_Inr_iff split: if_splits)
    have "P (pre @ [x]) r" using assms(3) [OF Cons.prems(2) _ r(1)] Cons.prems(3) o by simp
    from Cons.IH [OF r(2) this] Cons.prems(3) show ?case by simp
  qed simp
  from this [of opts p "[]"] assms show ?thesis by simp
qed

lemma aborts_loop_flag:
  assumes "opt_loop aborts_switch opts p = Inr (True, q)" "aborts p = ''0''"
  shows "aborts q = (if CHR ''a'' \<in> fst ` set opts then ''1'' else ''0'')"
  by (rule opt_loop_induct [OF assms(1), where P = "\<lambda>os p. aborts p = (if CHR ''a'' \<in> fst ` set os then ''1'' else ''0'')"])
    (use assms(2) in \<open>auto simp: aborts_switch_def rbind_Inr_iff split: if_splits\<close>)

text \<open>Command lines of the threshold clients and servers. When they are accepted, the port reads as
  a number from 0 to 65535, the socket address is the host and the port, the host is never
  empty, and the aborting flag is 1 exactly when -a was given.\<close>

theorem processInputParams_aborts_accepts:
  assumes "processInputParams_aborts certs_dir opts p = Inr (True, q)"
  shows "(\<exists>n. atoi (port q) = Inr n \<and> 0 \<le> n \<and> n \<le> 65535) \<and> host_name q \<noteq> []
    \<and> thr_socket_address q = host_name q @ '':'' @ port q
    \<and> aborts q = (if CHR ''a'' \<in> fst ` set opts then ''1'' else ''0'')"
proof -
  from assms obtain r where r: "opt_loop aborts_switch opts (p\<lparr>aborts := ''0''\<rparr>) = Inr (True, r)"
    "thr_finish certs_dir r = Inr (True, q)"
    by (auto simp: processInputParams_aborts_def rbind_Inr_iff split: if_splits)
  then have "aborts r = (if CHR ''a'' \<in> fst ` set opts then ''1'' else ''0'')"
    by (intro aborts_loop_flag) auto
  with r(2) show ?thesis
    by (auto simp: thr_finish_def thr_files_def Let_def rbind_Inr_iff split: if_splits)
qed

lemma processInputParams_spec_witness:
  "list_all comm_opt_ok [(CHR ''n'', Some ''Node1''), (CHR ''s'', Some ''localhost:50051''), (CHR ''f'', Some ''app''), (CHR ''W'', Some ''ssloff'')]
   \<and> (\<exists>q. processInputParams ''certs'' [(CHR ''n'', Some ''Node1''), (CHR ''s'', Some ''localhost:50051''), (CHR ''f'', Some ''app''),
        (CHR ''W'', Some ''ssloff'')] CommParams0 = Inr (True, q)
      \<and> root_cert_file q = ''certs/Node1/ca.crt'' \<and> client_private_key_file q = ''certs/Node1/client_Node1.key''
      \<and> ApplicationFile q = ''app'' \<and> disableSSLAuthentication q)"
  using processInputParams_spec [of "[(CHR ''n'', Some ''Node1''), (CHR ''s'', Some ''localhost:50051''), (CHR ''f'', Some ''app''),
    (CHR ''W'', Some ''ssloff'')]" "''certs''"]
  by (auto simp: comm_opt_ok_def)

lemma processInputParams_aborts_accepts_witness:
  "\<exists>q. processInputParams_aborts ''certs'' [(CHR ''p'', Some ''50050''), (CHR ''a'', None)] ThrParams0 = Inr (True, q)
     \<and> aborts q = ''1'' \<and> thr_socket_address q = ''0.0.0.0:50050''"
proof -
  have "\<exists>q. processInputParams_aborts ''certs'' [(CHR ''p'', Some ''50050''), (CHR ''a'', None)] ThrParams0 = Inr (True, q)
      \<and> host_name q = ''0.0.0.0'' \<and> port q = ''50050''"
    by (simp add: processInputParams_aborts_def aborts_switch_def thr_finish_def thr_files_def atoi_def Let_def
        ThrParams0_def digit_def is_space_def)
  then obtain q where q: "processInputParams_aborts ''certs'' [(CHR ''p'', Some ''50050''), (CHR ''a'', None)] ThrParams0 = Inr (True, q)"
    "host_name q = ''0.0.0.0''" "port q = ''50050''" by blast
  then show ?thesis using processInputParams_aborts_accepts [OF q(1)] by auto
qed

end
