(* ===== verification/Routing_Table.thy ===== *)
theory Routing_Table
  imports Text_Utils
begin

text \<open>
  The brokers' routing table files and the key server's access map
  (\<^verbatim>\<open>pre_grpc_demo/src/utils.cpp\<close>). The file system is a map from paths to contents; whether a path
  can be opened for writing is a predicate given with it. A routing table has one line
  \<^verbatim>\<open>channel:source>destination;flag\<close> per entry and is appended to; reading it collects the entries of
  one destination in a \<^verbatim>\<open>std::map\<close> of three-element vectors, a later line replacing an earlier one of the
  same channel. The three delimiters are one character each, so the tokens are those of
  \<open>split_on\<close> (lemma \<open>SplitString_copy_char\<close>).
\<close>

type_synonym files = "string \<rightharpoonup> string"
type_synonym channels = "string \<rightharpoonup> string list"

section \<open>Operations\<close>

fun parse_lines :: "string \<Rightarrow> string list \<Rightarrow> channels \<Rightarrow> channels result" where
  \<comment> \<open>while (routingTable >> data)\<close>
  "parse_lines destination_client_name [] channel = Inr channel"
| "parse_lines destination_client_name (data # rest) channel =
     (let channelNameSplit = split_on CHR '':'' data in
      rbind (at ''channelNameSplit'' channelNameSplit 0) (\<lambda>channelName.
      rbind (at ''channelNameSplit'' channelNameSplit 1) (\<lambda>cns1.
      let channelSourceSplit = split_on CHR ''>'' cns1 in
      rbind (at ''channelSourceSplit'' channelSourceSplit 0) (\<lambda>channelSource.
      rbind (at ''channelSourceSplit'' channelSourceSplit 1) (\<lambda>css1.
      let channelDestSplit = split_on CHR '';'' css1 in
      rbind (at ''channelDestSplit'' channelDestSplit 0) (\<lambda>channelDest.
      rbind (at ''channelDestSplit'' channelDestSplit 1) (\<lambda>channelFlag.
        parse_lines destination_client_name rest
          (if channelDest = destination_client_name
           then channel(channelName \<mapsto> [channelSource, channelDest, channelFlag])
           else channel))))))))"

definition ParseRoutingTable :: "files \<Rightarrow> string \<Rightarrow> string \<Rightarrow> string \<Rightarrow> channels result" where
  "ParseRoutingTable fs routingtablepath broker_name destination_client_name =
     (case fs (routingtablepath @ broker_name) of
        None \<Rightarrow> Inl (Exit_failure ''Unable to open routing table file'')
      | Some content \<Rightarrow>
          if content \<noteq> [] then parse_lines destination_client_name (tokens content) Map.empty
          else Inr Map.empty)"

definition routing_line :: "string \<Rightarrow> string \<Rightarrow> string \<Rightarrow> bool \<Rightarrow> string" where
  "routing_line channel_name upstream_client_name downstream_client_name source_sink_flag =
     (let source_sink = (if source_sink_flag then ''source'' else []) in
      channel_name @ '':'' @ upstream_client_name @ ''>'' @ downstream_client_name @ '';'' @ source_sink)"

definition newline :: char where "newline = CHR 0x0A"

definition UpdateRoutingTable ::
  "(string \<Rightarrow> bool) \<Rightarrow> files \<Rightarrow> string \<Rightarrow> string \<Rightarrow> string \<Rightarrow> string \<Rightarrow> string \<Rightarrow> bool \<Rightarrow> files result" where
  "UpdateRoutingTable writable fs routingtablepath channel_name broker_name upstream_client_name
     downstream_client_name source_sink_flag =
     (let routingTableFile = routingtablepath @ broker_name in
      if \<not> writable routingTableFile then Inl (Exit_failure ''Unable to open routing table file'')
      else
        let data = routing_line channel_name upstream_client_name downstream_client_name source_sink_flag;
            old = (case fs routingTableFile of None \<Rightarrow> [] | Some c \<Rightarrow> c)
        in Inr (fs(routingTableFile \<mapsto> old @ data @ [newline])))"

definition ClearRoutingTable :: "(string \<Rightarrow> bool) \<Rightarrow> files \<Rightarrow> string \<Rightarrow> files" where
  \<comment> \<open>opening with trunc; a file that cannot be opened is left as it is\<close>
  "ClearRoutingTable writable fs routingtablefile =
     (if writable routingtablefile then fs(routingtablefile \<mapsto> []) else fs)"

definition ParseAccessMap :: "files \<Rightarrow> string \<Rightarrow> string list result" where
  "ParseAccessMap fs accessmappath =
     (case fs accessmappath of
        None \<Rightarrow> Inl (Exit_failure ''Unable to open access map file'')
      | Some content \<Rightarrow> Inr (tokens content))"

section \<open>Lemmas\<close>

definition clean :: "string \<Rightarrow> bool" where
  \<comment> \<open>a name that survives the file format\<close>
  "clean s \<longleftrightarrow> (\<forall>c \<in> set s. \<not> is_space c \<and> c \<notin> set '':>;'')"

record entry =
  ent_channel :: string
  ent_up :: string
  ent_down :: string
  ent_source :: bool

definition entry_line :: "entry \<Rightarrow> string" where
  "entry_line e = routing_line (ent_channel e) (ent_up e) (ent_down e) (ent_source e)"

definition entry_ok :: "entry \<Rightarrow> bool" where
  "entry_ok e \<longleftrightarrow> clean (ent_channel e) \<and> clean (ent_up e) \<and> clean (ent_down e)"

definition entry_value :: "entry \<Rightarrow> string list" where
  "entry_value e = [ent_up e, ent_down e, if ent_source e then ''source'' else []]"

definition entries_map :: "string \<Rightarrow> entry list \<Rightarrow> channels \<Rightarrow> channels" where
  \<comment> \<open>what a table of these entries means for one destination\<close>
  "entries_map dest es m =
     foldl (\<lambda>m e. if ent_down e = dest then m(ent_channel e \<mapsto> entry_value e) else m) m es"

lemma newline_space [simp]: "is_space newline"
  by (simp add: newline_def is_space_def)

lemma source_clean: "clean ''source''"
  by (simp add: clean_def is_space_def)

lemma clean_space: "clean s \<Longrightarrow> \<forall>c \<in> set s. \<not> is_space c"
  by (auto simp: clean_def)

lemma clean_delim: "clean s \<Longrightarrow> CHR '':'' \<notin> set s \<and> CHR ''>'' \<notin> set s \<and> CHR '';'' \<notin> set s"
  by (auto simp: clean_def)

lemma delim_not_space: "\<not> is_space CHR '':''" "\<not> is_space CHR ''>''" "\<not> is_space CHR '';''"
  by (simp_all add: is_space_def)

lemma entry_line_word:
  assumes "entry_ok e"
  shows "entry_line e \<noteq> [] \<and> (\<forall>c \<in> set (entry_line e). \<not> is_space c)"
proof -
  have "clean (ent_channel e)" "clean (ent_up e)" "clean (ent_down e)"
    using assms by (simp_all add: entry_ok_def)
  note this [THEN clean_space]
  moreover have "\<forall>c \<in> set (if ent_source e then ''source'' else []). \<not> is_space c"
    by (cases "ent_source e") (simp_all add: is_space_def)
  ultimately show ?thesis
    unfolding entry_line_def routing_line_def Let_def set_append
    by (simp only: ball_Un list.set ball_simps delim_not_space append_is_Nil_conv) simp
qed

lemma split_entry_line:
  assumes "entry_ok e"
  shows "split_on CHR '':'' (entry_line e)
      = [ent_channel e, ent_up e @ ''>'' @ ent_down e @ '';'' @ (if ent_source e then ''source'' else [])]"
    and "split_on CHR ''>'' (ent_up e @ ''>'' @ ent_down e @ '';'' @ (if ent_source e then ''source'' else []))
      = [ent_up e, ent_down e @ '';'' @ (if ent_source e then ''source'' else [])]"
    and "split_on CHR '';'' (ent_down e @ '';'' @ (if ent_source e then ''source'' else []))
      = [ent_down e, if ent_source e then ''source'' else []]"
proof -
  have n: "CHR '':'' \<notin> set (ent_channel e)" "CHR '':'' \<notin> set (ent_up e)" "CHR '':'' \<notin> set (ent_down e)"
    "CHR ''>'' \<notin> set (ent_up e)" "CHR ''>'' \<notin> set (ent_down e)" "CHR '';'' \<notin> set (ent_down e)"
    using assms clean_delim [of "ent_channel e"] clean_delim [of "ent_up e"] clean_delim [of "ent_down e"]
    by (simp_all add: entry_ok_def)
  have t: "CHR '':'' \<notin> set (ent_up e @ ''>'' @ ent_down e @ '';'' @ (if ent_source e then ''source'' else []))"
    "CHR ''>'' \<notin> set (ent_down e @ '';'' @ (if ent_source e then ''source'' else []))"
    "CHR '';'' \<notin> set (if ent_source e then ''source'' else [])"
    using n by auto
  show "split_on CHR '':'' (entry_line e)
      = [ent_channel e, ent_up e @ ''>'' @ ent_down e @ '';'' @ (if ent_source e then ''source'' else [])]"
    using split_on_append [OF n(1)] split_on_token [OF t(1)]
    by (simp add: entry_line_def routing_line_def Let_def del: split_on.simps)
  show "split_on CHR ''>'' (ent_up e @ ''>'' @ ent_down e @ '';'' @ (if ent_source e then ''source'' else []))
      = [ent_up e, ent_down e @ '';'' @ (if ent_source e then ''source'' else [])]"
    using split_on_append [OF n(4)] split_on_token [OF t(2)] by (simp del: split_on.simps)
  show "split_on CHR '';'' (ent_down e @ '';'' @ (if ent_source e then ''source'' else []))
      = [ent_down e, if ent_source e then ''source'' else []]"
    using split_on_append [OF n(6)] split_on_token [OF t(3)] by (simp del: split_on.simps)
qed

lemma parse_lines_append:
  "parse_lines d (xs @ ys) m = rbind (parse_lines d xs m) (parse_lines d ys)"
proof (induction xs arbitrary: m)
  case (Cons x xs)
  then show ?case by (simp add: Let_def at_def del: split_on.simps)
qed simp

lemma parse_lines_step:
  assumes "split_on CHR '':'' x = [ch, a]" "split_on CHR ''>'' a = [up, b]" "split_on CHR '';'' b = [down, flag]"
  shows "parse_lines d (x # rest) m = parse_lines d rest (if down = d then m(ch \<mapsto> [up, down, flag]) else m)"
  using assms by (simp add: Let_def)

lemma parse_lines_entry:
  "entry_ok e \<Longrightarrow> parse_lines d [entry_line e] m = Inr (entries_map d [e] m)"
  using parse_lines_step [OF split_entry_line, of e d "[]" m]
  by (simp add: entries_map_def entry_value_def)

lemma entries_map_append: "entries_map d (xs @ ys) m = entries_map d ys (entries_map d xs m)"
  by (simp add: entries_map_def)

definition add_entry :: "(string \<Rightarrow> bool) \<Rightarrow> string \<Rightarrow> string \<Rightarrow> files \<Rightarrow> entry \<Rightarrow> files result" where
  "add_entry writable path broker fs e =
     UpdateRoutingTable writable fs path (ent_channel e) broker (ent_up e) (ent_down e) (ent_source e)"

fun add_entries :: "(string \<Rightarrow> bool) \<Rightarrow> string \<Rightarrow> string \<Rightarrow> files \<Rightarrow> entry list \<Rightarrow> files result" where
  "add_entries writable path broker fs [] = Inr fs"
| "add_entries writable path broker fs (e # es) =
     rbind (add_entry writable path broker fs e) (\<lambda>fs. add_entries writable path broker fs es)"

lemma add_entries_file:
  assumes "writable (path @ broker)"
  shows "add_entries writable path broker (fs(path @ broker \<mapsto> c)) es
    = Inr (fs(path @ broker \<mapsto> c @ concat (map (\<lambda>e. entry_line e @ [newline]) es)))"
  using assms
  by (induction es arbitrary: c) (simp_all add: add_entry_def UpdateRoutingTable_def Let_def entry_line_def)

lemma parse_entry_lines:
  "list_all entry_ok es \<Longrightarrow> parse_lines d (map entry_line es) m = Inr (entries_map d es m)"
proof (induction es arbitrary: m)
  case (Cons e es)
  have "parse_lines d (map entry_line (e # es)) m = rbind (parse_lines d [entry_line e] m) (parse_lines d (map entry_line es))"
    using parse_lines_append [of d "[entry_line e]"] by simp
  with Cons show ?case
    using parse_lines_entry [of e d m] entries_map_append [of d "[e]" es m] by simp
qed (simp add: entries_map_def)

lemma ParseRoutingTable_entries:
  assumes "list_all entry_ok es" "fs (path @ broker) = Some (concat (map (\<lambda>e. entry_line e @ [newline]) es))"
  shows "ParseRoutingTable fs path broker dest = Inr (entries_map dest es Map.empty)"
proof -
  have "tokens (concat (map (\<lambda>w. w @ [newline]) (map entry_line es))) = map entry_line es"
    by (rule tokens_lines) (use assms(1) entry_line_word in \<open>auto simp: list_all_iff\<close>)
  then have "tokens (concat (map (\<lambda>e. entry_line e @ [newline]) es)) = map entry_line es"
    by (simp add: comp_def)
  moreover have "es = [] \<Longrightarrow> entries_map dest es Map.empty = Map.empty" by (simp add: entries_map_def)
  ultimately show ?thesis
    using assms parse_entry_lines [OF assms(1), of dest Map.empty]
    by (cases es) (simp_all add: ParseRoutingTable_def)
qed

section \<open>Properties\<close>

text \<open>C36: a broker's routing table is a log that reads back: after the table is cleared and any sequence of
  entries with well-formed names is appended, parsing it for a destination returns exactly the entries of
  that destination, the last entry of a channel winning, and no other file changes.\<close>

theorem routing_table_roundtrip:
  assumes "writable (path @ broker)" "list_all entry_ok es"
  shows "\<exists>fs'. add_entries writable path broker (ClearRoutingTable writable fs (path @ broker)) es = Inr fs'
    \<and> ParseRoutingTable fs' path broker dest = Inr (entries_map dest es Map.empty)
    \<and> (\<forall>f. f \<noteq> path @ broker \<longrightarrow> fs' f = fs f)"
proof -
  let ?fs' = "fs(path @ broker \<mapsto> concat (map (\<lambda>e. entry_line e @ [newline]) es))"
  have "add_entries writable path broker (ClearRoutingTable writable fs (path @ broker)) es = Inr ?fs'"
    using add_entries_file [of writable path broker fs "[]" es] assms(1) by (simp add: ClearRoutingTable_def)
  moreover have "ParseRoutingTable ?fs' path broker dest = Inr (entries_map dest es Map.empty)"
    by (rule ParseRoutingTable_entries [OF assms(2)]) simp
  ultimately show ?thesis by auto
qed

text \<open>Appending one well-formed entry to a table that parses and ends with a line break (or is empty)
  adds that entry for its destination and changes nothing for any other destination.\<close>

theorem UpdateRoutingTable_parse:
  assumes "entry_ok \<lparr> ent_channel = ch, ent_up = up, ent_down = down, ent_source = flag \<rparr>"
    and "writable (path @ broker)"
    and "fs (path @ broker) = Some c" "c = [] \<or> is_space (last c)"
    and "ParseRoutingTable fs path broker dest = Inr m"
  shows "\<exists>fs'. UpdateRoutingTable writable fs path ch broker up down flag = Inr fs'
    \<and> ParseRoutingTable fs' path broker dest
      = Inr (if down = dest then m(ch \<mapsto> [up, down, if flag then ''source'' else []]) else m)"
proof -
  define e where "e = \<lparr> ent_channel = ch, ent_up = up, ent_down = down, ent_source = flag \<rparr>"
  have ok: "entry_ok e" using assms(1) by (simp add: e_def)
  have t: "tokens (c @ entry_line e @ [newline]) = tokens c @ [entry_line e]"
  proof -
    have "tokens (c @ r) = tokens c @ tokens r" for r
    proof (cases "c = []")
      case False
      then show ?thesis
        using assms(4) tokens_append_space [of "last c" "butlast c" r] by simp
    qed simp
    then show ?thesis using tokens_word [of "entry_line e" newline "[]"] entry_line_word [OF ok] by simp
  qed
  have m: "parse_lines dest (tokens c) Map.empty = Inr m"
    using assms(3,5) by (simp add: ParseRoutingTable_def split: if_splits)
  have "parse_lines dest (tokens (c @ entry_line e @ [newline])) Map.empty = Inr (entries_map dest [e] m)"
    by (simp only: t parse_lines_append m rbind_simps parse_lines_entry [OF ok])
  moreover have "UpdateRoutingTable writable fs path ch broker up down flag
      = Inr (fs(path @ broker \<mapsto> c @ entry_line e @ [newline]))"
    using assms(2,3) by (simp add: UpdateRoutingTable_def Let_def entry_line_def e_def)
  ultimately show ?thesis
    by (simp add: ParseRoutingTable_def entries_map_def entry_value_def e_def)
qed

lemma routing_table_roundtrip_witness:
  "\<exists>fs'. add_entries (\<lambda>_. True) ''rt/'' ''B1'' (ClearRoutingTable (\<lambda>_. True) Map.empty ''rt/B1'')
      [\<lparr> ent_channel = ''P-C'', ent_up = ''P'', ent_down = ''C'', ent_source = True \<rparr>] = Inr fs'
    \<and> (\<exists>m. ParseRoutingTable fs' ''rt/'' ''B1'' ''C'' = Inr m \<and> m ''P-C'' = Some [''P'', ''C'', ''source''])"
  using routing_table_roundtrip [of "\<lambda>_. True" "''rt/''" "''B1''"
      "[\<lparr> ent_channel = ''P-C'', ent_up = ''P'', ent_down = ''C'', ent_source = True \<rparr>]" Map.empty "''C''"]
  by (auto simp: entry_ok_def clean_def is_space_def entries_map_def entry_value_def)

lemma UpdateRoutingTable_parse_witness:
  "\<exists>fs'. UpdateRoutingTable (\<lambda>_. True) [''rt/B1'' \<mapsto> []] ''rt/'' ''P-C'' ''B1'' ''P'' ''C'' False = Inr fs'
    \<and> (\<exists>m. ParseRoutingTable fs' ''rt/'' ''B1'' ''C'' = Inr m \<and> m ''P-C'' = Some [''P'', ''C'', []])"
  using UpdateRoutingTable_parse [of "''P-C''" "''P''" "''C''" False "\<lambda>_. True" "''rt/''" "''B1''"
      "[''rt/B1'' \<mapsto> []]" "[]" "''C''" Map.empty]
  by (auto simp: entry_ok_def clean_def is_space_def ParseRoutingTable_def)

end
