(* ===== verification/Call_Data.thy ===== *)
theory Call_Data
  imports Prelude
begin

text \<open>
  The asynchronous servers: \<^verbatim>\<open>CallData\<close> and \<^verbatim>\<open>HandleRpcs\<close>, the same machine in every demo
  (\<^verbatim>\<open>node_server_async_base.h\<close>, \<^verbatim>\<open>thresh_server_call_data.h\<close>, \<^verbatim>\<open>pre_server_call_data.h\<close>, and the loops of
  \<^verbatim>\<open>node.h\<close>, \<^verbatim>\<open>thresh_server.h\<close>, \<^verbatim>\<open>pre_ks.h\<close>, \<^verbatim>\<open>broker_server.h\<close>, \<^verbatim>\<open>controller.h\<close>).

  A servicer class is the method it registers for and what its \<^verbatim>\<open>Proceed\<close> does with a request between
  creating its successor and finishing; the request and reply messages of all methods of a service
  are one datatype each. Its objects go through CREATE (register with the runtime), PROCESS (create the
  successor, handle the request, send the reply) and FINISH (delete this). The server's state is what
  the servicers share by reference, the live objects, those registered with the runtime, and the
  replies handed to it. \<^verbatim>\<open>HandleRpcs\<close> creates one object per class and then proceeds with the tags the
  completion queue returns; an exception of a handler leaves the loop, and the process with it.

  The gRPC runtime is the source of the events: a request goes to the object registered for its method,
  a finished call's tag comes back once. A tag can also come back with \<^verbatim>\<open>ok\<close> false, that of a call whose client has
  gone, for instance, or any when the queue is shut down: all servers but that of \<^verbatim>\<open>node.h\<close> then abort.
\<close>

datatype CallStatus = CREATE | PROCESS | FINISH

type_synonym ('s, 'q, 'p) handler = "'q \<Rightarrow> ('s, 'p) act"

record ('s, 'm, 'q, 'p) servicer =
  sv_method :: 'm
  sv_process :: "('s, 'q, 'p) handler"

record ('m, 'q, 'p) call =
  call_method :: 'm
  call_status :: CallStatus
  call_request :: "'q option"
  call_reply :: "'p option"

record ('s, 'm, 'q, 'p) server =
  shared :: 's
  calls :: "nat \<rightharpoonup> ('m, 'q, 'p) call"
  registered :: "('m \<times> nat) list"
  next_tag :: nat
  sent :: "(nat \<times> 'p) list"

datatype 'q event = Request 'q | Finished nat | Not_ok nat \<comment> \<open>a tag with ok = false\<close>

section \<open>The machine\<close>

definition proceed_create :: "nat \<Rightarrow> ('m, 'q, 'p) call \<Rightarrow> ('s, 'm, 'q, 'p) server \<Rightarrow> ('s, 'm, 'q, 'p) server" where
  \<comment> \<open>call_status = PROCESS; service->Request...(..., this)\<close>
  "proceed_create tag c sv = sv\<lparr>calls := (calls sv)(tag \<mapsto> c\<lparr>call_status := PROCESS\<rparr>),
     registered := registered sv @ [(call_method c, tag)]\<rparr>"

definition new_servicer :: "'m \<Rightarrow> ('s, 'm, 'q, 'p) server \<Rightarrow> ('s, 'm, 'q, 'p) server" where
  \<comment> \<open>the constructor: CallData(..., CREATE), then Proceed()\<close>
  "new_servicer m sv =
     (let tag = next_tag sv;
          c = \<lparr> call_method = m, call_status = CREATE, call_request = None, call_reply = None \<rparr>
      in proceed_create tag c (sv\<lparr>next_tag := Suc tag\<rparr>))"

fun find_servicer :: "'m \<Rightarrow> ('s, 'm, 'q, 'p) servicer list \<Rightarrow> ('s, 'q, 'p) handler option" where
  "find_servicer m [] = None"
| "find_servicer m (s # svs) = (if sv_method s = m then Some (sv_process s) else find_servicer m svs)"

definition proceed :: "('s, 'm, 'q, 'p) servicer list \<Rightarrow> nat \<Rightarrow> (('s, 'm, 'q, 'p) server, unit) act" where
  "proceed svs tag sv =
     (case calls sv tag of
        None \<Rightarrow> (Inl (Undefined ''Proceed of a deleted object''), sv)
      | Some c \<Rightarrow>
        (case call_status c of
           CREATE \<Rightarrow> (Inr (), proceed_create tag c sv)
         | PROCESS \<Rightarrow>
             (let sv1 = new_servicer (call_method c) sv in
              case (find_servicer (call_method c) svs, call_request c) of
                (Some h, Some q) \<Rightarrow>
                  (case h q (shared sv1) of
                     (Inl e, s) \<Rightarrow> (Inl e, sv1\<lparr>shared := s\<rparr>)
                   | (Inr p, s) \<Rightarrow>
                       (Inr (), sv1\<lparr>shared := s,
                          calls := (calls sv1)(tag \<mapsto> c\<lparr>call_status := FINISH, call_reply := Some p\<rparr>),
                          sent := sent sv1 @ [(tag, p)]\<rparr>))
              | _ \<Rightarrow> (Inl (Undefined ''Proceed without a request''), sv1))
         | FINISH \<Rightarrow> (Inr (), sv\<lparr>calls := (calls sv)(tag := None)\<rparr>)))"

fun take_registered :: "'m \<Rightarrow> ('m \<times> nat) list \<Rightarrow> (nat \<times> ('m \<times> nat) list) option" where
  "take_registered m [] = None"
| "take_registered m ((k, t) # r) =
     (if k = m then Some (t, r) else map_option (\<lambda>(u, r'). (u, (k, t) # r')) (take_registered m r))"

definition on_event ::
  "('q \<Rightarrow> 'm) \<Rightarrow> ('s, 'm, 'q, 'p) servicer list \<Rightarrow> 'q event \<Rightarrow> (('s, 'm, 'q, 'p) server, unit) act" where
  \<comment> \<open>one turn of the loop: cq_->Next(&tag, &ok), GPR_ASSERT(ok), which aborts the process, then Proceed of the tag\<close>
  "on_event meth svs ev sv =
     (case ev of
        Request q \<Rightarrow>
          (case take_registered (meth q) (registered sv) of
             None \<Rightarrow> (Inl (Undefined ''no object is registered for the method''), sv)
           | Some (tag, r) \<Rightarrow>
               (case calls sv tag of
                  None \<Rightarrow> (Inl (Undefined ''a deleted object is registered''), sv)
                | Some c \<Rightarrow> proceed svs tag
                    (sv\<lparr>registered := r, calls := (calls sv)(tag \<mapsto> c\<lparr>call_request := Some q\<rparr>)\<rparr>)))
      | Finished tag \<Rightarrow> proceed svs tag sv
      | Not_ok tag \<Rightarrow> (Inl (Exit_failure ''GPR_ASSERT(ok)''), sv))"

definition start :: "('s, 'm, 'q, 'p) servicer list \<Rightarrow> 's \<Rightarrow> ('s, 'm, 'q, 'p) server" where
  \<comment> \<open>the beginning of HandleRpcs: one object of each servicer class\<close>
  "start svs s = foldl (\<lambda>sv c. new_servicer (sv_method c) sv)
     \<lparr> shared = s, calls = Map.empty, registered = [], next_tag = 0, sent = [] \<rparr> svs"

fun HandleRpcs ::
  "('q \<Rightarrow> 'm) \<Rightarrow> ('s, 'm, 'q, 'p) servicer list \<Rightarrow> 'q event list \<Rightarrow> (('s, 'm, 'q, 'p) server, unit) act" where
  \<comment> \<open>the loop, over the events of the completion queue\<close>
  "HandleRpcs meth svs [] = ret ()"
| "HandleRpcs meth svs (ev # evs) = abind (on_event meth svs ev) (\<lambda>_. HandleRpcs meth svs evs)"

section \<open>The contract: requests are served one after the other\<close>

definition dispatch :: "('q \<Rightarrow> 'm) \<Rightarrow> ('s, 'm, 'q, 'p) servicer list \<Rightarrow> ('s, 'q, 'p) handler" where
  "dispatch meth svs q =
     (case find_servicer (meth q) svs of None \<Rightarrow> throw (Undefined ''unknown method'') | Some h \<Rightarrow> h q)"

fun serve :: "('s, 'q, 'p) handler \<Rightarrow> 'q list \<Rightarrow> ('s, 'p list) act" where
  "serve h [] = ret []"
| "serve h (q # qs) = abind (h q) (\<lambda>p. abind (serve h qs) (\<lambda>ps. ret (p # ps)))"

fun requests :: "'q event list \<Rightarrow> 'q list" where
  "requests [] = []"
| "requests (Request q # evs) = q # requests evs"
| "requests (Finished t # evs) = requests evs"
| "requests (Not_ok t # evs) = requests evs"

section \<open>The invariant\<close>

definition methods :: "('s, 'm, 'q, 'p) servicer list \<Rightarrow> 'm list" where
  "methods svs = map sv_method svs"

definition server_inv :: "'m set \<Rightarrow> ('s, 'm, 'q, 'p) server \<Rightarrow> bool" where
  \<comment> \<open>one registered object per method, all others finished\<close>
  "server_inv M sv \<longleftrightarrow>
     distinct (map fst (registered sv)) \<and> set (map fst (registered sv)) = M
   \<and> distinct (map snd (registered sv))
   \<and> (\<forall>t \<in> dom (calls sv). t < next_tag sv)
   \<and> (\<forall>(m, t) \<in> set (registered sv). \<exists>c. calls sv t = Some c \<and> call_method c = m \<and> call_status c = PROCESS)
   \<and> (\<forall>t c. calls sv t = Some c \<longrightarrow> t \<notin> snd ` set (registered sv) \<longrightarrow> call_status c = FINISH)"

lemma inv_registered:
  "server_inv M sv \<Longrightarrow> (m, t) \<in> set (registered sv)
   \<Longrightarrow> \<exists>c. calls sv t = Some c \<and> call_method c = m \<and> call_status c = PROCESS"
  unfolding server_inv_def by blast

lemma inv_other:
  "server_inv M sv \<Longrightarrow> calls sv t = Some c \<Longrightarrow> t \<notin> snd ` set (registered sv) \<Longrightarrow> call_status c = FINISH"
  unfolding server_inv_def by blast

lemma inv_tag: "server_inv M sv \<Longrightarrow> calls sv t = Some c \<Longrightarrow> t < next_tag sv"
  unfolding server_inv_def by blast

lemma find_servicer_Some: "m \<in> set (methods svs) \<Longrightarrow> \<exists>h. find_servicer m svs = Some h"
  by (induction svs) (auto simp: methods_def)

lemma take_registered_Some:
  "m \<in> fst ` set r \<Longrightarrow> \<exists>t a b. r = a @ (m, t) # b \<and> take_registered m r = Some (t, a @ b)"
proof (induction r)
  case (Cons x r)
  obtain k t where x: "x = (k, t)" by (cases x)
  show ?case
  proof (cases "k = m")
    case True
    then show ?thesis using x by (intro exI [of _ t] exI [of _ "[]"] exI [of _ r]) simp
  next
    case False
    with Cons x obtain u a b where "r = a @ (m, u) # b" "take_registered m r = Some (u, a @ b)" by auto
    then show ?thesis using False x by (intro exI [of _ u] exI [of _ "x # a"] exI [of _ b]) simp
  qed
qed simp

lemma new_servicer_simps [simp]:
  "shared (new_servicer m sv) = shared sv"
  "sent (new_servicer m sv) = sent sv"
  "next_tag (new_servicer m sv) = Suc (next_tag sv)"
  "registered (new_servicer m sv) = registered sv @ [(m, next_tag sv)]"
  "calls (new_servicer m sv) = (calls sv)(next_tag sv \<mapsto>
     \<lparr> call_method = m, call_status = PROCESS, call_request = None, call_reply = None \<rparr>)"
  by (simp_all add: new_servicer_def proceed_create_def Let_def)

lemma server_inv_new:
  assumes "server_inv M sv" "m \<notin> M"
  shows "server_inv (insert m M) (new_servicer m sv)"
proof -
  have lt: "t < next_tag sv" if "t \<in> snd ` set (registered sv)" for t
    using assms(1) that by (fastforce simp: server_inv_def)
  then have "next_tag sv \<notin> snd ` set (registered sv)" by blast
  then show ?thesis
    using assms unfolding server_inv_def
    by (auto simp: less_Suc_eq dest: lt split: if_splits)
qed

lemma start_inv:
  fixes svs :: "('s, 'm, 'q, 'p) servicer list"
  assumes "distinct (methods svs)"
  shows "server_inv (set (methods svs)) (start svs s)"
proof -
  have "server_inv (M \<union> set (methods svs)) (foldl (\<lambda>sv c. new_servicer (sv_method c) sv) sv svs)"
    if "server_inv M sv" "set (methods svs) \<inter> M = {}" for M and sv :: "('s, 'm, 'x, 'y) server"
    using that assms
  proof (induction svs arbitrary: M sv)
    case (Cons c svs)
    have "server_inv (insert (sv_method c) M) (new_servicer (sv_method c) sv)"
      using Cons.prems by (intro server_inv_new) (auto simp: methods_def)
    with Cons.IH [of "insert (sv_method c) M" "new_servicer (sv_method c) sv"] Cons.prems
    show ?case by (auto simp: methods_def)
  qed (simp add: methods_def)
  from this [of "{}" "\<lparr> shared = s, calls = Map.empty, registered = [], next_tag = 0, sent = [] \<rparr>"]
  show ?thesis by (simp add: start_def server_inv_def)
qed

lemma start_shared [simp]: "shared (start svs s) = s" "sent (start svs s) = []"
proof -
  have "shared (foldl (\<lambda>sv c. new_servicer (sv_method c) sv) sv svs) = shared sv
      \<and> sent (foldl (\<lambda>sv c. new_servicer (sv_method c) sv) sv svs) = sent sv" for sv :: "('a, 'b, 'c, 'd) server"
    by (induction svs arbitrary: sv) auto
  then show "shared (start svs s) = s" "sent (start svs s) = []" by (simp_all add: start_def)
qed

section \<open>One turn of the loop\<close>

lemma server_inv_served:
  assumes inv: "server_inv M sv" and r: "registered sv = a @ (m, t) # b"
    and reg: "registered sv' = a @ b @ [(m, next_tag sv)]"
    and cs: "calls sv' = (calls sv)(t \<mapsto> c0, next_tag sv \<mapsto> c1, t \<mapsto> c2)"
    and c1: "call_method c1 = m" "call_status c1 = PROCESS" and c2: "call_status c2 = FINISH"
    and nx: "next_tag sv' = Suc (next_tag sv)"
  shows "server_inv M sv'"
proof -
  note I = inv [unfolded server_inv_def r]
  have lt: "u < next_tag sv" if "u \<in> snd ` set (a @ (m, t) # b)" for u
    using that r inv_registered [OF inv] inv_tag [OF inv] by (metis imageE prod.collapse)
  have nt: "next_tag sv \<notin> snd ` set (a @ (m, t) # b)" using lt by blast
  have tt: "t < next_tag sv" using lt by simp
  have t: "t \<notin> snd ` set (a @ b)" using I by auto
  have 1: "distinct (map fst (registered sv'))" "set (map fst (registered sv')) = M"
    using I by (auto simp: reg)
  have 2: "distinct (map snd (registered sv'))"
    using I nt by (auto simp: reg)
  have 3: "\<forall>u \<in> dom (calls sv'). u < next_tag sv'"
    using I tt by (auto simp: cs nx less_Suc_eq)
  have 4: "\<exists>c. calls sv' u = Some c \<and> call_method c = k \<and> call_status c = PROCESS"
    if "(k, u) \<in> set (registered sv')" for k u
  proof (cases "(k, u) = (m, next_tag sv)")
    case True
    then show ?thesis using c1 tt by (simp add: cs)
  next
    case False
    then have "(k, u) \<in> set (a @ b)" using that by (auto simp: reg)
    moreover from this have "u \<noteq> t" "u \<noteq> next_tag sv" using t nt by force+
    moreover have "(k, u) \<in> set (registered sv)" using \<open>(k, u) \<in> set (a @ b)\<close> r by auto
    note inv_registered [OF inv this]
    ultimately show ?thesis by (simp add: cs)
  qed
  have 5: "call_status c = FINISH" if "calls sv' u = Some c" "u \<notin> snd ` set (registered sv')" for u c
  proof (cases "u = t")
    case True
    then show ?thesis using that c2 by (simp add: cs)
  next
    case False
    then have "u \<notin> snd ` set (a @ (m, t) # b)" "u \<noteq> next_tag sv" using that by (auto simp: reg)
    moreover from this have "calls sv u = Some c" using that False by (simp add: cs)
    ultimately show ?thesis using inv_other [OF inv, of u c] r by simp
  qed
  show ?thesis
    unfolding server_inv_def using 1 2 3 4 5 by blast
qed

lemma on_Request:
  assumes inv: "server_inv (set (methods svs)) sv" and m: "meth q \<in> set (methods svs)"
  shows "case dispatch meth svs q (shared sv) of
      (Inr p, s) \<Rightarrow> (\<exists>sv' t. on_event meth svs (Request q) sv = (Inr (), sv') \<and> shared sv' = s
          \<and> sent sv' = sent sv @ [(t, p)] \<and> server_inv (set (methods svs)) sv')
    | (Inl e, s) \<Rightarrow> (\<exists>sv'. on_event meth svs (Request q) sv = (Inl e, sv') \<and> shared sv' = s
          \<and> sent sv' = sent sv)"
proof -
  have "meth q \<in> fst ` set (registered sv)" using inv m by (auto simp: server_inv_def)
  from take_registered_Some [OF this] obtain t a b where
    r: "registered sv = a @ (meth q, t) # b" "take_registered (meth q) (registered sv) = Some (t, a @ b)" by blast
  obtain c where c: "calls sv t = Some c" "call_method c = meth q" "call_status c = PROCESS"
    using inv r(1) by (auto simp: server_inv_def)
  obtain h where h: "find_servicer (meth q) svs = Some h" using find_servicer_Some [OF m] ..
  have lt: "t < next_tag sv" using inv c(1) by (auto simp: server_inv_def)
  define c' where "c' = c\<lparr>call_request := Some q\<rparr>"
  define sv0 where "sv0 = sv\<lparr>registered := a @ b, calls := (calls sv)(t \<mapsto> c')\<rparr>"
  define sv1 where "sv1 = new_servicer (meth q) sv0"
  have ev: "on_event meth svs (Request q) sv = (case h q (shared sv) of
        (Inl e, s) \<Rightarrow> (Inl e, sv1\<lparr>shared := s\<rparr>)
      | (Inr p, s) \<Rightarrow> (Inr (), sv1\<lparr>shared := s,
            calls := (calls sv1)(t \<mapsto> c'\<lparr>call_status := FINISH, call_reply := Some p\<rparr>), sent := sent sv1 @ [(t, p)]\<rparr>))"
    by (cases "h q (shared sv)"; cases "fst (h q (shared sv))")
      (simp_all add: on_event_def r(2) c proceed_def h sv0_def sv1_def c'_def Let_def)
  have inv': "server_inv (set (methods svs)) (sv1\<lparr>shared := s,
      calls := (calls sv1)(t \<mapsto> c'\<lparr>call_status := FINISH, call_reply := Some p\<rparr>), sent := sent sv1 @ [(t, p)]\<rparr>)" for s p
    by (rule server_inv_served [OF inv r(1)], simp add: sv1_def sv0_def, simp add: sv1_def sv0_def)
      (simp_all add: sv1_def sv0_def)
  show ?thesis
  proof (cases "h q (shared sv)")
    case (Pair res s)
    then show ?thesis
      using ev inv' by (cases res) (auto simp: dispatch_def h sv1_def sv0_def)
  qed
qed


lemma on_Finished:
  assumes inv: "server_inv M sv" and fin: "calls sv t = Some c" "call_status c = FINISH"
  shows "\<exists>sv'. on_event meth svs (Finished t) sv = (Inr (), sv') \<and> shared sv' = shared sv
    \<and> sent sv' = sent sv \<and> server_inv M sv'"
proof -
  have "(m, t) \<notin> set (registered sv)" for m
    using inv fin by (auto simp: server_inv_def)
  then have "server_inv M (sv\<lparr>calls := (calls sv)(t := None)\<rparr>)"
    using inv unfolding server_inv_def by (auto split: if_splits)
  then show ?thesis using fin by (simp add: on_event_def proceed_def)
qed

lemma on_event_pending:
  assumes inv: "server_inv M sv" and ev: "on_event meth svs (Finished t) sv = (Inr (), sv')"
    and reg: "t \<notin> snd ` set (registered sv)"
  shows "\<exists>c. calls sv t = Some c \<and> call_status c = FINISH"
  using assms by (auto simp: on_event_def proceed_def server_inv_def split: option.splits)

text \<open>
  What the completion queue may return: a request for one of the methods, the tag of a call whose
  reply was handed over and whose object still lives (each tag once), or the tag of any object with \<^verbatim>\<open>ok\<close> false.
\<close>

inductive queue_step :: "('q \<Rightarrow> 'm) \<Rightarrow> ('s, 'm, 'q, 'p) servicer list \<Rightarrow>
  ('s, 'm, 'q, 'p) server \<Rightarrow> 'q event \<Rightarrow> error + unit \<Rightarrow> ('s, 'm, 'q, 'p) server \<Rightarrow> bool"
  for meth svs where
  arrives: "meth q \<in> set (methods svs) \<Longrightarrow> on_event meth svs (Request q) sv = (r, sv')
    \<Longrightarrow> queue_step meth svs sv (Request q) r sv'"
| finished: "calls sv t = Some c \<Longrightarrow> call_status c = FINISH
    \<Longrightarrow> on_event meth svs (Finished t) sv = (r, sv')
    \<Longrightarrow> queue_step meth svs sv (Finished t) r sv'"
| not_ok: "calls sv t = Some c \<Longrightarrow> on_event meth svs (Not_ok t) sv = (r, sv')
    \<Longrightarrow> queue_step meth svs sv (Not_ok t) r sv'"

inductive_cases queue_step_RequestE: "queue_step meth svs sv (Request q) r sv'"
inductive_cases queue_step_FinishedE: "queue_step meth svs sv (Finished t) r sv'"

inductive serving :: "('q \<Rightarrow> 'm) \<Rightarrow> ('s, 'm, 'q, 'p) servicer list \<Rightarrow> 's \<Rightarrow>
  'q event list \<Rightarrow> ('s, 'm, 'q, 'p) server \<Rightarrow> bool"
  for meth svs s0 where
  begins: "serving meth svs s0 [] (start svs s0)"
| turns: "serving meth svs s0 evs sv \<Longrightarrow> queue_step meth svs sv ev (Inr ()) sv'
    \<Longrightarrow> serving meth svs s0 (evs @ [ev]) sv'"

lemma requests_append: "requests (xs @ ys) = requests xs @ requests ys"
  by (induction xs rule: requests.induct) auto

lemma serve_append:
  "serve h (xs @ ys) s = (case serve h xs s of (Inl e, s') \<Rightarrow> (Inl e, s')
     | (Inr ps, s') \<Rightarrow> (case serve h ys s' of (Inl e, t) \<Rightarrow> (Inl e, t) | (Inr rs, t) \<Rightarrow> (Inr (ps @ rs), t)))"
  by (induction xs arbitrary: s) (auto simp: abind_def ret_def split: prod.splits sum.splits)

lemma serve_snoc:
  assumes "serve h qs s = (Inr ps, s')" "h q s' = (r, s'')"
  shows "serve h (qs @ [q]) s = (map_sum id (\<lambda>p. ps @ [p]) r, s'')"
  using assms by (cases r) (simp_all add: serve_append abind_def)

lemma serving_refines:
  assumes "serving meth svs s0 evs sv" "distinct (methods svs)"
  shows "server_inv (set (methods svs)) sv
    \<and> serve (dispatch meth svs) (requests evs) s0 = (Inr (map snd (sent sv)), shared sv)"
  using assms(1)
proof induction
  case begins
  then show ?case using start_inv [OF assms(2)] by simp
next
  case (turns evs sv ev sv')
  then have inv: "server_inv (set (methods svs)) sv"
    and IH: "serve (dispatch meth svs) (requests evs) s0 = (Inr (map snd (sent sv)), shared sv)" by auto
  from turns.hyps(2) show ?case
  proof cases
    case (arrives q)
    obtain r s where d: "dispatch meth svs q (shared sv) = (r, s)" by (cases "dispatch meth svs q (shared sv)")
    have "r = Inl e \<Longrightarrow> False" for e
      using on_Request [of svs sv meth q, OF inv arrives(2)] arrives(3) d by auto
    then obtain p where r: "r = Inr p" by (cases r) auto
    then obtain t where "shared sv' = s" "sent sv' = sent sv @ [(t, p)]" "server_inv (set (methods svs)) sv'"
      using on_Request [of svs sv meth q, OF inv arrives(2)] arrives(3) d by auto
    then show ?thesis
      using serve_snoc [OF IH d] arrives(1) r by (simp add: requests_append)
  next
    case (finished t c)
    then show ?thesis
      using on_Finished [OF inv finished(2,3), of meth svs] IH by (auto simp: requests_append)
  next
    case (not_ok t c)
    then show ?thesis by (simp add: on_event_def)
  qed
qed

text \<open>C2: the asynchronous server. After any sequence of completion queue events that did not throw, each
  method has exactly one registered object and every other live object is finished; and the
  server has served exactly the requests that arrived, one after the other: its shared state and
  the replies it sent are those of the handlers run in sequence on those requests.\<close>

theorem HandleRpcs_refines_serve:
  assumes "distinct (methods svs)" "serving meth svs s0 evs sv"
  shows "(\<forall>m \<in> set (methods svs). \<exists>!t. (m, t) \<in> set (registered sv))
    \<and> (\<forall>t c. calls sv t = Some c \<longrightarrow> (\<exists>m. (m, t) \<in> set (registered sv)) \<or> call_status c = FINISH)
    \<and> serve (dispatch meth svs) (requests evs) s0 = (Inr (map snd (sent sv)), shared sv)"
proof (intro conjI)
  note S = serving_refines [OF assms(2,1)]
  then have inv: "server_inv (set (methods svs)) sv" by simp
  show "\<forall>m \<in> set (methods svs). \<exists>!t. (m, t) \<in> set (registered sv)"
  proof
    fix m assume "m \<in> set (methods svs)"
    then have "m \<in> fst ` set (registered sv)" using inv by (simp add: server_inv_def)
    then obtain t where "(m, t) \<in> set (registered sv)" by auto
    moreover have "u = t" if "(m, u) \<in> set (registered sv)" "(m, t) \<in> set (registered sv)" for u t
      using inv that by (auto simp: server_inv_def dest: eq_key_imp_eq_value)
    ultimately show "\<exists>!t. (m, t) \<in> set (registered sv)" by blast
  qed
  show "\<forall>t c. calls sv t = Some c \<longrightarrow> (\<exists>m. (m, t) \<in> set (registered sv)) \<or> call_status c = FINISH"
  proof (intro allI impI)
    fix t c assume c: "calls sv t = Some c"
    show "(\<exists>m. (m, t) \<in> set (registered sv)) \<or> call_status c = FINISH"
      using inv_other [OF inv c] by (cases "t \<in> snd ` set (registered sv)") auto
  qed
  show "serve (dispatch meth svs) (requests evs) s0 = (Inr (map snd (sent sv)), shared sv)"
    using S by simp
qed

lemma queue_answers:
  assumes "distinct (methods svs)" "serving meth svs s0 evs sv" "meth q \<in> set (methods svs)"
  shows "\<exists>r sv'. queue_step meth svs sv (Request q) r sv'
    \<and> (case dispatch meth svs q (shared sv) of
         (Inr p, s) \<Rightarrow> r = Inr () \<and> shared sv' = s \<and> (\<exists>t. sent sv' = sent sv @ [(t, p)])
       | (Inl e, s) \<Rightarrow> r = Inl e \<and> shared sv' = s \<and> sent sv' = sent sv)"
proof -
  have inv: "server_inv (set (methods svs)) sv" using serving_refines [OF assms(2,1)] by simp
  obtain r s where d: "dispatch meth svs q (shared sv) = (r, s)" by (cases "dispatch meth svs q (shared sv)")
  show ?thesis
    using on_Request [of svs sv meth q, OF inv assms(3)] arrives [of meth q svs sv, OF assms(3)] d
    by (cases r) (auto 0 4)
qed

text \<open>C3: the server is never stuck on a request of its service: whatever happened before, a request is
  handled at once, and the loop ends with an exception exactly when the handler throws.\<close>

theorem HandleRpcs_answers:
  assumes "distinct (methods svs)" "serving meth svs s0 evs sv" "meth q \<in> set (methods svs)"
  shows "\<exists>r sv'. queue_step meth svs sv (Request q) r sv'
    \<and> (case dispatch meth svs q (shared sv) of
         (Inr p, s) \<Rightarrow> r = Inr () \<and> shared sv' = s \<and> (\<exists>t. sent sv' = sent sv @ [(t, p)])
       | (Inl e, s) \<Rightarrow> r = Inl e \<and> shared sv' = s \<and> sent sv' = sent sv)"
  using queue_answers [OF assms] .

section \<open>A concrete run\<close>

definition counters :: "(nat, bool, bool \<times> nat, nat) servicer list" where
  \<comment> \<open>a service of two methods: add to a counter (throwing on 0), and read it\<close>
  "counters = [\<lparr> sv_method = True, sv_process = (\<lambda>(_, k) n. if k = 0 then (Inl (Openfhe_error ''zero''), n) else (Inr k, n + k)) \<rparr>,
     \<lparr> sv_method = False, sv_process = (\<lambda>_ n. (Inr n, n)) \<rparr>]"

lemma counters_methods: "distinct (methods counters)" "m \<in> set (methods counters)"
  by (cases m; simp add: methods_def counters_def)+

lemma counters_run:
  "\<exists>sv t. serving fst counters 0 [Request (True, 3)] sv \<and> sent sv = [(t, 3)] \<and> shared sv = 3"
proof -
  from queue_answers [OF counters_methods(1) begins counters_methods(2), of fst 0 "(True, 3)"]
  obtain sv t where "queue_step fst counters (start counters 0) (Request (True, 3)) (Inr ()) sv"
    "sent sv = [(t, 3)]" "shared sv = 3"
    by (auto simp: dispatch_def counters_def)
  with turns [OF begins this(1)] show ?thesis by auto
qed

lemma HandleRpcs_refines_serve_witness:
  "\<exists>sv. serving fst counters 0 [Request (True, 3)] sv \<and> (\<exists>!t. (False, t) \<in> set (registered sv))
    \<and> serve (dispatch fst counters) [(True, 3)] 0 = (Inr (map snd (sent sv)), shared sv)"
proof -
  from counters_run obtain sv t where sv: "serving fst counters 0 [Request (True, 3)] sv" by blast
  from HandleRpcs_refines_serve [OF counters_methods(1) sv]
  have "\<exists>!t. (False, t) \<in> set (registered sv)"
    "serve (dispatch fst counters) [(True, 3)] 0 = (Inr (map snd (sent sv)), shared sv)"
    using counters_methods(2) [of False] by (blast, simp)
  with sv show ?thesis by blast
qed

lemma HandleRpcs_answers_witness:
  "\<exists>sv sv'. serving fst counters 0 [Request (True, 3)] sv
    \<and> queue_step fst counters sv (Request (True, 0)) (Inl (Openfhe_error ''zero'')) sv' \<and> shared sv' = 3"
proof -
  from counters_run obtain sv t where
    sv: "serving fst counters 0 [Request (True, 3)] sv" and sh: "shared sv = 3" by blast
  have "dispatch fst counters (True, 0) (shared sv) = (Inl (Openfhe_error ''zero''), 3)"
    by (simp add: dispatch_def counters_def sh)
  with HandleRpcs_answers [OF counters_methods(1) sv counters_methods(2), of "(True, 0)"] sv
  show ?thesis by auto
qed

end
