(* ===== verification/Msg_Queue.thy ===== *)
theory Msg_Queue
  imports Prelude
begin

text \<open>
  The messages of the peer to peer framework and the thread safe queue they wait in
  (\<^verbatim>\<open>message_format\<close> and \<^verbatim>\<open>tsqueue\<close> of \<^verbatim>\<open>peer_to_peer_framework/include/node_utils.h\<close>), and the
  interface of a first-in first-out queue as a locale. Every method of the queue holds the queue's lock
  from its first to its last access (\<^verbatim>\<open>check_msg_type\<close> holds none), so a method is one step.
\<close>

section \<open>Messages\<close>

record message_format =
  acknowledgement :: bool
  msg_NodeName :: string
  msg_NodeAddress :: string
  msgType :: string
  Data :: bytes
  sender_type :: string
  sender_name :: string
  receiver_name :: string
  receiver_type :: string
  additional_data :: string

definition message0 :: message_format where
  \<comment> \<open>a default-initialised message; its flag is always set before it is read\<close>
  "message0 = \<lparr> acknowledgement = False, msg_NodeName = [], msg_NodeAddress = [], msgType = [],
     Data = [], sender_type = [], sender_name = [], receiver_name = [], receiver_type = [],
     additional_data = [] \<rparr>"

section \<open>tsqueue\<close>

record tsqueue =
  q_NodeName :: string
  q_NodeAddress :: string
  Queue :: "message_format list"

definition tsqueue0 :: tsqueue where
  "tsqueue0 = \<lparr> q_NodeName = [], q_NodeAddress = [], Queue = [] \<rparr>"

definition q_front :: "tsqueue \<Rightarrow> message_format result" where
  "q_front q = at ''Queue.front()'' (Queue q) 0"

definition q_back :: "tsqueue \<Rightarrow> message_format result" where
  "q_back q = (if Queue q = [] then Inl (Undefined ''Queue.back()'') else Inr (last (Queue q)))"

definition q_pop :: "tsqueue \<Rightarrow> message_format \<times> tsqueue" where
  "q_pop q = (case Queue q of [] \<Rightarrow> (message0, q) | m # r \<Rightarrow> (m, q\<lparr>Queue := r\<rparr>))"

fun pop_loop :: "string \<Rightarrow> message_format list \<Rightarrow> message_format \<times> message_format list" where
  "pop_loop ty [] = (message0, [])"
| "pop_loop ty (m # r) = (if msgType m = ty then (m, r) else pop_loop ty r)"

definition q_pop_with_type :: "string \<Rightarrow> tsqueue \<Rightarrow> message_format \<times> tsqueue" where
  "q_pop_with_type ty q = (case pop_loop ty (Queue q) of (m, r) \<Rightarrow> (m, q\<lparr>Queue := r\<rparr>))"

definition q_check_msg_type :: "string \<Rightarrow> tsqueue \<Rightarrow> bool result" where
  \<comment> \<open>Queue.front() without a check that there is one\<close>
  "q_check_msg_type ty q = rbind (at ''Queue.front()'' (Queue q) 0) (\<lambda>m. Inr (msgType m = ty))"

definition q_push :: "message_format \<Rightarrow> tsqueue \<Rightarrow> tsqueue" where
  "q_push m q = q\<lparr>Queue := Queue q @ [m]\<rparr>"

definition q_empty :: "tsqueue \<Rightarrow> bool" where
  "q_empty q = (Queue q = [])"

definition q_count :: "tsqueue \<Rightarrow> nat" where
  "q_count q = length (Queue q)"

definition q_clear :: "tsqueue \<Rightarrow> tsqueue" where
  "q_clear q = q\<lparr>Queue := []\<rparr>"

definition q_assign :: "tsqueue \<Rightarrow> tsqueue \<Rightarrow> tsqueue" where
  \<comment> \<open>operator=: this = a, the names only\<close>
  "q_assign this a = this\<lparr>q_NodeName := q_NodeName a, q_NodeAddress := q_NodeAddress a\<rparr>"

section \<open>The interface of a queue\<close>

datatype 'a qop = Put 'a | Take

locale fifo =
  fixes put :: "'a \<Rightarrow> 'q \<Rightarrow> 'q"
    and take :: "'q \<Rightarrow> 'a option \<times> 'q"
    and contents :: "'q \<Rightarrow> 'a list"
  assumes contents_put: "contents (put x q) = contents q @ [x]"
    and take_nil: "contents q = [] \<Longrightarrow> take q = (None, q)"
    and take_cons: "contents q = x # r \<Longrightarrow> \<exists>q'. take q = (Some x, q') \<and> contents q' = r"
begin

fun run :: "'a qop list \<Rightarrow> 'q \<Rightarrow> 'a list \<times> 'q" where
  "run [] q = ([], q)"
| "run (Put x # ops) q = run ops (put x q)"
| "run (Take # ops) q =
     (case take q of (None, q') \<Rightarrow> run ops q'
      | (Some x, q') \<Rightarrow> (case run ops q' of (xs, q'') \<Rightarrow> (x # xs, q'')))"

fun puts :: "'a qop list \<Rightarrow> 'a list" where
  "puts [] = []"
| "puts (Put x # ops) = x # puts ops"
| "puts (Take # ops) = puts ops"

lemma run_fifo:
  "fst (run ops q) @ contents (snd (run ops q)) = contents q @ puts ops"
proof (induction ops arbitrary: q rule: puts.induct)
  case (3 ops)
  show ?case
  proof (cases "contents q")
    case Nil
    then show ?thesis using 3 take_nil by simp
  next
    case (Cons x r)
    then obtain q' where "take q = (Some x, q')" "contents q' = r" using take_cons by blast
    with 3 [of q'] Cons show ?thesis by (cases "run ops q'") simp
  qed
qed (simp_all add: contents_put)

lemma drain_returns_everything:
  "fst (run (replicate (length (contents q)) Take) q) = contents q"
proof (induction "length (contents q)" arbitrary: q)
  case (Suc n)
  then obtain x r where c: "contents q = x # r" by (cases "contents q") auto
  then obtain q' where q': "take q = (Some x, q')" "contents q' = r" using take_cons by blast
  have "fst (run (replicate (length (contents q')) Take) q') = contents q'"
    by (rule Suc.hyps(1)) (use Suc.hyps(2) c q'(2) in simp)
  then show ?case using c q' by (auto split: prod.split)
qed simp

end

definition q_take :: "tsqueue \<Rightarrow> message_format option \<times> tsqueue" where
  \<comment> \<open>if (!q.empty()) q.pop()\<close>
  "q_take q = (if q_empty q then (None, q) else map_prod Some id (q_pop q))"

interpretation tsq: fifo q_push q_take Queue
  by unfold_locales (auto simp: q_push_def q_take_def q_empty_def q_pop_def split: list.splits)

section \<open>Lemmas\<close>

lemma q_count_push [simp]: "q_count (q_push m q) = Suc (q_count q)"
  by (simp add: q_count_def q_push_def)

lemma Queue_simps [simp]:
  "Queue (q_push m q) = Queue q @ [m]"
  "Queue (q_assign q a) = Queue q"
  "Queue (q_clear q) = []"
  "Queue tsqueue0 = []"
  by (simp_all add: q_push_def q_assign_def q_clear_def tsqueue0_def)

lemma pop_loop_split:
  "pop_loop ty ms = (case dropWhile (\<lambda>m. msgType m \<noteq> ty) ms of [] \<Rightarrow> (message0, []) | m # r \<Rightarrow> (m, r))"
  by (induction ms) auto

section \<open>Properties\<close>

text \<open>\<^verbatim>\<open>pop_with_type\<close> returns the first message of the type and leaves what follows it; every
  message in front of it is thrown away. When no message has the type, the whole
  queue is thrown away and a default message is returned, which looks like a received one.\<close>

theorem pop_with_type_spec:
  "(\<forall>a m b. Queue q = a @ m # b \<and> msgType m = ty \<and> (\<forall>x \<in> set a. msgType x \<noteq> ty)
      \<longrightarrow> q_pop_with_type ty q = (m, q\<lparr>Queue := b\<rparr>))
   \<and> ((\<forall>x \<in> set (Queue q). msgType x \<noteq> ty) \<longrightarrow> q_pop_with_type ty q = (message0, q_clear q))"
proof (intro conjI allI impI)
  fix a m b
  assume "Queue q = a @ m # b \<and> msgType m = ty \<and> (\<forall>x \<in> set a. msgType x \<noteq> ty)"
  then have "dropWhile (\<lambda>m. msgType m \<noteq> ty) (Queue q) = m # b"
    by (simp add: dropWhile_append2)
  then show "q_pop_with_type ty q = (m, q\<lparr>Queue := b\<rparr>)"
    by (simp add: q_pop_with_type_def pop_loop_split)
next
  assume "\<forall>x \<in> set (Queue q). msgType x \<noteq> ty"
  then have d: "dropWhile (\<lambda>m. msgType m \<noteq> ty) (Queue q) = []" by simp
  show "q_pop_with_type ty q = (message0, q_clear q)"
    by (simp only: q_pop_with_type_def pop_loop_split q_clear_def d list.case prod.case)
qed

lemma pop_with_type_witness:
  "q_pop_with_type ''B'' (tsqueue0\<lparr>Queue := [message0\<lparr>msgType := ''A''\<rparr>, message0\<lparr>msgType := ''B''\<rparr>]\<rparr>)
     = (message0\<lparr>msgType := ''B''\<rparr>, tsqueue0)
   \<and> q_pop_with_type ''C'' (tsqueue0\<lparr>Queue := [message0\<lparr>msgType := ''A''\<rparr>]\<rparr>) = (message0, tsqueue0)"
proof
  let ?q = "tsqueue0\<lparr>Queue := [message0\<lparr>msgType := ''A''\<rparr>, message0\<lparr>msgType := ''B''\<rparr>]\<rparr>"
  show "q_pop_with_type ''B'' ?q = (message0\<lparr>msgType := ''B''\<rparr>, tsqueue0)"
    using pop_with_type_spec [of ?q "''B''", THEN conjunct1, rule_format,
        of "[message0\<lparr>msgType := ''A''\<rparr>]" "message0\<lparr>msgType := ''B''\<rparr>" "[]"]
    by (simp add: tsqueue0_def)
  show "q_pop_with_type ''C'' (tsqueue0\<lparr>Queue := [message0\<lparr>msgType := ''A''\<rparr>]\<rparr>) = (message0, tsqueue0)"
    using pop_with_type_spec [of "tsqueue0\<lparr>Queue := [message0\<lparr>msgType := ''A''\<rparr>]\<rparr>" "''C''", THEN conjunct2, rule_format]
    by (simp add: tsqueue0_def q_clear_def)
qed

end
