(* ===== verification/Node.thy ===== *)
theory Node
  imports Text_Utils Cmdline Msg_Queue Call_Data
begin

text \<open>
  A node of the peer to peer framework: \<^verbatim>\<open>NodeImpl\<close> (\<^verbatim>\<open>node.h\<close>), its client side
  \<^verbatim>\<open>NodeClient\<close> (\<^verbatim>\<open>node_client.h\<close>) and the servicer of its server side, \<^verbatim>\<open>MessageServicer\<close>
  (\<^verbatim>\<open>node_request.h\<close>). The \<^verbatim>\<open>std::map\<close>s are lists of pairs in key order. The gRPC call is an argument:
  from the address, the request and the state of the world it gives the error message of a status that
  is not ok, or the reply. The loops that repeat a call until it is acknowledged are
  \<^verbatim>\<open>partial_function\<close>s with the 32-bit counters of the source, so that a loop that never ends
  is the value None. While a node polls its queue its server thread delivers messages: what arrives before
  each poll is an argument of \<open>getMsgWait\<close>.
\<close>

section \<open>Messages on the wire\<close>

record RequestMessage =
  node_name :: string
  data_type :: string
  rq_data :: bytes

record ReturnMessage =
  rm_acknowledgement :: bool
  error_msg :: string

type_synonym 'w transport = "string \<Rightarrow> RequestMessage \<Rightarrow> 'w \<Rightarrow> (string + ReturnMessage) \<times> 'w"

definition sendGRPCMsg :: "'w transport \<Rightarrow> string \<Rightarrow> message_format \<Rightarrow> 'w \<Rightarrow> ReturnMessage \<times> 'w" where
  \<comment> \<open>NodeClient: when the status is not ok the reply is a default one with the error message\<close>
  "sendGRPCMsg rpc address Msg w =
     (case rpc address \<lparr> node_name = msg_NodeName Msg, data_type = msgType Msg, rq_data = Data Msg \<rparr> w of
        (Inl e, w') \<Rightarrow> (\<lparr> rm_acknowledgement = False, error_msg = e \<rparr>, w')
      | (Inr reply, w') \<Rightarrow> (reply, w'))"

type_synonym queues = "(string \<times> tsqueue) list"

definition MessageServicer :: "(queues, unit, RequestMessage, ReturnMessage) servicer" where
  \<comment> \<open>Proceed: the message goes to the queue of the node it names, made on demand\<close>
  "MessageServicer = \<lparr> sv_method = (),
     sv_process = (\<lambda>request msgs.
       let msg = message0\<lparr>msg_NodeName := node_name request, Data := rq_data request,
                   msgType := data_type request\<rparr>;
           msgs' = smap_put (msg_NodeName msg) (q_push msg (smap_get tsqueue0 msgs (msg_NodeName msg)))
                     (smap_ins tsqueue0 msgs (msg_NodeName msg))
       in (Inr \<lparr> rm_acknowledgement = True, error_msg = [] \<rparr>, msgs')) \<rparr>"

fun node_HandleRpcs :: "RequestMessage event list \<Rightarrow> ((queues, unit, RequestMessage, ReturnMessage) server, unit) act" where
  \<comment> \<open>the loop of NodeImpl::HandleRpcs, started with one MessageServicer: it ends when ok is false\<close>
  "node_HandleRpcs [] = ret ()"
| "node_HandleRpcs (Not_ok tag # evs) = ret ()"
| "node_HandleRpcs (ev # evs) = abind (on_event (\<lambda>_. ()) [MessageServicer] ev) (\<lambda>_. node_HandleRpcs evs)"

text \<open>The node's server is the machine of \<open>Call_Data\<close> up to the first tag that comes back with \<^verbatim>\<open>ok\<close> false.\<close>

lemma node_HandleRpcs_until:
  "node_HandleRpcs evs = HandleRpcs (\<lambda>_. ()) [MessageServicer] (takeWhile (\<lambda>ev. \<forall>tag. ev \<noteq> Not_ok tag) evs)"
  by (induction evs rule: node_HandleRpcs.induct) simp_all

section \<open>The node\<close>

record node =
  msgQueues :: queues
  connectedAddresses :: "(string \<times> string) list"
  establishedConnections :: "(string \<times> bool) list"
  connectedNodes :: "string list"
  MyNodeName :: string
  nodeparams :: CommParams

definition node0 :: node where
  "node0 = \<lparr> msgQueues = [], connectedAddresses = [], establishedConnections = [],
     connectedNodes = [], MyNodeName = [], nodeparams = CommParams0 \<rparr>"

subsection \<open>The network map\<close>

fun add_neighbours :: "string list \<Rightarrow> node \<Rightarrow> node result" where
  \<comment> \<open>for each of the nodes split at the comma\<close>
  "add_neighbours [] nd = Inr nd"
| "add_neighbours (x # nodes) nd =
     (let nodeSplit = split_on CHR 0x40 x in
      rbind (at ''nodeSplit'' nodeSplit 0) (\<lambda>n.
      rbind (at ''nodeSplit'' nodeSplit 1) (\<lambda>a.
        add_neighbours nodes
          (nd\<lparr>connectedNodes := connectedNodes nd @ [n],
             connectedAddresses := smap_put n a (connectedAddresses nd),
             establishedConnections := smap_put n False (establishedConnections nd)\<rparr>))))"

definition lookup_body :: "string \<Rightarrow> string \<Rightarrow> bool \<Rightarrow> node \<Rightarrow> (string \<times> bool \<times> node) result" where
  \<comment> \<open>the body of the loop: what is left in data, node_found, the node\<close>
  "lookup_body name data found nd =
     (let datasplit = split_on CHR ''-'' data; data' = last datasplit in
      rbind (at ''datasplit'' datasplit 0) (\<lambda>d0.
        if name = d0
        then rbind (at ''datasplit'' datasplit 1) (\<lambda>d1.
             rbind (add_neighbours (split_on CHR '','' d1) nd) (\<lambda>nd'. Inr (data', True, nd')))
        else Inr (data', found, nd)))"

partial_function (option) lookup_loop ::
  "string \<Rightarrow> string list \<Rightarrow> string \<Rightarrow> bool \<Rightarrow> node \<Rightarrow> (node result) option" where
  \<comment> \<open>while ((NetworkMap >> data) || (!node_found)): at the end of the stream data keeps its value\<close>
  "lookup_loop name toks data found nd =
     (case toks of
        t # ts \<Rightarrow>
          (case lookup_body name t found nd of
             Inl e \<Rightarrow> Some (Inl e)
           | Inr r \<Rightarrow> (case r of (data', found', nd') \<Rightarrow> lookup_loop name ts data' found' nd'))
      | [] \<Rightarrow>
          if found then Some (Inr nd)
          else (case lookup_body name data found nd of
             Inl e \<Rightarrow> Some (Inl e)
           | Inr r \<Rightarrow> (case r of (data', found', nd') \<Rightarrow> lookup_loop name [] data' found' nd')))"

definition LookUpNetworkMap :: "string \<Rightarrow> string \<Rightarrow> node \<Rightarrow> (node result) option" where
  \<comment> \<open>the file's contents are an argument; None: the function does not return\<close>
  "LookUpNetworkMap name NetworkMapfile nd = lookup_loop name (tokens NetworkMapfile) [] False nd"

definition AddNode :: "string \<Rightarrow> string \<Rightarrow> node \<Rightarrow> node" where
  "AddNode name address nd =
     (let m_qMessagesIn = tsqueue0\<lparr>q_NodeName := name, q_NodeAddress := address\<rparr>
      in nd\<lparr>msgQueues := smap_put name
              (q_assign (smap_get tsqueue0 (msgQueues nd) name) m_qMessagesIn)
              (smap_ins tsqueue0 (msgQueues nd) name)\<rparr>)"

definition AddNodes :: "string \<Rightarrow> string \<Rightarrow> node \<Rightarrow> (node result) option" where
  "AddNodes name mapfile nd =
     (case LookUpNetworkMap name mapfile nd of
        None \<Rightarrow> None
      | Some r \<Rightarrow> Some (rbind r (\<lambda>nd'. Inr
          (foldl (\<lambda>nd n. AddNode n (smap_get [] (connectedAddresses nd) n)
                    (nd\<lparr>connectedAddresses := smap_ins [] (connectedAddresses nd) n\<rparr>))
             nd' (connectedNodes nd')))))"

definition Register :: "(string \<Rightarrow> string) \<Rightarrow> CommParams \<Rightarrow> node \<Rightarrow> (node result) option" where
  \<comment> \<open>the gRPC part of Init is not modelled; the reader of files is an argument\<close>
  "Register file2String params nd =
     (let nd' = nd\<lparr>nodeparams := params, MyNodeName := NodeName params\<rparr>
      in AddNodes (MyNodeName nd') (file2String (NetworkMapFile params)) nd')"

definition getConnectedNodes :: "node \<Rightarrow> string list" where
  "getConnectedNodes nd = connectedNodes nd"

definition getConnectedAddresses :: "node \<Rightarrow> (string \<times> string) list" where
  "getConnectedAddresses nd = connectedAddresses nd"

definition getMsgQueuesInformation :: "node \<Rightarrow> string list \<times> nat" where
  "getMsgQueuesInformation nd = (map fst (msgQueues nd), length (msgQueues nd))"

definition getQueueSize :: "string \<Rightarrow> node \<Rightarrow> nat \<times> node" where
  "getQueueSize n nd =
     (q_count (smap_get tsqueue0 (msgQueues nd) n), nd\<lparr>msgQueues := smap_ins tsqueue0 (msgQueues nd) n\<rparr>)"

subsection \<open>Sending\<close>

definition sendMsgNoWait :: "'w transport \<Rightarrow> string \<Rightarrow> message_format \<Rightarrow> node \<Rightarrow> ('w, ReturnMessage) act" where
  "sendMsgNoWait rpc name Msg nd w =
     (case map_of (connectedAddresses nd) name of
        None \<Rightarrow> (Inl (Exit_failure ''is not in the network map''), w)
      | Some address \<Rightarrow> (case sendGRPCMsg rpc address Msg w of (reply, w') \<Rightarrow> (Inr reply, w')))"

definition connect_error :: string where
  "connect_error = ''failed to connect to all addresses''"

definition connect_waits :: "u32 \<Rightarrow> u32 \<Rightarrow> ReturnMessage \<Rightarrow> u32 \<Rightarrow> bool" where
  \<comment> \<open>the condition of the first loop\<close>
  "connect_waits sleep timeout reply wait_ctr =
     (error_msg reply = connect_error \<or> (wait_ctr * sleep > timeout \<and> timeout \<noteq> 0))"

partial_function (option) connect_loop ::
  "('w, ReturnMessage) act \<Rightarrow> u32 \<Rightarrow> u32 \<Rightarrow> ReturnMessage \<Rightarrow> u32 \<Rightarrow> 'w \<Rightarrow> (ReturnMessage result \<times> 'w) option" where
  "connect_loop send sleep timeout reply wait_ctr w =
     (if connect_waits sleep timeout reply wait_ctr
      then (case send w of (r, w') \<Rightarrow>
              (case r of Inl e \<Rightarrow> Some (Inl e, w')
                | Inr reply' \<Rightarrow> connect_loop send sleep timeout reply' (wait_ctr + 1) w'))
      else Some (Inr reply, w))"

partial_function (option) ack_loop ::
  "('w, ReturnMessage) act \<Rightarrow> u32 \<Rightarrow> u32 \<Rightarrow> ReturnMessage \<Rightarrow> u32 \<Rightarrow> 'w \<Rightarrow> (ReturnMessage result \<times> 'w) option" where
  "ack_loop send sleep timeout reply timeoutCtr w =
     (if rm_acknowledgement reply then Some (Inr reply, w)
      else (case send w of (r, w') \<Rightarrow>
              (case r of Inl e \<Rightarrow> Some (Inl e, w')
                | Inr reply' \<Rightarrow>
                   if timeoutCtr * sleep > timeout \<and> timeout \<noteq> 0 then Some (Inr reply', w')
                   else ack_loop send sleep timeout reply' (timeoutCtr + 1) w')))"

definition sendMsg ::
  "'w transport \<Rightarrow> string \<Rightarrow> message_format \<Rightarrow> u32 \<Rightarrow> u32 \<Rightarrow> bool \<Rightarrow> node \<times> 'w \<Rightarrow> (unit result \<times> node \<times> 'w) option" where
  "sendMsg rpc name Msg sleep timeout allowOverride = (\<lambda>(nd, w).
     (let send = sendMsgNoWait rpc name Msg nd in
      case send w of
        (Inl e, w1) \<Rightarrow> Some (Inl e, nd, w1)
      | (Inr reply, w1) \<Rightarrow>
          let nd1 = nd\<lparr>establishedConnections := smap_ins False (establishedConnections nd) name\<rparr>;
              first = (\<not> smap_get False (establishedConnections nd) name \<and> allowOverride);
              sleep' = (if first then 10 else sleep);
              timeout' = (if first then 10000 else timeout)
          in (case (if first then connect_loop send sleep' timeout' reply 0 w1 else Some (Inr reply, w1)) of
                None \<Rightarrow> None
              | Some (Inl e, w2) \<Rightarrow> Some (Inl e, nd1, w2)
              | Some (Inr reply2, w2) \<Rightarrow>
                  (case ack_loop send sleep' timeout' reply2 0 w2 of
                     None \<Rightarrow> None
                   | Some (Inl e, w3) \<Rightarrow> Some (Inl e, nd1, w3)
                   | Some (Inr _, w3) \<Rightarrow>
                       Some (Inr (), nd1\<lparr>establishedConnections :=
                         smap_put name True (establishedConnections nd1)\<rparr>, w3)))))"

fun broadcastMsg ::
  "'w transport \<Rightarrow> (string \<times> string) list \<Rightarrow> message_format \<Rightarrow> u32 \<Rightarrow> u32 \<Rightarrow> node \<times> 'w
   \<Rightarrow> (unit result \<times> node \<times> 'w) option" where
  "broadcastMsg rpc [] msg sleep timeout s = Some (Inr (), s)"
| "broadcastMsg rpc (e # toSendTo) msg sleep timeout s =
     (case sendMsg rpc (fst e) msg sleep timeout True s of
        None \<Rightarrow> None
      | Some (Inl e, s') \<Rightarrow> Some (Inl e, s')
      | Some (Inr _, s') \<Rightarrow> broadcastMsg rpc toSendTo msg sleep timeout s')"

definition broadcastMsg_all where
  "broadcastMsg_all rpc msg sleep timeout s = broadcastMsg rpc (connectedAddresses (fst s)) msg sleep timeout s"

fun broadcastMsgNoWait ::
  "'w transport \<Rightarrow> (string \<times> string) list \<Rightarrow> message_format \<Rightarrow> node \<Rightarrow> ('w, ReturnMessage list) act" where
  "broadcastMsgNoWait rpc [] msg nd = ret []"
| "broadcastMsgNoWait rpc (e # toSendTo) msg nd =
     abind (sendMsgNoWait rpc (fst e) msg nd) (\<lambda>resp.
     abind (broadcastMsgNoWait rpc toSendTo msg nd) (\<lambda>responses. ret (resp # responses)))"

definition sendSerialMsg ::
  "('o \<Rightarrow> bytes) \<Rightarrow> 'w transport \<Rightarrow> 'o \<Rightarrow> message_format \<Rightarrow> string \<Rightarrow> string \<Rightarrow> u32 \<Rightarrow> u32 \<Rightarrow> node \<times> 'w
   \<Rightarrow> (message_format result \<times> node \<times> 'w) option" where
  \<comment> \<open>the message passed by reference comes back with its type and data set\<close>
  "sendSerialMsg ser rpc obj msgSent ty name sleep timeout s =
     (if ser obj = [] then Some (Inl (Serialize_error (''Serialized '' @ ty @ '' is empty'')), s)
      else
        let msgSent' = msgSent\<lparr>msgType := ty, Data := ser obj\<rparr>
        in (case sendMsg rpc name msgSent' sleep timeout True s of
              None \<Rightarrow> None
            | Some (r, s') \<Rightarrow> Some (rbind r (\<lambda>_. Inr msgSent'), s')))"

definition broadcastSerialMsg ::
  "('o \<Rightarrow> bytes) \<Rightarrow> 'w transport \<Rightarrow> 'o \<Rightarrow> message_format \<Rightarrow> string \<Rightarrow> u32 \<Rightarrow> u32 \<Rightarrow> node \<times> 'w
   \<Rightarrow> (message_format result \<times> node \<times> 'w) option" where
  "broadcastSerialMsg ser rpc obj msg ty sleep timeout s =
     (if ser obj = [] then Some (Inl (Serialize_error (''Serialized '' @ ty @ '' is empty'')), s)
      else
        let msg' = msg\<lparr>msgType := ty, Data := ser obj\<rparr>
        in (case broadcastMsg_all rpc msg' sleep timeout s of
              None \<Rightarrow> None
            | Some (r, s') \<Rightarrow> Some (rbind r (\<lambda>_. Inr msg'), s')))"

subsection \<open>Receiving\<close>

definition getMsg :: "string \<Rightarrow> string \<Rightarrow> node \<Rightarrow> message_format \<times> node" where
  "getMsg from msgtype nd =
     (let q = smap_get tsqueue0 (msgQueues nd) from;
          qs = smap_ins tsqueue0 (msgQueues nd) from
      in if \<not> q_empty q
         then (case (if msgtype = [] then q_pop q else q_pop_with_type msgtype q) of
                 (msg, q') \<Rightarrow> (msg\<lparr>acknowledgement := True\<rparr>, nd\<lparr>msgQueues := smap_put from q' qs\<rparr>))
         else (message0\<lparr>acknowledgement := False\<rparr>, nd\<lparr>msgQueues := qs\<rparr>))"

definition deliver :: "RequestMessage \<Rightarrow> node \<Rightarrow> node" where
  \<comment> \<open>the server thread handles one request: the servicer runs on the node's queues\<close>
  "deliver rq nd = nd\<lparr>msgQueues := snd (sv_process MessageServicer rq (msgQueues nd))\<rparr>"

definition deliver_all :: "RequestMessage list \<Rightarrow> node \<Rightarrow> node" where
  "deliver_all rqs nd = foldl (\<lambda>nd rq. deliver rq nd) nd rqs"

partial_function (option) getMsgWait_loop ::
  "(nat \<Rightarrow> RequestMessage list) \<Rightarrow> string \<Rightarrow> string \<Rightarrow> u32 \<Rightarrow> u32 \<Rightarrow> nat \<Rightarrow> u32 \<Rightarrow> message_format \<times> node
   \<Rightarrow> (message_format \<times> node) option" where
  "getMsgWait_loop arrivals from ty sleep timeout poll timeoutCtr s =
     (if acknowledgement (fst s) then Some s
      else
        let s' = getMsg from ty (deliver_all (arrivals poll) (snd s)) in
        if timeoutCtr * sleep > timeout \<and> timeout \<noteq> 0 then Some s'
        else getMsgWait_loop arrivals from ty sleep timeout (Suc poll) (timeoutCtr + 1) s')"

definition getMsgWait ::
  "(nat \<Rightarrow> RequestMessage list) \<Rightarrow> string \<Rightarrow> string \<Rightarrow> u32 \<Rightarrow> u32 \<Rightarrow> node \<Rightarrow> (message_format \<times> node) option" where
  "getMsgWait arrivals from ty sleep timeout nd =
     getMsgWait_loop arrivals from ty sleep timeout 0 0 (getMsg from ty nd)"

definition getSerialMsgWait ::
  "(bytes \<Rightarrow> 'o result) \<Rightarrow> (nat \<Rightarrow> RequestMessage list) \<Rightarrow> string \<Rightarrow> string \<Rightarrow> node \<Rightarrow> ('o result \<times> node) option" where
  \<comment> \<open>getMsgWait is called without the type\<close>
  "getSerialMsgWait deser arrivals ty from nd =
     (case getMsgWait arrivals from [] 1 0 nd of
        None \<Rightarrow> None
      | Some (msg, nd') \<Rightarrow>
          Some (if Data msg = [] then Inl (Openfhe_error (''Received empty serialized object '' @ ty))
                else deser (Data msg), nd'))"

definition checkMsg :: "string \<Rightarrow> string \<Rightarrow> node \<Rightarrow> bool result \<times> node" where
  "checkMsg from ty nd =
     (q_check_msg_type ty (smap_get tsqueue0 (msgQueues nd) from),
      nd\<lparr>msgQueues := smap_ins tsqueue0 (msgQueues nd) from\<rparr>)"

end
