(* ===== verification/Node_Send.thy ===== *)
theory Node_Send
  imports Node
begin

text \<open>
  What \<^verbatim>\<open>NodeImpl::sendMsg\<close> does on each behaviour of the network: how many times it transmits the
  message, when it returns, and when it does not. The world after n transmissions and the
  reply to transmission number n are those of iterating the transport on the destination's
  address; the two loops of \<open>sendMsg\<close> are run along that sequence.
\<close>

definition after_sends :: "('w \<Rightarrow> ReturnMessage \<times> 'w) \<Rightarrow> nat \<Rightarrow> 'w \<Rightarrow> 'w" where
  "after_sends tr n w = ((\<lambda>w. snd (tr w)) ^^ n) w"

definition reply_no :: "('w \<Rightarrow> ReturnMessage \<times> 'w) \<Rightarrow> nat \<Rightarrow> 'w \<Rightarrow> ReturnMessage" where
  \<comment> \<open>the reply to transmission n, from 0\<close>
  "reply_no tr n w = fst (tr (after_sends tr n w))"

definition always :: "('w \<Rightarrow> ReturnMessage \<times> 'w) \<Rightarrow> ('w, ReturnMessage) act" where
  "always tr w = (Inr (fst (tr w)), snd (tr w))"

lemma after_sends_simps [simp]:
  "after_sends tr 0 w = w"
  "after_sends tr (Suc n) w = snd (tr (after_sends tr n w))"
  by (simp_all add: after_sends_def)

lemma always_step [simp]:
  "always tr (after_sends tr n w) = (Inr (reply_no tr n w), after_sends tr (Suc n) w)"
  by (simp add: always_def reply_no_def)

lemma sendMsgNoWait_always:
  "map_of (connectedAddresses nd) name = Some address
   \<Longrightarrow> sendMsgNoWait rpc name Msg nd = always (sendGRPCMsg rpc address Msg)"
  by (rule ext) (simp add: sendMsgNoWait_def always_def split: prod.split)

section \<open>The loop that waits for the connection\<close>

lemma connect_loop_run:
  assumes "\<And>i. n \<le> i \<Longrightarrow> i < n + k \<Longrightarrow> connect_waits sl tm (reply_no tr i w) (of_nat i)"
    and "\<not> connect_waits sl tm (reply_no tr (n + k) w) (of_nat (n + k))"
  shows "connect_loop (always tr) sl tm (reply_no tr n w) (of_nat n) (after_sends tr (Suc n) w)
    = Some (Inr (reply_no tr (n + k) w), after_sends tr (Suc (n + k)) w)"
  using assms
proof (induction k arbitrary: n)
  case 0
  then show ?case by (subst connect_loop.simps) simp
next
  case (Suc k)
  have "connect_waits sl tm (reply_no tr n w) (of_nat n)" using Suc.prems(1) [of n] by simp
  then have "connect_loop (always tr) sl tm (reply_no tr n w) (of_nat n) (after_sends tr (Suc n) w)
    = connect_loop (always tr) sl tm (reply_no tr (Suc n) w) (of_nat (Suc n)) (after_sends tr (Suc (Suc n)) w)"
    by (subst connect_loop.simps) (simp del: after_sends_simps(2) add: add.commute)
  also have "\<dots> = Some (Inr (reply_no tr (Suc n + k) w), after_sends tr (Suc (Suc n + k)) w)"
    by (rule Suc.IH) (use Suc.prems in auto)
  finally show ?case by simp
qed

lemma connect_loop_never:
  assumes "\<And>i. n \<le> i \<Longrightarrow> connect_waits sl tm (reply_no tr i w) (of_nat i)"
  shows "connect_loop (always tr) sl tm (reply_no tr n w) (of_nat n) (after_sends tr (Suc n) w) = None"
proof (rule ccontr)
  assume "\<not> ?thesis"
  then obtain r where "connect_loop (always tr) sl tm (reply_no tr n w) (of_nat n) (after_sends tr (Suc n) w) = Some r"
    by auto
  then have "\<forall>m. n \<le> m \<longrightarrow> \<not> (always tr = always tr \<and> sl = sl \<and> tm = tm \<and> reply_no tr n w = reply_no tr m w
      \<and> (of_nat n :: u32) = of_nat m \<and> after_sends tr (Suc n) w = after_sends tr (Suc m) w)"
  proof (rule connect_loop.raw_induct [where P = "\<lambda>snd' s t rep c v res. \<forall>m. n \<le> m \<longrightarrow>
      \<not> (snd' = always tr \<and> s = sl \<and> t = tm \<and> rep = reply_no tr m w \<and> c = of_nat m \<and> v = after_sends tr (Suc m) w)",
      rotated], goal_cases)
    case (1 f snd' s t rep c v res)
    show ?case
    proof (intro allI impI notI)
      fix m assume m: "n \<le> m" and eq: "snd' = always tr \<and> s = sl \<and> t = tm \<and> rep = reply_no tr m w \<and> c = of_nat m
        \<and> v = after_sends tr (Suc m) w"
      then have "f (always tr) sl tm (reply_no tr (Suc m) w) (of_nat (Suc m)) (after_sends tr (Suc (Suc m)) w) = Some res"
        using 1(2) assms [OF m] by (simp del: after_sends_simps(2) add: add.commute)
      from 1(1) [OF this, rule_format, of "Suc m"] m show False by simp
    qed
  qed
  then show False by blast
qed

section \<open>The loop that waits for the acknowledgement\<close>

lemma ack_loop_run:
  assumes "\<And>i. n \<le> i \<Longrightarrow> i < n + k \<Longrightarrow> \<not> rm_acknowledgement (reply_no tr i w)"
    and "rm_acknowledgement (reply_no tr (n + k) w)"
    and "\<And>i. i < k \<Longrightarrow> \<not> (of_nat (c + i) * sl > tm \<and> tm \<noteq> 0)"
  shows "ack_loop (always tr) sl tm (reply_no tr n w) (of_nat c) (after_sends tr (Suc n) w)
    = Some (Inr (reply_no tr (n + k) w), after_sends tr (Suc (n + k)) w)"
  using assms
proof (induction k arbitrary: n c)
  case 0
  then show ?case by (subst ack_loop.simps) simp
next
  case (Suc k)
  have "\<not> rm_acknowledgement (reply_no tr n w)" "\<not> (of_nat c * sl > tm \<and> tm \<noteq> 0)"
    using Suc.prems(1) [of n] Suc.prems(3) [of 0] by auto
  then have "ack_loop (always tr) sl tm (reply_no tr n w) (of_nat c) (after_sends tr (Suc n) w)
    = ack_loop (always tr) sl tm (reply_no tr (Suc n) w) (of_nat (Suc c)) (after_sends tr (Suc (Suc n)) w)"
    by (subst ack_loop.simps) (auto simp del: after_sends_simps(2) simp add: add.commute)
  also have "\<dots> = Some (Inr (reply_no tr (Suc n + k) w), after_sends tr (Suc (Suc n + k)) w)"
  proof (rule Suc.IH)
    show "\<not> (of_nat (Suc c + i) * sl > tm \<and> tm \<noteq> 0)" if "i < k" for i
      using Suc.prems(3) [of "Suc i"] that by simp
  qed (use Suc.prems(1,2) in auto)
  finally show ?case by simp
qed

lemma ack_loop_gives_up:
  assumes "\<And>i. n \<le> i \<Longrightarrow> i \<le> n + k \<Longrightarrow> \<not> rm_acknowledgement (reply_no tr i w)"
    and "\<And>i. i < k \<Longrightarrow> \<not> (of_nat (c + i) * sl > tm \<and> tm \<noteq> 0)"
    and "of_nat (c + k) * sl > tm" "tm \<noteq> 0"
  shows "ack_loop (always tr) sl tm (reply_no tr n w) (of_nat c) (after_sends tr (Suc n) w)
    = Some (Inr (reply_no tr (Suc (n + k)) w), after_sends tr (Suc (Suc (n + k))) w)"
  using assms
proof (induction k arbitrary: n c)
  case 0
  then show ?case by (subst ack_loop.simps) (simp del: after_sends_simps(2))
next
  case (Suc k)
  have "\<not> rm_acknowledgement (reply_no tr n w)" "\<not> (of_nat c * sl > tm \<and> tm \<noteq> 0)"
    using Suc.prems(1) [of n] Suc.prems(2) [of 0] by auto
  then have "ack_loop (always tr) sl tm (reply_no tr n w) (of_nat c) (after_sends tr (Suc n) w)
    = ack_loop (always tr) sl tm (reply_no tr (Suc n) w) (of_nat (Suc c)) (after_sends tr (Suc (Suc n)) w)"
    by (subst ack_loop.simps) (auto simp del: after_sends_simps(2) simp add: add.commute)
  also have "\<dots> = Some (Inr (reply_no tr (Suc (Suc n + k)) w), after_sends tr (Suc (Suc (Suc n + k))) w)"
  proof (rule Suc.IH)
    show "\<not> (of_nat (Suc c + i) * sl > tm \<and> tm \<noteq> 0)" if "i < k" for i
      using Suc.prems(2) [of "Suc i"] that by simp
    show "of_nat (Suc c + k) * sl > tm" using Suc.prems(3) by simp
  qed (use Suc.prems(1,4) in auto)
  finally show ?case by simp
qed

lemma ack_loop_never:
  assumes "\<And>i. n \<le> i \<Longrightarrow> \<not> rm_acknowledgement (reply_no tr i w)" and "tm = 0"
  shows "ack_loop (always tr) sl tm (reply_no tr n w) c (after_sends tr (Suc n) w) = None"
proof (rule ccontr)
  assume "\<not> ?thesis"
  then obtain r where "ack_loop (always tr) sl tm (reply_no tr n w) c (after_sends tr (Suc n) w) = Some r"
    by auto
  then have "\<forall>m. n \<le> m \<longrightarrow> \<not> (always tr = always tr \<and> sl = sl \<and> tm = tm \<and> reply_no tr n w = reply_no tr m w
      \<and> after_sends tr (Suc n) w = after_sends tr (Suc m) w)"
  proof (rule ack_loop.raw_induct [where P = "\<lambda>snd' s t rep c v res. \<forall>m. n \<le> m \<longrightarrow>
      \<not> (snd' = always tr \<and> s = sl \<and> t = tm \<and> rep = reply_no tr m w \<and> v = after_sends tr (Suc m) w)",
      rotated], goal_cases)
    case (1 f snd' s t rep c v res)
    show ?case
    proof (intro allI impI notI)
      fix m assume m: "n \<le> m" and eq: "snd' = always tr \<and> s = sl \<and> t = tm \<and> rep = reply_no tr m w
        \<and> v = after_sends tr (Suc m) w"
      then have "f (always tr) sl tm (reply_no tr (Suc m) w) (c + 1) (after_sends tr (Suc (Suc m)) w) = Some res"
        using 1(2) assms(1) [OF m] assms(2) by (simp del: after_sends_simps(2))
      from 1(1) [OF this, rule_format, of "Suc m"] m show False by simp
    qed
  qed
  then show False by blast
qed

section \<open>sendMsg\<close>

definition connected_after :: "string \<Rightarrow> node \<Rightarrow> node" where
  "connected_after name nd = nd\<lparr>establishedConnections :=
     smap_put name True (smap_ins False (establishedConnections nd) name)\<rparr>"

lemma sendMsg_unfold:
  assumes "map_of (connectedAddresses nd) name = Some address"
    and "tr = sendGRPCMsg rpc address Msg"
  shows "sendMsg rpc name Msg sleep timeout allowOverride (nd, w) =
    (let nd1 = nd\<lparr>establishedConnections := smap_ins False (establishedConnections nd) name\<rparr>;
         first = (\<not> smap_get False (establishedConnections nd) name \<and> allowOverride);
         sleep' = (if first then 10 else sleep); timeout' = (if first then 10000 else timeout)
     in (case (if first then connect_loop (always tr) sleep' timeout' (reply_no tr 0 w) 0 (after_sends tr (Suc 0) w)
               else Some (Inr (reply_no tr 0 w), after_sends tr (Suc 0) w)) of
           None \<Rightarrow> None
         | Some (Inl e, w2) \<Rightarrow> Some (Inl e, nd1, w2)
         | Some (Inr reply2, w2) \<Rightarrow>
             (case ack_loop (always tr) sleep' timeout' reply2 0 w2 of
                None \<Rightarrow> None
              | Some (Inl e, w3) \<Rightarrow> Some (Inl e, nd1, w3)
              | Some (Inr _, w3) \<Rightarrow> Some (Inr (), connected_after name nd, w3))))"
proof -
  have send: "sendMsgNoWait rpc name Msg nd = always tr"
    using sendMsgNoWait_always [OF assms(1)] assms(2) by simp
  have after: "nd\<lparr>establishedConnections := X,
      establishedConnections := smap_put name True (establishedConnections (nd\<lparr>establishedConnections := X\<rparr>))\<rparr>
      = nd\<lparr>establishedConnections := smap_put name True X\<rparr>" for X
    by simp
  have step: "always tr w = (Inr (reply_no tr 0 w), after_sends tr (Suc 0) w)"
    by (simp add: always_def reply_no_def)
  show ?thesis
    unfolding sendMsg_def prod.case send step Let_def sum.case after connected_after_def by (rule refl)
qed

lemma connect_waits_first:
  "error_msg r = connect_error \<Longrightarrow> connect_waits 10 10000 r c"
  "connect_waits 10 10000 r c \<longleftrightarrow> error_msg r = connect_error \<or> 10000 < c * 10"
  by (auto simp: connect_waits_def)

lemma ctr_small: "i \<le> 1000 \<Longrightarrow> \<not> (10000 :: u32) < of_nat i * 10"
proof -
  assume i: "i \<le> 1000"
  have "unat (of_nat i * 10 :: u32) = i * 10"
    using i by (simp add: unat_word_ariths unat_of_nat)
  then show ?thesis using i by (simp add: word_less_nat_alt)
qed

lemma ctr_large: "1000 < i \<Longrightarrow> i < 429496730 \<Longrightarrow> (10000 :: u32) < of_nat i * 10"
proof -
  assume i: "1000 < i" "i < 429496730"
  have "unat (of_nat i * 10 :: u32) = i * 10"
    using i by (simp add: unat_word_ariths unat_of_nat)
  then show ?thesis using i by (simp add: word_less_nat_alt)
qed

lemma ctr_wraps: "\<not> (10000 :: u32) < of_nat 429496730 * 10"
  by simp

lemma sendMsg_first_contact:
  assumes addr: "map_of (connectedAddresses nd) name = Some address"
    and new: "\<not> smap_get False (establishedConnections nd) name"
    and tr: "tr = sendGRPCMsg rpc address Msg"
    and waits: "\<And>i. i < k \<Longrightarrow> connect_waits 10 10000 (reply_no tr i w) (of_nat i)"
    and stop: "\<not> connect_waits 10 10000 (reply_no tr k w) (of_nat k)"
    and ack: "rm_acknowledgement (reply_no tr k w)"
  shows "sendMsg rpc name Msg sleep timeout True (nd, w)
    = Some (Inr (), connected_after name nd, after_sends tr (Suc k) w)"
proof -
  have c: "connect_loop (always tr) 10 10000 (reply_no tr 0 w) (of_nat 0) (after_sends tr (Suc 0) w)
      = Some (Inr (reply_no tr k w), after_sends tr (Suc k) w)"
    using connect_loop_run [of 0 k 10 10000 tr w] waits stop by simp
  have a: "ack_loop (always tr) 10 10000 (reply_no tr k w) (of_nat 0) (after_sends tr (Suc k) w)
      = Some (Inr (reply_no tr k w), after_sends tr (Suc k) w)"
    using ack_loop_run [of k 0 tr w, where c = 0 and sl = 10 and tm = 10000] ack by simp
  show ?thesis
    unfolding sendMsg_unfold [OF addr tr, of sleep timeout True w] Let_def
    using new c a by (simp del: after_sends_simps)
qed

text \<open>C32: the first message to a node that is not up yet. When the first k transmissions (k at most 1000)
  fail to connect and the next one is acknowledged, \<^verbatim>\<open>sendMsg\<close> returns after exactly k+1
  transmissions with the connection marked as established.\<close>

theorem sendMsg_connects:
  assumes "map_of (connectedAddresses nd) name = Some address"
    and "\<not> smap_get False (establishedConnections nd) name"
    and "k \<le> 1000"
    and "\<forall>i < k. error_msg (reply_no (sendGRPCMsg rpc address Msg) i w) = connect_error"
    and "error_msg (reply_no (sendGRPCMsg rpc address Msg) k w) \<noteq> connect_error"
    and "rm_acknowledgement (reply_no (sendGRPCMsg rpc address Msg) k w)"
  shows "sendMsg rpc name Msg sleep timeout True (nd, w)
    = Some (Inr (), connected_after name nd, after_sends (sendGRPCMsg rpc address Msg) (Suc k) w)"
  by (rule sendMsg_first_contact [OF assms(1,2) refl])
    (use assms(3-6) in \<open>auto simp: connect_waits_first ctr_small simp del: after_sends_simps\<close>)

text \<open>C33: the first message to a node that never comes up: although the first contact sets a timeout of
  ten seconds, \<^verbatim>\<open>sendMsg\<close> never returns.\<close>

theorem sendMsg_hangs:
  assumes "map_of (connectedAddresses nd) name = Some address"
    and "\<not> smap_get False (establishedConnections nd) name"
    and "\<forall>i. error_msg (reply_no (sendGRPCMsg rpc address Msg) i w) = connect_error"
  shows "sendMsg rpc name Msg sleep timeout True (nd, w) = None"
proof -
  have "connect_loop (always (sendGRPCMsg rpc address Msg)) 10 10000 (reply_no (sendGRPCMsg rpc address Msg) 0 w)
      (of_nat 0) (after_sends (sendGRPCMsg rpc address Msg) (Suc 0) w) = None"
    by (rule connect_loop_never) (use assms(3) connect_waits_first(1) in auto)
  then show ?thesis
    unfolding sendMsg_unfold [OF assms(1) refl, of rpc Msg sleep timeout True w] Let_def
    using assms(2) by (simp del: after_sends_simps)
qed

text \<open>C34: the timeout of the first contact works backwards. When connecting fails more than 1000 times (ten
  seconds) and then succeeds for good, the loop does not stop at the first acknowledged
  transmission: it repeats the message until its 32-bit counter has wrapped, so that the
  message is transmitted 429496731 times.\<close>

theorem sendMsg_floods:
  assumes "map_of (connectedAddresses nd) name = Some address"
    and "\<not> smap_get False (establishedConnections nd) name"
    and "1000 < k" "k \<le> 429496730"
    and "\<forall>i < k. error_msg (reply_no (sendGRPCMsg rpc address Msg) i w) = connect_error"
    and "\<forall>i \<ge> k. error_msg (reply_no (sendGRPCMsg rpc address Msg) i w) = []
      \<and> rm_acknowledgement (reply_no (sendGRPCMsg rpc address Msg) i w)"
  shows "sendMsg rpc name Msg sleep timeout True (nd, w)
    = Some (Inr (), connected_after name nd, after_sends (sendGRPCMsg rpc address Msg) 429496731 w)"
proof -
  have "sendMsg rpc name Msg sleep timeout True (nd, w)
    = Some (Inr (), connected_after name nd, after_sends (sendGRPCMsg rpc address Msg) (Suc 429496730) w)"
  proof (rule sendMsg_first_contact [OF assms(1,2) refl])
    fix i :: nat assume i: "i < 429496730"
    show "connect_waits 10 10000 (reply_no (sendGRPCMsg rpc address Msg) i w) (of_nat i)"
    proof (cases "i < k")
      case True
      then show ?thesis using assms(5) connect_waits_first(1) by blast
    next
      case False
      then have "1000 < i" using assms(3) by simp
      from ctr_large [OF this i] show ?thesis by (simp add: connect_waits_first(2))
    qed
  next
    have "error_msg (reply_no (sendGRPCMsg rpc address Msg) 429496730 w) = []"
      using assms(4,6) by blast
    then show "\<not> connect_waits 10 10000 (reply_no (sendGRPCMsg rpc address Msg) 429496730 w) (of_nat 429496730)"
      using ctr_wraps unfolding connect_waits_first(2) by (simp add: connect_error_def)
    show "rm_acknowledgement (reply_no (sendGRPCMsg rpc address Msg) 429496730 w)"
      using assms(4,6) by blast
  qed
  moreover have "Suc 429496730 = 429496731" by simp
  ultimately show ?thesis by (simp only:)
qed

text \<open>a message to a node that was reached before, with the default timeout of zero (wait for ever):
  \<^verbatim>\<open>sendMsg\<close> stops transmitting at the first acknowledgement, and does not return when there is none.\<close>

theorem sendMsg_established:
  assumes "map_of (connectedAddresses nd) name = Some address"
    and "smap_get False (establishedConnections nd) name"
  shows "((\<forall>i < k. \<not> rm_acknowledgement (reply_no (sendGRPCMsg rpc address Msg) i w))
      \<and> rm_acknowledgement (reply_no (sendGRPCMsg rpc address Msg) k w)
      \<longrightarrow> sendMsg rpc name Msg sleep 0 True (nd, w)
        = Some (Inr (), connected_after name nd, after_sends (sendGRPCMsg rpc address Msg) (Suc k) w))
    \<and> ((\<forall>i. \<not> rm_acknowledgement (reply_no (sendGRPCMsg rpc address Msg) i w))
      \<longrightarrow> sendMsg rpc name Msg sleep 0 True (nd, w) = None)"
proof -
  define tr where "tr = sendGRPCMsg rpc address Msg"
  have u: "sendMsg rpc name Msg sleep 0 True (nd, w)
    = (case ack_loop (always tr) sleep 0 (reply_no tr 0 w) 0 (after_sends tr (Suc 0) w) of
         None \<Rightarrow> None
       | Some (Inl e, w3) \<Rightarrow> Some (Inl e, nd\<lparr>establishedConnections := smap_ins False (establishedConnections nd) name\<rparr>, w3)
       | Some (Inr _, w3) \<Rightarrow> Some (Inr (), connected_after name nd, w3))"
    unfolding sendMsg_unfold [OF assms(1) tr_def, of sleep 0 True w] Let_def
    using assms(2) by (simp del: after_sends_simps)
  show ?thesis
    unfolding tr_def [symmetric]
  proof (intro conjI impI)
    assume a: "(\<forall>i < k. \<not> rm_acknowledgement (reply_no tr i w)) \<and> rm_acknowledgement (reply_no tr k w)"
    have "ack_loop (always tr) sleep 0 (reply_no tr 0 w) 0 (after_sends tr (Suc 0) w)
        = Some (Inr (reply_no tr k w), after_sends tr (Suc k) w)"
      using ack_loop_run [of 0 k tr w, where c = 0 and sl = sleep and tm = 0] a by simp
    then show "sendMsg rpc name Msg sleep 0 True (nd, w) = Some (Inr (), connected_after name nd, after_sends tr (Suc k) w)"
      unfolding u by simp
  next
    assume "\<forall>i. \<not> rm_acknowledgement (reply_no tr i w)"
    then have "ack_loop (always tr) sleep 0 (reply_no tr 0 w) 0 (after_sends tr (Suc 0) w) = None"
      by (intro ack_loop_never) auto
    then show "sendMsg rpc name Msg sleep 0 True (nd, w) = None" unfolding u by simp
  qed
qed

text \<open>giving up is silent. With a timeout, a message that is never acknowledged is transmitted
  timeout + 3 times (at one millisecond between transmissions); then \<^verbatim>\<open>sendMsg\<close> returns like
  after a success, and the connection counts as established.\<close>

theorem sendMsg_gives_up:
  assumes "map_of (connectedAddresses nd) name = Some address"
    and "smap_get False (establishedConnections nd) name"
    and "0 < T" "T < 2 ^ 32 - 1"
    and "\<forall>i. \<not> rm_acknowledgement (reply_no (sendGRPCMsg rpc address Msg) i w)"
  shows "sendMsg rpc name Msg 1 (of_nat T) True (nd, w)
    = Some (Inr (), connected_after name nd, after_sends (sendGRPCMsg rpc address Msg) (T + 3) w)"
proof -
  define tr where "tr = sendGRPCMsg rpc address Msg"
  have lt: "(of_nat T :: u32) < of_nat n \<longleftrightarrow> T < n" if "n < 2 ^ 32" for n
    using that assms(4) by (simp add: word_less_nat_alt unat_of_nat)
  have "unat (of_nat T :: u32) = T" using assms(4) by (simp add: unat_of_nat)
  then have nz: "(of_nat T :: u32) \<noteq> 0" using assms(3) by (metis less_numeral_extra(3) unat_0)
  have "ack_loop (always tr) 1 (of_nat T) (reply_no tr 0 w) (of_nat 0) (after_sends tr (Suc 0) w)
      = Some (Inr (reply_no tr (Suc (0 + Suc T)) w), after_sends tr (Suc (Suc (0 + Suc T))) w)"
  proof (rule ack_loop_gives_up)
    show "\<not> (of_nat (0 + i) * 1 > (of_nat T :: u32) \<and> (of_nat T :: u32) \<noteq> 0)" if "i < Suc T" for i
      using lt [of i] that assms(4) by simp
    show "of_nat (0 + Suc T) * 1 > (of_nat T :: u32)" using lt [of "Suc T"] assms(4) by simp
  qed (use assms(5) nz in \<open>auto simp: tr_def\<close>)
  moreover have "Suc (Suc (0 + Suc T)) = T + 3" by simp
  ultimately have "ack_loop (always tr) 1 (of_nat T) (reply_no tr 0 w) 0 (after_sends tr (Suc 0) w)
      = Some (Inr (reply_no tr (Suc (0 + Suc T)) w), after_sends tr (T + 3) w)"
    by (simp only: semiring_1_class.of_nat_0)
  then show ?thesis
    unfolding sendMsg_unfold [OF assms(1) tr_def, of 1 "of_nat T" True w] Let_def
    using assms(2) by (simp add: tr_def del: after_sends_simps)
qed

section \<open>Concrete runs\<close>

definition scripted :: "(nat \<Rightarrow> string + ReturnMessage) \<Rightarrow> nat transport" where
  \<comment> \<open>a network that answers call number n with f n; its state counts the transmissions\<close>
  "scripted f address rq n = (f n, Suc n)"

definition acked :: ReturnMessage where
  "acked = \<lparr> rm_acknowledgement = True, error_msg = [] \<rparr>"

definition two_nodes :: "bool \<Rightarrow> node" where
  "two_nodes est = node0\<lparr>connectedAddresses := [(''B'', ''localhost:50052'')],
     establishedConnections := [(''B'', est)]\<rparr>"

lemma scripted_after [simp]: "after_sends (sendGRPCMsg (scripted f) a m) n w = w + n"
  by (induction n) (simp_all add: sendGRPCMsg_def scripted_def split: sum.split)

lemma scripted_reply:
  "reply_no (sendGRPCMsg (scripted f) a m) n w
   = (case f (w + n) of Inl e \<Rightarrow> \<lparr> rm_acknowledgement = False, error_msg = e \<rparr> | Inr r \<Rightarrow> r)"
  by (simp add: reply_no_def) (simp add: sendGRPCMsg_def scripted_def split: sum.split)

lemma two_nodes_simps [simp]:
  "map_of (connectedAddresses (two_nodes b)) ''B'' = Some ''localhost:50052''"
  "smap_get False (establishedConnections (two_nodes b)) ''B'' = b"
  by (simp_all add: two_nodes_def smap_get_def)

lemma sendMsg_connects_witness:
  "sendMsg (scripted (\<lambda>n. if n < 2 then Inl connect_error else Inr acked)) ''B'' message0 1 0 True (two_nodes False, 0)
   = Some (Inr (), connected_after ''B'' (two_nodes False), 3)"
  using sendMsg_connects [of "two_nodes False" "''B''" "''localhost:50052''" 2
      "scripted (\<lambda>n. if n < 2 then Inl connect_error else Inr acked)" message0 0 1 0]
  by (simp add: scripted_reply acked_def connect_error_def del: after_sends_simps)

lemma sendMsg_hangs_witness:
  "sendMsg (scripted (\<lambda>n. Inl connect_error)) ''B'' message0 1 0 True (two_nodes False, 0) = None"
  by (rule sendMsg_hangs [of "two_nodes False" "''B''" "''localhost:50052''"]) (simp_all add: scripted_reply)

lemma sendMsg_floods_witness:
  "sendMsg (scripted (\<lambda>n. if n < 1001 then Inl connect_error else Inr acked)) ''B'' message0 1 0 True (two_nodes False, 0)
   = Some (Inr (), connected_after ''B'' (two_nodes False), 429496731)"
  using sendMsg_floods [of "two_nodes False" "''B''" "''localhost:50052''" 1001
      "scripted (\<lambda>n. if n < 1001 then Inl connect_error else Inr acked)" message0 0 1 0]
  by (simp add: scripted_reply acked_def del: after_sends_simps)

lemma sendMsg_established_witness:
  "sendMsg (scripted (\<lambda>n. if n < 1 then Inl [] else Inr acked)) ''B'' message0 1 0 True (two_nodes True, 0)
   = Some (Inr (), connected_after ''B'' (two_nodes True), 2)
   \<and> sendMsg (scripted (\<lambda>n. Inl [])) ''B'' message0 1 0 True (two_nodes True, 0) = None"
  using sendMsg_established [of "two_nodes True" "''B''" "''localhost:50052''" 1
      "scripted (\<lambda>n. if n < 1 then Inl [] else Inr acked)" message0 0 1]
    sendMsg_established [of "two_nodes True" "''B''" "''localhost:50052''" 0 "scripted (\<lambda>n. Inl [])" message0 0 1]
  by (simp add: scripted_reply acked_def del: after_sends_simps)

lemma sendMsg_gives_up_witness:
  "sendMsg (scripted (\<lambda>n. Inl [])) ''B'' message0 1 5 True (two_nodes True, 0)
   = Some (Inr (), connected_after ''B'' (two_nodes True), 8)"
  using sendMsg_gives_up [of "two_nodes True" "''B''" "''localhost:50052''" 5 "scripted (\<lambda>n. Inl [])" message0 0]
  by (simp add: scripted_reply del: after_sends_simps)

end
