(* ===== verification/Node_Receive.thy ===== *)
theory Node_Receive
  imports Node
begin

text \<open>
  The receiving side of \<^verbatim>\<open>NodeImpl\<close>: what \<^verbatim>\<open>getMsg\<close> and \<^verbatim>\<open>getMsgWait\<close> return when the server thread
  delivers messages in between, and what \<^verbatim>\<open>LookUpNetworkMap\<close> makes of a network map.
  The order of the messages of one sender rests on the queue's interface: the steps of a node, seen
  from one sender, are a run of the queue of that sender.
\<close>

section \<open>Deliveries and receptions\<close>

abbreviation queue_of :: "node \<Rightarrow> string \<Rightarrow> tsqueue" where
  "queue_of nd n \<equiv> smap_get tsqueue0 (msgQueues nd) n"

definition nodes_ok :: "node \<Rightarrow> bool" where
  "nodes_ok nd \<longleftrightarrow> smap_ok (msgQueues nd)"

definition message_of :: "RequestMessage \<Rightarrow> message_format" where
  "message_of rq = message0\<lparr>msg_NodeName := node_name rq, Data := rq_data rq, msgType := data_type rq\<rparr>"

datatype node_op = Deliver RequestMessage | Get string

fun node_run :: "node_op list \<Rightarrow> node \<Rightarrow> (string \<times> message_format) list \<times> node" where
  \<comment> \<open>the server thread and the node's own thread, one operation at a time; what each getMsg received\<close>
  "node_run [] nd = ([], nd)"
| "node_run (Deliver rq # ops) nd = node_run ops (deliver rq nd)"
| "node_run (Get from # ops) nd =
     (case getMsg from [] nd of (m, nd') \<Rightarrow>
        (case node_run ops nd' of (ms, nd'') \<Rightarrow>
           (if acknowledgement m then ((from, m) # ms, nd'') else (ms, nd''))))"

fun queue_ops :: "string \<Rightarrow> node_op list \<Rightarrow> message_format qop list" where
  \<comment> \<open>what the operations mean for the queue of one sender\<close>
  "queue_ops n [] = []"
| "queue_ops n (Deliver rq # ops) = (if node_name rq = n then Put (message_of rq) # queue_ops n ops else queue_ops n ops)"
| "queue_ops n (Get from # ops) = (if from = n then Take # queue_ops n ops else queue_ops n ops)"

definition received_from :: "string \<Rightarrow> (string \<times> message_format) list \<Rightarrow> message_format list" where
  "received_from n rs = map snd (filter (\<lambda>p. fst p = n) rs)"

definition sent_by :: "string \<Rightarrow> node_op list \<Rightarrow> message_format list" where
  "sent_by n ops = concat (map (\<lambda>op. case op of Deliver rq \<Rightarrow> if node_name rq = n then [message_of rq] else []
     | Get _ \<Rightarrow> []) ops)"

definition ack :: "message_format \<Rightarrow> message_format" where
  "ack m = m\<lparr>acknowledgement := True\<rparr>"

lemma ack_simps [simp]: "acknowledgement (ack m)" "Data (ack m) = Data m" "msgType (ack m) = msgType m" "ack (ack m) = ack m"
  by (simp_all add: ack_def)

lemma deliver_queue:
  "nodes_ok nd \<Longrightarrow> queue_of (deliver rq nd) n = (if n = node_name rq then q_push (message_of rq) (queue_of nd n) else queue_of nd n)"
  by (simp add: deliver_def MessageServicer_def Let_def nodes_ok_def smap_ins_ok message_of_def message0_def)

lemma deliver_ok: "nodes_ok nd \<Longrightarrow> nodes_ok (deliver rq nd)"
  by (simp add: deliver_def MessageServicer_def Let_def nodes_ok_def smap_ins_ok smap_put_ok)

lemma getMsg_ok: "nodes_ok nd \<Longrightarrow> nodes_ok (snd (getMsg from ty nd))"
  by (simp add: getMsg_def Let_def nodes_ok_def smap_ins_ok smap_put_ok split: prod.split)

lemma getMsg_untyped:
  assumes "nodes_ok nd"
  shows "getMsg from [] nd = (m, nd') \<Longrightarrow>
    (case q_take (queue_of nd from) of
       (None, q) \<Rightarrow> \<not> acknowledgement m \<and> queue_of nd' from = queue_of nd from
     | (Some x, q) \<Rightarrow> m = ack x \<and> queue_of nd' from = q)
    \<and> (\<forall>n. n \<noteq> from \<longrightarrow> queue_of nd' n = queue_of nd n)"
  using assms
  by (cases "q_pop (queue_of nd from)")
    (auto simp: getMsg_def Let_def q_take_def ack_def nodes_ok_def smap_ins_ok split: if_splits)

lemma node_run_queue:
  assumes "nodes_ok nd"
  shows "map ack (fst (tsq.run (queue_ops n ops) (queue_of nd n))) = received_from n (fst (node_run ops nd))
    \<and> snd (tsq.run (queue_ops n ops) (queue_of nd n)) = queue_of (snd (node_run ops nd)) n"
  using assms
proof (induction ops arbitrary: nd)
  case (Cons op ops)
  show ?case
  proof (cases op)
    case (Deliver rq)
    then show ?thesis
      using Cons.IH [OF deliver_ok [OF Cons.prems, of rq]] deliver_queue [OF Cons.prems, of rq n]
      by (cases "node_name rq = n") simp_all
  next
    case (Get src)
    obtain m nd' where g: "getMsg src [] nd = (m, nd')" by (cases "getMsg src [] nd")
    have ok: "nodes_ok nd'" using getMsg_ok [OF Cons.prems, of src "[]"] g by simp
    note u = getMsg_untyped [OF Cons.prems g] and IH = Cons.IH [OF ok]
    obtain x q where t: "q_take (queue_of nd src) = (x, q)" by (cases "q_take (queue_of nd src)")
    have q: "x = None \<Longrightarrow> q = queue_of nd src"
      using t by (cases "q_pop (queue_of nd src)") (auto simp: q_take_def split: if_splits)
    show ?thesis
    proof (cases x)
      case None
      with u IH Get g t q show ?thesis
        by (cases "src = n") (auto split: prod.splits)
    next
      case (Some y)
      with u IH Get g t show ?thesis
        by (cases "src = n") (auto simp: received_from_def split: prod.splits)
    qed
  qed
qed (simp add: received_from_def)

lemma puts_sent: "tsq.puts (queue_ops n ops) = sent_by n ops"
  by (induction n ops rule: queue_ops.induct) (auto simp: sent_by_def)

text \<open>C30: messages of one sender are received in the order they were sent, none lost, none twice: for
  every interleaving of deliveries and \<^verbatim>\<open>getMsg\<close> calls without a type, what was received from a sender
  followed by what still waits in its queue is what was waiting before followed by what the
  sender sent, whatever the other senders do.\<close>

theorem per_sender_fifo:
  assumes "nodes_ok nd"
  shows "received_from n (fst (node_run ops nd)) @ map ack (Queue (queue_of (snd (node_run ops nd)) n))
    = map ack (Queue (queue_of nd n)) @ map ack (sent_by n ops)"
  using node_run_queue [OF assms, of n ops] tsq.run_fifo [of "queue_ops n ops" "queue_of nd n"]
  by (metis map_append puts_sent)

lemma per_sender_fifo_witness:
  "received_from ''A'' (fst (node_run [Deliver \<lparr> node_name = ''A'', data_type = ''k'', rq_data = ''1'' \<rparr>,
      Deliver \<lparr> node_name = ''B'', data_type = ''k'', rq_data = ''2'' \<rparr>, Get ''B'', Get ''A'',
      Deliver \<lparr> node_name = ''A'', data_type = ''k'', rq_data = ''3'' \<rparr>] node0))
   @ map ack (Queue (queue_of (snd (node_run [Deliver \<lparr> node_name = ''A'', data_type = ''k'', rq_data = ''1'' \<rparr>,
      Deliver \<lparr> node_name = ''B'', data_type = ''k'', rq_data = ''2'' \<rparr>, Get ''B'', Get ''A'',
      Deliver \<lparr> node_name = ''A'', data_type = ''k'', rq_data = ''3'' \<rparr>] node0)) ''A''))
   = map ack [message0\<lparr>msg_NodeName := ''A'', Data := ''1'', msgType := ''k''\<rparr>,
        message0\<lparr>msg_NodeName := ''A'', Data := ''3'', msgType := ''k''\<rparr>]"
  by (subst per_sender_fifo)
    (simp_all add: nodes_ok_def node0_def smap_get_def sent_by_def message_of_def)

section \<open>Waiting for a message\<close>

text \<open>C35: a typed \<^verbatim>\<open>getMsg\<close> on a queue that is not empty throws away all messages in front of the first one
  of the type and returns that one. When no message of the queue has the type, the queue is empty afterwards and
  the result is a message that is marked as received and carries no data, so \<^verbatim>\<open>getMsgWait\<close> with a type does not wait
  for a message of that type once any other message of the sender is queued.\<close>

theorem getMsgWait_typed_loses:
  assumes "nodes_ok nd" "Queue (queue_of nd from) \<noteq> []" "ty \<noteq> []"
  shows "\<exists>nd'. getMsgWait arrivals from ty sleep timeout nd =
      Some (case dropWhile (\<lambda>m. msgType m \<noteq> ty) (Queue (queue_of nd from)) of [] \<Rightarrow> ack message0 | m # _ \<Rightarrow> ack m, nd')
    \<and> Queue (queue_of nd' from) = tl (dropWhile (\<lambda>m. msgType m \<noteq> ty) (Queue (queue_of nd from)))"
proof -
  obtain m r where p: "q_pop_with_type ty (queue_of nd from) = (m, (queue_of nd from)\<lparr>Queue := r\<rparr>)"
    and m: "ack m = (case dropWhile (\<lambda>m. msgType m \<noteq> ty) (Queue (queue_of nd from)) of [] \<Rightarrow> ack message0 | m # _ \<Rightarrow> ack m)"
    and r: "r = tl (dropWhile (\<lambda>m. msgType m \<noteq> ty) (Queue (queue_of nd from)))"
    by (cases "dropWhile (\<lambda>m. msgType m \<noteq> ty) (Queue (queue_of nd from))") (simp_all add: q_pop_with_type_def pop_loop_split)
  have "getMsg from ty nd = (ack m, nd\<lparr>msgQueues :=
      smap_put from ((queue_of nd from)\<lparr>Queue := r\<rparr>) (smap_ins tsqueue0 (msgQueues nd) from)\<rparr>)"
    using assms(2,3) by (simp add: getMsg_def Let_def p q_empty_def ack_def)
  moreover have "acknowledgement (ack m)" by (simp add: ack_def)
  ultimately show ?thesis
    using assms(1) unfolding m [symmetric] r [symmetric]
    by (simp add: getMsgWait_def getMsgWait_loop.simps nodes_ok_def smap_ins_ok)
qed

lemma deliver_all_ok: "nodes_ok nd \<Longrightarrow> nodes_ok (deliver_all rqs nd)"
  unfolding deliver_all_def by (induction rqs arbitrary: nd) (auto intro: deliver_ok)

lemma deliver_all_queue:
  "nodes_ok nd \<Longrightarrow> Queue (queue_of (deliver_all rqs nd) n)
     = Queue (queue_of nd n) @ map message_of (filter (\<lambda>rq. node_name rq = n) rqs)"
proof (induction rqs arbitrary: nd)
  case (Cons rq rqs)
  then show ?case
    using Cons.IH [OF deliver_ok [OF Cons.prems], of rq] deliver_queue [OF Cons.prems, of rq n]
    by (auto simp: deliver_all_def)
qed (simp add: deliver_all_def)

lemma getMsg_empty:
  "nodes_ok nd \<Longrightarrow> Queue (queue_of nd from) = [] \<Longrightarrow> \<exists>nd'. getMsg from [] nd = (message0, nd') \<and> nodes_ok nd'
    \<and> (\<forall>n. queue_of nd' n = queue_of nd n)"
  by (simp add: getMsg_def Let_def q_empty_def nodes_ok_def smap_ins_ok message0_def)

lemma getMsg_cons:
  assumes "nodes_ok nd" "Queue (queue_of nd from) = m # r"
  shows "\<exists>nd'. getMsg from [] nd = (ack m, nd') \<and> Queue (queue_of nd' from) = r
    \<and> (\<forall>n. n \<noteq> from \<longrightarrow> queue_of nd' n = queue_of nd n)"
  using assms by (simp add: getMsg_def Let_def q_empty_def q_pop_def nodes_ok_def smap_ins_ok ack_def)

lemma getMsgWait_loop_run:
  assumes "nodes_ok nd" "Queue (queue_of nd from) = []" "\<not> acknowledgement m0"
    and "\<And>i. i < k \<Longrightarrow> filter (\<lambda>rq. node_name rq = from) (arrivals (p + i)) = []"
    and "filter (\<lambda>rq. node_name rq = from) (arrivals (p + k)) = rq # rqs"
  shows "\<exists>nd'. getMsgWait_loop arrivals from [] sleep 0 p c (m0, nd) = Some (ack (message_of rq), nd')
    \<and> Queue (queue_of nd' from) = map message_of rqs"
  using assms
proof (induction k arbitrary: p c m0 nd)
  case 0
  have "Queue (queue_of (deliver_all (arrivals p) nd) from) = message_of rq # map message_of rqs"
    using deliver_all_queue [OF 0(1)] 0(2,5) by simp
  from getMsg_cons [OF deliver_all_ok [OF 0(1)] this] obtain nd' where
    "getMsg from [] (deliver_all (arrivals p) nd) = (ack (message_of rq), nd')"
    "Queue (queue_of nd' from) = map message_of rqs" by blast
  then show ?case
    using 0(3) by (simp add: getMsgWait_loop.simps [of _ _ _ _ _ p] getMsgWait_loop.simps [of _ _ _ _ _ "Suc p"])
next
  case (Suc k)
  have "Queue (queue_of (deliver_all (arrivals p) nd) from) = []"
    using deliver_all_queue [OF Suc.prems(1)] Suc.prems(2) Suc.prems(4) [of 0] by simp
  from getMsg_empty [OF deliver_all_ok [OF Suc.prems(1)] this] obtain nd1 where
    g: "getMsg from [] (deliver_all (arrivals p) nd) = (message0, nd1)" "nodes_ok nd1"
    "Queue (queue_of nd1 from) = []"
    using \<open>Queue (queue_of (deliver_all (arrivals p) nd) from) = []\<close> by metis
  have "\<exists>nd'. getMsgWait_loop arrivals from [] sleep 0 (Suc p) (c + 1) (message0, nd1) = Some (ack (message_of rq), nd')
      \<and> Queue (queue_of nd' from) = map message_of rqs"
  proof (rule Suc.IH [OF g(2,3)])
    show "\<not> acknowledgement message0" by (simp add: message0_def)
    show "filter (\<lambda>rq. node_name rq = from) (arrivals (Suc p + i)) = []" if "i < k" for i
      using Suc.prems(4) [of "Suc i"] that by simp
    show "filter (\<lambda>rq. node_name rq = from) (arrivals (Suc p + k)) = rq # rqs"
      using Suc.prems(5) by simp
  qed
  then show ?case
    using Suc.prems(3) g(1) by (subst getMsgWait_loop.simps) simp
qed

text \<open>\<^verbatim>\<open>getMsgWait\<close> without a type and without a timeout, on an empty queue: it returns the first message of
  the sender that the server thread delivers, however many polls that takes and whatever the other
  senders deliver meanwhile, and leaves the rest of that delivery in the queue.\<close>

theorem getMsgWait_returns_first:
  assumes "nodes_ok nd" "Queue (queue_of nd from) = []"
    and "\<forall>i < k. filter (\<lambda>rq. node_name rq = from) (arrivals i) = []"
    and "filter (\<lambda>rq. node_name rq = from) (arrivals k) = rq # rqs"
  shows "\<exists>nd'. getMsgWait arrivals from [] sleep 0 nd = Some (ack (message_of rq), nd')
    \<and> Queue (queue_of nd' from) = map message_of rqs"
proof -
  obtain nd1 where g: "getMsg from [] nd = (message0, nd1)" "nodes_ok nd1" "Queue (queue_of nd1 from) = []"
    using getMsg_empty [OF assms(1,2)] assms(2) by metis
  show ?thesis
    using getMsgWait_loop_run [OF g(2,3), of message0 k arrivals 0 rq rqs sleep 0] assms(3,4)
    by (simp add: getMsgWait_def g(1) message0_def)
qed

text \<open>\<^verbatim>\<open>getSerialMsgWait\<close> pays no attention to the type it is asked for: it deserialises the first
  message of the sender, of any type.\<close>

theorem getSerialMsgWait_ignores_type:
  assumes "nodes_ok nd" "Queue (queue_of nd from) = m # r" "Data m \<noteq> []"
  shows "\<exists>nd'. getSerialMsgWait deser arrivals ty from nd = Some (deser (Data m), nd') \<and> Queue (queue_of nd' from) = r"
proof -
  obtain nd' where "getMsg from [] nd = (ack m, nd')" "Queue (queue_of nd' from) = r"
    using getMsg_cons [OF assms(1,2)] by blast
  then show ?thesis
    using assms(3) by (simp add: getSerialMsgWait_def getMsgWait_def getMsgWait_loop.simps)
qed

definition waiting :: "message_format list \<Rightarrow> node" where
  "waiting ms = node0\<lparr>msgQueues := [(''A'', tsqueue0\<lparr>Queue := ms\<rparr>)]\<rparr>"

lemma waiting_simps [simp]: "nodes_ok (waiting ms)" "Queue (queue_of (waiting ms) ''A'') = ms"
  by (simp_all add: waiting_def nodes_ok_def node0_def smap_ok_def smap_get_def)

lemma getMsgWait_typed_loses_witness:
  "(\<exists>nd'. getMsgWait (\<lambda>_. []) ''A'' ''evalMultKey'' 1 0 (waiting [message0\<lparr>msgType := ''publicKey'', Data := ''k''\<rparr>])
      = Some (ack message0, nd') \<and> Queue (queue_of nd' ''A'') = [])
   \<and> (\<exists>nd'. getMsgWait (\<lambda>_. []) ''A'' ''evalMultKey'' 1 0 (waiting [message0\<lparr>msgType := ''publicKey'', Data := ''k''\<rparr>,
        message0\<lparr>msgType := ''evalMultKey'', Data := ''e''\<rparr>, message0\<lparr>msgType := ''publicKey'', Data := ''l''\<rparr>])
      = Some (ack (message0\<lparr>msgType := ''evalMultKey'', Data := ''e''\<rparr>), nd')
      \<and> Queue (queue_of nd' ''A'') = [message0\<lparr>msgType := ''publicKey'', Data := ''l''\<rparr>])"
  using getMsgWait_typed_loses [of "waiting [message0\<lparr>msgType := ''publicKey'', Data := ''k''\<rparr>]" "''A''" "''evalMultKey''" "\<lambda>_. []" 1 0]
    getMsgWait_typed_loses [of "waiting [message0\<lparr>msgType := ''publicKey'', Data := ''k''\<rparr>,
        message0\<lparr>msgType := ''evalMultKey'', Data := ''e''\<rparr>, message0\<lparr>msgType := ''publicKey'', Data := ''l''\<rparr>]" "''A''" "''evalMultKey''" "\<lambda>_. []" 1 0]
  by simp

lemma getMsgWait_returns_first_witness:
  "\<exists>nd'. getMsgWait (\<lambda>i. if i = 2 then [\<lparr> node_name = ''A'', data_type = ''k'', rq_data = ''1'' \<rparr>]
        else [\<lparr> node_name = ''B'', data_type = ''k'', rq_data = ''2'' \<rparr>]) ''A'' [] 1 0 (waiting [])
      = Some (ack (message_of \<lparr> node_name = ''A'', data_type = ''k'', rq_data = ''1'' \<rparr>), nd')
      \<and> Queue (queue_of nd' ''A'') = []"
  using getMsgWait_returns_first [of "waiting []" "''A''" 2 "\<lambda>i. if i = 2 then [\<lparr> node_name = ''A'', data_type = ''k'', rq_data = ''1'' \<rparr>]
        else [\<lparr> node_name = ''B'', data_type = ''k'', rq_data = ''2'' \<rparr>]" "\<lparr> node_name = ''A'', data_type = ''k'', rq_data = ''1'' \<rparr>" "[]"]
  by simp

lemma getSerialMsgWait_ignores_type_witness:
  "\<exists>nd'. getSerialMsgWait (\<lambda>b. Inr b) (\<lambda>_. []) ''evalMultKey'' ''A'' (waiting [message0\<lparr>msgType := ''publicKey'', Data := ''k''\<rparr>])
      = Some (Inr ''k'', nd')"
  using getSerialMsgWait_ignores_type [of "waiting [message0\<lparr>msgType := ''publicKey'', Data := ''k''\<rparr>]" "''A''"
      "message0\<lparr>msgType := ''publicKey'', Data := ''k''\<rparr>" "[]" "\<lambda>b. Inr b" "\<lambda>_. []" "''evalMultKey''"]
  by auto

section \<open>The network map\<close>

text \<open>
  A network map has one line per node: its name and the list of its neighbours with their addresses. The
  lines below are those of well-formed names and addresses, without the delimiters of the format.
\<close>

definition map_clean :: "string \<Rightarrow> bool" where
  "map_clean s \<longleftrightarrow> s \<noteq> [] \<and> (\<forall>c \<in> set s. \<not> is_space c \<and> c \<notin> {CHR ''-'', CHR '','', CHR 0x40})"

record map_row =
  row_node :: string
  row_neighbours :: "(string \<times> string) list"

definition row_ok :: "map_row \<Rightarrow> bool" where
  "row_ok r \<longleftrightarrow> map_clean (row_node r) \<and> row_neighbours r \<noteq> []
     \<and> (\<forall>(n, a) \<in> set (row_neighbours r). map_clean n \<and> map_clean a)"

definition row_tail :: "map_row \<Rightarrow> string" where
  "row_tail r = join '','' (map (\<lambda>(n, a). n @ CHR 0x40 # a) (row_neighbours r))"

definition row_line :: "map_row \<Rightarrow> string" where
  "row_line r = row_node r @ CHR ''-'' # row_tail r"

definition map_file :: "map_row list \<Rightarrow> string" where
  "map_file rs = concat (map (\<lambda>r. row_line r @ [CHR 0x0A]) rs)"

definition add_row :: "map_row \<Rightarrow> node \<Rightarrow> node" where
  "add_row r nd = nd\<lparr>connectedNodes := connectedNodes nd @ map fst (row_neighbours r),
     connectedAddresses := foldl (\<lambda>m (n, a). smap_put n a m) (connectedAddresses nd) (row_neighbours r),
     establishedConnections := foldl (\<lambda>m (n, a). smap_put n False m) (establishedConnections nd) (row_neighbours r)\<rparr>"

definition add_rows :: "string \<Rightarrow> map_row list \<Rightarrow> node \<Rightarrow> node" where
  "add_rows name rs nd = foldl (\<lambda>nd r. if row_node r = name then add_row r nd else nd) nd rs"

lemma map_clean_delim:
  "map_clean s \<Longrightarrow> CHR ''-'' \<notin> set s \<and> CHR '','' \<notin> set s \<and> CHR 0x40 \<notin> set s"
  by (auto simp: map_clean_def)

lemma map_clean_space: "map_clean s \<Longrightarrow> \<forall>c \<in> set s. \<not> is_space c"
  by (auto simp: map_clean_def)

lemma set_join: "set (join d ts) \<subseteq> set d \<union> (\<Union>t \<in> set ts. set t)"
  by (induction d ts rule: join.induct) auto

lemma row_tail_chars:
  assumes "row_ok r" "c \<in> set (row_tail r)"
  shows "c \<noteq> CHR ''-'' \<and> \<not> is_space c"
proof -
  have "c \<in> set '','' \<union> (\<Union>t \<in> set (map (\<lambda>(n, a). n @ CHR 0x40 # a) (row_neighbours r)). set t)"
    using assms(2) set_join unfolding row_tail_def by blast
  then consider "c = CHR '',''" | "c = CHR 0x40"
    | n a where "(n, a) \<in> set (row_neighbours r)" "c \<in> set n \<or> c \<in> set a" by auto
  then show ?thesis
  proof cases
    case 3
    then have "map_clean n" "map_clean a" using assms(1) by (auto simp: row_ok_def)
    with 3(2) show ?thesis by (auto dest: map_clean_space map_clean_delim)
  qed (simp_all add: is_space_def)
qed

lemma add_neighbours_row:
  assumes "\<forall>(n, a) \<in> set ns. map_clean n \<and> map_clean a"
  shows "add_neighbours (map (\<lambda>(n, a). n @ CHR 0x40 # a) ns) nd
    = Inr (add_row \<lparr> row_node = x, row_neighbours = ns \<rparr> nd)"
  using assms
proof (induction ns arbitrary: nd)
  case (Cons p ns)
  obtain n a where p: "p = (n, a)" by (cases p)
  have "CHR 0x40 \<notin> set n" "CHR 0x40 \<notin> set a" using Cons.prems map_clean_delim by (auto simp: p)
  then have "split_on CHR 0x40 (n @ CHR 0x40 # a) = [n, a]" by (simp add: split_on_append split_on_token)
  with Cons show ?case by (simp add: p add_row_def)
qed (simp add: add_row_def)

lemma row_split:
  assumes "row_ok r"
  shows "split_on CHR ''-'' (row_line r) = [row_node r, row_tail r]"
    and "split_on CHR '','' (row_tail r) = map (\<lambda>(n, a). n @ CHR 0x40 # a) (row_neighbours r)"
proof -
  have "CHR ''-'' \<notin> set (row_node r)" using assms map_clean_delim by (auto simp: row_ok_def)
  moreover have "CHR ''-'' \<notin> set (row_tail r)" using row_tail_chars [OF assms] by blast
  ultimately show "split_on CHR ''-'' (row_line r) = [row_node r, row_tail r]"
    by (simp add: row_line_def split_on_append split_on_token)
  have "CHR '','' \<notin> set n \<and> CHR '','' \<notin> set a" if "(n, a) \<in> set (row_neighbours r)" for n a
    using assms that map_clean_delim by (auto simp: row_ok_def)
  then show "split_on CHR '','' (row_tail r) = map (\<lambda>(n, a). n @ CHR 0x40 # a) (row_neighbours r)"
    unfolding row_tail_def using assms by (intro split_on_join) (auto simp: row_ok_def)
qed

lemma lookup_body_row:
  assumes "row_ok r"
  shows "lookup_body name (row_line r) found nd =
    Inr (row_tail r, if row_node r = name then True else found, if row_node r = name then add_row r nd else nd)"
proof -
  have "add_neighbours (map (\<lambda>(n, a). n @ CHR 0x40 # a) (row_neighbours r)) nd = Inr (add_row r nd)"
    using add_neighbours_row [of "row_neighbours r" nd "row_node r"] assms by (simp add: row_ok_def add_row_def)
  then show ?thesis
    by (auto simp: lookup_body_def Let_def row_split [OF assms])
qed

lemma row_line_word: "row_ok r \<Longrightarrow> row_line r \<noteq> [] \<and> (\<forall>c \<in> set (row_line r). \<not> is_space c)"
proof -
  assume r: "row_ok r"
  have "map_clean (row_node r)" using r by (simp add: row_ok_def)
  note map_clean_space [OF this]
  moreover have "\<forall>c \<in> set (row_tail r). \<not> is_space c" using row_tail_chars [OF r] by blast
  moreover have "\<not> is_space CHR ''-''" by (simp add: is_space_def)
  ultimately show ?thesis by (auto simp: row_line_def)
qed

lemma line_end: "is_space CHR 0x0A"
  by (simp add: is_space_def)

lemma tokens_map_file: "list_all row_ok rs \<Longrightarrow> tokens (map_file rs) = map row_line rs"
proof -
  assume "list_all row_ok rs"
  then have "tokens (concat (map (\<lambda>w. w @ [CHR 0x0A]) (map row_line rs))) = map row_line rs"
    by (intro tokens_lines) (auto simp: list_all_iff line_end dest: row_line_word)
  then show ?thesis by (simp add: map_file_def comp_def)
qed

lemma lookup_loop_rows:
  assumes "list_all row_ok rs"
  shows "lookup_loop name (map row_line rs) data found nd =
    lookup_loop name [] (if rs = [] then data else row_tail (last rs))
      (found \<or> name \<in> row_node ` set rs) (add_rows name rs nd)"
  using assms
proof (induction rs arbitrary: data found nd)
  case (Cons r rs)
  have "lookup_loop name (map row_line (r # rs)) data found nd
      = lookup_loop name (map row_line rs) (row_tail r) (found \<or> row_node r = name)
          (if row_node r = name then add_row r nd else nd)"
    using lookup_body_row [of r name found nd] Cons.prems by (subst lookup_loop.simps) simp
  also have "\<dots> = lookup_loop name [] (if rs = [] then row_tail r else row_tail (last rs))
      ((found \<or> row_node r = name) \<or> name \<in> row_node ` set rs)
      (add_rows name rs (if row_node r = name then add_row r nd else nd))"
    using Cons by simp
  finally show ?case by (auto simp: add_rows_def)
qed (simp add: add_rows_def)

lemma lookup_loop_stuck:
  assumes "CHR ''-'' \<notin> set data" "name \<noteq> data"
  shows "lookup_loop name [] data False nd = None"
proof -
  have body: "lookup_body name data False nd = Inr (data, False, nd)"
    using assms by (simp add: lookup_body_def split_on_token)
  have "\<not> (n = name \<and> ts = [] \<and> d = data \<and> \<not> f \<and> v = nd)" if "lookup_loop n ts d f v = Some r" for n ts d f v r
  proof (rule lookup_loop.raw_induct [where P = "\<lambda>n ts d f v r.
      \<not> (n = name \<and> ts = [] \<and> d = data \<and> \<not> f \<and> v = nd)", OF _ that], rule notI, goal_cases)
    case (1 g n ts d f v r)
    then have "g name [] data False nd = Some r" using body by simp
    from 1(1) [OF this] show False by simp
  qed
  then show ?thesis by (metis not_None_eq)
qed

text \<open>C31: reading a network map. When the map has a line for the node, \<^verbatim>\<open>LookUpNetworkMap\<close> returns and the
  node's neighbours are those of all its lines, in order, each with its address and no connection yet.
  When it has none, the function never returns: the message that the node is missing is not
  reachable.\<close>

theorem LookUpNetworkMap_spec:
  assumes "list_all row_ok rs" "map_clean name"
  shows "LookUpNetworkMap name (map_file rs) nd =
    (if name \<in> row_node ` set rs then Some (Inr (add_rows name rs nd)) else None)"
proof -
  have l: "LookUpNetworkMap name (map_file rs) nd =
      lookup_loop name [] (if rs = [] then [] else row_tail (last rs)) (name \<in> row_node ` set rs) (add_rows name rs nd)"
    using lookup_loop_rows [OF assms(1), of name "[]" False nd]
    by (simp add: LookUpNetworkMap_def tokens_map_file [OF assms(1)])
  show ?thesis
  proof (cases "name \<in> row_node ` set rs")
    case True
    then show ?thesis unfolding l by (simp add: lookup_loop.simps)
  next
    case False
    let ?d = "if rs = [] then [] else row_tail (last rs)"
    have "CHR ''-'' \<notin> set ?d"
      using row_tail_chars [of "last rs" "CHR ''-''"] assms(1) by (auto simp: list_all_iff)
    moreover have "name \<noteq> ?d"
    proof (cases "rs = []")
      case False
      then have "row_ok (last rs)" using assms(1) by (simp add: list_all_iff)
      then obtain n a ns where "row_neighbours (last rs) = (n, a) # ns"
        by (cases "row_neighbours (last rs)") (auto simp: row_ok_def)
      then have "CHR 0x40 \<in> set (row_tail (last rs))"
        by (cases ns) (auto simp: row_tail_def)
      then show ?thesis using False map_clean_delim [OF assms(2)] by auto
    qed (use assms(2) in \<open>simp add: map_clean_def\<close>)
    ultimately show ?thesis unfolding l using False by (simp add: lookup_loop_stuck)
  qed
qed

lemma LookUpNetworkMap_spec_witness:
  "LookUpNetworkMap ''Node1'' (map_file [\<lparr> row_node = ''Node1'', row_neighbours = [(''Node2'', ''h:2'')] \<rparr>]) node0
    = Some (Inr (add_row \<lparr> row_node = ''Node1'', row_neighbours = [(''Node2'', ''h:2'')] \<rparr> node0))
   \<and> LookUpNetworkMap ''Node3'' (map_file [\<lparr> row_node = ''Node1'', row_neighbours = [(''Node2'', ''h:2'')] \<rparr>]) node0 = None"
  by (subst (1 2) LookUpNetworkMap_spec)
    (simp_all add: row_ok_def map_clean_def is_space_def add_rows_def)

end
