(* ===== verification/Rpc.thy ===== *)
theory Rpc
  imports Call_Data
begin

text \<open>
  What the servers of the gRPC demos share beside the call machine.

  The servers are mailboxes: one method stores a value under a key, another one returns it to whoever
  asks, and clients poll. \<open>handler_inv\<close>, \<open>handler_rel\<close> and \<open>mailbox\<close> are the interfaces of a handler: a property of the state that
  every request keeps, a relation between two states that a kind of request cannot tell apart, and a value
  per key that only the posting method changes.
\<close>

definition wrong_method :: "('s, 'p) act" where
  \<comment> \<open>a servicer only ever sees requests of the method it registered for\<close>
  "wrong_method = throw (Undefined ''request of another method'')"

section \<open>Interfaces of a handler\<close>

locale handler_inv =
  fixes h :: "('s, 'q, 'p) handler" and I :: "'s \<Rightarrow> bool"
  assumes step: "I s \<Longrightarrow> h q s = (r, s') \<Longrightarrow> I s'"
begin

lemma serve_keeps: "I s \<Longrightarrow> serve h qs s = (r, s') \<Longrightarrow> I s'"
proof (induction qs arbitrary: s r s')
  case (Cons q qs)
  obtain x v where x: "h q s = (x, v)" by (cases "h q s")
  note v = step [OF Cons.prems(1) x]
  show ?case
  proof (cases x)
    case (Inr p)
    obtain y u where "serve h qs v = (y, u)" by (cases "serve h qs v")
    with Cons.IH [OF v this] Cons.prems(2) x Inr show ?thesis by (cases y) (auto simp: abind_def)
  qed (use Cons.prems(2) x v in \<open>auto simp: abind_def\<close>)
qed simp

end

locale handler_rel =
  fixes h :: "('s, 'q, 'p) handler" and R :: "'s \<Rightarrow> 's \<Rightarrow> bool" and ok :: "'s \<Rightarrow> 'q \<Rightarrow> bool"
  assumes step: "R s t \<Longrightarrow> ok s q \<Longrightarrow> h q s = (r, s') \<Longrightarrow> \<exists>t'. h q t = (r, t') \<and> R s' t'"
    and step_ok: "h q s = (r, s') \<Longrightarrow> ok s' = ok s"
begin

lemma serve_related:
  "R s t \<Longrightarrow> \<forall>q \<in> set qs. ok s q \<Longrightarrow> serve h qs s = (r, s') \<Longrightarrow> \<exists>t'. serve h qs t = (r, t') \<and> R s' t'"
proof (induction qs arbitrary: s t r s')
  case (Cons q qs)
  obtain x v where x: "h q s = (x, v)" by (cases "h q s")
  obtain v' where v': "h q t = (x, v')" "R v v'" using step [OF Cons.prems(1) _ x] Cons.prems(2) by auto
  show ?case
  proof (cases x)
    case (Inr p)
    obtain y u where u: "serve h qs v = (y, u)" by (cases "serve h qs v")
    have "\<forall>q \<in> set qs. ok v q" using Cons.prems(2) step_ok [OF x] by simp
    from Cons.IH [OF v'(2) this u] obtain u' where "serve h qs v' = (y, u')" "R u u'" by blast
    with Cons.prems(3) x v'(1) Inr u show ?thesis by (cases y) (auto simp: abind_def)
  qed (use Cons.prems(3) x v' in \<open>auto simp: abind_def\<close>)
qed auto

end

fun last_posted :: "('q \<Rightarrow> ('k \<times> 'v) option) \<Rightarrow> 'k \<Rightarrow> 'q list \<Rightarrow> 'v \<Rightarrow> 'v" where
  \<comment> \<open>the value posted last under a key, among these requests\<close>
  "last_posted posts k [] v = v"
| "last_posted posts k (q # qs) v =
     last_posted posts k qs (case posts q of Some (j, u) \<Rightarrow> if j = k then u else v | None \<Rightarrow> v)"

lemma last_posted_append: "last_posted posts k (xs @ ys) v = last_posted posts k ys (last_posted posts k xs v)"
  by (induction xs arbitrary: v) auto

lemma last_posted_none:
  "\<forall>q \<in> set qs. \<forall>v. posts q \<noteq> Some (k, v) \<Longrightarrow> last_posted posts k qs v = v"
  by (induction qs arbitrary: v) (auto split: option.splits)

locale mailbox =
  fixes h :: "('s, 'q, 'p) handler"
    and posts :: "'q \<Rightarrow> ('k \<times> 'v) option"
    and look :: "'k \<Rightarrow> 's \<Rightarrow> 'v"
  assumes step: "h q s = (Inr p, s') \<Longrightarrow>
      look k s' = (case posts q of Some (j, v) \<Rightarrow> if j = k then v else look k s | None \<Rightarrow> look k s)"
begin

lemma step_avoids:
  assumes "h q s = (Inr p, s')" "look k s \<noteq> v" "posts q \<noteq> Some (k, v)"
  shows "look k s' \<noteq> v"
  using step [OF assms(1), of k] assms(2,3) by (cases "posts q") (auto split: if_splits)

lemma after_serve:
  "serve h qs s = (Inr ps, s') \<Longrightarrow> look k s' = last_posted posts k qs (look k s)"
proof (induction qs arbitrary: s ps)
  case (Cons q qs)
  from Cons.prems obtain p v rs where "h q s = (Inr p, v)" "serve h qs v = (Inr rs, s')"
    by (auto simp: abind_Inr_iff)
  with Cons.IH [of v rs] step [of q s p v k] show ?case by simp
qed simp

end

locale polled_mailbox = mailbox h posts look
  for h :: "('s, 'q, 'p) handler" and posts :: "'q \<Rightarrow> ('k \<times> 'v) option" and look :: "'k \<Rightarrow> 's \<Rightarrow> 'v" +
  fixes ask :: "'k \<Rightarrow> 'q" and answer :: "'v \<Rightarrow> 'p"
  assumes reply: "h (ask k) s = (Inr p, s') \<Longrightarrow> p = answer (look k s)"
begin

lemma poll_answers:
  assumes "serve h (qs @ [ask k]) s = (Inr ps, s')"
  shows "last ps = answer (last_posted posts k qs (look k s))"
proof -
  obtain rs u where r: "serve h qs s = (Inr rs, u)"
    using assms by (auto simp: serve_append split: prod.splits sum.splits)
  obtain p where "h (ask k) u = (Inr p, s')" "ps = rs @ [p]"
    using assms r by (auto simp: serve_append abind_def split: prod.splits sum.splits)
  then show ?thesis using reply [of k u p s'] after_serve [OF r, of k] by simp
qed

lemma poll_after_post:
  assumes "posts q = Some (k, v)" "\<forall>q' \<in> set qs. \<forall>v. posts q' \<noteq> Some (k, v)"
    and "serve h (q # qs @ [ask k]) s = (Inr ps, s')"
  shows "last ps = answer v"
  using poll_answers [of "q # qs" k s ps s'] assms last_posted_none [of qs posts k] by simp

end

end
