(* ===== verification/Thresh_Server.thy ===== *)
theory Thresh_Server
  imports Rpc
begin

text \<open>
  The server of the threshold demo with aborts (\<^verbatim>\<open>threshnet_aborts_grpc_demo/include\<close>): the state that
  \<^verbatim>\<open>thresh_server.h\<close> keeps, one servicer per RPC method (each defined from the \<^verbatim>\<open>Proceed\<close> of its class) and the
  list of servicers \<^verbatim>\<open>HandleRpcs\<close> starts. What OpenFHE does, serialising and deserialising, is a record of
  functions; a pointer is an option (None is null). Writing debug files is left out.
\<close>

record ('cc, 'ct, 'poly) thr_lib =
  ser_cc :: "'cc option \<Rightarrow> bytes"
  ser_ct :: "'ct option \<Rightarrow> bytes"
  deser_ct :: "bytes \<Rightarrow> 'ct option result"
  ser_cts :: "'ct option list \<Rightarrow> bytes"
  deser_cts :: "bytes \<Rightarrow> 'ct option list result"
  ser_shares :: "(u32 \<rightharpoonup> 'poly) \<Rightarrow> bytes"
  deser_shares :: "bytes \<Rightarrow> (u32 \<rightharpoonup> 'poly) result"
  poly0 :: 'poly

record ('cc, 'ct, 'poly) thr_state =
  cc :: "'cc option"
  Ciphertexts :: "u32 \<rightharpoonup> 'ct option"
  PartialCiphertexts :: "u32 \<rightharpoonup> 'ct option list"
  CTRecdFlag :: "u32 \<rightharpoonup> bool"
  AbortsPartialCiphertexts :: "u32 \<times> u32 \<rightharpoonup> 'ct option list"
  PublicKeys :: "u32 \<rightharpoonup> bytes"
  PublicKeysReady :: "u32 \<rightharpoonup> bool"
  EvalKeyMultsReady :: "u32 \<rightharpoonup> bool"
  EvalKeyMixMultsReady :: "u32 \<rightharpoonup> bool"
  EvalKeyMults :: "u32 \<rightharpoonup> bytes"
  SecretShares :: "u32 \<rightharpoonup> (u32 \<rightharpoonup> 'poly)"
  EvalKeyMixMults :: "u32 \<rightharpoonup> bytes"
  EvalKeySums :: "u32 \<times> u32 \<rightharpoonup> bytes"
  EvalKeySumsReady :: "u32 \<times> u32 \<rightharpoonup> bool"

definition thr_state0 :: "'cc option \<Rightarrow> ('cc, 'ct, 'poly) thr_state" where
  "thr_state0 c = \<lparr> cc = c, Ciphertexts = Map.empty, PartialCiphertexts = Map.empty,
     CTRecdFlag = Map.empty, AbortsPartialCiphertexts = Map.empty, PublicKeys = Map.empty,
     PublicKeysReady = Map.empty, EvalKeyMultsReady = Map.empty, EvalKeyMixMultsReady = Map.empty,
     EvalKeyMults = Map.empty, SecretShares = Map.empty, EvalKeyMixMults = Map.empty,
     EvalKeySums = Map.empty, EvalKeySumsReady = Map.empty \<rparr>"

section \<open>The service\<close>

datatype thr_request =
    CryptoContextFromServer
  | SecretSharesFromClient bytes u32
  | SecretSharesToClient u32 u32 u32 u32 \<comment> \<open>requesting, recovered client, threshold, number of parties\<close>
  | PublicKeyFromClient bytes u32
  | PublicKeyToClient u32
  | evalMultKeyFromClient bytes u32
  | evalMultKeyToClient u32
  | evalSumKeyFromClient bytes u32 u32
  | evalSumKeyToClient u32 u32
  | evalMixMultKeyFromClient bytes u32
  | evalMixMultKeyToClient u32
  | CipherTextFromClient bytes u32
  | CipherTextToClient u32
  | PartialCipherTextFromClient bytes u32
  | PartialCipherTextToClient u32
  | AbortsPartialCipherTextFromClient bytes u32 u32
  | AbortsPartialCipherTextToClients u32 u32
  | PartialCipherTextsReceivedWait u32

datatype thr_reply =
    CryptoContextReturn bytes
  | Ack string
  | KeyReturn bool bytes
  | TextReturn bool bytes
  | SharesReturn bool bytes
  | FlagReturn bool

fun thr_method :: "thr_request \<Rightarrow> nat" where
  \<comment> \<open>the tags of the requests, RequestTag of thresh_net.proto\<close>
  "thr_method CryptoContextFromServer = 1"
| "thr_method (SecretSharesFromClient _ _) = 2"
| "thr_method (SecretSharesToClient _ _ _ _) = 3"
| "thr_method (PublicKeyFromClient _ _) = 4"
| "thr_method (PublicKeyToClient _) = 5"
| "thr_method (evalMultKeyFromClient _ _) = 6"
| "thr_method (evalMultKeyToClient _) = 7"
| "thr_method (evalSumKeyFromClient _ _ _) = 8"
| "thr_method (evalSumKeyToClient _ _) = 9"
| "thr_method (evalMixMultKeyFromClient _ _) = 10"
| "thr_method (evalMixMultKeyToClient _) = 11"
| "thr_method (CipherTextFromClient _ _) = 12"
| "thr_method (CipherTextToClient _) = 13"
| "thr_method (PartialCipherTextFromClient _ _) = 14"
| "thr_method (PartialCipherTextToClient _) = 15"
| "thr_method (AbortsPartialCipherTextFromClient _ _ _) = 16"
| "thr_method (AbortsPartialCipherTextToClients _ _) = 17"
| "thr_method (PartialCipherTextsReceivedWait _) = 18"

type_synonym ('cc, 'ct, 'poly) thr_servicer = "(('cc, 'ct, 'poly) thr_state, nat, thr_request, thr_reply) servicer"

section \<open>The servicers\<close>

definition CryptoContextRequestServicer :: "('cc, 'ct, 'poly) thr_lib \<Rightarrow> ('cc, 'ct, 'poly) thr_servicer" where
  "CryptoContextRequestServicer L = \<lparr> sv_method = 1, sv_process = (\<lambda>request s.
     case request of
       CryptoContextFromServer \<Rightarrow>
         let os = ser_cc L (cc s) in
         if os = [] then (Inl (Serialize_error ''CryptoContext serialization error''), s)
         else (Inr (CryptoContextReturn os), s)
     | _ \<Rightarrow> wrong_method s) \<rparr>"

definition SecretSharesRequestServicer :: "('cc, 'ct, 'poly) thr_lib \<Rightarrow> ('cc, 'ct, 'poly) thr_servicer" where
  "SecretSharesRequestServicer L = \<lparr> sv_method = 2, sv_process = (\<lambda>request s.
     case request of
       SecretSharesFromClient secretshares client_id \<Rightarrow>
         if secretshares = [] then (Inl (Openfhe_error ''Received empty secret shares vector buffer''), s)
         else (case deser_shares L secretshares of
             Inl e \<Rightarrow> (Inl e, s)
           | Inr ss \<Rightarrow>
               if ss = Map.empty then (Inl (Deserialize_error ''Secret shares vector de-serialization error''), s)
               else (Inr (Ack ''Received SecretShares. Thank you, Your Server''),
                     s\<lparr>SecretShares := (SecretShares s)(client_id \<mapsto> ss)\<rparr>))
     | _ \<Rightarrow> wrong_method s) \<rparr>"

partial_function (option) share_loop ::
  "'poly \<Rightarrow> u32 \<Rightarrow> u32 \<Rightarrow> u32 \<Rightarrow> u32 \<Rightarrow> u32 \<Rightarrow> (u32 \<rightharpoonup> 'poly) \<Rightarrow> (u32 \<rightharpoonup> 'poly) \<Rightarrow> (u32 \<rightharpoonup> 'poly) option" where
  \<comment> \<open>for (usint j = 1; j <= num_of_parties; j++); ss is a copy, ss[j] default-inserts in it\<close>
  "share_loop d recover threshold n j mapsize ss sst =
     (if j \<le> n
      then (if j \<noteq> recover \<and> mapsize \<le> threshold
            then share_loop d recover threshold n (j + 1) (mapsize + 1) (idx_map d ss j) (sst(j \<mapsto> idx_val d ss j))
            else share_loop d recover threshold n (j + 1) mapsize ss sst)
      else Some sst)"

definition SecretSharesToClientRequestServicer :: "('cc, 'ct, 'poly) thr_lib \<Rightarrow> ('cc, 'ct, 'poly) thr_servicer" where
  "SecretSharesToClientRequestServicer L = \<lparr> sv_method = 3, sv_process = (\<lambda>request s.
     case request of
       SecretSharesToClient requesting_client_id recover_client_id threshold num_of_parties \<Rightarrow>
         (case idx Map.empty (SecretShares s) recover_client_id of
            (ss, ssm) \<Rightarrow>
              let s = s\<lparr>SecretShares := ssm\<rparr> in
              (case share_loop (poly0 L) recover_client_id threshold num_of_parties 1 1 ss Map.empty of
                 None \<Rightarrow> (Inl (Undefined ''the loop over the parties does not end''), s)
               | Some sst \<Rightarrow>
                   if sst = Map.empty then (Inr (SharesReturn False []), s)
                   else if ser_shares L sst = [] then (Inl (Serialize_error ''SecretShares serialization error''), s)
                   else (Inr (SharesReturn True (ser_shares L sst)), s)))
     | _ \<Rightarrow> wrong_method s) \<rparr>"

definition PublicKeyRequestServicer :: "('cc, 'ct, 'poly) thr_servicer" where
  "PublicKeyRequestServicer = \<lparr> sv_method = 4, sv_process = (\<lambda>request s.
     case request of
       PublicKeyFromClient pkey client_id \<Rightarrow>
         if pkey = [] then (Inl (Openfhe_error ''Received empty public key buffer''), s)
         else (Inr (Ack ''Received PKEY. Thank you, Your Server''),
               s\<lparr>PublicKeys := (PublicKeys s)(client_id \<mapsto> pkey),
                 PublicKeysReady := (PublicKeysReady s)(client_id \<mapsto> True)\<rparr>)
     | _ \<Rightarrow> wrong_method s) \<rparr>"

definition PublicKeyToClientRequestServicer :: "('cc, 'ct, 'poly) thr_servicer" where
  "PublicKeyToClientRequestServicer = \<lparr> sv_method = 5, sv_process = (\<lambda>request s.
     case request of
       PublicKeyToClient client_id \<Rightarrow>
         (case idx False (PublicKeysReady s) client_id of
            (pkeyready, rm) \<Rightarrow>
              let s = s\<lparr>PublicKeysReady := rm\<rparr> in
              if \<not> pkeyready then (Inr (KeyReturn False []), s)
              else (case idx [] (PublicKeys s) client_id of
                      (pkey, pm) \<Rightarrow> (Inr (KeyReturn True pkey), s\<lparr>PublicKeys := pm\<rparr>)))
     | _ \<Rightarrow> wrong_method s) \<rparr>"

definition EvalMultKeyRequestServicer :: "('cc, 'ct, 'poly) thr_servicer" where
  "EvalMultKeyRequestServicer = \<lparr> sv_method = 6, sv_process = (\<lambda>request s.
     case request of
       evalMultKeyFromClient ekey client_id \<Rightarrow>
         if ekey = [] then (Inl (Openfhe_error ''Received empty public key buffer''), s)
         else (Inr (Ack ''Received EKEY. Thank you, Your Server''),
               s\<lparr>EvalKeyMults := (EvalKeyMults s)(client_id \<mapsto> ekey),
                 EvalKeyMultsReady := (EvalKeyMultsReady s)(client_id \<mapsto> True)\<rparr>)
     | _ \<Rightarrow> wrong_method s) \<rparr>"

definition EvalMultKeyToClientRequestServicer :: "('cc, 'ct, 'poly) thr_servicer" where
  "EvalMultKeyToClientRequestServicer = \<lparr> sv_method = 7, sv_process = (\<lambda>request s.
     case request of
       evalMultKeyToClient client_id \<Rightarrow>
         (case idx False (EvalKeyMultsReady s) client_id of
            (ekeyready, rm) \<Rightarrow>
              let s = s\<lparr>EvalKeyMultsReady := rm\<rparr> in
              if \<not> ekeyready then (Inr (KeyReturn False []), s)
              else (case idx [] (EvalKeyMults s) client_id of
                      (ekey, em) \<Rightarrow> (Inr (KeyReturn True ekey), s\<lparr>EvalKeyMults := em\<rparr>)))
     | _ \<Rightarrow> wrong_method s) \<rparr>"

definition EvalSumKeyRequestServicer :: "('cc, 'ct, 'poly) thr_servicer" where
  "EvalSumKeyRequestServicer = \<lparr> sv_method = 8, sv_process = (\<lambda>request s.
     case request of
       evalSumKeyFromClient ekey client_id index_num \<Rightarrow>
         if ekey = [] then (Inl (Openfhe_error ''Received empty public key buffer''), s)
         else (Inr (Ack ''Received EKEY. Thank you, Your Server''),
               s\<lparr>EvalKeySums := (EvalKeySums s)((client_id, index_num) \<mapsto> ekey),
                 EvalKeySumsReady := (EvalKeySumsReady s)((client_id, index_num) \<mapsto> True)\<rparr>)
     | _ \<Rightarrow> wrong_method s) \<rparr>"

definition EvalSumKeyToClientRequestServicer :: "('cc, 'ct, 'poly) thr_servicer" where
  "EvalSumKeyToClientRequestServicer = \<lparr> sv_method = 9, sv_process = (\<lambda>request s.
     case request of
       evalSumKeyToClient client_id index_num \<Rightarrow>
         (case idx False (EvalKeySumsReady s) (client_id, index_num) of
            (ekeyready, rm) \<Rightarrow>
              let s = s\<lparr>EvalKeySumsReady := rm\<rparr> in
              if \<not> ekeyready then (Inr (KeyReturn False []), s)
              else (case idx [] (EvalKeySums s) (client_id, index_num) of
                      (ekey, em) \<Rightarrow> (Inr (KeyReturn True ekey), s\<lparr>EvalKeySums := em\<rparr>)))
     | _ \<Rightarrow> wrong_method s) \<rparr>"

definition EvalMixMultKeyRequestServicer :: "('cc, 'ct, 'poly) thr_servicer" where
  "EvalMixMultKeyRequestServicer = \<lparr> sv_method = 10, sv_process = (\<lambda>request s.
     case request of
       evalMixMultKeyFromClient ekey client_id \<Rightarrow>
         if ekey = [] then (Inl (Openfhe_error ''Received empty public key buffer''), s)
         else (Inr (Ack ''Received mixed eval key. Thank you, Your Server''),
               s\<lparr>EvalKeyMixMults := (EvalKeyMixMults s)(client_id \<mapsto> ekey),
                 EvalKeyMixMultsReady := (EvalKeyMixMultsReady s)(client_id \<mapsto> True)\<rparr>)
     | _ \<Rightarrow> wrong_method s) \<rparr>"

definition EvalMixMultKeyToClientRequestServicer :: "('cc, 'ct, 'poly) thr_servicer" where
  "EvalMixMultKeyToClientRequestServicer = \<lparr> sv_method = 11, sv_process = (\<lambda>request s.
     case request of
       evalMixMultKeyToClient client_id \<Rightarrow>
         (case idx False (EvalKeyMixMultsReady s) client_id of
            (ekeyready, rm) \<Rightarrow>
              let s = s\<lparr>EvalKeyMixMultsReady := rm\<rparr> in
              if \<not> ekeyready then (Inr (KeyReturn False []), s)
              else (case idx [] (EvalKeyMixMults s) client_id of
                      (ekey, em) \<Rightarrow> (Inr (KeyReturn True ekey), s\<lparr>EvalKeyMixMults := em\<rparr>)))
     | _ \<Rightarrow> wrong_method s) \<rparr>"

definition CipherTextRequestServicer :: "('cc, 'ct, 'poly) thr_lib \<Rightarrow> ('cc, 'ct, 'poly) thr_servicer" where
  "CipherTextRequestServicer L = \<lparr> sv_method = 12, sv_process = (\<lambda>request s.
     case request of
       CipherTextFromClient ctext client_id \<Rightarrow>
         if ctext = [] then (Inl (Openfhe_error ''Received empty cipher text buffer''), s)
         else (case deser_ct L ctext of
             Inl e \<Rightarrow> (Inl e, s)
           | Inr ct \<Rightarrow>
               if ct = None then (Inl (Deserialize_error ''CipherText de-serialization error''), s)
               else (Inr (Ack ''Received CTEXT. Thank you, Your Server''),
                     s\<lparr>Ciphertexts := (Ciphertexts s)(client_id \<mapsto> ct)\<rparr>))
     | _ \<Rightarrow> wrong_method s) \<rparr>"

definition CipherTextToClientRequestServicer :: "('cc, 'ct, 'poly) thr_lib \<Rightarrow> ('cc, 'ct, 'poly) thr_servicer" where
  "CipherTextToClientRequestServicer L = \<lparr> sv_method = 13, sv_process = (\<lambda>request s.
     case request of
       CipherTextToClient client_id \<Rightarrow>
         (case idx None (Ciphertexts s) client_id of
            (cipherText, cm) \<Rightarrow>
              let s = s\<lparr>Ciphertexts := cm\<rparr> in
              if cipherText = None then (Inr (TextReturn False []), s)
              else if ser_ct L cipherText = [] then (Inl (Serialize_error ''CipherText serialization error''), s)
              else (Inr (TextReturn True (ser_ct L cipherText)), s))
     | _ \<Rightarrow> wrong_method s) \<rparr>"

definition PartialCipherTextRequestServicer :: "('cc, 'ct, 'poly) thr_lib \<Rightarrow> ('cc, 'ct, 'poly) thr_servicer" where
  "PartialCipherTextRequestServicer L = \<lparr> sv_method = 14, sv_process = (\<lambda>request s.
     case request of
       PartialCipherTextFromClient ctext client_id \<Rightarrow>
         if ctext = [] then (Inl (Openfhe_error ''Received empty cipher text buffer''), s)
         else (case deser_cts L ctext of
             Inl e \<Rightarrow> (Inl e, s)
           | Inr ct \<Rightarrow>
               (Inr (Ack ''Received partial CTEXT. Thank you, Your Server''),
                s\<lparr>PartialCiphertexts := (PartialCiphertexts s)(client_id \<mapsto> ct),
                  CTRecdFlag := (CTRecdFlag s)(client_id \<mapsto> True)\<rparr>))
     | _ \<Rightarrow> wrong_method s) \<rparr>"

definition PartialCipherTextToClientRequestServicer :: "('cc, 'ct, 'poly) thr_lib \<Rightarrow> ('cc, 'ct, 'poly) thr_servicer" where
  "PartialCipherTextToClientRequestServicer L = \<lparr> sv_method = 15, sv_process = (\<lambda>request s.
     case request of
       PartialCipherTextToClient client_id \<Rightarrow>
         (case idx [] (PartialCiphertexts s) client_id of
            (cipherText, cm) \<Rightarrow>
              let s = s\<lparr>PartialCiphertexts := cm\<rparr> in
              if cipherText = [] then (Inr (TextReturn False []), s)
              else if ser_cts L cipherText = [] then (Inl (Serialize_error ''CipherText serialization error''), s)
              else (Inr (TextReturn True (ser_cts L cipherText)), s))
     | _ \<Rightarrow> wrong_method s) \<rparr>"

definition AbortsPartialCipherTextRequestServicer :: "('cc, 'ct, 'poly) thr_lib \<Rightarrow> ('cc, 'ct, 'poly) thr_servicer" where
  "AbortsPartialCipherTextRequestServicer L = \<lparr> sv_method = 16, sv_process = (\<lambda>request s.
     case request of
       AbortsPartialCipherTextFromClient ctext received_client_id recovered_client_id \<Rightarrow>
         if ctext = [] then (Inl (Openfhe_error ''Received empty cipher text buffer''), s)
         else (case deser_cts L ctext of
             Inl e \<Rightarrow> (Inl e, s)
           | Inr ct \<Rightarrow>
               (Inr (Ack ''Received aborts partial CTEXT. Thank you, Your Server''),
                s\<lparr>AbortsPartialCiphertexts :=
                    (AbortsPartialCiphertexts s)((received_client_id, recovered_client_id) \<mapsto> ct)\<rparr>))
     | _ \<Rightarrow> wrong_method s) \<rparr>"

definition AbortsPartialCipherTextToClientsRequestServicer :: "('cc, 'ct, 'poly) thr_lib \<Rightarrow> ('cc, 'ct, 'poly) thr_servicer" where
  "AbortsPartialCipherTextToClientsRequestServicer L = \<lparr> sv_method = 17, sv_process = (\<lambda>request s.
     case request of
       AbortsPartialCipherTextToClients received_client_id recovered_client_id \<Rightarrow>
         (case idx [] (AbortsPartialCiphertexts s) (received_client_id, recovered_client_id) of
            (cipherText, cm) \<Rightarrow>
              let s = s\<lparr>AbortsPartialCiphertexts := cm\<rparr> in
              if cipherText = [] then (Inr (TextReturn False []), s)
              else if ser_cts L cipherText = [] then (Inl (Serialize_error ''CipherText serialization error''), s)
              else (Inr (TextReturn True (ser_cts L cipherText)), s))
     | _ \<Rightarrow> wrong_method s) \<rparr>"

definition PartialCipherTextWaitClientRequestServicer :: "('cc, 'ct, 'poly) thr_servicer" where
  "PartialCipherTextWaitClientRequestServicer = \<lparr> sv_method = 18, sv_process = (\<lambda>request s.
     case request of
       PartialCipherTextsReceivedWait client_id \<Rightarrow>
         (case idx False (CTRecdFlag s) client_id of
            (CTRecdval, fm) \<Rightarrow> (Inr (FlagReturn CTRecdval), s\<lparr>CTRecdFlag := fm\<rparr>))
     | _ \<Rightarrow> wrong_method s) \<rparr>"

definition thr_servicers :: "('cc, 'ct, 'poly) thr_lib \<Rightarrow> ('cc, 'ct, 'poly) thr_servicer list" where
  \<comment> \<open>the objects HandleRpcs creates, in its order\<close>
  "thr_servicers L =
     [CryptoContextRequestServicer L,
      SecretSharesRequestServicer L, SecretSharesToClientRequestServicer L,
      PublicKeyRequestServicer, PublicKeyToClientRequestServicer,
      EvalMultKeyRequestServicer, EvalMixMultKeyRequestServicer, EvalSumKeyRequestServicer,
      EvalMultKeyToClientRequestServicer, EvalMixMultKeyToClientRequestServicer, EvalSumKeyToClientRequestServicer,
      CipherTextRequestServicer L, PartialCipherTextRequestServicer L, AbortsPartialCipherTextRequestServicer L,
      CipherTextToClientRequestServicer L, PartialCipherTextToClientRequestServicer L,
      PartialCipherTextWaitClientRequestServicer, AbortsPartialCipherTextToClientsRequestServicer L]"

record thr_cc_params =
  tp_PlaintextModulus :: u32
  tp_SecurityLevel :: string
  tp_StandardDeviation :: string
  tp_SecretKeyDist :: string
  tp_MultiplicativeDepth :: u32
  tp_BatchSize :: u32
  tp_DigitSize :: u32
  tp_ScalingModSize :: u32
  tp_MultiplicationTechnique :: string
  tp_enabled :: "string list"

definition thr_params :: thr_cc_params where
  "thr_params = \<lparr> tp_PlaintextModulus = 65537, tp_SecurityLevel = ''HEStd_128_classic'', tp_StandardDeviation = ''3.2'',
     tp_SecretKeyDist = ''UNIFORM_TERNARY'', tp_MultiplicativeDepth = 4, tp_BatchSize = 16, tp_DigitSize = 30, tp_ScalingModSize = 60,
     tp_MultiplicationTechnique = ''HPS'', tp_enabled = [''PKE'', ''KEYSWITCH'', ''LEVELEDSHE'', ''ADVANCEDSHE'', ''MULTIPARTY''] \<rparr>"

definition thr_initializeCC :: "(thr_cc_params \<Rightarrow> 'cc) \<Rightarrow> 'cc option" where
  \<comment> \<open>gen: GenCryptoContext and Enable\<close>
  "thr_initializeCC gen = Some (gen thr_params)"

definition thr_Run ::
  "('cc, 'ct, 'poly) thr_lib \<Rightarrow> (thr_cc_params \<Rightarrow> 'cc) \<Rightarrow> thr_request event list
   \<Rightarrow> unit result \<times> (('cc, 'ct, 'poly) thr_state, nat, thr_request, thr_reply) server" where
  \<comment> \<open>Run: initializeCC, then the loop of HandleRpcs over these events; the port is thr_port of Credentials\<close>
  "thr_Run L gen evs =
     HandleRpcs thr_method (thr_servicers L) evs (start (thr_servicers L) (thr_state0 (thr_initializeCC gen)))"

end
