(* ===== verification/Thresh_Mailbox.thy ===== *)
theory Thresh_Mailbox
  imports Thresh_Server
begin

text \<open>
  The threshold server as a collection of mailboxes. \<open>thr_handler\<close> is the server's handler for all its
  methods; every pair of methods that stores and returns a value interprets the mailbox interface, so that what a
  poll answers after any sequence of requests of any clients is what the interface says.
\<close>

definition thr_handler :: "('cc, 'ct, 'poly) thr_lib \<Rightarrow> (('cc, 'ct, 'poly) thr_state, thr_request, thr_reply) handler" where
  "thr_handler L = dispatch thr_method (thr_servicers L)"

lemmas thr_servicer_defs =
  CryptoContextRequestServicer_def SecretSharesRequestServicer_def SecretSharesToClientRequestServicer_def
  PublicKeyRequestServicer_def PublicKeyToClientRequestServicer_def EvalMultKeyRequestServicer_def
  EvalMultKeyToClientRequestServicer_def EvalSumKeyRequestServicer_def EvalSumKeyToClientRequestServicer_def
  EvalMixMultKeyRequestServicer_def EvalMixMultKeyToClientRequestServicer_def CipherTextRequestServicer_def
  CipherTextToClientRequestServicer_def PartialCipherTextRequestServicer_def PartialCipherTextToClientRequestServicer_def
  AbortsPartialCipherTextRequestServicer_def AbortsPartialCipherTextToClientsRequestServicer_def
  PartialCipherTextWaitClientRequestServicer_def

lemma thr_methods_distinct: "distinct (methods (thr_servicers L))"
  by (simp add: methods_def thr_servicers_def thr_servicer_defs)

lemma thr_method_known: "thr_method q \<in> set (methods (thr_servicers L))"
  by (cases q) (simp_all add: methods_def thr_servicers_def thr_servicer_defs)

lemma thr_handler_simps:
  "thr_handler L CryptoContextFromServer = sv_process (CryptoContextRequestServicer L) CryptoContextFromServer"
  "thr_handler L (SecretSharesFromClient b i) = sv_process (SecretSharesRequestServicer L) (SecretSharesFromClient b i)"
  "thr_handler L (SecretSharesToClient a i t n) = sv_process (SecretSharesToClientRequestServicer L) (SecretSharesToClient a i t n)"
  "thr_handler L (PublicKeyFromClient b i) = sv_process PublicKeyRequestServicer (PublicKeyFromClient b i)"
  "thr_handler L (PublicKeyToClient i) = sv_process PublicKeyToClientRequestServicer (PublicKeyToClient i)"
  "thr_handler L (evalMultKeyFromClient b i) = sv_process EvalMultKeyRequestServicer (evalMultKeyFromClient b i)"
  "thr_handler L (evalMultKeyToClient i) = sv_process EvalMultKeyToClientRequestServicer (evalMultKeyToClient i)"
  "thr_handler L (evalSumKeyFromClient b i j) = sv_process EvalSumKeyRequestServicer (evalSumKeyFromClient b i j)"
  "thr_handler L (evalSumKeyToClient i j) = sv_process EvalSumKeyToClientRequestServicer (evalSumKeyToClient i j)"
  "thr_handler L (evalMixMultKeyFromClient b i) = sv_process EvalMixMultKeyRequestServicer (evalMixMultKeyFromClient b i)"
  "thr_handler L (evalMixMultKeyToClient i) = sv_process EvalMixMultKeyToClientRequestServicer (evalMixMultKeyToClient i)"
  "thr_handler L (CipherTextFromClient b i) = sv_process (CipherTextRequestServicer L) (CipherTextFromClient b i)"
  "thr_handler L (CipherTextToClient i) = sv_process (CipherTextToClientRequestServicer L) (CipherTextToClient i)"
  "thr_handler L (PartialCipherTextFromClient b i) = sv_process (PartialCipherTextRequestServicer L) (PartialCipherTextFromClient b i)"
  "thr_handler L (PartialCipherTextToClient i) = sv_process (PartialCipherTextToClientRequestServicer L) (PartialCipherTextToClient i)"
  "thr_handler L (AbortsPartialCipherTextFromClient b i j) = sv_process (AbortsPartialCipherTextRequestServicer L) (AbortsPartialCipherTextFromClient b i j)"
  "thr_handler L (AbortsPartialCipherTextToClients i j) = sv_process (AbortsPartialCipherTextToClientsRequestServicer L) (AbortsPartialCipherTextToClients i j)"
  "thr_handler L (PartialCipherTextsReceivedWait i) = sv_process PartialCipherTextWaitClientRequestServicer (PartialCipherTextsReceivedWait i)"
  by (simp_all add: thr_handler_def dispatch_def thr_servicers_def thr_servicer_defs)

lemmas thr_step = thr_handler_simps thr_servicer_defs idx_eq Let_def wrong_method_def

section \<open>The mailboxes\<close>

definition key_answer :: "bytes option \<Rightarrow> thr_reply" where
  "key_answer v = (case v of None \<Rightarrow> KeyReturn False [] | Some b \<Rightarrow> KeyReturn True b)"

definition pk_posts :: "thr_request \<Rightarrow> (u32 \<times> bytes option) option" where
  "pk_posts q = (case q of PublicKeyFromClient b i \<Rightarrow> Some (i, Some b) | _ \<Rightarrow> None)"

definition pk_look :: "u32 \<Rightarrow> ('cc, 'ct, 'poly) thr_state \<Rightarrow> bytes option" where
  "pk_look i s = (if idx_val False (PublicKeysReady s) i then Some (idx_val [] (PublicKeys s) i) else None)"

interpretation pk: polled_mailbox "thr_handler L" pk_posts pk_look PublicKeyToClient key_answer for L
proof unfold_locales
  show "pk_look k s' = (case pk_posts q of Some (j, v) \<Rightarrow> if j = k then v else pk_look k s | None \<Rightarrow> pk_look k s)"
    if "thr_handler L q s = (Inr p, s')" for q s p s' k
    using that by (cases q) (auto simp: thr_step pk_look_def pk_posts_def idx_val_upd split: if_splits sum.splits option.splits)
  show "p = key_answer (pk_look k s)" if "thr_handler L (PublicKeyToClient k) s = (Inr p, s')" for k s p s'
    using that by (auto simp: thr_step pk_look_def key_answer_def split: if_splits)
qed

definition em_posts :: "thr_request \<Rightarrow> (u32 \<times> bytes option) option" where
  "em_posts q = (case q of evalMultKeyFromClient b i \<Rightarrow> Some (i, Some b) | _ \<Rightarrow> None)"

definition em_look :: "u32 \<Rightarrow> ('cc, 'ct, 'poly) thr_state \<Rightarrow> bytes option" where
  "em_look k s = (if idx_val False (EvalKeyMultsReady s) k then Some (idx_val [] (EvalKeyMults s) k) else None)"

interpretation em: polled_mailbox "thr_handler L" em_posts em_look "evalMultKeyToClient" key_answer for L
proof unfold_locales
  show "em_look k s' = (case em_posts q of Some (j, v) \<Rightarrow> if j = k then v else em_look k s | None \<Rightarrow> em_look k s)"
    if "thr_handler L q s = (Inr p, s')" for q s p s' k
    using that by (cases q) (auto simp: thr_step em_look_def em_posts_def idx_val_upd split: if_splits sum.splits option.splits)
  show "p = key_answer (em_look k s)" if "thr_handler L (evalMultKeyToClient k) s = (Inr p, s')" for k s p s'
    using that by (auto simp: thr_step em_look_def key_answer_def split: if_splits)
qed

definition ex_posts :: "thr_request \<Rightarrow> (u32 \<times> bytes option) option" where
  "ex_posts q = (case q of evalMixMultKeyFromClient b i \<Rightarrow> Some (i, Some b) | _ \<Rightarrow> None)"

definition ex_look :: "u32 \<Rightarrow> ('cc, 'ct, 'poly) thr_state \<Rightarrow> bytes option" where
  "ex_look k s = (if idx_val False (EvalKeyMixMultsReady s) k then Some (idx_val [] (EvalKeyMixMults s) k) else None)"

interpretation ex: polled_mailbox "thr_handler L" ex_posts ex_look "evalMixMultKeyToClient" key_answer for L
proof unfold_locales
  show "ex_look k s' = (case ex_posts q of Some (j, v) \<Rightarrow> if j = k then v else ex_look k s | None \<Rightarrow> ex_look k s)"
    if "thr_handler L q s = (Inr p, s')" for q s p s' k
    using that by (cases q) (auto simp: thr_step ex_look_def ex_posts_def idx_val_upd split: if_splits sum.splits option.splits)
  show "p = key_answer (ex_look k s)" if "thr_handler L (evalMixMultKeyToClient k) s = (Inr p, s')" for k s p s'
    using that by (auto simp: thr_step ex_look_def key_answer_def split: if_splits)
qed

definition es_posts :: "thr_request \<Rightarrow> ((u32 \<times> u32) \<times> bytes option) option" where
  "es_posts q = (case q of evalSumKeyFromClient b i j \<Rightarrow> Some ((i, j), Some b) | _ \<Rightarrow> None)"

definition es_look :: "u32 \<times> u32 \<Rightarrow> ('cc, 'ct, 'poly) thr_state \<Rightarrow> bytes option" where
  "es_look k s = (if idx_val False (EvalKeySumsReady s) k then Some (idx_val [] (EvalKeySums s) k) else None)"

interpretation es: polled_mailbox "thr_handler L" es_posts es_look "(\<lambda>(i, j). evalSumKeyToClient i j)" key_answer for L
proof unfold_locales
  show "es_look k s' = (case es_posts q of Some (j, v) \<Rightarrow> if j = k then v else es_look k s | None \<Rightarrow> es_look k s)"
    if "thr_handler L q s = (Inr p, s')" for q s p s' k
    using that by (cases q) (auto simp: thr_step es_look_def es_posts_def idx_val_upd split: if_splits sum.splits option.splits)
  show "p = key_answer (es_look k s)" if "thr_handler L ((\<lambda>(i, j). evalSumKeyToClient i j) k) s = (Inr p, s')" for k s p s'
    using that by (cases k) (auto simp: thr_step es_look_def key_answer_def split: if_splits)
qed

definition ct_answer :: "('cc, 'ct, 'poly) thr_lib \<Rightarrow> 'ct option \<Rightarrow> thr_reply" where
  "ct_answer L v = (if v = None then TextReturn False [] else TextReturn True (ser_ct L v))"

definition ct_posts :: "('cc, 'ct, 'poly) thr_lib \<Rightarrow> thr_request \<Rightarrow> (u32 \<times> 'ct option) option" where
  "ct_posts L q = (case q of CipherTextFromClient b i \<Rightarrow>
     (case deser_ct L b of Inl e \<Rightarrow> None | Inr c \<Rightarrow> Some (i, c)) | _ \<Rightarrow> None)"

definition ct_look :: "u32 \<Rightarrow> ('cc, 'ct, 'poly) thr_state \<Rightarrow> 'ct option" where
  "ct_look k s = idx_val None (Ciphertexts s) k"

interpretation ct: polled_mailbox "thr_handler L" "ct_posts L" ct_look CipherTextToClient "ct_answer L" for L
proof unfold_locales
  show "ct_look k s' = (case ct_posts L q of Some (j, v) \<Rightarrow> if j = k then v else ct_look k s | None \<Rightarrow> ct_look k s)"
    if "thr_handler L q s = (Inr p, s')" for q s p s' k
    using that by (cases q) (auto simp: thr_step ct_look_def ct_posts_def idx_val_upd split: if_splits sum.splits option.splits)
  show "p = ct_answer L (ct_look k s)" if "thr_handler L (CipherTextToClient k) s = (Inr p, s')" for k s p s'
    using that by (auto simp: thr_step ct_look_def ct_answer_def split: if_splits)
qed

definition cts_answer :: "('cc, 'ct, 'poly) thr_lib \<Rightarrow> 'ct option list \<Rightarrow> thr_reply" where
  "cts_answer L v = (if v = [] then TextReturn False [] else TextReturn True (ser_cts L v))"

definition pct_posts :: "('cc, 'ct, 'poly) thr_lib \<Rightarrow> thr_request \<Rightarrow> (u32 \<times> 'ct option list) option" where
  "pct_posts L q = (case q of PartialCipherTextFromClient b i \<Rightarrow>
     (case deser_cts L b of Inl e \<Rightarrow> None | Inr c \<Rightarrow> Some (i, c)) | _ \<Rightarrow> None)"

definition pct_look :: "u32 \<Rightarrow> ('cc, 'ct, 'poly) thr_state \<Rightarrow> 'ct option list" where
  "pct_look k s = idx_val [] (PartialCiphertexts s) k"

interpretation pct: polled_mailbox "thr_handler L" "pct_posts L" pct_look PartialCipherTextToClient "cts_answer L" for L
proof unfold_locales
  show "pct_look k s' = (case pct_posts L q of Some (j, v) \<Rightarrow> if j = k then v else pct_look k s | None \<Rightarrow> pct_look k s)"
    if "thr_handler L q s = (Inr p, s')" for q s p s' k
    using that by (cases q) (auto simp: thr_step pct_look_def pct_posts_def idx_val_upd split: if_splits sum.splits option.splits)
  show "p = cts_answer L (pct_look k s)" if "thr_handler L (PartialCipherTextToClient k) s = (Inr p, s')" for k s p s'
    using that by (auto simp: thr_step pct_look_def cts_answer_def split: if_splits)
qed

definition apct_posts :: "('cc, 'ct, 'poly) thr_lib \<Rightarrow> thr_request \<Rightarrow> ((u32 \<times> u32) \<times> 'ct option list) option" where
  "apct_posts L q = (case q of AbortsPartialCipherTextFromClient b i j \<Rightarrow>
     (case deser_cts L b of Inl e \<Rightarrow> None | Inr c \<Rightarrow> Some ((i, j), c)) | _ \<Rightarrow> None)"

definition apct_look :: "u32 \<times> u32 \<Rightarrow> ('cc, 'ct, 'poly) thr_state \<Rightarrow> 'ct option list" where
  "apct_look k s = idx_val [] (AbortsPartialCiphertexts s) k"

interpretation apct: polled_mailbox "thr_handler L" "apct_posts L" apct_look
  "\<lambda>(i, j). AbortsPartialCipherTextToClients i j" "cts_answer L" for L
proof unfold_locales
  show "apct_look k s' = (case apct_posts L q of Some (j, v) \<Rightarrow> if j = k then v else apct_look k s | None \<Rightarrow> apct_look k s)"
    if "thr_handler L q s = (Inr p, s')" for q s p s' k
    using that by (cases q) (auto simp: thr_step apct_look_def apct_posts_def idx_val_upd split: if_splits sum.splits option.splits)
  show "p = cts_answer L (apct_look k s)"
    if "thr_handler L ((\<lambda>(i, j). AbortsPartialCipherTextToClients i j) k) s = (Inr p, s')" for k s p s'
    using that by (cases k) (auto simp: thr_step apct_look_def cts_answer_def split: if_splits)
qed

definition flag_posts :: "thr_request \<Rightarrow> (u32 \<times> bool) option" where
  "flag_posts q = (case q of PartialCipherTextFromClient b i \<Rightarrow> Some (i, True) | _ \<Rightarrow> None)"

definition flag_look :: "u32 \<Rightarrow> ('cc, 'ct, 'poly) thr_state \<Rightarrow> bool" where
  "flag_look k s = idx_val False (CTRecdFlag s) k"

interpretation flag: polled_mailbox "thr_handler L" flag_posts flag_look PartialCipherTextsReceivedWait FlagReturn for L
proof unfold_locales
  show "flag_look k s' = (case flag_posts q of Some (j, v) \<Rightarrow> if j = k then v else flag_look k s | None \<Rightarrow> flag_look k s)"
    if "thr_handler L q s = (Inr p, s')" for q s p s' k
    using that by (cases q) (auto simp: thr_step flag_look_def flag_posts_def idx_val_upd split: if_splits sum.splits option.splits)
  show "p = FlagReturn (flag_look k s)" if "thr_handler L (PartialCipherTextsReceivedWait k) s = (Inr p, s')" for k s p s'
    using that by (auto simp: thr_step flag_look_def)
qed

definition sh_posts :: "('cc, 'ct, 'poly) thr_lib \<Rightarrow> thr_request \<Rightarrow> (u32 \<times> (u32 \<rightharpoonup> 'poly)) option" where
  "sh_posts L q = (case q of SecretSharesFromClient b i \<Rightarrow>
     (case deser_shares L b of Inl e \<Rightarrow> None | Inr c \<Rightarrow> Some (i, c)) | _ \<Rightarrow> None)"

definition sh_look :: "u32 \<Rightarrow> ('cc, 'ct, 'poly) thr_state \<Rightarrow> (u32 \<rightharpoonup> 'poly)" where
  "sh_look k s = idx_val Map.empty (SecretShares s) k"

interpretation sh: mailbox "thr_handler L" "sh_posts L" sh_look for L
proof unfold_locales
  show "sh_look k s' = (case sh_posts L q of Some (j, v) \<Rightarrow> if j = k then v else sh_look k s | None \<Rightarrow> sh_look k s)"
    if "thr_handler L q s = (Inr p, s')" for q s p s' k
    using that by (cases q) (auto simp: thr_step sh_look_def sh_posts_def idx_val_upd split: if_splits sum.splits option.splits)
qed

definition cc_posts :: "thr_request \<Rightarrow> (unit \<times> 'cc option) option" where
  "cc_posts q = None"

interpretation ccm: mailbox "thr_handler L" cc_posts "\<lambda>_. cc" for L
proof unfold_locales
  show "cc s' = (case cc_posts q of Some (j, v) \<Rightarrow> if j = k then v else cc s | None \<Rightarrow> cc s)"
    if "thr_handler L q s = (Inr p, s')" for q s p s' k
    using that by (cases q) (auto simp: thr_step cc_posts_def split: if_splits sum.splits option.splits)
qed

end
