(* ===== verification/Thresh_Spec.thy ===== *)
theory Thresh_Spec
  imports Thresh_Mailbox
begin

text \<open>
  The abstract specification of the threshold server: every reply is a function of the requests that
  were served before (\<open>thr_spec\<close>), for all eighteen methods. The one method with a computation of its own,
  \<^verbatim>\<open>SecretSharesToClient\<close>, is specified by the ids whose shares it sends: the first threshold ids other
  than the recovered client's; its loop over a 32-bit counter ends when the number of parties is below
  the largest 32-bit number.
\<close>

section \<open>The shares of a recovered client\<close>

definition share_ids :: "u32 \<Rightarrow> u32 \<Rightarrow> u32 \<Rightarrow> u32 list" where
  \<comment> \<open>recovered client, threshold, number of parties\<close>
  "share_ids r t n = take (unat t) (filter (\<lambda>j. j \<noteq> r) (map of_nat [1..<Suc (unat n)]))"

definition shares_sent :: "'poly \<Rightarrow> u32 \<Rightarrow> u32 \<Rightarrow> u32 \<Rightarrow> (u32 \<rightharpoonup> 'poly) \<Rightarrow> (u32 \<rightharpoonup> 'poly)" where
  "shares_sent d r t n ss = (\<lambda>k. if k \<in> set (share_ids r t n) then Some (idx_val d ss k) else None)"

definition ids_from :: "nat \<Rightarrow> nat \<Rightarrow> u32 \<Rightarrow> u32 \<Rightarrow> u32 \<Rightarrow> u32 list" where
  "ids_from a m r t n = take (Suc (unat t) - m) (filter (\<lambda>j. j \<noteq> r) (map of_nat [a..<Suc (unat n)]))"

lemma of_nat_le_u32: "a \<le> unat (n :: u32) \<Longrightarrow> (of_nat a \<le> n) \<and> unat (of_nat a :: u32) = a"
proof -
  assume a: "a \<le> unat n"
  have "unat n < 2 ^ 32" using unsigned_less [of n, where ?'a = nat] by simp
  with a have "unat (of_nat a :: u32) = a" by (simp add: unat_of_nat)
  with a show ?thesis by (simp add: word_le_nat_alt)
qed

lemma share_loop_run:
  fixes n t r :: u32
  assumes "unat n < 2 ^ 32 - 1" "1 \<le> a" "a \<le> Suc (unat n)" "1 \<le> m" "m \<le> a"
  shows "share_loop d r t n (of_nat a) (of_nat m) ss sst
    = Some (sst ++ (\<lambda>k. if k \<in> set (ids_from a m r t n) then Some (idx_val d ss k) else None))"
  using assms
proof (induction "Suc (unat n) - a" arbitrary: a m ss sst)
  case 0
  then have "a = Suc (unat n)" by simp
  moreover have "unat (of_nat (Suc (unat n)) :: u32) = Suc (unat n)"
    using 0(2) by (simp only: unat_of_nat) simp
  then have "\<not> (of_nat (Suc (unat n)) \<le> n)" by (simp add: word_le_nat_alt)
  ultimately show ?case
    by (subst share_loop.simps) (simp add: ids_from_def map_add_def)
next
  case (Suc k)
  then have a: "a \<le> unat n" by simp
  note an = of_nat_le_u32 [OF a]
  have up: "[a..<Suc (unat n)] = a # [Suc a..<Suc (unat n)]" using a by (simp add: upt_conv_Cons)
  have k: "k = Suc (unat n) - Suc a" using Suc.hyps(2) by simp
  have m: "unat (of_nat m :: u32) = m" using Suc.prems(5) of_nat_le_u32 [of m n] a by simp
  have next': "(of_nat a :: u32) + 1 = of_nat (Suc a)" by (simp add: add.commute)
  have nextm: "(of_nat m :: u32) + 1 = of_nat (Suc m)" by (simp add: add.commute)
  show ?case
  proof (cases "of_nat a \<noteq> r \<and> of_nat m \<le> t")
    case True
    have le: "m \<le> unat t" using True m by (simp add: word_le_nat_alt)
    have ids: "ids_from a m r t n = of_nat a # ids_from (Suc a) (Suc m) r t n"
      unfolding ids_from_def up using True le by (simp add: Suc_diff_le)
    have "share_loop d r t n (of_nat a) (of_nat m) ss sst
        = share_loop d r t n (of_nat (Suc a)) (of_nat (Suc m)) (idx_map d ss (of_nat a))
            (sst(of_nat a \<mapsto> idx_val d ss (of_nat a)))"
      using an True unfolding next' [symmetric] nextm [symmetric] by (subst share_loop.simps) simp
    also have "\<dots> = Some (sst(of_nat a \<mapsto> idx_val d ss (of_nat a)) ++
        (\<lambda>k. if k \<in> set (ids_from (Suc a) (Suc m) r t n) then Some (idx_val d (idx_map d ss (of_nat a)) k) else None))"
      using Suc.prems a by (intro Suc.hyps(1)) (use k in auto)
    also have "sst(of_nat a \<mapsto> idx_val d ss (of_nat a)) ++
        (\<lambda>k. if k \<in> set (ids_from (Suc a) (Suc m) r t n) then Some (idx_val d (idx_map d ss (of_nat a)) k) else None)
        = sst ++ (\<lambda>k. if k \<in> set (ids_from a m r t n) then Some (idx_val d ss k) else None)"
      by (rule ext) (simp add: map_add_def ids)
    finally show ?thesis .
  next
    case False
    have ids: "ids_from a m r t n = ids_from (Suc a) m r t n"
    proof (cases "of_nat a = r")
      case True
      then show ?thesis unfolding ids_from_def up by simp
    next
      case False
      with \<open>\<not> (of_nat a \<noteq> r \<and> of_nat m \<le> t)\<close> have "\<not> of_nat m \<le> t" by simp
      then have "Suc (unat t) - m = 0" using m by (simp add: word_le_nat_alt)
      then show ?thesis by (simp add: ids_from_def)
    qed
    have "share_loop d r t n (of_nat a) (of_nat m) ss sst = share_loop d r t n (of_nat (Suc a)) (of_nat m) ss sst"
      using an False unfolding next' [symmetric] by (subst share_loop.simps) auto
    also have "\<dots> = Some (sst ++ (\<lambda>k. if k \<in> set (ids_from (Suc a) m r t n) then Some (idx_val d ss k) else None))"
      using Suc.prems a by (intro Suc.hyps(1)) (use k in auto)
    finally show ?thesis by (simp add: ids)
  qed
qed

lemma share_loop_spec:
  assumes "unat n < 2 ^ 32 - 1"
  shows "share_loop d r t n 1 1 ss Map.empty = Some (shares_sent d r t n ss)"
proof -
  have "ids_from 1 1 r t n = share_ids r t n" by (simp add: ids_from_def share_ids_def)
  then show ?thesis
    using share_loop_run [OF assms, of 1 1 d r t ss Map.empty] by (simp add: shares_sent_def)
qed

lemma distinct_of_nat_upt: "distinct (map (of_nat :: nat \<Rightarrow> u32) [1..<Suc (unat n)])" for n :: u32
proof -
  have "inj_on (of_nat :: nat \<Rightarrow> u32) {1..unat n}"
    by (rule inj_onI) (metis atLeastAtMost_iff of_nat_le_u32)
  then show ?thesis by (simp add: distinct_map atLeastLessThanSuc_atLeastAtMost del: upt_Suc)
qed

text \<open>C18: the shares the server hands out for a dropped client (number of parties below 2^32 - 1): the reply
  carries one share for each of the first threshold ids from 1 that are not the dropped client, so
  exactly threshold shares when there are that many other parties; an id whose share was never stored
  gets the default polynomial, so a client nobody ever heard of is reported as available.\<close>

theorem SecretSharesToClient_reply:
  assumes "unat n < 2 ^ 32 - 1"
    and "thr_handler L (SecretSharesToClient a r t n) s = (Inr p, s')"
  shows "p = (if share_ids r t n = [] then SharesReturn False []
              else SharesReturn True (ser_shares L (shares_sent (poly0 L) r t n (sh_look r s))))
    \<and> distinct (share_ids r t n) \<and> r \<notin> set (share_ids r t n)
    \<and> (1 \<le> unat r \<longrightarrow> unat r \<le> unat n \<longrightarrow> length (share_ids r t n) = min (unat t) (unat n - 1))"
proof (intro conjI impI)
  have e: "shares_sent (poly0 L) r t n ss = Map.empty \<longleftrightarrow> share_ids r t n = []" for ss :: "u32 \<rightharpoonup> 'c"
    by (cases "share_ids r t n") (auto simp: shares_sent_def fun_eq_iff)
  show "p = (if share_ids r t n = [] then SharesReturn False []
              else SharesReturn True (ser_shares L (shares_sent (poly0 L) r t n (sh_look r s))))"
    using assms by (auto simp: thr_step share_loop_spec e sh_look_def split: if_splits)
  show "distinct (share_ids r t n)"
    unfolding share_ids_def using distinct_of_nat_upt [of n] by (simp add: distinct_filter del: upt_Suc)
  show "r \<notin> set (share_ids r t n)"
    by (auto simp: share_ids_def dest: in_set_takeD)
  assume r: "1 \<le> unat r" "unat r \<le> unat n"
  have "length (filter (\<lambda>j. j \<noteq> r) (map of_nat [1..<Suc (unat n)])) = unat n - 1"
  proof -
    have "r \<in> set (map (of_nat :: nat \<Rightarrow> u32) [1..<Suc (unat n)])"
      using r by (intro rev_image_eqI [of "unat r"] | simp del: upt_Suc)+
    moreover have "filter (\<lambda>j. j \<noteq> r) xs = removeAll r xs" for xs :: "u32 list"
      by (induction xs) auto
    ultimately show ?thesis
      using distinct_of_nat_upt [of n] by (simp add: distinct_remove1_removeAll [symmetric] length_remove1 del: upt_Suc)
  qed
  then show "length (share_ids r t n) = min (unat t) (unat n - 1)"
    by (simp add: share_ids_def min.commute del: upt_Suc)
qed

section \<open>The specification of all replies\<close>

definition shares_answer :: "('cc, 'ct, 'poly) thr_lib \<Rightarrow> u32 \<Rightarrow> u32 \<Rightarrow> u32 \<Rightarrow> (u32 \<rightharpoonup> 'poly) \<Rightarrow> thr_reply" where
  "shares_answer L r t n ss =
     (case share_loop (poly0 L) r t n 1 1 ss Map.empty of
        None \<Rightarrow> SharesReturn False []
      | Some sst \<Rightarrow> if sst = Map.empty then SharesReturn False [] else SharesReturn True (ser_shares L sst))"

fun thr_spec :: "('cc, 'ct, 'poly) thr_lib \<Rightarrow> 'cc option \<Rightarrow> thr_request list \<Rightarrow> thr_request \<Rightarrow> thr_reply" where
  "thr_spec L c qs CryptoContextFromServer = CryptoContextReturn (ser_cc L c)"
| "thr_spec L c qs (SecretSharesFromClient _ _) = Ack ''Received SecretShares. Thank you, Your Server''"
| "thr_spec L c qs (SecretSharesToClient _ r t n) = shares_answer L r t n (last_posted (sh_posts L) r qs Map.empty)"
| "thr_spec L c qs (PublicKeyFromClient _ _) = Ack ''Received PKEY. Thank you, Your Server''"
| "thr_spec L c qs (PublicKeyToClient i) = key_answer (last_posted pk_posts i qs None)"
| "thr_spec L c qs (evalMultKeyFromClient _ _) = Ack ''Received EKEY. Thank you, Your Server''"
| "thr_spec L c qs (evalMultKeyToClient i) = key_answer (last_posted em_posts i qs None)"
| "thr_spec L c qs (evalSumKeyFromClient _ _ _) = Ack ''Received EKEY. Thank you, Your Server''"
| "thr_spec L c qs (evalSumKeyToClient i j) = key_answer (last_posted es_posts (i, j) qs None)"
| "thr_spec L c qs (evalMixMultKeyFromClient _ _) = Ack ''Received mixed eval key. Thank you, Your Server''"
| "thr_spec L c qs (evalMixMultKeyToClient i) = key_answer (last_posted ex_posts i qs None)"
| "thr_spec L c qs (CipherTextFromClient _ _) = Ack ''Received CTEXT. Thank you, Your Server''"
| "thr_spec L c qs (CipherTextToClient i) = ct_answer L (last_posted (ct_posts L) i qs None)"
| "thr_spec L c qs (PartialCipherTextFromClient _ _) = Ack ''Received partial CTEXT. Thank you, Your Server''"
| "thr_spec L c qs (PartialCipherTextToClient i) = cts_answer L (last_posted (pct_posts L) i qs [])"
| "thr_spec L c qs (AbortsPartialCipherTextFromClient _ _ _) = Ack ''Received aborts partial CTEXT. Thank you, Your Server''"
| "thr_spec L c qs (AbortsPartialCipherTextToClients i j) = cts_answer L (last_posted (apct_posts L) (i, j) qs [])"
| "thr_spec L c qs (PartialCipherTextsReceivedWait i) = FlagReturn (last_posted flag_posts i qs False)"

lemma looks0 [simp]:
  "pk_look k (thr_state0 c) = None" "em_look k (thr_state0 c) = None" "ex_look k (thr_state0 c) = None"
  "es_look k' (thr_state0 c) = None" "ct_look k (thr_state0 c) = None" "pct_look k (thr_state0 c) = []"
  "apct_look k' (thr_state0 c) = []" "flag_look k (thr_state0 c) = False" "sh_look k (thr_state0 c) = Map.empty"
  by (simp_all add: thr_state0_def pk_look_def em_look_def ex_look_def es_look_def ct_look_def pct_look_def
      apct_look_def flag_look_def sh_look_def)

lemma thr_reply_spec:
  assumes qs: "serve (thr_handler L) qs (thr_state0 c) = (Inr ps, s)"
    and q: "thr_handler L q s = (Inr p, s')"
  shows "p = thr_spec L c qs q"
proof -
  note after = pk.after_serve [OF qs] em.after_serve [OF qs] ex.after_serve [OF qs] es.after_serve [OF qs]
    ct.after_serve [OF qs] pct.after_serve [OF qs] apct.after_serve [OF qs] flag.after_serve [OF qs] sh.after_serve [OF qs]
  have c: "cc s = c"
    using ccm.after_serve [OF qs, of "()"] last_posted_none [of qs cc_posts "()"] by (simp add: cc_posts_def thr_state0_def)
  show ?thesis
  proof (cases q)
    case CryptoContextFromServer
    with q c show ?thesis by (auto simp: thr_step split: if_splits)
  next
    case (SecretSharesToClient a r t n)
    have "idx_val Map.empty (SecretShares s) r = last_posted (sh_posts L) r qs Map.empty"
      using after(9) [of r] by (simp add: sh_look_def thr_state0_def)
    with q SecretSharesToClient show ?thesis
      by (auto simp: thr_step shares_answer_def split: if_splits option.splits)
  next
    case (PublicKeyToClient i)
    with pk.reply [of L i s p s'] q after(1) [of i] show ?thesis by simp
  next
    case (evalMultKeyToClient i)
    with em.reply [of L i s p s'] q after(2) [of i] show ?thesis by simp
  next
    case (evalMixMultKeyToClient i)
    with ex.reply [of L i s p s'] q after(3) [of i] show ?thesis by simp
  next
    case (evalSumKeyToClient i j)
    with es.reply [of L "(i, j)" s p s'] q after(4) [of "(i, j)"] show ?thesis by simp
  next
    case (CipherTextToClient i)
    with ct.reply [of L i s p s'] q after(5) [of i] show ?thesis by simp
  next
    case (PartialCipherTextToClient i)
    with pct.reply [of L i s p s'] q after(6) [of i] show ?thesis by simp
  next
    case (AbortsPartialCipherTextToClients i j)
    with apct.reply [of L "(i, j)" s p s'] q after(7) [of "(i, j)"] show ?thesis by simp
  next
    case (PartialCipherTextsReceivedWait i)
    with flag.reply [of L i s p s'] q after(8) [of i] show ?thesis by simp
  qed (use q in \<open>auto simp: thr_step split: if_splits sum.splits\<close>)
qed

text \<open>C1: the threshold server answers by its history. Started fresh, after any completion queue events (so
  for any interleaving of any number of clients), the reply to the next request, of any of the eighteen
  methods, is the one the specification computes from the requests that arrived before: a poll
  returns what was posted last under its id, whoever posted it and whatever else was served.\<close>

theorem thr_server_replies:
  assumes "serving thr_method (thr_servicers L) (thr_state0 c) evs sv"
    and "queue_step thr_method (thr_servicers L) sv (Request q) (Inr ()) sv'"
  shows "\<exists>tag. sent sv' = sent sv @ [(tag, thr_spec L c (requests evs) q)]"
proof -
  have srv: "serve (thr_handler L) (requests evs) (thr_state0 c) = (Inr (map snd (sent sv)), shared sv)"
    using serving_refines [OF assms(1) thr_methods_distinct] by (simp add: thr_handler_def)
  obtain r s where d: "thr_handler L q (shared sv) = (r, s)" by (cases "thr_handler L q (shared sv)")
  have "case (r, s) of (Inr p, s) \<Rightarrow> (\<exists>t. sent sv' = sent sv @ [(t, p)]) | (Inl e, s) \<Rightarrow> False"
    using on_Request [of "thr_servicers L" sv thr_method q] serving_refines [OF assms(1) thr_methods_distinct]
      thr_method_known [of q L] assms(2) d
    by (auto simp: thr_handler_def elim!: queue_step_RequestE split: sum.splits)
  then obtain p t where "r = Inr p" "sent sv' = sent sv @ [(t, p)]" by (auto split: sum.splits)
  then show ?thesis using thr_reply_spec [OF srv] d by auto
qed

section \<open>Errors\<close>

fun empty_payload :: "thr_request \<Rightarrow> bool" where
  "empty_payload (SecretSharesFromClient b _) = (b = [])"
| "empty_payload (PublicKeyFromClient b _) = (b = [])"
| "empty_payload (evalMultKeyFromClient b _) = (b = [])"
| "empty_payload (evalSumKeyFromClient b _ _) = (b = [])"
| "empty_payload (evalMixMultKeyFromClient b _) = (b = [])"
| "empty_payload (CipherTextFromClient b _) = (b = [])"
| "empty_payload (PartialCipherTextFromClient b _) = (b = [])"
| "empty_payload (AbortsPartialCipherTextFromClient b _ _) = (b = [])"
| "empty_payload _ = False"

lemma empty_payload_throws:
  "empty_payload q \<Longrightarrow> \<exists>m. thr_handler L q s = (Inl (Openfhe_error m), s)"
  by (cases q) (auto simp: thr_step)

text \<open>C20: one request with an empty payload ends the server. In every reachable state, any client's
  request to store an empty key, ciphertext or share map throws out of the loop of \<^verbatim>\<open>HandleRpcs\<close>, with
  everything that was stored still in place but nobody left to serve it.\<close>

theorem empty_payload_kills_server:
  assumes "serving thr_method (thr_servicers L) (thr_state0 c) evs sv" "empty_payload q"
  shows "\<exists>m sv'. queue_step thr_method (thr_servicers L) sv (Request q) (Inl (Openfhe_error m)) sv'
    \<and> shared sv' = shared sv \<and> sent sv' = sent sv"
proof -
  obtain m where "dispatch thr_method (thr_servicers L) q (shared sv) = (Inl (Openfhe_error m), shared sv)"
    using empty_payload_throws [OF assms(2)] unfolding thr_handler_def by blast
  with queue_answers [OF thr_methods_distinct assms(1) thr_method_known [of q L]]
  show ?thesis by auto
qed

section \<open>What is handed out is never empty\<close>

definition thr_inv :: "('cc, 'ct, 'poly) thr_state \<Rightarrow> bool" where
  \<comment> \<open>a key flagged as ready was stored, and not as an empty buffer\<close>
  "thr_inv s \<longleftrightarrow> (\<forall>i. pk_look i s \<noteq> Some [] \<and> em_look i s \<noteq> Some [] \<and> ex_look i s \<noteq> Some [])
     \<and> (\<forall>k. es_look k s \<noteq> Some [])"

lemma posted_keys:
  assumes "thr_handler L q s = (Inr p, s')"
  shows "pk_posts q \<noteq> Some (i, Some [])" "em_posts q \<noteq> Some (i, Some [])"
    "ex_posts q \<noteq> Some (i, Some [])" "es_posts q \<noteq> Some (k, Some [])"
  using assms by (cases q; simp add: thr_step pk_posts_def em_posts_def ex_posts_def es_posts_def split: if_splits)+

lemma failed_keeps_keys:
  assumes "thr_handler L q s = (Inl e, s')"
  shows "pk_look i s' = pk_look i s" "em_look i s' = em_look i s" "ex_look i s' = ex_look i s" "es_look k s' = es_look k s"
proof -
  have "PublicKeys s' = PublicKeys s \<and> PublicKeysReady s' = PublicKeysReady s \<and> EvalKeyMults s' = EvalKeyMults s
    \<and> EvalKeyMultsReady s' = EvalKeyMultsReady s \<and> EvalKeyMixMults s' = EvalKeyMixMults s
    \<and> EvalKeyMixMultsReady s' = EvalKeyMixMultsReady s \<and> EvalKeySums s' = EvalKeySums s
    \<and> EvalKeySumsReady s' = EvalKeySumsReady s"
    using assms by (cases q) (auto simp: thr_step split: if_splits sum.splits option.splits)
  then show "pk_look i s' = pk_look i s" "em_look i s' = em_look i s" "ex_look i s' = ex_look i s" "es_look k s' = es_look k s"
    by (simp_all add: pk_look_def em_look_def ex_look_def es_look_def)
qed

interpretation thr: handler_inv "thr_handler L" thr_inv for L
proof unfold_locales
  show "thr_inv s'" if I: "thr_inv s" and h: "thr_handler L q s = (r, s')" for s q r s'
  proof (cases r)
    case (Inl e)
    with h I show ?thesis by (simp add: thr_inv_def failed_keeps_keys)
  next
    case (Inr p)
    note h = h [unfolded Inr]
    note P = posted_keys [OF h]
    have I': "pk_look i s \<noteq> Some []" "em_look i s \<noteq> Some []" "ex_look i s \<noteq> Some []" "es_look k s \<noteq> Some []" for i k
      using I unfolding thr_inv_def by blast+
    show ?thesis
      unfolding thr_inv_def
      using pk.step_avoids [OF h I'(1) P(1)] em.step_avoids [OF h I'(2) P(2)]
        ex.step_avoids [OF h I'(3) P(3)] es.step_avoids [OF h I'(4) P(4)] by blast
  qed
qed

lemma thr_inv0: "thr_inv (thr_state0 c)"
  by (simp add: thr_inv_def)

text \<open>C19: what the server flags as available is not empty: in every reachable state, whatever was posted, a reply
  with its availability flag set carries a non-empty buffer, so the clients' checks for an empty
  key, ciphertext or share buffer never fail against this server.\<close>

theorem available_not_empty:
  assumes "serve (thr_handler L) qs (thr_state0 c) = (Inr ps, s)" "thr_handler L q s = (Inr p, s')"
  shows "p \<noteq> KeyReturn True [] \<and> p \<noteq> TextReturn True [] \<and> p \<noteq> SharesReturn True []"
  using assms(2) thr.serve_keeps [OF thr_inv0 assms(1)]
  by (cases q)
    (auto simp: thr_step thr_inv_def pk_look_def em_look_def ex_look_def es_look_def
      split: if_splits sum.splits option.splits)

section \<open>Concrete runs\<close>

definition toy_lib :: "(unit, string, nat) thr_lib" where
  "toy_lib = \<lparr> ser_cc = (\<lambda>_. ''cc''),
     ser_ct = (\<lambda>c. case c of None \<Rightarrow> ''-'' | Some x \<Rightarrow> CHR ''c'' # x),
     deser_ct = (\<lambda>b. if b = ''-'' then Inr None else Inr (Some (tl b))),
     ser_cts = (\<lambda>cs. CHR ''v'' # concat (map (\<lambda>c. case c of None \<Rightarrow> ''-'' | Some x \<Rightarrow> x) cs)),
     deser_cts = (\<lambda>b. Inr [Some (tl b)]),
     ser_shares = (\<lambda>_. ''s''), deser_shares = (\<lambda>b. Inr [1 \<mapsto> 7]), poly0 = 0 \<rparr>"

lemma thr_serves:
  assumes "serving thr_method (thr_servicers L) s0 evs sv" "thr_handler L q (shared sv) = (Inr p, s)"
  shows "\<exists>sv'. queue_step thr_method (thr_servicers L) sv (Request q) (Inr ()) sv'
    \<and> serving thr_method (thr_servicers L) s0 (evs @ [Request q]) sv' \<and> shared sv' = s"
proof -
  from queue_answers [OF thr_methods_distinct assms(1) thr_method_known [of q L]] assms(2)
  obtain sv' where "queue_step thr_method (thr_servicers L) sv (Request q) (Inr ()) sv'" "shared sv' = s"
    by (auto simp: thr_handler_def)
  with serving.turns [OF assms(1)] show ?thesis by blast
qed

lemma SecretSharesToClient_reply_witness:
  "\<exists>s'. thr_handler toy_lib (SecretSharesToClient 1 2 2 5) (thr_state0 None)
     = (Inr (SharesReturn True (ser_shares toy_lib (shares_sent 0 2 2 5 Map.empty))), s')
   \<and> share_ids 2 2 5 = [1, 3]"
proof -
  have ids: "share_ids 2 2 5 = [1, 3]" by (simp add: share_ids_def upt_rec)
  have "shares_sent (0 :: nat) 2 2 5 ss 1 \<noteq> None" for ss by (simp add: shares_sent_def ids)
  then have ne: "shares_sent (0 :: nat) 2 2 5 ss \<noteq> Map.empty" for ss by metis
  obtain p s' where h: "thr_handler toy_lib (SecretSharesToClient 1 2 2 5) (thr_state0 None) = (Inr p, s')"
    using ne by (auto simp: thr_step share_loop_spec toy_lib_def)
  have "unat (5 :: u32) < 2 ^ 32 - 1" by simp
  from SecretSharesToClient_reply [OF this h] have "p = SharesReturn True (ser_shares toy_lib (shares_sent 0 2 2 5 Map.empty))"
    using ids by (simp add: toy_lib_def)
  with h ids show ?thesis by blast
qed

lemma thr_server_replies_witness:
  "\<exists>sv sv' tag. serving thr_method (thr_servicers toy_lib) (thr_state0 None) [Request (PublicKeyFromClient ''k'' 1)] sv
    \<and> queue_step thr_method (thr_servicers toy_lib) sv (Request (PublicKeyToClient 1)) (Inr ()) sv'
    \<and> sent sv' = sent sv @ [(tag, KeyReturn True ''k'')]"
proof -
  obtain s1 where "thr_handler toy_lib (PublicKeyFromClient ''k'' 1) (shared (start (thr_servicers toy_lib) (thr_state0 None)))
      = (Inr (Ack ''Received PKEY. Thank you, Your Server''), s1)"
    by (simp add: thr_step)
  from thr_serves [OF serving.begins this] obtain sv where
    sv: "serving thr_method (thr_servicers toy_lib) (thr_state0 None) [Request (PublicKeyFromClient ''k'' 1)] sv" by auto
  obtain p s2 where "thr_handler toy_lib (PublicKeyToClient 1) (shared sv) = (Inr p, s2)"
    by (cases "idx_val False (PublicKeysReady (shared sv)) 1") (simp_all add: thr_step)
  from thr_serves [OF sv this] obtain sv' where
    q: "queue_step thr_method (thr_servicers toy_lib) sv (Request (PublicKeyToClient 1)) (Inr ()) sv'" by auto
  from thr_server_replies [OF sv q] sv q show ?thesis
    by (auto simp: pk_posts_def key_answer_def)
qed

lemma empty_payload_kills_server_witness:
  "\<exists>m sv'. queue_step thr_method (thr_servicers toy_lib) (start (thr_servicers toy_lib) (thr_state0 None))
      (Request (PublicKeyFromClient [] 1)) (Inl (Openfhe_error m)) sv'"
  using empty_payload_kills_server [OF serving.begins, of "PublicKeyFromClient [] 1" toy_lib None] by auto

lemma available_not_empty_witness:
  "\<exists>s s'. serve (thr_handler toy_lib) [PublicKeyFromClient ''k'' 1] (thr_state0 None) = (Inr [Ack ''Received PKEY. Thank you, Your Server''], s)
    \<and> thr_handler toy_lib (PublicKeyToClient 1) s = (Inr (KeyReturn True ''k''), s')
    \<and> KeyReturn True ''k'' \<noteq> KeyReturn True []"
proof -
  obtain s where s: "serve (thr_handler toy_lib) [PublicKeyFromClient ''k'' 1] (thr_state0 None)
      = (Inr [Ack ''Received PKEY. Thank you, Your Server''], s)" and l: "pk_look 1 s = Some ''k''"
    by (simp add: thr_step abind_def pk_look_def)
  obtain s' where q: "thr_handler toy_lib (PublicKeyToClient 1) s = (Inr (KeyReturn True ''k''), s')"
    using l by (auto simp: thr_step pk_look_def split: if_splits)
  from available_not_empty [OF s q] s q show ?thesis by blast
qed

end
