(* ===== verification/Prog.thy ===== *)
theory Prog
  imports Rpc
begin

text \<open>
  Client programs. A client is a program of remote calls: a tree whose nodes are the calls, branching over
  their outcome, the error message of a failed call or the reply; what the program computes
  between two calls is the function from an outcome to the next call. Trees may be infinite, as
  polling loops are. A client stub builds a request, makes the call, throws an \<^verbatim>\<open>openfhe_error\<close>
  with the status' message when the status is not ok, and reads the reply: \<open>call_rpc\<close>.

  Programs run against a server that handles one request at a time, all clients of a
  system interleaved (\<open>sys_step\<close>); a handler that throws ends the server, and every later call
  fails.
\<close>

section \<open>Programs\<close>

codatatype ('q, 'p, 'a) prog =
    Ret "'a result"
  | Call 'q "string + 'p \<Rightarrow> ('q, 'p, 'a) prog"

primcorec pbind :: "('q, 'p, 'a) prog \<Rightarrow> ('a \<Rightarrow> ('q, 'p, 'b) prog) \<Rightarrow> ('q, 'p, 'b) prog" where
  "pbind m f =
     (case m of
        Ret r \<Rightarrow> (case r of Inl e \<Rightarrow> Ret (Inl e) | Inr x \<Rightarrow> f x)
      | Call q k \<Rightarrow> Call q (\<lambda>r. pbind (k r) f))"

primcorec ploop :: "('s \<Rightarrow> ('q, 'p, 's + 'a) prog) \<Rightarrow> ('q, 'p, 's + 'a) prog \<Rightarrow> ('q, 'p, 'a) prog" where
  \<comment> \<open>a loop: a round begins with a call and ends with the next loop state or with the result\<close>
  "ploop body m =
     (case m of
        Ret r \<Rightarrow>
          (case r of
             Inl e \<Rightarrow> Ret (Inl e)
           | Inr x \<Rightarrow>
               (case x of
                  Inl s \<Rightarrow>
                    (case body s of
                       Call q k \<Rightarrow> Call q (\<lambda>r. ploop body (k r))
                     | Ret _ \<Rightarrow> Ret (Inl (Undefined ''a loop without a call'')))
                | Inr a \<Rightarrow> Ret (Inr a)))
      | Call q k \<Rightarrow> Call q (\<lambda>r. ploop body (k r)))"

lemma pbind_simps [simp]:
  "pbind (Ret (Inl e)) f = Ret (Inl e)"
  "pbind (Ret (Inr x)) f = f x"
  "pbind (Call q k) f = Call q (\<lambda>r. pbind (k r) f)"
  by (subst pbind.code, simp)+

lemma ploop_simps [simp]:
  "ploop body (Ret (Inl e)) = Ret (Inl e)"
  "ploop body (Ret (Inr (Inr a))) = Ret (Inr a)"
  "ploop body (Call q k) = Call q (\<lambda>r. ploop body (k r))"
  by (subst ploop.code, simp)+

lemma ploop_round: "body s = Call q k \<Longrightarrow> ploop body (Ret (Inr (Inl s))) = Call q (\<lambda>r. ploop body (k r))"
  by (subst ploop.code) simp

definition pret :: "'a \<Rightarrow> ('q, 'p, 'a) prog" where
  "pret x = Ret (Inr x)"

definition pthrow :: "error \<Rightarrow> ('q, 'p, 'a) prog" where
  "pthrow e = Ret (Inl e)"

definition plift :: "'a result \<Rightarrow> ('q, 'p, 'a) prog" where
  "plift r = Ret r"

lemmas prog_defs [simp] = pret_def pthrow_def plift_def

definition call_rpc :: "'q \<Rightarrow> ('p \<Rightarrow> 'a result) \<Rightarrow> ('q, 'p, 'a) prog" where
  \<comment> \<open>if (!status.ok()) throw openfhe_error(status.error_message()); else read the reply\<close>
  "call_rpc q read = Call q (\<lambda>r. case r of Inl msg \<Rightarrow> Ret (Inl (Openfhe_error msg)) | Inr p \<Rightarrow> Ret (read p))"

definition wrong_reply :: "'a result" where
  \<comment> \<open>the reply of another method: a typed channel does not deliver it\<close>
  "wrong_reply = Inl (Undefined ''reply of another method'')"

definition poll :: "(bytes \<Rightarrow> ('q, 'p, bool \<times> bytes) prog) \<Rightarrow> ('q, 'p, bytes) prog" where
  \<comment> \<open>std::string s; while (!stub(s)) sleep;\<close>
  "poll stub = ploop (\<lambda>s. pbind (stub s) (\<lambda>(ok, s'). pret (if ok then Inr s' else Inl s'))) (pret (Inl []))"

definition poll_from :: "'q \<Rightarrow> (bytes \<Rightarrow> 'p \<Rightarrow> (bool \<times> bytes) result) \<Rightarrow> bytes \<Rightarrow> ('q, 'p, bytes) prog" where
  "poll_from q read s =
     ploop (\<lambda>s. pbind (call_rpc q (read s)) (\<lambda>(ok, s'). pret (if ok then Inr s' else Inl s'))) (pret (Inl s))"

lemma poll_eq: "poll (\<lambda>s. call_rpc q (read s)) = poll_from q read []"
  by (simp add: poll_def poll_from_def)

lemma poll_from_unfold:
  "poll_from q read s = Call q (\<lambda>r. case r of Inl msg \<Rightarrow> Ret (Inl (Openfhe_error msg))
     | Inr p \<Rightarrow> (case read s p of Inl e \<Rightarrow> Ret (Inl e) | Inr (ok, s') \<Rightarrow> if ok then Ret (Inr s') else poll_from q read s'))"
proof -
  let ?body = "\<lambda>s. pbind (call_rpc q (read s)) (\<lambda>(ok, s'). pret (if ok then Inr s' else Inl s'))"
  have "?body s = Call q (\<lambda>r. pbind (case r of Inl msg \<Rightarrow> Ret (Inl (Openfhe_error msg)) | Inr p \<Rightarrow> Ret (read s p))
      (\<lambda>(ok, s'). pret (if ok then Inr s' else Inl s')))"
    by (simp add: call_rpc_def)
  from ploop_round [where body = ?body and s = s, OF this] have "poll_from q read s = Call q (\<lambda>r. ploop ?body
      (pbind (case r of Inl msg \<Rightarrow> Ret (Inl (Openfhe_error msg)) | Inr p \<Rightarrow> Ret (read s p))
      (\<lambda>(ok, s'). pret (if ok then Inr s' else Inl s'))))"
    unfolding poll_from_def pret_def .
  moreover have "ploop ?body (pbind (case r of Inl msg \<Rightarrow> Ret (Inl (Openfhe_error msg)) | Inr p \<Rightarrow> Ret (read s p))
      (\<lambda>(ok, s'). pret (if ok then Inr s' else Inl s')))
    = (case r of Inl msg \<Rightarrow> Ret (Inl (Openfhe_error msg))
     | Inr p \<Rightarrow> (case read s p of Inl e \<Rightarrow> Ret (Inl e) | Inr (ok, s') \<Rightarrow> if ok then Ret (Inr s') else poll_from q read s'))" for r
    by (cases r) (auto simp: poll_from_def split: sum.split)
  ultimately show ?thesis by simp
qed

section \<open>Systems\<close>

record ('c, 'q, 'p, 'a, 's) sys =
  progs :: "'c \<rightharpoonup> ('q, 'p, 'a) prog"
  srv :: 's
  alive :: bool

inductive sys_step :: "('s, 'q, 'p) handler \<Rightarrow> ('c, 'q, 'p, 'a, 's) sys \<Rightarrow> ('c, 'q, 'p, 'a, 's) sys \<Rightarrow> bool"
  for h where
  answered: "progs y c = Some (Call q k) \<Longrightarrow> alive y \<Longrightarrow> h q (srv y) = (Inr p, s')
    \<Longrightarrow> sys_step h y (y\<lparr>progs := (progs y)(c \<mapsto> k (Inr p)), srv := s'\<rparr>)"
| crashed: "progs y c = Some (Call q k) \<Longrightarrow> alive y \<Longrightarrow> h q (srv y) = (Inl e, s')
    \<Longrightarrow> sys_step h y (y\<lparr>progs := (progs y)(c \<mapsto> k (Inl msg)), srv := s', alive := False\<rparr>)"
| refused: "progs y c = Some (Call q k) \<Longrightarrow> \<not> alive y
    \<Longrightarrow> sys_step h y (y\<lparr>progs := (progs y)(c \<mapsto> k (Inl msg))\<rparr>)"

definition sys_reach :: "('s, 'q, 'p) handler \<Rightarrow> ('c, 'q, 'p, 'a, 's) sys \<Rightarrow> ('c, 'q, 'p, 'a, 's) sys \<Rightarrow> bool" where
  "sys_reach h = (sys_step h)\<^sup>*\<^sup>*"

definition system :: "('c \<rightharpoonup> ('q, 'p, 'a) prog) \<Rightarrow> 's \<Rightarrow> ('c, 'q, 'p, 'a, 's) sys" where
  "system ps s = \<lparr> progs = ps, srv = s, alive = True \<rparr>"

lemma system_simps [simp]: "progs (system ps s) = ps" "srv (system ps s) = s" "alive (system ps s)"
  by (simp_all add: system_def)

lemma sys_reach_induct [consumes 1, case_names start step]:
  assumes "sys_reach h y z" "P y" "\<And>u v. sys_reach h y u \<Longrightarrow> P u \<Longrightarrow> sys_step h u v \<Longrightarrow> P v"
  shows "P z"
  using assms(1) unfolding sys_reach_def
  by (induction rule: rtranclp_induct) (use assms(2,3) in \<open>auto simp: sys_reach_def\<close>)

lemma sys_reach_refl [intro, simp]: "sys_reach h y y"
  by (simp add: sys_reach_def)

lemma sys_reach_step: "sys_step h y u \<Longrightarrow> sys_reach h u z \<Longrightarrow> sys_reach h y z"
  unfolding sys_reach_def by (rule converse_rtranclp_into_rtranclp)

text \<open>As long as the server is alive, its state is that of the requests served one after the other.\<close>

lemma sys_served:
  assumes "sys_reach h y z" "alive z"
  shows "alive y \<and> (\<exists>qs ps. serve h qs (srv y) = (Inr ps, srv z))"
  using assms
proof (induction rule: sys_reach_induct)
  case start
  then show ?case by (intro conjI exI [of _ "[]"] exI [of _ "[]"]) simp_all
next
  case (step u v)
  from step.hyps(2) step.prems show ?case
  proof cases
    case (answered c q k p s')
    with step.IH obtain qs ps where "alive y" "serve h qs (srv y) = (Inr ps, srv u)" by blast
    from serve_snoc [OF this(2) answered(4)] this(1) answered(1) show ?thesis
      by (intro conjI exI [of _ "qs @ [q]"] exI [of _ "ps @ [p]"]) simp_all
  qed simp_all
qed

section \<open>One client running alone\<close>

inductive solo :: "('s, 'q, 'p) handler \<Rightarrow> ('q, 'p, 'a) prog \<Rightarrow> 's \<Rightarrow> ('q, 'p, 'a) prog \<Rightarrow> 's \<Rightarrow> bool" for h where
  solo_here: "solo h m s m s"
| solo_call: "h q s = (Inr p, s') \<Longrightarrow> solo h (k (Inr p)) s' m t \<Longrightarrow> solo h (Call q k) s m t"

lemma solo_trans: "solo h m s m' s' \<Longrightarrow> solo h m' s' m'' s'' \<Longrightarrow> solo h m s m'' s''"
  by (induction rule: solo.induct) (auto intro: solo_call)

lemma solo_pbind: "solo h m s m' s' \<Longrightarrow> solo h (pbind m f) s (pbind m' f) s'"
  by (induction rule: solo.induct) (auto intro: solo_call solo_here)

lemma solo_pbind_Ret: "solo h m s (Ret (Inr x)) s' \<Longrightarrow> solo h (f x) s' m'' s'' \<Longrightarrow> solo h (pbind m f) s m'' s''"
  using solo_pbind [of h m s "Ret (Inr x)" s' f] by (auto intro: solo_trans)

lemma solo_rpc: "h q s = (Inr p, s') \<Longrightarrow> read p = Inr x \<Longrightarrow> solo h (call_rpc q read) s (Ret (Inr x)) s'"
  unfolding call_rpc_def by (rule solo_call, assumption, simp add: solo_here)

lemma solo_system:
  assumes "solo h m s m' s'" "progs y c = Some m" "alive y" "srv y = s"
  shows "sys_reach h y (y\<lparr>progs := (progs y)(c \<mapsto> m'), srv := s'\<rparr>)"
  using assms
proof (induction arbitrary: y rule: solo.induct)
  case (solo_here m s)
  then have e: "y\<lparr>progs := (progs y)(c \<mapsto> m), srv := s\<rparr> = y" by (simp add: map_upd_triv)
  show ?case unfolding e by simp
next
  case (solo_call q s p s' k m t)
  have "sys_step h y (y\<lparr>progs := (progs y)(c \<mapsto> k (Inr p)), srv := s'\<rparr>)"
    using solo_call.prems solo_call.hyps(1) by (intro answered) simp_all
  moreover have "sys_reach h (y\<lparr>progs := (progs y)(c \<mapsto> k (Inr p)), srv := s'\<rparr>) (y\<lparr>progs := (progs y)(c \<mapsto> m), srv := t\<rparr>)"
    using solo_call.IH [of "y\<lparr>progs := (progs y)(c \<mapsto> k (Inr p)), srv := s'\<rparr>"] solo_call.prems by (simp del: fun_upd_apply add: fun_upd_same)
  ultimately show ?case by (rule sys_reach_step)
qed

end
