(* ===== verification/Thresh_Client.thy ===== *)
theory Thresh_Client
  imports Thresh_Spec Prog
begin

text \<open>
  The client of the threshold demo with aborts: the eighteen stubs of \<^verbatim>\<open>ThreshClient\<close>
  (\<^verbatim>\<open>threshnet_aborts_grpc_demo/include/thresh_client.h\<close>) and \<^verbatim>\<open>genCT\<close>. A stub that fills a string passed by
  reference takes its old value and returns the new one with the flag. A reply of another
  method's type cannot happen on a typed channel and is the result Undefined.
\<close>

section \<open>The stubs\<close>

type_synonym 'a thr_prog = "(thr_request, thr_reply, 'a) prog"

definition c_CryptoContextFromServer :: "bytes thr_prog" where
  "c_CryptoContextFromServer =
     call_rpc CryptoContextFromServer (\<lambda>reply.
       case reply of CryptoContextReturn cryptocontext \<Rightarrow> Inr cryptocontext | _ \<Rightarrow> wrong_reply)"

definition c_PublicKeyFromClient :: "bytes \<Rightarrow> u32 \<Rightarrow> string thr_prog" where
  "c_PublicKeyFromClient pkey client_id =
     call_rpc (PublicKeyFromClient pkey client_id) (\<lambda>reply.
       case reply of Ack acknowledgement \<Rightarrow> Inr acknowledgement | _ \<Rightarrow> wrong_reply)"

definition c_PublicKeyToClient :: "bytes \<Rightarrow> u32 \<Rightarrow> (bool \<times> bytes) thr_prog" where
  "c_PublicKeyToClient pkey client_id =
     call_rpc (PublicKeyToClient client_id) (\<lambda>reply.
       case reply of KeyReturn available value \<Rightarrow> Inr (available, if available then value else pkey) | _ \<Rightarrow> wrong_reply)"

definition c_SecretSharesFromClient :: "bytes \<Rightarrow> u32 \<Rightarrow> string thr_prog" where
  "c_SecretSharesFromClient secretshares client_id =
     call_rpc (SecretSharesFromClient secretshares client_id) (\<lambda>reply.
       case reply of Ack acknowledgement \<Rightarrow> Inr acknowledgement | _ \<Rightarrow> wrong_reply)"

definition c_SecretSharesToClient :: "bytes \<Rightarrow> u32 \<Rightarrow> u32 \<Rightarrow> u32 \<Rightarrow> u32 \<Rightarrow> (bool \<times> bytes) thr_prog" where
  "c_SecretSharesToClient secretshares requesting_client_id recover_client_id threshold num_of_parties =
     call_rpc (SecretSharesToClient requesting_client_id recover_client_id threshold num_of_parties) (\<lambda>reply.
       case reply of SharesReturn available value \<Rightarrow> Inr (available, if available then value else secretshares) | _ \<Rightarrow> wrong_reply)"

definition c_evalMultKeyFromClient :: "bytes \<Rightarrow> u32 \<Rightarrow> string thr_prog" where
  "c_evalMultKeyFromClient ekey client_id =
     call_rpc (evalMultKeyFromClient ekey client_id) (\<lambda>reply.
       case reply of Ack acknowledgement \<Rightarrow> Inr acknowledgement | _ \<Rightarrow> wrong_reply)"

definition c_evalMixMultKeyFromClient :: "bytes \<Rightarrow> u32 \<Rightarrow> string thr_prog" where
  "c_evalMixMultKeyFromClient ekey client_id =
     call_rpc (evalMixMultKeyFromClient ekey client_id) (\<lambda>reply.
       case reply of Ack acknowledgement \<Rightarrow> Inr acknowledgement | _ \<Rightarrow> wrong_reply)"

definition c_evalMultKeyToClient :: "bytes \<Rightarrow> u32 \<Rightarrow> (bool \<times> bytes) thr_prog" where
  "c_evalMultKeyToClient ekey client_id =
     call_rpc (evalMultKeyToClient client_id) (\<lambda>reply.
       case reply of KeyReturn available value \<Rightarrow> Inr (available, if available then value else ekey) | _ \<Rightarrow> wrong_reply)"

definition c_evalMixMultKeyToClient :: "bytes \<Rightarrow> u32 \<Rightarrow> (bool \<times> bytes) thr_prog" where
  "c_evalMixMultKeyToClient ekey client_id =
     call_rpc (evalMixMultKeyToClient client_id) (\<lambda>reply.
       case reply of KeyReturn available value \<Rightarrow> Inr (available, if available then value else ekey) | _ \<Rightarrow> wrong_reply)"

definition c_evalSumKeyFromClient :: "bytes \<Rightarrow> u32 \<Rightarrow> u32 \<Rightarrow> string thr_prog" where
  "c_evalSumKeyFromClient ekey client_id index_num =
     call_rpc (evalSumKeyFromClient ekey client_id index_num) (\<lambda>reply.
       case reply of Ack acknowledgement \<Rightarrow> Inr acknowledgement | _ \<Rightarrow> wrong_reply)"

definition c_evalSumKeyToClient :: "bytes \<Rightarrow> u32 \<Rightarrow> u32 \<Rightarrow> (bool \<times> bytes) thr_prog" where
  "c_evalSumKeyToClient ekey client_id index_num =
     call_rpc (evalSumKeyToClient client_id index_num) (\<lambda>reply.
       case reply of KeyReturn available value \<Rightarrow> Inr (available, if available then value else ekey) | _ \<Rightarrow> wrong_reply)"

definition c_CipherTextFromClient :: "bytes \<Rightarrow> u32 \<Rightarrow> string thr_prog" where
  "c_CipherTextFromClient cText client_id =
     call_rpc (CipherTextFromClient cText client_id) (\<lambda>reply.
       case reply of Ack acknowledgement \<Rightarrow> Inr acknowledgement | _ \<Rightarrow> wrong_reply)"

definition c_CipherTextToClient :: "bytes \<Rightarrow> u32 \<Rightarrow> (bool \<times> bytes) thr_prog" where
  "c_CipherTextToClient cText client_id =
     call_rpc (CipherTextToClient client_id) (\<lambda>reply.
       case reply of TextReturn available value \<Rightarrow> Inr (available, if available then value else cText) | _ \<Rightarrow> wrong_reply)"

definition c_PartialCipherTextFromClient :: "bytes \<Rightarrow> u32 \<Rightarrow> string thr_prog" where
  "c_PartialCipherTextFromClient cText client_id =
     call_rpc (PartialCipherTextFromClient cText client_id) (\<lambda>reply.
       case reply of Ack acknowledgement \<Rightarrow> Inr acknowledgement | _ \<Rightarrow> wrong_reply)"

definition c_PartialCipherTextsReceivedWait :: "u32 \<Rightarrow> bool thr_prog" where
  "c_PartialCipherTextsReceivedWait client_id =
     call_rpc (PartialCipherTextsReceivedWait client_id) (\<lambda>reply.
       case reply of FlagReturn textavailable \<Rightarrow> Inr textavailable | _ \<Rightarrow> wrong_reply)"

definition c_PartialCipherTextToClient :: "bytes \<Rightarrow> u32 \<Rightarrow> (bool \<times> bytes) thr_prog" where
  "c_PartialCipherTextToClient cText client_id =
     call_rpc (PartialCipherTextToClient client_id) (\<lambda>reply.
       case reply of TextReturn available value \<Rightarrow> Inr (available, if available then value else cText) | _ \<Rightarrow> wrong_reply)"

definition c_AbortsPartialCipherTextFromClient :: "bytes \<Rightarrow> u32 \<Rightarrow> u32 \<Rightarrow> string thr_prog" where
  "c_AbortsPartialCipherTextFromClient cText received_client_id recovered_client_id =
     call_rpc (AbortsPartialCipherTextFromClient cText received_client_id recovered_client_id) (\<lambda>reply.
       case reply of Ack acknowledgement \<Rightarrow> Inr acknowledgement | _ \<Rightarrow> wrong_reply)"

definition c_AbortsPartialCipherTextToClients :: "bytes \<Rightarrow> u32 \<Rightarrow> u32 \<Rightarrow> (bool \<times> bytes) thr_prog" where
  "c_AbortsPartialCipherTextToClients cText received_client_id recovered_client_id =
     call_rpc (AbortsPartialCipherTextToClients received_client_id recovered_client_id) (\<lambda>reply.
       case reply of TextReturn available value \<Rightarrow> Inr (available, if available then value else cText) | _ \<Rightarrow> wrong_reply)"

end
