(* ===== verification/Thresh_Main.thy ===== *)
theory Thresh_Main
  imports Thresh_Client
begin

text \<open>
  The client program of the threshold demo with aborts (\<^verbatim>\<open>targets/thresh_client.cpp\<close>) and \<^verbatim>\<open>genCT\<close> of
  \<^verbatim>\<open>thresh_client.h\<close>: one definition per phase, in the program's order, and \<open>thresh_client\<close>, their sequence.

  What OpenFHE computes with this client's context and random choices is a record of functions. The
  evaluation keys that the program inserts into its context are values of the model: a null
  pointer or a key, which the evaluation functions take. A pointer the program tests for null is an
  option. The loop over the parties counts with a 32-bit variable; the model goes through the
  list of ids, which differs from the loop only for 2^32 - 1 parties. Pauses, timings, debug files
  and output are left out, and so are the sleeps between polls.
\<close>

section \<open>The library\<close>

record ('cc, 'pk, 'sk, 'ek, 'es, 'ct, 'poly, 'pt) client_lib =
  cl_thr :: "('cc, 'ct, 'poly) thr_lib"
  deser_cc :: "bytes \<Rightarrow> 'cc option result"
  ser_pk :: "'pk \<Rightarrow> bytes"
  deser_pk :: "bytes \<Rightarrow> 'pk result"
  ser_ek :: "'ek \<Rightarrow> bytes"
  deser_ek :: "bytes \<Rightarrow> 'ek result"
  ser_es :: "'es \<Rightarrow> bytes"
  deser_es :: "bytes \<Rightarrow> 'es result"
  KeyGen :: "'pk \<times> 'sk"
  MultipartyKeyGen :: "'pk \<Rightarrow> 'pk \<times> 'sk"
  KeyTag :: "'pk \<Rightarrow> string"
  ShareKeys :: "'sk \<Rightarrow> u32 \<Rightarrow> u32 \<Rightarrow> u32 \<Rightarrow> (u32 \<rightharpoonup> 'poly)"
  KeySwitchGen :: "'sk \<Rightarrow> 'ek"
  MultiKeySwitchGen :: "'sk \<Rightarrow> 'ek \<Rightarrow> 'ek"
  MultiAddEvalKeys :: "'ek \<Rightarrow> 'ek \<Rightarrow> string \<Rightarrow> 'ek"
  MultiMultEvalKey :: "'sk \<Rightarrow> 'ek \<Rightarrow> string \<Rightarrow> 'ek"
  MultiAddEvalMultKeys :: "'ek \<Rightarrow> 'ek \<Rightarrow> string \<Rightarrow> 'ek"
  EvalSumKeyGen :: "'sk \<Rightarrow> 'es"
  MultiEvalSumKeyGen :: "'sk \<Rightarrow> 'es \<Rightarrow> string \<Rightarrow> 'es"
  MultiAddEvalSumKeys :: "'es \<Rightarrow> 'es \<Rightarrow> string \<Rightarrow> 'es"
  PlaintextModulus :: nat
  EncryptPacked :: "'pk \<Rightarrow> int list \<Rightarrow> 'ct option"
  EvalMultMany :: "'ek option \<Rightarrow> 'ct option list \<Rightarrow> 'ct option"
  EvalAddMany :: "'ct option list \<Rightarrow> 'ct option"
  EvalSum :: "'es option \<Rightarrow> 'ct option \<Rightarrow> u32 \<Rightarrow> 'ct option"
  MultipartyDecryptLead :: "'ct option list \<Rightarrow> 'sk \<Rightarrow> 'ct option list"
  MultipartyDecryptMain :: "'ct option list \<Rightarrow> 'sk \<Rightarrow> 'ct option list"
  RecoverSharedKey :: "(u32 \<rightharpoonup> 'poly) \<Rightarrow> u32 \<Rightarrow> u32 \<Rightarrow> 'sk"
  MultipartyDecryptFusion :: "'ct option list \<Rightarrow> 'pt"

definition pguard :: "bool \<Rightarrow> error \<Rightarrow> unit thr_prog" where
  \<comment> \<open>if (!ok) OPENFHE_THROW(e)\<close>
  "pguard ok e = (if ok then pret () else pthrow e)"

definition received :: "string \<Rightarrow> (bytes \<Rightarrow> 'v result) \<Rightarrow> bytes \<Rightarrow> 'v thr_prog" where
  \<comment> \<open>a polled buffer: an exception when it is empty, otherwise deserialised\<close>
  "received what deser s =
     pbind (pguard (s \<noteq> []) (Openfhe_error (''Received empty serialized '' @ what))) (\<lambda>_. plift (deser s))"

definition serialized :: "string \<Rightarrow> bytes \<Rightarrow> bytes thr_prog" where
  "serialized what os = pbind (pguard (os \<noteq> []) (Serialize_error (''Serialized '' @ what @ '' is empty''))) (\<lambda>_. pret os)"

section \<open>Context and joint public key\<close>

definition get_context :: "('cc, 'pk, 'sk, 'ek, 'es, 'ct, 'poly, 'pt) client_lib \<Rightarrow> 'cc thr_prog" where
  "get_context L =
     pbind c_CryptoContextFromServer (\<lambda>ser.
     pbind (received ''CryptoContext'' (deser_cc L) ser) (\<lambda>c.
       case c of None \<Rightarrow> pthrow (Deserialize_error ''De-serialized CryptoContext is NULL'') | Some ctx \<Rightarrow> pret ctx))"

definition joint_keygen ::
  "('cc, 'pk, 'sk, 'ek, 'es, 'ct, 'poly, 'pt) client_lib \<Rightarrow> u32 \<Rightarrow> u32 \<Rightarrow> (('pk \<times> 'sk) \<times> 'pk) thr_prog" where
  \<comment> \<open>the client's key pair and the final public key\<close>
  "joint_keygen L client_id Num_of_parties =
     pbind (if client_id = 1 then pret (KeyGen L)
            else pbind (poll (\<lambda>s. c_PublicKeyToClient s (client_id - 1))) (\<lambda>ser.
                 pbind (received ''public key'' (deser_pk L) ser) (\<lambda>prevPubKey.
                   pret (MultipartyKeyGen L prevPubKey)))) (\<lambda>keyPair.
     pbind (serialized ''public key'' (ser_pk L (fst keyPair))) (\<lambda>ospKey.
     pbind (c_PublicKeyFromClient ospKey client_id) (\<lambda>_.
     if client_id \<noteq> Num_of_parties
     then pbind (poll (\<lambda>s. c_PublicKeyToClient s Num_of_parties)) (\<lambda>ser.
          pbind (received ''final public key'' (deser_pk L) ser) (\<lambda>FinalPubKey. pret (keyPair, FinalPubKey)))
     else pret (keyPair, fst keyPair))))"

definition thresh_of :: "u32 \<Rightarrow> u32" where
  \<comment> \<open>floor(Num_of_parties/2) + 1, an integer division\<close>
  "thresh_of Num_of_parties = Num_of_parties div 2 + 1"

definition send_shares ::
  "('cc, 'pk, 'sk, 'ek, 'es, 'ct, 'poly, 'pt) client_lib \<Rightarrow> u32 \<Rightarrow> u32 \<Rightarrow> 'sk \<Rightarrow> string thr_prog" where
  "send_shares L client_id Num_of_parties sk =
     pbind (serialized ''secret shares vector''
              (ser_shares (cl_thr L) (ShareKeys L sk Num_of_parties (thresh_of Num_of_parties) client_id))) (\<lambda>keyshares.
       c_SecretSharesFromClient keyshares client_id)"

section \<open>Evaluation keys\<close>

definition first_evalmult ::
  "('cc, 'pk, 'sk, 'ek, 'es, 'ct, 'poly, 'pt) client_lib \<Rightarrow> u32 \<Rightarrow> u32 \<Rightarrow> 'pk \<times> 'sk \<Rightarrow> 'pk \<Rightarrow> unit thr_prog" where
  \<comment> \<open>round one: the sum of the parts of the clients so far; the last client begins round two\<close>
  "first_evalmult L client_id Num_of_parties keyPair FinalPubKey =
     (if client_id = 1
      then pbind (serialized ''public key'' (ser_ek L (KeySwitchGen L (snd keyPair)))) (\<lambda>evKey.
           pbind (c_evalMultKeyFromClient evKey client_id) (\<lambda>_. pret ()))
      else if client_id \<le> Num_of_parties \<and> client_id > 1
      then pbind (poll (\<lambda>s. c_evalMultKeyToClient s (client_id - 1))) (\<lambda>ser.
           pbind (received ''previous client evalmult key'' (deser_ek L) ser) (\<lambda>PrevevalMultKey.
           let evalMultKey = MultiKeySwitchGen L (snd keyPair) PrevevalMultKey;
               evalMultPrevandCurrent = MultiAddEvalKeys L PrevevalMultKey evalMultKey (KeyTag L (fst keyPair))
           in pbind (serialized ''eval key'' (ser_ek L evalMultPrevandCurrent)) (\<lambda>evKey.
              pbind (c_evalMultKeyFromClient evKey client_id) (\<lambda>_.
              if client_id = Num_of_parties
              then pbind (serialized ''evalmultfinal key''
                     (ser_ek L (MultiMultEvalKey L (snd keyPair) evalMultPrevandCurrent (KeyTag L FinalPubKey)))) (\<lambda>evmmKey.
                   pbind (c_evalMixMultKeyFromClient evmmKey client_id) (\<lambda>_. pret ()))
              else pret ()))))
      else pret ())"

definition second_evalmult ::
  "('cc, 'pk, 'sk, 'ek, 'es, 'ct, 'poly, 'pt) client_lib \<Rightarrow> u32 \<Rightarrow> u32 \<Rightarrow> 'pk \<times> 'sk \<Rightarrow> 'pk \<Rightarrow> 'ek option thr_prog" where
  \<comment> \<open>round two, back from the last client to the first, which inserts the result\<close>
  "second_evalmult L client_id Num_of_parties keyPair FinalPubKey =
     (if client_id \<noteq> Num_of_parties
      then pbind (poll (\<lambda>s. c_evalMultKeyToClient s Num_of_parties)) (\<lambda>serAll.
           pbind (received ''evalmultall key'' (deser_ek L) serAll) (\<lambda>evalMultAll.
           pbind (poll (\<lambda>s. c_evalMixMultKeyToClient s (client_id + 1))) (\<lambda>serMix.
           pbind (received ''PrevevalMixMultKey key'' (deser_ek L) serMix) (\<lambda>PrevevalMixMultKey.
           let evalMultKeyskAll = MultiMultEvalKey L (snd keyPair) evalMultAll (KeyTag L FinalPubKey);
               evalMultAddskAll = MultiAddEvalMultKeys L evalMultKeyskAll PrevevalMixMultKey (KeyTag L FinalPubKey)
           in pbind (serialized ''evalmultfinal key'' (ser_ek L evalMultAddskAll)) (\<lambda>evmmKey.
              pbind (c_evalMixMultKeyFromClient evmmKey client_id) (\<lambda>_.
                pret (if client_id = 1 then Some evalMultAddskAll else None)))))))
      else pret None)"

definition evalmult_keys ::
  "('cc, 'pk, 'sk, 'ek, 'es, 'ct, 'poly, 'pt) client_lib \<Rightarrow> u32 \<Rightarrow> u32 \<Rightarrow> 'pk \<times> 'sk \<Rightarrow> 'pk \<Rightarrow> 'ek option thr_prog" where
  \<comment> \<open>the key inserted into the context\<close>
  "evalmult_keys L client_id Num_of_parties keyPair FinalPubKey =
     pbind (first_evalmult L client_id Num_of_parties keyPair FinalPubKey) (\<lambda>_.
     pbind (second_evalmult L client_id Num_of_parties keyPair FinalPubKey) (\<lambda>inserted.
     if client_id \<noteq> 1
     then pbind (poll (\<lambda>s. c_evalMixMultKeyToClient s 1)) (\<lambda>ser.
          pbind (received ''evalmultfinal key'' (deser_ek L) ser) (\<lambda>evalMultFinal. pret (Some evalMultFinal)))
     else pret inserted))"

definition evalsum_keys ::
  "('cc, 'pk, 'sk, 'ek, 'es, 'ct, 'poly, 'pt) client_lib \<Rightarrow> u32 \<Rightarrow> u32 \<Rightarrow> 'pk \<times> 'sk \<Rightarrow> 'es option thr_prog" where
  "evalsum_keys L client_id Num_of_parties keyPair =
     pbind
       (if client_id = 1
        then pbind (serialized ''eval sum key'' (ser_es L (EvalSumKeyGen L (snd keyPair)))) (\<lambda>esKey.
             pbind (c_evalSumKeyFromClient esKey client_id 0) (\<lambda>_.
             pbind (c_evalSumKeyFromClient esKey client_id 1) (\<lambda>_. pret None)))
        else if client_id \<le> Num_of_parties \<and> client_id > 1
        then pbind (poll (\<lambda>s. c_evalSumKeyToClient s (client_id - 1) 0)) (\<lambda>ser0.
             pbind (received ''previous client evalsum0 key'' (deser_es L) ser0) (\<lambda>PrevevalSumKey0.
             pbind (poll (\<lambda>s. c_evalSumKeyToClient s (client_id - 1) 1)) (\<lambda>ser1.
             pbind (received ''previous client evalsum1 key'' (deser_es L) ser1) (\<lambda>PrevevalSumKey1.
             let evalSumKeys0 = MultiEvalSumKeyGen L (snd keyPair) PrevevalSumKey0 (KeyTag L (fst keyPair));
                 evalSumKeys1 = MultiAddEvalSumKeys L PrevevalSumKey1 evalSumKeys0 (KeyTag L (fst keyPair))
             in pbind (serialized ''evalsumkey0'' (ser_es L evalSumKeys0)) (\<lambda>esKey0.
                pbind (serialized ''evalsumkey1'' (ser_es L evalSumKeys1)) (\<lambda>esKey1.
                pbind (c_evalSumKeyFromClient esKey0 client_id 0) (\<lambda>_.
                pbind (c_evalSumKeyFromClient esKey1 client_id 1) (\<lambda>_.
                  pret (if client_id = Num_of_parties then Some evalSumKeys1 else None)))))))))
        else pret None) (\<lambda>inserted.
     if client_id \<noteq> Num_of_parties
     then pbind (poll (\<lambda>s. c_evalSumKeyToClient s Num_of_parties 1)) (\<lambda>ser.
          pbind (received ''evalsumfinal key'' (deser_es L) ser) (\<lambda>evalSumFinal. pret (Some evalSumFinal)))
     else pret inserted)"

section \<open>Ciphertexts\<close>

definition genCT :: "('cc, 'pk, 'sk, 'ek, 'es, 'ct, 'poly, 'pt) client_lib \<Rightarrow> 'pk \<Rightarrow> u32 \<Rightarrow> 'ct option result" where
  \<comment> \<open>the 32-bit id becomes an element of a vector of int64\<close>
  "genCT L publicKey client_id =
     (if PlaintextModulus L < 65536
      then Inl (Math_error (''code is designed for plaintextModulus>=65536; modulus is '' @ digits_of (PlaintextModulus L)))
      else Inr (EncryptPacked L publicKey [1, 2, 3, 4, 3, 2, 1, 2, 4, 3, 3, uint client_id]))"

fun collect_cts ::
  "('cc, 'pk, 'sk, 'ek, 'es, 'ct, 'poly, 'pt) client_lib \<Rightarrow> u32 \<Rightarrow> 'ct option \<Rightarrow> u32 list \<Rightarrow> 'ct option list thr_prog" where
  \<comment> \<open>for (uint32_t i = 1; i <= Num_of_parties; i++)\<close>
  "collect_cts L client_id own [] = pret []"
| "collect_cts L client_id own (i # is) =
     pbind (if client_id \<noteq> i
            then pbind (poll (\<lambda>s. c_CipherTextToClient s i)) (\<lambda>ser.
                 pbind (received ''cipher text result'' (deser_ct (cl_thr L)) ser) (\<lambda>ClientCT.
                   if ClientCT = None then pthrow (Deserialize_error ''De-serialized client ciphertext is NULL'')
                   else pret ClientCT))
            else pret own) (\<lambda>ct.
     pbind (collect_cts L client_id own is) (\<lambda>cts. pret (ct # cts)))"

definition party_ids :: "u32 \<Rightarrow> u32 list" where
  "party_ids Num_of_parties = map of_nat [1..<Suc (unat Num_of_parties)]"

definition exchange_cts ::
  "('cc, 'pk, 'sk, 'ek, 'es, 'ct, 'poly, 'pt) client_lib \<Rightarrow> u32 \<Rightarrow> u32 \<Rightarrow> 'pk \<Rightarrow> 'ct option list thr_prog" where
  "exchange_cts L client_id Num_of_parties FinalPubKey =
     pbind (plift (genCT L FinalPubKey client_id)) (\<lambda>cipherText.
     pbind (serialized ''cipher text'' (ser_ct (cl_thr L) cipherText)) (\<lambda>osCT.
     pbind (c_CipherTextFromClient osCT client_id) (\<lambda>_.
       collect_cts L client_id cipherText (party_ids Num_of_parties))))"

definition compute ::
  "('cc, 'pk, 'sk, 'ek, 'es, 'ct, 'poly, 'pt) client_lib \<Rightarrow> string \<Rightarrow> 'ek option \<Rightarrow> 'es option \<Rightarrow> 'ct option list
   \<Rightarrow> 'ct option result" where
  \<comment> \<open>an unknown operation leaves the null ciphertext; CipherTexts[0] of an empty vector is undefined\<close>
  "compute L op evalmult evalsum CipherTexts =
     (if op = ''multiply'' then Inr (EvalMultMany L evalmult CipherTexts)
      else if op = ''add'' then Inr (EvalAddMany L CipherTexts)
      else if op = ''vectorsum'' then rbind (at ''CipherTexts'' CipherTexts 0) (\<lambda>c. Inr (EvalSum L evalsum c 16))
      else Inr None)"

section \<open>Distributed decryption and aborts\<close>

definition recovering_client_id :: u32 where "recovering_client_id = 1"
definition ABORTS_SLEEP_TIME_MSECS :: u32 where "ABORTS_SLEEP_TIME_MSECS = 10"
definition TIME_OUT :: u32 where "TIME_OUT = 1000"

definition recover_partial ::
  "('cc, 'pk, 'sk, 'ek, 'es, 'ct, 'poly, 'pt) client_lib \<Rightarrow> u32 \<Rightarrow> u32 \<Rightarrow> 'ct option \<Rightarrow> u32 \<Rightarrow> bytes \<Rightarrow> bytes thr_prog" where
  \<comment> \<open>party i does not answer: the recovering client computes its share, the others ask for it\<close>
  "recover_partial L client_id Num_of_parties resultCT i s =
     (if client_id = recovering_client_id
      then pbind (c_SecretSharesToClient [] recovering_client_id i (thresh_of Num_of_parties) Num_of_parties) (\<lambda>(_, ser).
           pbind (plift (deser_shares (cl_thr L) ser)) (\<lambda>SecretSharesRecd.
           let recovered_sk = RecoverSharedKey L SecretSharesRecd Num_of_parties (thresh_of Num_of_parties)
           in pbind (serialized ''aborts partial cipher text''
                (ser_cts (cl_thr L) (MultipartyDecryptMain L [resultCT] recovered_sk))) (\<lambda>os.
              pbind (c_AbortsPartialCipherTextFromClient os recovering_client_id i) (\<lambda>_. pret os))))
      else poll (\<lambda>s. c_AbortsPartialCipherTextToClients s recovering_client_id i))"

definition wait_round ::
  "('cc, 'pk, 'sk, 'ek, 'es, 'ct, 'poly, 'pt) client_lib \<Rightarrow> u32 \<Rightarrow> u32 \<Rightarrow> 'ct option \<Rightarrow> u32
   \<Rightarrow> bytes \<times> u32 \<Rightarrow> ((bytes \<times> u32) + bytes) thr_prog" where
  \<comment> \<open>one turn of while (!PartialCipherTextRecd), with ctr\<close>
  "wait_round L client_id Num_of_parties resultCT i = (\<lambda>(s, ctr).
     pbind (c_PartialCipherTextToClient s i) (\<lambda>(PartialCipherTextRecd, s1).
     pbind (c_PartialCipherTextsReceivedWait i) (\<lambda>PartialCTRecd.
     if (ctr + 1) * ABORTS_SLEEP_TIME_MSECS > TIME_OUT \<and> \<not> PartialCTRecd
     then pbind (recover_partial L client_id Num_of_parties resultCT i s1) (\<lambda>s2. pret (Inr s2))
     else pret (if PartialCipherTextRecd then Inr s1 else Inl (s1, ctr + 1)))))"

definition get_partial ::
  "('cc, 'pk, 'sk, 'ek, 'es, 'ct, 'poly, 'pt) client_lib \<Rightarrow> u32 \<Rightarrow> u32 \<Rightarrow> 'ct option \<Rightarrow> u32 \<Rightarrow> 'ct option thr_prog" where
  "get_partial L client_id Num_of_parties resultCT i =
     pbind (c_PartialCipherTextToClient [] i) (\<lambda>(PartialCipherTextRecd, s).
     pbind (if PartialCipherTextRecd then pret s
            else ploop (wait_round L client_id Num_of_parties resultCT i) (pret (Inl (s, 0)))) (\<lambda>ser.
     pbind (received ''mult partial cipher text result'' (deser_cts (cl_thr L)) ser) (\<lambda>ciphertextPartial1.
     pbind (plift (at ''ciphertextPartial1'' ciphertextPartial1 0)) (\<lambda>c.
       if c = None then pthrow (Deserialize_error ''De-serialized mult partial ciphertext is NULL'') else pret c))))"

fun collect_partials ::
  "('cc, 'pk, 'sk, 'ek, 'es, 'ct, 'poly, 'pt) client_lib \<Rightarrow> u32 \<Rightarrow> u32 \<Rightarrow> 'ct option \<Rightarrow> 'ct option list \<Rightarrow> u32 list
   \<Rightarrow> 'ct option list thr_prog" where
  "collect_partials L client_id Num_of_parties resultCT own [] = pret []"
| "collect_partials L client_id Num_of_parties resultCT own (i # is) =
     pbind (if client_id \<noteq> i then get_partial L client_id Num_of_parties resultCT i
            else plift (at ''ciphertextPartial'' own 0)) (\<lambda>c.
     pbind (collect_partials L client_id Num_of_parties resultCT own is) (\<lambda>cs. pret (c # cs)))"

definition decrypt ::
  "('cc, 'pk, 'sk, 'ek, 'es, 'ct, 'poly, 'pt) client_lib \<Rightarrow> u32 \<Rightarrow> u32 \<Rightarrow> 'sk \<Rightarrow> 'ct option \<Rightarrow> 'pt thr_prog" where
  "decrypt L client_id Num_of_parties sk resultCT =
     (let ciphertextPartial = (if client_id = 1 then MultipartyDecryptLead L [resultCT] sk
                               else MultipartyDecryptMain L [resultCT] sk)
      in pbind (serialized ''partial cipher text'' (ser_cts (cl_thr L) ciphertextPartial)) (\<lambda>osPartialCT.
         pbind (c_PartialCipherTextFromClient osPartialCT client_id) (\<lambda>_.
         pbind (c_PartialCipherTextsReceivedWait client_id) (\<lambda>PartialCTSent.
         pbind (if PartialCTSent
                then collect_partials L client_id Num_of_parties resultCT ciphertextPartial (party_ids Num_of_parties)
                else pret (replicate (unat Num_of_parties) None)) (\<lambda>partialCiphertextVec.
           pret (MultipartyDecryptFusion L partialCiphertextVec))))))"

section \<open>The program\<close>

definition thresh_client ::
  "('cc, 'pk, 'sk, 'ek, 'es, 'ct, 'poly, 'pt) client_lib \<Rightarrow> u32 \<Rightarrow> u32 \<Rightarrow> u32 \<Rightarrow> string \<Rightarrow> 'pt thr_prog" where
  \<comment> \<open>main: client_id, Num_of_parties, aborts and the operation are the parsed options\<close>
  "thresh_client L client_id Num_of_parties aborts op =
     pbind (get_context L) (\<lambda>_.
     pbind (joint_keygen L client_id Num_of_parties) (\<lambda>(keyPair, FinalPubKey).
     pbind (send_shares L client_id Num_of_parties (snd keyPair)) (\<lambda>_.
     pbind (if op = ''multiply'' then evalmult_keys L client_id Num_of_parties keyPair FinalPubKey else pret None) (\<lambda>evalmult.
     pbind (if op = ''vectorsum'' then evalsum_keys L client_id Num_of_parties keyPair else pret None) (\<lambda>evalsum.
     pbind (exchange_cts L client_id Num_of_parties FinalPubKey) (\<lambda>CipherTexts.
     pbind (if aborts = 1 then pthrow (Exit_failure ''This client is Aborting the protocol and exiting.'') else pret ()) (\<lambda>_.
     pbind (plift (compute L op evalmult evalsum CipherTexts)) (\<lambda>resultCT.
       decrypt L client_id Num_of_parties (snd keyPair) resultCT))))))))"

end
