(* ===== verification/Thresh_Keygen.thy ===== *)
theory Thresh_Keygen
  imports Thresh_Main
begin

text \<open>
  The joint public key protocol of the threshold demo: clients 1 to n, each running \<open>joint_keygen\<close> of the client
  program, interleaved in any way on one server. \<open>chain\<close> is the specification, the key pairs in the
  order of the ids. The invariant gives every client a stage (waiting for its predecessor, about to
  publish, waiting for the final key, finished) that determines its program and what the server
  stores for it.
\<close>

section \<open>The specification\<close>

fun chain :: "(nat \<Rightarrow> ('cc, 'pk, 'sk, 'ek, 'es, 'ct, 'poly, 'pt) client_lib) \<Rightarrow> nat \<Rightarrow> 'pk \<times> 'sk" where
  \<comment> \<open>the key pair of client i + 1\<close>
  "chain Ls 0 = KeyGen (Ls 1)"
| "chain Ls (Suc i) = MultipartyKeyGen (Ls (Suc (Suc i))) (fst (chain Ls i))"

definition pair_of :: "(nat \<Rightarrow> ('cc, 'pk, 'sk, 'ek, 'es, 'ct, 'poly, 'pt) client_lib) \<Rightarrow> nat \<Rightarrow> 'pk \<times> 'sk" where
  "pair_of Ls i = chain Ls (i - 1)"

definition pks_ok ::
  "(nat \<Rightarrow> ('cc, 'pk, 'sk, 'ek, 'es, 'ct, 'poly, 'pt) client_lib) \<Rightarrow> nat \<Rightarrow> ('pk \<Rightarrow> bytes) \<Rightarrow> bool" where
  \<comment> \<open>all clients serialise keys in the same way, never as nothing, and read them back\<close>
  "pks_ok Ls n ser \<longleftrightarrow> (\<forall>i \<in> {1..n}. ser_pk (Ls i) = ser \<and> (\<forall>k. deser_pk (Ls i) (ser k) = Inr k)) \<and> (\<forall>k. ser k \<noteq> [])"

definition kg_clients ::
  "(nat \<Rightarrow> ('cc, 'pk, 'sk, 'ek, 'es, 'ct, 'poly, 'pt) client_lib) \<Rightarrow> nat
   \<Rightarrow> nat \<rightharpoonup> (thr_request, thr_reply, ('pk \<times> 'sk) \<times> 'pk) prog" where
  "kg_clients Ls n = (\<lambda>i. if i \<in> {1..n} then Some (joint_keygen (Ls i) (of_nat i) (of_nat n)) else None)"

section \<open>The stages of a client\<close>

definition kg_final where
  "kg_final L keyPair N =
     pbind (poll (\<lambda>s. c_PublicKeyToClient s N)) (\<lambda>ser.
     pbind (received ''final public key'' (deser_pk L) ser) (\<lambda>FinalPubKey. pret (keyPair, FinalPubKey)))"

definition kg_publish where
  "kg_publish L keyPair client_id N =
     pbind (c_PublicKeyFromClient (ser_pk L (fst keyPair)) client_id) (\<lambda>_.
       if client_id \<noteq> N then kg_final L keyPair N else pret (keyPair, fst keyPair))"

definition kg_prog ::
  "(nat \<Rightarrow> ('cc, 'pk, 'sk, 'ek, 'es, 'ct, 'poly, 'pt) client_lib) \<Rightarrow> nat \<Rightarrow> nat \<Rightarrow> nat
   \<Rightarrow> (thr_request, thr_reply, ('pk \<times> 'sk) \<times> 'pk) prog" where
  "kg_prog Ls n i st =
     (if st = 0 then joint_keygen (Ls i) (of_nat i) (of_nat n)
      else if st = 1 then kg_publish (Ls i) (pair_of Ls i) (of_nat i) (of_nat n)
      else if st = 2 then kg_final (Ls i) (pair_of Ls i) (of_nat n)
      else pret (pair_of Ls i, fst (pair_of Ls n)))"

lemma joint_keygen_first: "ser_pk L (fst (KeyGen L)) \<noteq> [] \<Longrightarrow> joint_keygen L 1 N = kg_publish L (KeyGen L) 1 N"
  by (simp add: joint_keygen_def kg_publish_def kg_final_def serialized_def pguard_def)

lemma poll_PublicKey: "poll (\<lambda>s. c_PublicKeyToClient s j) =
   Call (PublicKeyToClient j) (\<lambda>r. case r of Inl msg \<Rightarrow> Ret (Inl (Openfhe_error msg))
     | Inr p \<Rightarrow> (case p of
         KeyReturn available value \<Rightarrow> if available then Ret (Inr value) else poll (\<lambda>s. c_PublicKeyToClient s j)
       | _ \<Rightarrow> Ret wrong_reply))"
  (is "?l = Call _ ?k")
proof -
  let ?read = "\<lambda>s reply. case reply of KeyReturn available value \<Rightarrow> Inr (available, if available then value else s)
    | _ \<Rightarrow> wrong_reply"
  have l: "?l = poll_from (PublicKeyToClient j) ?read []"
    unfolding c_PublicKeyToClient_def poll_eq ..
  show ?thesis
    unfolding l by (subst poll_from_unfold, rule arg_cong [of _ _ "Call (PublicKeyToClient j)"], rule ext)
      (auto split: sum.split thr_reply.split simp: wrong_reply_def)
qed

lemma keygen_waits:
  assumes "i \<noteq> 1" "\<And>k. deser_pk L (ser k) = Inr k" "\<And>k. ser k \<noteq> []" "ser_pk L = ser"
  shows "\<exists>k. joint_keygen L i N = Call (PublicKeyToClient (i - 1)) k
    \<and> k (Inr (KeyReturn False [])) = joint_keygen L i N
    \<and> k (Inr (KeyReturn True (ser pk))) = kg_publish L (MultipartyKeyGen L pk) i N"
  using assms
  by (simp add: joint_keygen_def kg_publish_def kg_final_def serialized_def received_def pguard_def)
    (subst poll_PublicKey, simp)+

lemma publish_calls:
  "\<exists>k. kg_publish L keyPair i N = Call (PublicKeyFromClient (ser_pk L (fst keyPair)) i) k
    \<and> (\<forall>m. k (Inr (Ack m)) = (if i \<noteq> N then kg_final L keyPair N else pret (keyPair, fst keyPair)))"
  by (simp add: kg_publish_def c_PublicKeyFromClient_def call_rpc_def)

lemma final_waits:
  assumes "\<And>k. deser_pk L (ser k) = Inr k" "\<And>k. ser k \<noteq> []"
  shows "\<exists>k. kg_final L keyPair N = Call (PublicKeyToClient N) k
    \<and> k (Inr (KeyReturn False [])) = kg_final L keyPair N
    \<and> k (Inr (KeyReturn True (ser pk))) = pret (keyPair, pk)"
  using assms
  by (simp add: kg_final_def received_def pguard_def) (subst poll_PublicKey, simp)+

section \<open>The server's part\<close>

lemma pk_asked:
  "\<exists>s'. thr_handler L (PublicKeyToClient j) s = (Inr (key_answer (pk_look j s)), s') \<and> (\<forall>k. pk_look k s' = pk_look k s)"
proof -
  obtain p s' where h: "thr_handler L (PublicKeyToClient j) s = (Inr p, s')"
    by (cases "idx_val False (PublicKeysReady s) j") (simp_all add: thr_step)
  then show ?thesis
    using pk.reply [OF h] pk.step [OF h] by (simp add: pk_posts_def)
qed

lemma pk_posted:
  assumes "b \<noteq> []"
  shows "\<exists>s' m. thr_handler L (PublicKeyFromClient b j) s = (Inr (Ack m), s')
    \<and> (\<forall>k. pk_look k s' = (if k = j then Some b else pk_look k s))"
proof -
  obtain m s' where h: "thr_handler L (PublicKeyFromClient b j) s = (Inr (Ack m), s')"
    using assms by (simp add: thr_step)
  then show ?thesis
    using pk.step [OF h] by (auto simp: pk_posts_def)
qed

section \<open>The invariant\<close>

definition kg_inv ::
  "(nat \<Rightarrow> ('cc, 'pk, 'sk, 'ek, 'es, 'ct, 'poly, 'pt) client_lib) \<Rightarrow> nat \<Rightarrow> ('pk \<Rightarrow> bytes) \<Rightarrow> (nat \<Rightarrow> nat)
   \<Rightarrow> (nat, thr_request, thr_reply, ('pk \<times> 'sk) \<times> 'pk, ('ca, 'cb, 'cd) thr_state) sys \<Rightarrow> bool" where
  "kg_inv Ls n ser st y \<longleftrightarrow> alive y \<and> (\<forall>i. i \<notin> {1..n} \<longrightarrow> progs y i = None)
     \<and> (\<forall>i \<in> {1..n}. progs y i = Some (kg_prog Ls n i (st i)) \<and> st i \<le> 3
         \<and> pk_look (of_nat i) (srv y) = (if 2 \<le> st i then Some (ser (fst (pair_of Ls i))) else None))
     \<and> 1 \<le> st 1 \<and> st n \<noteq> 2"

definition enabled :: "nat \<Rightarrow> (nat \<Rightarrow> nat) \<Rightarrow> nat \<Rightarrow> bool" where
  \<comment> \<open>the next call of client i takes it to its next stage\<close>
  "enabled n st i \<longleftrightarrow> st i < 3 \<and> (st i = 0 \<longrightarrow> 2 \<le> st (i - 1)) \<and> (st i = 2 \<longrightarrow> 2 \<le> st n)"

definition next_stage :: "nat \<Rightarrow> (nat \<Rightarrow> nat) \<Rightarrow> nat \<Rightarrow> nat" where
  "next_stage n st i = (if \<not> enabled n st i then st i else if st i = 1 \<and> i = n then 3 else Suc (st i))"

lemma u32_id:
  assumes "i < 2 ^ 32" "j < 2 ^ 32"
  shows "(of_nat i :: u32) = of_nat j \<longleftrightarrow> i = j"
proof -
  have "unat (of_nat i :: u32) = i" "unat (of_nat j :: u32) = j" using assms by (simp_all add: unat_of_nat)
  then show ?thesis by metis
qed

lemma kg_inv_upd:
  assumes inv: "kg_inv Ls n ser st y" and n: "n < 2 ^ 32" and i: "i \<in> {1..n}"
    and p: "p = kg_prog Ls n i v" "v \<le> 3" "st i \<le> v" "i = n \<longrightarrow> v \<noteq> 2"
    and s: "\<forall>k. pk_look k s' = (if k = of_nat i \<and> 2 \<le> v then Some (ser (fst (pair_of Ls i))) else pk_look k (srv y))"
  shows "kg_inv Ls n ser (st(i := v)) (y\<lparr>progs := (progs y)(i \<mapsto> p), srv := s'\<rparr>)"
proof -
  have "(of_nat j :: u32) = of_nat i \<longleftrightarrow> j = i" if "j \<in> {1..n}" for j
    using that i n by (intro u32_id) auto
  moreover have "st i \<le> 3" "pk_look (of_nat i) (srv y) = (if 2 \<le> st i then Some (ser (fst (pair_of Ls i))) else None)"
    using inv i by (auto simp: kg_inv_def)
  ultimately show ?thesis
    using inv i p s by (auto simp: kg_inv_def)
qed

lemma kg_round:
  assumes inv: "kg_inv Ls n ser st y" and ok: "pks_ok Ls n ser" and n: "n < 2 ^ 32" and i: "i \<in> {1..n}"
    and lt: "st i < 3"
  shows "\<exists>q k p s'. progs y i = Some (Call q k) \<and> thr_handler L q (srv y) = (Inr p, s')
    \<and> kg_inv Ls n ser (st(i := next_stage n st i)) (y\<lparr>progs := (progs y)(i \<mapsto> k (Inr p)), srv := s'\<rparr>)"
proof -
  have d: "deser_pk (Ls i) (ser k) = Inr k" and ne: "ser k \<noteq> []" and se: "ser_pk (Ls i) = ser" for k
    using ok i by (auto simp: pks_ok_def)
  have look: "pk_look (of_nat j) (srv y) = (if 2 \<le> st j then Some (ser (fst (pair_of Ls j))) else None)"
    if "j \<in> {1..n}" for j using inv that by (auto simp: kg_inv_def)
  have pr: "progs y i = Some (kg_prog Ls n i (st i))" and st1: "1 \<le> st 1" "st n \<noteq> 2" using inv i by (auto simp: kg_inv_def)
  consider (0) "st i = 0" | (1) "st i = 1" | (2) "st i = 2" using lt by linarith
  then show ?thesis
  proof cases
    case 0
    then have i1: "i \<noteq> 1" using st1 by auto
    then have ij: "(of_nat i :: u32) \<noteq> 1" "(of_nat i :: u32) - 1 = of_nat (i - 1)" "i - 1 \<in> {1..n}"
      using u32_id [of i 1] i n by (auto simp: of_nat_diff)
    obtain k where k: "kg_prog Ls n i 0 = Call (PublicKeyToClient (of_nat (i - 1))) k"
      "k (Inr (KeyReturn False [])) = kg_prog Ls n i 0"
      "k (Inr (KeyReturn True (ser (fst (pair_of Ls (i - 1)))))) = kg_publish (Ls i) (MultipartyKeyGen (Ls i) (fst (pair_of Ls (i - 1)))) (of_nat i) (of_nat n)"
      using keygen_waits [of "of_nat i" "Ls i" ser "of_nat n" "fst (pair_of Ls (i - 1))", OF ij(1) d ne se] ij(2)
      by (auto simp: kg_prog_def)
    obtain m where m: "i = Suc (Suc m)" using i1 i by (cases i; cases "i - 1") auto
    then have pub: "kg_publish (Ls i) (MultipartyKeyGen (Ls i) (fst (pair_of Ls (i - 1)))) (of_nat i) (of_nat n) = kg_prog Ls n i 1"
      by (simp add: kg_prog_def pair_of_def)
    obtain s' where s': "thr_handler L (PublicKeyToClient (of_nat (i - 1))) (srv y)
        = (Inr (key_answer (pk_look (of_nat (i - 1)) (srv y))), s')" "\<forall>k. pk_look k s' = pk_look k (srv y)"
      using pk_asked [of L "of_nat (i - 1)" "srv y"] by blast
    show ?thesis
      using pr s' k 0 pub look [OF ij(3)]
      by (intro exI conjI, simp, simp, intro kg_inv_upd [OF inv n i])
        (auto simp: key_answer_def next_stage_def enabled_def)
  next
    case 1
    obtain k where k: "kg_prog Ls n i 1 = Call (PublicKeyFromClient (ser (fst (pair_of Ls i))) (of_nat i)) k"
      "\<forall>m. k (Inr (Ack m)) = (if (of_nat i :: u32) \<noteq> of_nat n then kg_final (Ls i) (pair_of Ls i) (of_nat n) else pret (pair_of Ls i, fst (pair_of Ls i)))"
      using publish_calls [of "Ls i" "pair_of Ls i" "of_nat i" "of_nat n"] by (auto simp: kg_prog_def se)
    obtain s' m where s': "thr_handler L (PublicKeyFromClient (ser (fst (pair_of Ls i))) (of_nat i)) (srv y) = (Inr (Ack m), s')"
      "\<forall>k. pk_look k s' = (if k = of_nat i then Some (ser (fst (pair_of Ls i))) else pk_look k (srv y))"
      using pk_posted [OF ne, of L "fst (pair_of Ls i)" "of_nat i" "srv y"] by blast
    have "(of_nat i :: u32) = of_nat n \<longleftrightarrow> i = n" using i n by (intro u32_id) auto
    then show ?thesis
      using pr s' k 1
      by (intro exI conjI, simp, simp, intro kg_inv_upd [OF inv n i])
        (auto simp: next_stage_def enabled_def kg_prog_def)
  next
    case 2
    have nn: "n \<in> {1..n}" using i by auto
    obtain k where k: "kg_prog Ls n i 2 = Call (PublicKeyToClient (of_nat n)) k"
      "k (Inr (KeyReturn False [])) = kg_prog Ls n i 2"
      "k (Inr (KeyReturn True (ser (fst (pair_of Ls n))))) = kg_prog Ls n i 3"
      using final_waits [of "Ls i" ser "pair_of Ls i" "of_nat n" "fst (pair_of Ls n)", OF d ne]
      by (auto simp: kg_prog_def)
    obtain s' where s': "thr_handler L (PublicKeyToClient (of_nat n)) (srv y)
        = (Inr (key_answer (pk_look (of_nat n) (srv y))), s')" "\<forall>k. pk_look k s' = pk_look k (srv y)"
      using pk_asked [of L "of_nat n" "srv y"] by blast
    have "i \<noteq> n" using 2 st1 by auto
    then show ?thesis
      using pr s' k 2 look [OF nn] look [OF i]
      by (intro exI conjI, simp, simp, intro kg_inv_upd [OF inv n i])
        (auto simp: key_answer_def next_stage_def enabled_def)
  qed
qed

lemma kg_step:
  assumes inv: "kg_inv Ls n ser st y" and ok: "pks_ok Ls n ser" and n: "n < 2 ^ 32"
    and step: "sys_step (thr_handler L) y y'"
  shows "\<exists>st'. kg_inv Ls n ser st' y'"
proof -
  have *: "c \<in> {1..n} \<and> st c < 3" if "progs y c = Some (Call q k)" for c q k
  proof -
    have c: "c \<in> {1..n}" using inv that by (auto simp: kg_inv_def)
    moreover from this have "progs y c = Some (kg_prog Ls n c (st c))" "st c \<le> 3" using inv by (auto simp: kg_inv_def)
    ultimately show ?thesis using that by (auto simp: kg_prog_def le_less)
  qed
  have al: "alive y" using inv by (simp add: kg_inv_def)
  from step show ?thesis
  proof cases
    case (answered c q k p s')
    with kg_round [OF inv ok n, of c L] * [OF answered(2)] show ?thesis by auto
  next
    case (crashed c q k e s' msg)
    with kg_round [OF inv ok n, of c L] * [OF crashed(2)] show ?thesis by auto
  qed (use al in simp)
qed

lemma kg_start:
  assumes "1 \<le> n" "pks_ok Ls n ser"
  shows "kg_inv Ls n ser (\<lambda>i. if i = 1 then 1 else 0) (system (kg_clients Ls n) (thr_state0 c))"
proof -
  have "joint_keygen (Ls 1) 1 (of_nat n) = kg_prog Ls n 1 1"
    using assms joint_keygen_first [of "Ls 1" "of_nat n"] by (simp add: kg_prog_def pks_ok_def pair_of_def)
  then show ?thesis
    using assms(1) by (auto simp: kg_inv_def kg_clients_def kg_prog_def)
qed

lemma some_enabled:
  assumes "1 \<le> n" "i \<in> {1..n}" "st i < 3" "1 \<le> st 1" "st n \<noteq> 2"
  shows "\<exists>j \<in> {1..n}. enabled n st j"
proof (cases "\<exists>j \<in> {1..n}. st j = 1")
  case True
  then obtain j where "j \<in> {1..n}" "st j = 1" by blast
  then show ?thesis by (intro bexI [of _ j]) (simp_all add: enabled_def)
next
  case no1: False
  show ?thesis
  proof (cases "\<exists>j \<in> {1..n}. st j = 0")
    case True
    define c where "c = (LEAST j. j \<in> {1..n} \<and> st j = 0)"
    have c: "c \<in> {1..n}" "st c = 0"
      using LeastI_ex [of "\<lambda>j. j \<in> {1..n} \<and> st j = 0"] True unfolding c_def by blast+
    then have "c \<noteq> 1" using assms(4) by auto
    then have c': "c - 1 \<in> {1..n}" "c - 1 < c" using c by auto
    have "\<not> (c - 1 \<in> {1..n} \<and> st (c - 1) = 0)"
      using not_less_Least [of "c - 1" "\<lambda>j. j \<in> {1..n} \<and> st j = 0", folded c_def, OF c'(2)] .
    then have "st (c - 1) \<noteq> 0" using c'(1) by simp
    moreover have "st (c - 1) \<noteq> 1" using no1 c'(1) by blast
    ultimately have "2 \<le> st (c - 1)" by arith
    then show ?thesis using c by (intro bexI [of _ c]) (simp_all add: enabled_def)
  next
    case False
    have "n \<in> {1..n}" using assms(1) by simp
    then have "st i \<noteq> 0" "st i \<noteq> 1" "st n \<noteq> 0" "st n \<noteq> 1" using no1 False assms(2) by metis+
    then have "st i = 2" "2 \<le> st n" using assms(3) by arith+
    then show ?thesis using assms(2) by (intro bexI [of _ i]) (simp_all add: enabled_def)
  qed
qed

lemma kg_finishes:
  assumes "kg_inv Ls n ser st y" and ok: "pks_ok Ls n ser" and n: "1 \<le> n" "n < 2 ^ 32"
  shows "\<exists>z st'. sys_reach (thr_handler L) y z \<and> kg_inv Ls n ser st' z \<and> (\<forall>i \<in> {1..n}. st' i = 3)"
  using assms(1)
proof (induction "\<Sum>i \<in> {1..n}. 3 - st i" arbitrary: st y rule: less_induct)
  case less
  show ?case
  proof (cases "\<forall>i \<in> {1..n}. st i = 3")
    case True
    with less.prems show ?thesis by blast
  next
    case False
    then obtain i where i: "i \<in> {1..n}" "st i < 3"
      using less.prems by (auto simp: kg_inv_def le_less)
    have "1 \<le> st 1" "st n \<noteq> 2" using less.prems by (auto simp: kg_inv_def)
    from some_enabled [OF n(1) i this] obtain j where j: "j \<in> {1..n}" "enabled n st j" by blast
    from j have lt: "st j < 3" by (simp add: enabled_def)
    from kg_round [OF less.prems ok n(2) j(1) lt, of L] obtain q k p s' where
      r: "progs y j = Some (Call q k)" "thr_handler L q (srv y) = (Inr p, s')"
      "kg_inv Ls n ser (st(j := next_stage n st j)) (y\<lparr>progs := (progs y)(j \<mapsto> k (Inr p)), srv := s'\<rparr>)" by blast
    let ?st = "st(j := next_stage n st j)"
    have le: "?st i \<ge> st i" for i using j by (auto simp: next_stage_def)
    have "st j < ?st j" "st j < 3" using j lt by (auto simp: next_stage_def)
    then have "(\<Sum>i \<in> {1..n}. 3 - ?st i) < (\<Sum>i \<in> {1..n}. 3 - st i)"
      using le j(1) by (intro sum_strict_mono_ex1 ballI bexI [of _ j]) (auto intro: diff_le_mono2 diff_less_mono2)
    from less.hyps [OF this r(3)] obtain z st' where
      z: "sys_reach (thr_handler L) (y\<lparr>progs := (progs y)(j \<mapsto> k (Inr p)), srv := s'\<rparr>) z"
      "kg_inv Ls n ser st' z" "\<forall>i \<in> {1..n}. st' i = 3" by blast
    have "alive y" using less.prems by (simp add: kg_inv_def)
    with r have "sys_step (thr_handler L) y (y\<lparr>progs := (progs y)(j \<mapsto> k (Inr p)), srv := s'\<rparr>)"
      by (intro sys_step.answered)
    from sys_reach_step [OF this z(1)] z(2,3) show ?thesis by blast
  qed
qed

text \<open>C4: the clients agree on the joint public key. Clients 1 to n of the program, interleaved in any way on the
  server: whoever finishes the key generation has the key pair the chain of \<^verbatim>\<open>MultipartyKeyGen\<close>
  prescribes and the public key of client n, the same for all, and nobody ends with an exception; and
  in every reachable state the run can still be completed, so the polling loops are never stuck.\<close>

theorem joint_key_agreement:
  assumes "1 \<le> n" "n < 2 ^ 32" "pks_ok Ls n ser"
    and "sys_reach (thr_handler L) (system (kg_clients Ls n) (thr_state0 c)) y"
  shows "(\<forall>i \<in> {1..n}. \<forall>r. progs y i = Some (Ret r) \<longrightarrow> r = Inr (pair_of Ls i, fst (pair_of Ls n)))
    \<and> (\<exists>z. sys_reach (thr_handler L) y z
        \<and> (\<forall>i \<in> {1..n}. progs z i = Some (Ret (Inr (pair_of Ls i, fst (pair_of Ls n))))))"
proof -
  from assms(4) have "\<exists>st. kg_inv Ls n ser st y"
  proof (induction rule: sys_reach_induct)
    case start
    show ?case using kg_start [OF assms(1,3)] by blast
  next
    case (step u v)
    then show ?case using kg_step [OF _ assms(3,2)] by blast
  qed
  then obtain st where inv: "kg_inv Ls n ser st y" by blast
  have "r = Inr (pair_of Ls i, fst (pair_of Ls n))" if "i \<in> {1..n}" "progs y i = Some (Ret r)" for i r
  proof (cases "st i < 3")
    case True
    from kg_round [OF inv assms(3,2) that(1) True] that(2) show ?thesis by auto
  next
    case False
    then show ?thesis using inv that by (auto simp: kg_inv_def kg_prog_def)
  qed
  moreover from kg_finishes [OF inv assms(3,1,2), of L] obtain z st' where
    "sys_reach (thr_handler L) y z" "kg_inv Ls n ser st' z" "\<forall>i \<in> {1..n}. st' i = 3" by blast
  ultimately show ?thesis
    by (intro conjI ballI allI impI exI [of _ z]) (auto simp: kg_inv_def kg_prog_def)
qed

section \<open>A concrete run\<close>

definition toy_client :: "string \<Rightarrow> (unit, string, string, string, string, string, nat, string) client_lib" where
  \<comment> \<open>keys and ciphertexts are strings that record how they were made\<close>
  "toy_client me = \<lparr> cl_thr = toy_lib, deser_cc = (\<lambda>b. Inr (Some ())),
     ser_pk = (\<lambda>k. CHR ''p'' # k), deser_pk = (\<lambda>b. Inr (tl b)), ser_ek = (\<lambda>k. CHR ''e'' # k), deser_ek = (\<lambda>b. Inr (tl b)),
     ser_es = (\<lambda>k. CHR ''s'' # k), deser_es = (\<lambda>b. Inr (tl b)),
     KeyGen = (me, me), MultipartyKeyGen = (\<lambda>k. (k @ me, me)), KeyTag = (\<lambda>k. k), ShareKeys = (\<lambda>_ _ _ _. [1 \<mapsto> 7]),
     KeySwitchGen = (\<lambda>s. s), MultiKeySwitchGen = (\<lambda>s k. s), MultiAddEvalKeys = (\<lambda>a b t. a @ b),
     MultiMultEvalKey = (\<lambda>s k t. s @ k), MultiAddEvalMultKeys = (\<lambda>a b t. a @ b),
     EvalSumKeyGen = (\<lambda>s. s), MultiEvalSumKeyGen = (\<lambda>s k t. s), MultiAddEvalSumKeys = (\<lambda>a b t. a @ b),
     PlaintextModulus = 65537, EncryptPacked = (\<lambda>k v. Some k),
     EvalMultMany = (\<lambda>_ _. Some me), EvalAddMany = (\<lambda>_. Some me), EvalSum = (\<lambda>_ c _. c),
     MultipartyDecryptLead = (\<lambda>c s. c), MultipartyDecryptMain = (\<lambda>c s. c),
     RecoverSharedKey = (\<lambda>_ _ _. me), MultipartyDecryptFusion = (\<lambda>_. me) \<rparr>"

definition ab :: "nat \<Rightarrow> (unit, string, string, string, string, string, nat, string) client_lib" where
  "ab i = toy_client (if i = 1 then ''a'' else ''b'')"

lemma ab_ok: "pks_ok ab 2 (\<lambda>k. CHR ''p'' # k)"
  by (auto simp: pks_ok_def ab_def toy_client_def)

lemma joint_key_agreement_witness:
  "\<exists>z. sys_reach (thr_handler toy_lib) (system (kg_clients ab 2) (thr_state0 None)) z
    \<and> progs z 1 = Some (Ret (Inr ((''a'', ''a''), ''ab''))) \<and> progs z 2 = Some (Ret (Inr ((''ab'', ''b''), ''ab'')))"
proof -
  have v: "pair_of ab 1 = (''a'', ''a'')" "pair_of ab 2 = (''ab'', ''b'')"
    by (simp_all add: pair_of_def numeral_2_eq_2 ab_def toy_client_def)
  have "1 \<le> (2 :: nat)" "(2 :: nat) < 2 ^ 32" by simp_all
  from joint_key_agreement [OF this ab_ok sys_reach_refl, of None toy_lib] obtain z where
    z: "sys_reach (thr_handler toy_lib) (system (kg_clients ab 2) (thr_state0 None)) z"
    and e: "\<forall>i \<in> {1..2}. progs z i = Some (Ret (Inr (pair_of ab i, fst (pair_of ab 2))))" by blast
  have "1 \<in> {1..2::nat}" "2 \<in> {1..2::nat}" by simp_all
  from this [THEN bspec [OF e]] z show ?thesis by (simp only: v fst_conv) blast
qed

end
