(* ===== verification/Thresh_Aborts.thy ===== *)
theory Thresh_Aborts
  imports Thresh_Main
begin

text \<open>
  Aborting clients in the threshold demo. The program fixes the recovering client to client 1. \<open>doomed\<close> is
  the property of a client program that it never ends with a result as long as client 1 posts
  neither its partial decryption nor a recovered one for itself; it is established for the whole
  program by coinduction, phase by phase, and kept by every step of a system. Any other dropped client is
  recovered: the wait of a survivor is a sequence of phases of one call each (\<open>phase_step\<close>), so that in every
  interleaving a system of survivors is described by the phase of each (\<open>recovering\<close>).
\<close>

section \<open>Programs that post no partial decryption\<close>

fun permitted :: "thr_request \<Rightarrow> bool" where
  \<comment> \<open>requests that post no partial decryption of client 1\<close>
  "permitted (PartialCipherTextFromClient _ i) = (i \<noteq> 1)"
| "permitted (AbortsPartialCipherTextFromClient _ i j) = (\<not> (i = 1 \<and> j = 1))"
| "permitted _ = True"

fun silent :: "thr_request \<Rightarrow> bool" where
  \<comment> \<open>requests that post no partial decryption at all\<close>
  "silent (PartialCipherTextFromClient _ _) = False"
| "silent (AbortsPartialCipherTextFromClient _ _ _) = False"
| "silent _ = True"

lemma silent_permitted: "silent q \<Longrightarrow> permitted q"
  by (cases q) auto

coinductive quiet :: "'a thr_prog \<Rightarrow> bool" where
  "quiet (Ret r)"
| "silent q \<Longrightarrow> (\<And>r. quiet (k r)) \<Longrightarrow> quiet (Call q k)"

inductive_cases quiet_CallE: "quiet (Call q k)"

lemma quiet_pbind:
  assumes "quiet m" "\<And>x. quiet (f x)"
  shows "quiet (pbind m f)"
  using assms(1)
proof (coinduction arbitrary: m rule: quiet.coinduct)
  case (quiet m)
  show ?case
  proof (cases m)
    case (Ret r)
    show ?thesis
    proof (cases r)
      case (Inr x)
      with Ret assms(2) [of x] show ?thesis
        by (cases "f x") (auto elim: quiet_CallE)
    qed (simp add: Ret)
  next
    case (Call q k)
    with quiet show ?thesis by (auto elim: quiet_CallE)
  qed
qed

lemma quiet_Ret [intro, simp]: "quiet (Ret r)"
  by (rule quiet.intros)

lemma quiet_call_rpc [intro]: "silent q \<Longrightarrow> quiet (call_rpc q read)"
  by (auto simp: call_rpc_def intro: quiet.intros split: sum.split)

lemma quiet_ploop:
  assumes "quiet m" "\<And>s. quiet (body s)"
  shows "quiet (ploop body m)"
  using assms(1)
proof (coinduction arbitrary: m rule: quiet.coinduct)
  case (quiet m)
  show ?case
  proof (cases m)
    case (Ret r)
    show ?thesis
    proof (cases r)
      case (Inr x)
      show ?thesis
      proof (cases x)
        case (Inl s)
        have "quiet (body s)" by (rule assms(2))
        then show ?thesis
          using Ret Inr Inl by (cases "body s") (auto elim: quiet_CallE simp: ploop.code [of body "Ret (Inr (Inl s))"])
      qed (use Ret Inr in simp)
    qed (use Ret in simp)
  next
    case (Call q k)
    with quiet show ?thesis by (auto elim: quiet_CallE)
  qed
qed

lemma quiet_poll: "(\<And>s. quiet (stub s)) \<Longrightarrow> quiet (poll stub)"
  unfolding poll_def by (auto intro!: quiet_ploop quiet_pbind)

named_theorems stub_defs

lemmas [stub_defs] =
  c_CryptoContextFromServer_def c_PublicKeyFromClient_def c_PublicKeyToClient_def c_SecretSharesFromClient_def
  c_SecretSharesToClient_def c_evalMultKeyFromClient_def c_evalMixMultKeyFromClient_def c_evalMultKeyToClient_def
  c_evalMixMultKeyToClient_def c_evalSumKeyFromClient_def c_evalSumKeyToClient_def c_CipherTextFromClient_def
  c_CipherTextToClient_def c_PartialCipherTextsReceivedWait_def c_PartialCipherTextToClient_def
  c_AbortsPartialCipherTextToClients_def

lemma quiet_stubs [intro]:
  "quiet c_CryptoContextFromServer" "quiet (c_PublicKeyFromClient b i)" "quiet (c_PublicKeyToClient b i)"
  "quiet (c_SecretSharesFromClient b i)" "quiet (c_SecretSharesToClient b i j t n)" "quiet (c_evalMultKeyFromClient b i)"
  "quiet (c_evalMixMultKeyFromClient b i)" "quiet (c_evalMultKeyToClient b i)" "quiet (c_evalMixMultKeyToClient b i)"
  "quiet (c_evalSumKeyFromClient b i j)" "quiet (c_evalSumKeyToClient b i j)" "quiet (c_CipherTextFromClient b i)"
  "quiet (c_CipherTextToClient b i)" "quiet (c_PartialCipherTextsReceivedWait i)" "quiet (c_PartialCipherTextToClient b i)"
  "quiet (c_AbortsPartialCipherTextToClients b i j)"
  unfolding stub_defs by (rule quiet_call_rpc, simp)+

lemma quiet_checks [intro]: "quiet (received what f s)" "quiet (serialized what s)" "quiet (pguard b e)"
  by (auto simp: received_def serialized_def pguard_def)

lemmas quiet_intros = quiet_pbind quiet_poll quiet_stubs quiet_checks quiet_Ret

lemma quiet_get_context: "quiet (get_context L)"
  unfolding get_context_def by (auto intro!: quiet_intros split: option.split)

lemma quiet_joint_keygen: "quiet (joint_keygen L i N)"
  unfolding joint_keygen_def by (auto intro!: quiet_intros)

lemma quiet_send_shares: "quiet (send_shares L i N sk)"
  unfolding send_shares_def by (auto intro!: quiet_intros)

lemma quiet_evalmult_keys: "quiet (evalmult_keys L i N kp pk)"
  unfolding evalmult_keys_def first_evalmult_def second_evalmult_def by (auto intro!: quiet_intros simp: Let_def)

lemma quiet_evalsum_keys: "quiet (evalsum_keys L i N kp)"
  unfolding evalsum_keys_def by (auto intro!: quiet_intros simp: Let_def)

lemma quiet_collect_cts: "quiet (collect_cts L i own ids)"
  by (induction ids) (auto intro!: quiet_intros)

lemma quiet_exchange_cts: "quiet (exchange_cts L i N pk)"
  unfolding exchange_cts_def by (auto intro!: quiet_intros quiet_collect_cts)

section \<open>Programs that cannot finish\<close>

datatype own_flag = Unset | Set

fun plausible :: "u32 \<Rightarrow> own_flag \<Rightarrow> thr_request \<Rightarrow> string + thr_reply \<Rightarrow> bool" where
  \<comment> \<open>what a server that never got a partial decryption of client 1 can answer to client c; Set: c posted its own\<close>
  "plausible c b q (Inl msg) = True"
| "plausible c b (PartialCipherTextToClient i) (Inr p) = (i = 1 \<longrightarrow> p = TextReturn False [])"
| "plausible c b (AbortsPartialCipherTextToClients i j) (Inr p) = (i = 1 \<and> j = 1 \<longrightarrow> p = TextReturn False [])"
| "plausible c b (PartialCipherTextsReceivedWait i) (Inr p) = (i = c \<and> b = Set \<longrightarrow> p = FlagReturn True)"
| "plausible c b q (Inr p) = True"

fun flag_after :: "u32 \<Rightarrow> own_flag \<Rightarrow> thr_request \<Rightarrow> string + thr_reply \<Rightarrow> own_flag" where
  "flag_after c b (PartialCipherTextFromClient _ i) (Inr p) = (if i = c then Set else b)"
| "flag_after c b q r = b"

coinductive doomed :: "u32 \<Rightarrow> own_flag \<Rightarrow> 'a thr_prog \<Rightarrow> bool" for c where
  throws: "doomed c b (Ret (Inl e))"
| calls: "permitted q \<Longrightarrow> (\<And>r. plausible c b q r \<Longrightarrow> doomed c (flag_after c b q r) (k r)) \<Longrightarrow> doomed c b (Call q k)"

inductive_cases doomed_CallE: "doomed c b (Call q k)"
inductive_cases doomed_RetE: "doomed c b (Ret r)"

lemma silent_flag [simp]: "silent q \<Longrightarrow> flag_after c b q r = b"
  by (cases q; cases r) auto

lemma flag_after_failed [simp]: "flag_after c b q (Inl msg) = b"
  by (cases q) auto

lemma doomed_failed: "doomed c b (Call q k) \<Longrightarrow> doomed c b (k (Inl msg))"
  by (erule doomed_CallE) (metis flag_after_failed plausible.simps(1))

lemma doomed_call:
  assumes "permitted q"
    and "\<And>p. plausible c b q (Inr p) \<Longrightarrow>
      doomed c (flag_after c b q (Inr p)) (case read p of Inl e \<Rightarrow> Ret (Inl e) | Inr x \<Rightarrow> f x)"
  shows "doomed c b (pbind (call_rpc q read) f)"
proof -
  have "doomed c (flag_after c b q r) (pbind (case r of Inl msg \<Rightarrow> Ret (Inl (Openfhe_error msg)) | Inr p \<Rightarrow> Ret (read p)) f)"
    if "plausible c b q r" for r
  proof (cases r)
    case (Inr p)
    with assms(2) [of p] that show ?thesis by (cases "read p") (auto intro: throws)
  qed (simp add: throws)
  then show ?thesis using assms(1) by (simp add: call_rpc_def calls)
qed

lemma doomed_after_quiet:
  assumes "quiet m" "\<And>x. doomed c b (f x)"
  shows "doomed c b (pbind m f)"
  using assms(1)
proof (coinduction arbitrary: m rule: doomed.coinduct)
  case (doomed m)
  show ?case
  proof (cases m)
    case (Ret r)
    show ?thesis
    proof (cases r)
      case (Inr x)
      with Ret assms(2) [of x] show ?thesis
        by (cases "f x") (auto elim: doomed_CallE doomed_RetE)
    qed (simp add: Ret)
  next
    case (Call q k)
    with doomed have "silent q" "\<And>r. quiet (k r)" by (auto elim: quiet_CallE)
    then show ?thesis using Call silent_permitted silent_flag by auto
  qed
qed

lemma doomed_pbind:
  assumes "doomed c b m"
  shows "doomed c b (pbind m f)"
  using assms
proof (coinduction arbitrary: b m rule: doomed.coinduct)
  case (doomed b m)
  then show ?case
    by (cases m) (auto elim: doomed_CallE doomed_RetE)
qed

lemma doomed_poll_aborts: "doomed c b (poll (\<lambda>s. c_AbortsPartialCipherTextToClients s 1 1))"
proof -
  let ?read = "\<lambda>s reply. case reply of TextReturn available value \<Rightarrow> Inr (available, if available then value else s)
    | _ \<Rightarrow> wrong_reply"
  have l: "poll (\<lambda>s. c_AbortsPartialCipherTextToClients s 1 1) = poll_from (AbortsPartialCipherTextToClients 1 1) ?read []"
    unfolding c_AbortsPartialCipherTextToClients_def poll_eq ..
  have "doomed c b (poll_from (AbortsPartialCipherTextToClients 1 1) ?read [])"
  proof (coinduction rule: doomed.coinduct)
    case doomed
    show ?case
      by (subst poll_from_unfold) (auto split: sum.split intro: doomed.intros)
  qed
  then show ?thesis by (simp only: l)
qed

lemma doomed_ploop:
  assumes "doomed c b m"
  shows "doomed c b (ploop body m)"
  using assms
proof (coinduction arbitrary: b m rule: doomed.coinduct)
  case (doomed b m)
  then show ?case
    by (cases m) (auto elim: doomed_CallE doomed_RetE)
qed

text \<open>The loop that waits for client 1's partial decryption, in the state before each of its two calls.\<close>

definition second_call where
  "second_call L c N ct s ctr =
     pbind (c_PartialCipherTextsReceivedWait 1) (\<lambda>PartialCTRecd.
       if (ctr + 1) * ABORTS_SLEEP_TIME_MSECS > TIME_OUT \<and> \<not> PartialCTRecd
       then pbind (recover_partial L c N ct 1 s) (\<lambda>s2. pret (Inr s2))
       else pret (Inl (s, ctr + 1)))"

lemma wait_first:
  "\<exists>k. ploop (wait_round L c N ct 1) (Ret (Inr (Inl (s, ctr)))) = Call (PartialCipherTextToClient 1) k
    \<and> (\<forall>msg. k (Inl msg) = Ret (Inl (Openfhe_error msg)))
    \<and> k (Inr (TextReturn False [])) = ploop (wait_round L c N ct 1) (second_call L c N ct s ctr)"
  by (subst ploop.code) (simp add: wait_round_def c_PartialCipherTextToClient_def call_rpc_def second_call_def)

lemma wait_second:
  assumes "c \<noteq> 1"
  shows "\<exists>k. ploop (wait_round L c N ct 1) (second_call L c N ct s ctr) = Call (PartialCipherTextsReceivedWait 1) k
    \<and> (\<forall>r. doomed c b (k r) \<or> (\<exists>ctr. k r = ploop (wait_round L c N ct 1) (Ret (Inr (Inl (s, ctr))))))"
proof -
  define kk where "kk = (\<lambda>r. ploop (wait_round L c N ct 1) (pbind (case r of Inl msg \<Rightarrow> Ret (Inl (Openfhe_error msg))
      | Inr p \<Rightarrow> Ret (case p of FlagReturn textavailable \<Rightarrow> Inr textavailable | _ \<Rightarrow> wrong_reply))
    (\<lambda>PartialCTRecd. if (ctr + 1) * ABORTS_SLEEP_TIME_MSECS > TIME_OUT \<and> \<not> PartialCTRecd
       then pbind (recover_partial L c N ct 1 s) (\<lambda>s2. pret (Inr s2))
       else pret (Inl (s, ctr + 1)))))"
  have "ploop (wait_round L c N ct 1) (second_call L c N ct s ctr) = Call (PartialCipherTextsReceivedWait 1) kk"
    by (simp add: second_call_def c_PartialCipherTextsReceivedWait_def call_rpc_def kk_def)
  moreover have "doomed c b (ploop (wait_round L c N ct 1) (pbind (recover_partial L c N ct 1 s) (\<lambda>s2. Ret (Inr (Inr s2)))))"
    using assms by (auto intro!: doomed_ploop doomed_pbind doomed_poll_aborts simp: recover_partial_def recovering_client_id_def)
  then have "doomed c b (kk r) \<or> (\<exists>ctr. kk r = ploop (wait_round L c N ct 1) (Ret (Inr (Inl (s, ctr)))))" for r
    by (auto simp: kk_def wrong_reply_def intro: throws split: sum.split thr_reply.split)
  ultimately show ?thesis by blast
qed

lemma doomed_wait:
  assumes "c \<noteq> 1"
  shows "doomed c b (ploop (wait_round L c N ct 1) (Ret (Inr (Inl (s, ctr)))))"
proof -
  let ?W = "\<lambda>s ctr. ploop (wait_round L c N ct 1) (Ret (Inr (Inl (s, ctr))))"
  let ?V = "\<lambda>s ctr. ploop (wait_round L c N ct 1) (second_call L c N ct s ctr)"
  have "doomed c b m" if "(\<exists>s ctr. m = ?W s ctr) \<or> (\<exists>s ctr. m = ?V s ctr)" for m
    using that
  proof (coinduction arbitrary: m rule: doomed.coinduct)
    case (doomed m)
    then show ?case
    proof (elim disjE exE)
      fix s ctr assume m: "m = ?W s ctr"
      from wait_first [of L c N ct s ctr] obtain k where
        "?W s ctr = Call (PartialCipherTextToClient 1) k" "\<And>msg. k (Inl msg) = Ret (Inl (Openfhe_error msg))"
        "k (Inr (TextReturn False [])) = ?V s ctr" by blast
      with m have "plausible c b (PartialCipherTextToClient 1) r \<Longrightarrow> doomed c b (k r) \<or> (\<exists>s ctr. k r = ?V s ctr)" for r
        by (cases r) (auto intro: throws)
      with m \<open>?W s ctr = _\<close> show ?thesis by auto
    next
      fix s ctr assume m: "m = ?V s ctr"
      from wait_second [OF assms, of L N ct s ctr b] obtain k where
        k: "?V s ctr = Call (PartialCipherTextsReceivedWait 1) k"
        "\<And>r. doomed c b (k r) \<or> (\<exists>ctr. k r = ?W s ctr)" by blast
      then have "doomed c b (k r) \<or> (\<exists>s ctr. k r = ?W s ctr)" for r by blast
      with m k(1) show ?thesis by auto
    qed
  qed
  then show ?thesis by blast
qed

lemma doomed_get_partial:
  assumes "c \<noteq> 1"
  shows "doomed c b (get_partial L c N ct 1)"
  unfolding get_partial_def c_PartialCipherTextToClient_def pret_def
  by (rule doomed_call) (auto intro!: doomed_pbind doomed_wait [OF assms])

lemma party_ids_first: "N \<noteq> 0 \<Longrightarrow> \<exists>is. party_ids N = 1 # is"
proof -
  assume "N \<noteq> 0"
  then have "0 < unat N" by (simp add: unat_gt_0)
  then have "[1..<Suc (unat N)] = 1 # [2..<Suc (unat N)]" by (simp add: upt_conv_Cons numeral_2_eq_2 del: upt_Suc)
  then show ?thesis by (simp add: party_ids_def del: upt_Suc)
qed

lemma doomed_collect:
  assumes "c \<noteq> 1" "N \<noteq> 0"
  shows "doomed c b (collect_partials L c N ct own (party_ids N))"
  using party_ids_first [OF assms(2)] assms(1) by (auto simp del: pbind_simps intro!: doomed_pbind doomed_get_partial)

lemma doomed_decrypt:
  assumes "c \<noteq> 1" "N \<noteq> 0"
  shows "doomed c b (decrypt L c N sk ct)"
proof -
  define own where "own = (if c = 1 then MultipartyDecryptLead L [ct] sk else MultipartyDecryptMain L [ct] sk)"
  have "doomed c b (pbind (c_PartialCipherTextFromClient os c) (\<lambda>_.
      pbind (c_PartialCipherTextsReceivedWait c) (\<lambda>PartialCTSent.
      pbind (if PartialCTSent then collect_partials L c N ct own (party_ids N) else pret (replicate (unat N) None)) (\<lambda>v.
        pret (MultipartyDecryptFusion L v)))))" (is "doomed c b (pbind _ (\<lambda>_. ?rest))") for os
  proof -
    have rest: "doomed c Set ?rest"
      unfolding c_PartialCipherTextsReceivedWait_def
      by (rule doomed_call) (auto intro!: doomed_pbind doomed_collect [OF assms])
    show ?thesis
      unfolding c_PartialCipherTextFromClient_def
      by (rule doomed_call) (use assms rest in \<open>auto intro: throws split: thr_reply.split simp: wrong_reply_def\<close>)
  qed
  then show ?thesis
    unfolding decrypt_def own_def [symmetric] Let_def by (rule doomed_after_quiet [OF quiet_checks(2)])
qed

lemma doomed_client:
  assumes "N \<noteq> 0" "c = 1 \<Longrightarrow> ab = 1"
  shows "doomed c b (thresh_client L c N ab op)"
proof -
  have rest: "doomed c b (pbind (if ab = 1 then pthrow e else pret ()) (\<lambda>_. pbind (plift r) (\<lambda>ct. decrypt L c N sk ct)))" for e r sk
  proof (cases "ab = 1")
    case False
    then have "c \<noteq> 1" using assms(2) by blast
    with False assms(1) show ?thesis by (cases r) (auto intro: throws doomed_decrypt)
  qed (auto intro: throws)
  have "quiet (if b then m else pret x)" if "quiet m" for b m and x :: 'x
    using that by simp
  note q = this [OF quiet_evalmult_keys] this [OF quiet_evalsum_keys]
  show ?thesis
    unfolding thresh_client_def
    by (rule rest | rule quiet_get_context quiet_joint_keygen quiet_send_shares q quiet_exchange_cts
        | rule doomed_after_quiet | simp only: split_beta)+
qed

section \<open>The system cannot finish without client 1\<close>

lemma permitted_step:
  assumes h: "thr_handler L q s = (Inr p, s')" and q: "permitted q"
    and s: "pct_look 1 s = []" "apct_look (1, 1) s = []" "b = Set \<longrightarrow> flag_look c s"
  shows "plausible c b q (Inr p)" "pct_look 1 s' = []" "apct_look (1, 1) s' = []"
    "flag_after c b q (Inr p) = Set \<longrightarrow> flag_look c s'" "flag_look d s \<Longrightarrow> flag_look d s'"
proof -
  show "pct_look 1 s' = []"
    using pct.step [OF h, of 1] q s by (cases q) (auto simp: pct_posts_def split: sum.splits)
  show "apct_look (1, 1) s' = []"
    using apct.step [OF h, of "(1, 1)"] q s by (cases q) (auto simp: apct_posts_def split: sum.splits)
  show "flag_look d s \<Longrightarrow> flag_look d s'"
    using flag.step [OF h, of d] by (auto simp: flag_posts_def split: option.splits thr_request.splits)
  show "flag_after c b q (Inr p) = Set \<longrightarrow> flag_look c s'"
    using flag.step [OF h, of c] s(3) by (cases q) (auto simp: flag_posts_def)
  show "plausible c b q (Inr p)"
  proof (cases q)
    case (PartialCipherTextToClient i)
    then show ?thesis using pct.reply [of L i s p s'] h s(1) by (auto simp: cts_answer_def)
  next
    case (AbortsPartialCipherTextToClients i j)
    then show ?thesis using apct.reply [of L "(i, j)" s p s'] h s(2) by (auto simp: cts_answer_def)
  next
    case (PartialCipherTextsReceivedWait i)
    then show ?thesis using flag.reply [of L i s p s'] h s(3) by (auto simp: cts_answer_def)
  qed simp_all
qed

definition blocked ::
  "('i \<Rightarrow> u32) \<Rightarrow> ('i, thr_request, thr_reply, 'a, ('cc, 'ct, 'poly) thr_state) sys \<Rightarrow> bool" where
  "blocked ids y \<longleftrightarrow>
     (\<forall>i m. progs y i = Some m \<longrightarrow> (\<exists>b. doomed (ids i) b m \<and> (alive y \<longrightarrow> b = Set \<longrightarrow> flag_look (ids i) (srv y))))
   \<and> (alive y \<longrightarrow> pct_look 1 (srv y) = [] \<and> apct_look (1, 1) (srv y) = [])"

lemma blocked_step:
  assumes "blocked ids y" "sys_step (thr_handler L) y z"
  shows "blocked ids z"
  using assms(2)
proof cases
  case (answered c q k p s')
  have s: "pct_look 1 (srv y) = []" "apct_look (1, 1) (srv y) = []" using assms(1) answered(3) by (auto simp: blocked_def)
  obtain b where b: "doomed (ids c) b (Call q k)" "b = Set \<longrightarrow> flag_look (ids c) (srv y)"
    using assms(1) answered(2,3) by (auto simp: blocked_def)
  from b(1) have q: "permitted q" "\<And>r. plausible (ids c) b q r \<Longrightarrow> doomed (ids c) (flag_after (ids c) b q r) (k r)"
    by (auto elim: doomed_CallE)
  note st = permitted_step [OF answered(4) q(1) s b(2)]
  have P: "\<exists>b. doomed (ids i) b m \<and> (b = Set \<longrightarrow> flag_look (ids i) s')" if "progs z i = Some m" for i m
  proof (cases "i = c")
    case True
    then show ?thesis using that answered(1) q(2) [OF st(1)] st(4) by auto
  next
    case False
    then have "progs y i = Some m" using that answered(1) by simp
    then obtain b' where "doomed (ids i) b' m" "b' = Set \<longrightarrow> flag_look (ids i) (srv y)"
      using assms(1) answered(3) by (auto simp: blocked_def)
    then show ?thesis using st(5) by blast
  qed
  have z: "srv z = s'" "alive z" using answered(1,3) by simp_all
  show ?thesis unfolding blocked_def z(1) using P st(2,3) by blast
next
  case (crashed c q k e s' msg)
  have "\<exists>b. doomed (ids i) b m" if "progs z i = Some m" for i m
  proof (cases "i = c")
    case True
    obtain b where "doomed (ids c) b (Call q k)" using assms(1) crashed(2) by (auto simp: blocked_def)
    then show ?thesis using that True crashed(1) doomed_failed by fastforce
  next
    case False
    then have "progs y i = Some m" using that crashed(1) by simp
    then show ?thesis using assms(1) by (auto simp: blocked_def)
  qed
  then show ?thesis using crashed(1) by (simp add: blocked_def)
next
  case (refused c q k msg)
  have "\<exists>b. doomed (ids i) b m" if "progs z i = Some m" for i m
  proof (cases "i = c")
    case True
    obtain b where "doomed (ids c) b (Call q k)" using assms(1) refused(2) by (auto simp: blocked_def)
    then show ?thesis using that True refused(1) doomed_failed by fastforce
  next
    case False
    then have "progs y i = Some m" using that refused(1) by simp
    then show ?thesis using assms(1) by (auto simp: blocked_def)
  qed
  then show ?thesis using refused by (simp add: blocked_def)
qed

lemma blocked_start:
  "(\<And>i. doomed (ids i) Unset (f i)) \<Longrightarrow> blocked ids (system (\<lambda>i. Some (f i)) (thr_state0 c))"
  by (auto simp: blocked_def intro!: exI [of _ Unset])

text \<open>C16: a dropped client 1 is not recovered. Clients run the whole program on a fresh server, interleaved
  in any way; when every client with id 1 aborts (as the option -a asks for), no client, whatever its id, its
  operation and the number of parties, ever ends with a result: client 1 is the only one to compute
  the partial decryption of a dropped client, its own included.\<close>

theorem client_1_not_recovered:
  assumes "N \<noteq> 0" "\<And>i. ids i = 1 \<Longrightarrow> ab i = 1"
    and "sys_reach (thr_handler L) (system (\<lambda>i. Some (thresh_client (Ls i) (ids i) N (ab i) (op i))) (thr_state0 c)) y"
    and "progs y i = Some (Ret r)"
  shows "\<exists>e. r = Inl e"
proof -
  from assms(3) have "blocked ids y"
  proof (induction rule: sys_reach_induct)
    case start
    show ?case
      by (intro blocked_start doomed_client) (use assms(1,2) in blast)+
  next
    case (step u v)
    then show ?case using blocked_step by blast
  qed
  then obtain b where "doomed (ids i) b (Ret r)" using assms(4) unfolding blocked_def by blast
  then show ?thesis by (auto elim: doomed_RetE)
qed

section \<open>Recovering any other client\<close>

definition recovery_ok ::
  "('cc, 'ct, 'poly) thr_lib \<Rightarrow> bool" where
  \<comment> \<open>shares and ciphertext vectors are serialised as something and read back\<close>
  "recovery_ok S \<longleftrightarrow> (\<forall>v. ser_cts S v \<noteq> [] \<and> deser_cts S (ser_cts S v) = Inr v)
     \<and> (\<forall>m. ser_shares S m \<noteq> [] \<and> deser_shares S (ser_shares S m) = Inr m)"

definition dropped :: "u32 \<Rightarrow> ('cc, 'ct, 'poly) thr_state \<Rightarrow> bool" where
  \<comment> \<open>client i never posted its partial decryption\<close>
  "dropped i s \<longleftrightarrow> pct_look i s = [] \<and> \<not> flag_look i s"

definition recovered_partial ::
  "('cc, 'pk, 'sk, 'ek, 'es, 'ct, 'poly, 'pt) client_lib \<Rightarrow> u32 \<Rightarrow> 'ct option \<Rightarrow> u32 \<Rightarrow> (u32 \<rightharpoonup> 'poly) \<Rightarrow> 'ct option list" where
  "recovered_partial L N ct i ss = MultipartyDecryptMain L [ct]
     (RecoverSharedKey L (shares_sent (poly0 (cl_thr L)) i (thresh_of N) N ss) N (thresh_of N))"

lemma asked_partial:
  assumes "pct_look i s = []"
  shows "\<exists>s'. thr_handler S (PartialCipherTextToClient i) s = (Inr (TextReturn False []), s')
    \<and> pct_look i s' = [] \<and> (\<forall>j. flag_look j s' = flag_look j s) \<and> (\<forall>j. sh_look j s' = sh_look j s) \<and> (\<forall>k. apct_look k s' = apct_look k s)"
proof -
  obtain p s' where h: "thr_handler S (PartialCipherTextToClient i) s = (Inr p, s')"
    using assms by (auto simp: thr_step pct_look_def)
  then show ?thesis
    using pct.reply [OF h] pct.step [OF h] flag.step [OF h] sh.step [OF h] apct.step [OF h] assms
    by (simp add: cts_answer_def pct_posts_def flag_posts_def sh_posts_def apct_posts_def)
qed

lemma asked_flag:
  "\<exists>s'. thr_handler S (PartialCipherTextsReceivedWait i) s = (Inr (FlagReturn (flag_look i s)), s')
    \<and> (\<forall>j. pct_look j s' = pct_look j s) \<and> (\<forall>j. flag_look j s' = flag_look j s) \<and> (\<forall>j. sh_look j s' = sh_look j s) \<and> (\<forall>k. apct_look k s' = apct_look k s)"
proof -
  obtain p s' where h: "thr_handler S (PartialCipherTextsReceivedWait i) s = (Inr p, s')"
    by (auto simp: thr_step)
  then show ?thesis
    using flag.reply [OF h] pct.step [OF h] flag.step [OF h] sh.step [OF h] apct.step [OF h]
    by (simp add: pct_posts_def flag_posts_def sh_posts_def apct_posts_def)
qed

lemma share_ids_nonempty:
  assumes "2 \<le> unat N" "unat N < 2 ^ 32 - 1"
  shows "share_ids i (thresh_of N) N \<noteq> []"
proof -
  define j :: u32 where "j = (if i = 1 then 2 else 1)"
  have "unat (N div 2) < 2 ^ 31" using unsigned_less [of N, where ?'a = nat] by (simp add: unat_div)
  then have "unat (thresh_of N) = unat (N div 2) + 1"
    by (simp add: thresh_of_def unat_word_ariths)
  then obtain m where t: "unat (thresh_of N) = Suc m" by simp
  have "j \<in> of_nat ` {1..unat N}"
    using assms(1) by (cases "i = 1") (auto simp: j_def image_iff intro: bexI [of _ 1] bexI [of _ 2])
  then have "j \<in> set (filter (\<lambda>j. j \<noteq> i) (map of_nat [1..<Suc (unat N)]))"
    by (auto simp: j_def atLeastLessThanSuc_atLeastAtMost simp del: upt_Suc)
  then have "filter (\<lambda>j. j \<noteq> i) (map of_nat [1..<Suc (unat N)]) \<noteq> []" by (metis empty_iff list.set(1))
  then show ?thesis by (simp add: share_ids_def t del: upt_Suc)
qed

lemma shares_asked:
  assumes "recovery_ok S" "2 \<le> unat N" "unat N < 2 ^ 32 - 1"
  shows "\<exists>s'. thr_handler S (SecretSharesToClient a i (thresh_of N) N) s
      = (Inr (SharesReturn True (ser_shares S (shares_sent (poly0 S) i (thresh_of N) N (sh_look i s)))), s')"
proof -
  obtain j js where "share_ids i (thresh_of N) N = j # js"
    using share_ids_nonempty [OF assms(2,3), of i] by (cases "share_ids i (thresh_of N) N") auto
  then have "shares_sent (poly0 S) i (thresh_of N) N ss j \<noteq> None" for ss by (simp add: shares_sent_def)
  then have "shares_sent (poly0 S) i (thresh_of N) N ss \<noteq> Map.empty" for ss by metis
  then show ?thesis
    using assms(1,3) by (simp add: thr_step share_loop_spec sh_look_def recovery_ok_def)
qed

text \<open>A survivor that waits for client i goes through these phases, one call each: its first question, then up to 101 rounds of
  asking for the partial decryption and check_sent whether it was sent, then the recovery, which for client 1 is asking for the
  shares and posting, and for the others polling.\<close>

datatype phase = First | Asking nat | Checking nat | Recovering | Posting | Done

definition finish_partial ::
  "('cc, 'pk, 'sk, 'ek, 'es, 'ct, 'poly, 'pt) client_lib \<Rightarrow> bytes \<Rightarrow> 'ct option thr_prog" where
  "finish_partial L ser =
     pbind (received ''mult partial cipher text result'' (deser_cts (cl_thr L)) ser) (\<lambda>ciphertextPartial1.
     pbind (plift (at ''ciphertextPartial1'' ciphertextPartial1 0)) (\<lambda>c.
       if c = None then pthrow (Deserialize_error ''De-serialized mult partial ciphertext is NULL'') else pret c))"

definition check_sent ::
  "('cc, 'pk, 'sk, 'ek, 'es, 'ct, 'poly, 'pt) client_lib \<Rightarrow> u32 \<Rightarrow> u32 \<Rightarrow> 'ct option \<Rightarrow> u32 \<Rightarrow> bool \<times> bytes \<Rightarrow> u32
   \<Rightarrow> ((bytes \<times> u32) + bytes) thr_prog" where
  "check_sent L c N ct i = (\<lambda>(recd, s1) ctr. pbind (c_PartialCipherTextsReceivedWait i) (\<lambda>PartialCTRecd.
     if (ctr + 1) * ABORTS_SLEEP_TIME_MSECS > TIME_OUT \<and> \<not> PartialCTRecd
     then pbind (recover_partial L c N ct i s1) (\<lambda>s2. pret (Inr s2))
     else pret (if recd then Inr s1 else Inl (s1, ctr + 1))))"

definition waiting ::
  "('cc, 'pk, 'sk, 'ek, 'es, 'ct, 'poly, 'pt) client_lib \<Rightarrow> u32 \<Rightarrow> u32 \<Rightarrow> 'ct option \<Rightarrow> u32
   \<Rightarrow> ((bytes \<times> u32) + bytes) thr_prog \<Rightarrow> 'ct option thr_prog" where
  "waiting L c N ct i m = pbind (ploop (wait_round L c N ct i) m) (finish_partial L)"

fun prog_at ::
  "('cc, 'pk, 'sk, 'ek, 'es, 'ct, 'poly, 'pt) client_lib \<Rightarrow> u32 \<Rightarrow> u32 \<Rightarrow> 'ct option \<Rightarrow> u32 \<Rightarrow> 'ct option list \<Rightarrow> phase
   \<Rightarrow> 'ct option thr_prog" where
  \<comment> \<open>what is left of the program of client c; v is the partial decryption that client 1 recovers\<close>
  "prog_at L c N ct i v First = get_partial L c N ct i"
| "prog_at L c N ct i v (Asking n) = waiting L c N ct i (Ret (Inr (Inl ([], of_nat n))))"
| "prog_at L c N ct i v (Checking n) = waiting L c N ct i (check_sent L c N ct i (False, []) (of_nat n))"
| "prog_at L c N ct i v Recovering = waiting L c N ct i (pbind (recover_partial L c N ct i []) (\<lambda>s2. Ret (Inr (Inr s2))))"
| "prog_at L c N ct i v Posting = waiting L c N ct i
     (pbind (pbind (c_AbortsPartialCipherTextFromClient (ser_cts (cl_thr L) v) recovering_client_id i)
       (\<lambda>_. Ret (Inr (ser_cts (cl_thr L) v)))) (\<lambda>s2. Ret (Inr (Inr s2))))"
| "prog_at L c N ct i v Done = Ret (Inr (hd v))"

fun next_phase :: "u32 \<Rightarrow> bool \<Rightarrow> phase \<Rightarrow> phase" where
  \<comment> \<open>of client c; posted: client 1 has posted the recovered partial decryption\<close>
  "next_phase c posted First = Asking 0"
| "next_phase c posted (Asking n) = Checking n"
| "next_phase c posted (Checking n) = (if n < 100 then Asking (Suc n) else Recovering)"
| "next_phase c posted Recovering = (if c = 1 then Posting else if posted then Done else Recovering)"
| "next_phase c posted Posting = Done"
| "next_phase c posted Done = Done"

fun phase_ok :: "u32 \<Rightarrow> phase \<Rightarrow> bool" where
  "phase_ok c (Asking n) = (n \<le> 100)"
| "phase_ok c (Checking n) = (n \<le> 100)"
| "phase_ok c Posting = (c = 1)"
| "phase_ok c _ = True"

fun calls_left :: "u32 \<Rightarrow> phase \<Rightarrow> nat" where
  "calls_left c First = 2 * 101 + 1 + (if c = 1 then 2 else 1)"
| "calls_left c (Asking n) = 2 * (101 - n) + (if c = 1 then 2 else 1)"
| "calls_left c (Checking n) = 2 * (100 - n) + 1 + (if c = 1 then 2 else 1)"
| "calls_left c Recovering = (if c = 1 then 2 else 1)"
| "calls_left c Posting = 1"
| "calls_left c Done = 0"

lemma phase_ok_next: "phase_ok c ph \<Longrightarrow> phase_ok c (next_phase c posted ph)"
  by (cases ph) auto

lemma calls_left_next:
  assumes "phase_ok c ph" "ph \<noteq> Done"
  shows "calls_left c ph \<le> Suc (calls_left c (next_phase c posted ph))"
    "posted \<or> c = 1 \<Longrightarrow> calls_left c (next_phase c posted ph) < calls_left c ph"
  using assms by (cases ph; auto)+

definition awaited :: "u32 \<Rightarrow> (u32 \<rightharpoonup> 'poly) \<Rightarrow> 'ct option list \<Rightarrow> ('cc, 'ct, 'poly) thr_state \<Rightarrow> bool" where
  \<comment> \<open>client i never posted, its shares are sh, and no other recovered partial decryption than v was posted for it\<close>
  "awaited i sh v s \<longleftrightarrow> dropped i s \<and> sh_look i s = sh \<and> apct_look (1, i) s \<in> {[], v}"

definition advances ::
  "('cc, 'ct, 'poly) thr_lib \<Rightarrow> 'a thr_prog \<Rightarrow> ('cc, 'ct, 'poly) thr_state \<Rightarrow> 'a thr_prog \<Rightarrow> ('cc, 'ct, 'poly) thr_state \<Rightarrow> bool" where
  \<comment> \<open>one call, answered\<close>
  "advances S m s m' s' \<longleftrightarrow> (\<exists>q k r. m = Call q k \<and> thr_handler S q s = (Inr r, s') \<and> k (Inr r) = m')"

lemma advances_call:
  assumes "thr_handler S q s = (Inr r, s')" "m' = pbind (Ret (read r)) f"
  shows "advances S (pbind (call_rpc q read) f) s m' s'"
  using assms by (simp add: advances_def call_rpc_def)

lemma advances_pbind: "advances S m s m' s' \<Longrightarrow> advances S (pbind m f) s (pbind m' f) s'"
  by (auto simp: advances_def)

lemma advances_ploop: "advances S m s m' s' \<Longrightarrow> advances S (ploop body m) s (ploop body m') s'"
  by (auto simp: advances_def)

lemma advances_round:
  assumes "advances S (body x) s m' s'"
  shows "advances S (ploop body (Ret (Inr (Inl x)))) s (ploop body m') s'"
  using assms by (auto simp: advances_def ploop_round)

lemma advances_waiting: "advances S m s m' s' \<Longrightarrow> advances S (waiting L c N ct i m) s (waiting L c N ct i m') s'"
  unfolding waiting_def by (intro advances_pbind advances_ploop)

lemma first_call:
  assumes "dropped i s"
  shows "\<exists>s'. advances S (get_partial L c N ct i) s (waiting L c N ct i (Ret (Inr (Inl ([], of_nat 0))))) s'
    \<and> (awaited i sh v s \<longrightarrow> awaited i sh v s') \<and> apct_look (1, i) s' = apct_look (1, i) s"
proof -
  obtain s' where s': "thr_handler S (PartialCipherTextToClient i) s = (Inr (TextReturn False []), s')"
    "awaited i sh v s \<longrightarrow> awaited i sh v s'" "apct_look (1, i) s' = apct_look (1, i) s"
    using asked_partial [of i s S] assms by (auto simp: dropped_def awaited_def)
  have "advances S (get_partial L c N ct i) s (pbind (Ret (Inr (False, []))) (\<lambda>(PartialCipherTextRecd, t).
      pbind (if PartialCipherTextRecd then pret t else ploop (wait_round L c N ct i) (pret (Inl (t, 0)))) (finish_partial L))) s'"
    unfolding get_partial_def c_PartialCipherTextToClient_def finish_partial_def [abs_def]
    by (rule advances_call [OF s'(1)]) simp
  then show ?thesis using s'(2,3) by (auto simp: waiting_def)
qed

lemma ask_call:
  assumes "dropped i s"
  shows "\<exists>s'. advances S (waiting L c N ct i (Ret (Inr (Inl ([], ctr))))) s (waiting L c N ct i (check_sent L c N ct i (False, []) ctr)) s'
    \<and> (awaited i sh v s \<longrightarrow> awaited i sh v s') \<and> apct_look (1, i) s' = apct_look (1, i) s"
proof -
  obtain s' where s': "thr_handler S (PartialCipherTextToClient i) s = (Inr (TextReturn False []), s')"
    "awaited i sh v s \<longrightarrow> awaited i sh v s'" "apct_look (1, i) s' = apct_look (1, i) s"
    using asked_partial [of i s S] assms by (auto simp: dropped_def awaited_def)
  have "advances S (wait_round L c N ct i ([], ctr)) s (check_sent L c N ct i (False, []) ctr) s'"
    unfolding wait_round_def c_PartialCipherTextToClient_def prod.case
    by (rule advances_call [OF s'(1)]) (simp add: check_sent_def)
  then show ?thesis
    using s'(2,3) unfolding waiting_def by (blast intro: advances_pbind advances_round)
qed

lemma check_call:
  assumes "dropped i s" "n \<le> 100"
  shows "\<exists>s'. advances S (prog_at L c N ct i v (Checking n)) s (prog_at L c N ct i v (next_phase c b (Checking n))) s'
    \<and> (awaited i sh v s \<longrightarrow> awaited i sh v s') \<and> apct_look (1, i) s' = apct_look (1, i) s"
proof -
  obtain s' where s': "thr_handler S (PartialCipherTextsReceivedWait i) s = (Inr (FlagReturn False), s')"
    "awaited i sh v s \<longrightarrow> awaited i sh v s'" "apct_look (1, i) s' = apct_look (1, i) s"
    using asked_flag [of S i s] assms(1) by (auto simp: dropped_def awaited_def)
  have "unat ((of_nat n + 1 :: u32) * 10) = (n + 1) * 10"
    using assms(2) by (simp add: unat_word_ariths unat_of_nat)
  then have timeout: "(of_nat n + 1 :: u32) * ABORTS_SLEEP_TIME_MSECS > TIME_OUT \<longleftrightarrow> \<not> n < 100"
    by (auto simp: word_less_nat_alt ABORTS_SLEEP_TIME_MSECS_def TIME_OUT_def)
  have "advances S (check_sent L c N ct i (False, []) (of_nat n)) s
      (if n < 100 then Ret (Inr (Inl ([], of_nat n + 1))) else pbind (recover_partial L c N ct i []) (\<lambda>s2. Ret (Inr (Inr s2)))) s'"
    unfolding check_sent_def c_PartialCipherTextsReceivedWait_def prod.case
    by (rule advances_call [OF s'(1)]) (simp add: timeout)
  from advances_waiting [OF this, of L c N ct i] show ?thesis using s'(2,3) by (auto simp: add.commute split: if_splits)
qed

lemma recover_call_1:
  assumes "recovery_ok (cl_thr L)" "2 \<le> unat N" "unat N < 2 ^ 32 - 1" "dropped i s"
    and "recovered_partial L N ct i (sh_look i s) = v"
  shows "\<exists>s'. advances (cl_thr L) (prog_at L 1 N ct i v Recovering) s (prog_at L 1 N ct i v Posting) s'
    \<and> (awaited i sh v s \<longrightarrow> awaited i sh v s') \<and> apct_look (1, i) s' = apct_look (1, i) s"
proof -
  let ?S = "cl_thr L"
  obtain s' where s': "thr_handler ?S (SecretSharesToClient 1 i (thresh_of N) N) s
      = (Inr (SharesReturn True (ser_shares ?S (shares_sent (poly0 ?S) i (thresh_of N) N (sh_look i s)))), s')"
    using shares_asked [OF assms(1-3)] by blast
  have "sh_look i s' = sh_look i s"
    using sh.step [OF s', of i] by (simp add: sh_posts_def)
  moreover have "apct_look (1, i) s' = apct_look (1, i) s" "dropped i s'"
    using apct.step [OF s', of "(1, i)"] pct.step [OF s', of i] flag.step [OF s', of i] assms(4)
    by (simp_all add: apct_posts_def pct_posts_def flag_posts_def dropped_def)
  moreover have "advances ?S (recover_partial L 1 N ct i []) s
      (pbind (c_AbortsPartialCipherTextFromClient (ser_cts ?S v) recovering_client_id i) (\<lambda>_. Ret (Inr (ser_cts ?S v)))) s'"
    unfolding recover_partial_def recovering_client_id_def c_SecretSharesToClient_def simp_thms if_True
    by (rule advances_call [OF s'], use assms(1) in
        \<open>simp add: recovery_ok_def recovered_partial_def serialized_def pguard_def Let_def flip: assms(5)\<close>)
  from advances_waiting [OF advances_pbind [OF this], of L 1 N ct i "\<lambda>s2. Ret (Inr (Inr s2))"]
  have "advances ?S (prog_at L 1 N ct i v Recovering) s (prog_at L 1 N ct i v Posting) s'"
    by simp
  ultimately show ?thesis by (auto simp: awaited_def)
qed

lemma finish_partial_value:
  assumes "recovery_ok (cl_thr L)" "v = Some p # rest"
  shows "finish_partial L (ser_cts (cl_thr L) v) = Ret (Inr (Some p))"
  using assms by (simp add: finish_partial_def received_def pguard_def recovery_ok_def at_def)

lemma post_call:
  assumes "recovery_ok (cl_thr L)" "v = Some p # rest" "dropped i s"
  shows "\<exists>s'. advances (cl_thr L) (prog_at L 1 N ct i v Posting) s (prog_at L 1 N ct i v Done) s'
    \<and> (awaited i sh v s \<longrightarrow> awaited i sh v s') \<and> apct_look (1, i) s' = v"
proof -
  let ?S = "cl_thr L"
  obtain s' m where s': "thr_handler ?S (AbortsPartialCipherTextFromClient (ser_cts ?S v) recovering_client_id i) s = (Inr (Ack m), s')"
    using assms(1) by (simp add: thr_step recovery_ok_def)
  have "apct_look (1, i) s' = v"
    using apct.step [OF s', of "(1, i)"] assms(1) by (simp add: apct_posts_def recovery_ok_def recovering_client_id_def)
  moreover have "sh_look i s' = sh_look i s" "dropped i s'"
    using sh.step [OF s', of i] pct.step [OF s', of i] flag.step [OF s', of i] assms(3)
    by (simp_all add: sh_posts_def pct_posts_def flag_posts_def dropped_def)
  moreover have "advances ?S (pbind (c_AbortsPartialCipherTextFromClient (ser_cts ?S v) recovering_client_id i)
      (\<lambda>_. Ret (Inr (ser_cts ?S v)))) s (Ret (Inr (ser_cts ?S v))) s'"
    unfolding c_AbortsPartialCipherTextFromClient_def by (rule advances_call [OF s']) simp
  from advances_waiting [OF advances_pbind [OF this], of L 1 N ct i "\<lambda>s2. Ret (Inr (Inr s2))"]
  have "advances ?S (prog_at L 1 N ct i v Posting) s (waiting L 1 N ct i (Ret (Inr (Inr (ser_cts ?S v))))) s'" by simp
  moreover have "waiting L 1 N ct i (Ret (Inr (Inr (ser_cts ?S v)))) = prog_at L 1 N ct i v Done"
    using finish_partial_value [OF assms(1,2)] by (simp add: waiting_def assms(2))
  ultimately show ?thesis by (auto simp: awaited_def)
qed

lemma poll_call:
  assumes "recovery_ok (cl_thr L)" "v = Some p # rest" "awaited i sh v s" "c \<noteq> 1"
  shows "\<exists>s'. advances (cl_thr L) (prog_at L c N ct i v Recovering) s
      (prog_at L c N ct i v (next_phase c (apct_look (1, i) s = v) Recovering)) s'
    \<and> awaited i sh v s' \<and> apct_look (1, i) s' = apct_look (1, i) s"
proof -
  let ?S = "cl_thr L" and ?read = "\<lambda>s reply. case reply of TextReturn available value \<Rightarrow> Inr (available, if available then value else s)
    | _ \<Rightarrow> wrong_reply" and ?x = "apct_look (1, i) s"
  obtain s' where h: "thr_handler ?S (AbortsPartialCipherTextToClients recovering_client_id i) s = (Inr (cts_answer ?S ?x), s')"
    using assms(1) by (auto simp: recovery_ok_def thr_step apct_look_def recovering_client_id_def cts_answer_def)
  have keep: "apct_look (1, i) s' = ?x" "awaited i sh v s'"
    using apct.step [OF h, of "(1, i)"] sh.step [OF h, of i] pct.step [OF h, of i] flag.step [OF h, of i] assms(3)
    by (simp_all add: apct_posts_def sh_posts_def pct_posts_def flag_posts_def dropped_def awaited_def)
  have poll: "recover_partial L c N ct i [] = poll_from (AbortsPartialCipherTextToClients recovering_client_id i) ?read []"
    using assms(4) by (simp add: recover_partial_def recovering_client_id_def c_AbortsPartialCipherTextToClients_def poll_eq)
  have x: "?x = [] \<or> ?x = v" "v \<noteq> []" using assms(2,3) by (auto simp: awaited_def)
  have "advances ?S (poll_from (AbortsPartialCipherTextToClients recovering_client_id i) ?read []) s
      (if ?x = v then Ret (Inr (ser_cts ?S v)) else poll_from (AbortsPartialCipherTextToClients recovering_client_id i) ?read []) s'"
    using x h unfolding advances_def by (subst poll_from_unfold) (auto simp: cts_answer_def)
  from advances_waiting [OF advances_pbind [OF this], of L c N ct i "\<lambda>s2. Ret (Inr (Inr s2))"]
  have "advances ?S (prog_at L c N ct i v Recovering) s
      (if ?x = v then waiting L c N ct i (Ret (Inr (Inr (ser_cts ?S v)))) else prog_at L c N ct i v Recovering) s'"
    by (simp add: poll split: if_splits)
  moreover have "waiting L c N ct i (Ret (Inr (Inr (ser_cts ?S v)))) = prog_at L c N ct i v Done"
    using finish_partial_value [OF assms(1,2)] by (simp add: waiting_def assms(2))
  ultimately show ?thesis using keep assms(4) by (auto split: if_splits)
qed

lemma phase_step:
  assumes "recovery_ok (cl_thr L)" "2 \<le> unat N" "unat N < 2 ^ 32 - 1" "v = Some p # rest" "awaited i sh v s"
    and "c = 1 \<Longrightarrow> recovered_partial L N ct i sh = v" "phase_ok c ph" "ph \<noteq> Done"
  shows "\<exists>s'. advances (cl_thr L) (prog_at L c N ct i v ph) s (prog_at L c N ct i v (next_phase c (apct_look (1, i) s = v) ph)) s'
    \<and> awaited i sh v s' \<and> (apct_look (1, i) s = v \<or> ph = Posting \<longrightarrow> apct_look (1, i) s' = v)"
proof -
  have s: "dropped i s" "sh_look i s = sh" using assms(5) by (simp_all add: awaited_def)
  show ?thesis
  proof (cases ph)
    case First
    then show ?thesis using first_call [OF s(1), of "cl_thr L" L c N ct sh v] assms(5) by auto
  next
    case (Asking n)
    then show ?thesis using ask_call [OF s(1), of "cl_thr L" L c N ct "of_nat n" sh v] assms(5) by auto
  next
    case (Checking n)
    then show ?thesis using check_call [OF s(1), of n "cl_thr L" L c N ct v _ sh] assms(5,7) by (auto simp del: prog_at.simps next_phase.simps)
  next
    case Recovering
    show ?thesis
    proof (cases "c = 1")
      case True
      then show ?thesis
        using recover_call_1 [OF assms(1-3) s(1), of ct v sh] assms(5,6) s(2) Recovering by (auto simp del: prog_at.simps)
    next
      case False
      then show ?thesis
        using poll_call [OF assms(1,4,5) False, of N ct] Recovering by (auto simp del: prog_at.simps next_phase.simps)
    qed
  next
    case Posting
    then show ?thesis using post_call [OF assms(1,4) s(1), of N ct sh] assms(5,7) by (auto simp del: prog_at.simps)
  qed (use assms(8) in simp)
qed

definition survivors ::
  "('a \<Rightarrow> ('cc, 'pk, 'sk, 'ek, 'es, 'ct, 'poly, 'pt) client_lib) \<Rightarrow> ('cc, 'ct, 'poly) thr_lib \<Rightarrow> ('a \<Rightarrow> u32) \<Rightarrow> u32 \<Rightarrow> ('a \<Rightarrow> 'ct option) \<Rightarrow> u32
   \<Rightarrow> (u32 \<rightharpoonup> 'poly) \<Rightarrow> 'ct option list \<Rightarrow> 'a set \<Rightarrow> bool" where
  \<comment> \<open>the clients A, which have the server's serialisation, and what client 1 computes from the shares sh\<close>
  "survivors L S ids N ct i sh v A \<longleftrightarrow> recovery_ok S \<and> 2 \<le> unat N \<and> unat N < 2 ^ 32 - 1 \<and> v \<noteq> [] \<and> hd v \<noteq> None
     \<and> (\<forall>a \<in> A. cl_thr (L a) = S \<and> (ids a = 1 \<longrightarrow> recovered_partial (L a) N (ct a) i sh = v))"

definition recovering ::
  "('a \<Rightarrow> ('cc, 'pk, 'sk, 'ek, 'es, 'ct, 'poly, 'pt) client_lib) \<Rightarrow> ('a \<Rightarrow> u32) \<Rightarrow> u32 \<Rightarrow> ('a \<Rightarrow> 'ct option) \<Rightarrow> u32
   \<Rightarrow> (u32 \<rightharpoonup> 'poly) \<Rightarrow> 'ct option list \<Rightarrow> 'a set \<Rightarrow> ('a \<Rightarrow> phase)
   \<Rightarrow> ('a, thr_request, thr_reply, 'ct option, ('cc, 'ct, 'poly) thr_state) sys \<Rightarrow> bool" where
  \<comment> \<open>survivor a is in phase f a, all other programs have ended\<close>
  "recovering L ids N ct i sh v A f y \<longleftrightarrow> alive y \<and> awaited i sh v (srv y)
     \<and> (\<forall>a \<in> A. progs y a = Some (prog_at (L a) (ids a) N (ct a) i v (f a)) \<and> phase_ok (ids a) (f a)
          \<and> (ids a = 1 \<longrightarrow> f a = Done \<longrightarrow> apct_look (1, i) (srv y) = v))
     \<and> (\<forall>a q k. a \<notin> A \<longrightarrow> progs y a \<noteq> Some (Call q k))"

lemma survivor_turn:
  assumes sv: "survivors L S ids N ct i sh v A" and y: "recovering L ids N ct i sh v A f y" and a: "a \<in> A" "f a \<noteq> Done"
  shows "\<exists>q k r s'. progs y a = Some (Call q k) \<and> thr_handler S q (srv y) = (Inr r, s')
    \<and> recovering L ids N ct i sh v A (f(a := next_phase (ids a) (apct_look (1, i) (srv y) = v) (f a)))
        (y\<lparr>progs := (progs y)(a \<mapsto> k (Inr r)), srv := s'\<rparr>)
    \<and> (apct_look (1, i) (srv y) = v \<longrightarrow> apct_look (1, i) s' = v)"
proof -
  have S: "cl_thr (L a) = S" "recovery_ok S" "2 \<le> unat N" "unat N < 2 ^ 32 - 1" "ids a = 1 \<Longrightarrow> recovered_partial (L a) N (ct a) i sh = v"
    and at: "phase_ok (ids a) (f a)" "progs y a = Some (prog_at (L a) (ids a) N (ct a) i v (f a))" and aw: "awaited i sh v (srv y)"
    using sv y a(1) by (auto simp: survivors_def recovering_def simp del: prog_at.simps)
  obtain p rest where v: "v = Some p # rest" using sv by (cases v) (auto simp: survivors_def)
  let ?b = "apct_look (1, i) (srv y) = v"
  obtain s' where s': "advances S (prog_at (L a) (ids a) N (ct a) i v (f a)) (srv y) (prog_at (L a) (ids a) N (ct a) i v (next_phase (ids a) ?b (f a))) s'"
    "awaited i sh v s'" "?b \<or> f a = Posting \<longrightarrow> apct_look (1, i) s' = v"
    using phase_step [of "L a", unfolded S(1), OF S(2-4) v aw S(5) at(1) a(2)] by blast
  then obtain q k r where c: "prog_at (L a) (ids a) N (ct a) i v (f a) = Call q k" "thr_handler S q (srv y) = (Inr r, s')"
    "k (Inr r) = prog_at (L a) (ids a) N (ct a) i v (next_phase (ids a) ?b (f a))"
    unfolding advances_def by blast
  have "next_phase (ids a) ?b (f a) = Done \<Longrightarrow> ids a = 1 \<Longrightarrow> f a = Posting"
    using a(2) by (cases "f a") (auto split: if_splits)
  then have "recovering L ids N ct i sh v A (f(a := next_phase (ids a) ?b (f a))) (y\<lparr>progs := (progs y)(a \<mapsto> k (Inr r)), srv := s'\<rparr>)"
    using y s'(2,3) c(3) phase_ok_next [OF at(1)] a(1) unfolding recovering_def by (auto simp del: prog_at.simps)
  with c(1,2) s'(3) at(2) show ?thesis by auto
qed

lemma recovering_step:
  assumes sv: "survivors L S ids N ct i sh v A" and y: "recovering L ids N ct i sh v A f y" and step: "sys_step (thr_handler S) y z"
  shows "\<exists>a \<in> A. f a \<noteq> Done \<and> recovering L ids N ct i sh v A (f(a := next_phase (ids a) (apct_look (1, i) (srv y) = v) (f a))) z"
proof -
  have who: "a \<in> A \<and> f a \<noteq> Done" if "progs y a = Some (Call q k)" for a q k
    using y that unfolding recovering_def by (cases "a \<in> A"; cases "f a") auto
  from step show ?thesis
  proof cases
    case (answered a q k r s')
    with who survivor_turn [OF sv y, of a] show ?thesis by fastforce
  next
    case (crashed a q k e s' msg)
    with who survivor_turn [OF sv y, of a] show ?thesis by fastforce
  next
    case (refused a q k msg)
    with y show ?thesis by (simp add: recovering_def)
  qed
qed

lemma recovering_run:
  assumes sv: "survivors L S ids N ct i sh v A" and "recovering L ids N ct i sh v A (\<lambda>a. First) y" and fin: "finite A"
    and "(sys_step (thr_handler S) ^^ n) y z"
  shows "\<exists>f. recovering L ids N ct i sh v A f z \<and> (\<Sum>a \<in> A. 204 - calls_left (ids a) (f a)) \<le> n"
  using assms(4)
proof (induction n arbitrary: z)
  case 0
  have "(\<Sum>a \<in> A. 204 - calls_left (ids a) First) = 0" by simp
  with 0 assms(2) show ?case by (intro exI [of _ "\<lambda>a. First"]) simp
next
  case (Suc n)
  from Suc.prems obtain u where u: "(sys_step (thr_handler S) ^^ n) y u" "sys_step (thr_handler S) u z" by auto
  from Suc.IH [OF u(1)] obtain f where f: "recovering L ids N ct i sh v A f u" "(\<Sum>a \<in> A. 204 - calls_left (ids a) (f a)) \<le> n" by blast
  from recovering_step [OF sv f(1) u(2)] obtain a where a: "a \<in> A" "f a \<noteq> Done"
    "recovering L ids N ct i sh v A (f(a := next_phase (ids a) (apct_look (1, i) (srv u) = v) (f a))) z" by blast
  define g where "g = f(a := next_phase (ids a) (apct_look (1, i) (srv u) = v) (f a))"
  have "phase_ok (ids a) (f a)" using f(1) a(1) by (simp add: recovering_def)
  from calls_left_next(1) [OF this a(2), of "apct_look (1, i) (srv u) = v"] have "204 - calls_left (ids a) (g a) \<le> Suc (204 - calls_left (ids a) (f a))"
    unfolding g_def fun_upd_same by arith
  moreover have "(\<Sum>b \<in> A - {a}. 204 - calls_left (ids b) (g b)) = (\<Sum>b \<in> A - {a}. 204 - calls_left (ids b) (f b))"
    by (rule sum.cong) (auto simp: g_def)
  ultimately have "(\<Sum>a \<in> A. 204 - calls_left (ids a) (g a)) \<le> Suc n"
    using f(2) sum.remove [OF fin a(1), of "\<lambda>b. 204 - calls_left (ids b) (f b)"]
      sum.remove [OF fin a(1), of "\<lambda>b. 204 - calls_left (ids b) (g b)"] by linarith
  with a(3) show ?case unfolding g_def by blast
qed

lemma survivor_ends:
  assumes sv: "survivors L S ids N ct i sh v A" and "recovering L ids N ct i sh v A f y" "a \<in> A"
    and "apct_look (1, i) (srv y) = v \<or> ids a = 1"
  shows "\<exists>z. sys_reach (thr_handler S) y z \<and> recovering L ids N ct i sh v A (f(a := Done)) z
    \<and> (apct_look (1, i) (srv y) = v \<longrightarrow> apct_look (1, i) (srv z) = v)"
  using assms(2-4)
proof (induction "calls_left (ids a) (f a)" arbitrary: f y rule: less_induct)
  case less
  show ?case
  proof (cases "f a = Done")
    case True
    then have "f(a := Done) = f" by auto
    with less.prems(1) show ?thesis by (intro exI [of _ y]) simp
  next
    case False
    let ?b = "apct_look (1, i) (srv y) = v"
    obtain q k r s' where t: "progs y a = Some (Call q k)" "thr_handler S q (srv y) = (Inr r, s')"
      "recovering L ids N ct i sh v A (f(a := next_phase (ids a) ?b (f a))) (y\<lparr>progs := (progs y)(a \<mapsto> k (Inr r)), srv := s'\<rparr>)"
      "?b \<longrightarrow> apct_look (1, i) s' = v"
      using survivor_turn [OF sv less.prems(1,2) False] by blast
    have ok: "phase_ok (ids a) (f a)" "alive y" using less.prems(1,2) by (auto simp: recovering_def)
    have "calls_left (ids a) ((f(a := next_phase (ids a) ?b (f a))) a) < calls_left (ids a) (f a)"
      using calls_left_next(2) [OF ok(1) False, of ?b] less.prems(3) by auto
    from less.hyps [OF this t(3) less.prems(2)] t(4) less.prems(3) obtain z where
      z: "sys_reach (thr_handler S) (y\<lparr>progs := (progs y)(a \<mapsto> k (Inr r)), srv := s'\<rparr>) z"
      "recovering L ids N ct i sh v A (f(a := Done)) z" "?b \<longrightarrow> apct_look (1, i) (srv z) = v"
      by auto
    have "sys_step (thr_handler S) y (y\<lparr>progs := (progs y)(a \<mapsto> k (Inr r)), srv := s'\<rparr>)"
      using t(1) ok(2) t(2) by (rule answered)
    from sys_reach_step [OF this z(1)] z(2,3) show ?thesis by blast
  qed
qed

lemma survivors_end:
  assumes sv: "survivors L S ids N ct i sh v A" and "finite B" "B \<subseteq> A"
    and "recovering L ids N ct i sh v A f y" "apct_look (1, i) (srv y) = v"
  shows "\<exists>z. sys_reach (thr_handler S) y z \<and> recovering L ids N ct i sh v A (\<lambda>a. if a \<in> B then Done else f a) z
    \<and> apct_look (1, i) (srv z) = v"
  using assms(2,3)
proof (induction B rule: finite_induct)
  case empty
  with assms(4,5) show ?case by (intro exI [of _ y]) simp
next
  case (insert a B)
  then obtain u where u: "sys_reach (thr_handler S) y u" "recovering L ids N ct i sh v A (\<lambda>a. if a \<in> B then Done else f a) u"
    "apct_look (1, i) (srv u) = v" by auto
  from survivor_ends [OF sv u(2), of a] insert.prems u(3) obtain z where z: "sys_reach (thr_handler S) u z"
    "recovering L ids N ct i sh v A ((\<lambda>a. if a \<in> B then Done else f a)(a := Done)) z" "apct_look (1, i) (srv z) = v" by auto
  have e: "(\<lambda>a. if a \<in> B then Done else f a)(a := Done) = (\<lambda>b. if b \<in> insert a B then Done else f b)" by auto
  have "sys_reach (thr_handler S) y z" using u(1) z(1) unfolding sys_reach_def by (rule rtranclp_trans)
  with z(2) [unfolded e] z(3) show ?case by blast
qed

text \<open>C17: any dropped client is recovered as long as client 1 is there. Any number of clients, client 1 among them, wait for the
  partial decryption of a client i that never posts it; all other programs have ended. In every interleaving
  the server stays alive, and a client that got past the wait has the partial decryption that client 1 computes
  from the shares the server stores for client i. None gets past it before the time-out: when m clients did, at least 204 m calls have been made,
  for each its first question, 101 rounds of two calls for a thousand milliseconds of polling, and a call of the
  recovery. From every state reached, all of them get past it.\<close>

theorem dropped_client_recovered:
  assumes "recovery_ok S" "\<And>a. a \<in> A \<Longrightarrow> cl_thr (L a) = S" "2 \<le> unat N" "unat N < 2 ^ 32 - 1"
    and "finite A" "a1 \<in> A" "ids a1 = 1"
    and "alive y" "\<And>a. a \<in> A \<Longrightarrow> progs y a = Some (get_partial (L a) (ids a) N (ct a) i)"
    and "\<And>a q k. a \<notin> A \<Longrightarrow> progs y a \<noteq> Some (Call q k)"
    and "dropped i (srv y)" "apct_look (1, i) (srv y) = []"
    and "\<And>a. a \<in> A \<Longrightarrow> ids a = 1 \<Longrightarrow> recovered_partial (L a) N (ct a) i (sh_look i (srv y)) = Some p # rest"
    and "(sys_step (thr_handler S) ^^ n) y z"
  shows "alive z \<and> (\<forall>a \<in> A. \<forall>r. progs z a = Some (Ret r) \<longrightarrow> r = Inr (Some p))
    \<and> 204 * card {a \<in> A. \<exists>r. progs z a = Some (Ret r)} \<le> n
    \<and> (\<exists>z'. sys_reach (thr_handler S) z z' \<and> (\<forall>a \<in> A. progs z' a = Some (Ret (Inr (Some p)))))"
proof -
  let ?sh = "sh_look i (srv y)" and ?v = "Some p # rest"
  have sv: "survivors L S ids N ct i ?sh ?v A" using assms(1-4,13) by (simp add: survivors_def)
  have "recovering L ids N ct i ?sh ?v A (\<lambda>a. First) y"
    using assms(8-12) by (simp add: recovering_def awaited_def)
  from recovering_run [OF sv this assms(5,14)] obtain f where
    f: "recovering L ids N ct i ?sh ?v A f z" "(\<Sum>a \<in> A. 204 - calls_left (ids a) (f a)) \<le> n" by blast
  have ended: "f a = Done" if "a \<in> A" "progs z a = Some (Ret r)" for a r
  proof (rule ccontr)
    assume "f a \<noteq> Done"
    from survivor_turn [OF sv f(1) that(1) this] that(2) show False by auto
  qed
  have result: "progs u a = Some (Ret (Inr (Some p)))" if "recovering L ids N ct i ?sh ?v A g u" "a \<in> A" "g a = Done" for u g a
    using that by (simp add: recovering_def)
  from survivor_ends [OF sv f(1) assms(6)] assms(7) obtain u where
    u: "sys_reach (thr_handler S) z u" "recovering L ids N ct i ?sh ?v A (f(a1 := Done)) u" by blast
  then have "apct_look (1, i) (srv u) = ?v" using assms(6,7) by (auto simp: recovering_def)
  from survivors_end [OF sv assms(5) order_refl u(2) this] obtain z' where
    z': "sys_reach (thr_handler S) u z'" "recovering L ids N ct i ?sh ?v A (\<lambda>a. if a \<in> A then Done else (f(a1 := Done)) a) z'" by blast
  have "sys_reach (thr_handler S) z z'" using u(1) z'(1) unfolding sys_reach_def by (rule rtranclp_trans)
  moreover have "progs z' a = Some (Ret (Inr (Some p)))" if "a \<in> A" for a using result [OF z'(2) that] that by simp
  moreover have "r = Inr (Some p)" if "a \<in> A" "progs z a = Some (Ret r)" for a r
    using result [OF f(1) that(1) ended [OF that]] that(2) by simp
  moreover have "204 * card {a \<in> A. \<exists>r. progs z a = Some (Ret r)} \<le> n"
  proof -
    let ?E = "{a \<in> A. \<exists>r. progs z a = Some (Ret r)}"
    have "204 * card ?E = (\<Sum>a \<in> ?E. 204)" by simp
    also have "\<dots> = (\<Sum>a \<in> ?E. 204 - calls_left (ids a) (f a))" by (rule sum.cong) (auto dest: ended)
    also have "\<dots> \<le> (\<Sum>a \<in> A. 204 - calls_left (ids a) (f a))" using assms(5) by (intro sum_mono2) auto
    finally show ?thesis using f(2) by simp
  qed
  moreover have "alive z" using f(1) by (simp add: recovering_def)
  ultimately show ?thesis by blast
qed

section \<open>Concrete runs\<close>

definition bit_lib :: "(unit, unit, unit) thr_lib" where
  \<comment> \<open>vectors of ciphertexts and share maps as strings of 0 and 1, with a letter in front\<close>
  "bit_lib = \<lparr> ser_cc = (\<lambda>_. ''cc''), ser_ct = (\<lambda>c. if c = None then ''0'' else ''1''),
     deser_ct = (\<lambda>b. Inr (if b = ''0'' then None else Some ())),
     ser_cts = (\<lambda>cs. CHR ''v'' # map (\<lambda>c. if c = None then CHR ''0'' else CHR ''1'') cs),
     deser_cts = (\<lambda>b. Inr (map (\<lambda>c. if c = CHR ''0'' then None else Some ()) (tl b))),
     ser_shares = (\<lambda>m. CHR ''s'' # map (\<lambda>k. if m (of_nat k) = None then CHR ''0'' else CHR ''1'') [0..<2 ^ 32]),
     deser_shares = (\<lambda>b. Inr (\<lambda>k. if tl b ! unat k = CHR ''0'' then None else Some ())), poly0 = () \<rparr>"

lemma bit_lib_ok: "recovery_ok bit_lib"
proof -
  have "map (\<lambda>c. if c = CHR ''0'' then None else Some ()) (map (\<lambda>c. if c = None then CHR ''0'' else CHR ''1'') v) = v" for v :: "unit option list"
    by (induction v) auto
  moreover have "(\<lambda>k. if map (\<lambda>k. if m (of_nat k :: u32) = None then CHR ''0'' else CHR ''1'') [0..<2 ^ 32] ! unat k = CHR ''0'' then None else Some ()) = m"
    for m :: "u32 \<rightharpoonup> unit"
  proof
    fix k :: u32
    have k: "unat k < 2 ^ 32" using unsigned_less [of k, where ?'a = nat] by simp
    then have "map (\<lambda>k. if m (of_nat k :: u32) = None then CHR ''0'' else CHR ''1'') [0..<2 ^ 32] ! unat k
        = (if m k = None then CHR ''0'' else CHR ''1'')"
      by (subst nth_map) (simp_all add: nth_upt)
    then show "(if map (\<lambda>k. if m (of_nat k :: u32) = None then CHR ''0'' else CHR ''1'') [0..<2 ^ 32] ! unat k = CHR ''0'' then None else Some ()) = m k"
      by (cases "m k") (simp_all del: upt.simps)
  qed
  ultimately show ?thesis
    by (simp add: recovery_ok_def bit_lib_def del: upt.simps map_map)
qed

definition bit_client :: "(unit, nat, nat, nat, nat, unit, unit, unit) client_lib" where
  "bit_client = \<lparr> cl_thr = bit_lib, deser_cc = (\<lambda>b. Inr (Some ())),
     ser_pk = (\<lambda>_. ''p''), deser_pk = (\<lambda>_. Inr 0), ser_ek = (\<lambda>_. ''e''), deser_ek = (\<lambda>_. Inr 0),
     ser_es = (\<lambda>_. ''s''), deser_es = (\<lambda>_. Inr 0),
     KeyGen = (1, 2), MultipartyKeyGen = (\<lambda>k. (k + 1, 2)), KeyTag = (\<lambda>_. []), ShareKeys = (\<lambda>_ _ _ _. [2 \<mapsto> ()]),
     KeySwitchGen = (\<lambda>s. s), MultiKeySwitchGen = (\<lambda>s k. s), MultiAddEvalKeys = (\<lambda>a b t. a + b),
     MultiMultEvalKey = (\<lambda>s k t. s * k), MultiAddEvalMultKeys = (\<lambda>a b t. a + b),
     EvalSumKeyGen = (\<lambda>s. s), MultiEvalSumKeyGen = (\<lambda>s k t. s), MultiAddEvalSumKeys = (\<lambda>a b t. a + b),
     PlaintextModulus = 65537, EncryptPacked = (\<lambda>k v. Some ()),
     EvalMultMany = (\<lambda>_ _. Some ()), EvalAddMany = (\<lambda>_. Some ()), EvalSum = (\<lambda>_ c _. c),
     MultipartyDecryptLead = (\<lambda>c s. c), MultipartyDecryptMain = (\<lambda>c s. c),
     RecoverSharedKey = (\<lambda>_ _ _. 0), MultipartyDecryptFusion = (\<lambda>_. ()) \<rparr>"

lemma dropped_client_recovered_witness:
  "\<exists>z. sys_reach (thr_handler bit_lib)
      (system [0 \<mapsto> get_partial bit_client 1 3 (Some ()) 3, Suc 0 \<mapsto> get_partial bit_client 2 3 (Some ()) 3, 2 \<mapsto> Ret (Inl (Exit_failure ''aborted''))]
        (thr_state0 None)) z
    \<and> progs z 0 = Some (Ret (Inr (Some ()))) \<and> progs z (Suc 0) = Some (Ret (Inr (Some ())))"
proof -
  let ?y = "system [0 \<mapsto> get_partial bit_client 1 3 (Some ()) 3, Suc 0 \<mapsto> get_partial bit_client 2 3 (Some ()) 3, 2 \<mapsto> Ret (Inl (Exit_failure ''aborted''))]
    (thr_state0 None)"
  let ?ids = "\<lambda>a. if a = 0 then 1 else 2 :: u32"
  have S: "cl_thr bit_client = bit_lib" by (simp add: bit_client_def)
  have v: "recovered_partial bit_client 3 (Some ()) 3 ss = Some () # []" for ss
    by (simp add: recovered_partial_def bit_client_def)
  have "\<exists>z'. sys_reach (thr_handler bit_lib) ?y z' \<and> (\<forall>a \<in> {0, Suc 0}. progs z' a = Some (Ret (Inr (Some ()))))"
    by (rule dropped_client_recovered [where S = bit_lib and L = "\<lambda>_. bit_client" and ids = ?ids and ct = "\<lambda>_. Some ()" and A = "{0, Suc 0}"
          and ?a1.0 = 0 and i = 3 and N = 3 and n = 0 and y = ?y and z = ?y and rest = "[]", THEN conjunct2, THEN conjunct2, THEN conjunct2])
      (auto simp: S bit_lib_ok v dropped_def split: if_splits)
  then show ?thesis by blast
qed

lemma client_1_aborts_run:
  "\<exists>s. solo (thr_handler bit_lib) (thresh_client bit_client 1 1 1 ''add'') (thr_state0 None)
    (Ret (Inl (Exit_failure ''This client is Aborting the protocol and exiting.''))) s"
proof -
  have ids: "party_ids 1 = [1]" by (simp add: party_ids_def)
  have sh: "ser_shares bit_lib m \<noteq> []" "\<exists>m'. deser_shares bit_lib b = Inr m'" for m b
    by (simp_all add: bit_lib_def)
  have "deser_shares bit_lib (ser_shares bit_lib [2 \<mapsto> ()]) = Inr [2 \<mapsto> ()]"
    using bit_lib_ok by (simp add: recovery_ok_def)
  moreover have "ser_cc bit_lib c = ''cc''" "ser_ct bit_lib (Some ()) = ''1''" "deser_ct bit_lib ''1'' = Inr (Some ())" for c
    by (simp_all add: bit_lib_def)
  ultimately show ?thesis
    using sh(1)
    by (simp add: thresh_client_def get_context_def joint_keygen_def send_shares_def exchange_cts_def genCT_def
        received_def serialized_def pguard_def bit_client_def call_rpc_def ids
        c_CryptoContextFromServer_def c_PublicKeyFromClient_def c_SecretSharesFromClient_def c_CipherTextFromClient_def)
      (rule exI, (rule solo_call, simp add: thr_step, simp)+, rule solo_here)
qed

lemma client_1_not_recovered_witness:
  "\<exists>y. sys_reach (thr_handler bit_lib) (system (\<lambda>i :: unit. Some (thresh_client bit_client 1 1 1 ''add'')) (thr_state0 None)) y
    \<and> progs y () = Some (Ret (Inl (Exit_failure ''This client is Aborting the protocol and exiting.'')))
    \<and> (\<exists>e. Inl (Exit_failure ''This client is Aborting the protocol and exiting.'') = (Inl e :: error + unit))"
proof -
  let ?y = "system (\<lambda>i :: unit. Some (thresh_client bit_client 1 1 1 ''add'')) (thr_state0 None)"
  from client_1_aborts_run obtain s where "solo (thr_handler bit_lib) (thresh_client bit_client 1 1 1 ''add'') (thr_state0 None)
    (Ret (Inl (Exit_failure ''This client is Aborting the protocol and exiting.''))) s" by blast
  from solo_system [OF this, of ?y "()"] obtain y where y: "sys_reach (thr_handler bit_lib) ?y y"
    "progs y () = Some (Ret (Inl (Exit_failure ''This client is Aborting the protocol and exiting.'')))"
    by auto
  from client_1_not_recovered [of 1 "\<lambda>_. 1" "\<lambda>_. 1", OF _ _ y] y show ?thesis by blast
qed

end
