(* ===== verification/Pre_KS.thy ===== *)
theory Pre_KS
  imports Rpc Cmdline Routing_Table
begin

text \<open>
  The key server of the proxy re-encryption demo (\<^verbatim>\<open>pre_grpc_demo/include/pre_ks.h\<close> and the \<^verbatim>\<open>ks_*.h\<close>
  servicers). Key servers form a chain: a server without an upstream address makes its own context,
  the others fetch it, and a server asks its upstream server for the public keys of brokers it does
  not know and for the re-encryption keys whose private key it does not hold. The calls to the
  upstream server go through a transport on a world \<open>'w\<close>; a failed call throws, as
  \<^verbatim>\<open>KeyServerInternalClient\<close> does.

  Pointers are options. What OpenFHE does is a record of functions, shared by the three programs of the
  demo; the random choices of \<^verbatim>\<open>KeyGen\<close> are numbered, and the state counts those of the server. The constructors of two servicers serialise the context a
  second time, with the same outcome as their \<^verbatim>\<open>Proceed\<close>. Debug files are left out.
\<close>

section \<open>The messages of both services\<close>

record MessageRequest =
  rq_client_name :: string
  rq_client_type :: string
  rq_upstream_client_name :: string
  rq_upstream_client_type :: string
  rq_channel_name :: string
  rq_pkey :: bytes
  rq_ctext :: bytes

definition MessageRequest0 :: MessageRequest where
  "MessageRequest0 = \<lparr> rq_client_name = [], rq_client_type = [], rq_upstream_client_name = [],
     rq_upstream_client_type = [], rq_channel_name = [], rq_pkey = [], rq_ctext = [] \<rparr>"

record MessageReturn =
  mr_acknowledgement :: string
  keyAvailable :: bool
  textAvailable :: bool
  producerRegistered :: bool
  mr_cryptocontext :: bytes
  mr_pkey :: bytes
  reKey :: bytes
  mr_ciphertext :: bytes

definition MessageReturn0 :: MessageReturn where
  "MessageReturn0 = \<lparr> mr_acknowledgement = [], keyAvailable = False, textAvailable = False,
     producerRegistered = False, mr_cryptocontext = [], mr_pkey = [], reKey = [], mr_ciphertext = [] \<rparr>"

datatype ks_method =
    CryptoContextFromServer_m
  | CryptoContextRequestFromServer_Broker_m
  | CryptoContextRequestFromServer_Server_m
  | PrivateKeyFromProducer_m
  | PublicKeyFromClient_m
  | PublicKeyToBroker_m
  | ReEncryptionKeyToBroker_m
  | PublicKeyToServer_m
  | PublicKeyfromServer_m
  | ReEncryptionKeyToServer_m

type_synonym ks_request = "ks_method \<times> MessageRequest"
type_synonym ('w, 'q) upstream = "'q \<Rightarrow> 'w \<Rightarrow> (string + MessageReturn) \<times> 'w"

definition up_call :: "('w, 'q) upstream \<Rightarrow> 'q \<Rightarrow> ('w, MessageReturn) act" where
  \<comment> \<open>if (!status.ok()) OPENFHE_THROW(openfhe_error, status.error_message())\<close>
  "up_call up q w = (case up q w of (Inl msg, w') \<Rightarrow> (Inl (Openfhe_error msg), w') | (Inr p, w') \<Rightarrow> (Inr p, w'))"

section \<open>The client of the upstream key server\<close>

definition u_CryptoContextRequestFromServer_Server :: "('w, ks_request) upstream \<Rightarrow> ('w, bytes) act" where
  "u_CryptoContextRequestFromServer_Server up =
     abind (up_call up (CryptoContextRequestFromServer_Server_m, MessageRequest0)) (\<lambda>reply. ret (mr_cryptocontext reply))"

definition u_PublicKeyToServer :: "('w, ks_request) upstream \<Rightarrow> bytes \<Rightarrow> string \<Rightarrow> string \<Rightarrow> ('w, bool \<times> bytes) act" where
  "u_PublicKeyToServer up pkey client_type client_name =
     abind (up_call up (PublicKeyToServer_m, MessageRequest0\<lparr>rq_client_type := client_type, rq_client_name := client_name\<rparr>))
       (\<lambda>reply. ret (keyAvailable reply, if keyAvailable reply then mr_pkey reply else pkey))"

definition u_ReEncryptionKeyToServer ::
  "('w, ks_request) upstream \<Rightarrow> bytes \<Rightarrow> string \<Rightarrow> string \<Rightarrow> string \<Rightarrow> string \<Rightarrow> ('w, bool \<times> bytes) act" where
  "u_ReEncryptionKeyToServer up rekey client_type client_name upstream_client_name upstream_client_type =
     abind (up_call up (ReEncryptionKeyToServer_m, MessageRequest0\<lparr>rq_client_type := client_type,
         rq_client_name := client_name, rq_upstream_client_name := upstream_client_name,
         rq_upstream_client_type := upstream_client_type\<rparr>))
       (\<lambda>reply. ret (keyAvailable reply, if keyAvailable reply then reKey reply else rekey))"

definition u_PublicKeyfromServer :: "('w, ks_request) upstream \<Rightarrow> bytes \<Rightarrow> string \<Rightarrow> string \<Rightarrow> ('w, string) act" where
  "u_PublicKeyfromServer up pkey client_type client_name =
     abind (up_call up (PublicKeyfromServer_m, MessageRequest0\<lparr>rq_pkey := pkey, rq_client_type := client_type,
         rq_client_name := client_name\<rparr>))
       (\<lambda>reply. ret (mr_acknowledgement reply))"

section \<open>The state\<close>

record ('cc, 'pk, 'sk, 'rk, 'ct) pre_lib =
  p_ser_cc :: "'cc option \<Rightarrow> bytes"
  p_deser_cc :: "bytes \<Rightarrow> 'cc option result"
  p_ser_pk :: "'pk option \<Rightarrow> bytes"
  p_deser_pk :: "bytes \<Rightarrow> 'pk option result"
  p_ser_sk :: "'sk option \<Rightarrow> bytes"
  p_deser_sk :: "bytes \<Rightarrow> 'sk option result"
  p_ser_rk :: "'rk option \<Rightarrow> bytes"
  p_deser_rk :: "bytes \<Rightarrow> 'rk option result"
  p_ser_ct :: "'ct option \<Rightarrow> bytes"
  p_deser_ct :: "bytes \<Rightarrow> 'ct option result"
  p_KeyGen :: "nat \<Rightarrow> 'pk option \<times> 'sk option"
  ReKeyGen :: "'sk \<Rightarrow> 'pk option \<Rightarrow> 'rk option result"
  ReEncrypt :: "'ct option \<Rightarrow> 'rk option \<Rightarrow> 'pk option \<Rightarrow> 'ct option result"
  NumOfElements :: "'ct \<Rightarrow> nat"
  ModReduce :: "'ct option \<Rightarrow> 'ct option result"
  p_PlaintextModulus :: "'cc \<Rightarrow> u32"
  p_Encrypt :: "'pk option \<Rightarrow> 64 word list \<Rightarrow> 'ct option"
  p_Decrypt :: "'sk option \<Rightarrow> 'ct option \<Rightarrow> 64 word list result"

record ('cc, 'pk, 'sk) ks_state =
  ks_cc :: "'cc option"
  authorizedConsumers :: "string list"
  ks_PublicKeys :: "string \<times> string \<rightharpoonup> 'pk option"
  PrivateKeys :: "string \<times> string \<rightharpoonup> 'sk option"
  RecdPublicKeys :: "string \<times> string \<rightharpoonup> 'pk option"
  key_draws :: nat

definition ks_state0 :: "'cc option \<Rightarrow> string list \<Rightarrow> ('cc, 'pk, 'sk) ks_state" where
  "ks_state0 c amap = \<lparr> ks_cc = c, authorizedConsumers = amap, ks_PublicKeys = Map.empty,
     PrivateKeys = Map.empty, RecdPublicKeys = Map.empty, key_draws = 0 \<rparr>"

type_synonym ('cc, 'pk, 'sk, 'w) ks_servicer =
  "(('cc, 'pk, 'sk) ks_state \<times> 'w, ks_method, ks_request, MessageReturn) servicer"

section \<open>Actions on the own state and on the world\<close>

definition get_s :: "('s \<times> 'w, 's) act" where
  "get_s x = (Inr (fst x), x)"

definition modify_s :: "('s \<Rightarrow> 's) \<Rightarrow> ('s \<times> 'w, unit) act" where
  "modify_s f x = (Inr (), (f (fst x), snd x))"

definition remote :: "('w, 'a) act \<Rightarrow> ('s \<times> 'w, 'a) act" where
  \<comment> \<open>a call to another process\<close>
  "remote m x = (case m (snd x) of (r, w) \<Rightarrow> (r, (fst x, w)))"

lemma state_acts [simp]:
  "get_s (s, w) = (Inr s, (s, w))"
  "modify_s f (s, w) = (Inr (), (f s, w))"
  "remote m (s, w) = (fst (m w), (s, snd (m w)))"
  by (simp_all add: get_s_def modify_s_def remote_def split: prod.splits)

lemma state_binds [simp]:
  "abind get_s f (s, w) = f s (s, w)"
  "abind (modify_s g) k (s, w) = k () (g s, w)"
  by (simp_all add: abind_def)

definition guard_ser :: "string \<Rightarrow> bytes \<Rightarrow> ('w, bytes) act" where
  \<comment> \<open>if (!os.str().size()) OPENFHE_THROW(serialize_error, what)\<close>
  "guard_ser what os = abind (require (os \<noteq> []) (Serialize_error what)) (\<lambda>_. ret os)"

lemma guard_ser_simps [simp]:
  "os \<noteq> [] \<Longrightarrow> guard_ser what os w = (Inr os, w)"
  "guard_ser what [] w = (Inl (Serialize_error what), w)"
  by (simp_all add: guard_ser_def abind_require)

section \<open>The servicers\<close>

definition ks_CryptoContextRequestServicer ::
  "('cc, 'pk, 'sk, 'rk, 'ct) pre_lib \<Rightarrow> ('cc, 'pk, 'sk, 'w) ks_servicer" where
  "ks_CryptoContextRequestServicer L = \<lparr> sv_method = CryptoContextFromServer_m, sv_process = (\<lambda>request.
     abind get_s (\<lambda>s.
     abind (guard_ser ''CryptoContext serialization error'' (p_ser_cc L (ks_cc s))) (\<lambda>os.
     ret (MessageReturn0\<lparr>mr_cryptocontext := os\<rparr>)))) \<rparr>"

definition CryptoContextRequest_BrokerServicer ::
  "('cc, 'pk, 'sk, 'rk, 'ct) pre_lib \<Rightarrow> ('cc, 'pk, 'sk, 'w) ks_servicer" where
  "CryptoContextRequest_BrokerServicer L = \<lparr> sv_method = CryptoContextRequestFromServer_Broker_m, sv_process = (\<lambda>(_, request).
     abind get_s (\<lambda>s.
     abind (guard_ser ''CryptoContext serialization error'' (p_ser_cc L (ks_cc s))) (\<lambda>os.
     let client_name = rq_client_name request in
     abind (require (ks_cc s \<noteq> None) (Undefined ''KeyGen of a null context'')) (\<lambda>_.
     let keyPair = p_KeyGen L (key_draws s) in
     abind (modify_s (\<lambda>s. s\<lparr>key_draws := Suc (key_draws s),
         ks_PublicKeys := (ks_PublicKeys s)((''broker'', client_name) \<mapsto> fst keyPair),
         PrivateKeys := (PrivateKeys s)((''broker'', client_name) \<mapsto> snd keyPair)\<rparr>)) (\<lambda>_.
     ret (MessageReturn0\<lparr>mr_cryptocontext := os\<rparr>)))))) \<rparr>"

definition CryptoContextRequest_ServerServicer ::
  "('cc, 'pk, 'sk, 'rk, 'ct) pre_lib \<Rightarrow> ('cc, 'pk, 'sk, 'w) ks_servicer" where
  "CryptoContextRequest_ServerServicer L = \<lparr> sv_method = CryptoContextRequestFromServer_Server_m, sv_process = (\<lambda>request.
     abind get_s (\<lambda>s.
     abind (guard_ser ''CryptoContext serialization error'' (p_ser_cc L (ks_cc s))) (\<lambda>os.
     ret (MessageReturn0\<lparr>mr_cryptocontext := os\<rparr>)))) \<rparr>"

definition PrivateKeyRequestServicer ::
  "('cc, 'pk, 'sk, 'rk, 'ct) pre_lib \<Rightarrow> ('cc, 'pk, 'sk, 'w) ks_servicer" where
  "PrivateKeyRequestServicer L = \<lparr> sv_method = PrivateKeyFromProducer_m, sv_process = (\<lambda>(_, request).
     let client_name = rq_client_name request in
     abind (require (rq_pkey request \<noteq> []) (Openfhe_error ''Received empty private key buffer'')) (\<lambda>_.
     abind (lift_r (p_deser_sk L (rq_pkey request))) (\<lambda>pkey.
     abind (require (pkey \<noteq> None) (Deserialize_error ''Private key de-serialization error'')) (\<lambda>_.
     abind (modify_s (\<lambda>s. s\<lparr>PrivateKeys := (PrivateKeys s)((''producer'', client_name) \<mapsto> pkey)\<rparr>)) (\<lambda>_.
     ret (MessageReturn0\<lparr>mr_acknowledgement := ''Received PKEY. Thank you, Your Server''\<rparr>)))))) \<rparr>"

definition ks_PublicKeyRequestServicer ::
  "('cc, 'pk, 'sk, 'rk, 'ct) pre_lib \<Rightarrow> ('cc, 'pk, 'sk, 'w) ks_servicer" where
  "ks_PublicKeyRequestServicer L = \<lparr> sv_method = PublicKeyFromClient_m, sv_process = (\<lambda>(_, request).
     let client_type = rq_client_type request; client_name = rq_client_name request in
     abind (require (rq_pkey request \<noteq> []) (Openfhe_error ''Received empty public key buffer'')) (\<lambda>_.
     abind (lift_r (p_deser_pk L (rq_pkey request))) (\<lambda>pkey.
     abind (require (pkey \<noteq> None) (Deserialize_error ''public key de-serialization error'')) (\<lambda>_.
     abind (modify_s (\<lambda>s. s\<lparr>ks_PublicKeys := (ks_PublicKeys s)((client_type, client_name) \<mapsto> pkey)\<rparr>)) (\<lambda>_.
     abind get_s (\<lambda>s.
     abind (require (idx_val None (ks_PublicKeys s) (client_type, client_name) \<noteq> None)
       (Deserialize_error ''public keys vector not assigned error'')) (\<lambda>_.
     ret (MessageReturn0\<lparr>mr_acknowledgement := ''Received PKEY. Thank you, Your Server''\<rparr>)))))))) \<rparr>"

definition pubkey_reply ::
  "('cc, 'pk, 'sk, 'rk, 'ct) pre_lib \<Rightarrow> ('w, ks_request) upstream \<Rightarrow> string \<Rightarrow> string \<Rightarrow> 'pk option \<Rightarrow> ('w, MessageReturn) act" where
  \<comment> \<open>PublicKeyToBrokerRequestServicer::Proceed once pkey is read\<close>
  "pubkey_reply L up client_type client_name pkey =
     (if pkey = None then
       (if client_type = ''producer'' then ret (MessageReturn0\<lparr>producerRegistered := False\<rparr>)
        else abind (u_PublicKeyToServer up [] client_type client_name) (\<lambda>(_, reply_publickeyclient).
             if reply_publickeyclient = [] then ret (MessageReturn0\<lparr>keyAvailable := False\<rparr>)
             else ret (MessageReturn0\<lparr>keyAvailable := True, mr_pkey := reply_publickeyclient\<rparr>)))
     else abind (guard_ser ''Producer public key serialization error'' (p_ser_pk L pkey)) (\<lambda>os.
          ret (MessageReturn0\<lparr>producerRegistered := (client_type = ''producer''), keyAvailable := True, mr_pkey := os\<rparr>)))"

definition PublicKeyToBrokerRequestServicer ::
  "('cc, 'pk, 'sk, 'rk, 'ct) pre_lib \<Rightarrow> ('w, ks_request) upstream \<Rightarrow> ('cc, 'pk, 'sk, 'w) ks_servicer" where
  "PublicKeyToBrokerRequestServicer L up = \<lparr> sv_method = PublicKeyToBroker_m, sv_process = (\<lambda>(_, request).
     let client_type = rq_client_type request; client_name = rq_client_name request in
     abind get_s (\<lambda>s.
     let pkey = idx_val None (ks_PublicKeys s) (client_type, client_name) in
     abind (modify_s (\<lambda>s. s\<lparr>ks_PublicKeys := idx_map None (ks_PublicKeys s) (client_type, client_name)\<rparr>)) (\<lambda>_.
     remote (pubkey_reply L up client_type client_name pkey)))) \<rparr>"

definition gen_rekey ::
  "('cc, 'pk, 'sk, 'rk, 'ct) pre_lib \<Rightarrow> string list \<Rightarrow> string \<Rightarrow> 'cc option \<Rightarrow> 'sk \<Rightarrow> 'pk option \<Rightarrow> 'rk option result" where
  \<comment> \<open>if (std::find(amap.begin(), amap.end(), client_name) != amap.end()) reencryptionKey = cc->ReKeyGen(...)\<close>
  "gen_rekey L amap client_name c senderPrivateKey receiverPublicKey =
     (if client_name \<in> set amap
      then (if c = None then Inl (Undefined ''ReKeyGen of a null context'')
            else ReKeyGen L senderPrivateKey receiverPublicKey)
      else Inr None)"

definition rekey_reply ::
  "('cc, 'pk, 'sk, 'rk, 'ct) pre_lib \<Rightarrow> ('w, ks_request) upstream \<Rightarrow> 'cc option \<Rightarrow> string list \<Rightarrow> MessageRequest
   \<Rightarrow> 'pk option \<Rightarrow> 'sk option \<Rightarrow> ('w, MessageReturn) act" where
  \<comment> \<open>ReencryptionKeyRequestServicer::Proceed once both keys are read\<close>
  "rekey_reply L up c amap request receiverPublicKey senderPrivateKey =
     (let client_name = rq_client_name request; client_type = rq_client_type request;
          upstream_client_name = rq_upstream_client_name request; upstream_client_type = rq_upstream_client_type request;
          reply = (if c = None \<or> receiverPublicKey = None then MessageReturn0\<lparr>keyAvailable := False\<rparr> else MessageReturn0) in
     abind (guard_ser ''receiver public key serialization error'' (p_ser_pk L receiverPublicKey)) (\<lambda>os.
     case senderPrivateKey of
       None \<Rightarrow>
         if upstream_client_type = ''producer'' then ret (reply\<lparr>producerRegistered := False\<rparr>)
         else abind (u_PublicKeyfromServer up os client_type client_name) (\<lambda>_.
              abind (u_ReEncryptionKeyToServer up [] client_type client_name upstream_client_name upstream_client_type)
                (\<lambda>(_, reply_reencryptionkey). ret (reply\<lparr>keyAvailable := True, reKey := reply_reencryptionkey\<rparr>)))
     | Some sk \<Rightarrow>
         let reply = (if upstream_client_type = ''producer'' then reply\<lparr>producerRegistered := True\<rparr> else reply) in
         abind (lift_r (gen_rekey L amap client_name c sk receiverPublicKey)) (\<lambda>reencryptionKey.
         abind (guard_ser ''Re-encryption key serialization error'' (p_ser_rk L reencryptionKey)) (\<lambda>osr.
         ret (reply\<lparr>keyAvailable := True, reKey := osr\<rparr>)))))"

definition ReencryptionKeyRequestServicer ::
  "('cc, 'pk, 'sk, 'rk, 'ct) pre_lib \<Rightarrow> ('w, ks_request) upstream \<Rightarrow> ('cc, 'pk, 'sk, 'w) ks_servicer" where
  "ReencryptionKeyRequestServicer L up = \<lparr> sv_method = ReEncryptionKeyToBroker_m, sv_process = (\<lambda>(_, request).
     let client_name = rq_client_name request; client_type = rq_client_type request;
         upstream_client_name = rq_upstream_client_name request; upstream_client_type = rq_upstream_client_type request in
     abind get_s (\<lambda>s.
     let receiverPublicKey = idx_val None (ks_PublicKeys s) (client_type, client_name);
         senderPrivateKey = idx_val None (PrivateKeys s) (upstream_client_type, upstream_client_name) in
     abind (modify_s (\<lambda>s. s\<lparr>ks_PublicKeys := idx_map None (ks_PublicKeys s) (client_type, client_name),
         PrivateKeys := idx_map None (PrivateKeys s) (upstream_client_type, upstream_client_name)\<rparr>)) (\<lambda>_.
     remote (rekey_reply L up (ks_cc s) (authorizedConsumers s) request receiverPublicKey senderPrivateKey)))) \<rparr>"

definition PublicKeyToServerRequestServicer ::
  "('cc, 'pk, 'sk, 'rk, 'ct) pre_lib \<Rightarrow> ('cc, 'pk, 'sk, 'w) ks_servicer" where
  "PublicKeyToServerRequestServicer L = \<lparr> sv_method = PublicKeyToServer_m, sv_process = (\<lambda>(_, request).
     let client_type = rq_client_type request; client_name = rq_client_name request in
     abind get_s (\<lambda>s.
     let pkey = idx_val None (ks_PublicKeys s) (client_type, client_name) in
     abind (modify_s (\<lambda>s. s\<lparr>ks_PublicKeys := idx_map None (ks_PublicKeys s) (client_type, client_name)\<rparr>)) (\<lambda>_.
     if pkey = None then ret (MessageReturn0\<lparr>keyAvailable := False\<rparr>)
     else abind (guard_ser ''public key serialization error'' (p_ser_pk L pkey)) (\<lambda>os.
          ret (MessageReturn0\<lparr>keyAvailable := True, mr_pkey := os\<rparr>))))) \<rparr>"

definition PublicKeyServerRequestServicer ::
  "('cc, 'pk, 'sk, 'rk, 'ct) pre_lib \<Rightarrow> ('cc, 'pk, 'sk, 'w) ks_servicer" where
  "PublicKeyServerRequestServicer L = \<lparr> sv_method = PublicKeyfromServer_m, sv_process = (\<lambda>(_, request).
     let client_type = rq_client_type request; client_name = rq_client_name request in
     abind (require (rq_pkey request \<noteq> []) (Openfhe_error ''Received empty public key buffer'')) (\<lambda>_.
     abind (lift_r (p_deser_pk L (rq_pkey request))) (\<lambda>pkey.
     abind (require (pkey \<noteq> None) (Deserialize_error ''public key de-serialization error'')) (\<lambda>_.
     abind (modify_s (\<lambda>s. s\<lparr>RecdPublicKeys := (RecdPublicKeys s)((client_type, client_name) \<mapsto> pkey)\<rparr>)) (\<lambda>_.
     abind get_s (\<lambda>s.
     abind (require (idx_val None (RecdPublicKeys s) (client_type, client_name) \<noteq> None)
       (Deserialize_error ''public keys vector not assigned error'')) (\<lambda>_.
     ret (MessageReturn0\<lparr>mr_acknowledgement := ''Received PKEY. Thank you, Your Server''\<rparr>)))))))) \<rparr>"

definition rekey_server_reply ::
  "('cc, 'pk, 'sk, 'rk, 'ct) pre_lib \<Rightarrow> 'cc option \<Rightarrow> string list \<Rightarrow> string \<Rightarrow> 'pk option \<Rightarrow> 'sk option
   \<Rightarrow> ('w, MessageReturn) act" where
  \<comment> \<open>ReencryptionKeyServerRequestServicer::Proceed once both keys are read\<close>
  "rekey_server_reply L c amap client_name receiverPublicKey senderPrivateKey =
     (case senderPrivateKey of
       None \<Rightarrow> ret (MessageReturn0\<lparr>keyAvailable := False\<rparr>)
     | Some sk \<Rightarrow>
         if c = None \<or> receiverPublicKey = None then ret (MessageReturn0\<lparr>keyAvailable := False\<rparr>)
         else
           abind (lift_r (gen_rekey L amap client_name c sk receiverPublicKey)) (\<lambda>reencryptionKey.
           abind (guard_ser ''Re-encryption key serialization error'' (p_ser_rk L reencryptionKey)) (\<lambda>os.
           ret (MessageReturn0\<lparr>keyAvailable := True, reKey := os\<rparr>))))"

definition ReencryptionKeyServerRequestServicer ::
  "('cc, 'pk, 'sk, 'rk, 'ct) pre_lib \<Rightarrow> ('cc, 'pk, 'sk, 'w) ks_servicer" where
  "ReencryptionKeyServerRequestServicer L = \<lparr> sv_method = ReEncryptionKeyToServer_m, sv_process = (\<lambda>(_, request).
     let client_name = rq_client_name request; client_type = rq_client_type request;
         upstream_client_name = rq_upstream_client_name request; upstream_client_type = rq_upstream_client_type request in
     abind get_s (\<lambda>s.
     let receiverPublicKey = idx_val None (RecdPublicKeys s) (client_type, client_name);
         senderPrivateKey = idx_val None (PrivateKeys s) (upstream_client_type, upstream_client_name) in
     abind (modify_s (\<lambda>s. s\<lparr>RecdPublicKeys := idx_map None (RecdPublicKeys s) (client_type, client_name),
         PrivateKeys := idx_map None (PrivateKeys s) (upstream_client_type, upstream_client_name)\<rparr>)) (\<lambda>_.
     remote (rekey_server_reply L (ks_cc s) (authorizedConsumers s) client_name receiverPublicKey senderPrivateKey)))) \<rparr>"

definition ks_servicers ::
  "('cc, 'pk, 'sk, 'rk, 'ct) pre_lib \<Rightarrow> ('w, ks_request) upstream \<Rightarrow> ('cc, 'pk, 'sk, 'w) ks_servicer list" where
  \<comment> \<open>in the order of HandleRpcs\<close>
  "ks_servicers L up =
     [ks_CryptoContextRequestServicer L, CryptoContextRequest_BrokerServicer L, CryptoContextRequest_ServerServicer L,
      PrivateKeyRequestServicer L, ks_PublicKeyRequestServicer L, PublicKeyToBrokerRequestServicer L up,
      ReencryptionKeyRequestServicer L up, PublicKeyToServerRequestServicer L, PublicKeyServerRequestServicer L,
      ReencryptionKeyServerRequestServicer L]"

definition ks_handler ::
  "('cc, 'pk, 'sk, 'rk, 'ct) pre_lib \<Rightarrow> ('w, ks_request) upstream
   \<Rightarrow> (('cc, 'pk, 'sk) ks_state \<times> 'w, ks_request, MessageReturn) handler" where
  "ks_handler L up = dispatch fst (ks_servicers L up)"

section \<open>Initialisation\<close>

record pre_cc_params =
  PREMode :: string
  KeySwitchTechnique :: string
  FirstModSize :: "u32 option"
  PRENumHops :: "u32 option"
  StatisticalSecurity :: "u32 option"
  NumAdversarialQueries :: "u32 option"
  RingDim :: u32
  DigitSize :: u32
  MultiplicativeDepth :: u32
  pp_PlaintextModulus :: nat
  ScalingTechnique :: string
  SecurityLevel :: string
  Enabled :: "string list"

definition cc_params :: "string \<Rightarrow> pre_cc_params result" where
  \<comment> \<open>the parameters of the first key server's context; hop_limit_ is 5, plaintextModulus_ is 2\<close>
  "cc_params model =
     (let base = \<lparr> PREMode = [], KeySwitchTechnique = ''BV'', FirstModSize = None, PRENumHops = None,
            StatisticalSecurity = None, NumAdversarialQueries = None, RingDim = 0, DigitSize = 0,
            MultiplicativeDepth = 0, pp_PlaintextModulus = 2, ScalingTechnique = ''FIXEDMANUAL'',
            SecurityLevel = ''HEStd_128_quantum'', Enabled = [''PKE'', ''KEYSWITCH'', ''LEVELEDSHE'', ''PRE''] \<rparr>
      in if model = ''INDCPA''
         then Inr (base\<lparr>PREMode := ''INDCPA'', FirstModSize := Some 27, RingDim := 2048, DigitSize := 3\<rparr>)
         else if model = ''FIXED_NOISE_HRA''
         then Inr (base\<lparr>PREMode := ''FIXED_NOISE_HRA'', FirstModSize := Some 54, RingDim := 4096, DigitSize := 16\<rparr>)
         else if model = ''NOISE_FLOODING_HRA''
         then Inr (base\<lparr>PREMode := ''NOISE_FLOODING_HRA'', PRENumHops := Some 5, StatisticalSecurity := Some 40,
                NumAdversarialQueries := Some (push_bit 20 1), RingDim := 32768, DigitSize := 10\<rparr>)
         else if model = ''NOISE_FLOODING_HRA_HYBRID''
         then Inr (base\<lparr>PREMode := ''NOISE_FLOODING_HRA'', KeySwitchTechnique := ''HYBRID'', PRENumHops := Some 5,
                StatisticalSecurity := Some 40, NumAdversarialQueries := Some (push_bit 20 1), RingDim := 32768,
                DigitSize := 0\<rparr>)
         else Inl (Openfhe_error ''Bad security model''))"

definition initializeCC ::
  "('cc, 'pk, 'sk, 'rk, 'ct) pre_lib \<Rightarrow> (pre_cc_params \<Rightarrow> 'cc) \<Rightarrow> ('w, ks_request) upstream \<Rightarrow> PreParams \<Rightarrow> ('w, 'cc option) act" where
  \<comment> \<open>gen: GenCryptoContext\<close>
  "initializeCC L gen up params =
     (if upstream_key_server_socket_address params = []
      then abind (lift_r (cc_params (security_model params))) (\<lambda>p. ret (Some (gen p)))
      else abind (u_CryptoContextRequestFromServer_Server up) (\<lambda>reply_cryptocontext.
           abind (require (reply_cryptocontext \<noteq> []) (Openfhe_error ''Received empty serialized CryptoContext'')) (\<lambda>_.
           abind (lift_r (p_deser_cc L reply_cryptocontext)) (\<lambda>c.
           abind (require (c \<noteq> None) (Deserialize_error ''De-serialized CryptoContext is NULL'')) (\<lambda>_. ret c)))))"

definition ks_init ::
  "('cc, 'pk, 'sk, 'rk, 'ct) pre_lib \<Rightarrow> (pre_cc_params \<Rightarrow> 'cc) \<Rightarrow> ('w, ks_request) upstream \<Rightarrow> files \<Rightarrow> PreParams
   \<Rightarrow> ('w, ('cc, 'pk, 'sk) ks_state) act" where
  \<comment> \<open>Run, up to the main loop\<close>
  "ks_init L gen up fs params =
     abind (require (access_map_path params \<noteq> []) (Openfhe_error ''access map path not specified with -a argument'')) (\<lambda>_.
     abind (lift_r (ParseAccessMap fs (access_map_path params))) (\<lambda>amap.
     abind (initializeCC L gen up params) (\<lambda>c. ret (ks_state0 c amap))))"

end
