(* ===== verification/Pre_Broker.thy ===== *)
theory Pre_Broker
  imports Pre_KS
begin

text \<open>
  The broker of the proxy re-encryption demo (\<^verbatim>\<open>pre_grpc_demo/include/broker_server.h\<close> and the
  \<^verbatim>\<open>broker_*.h\<close> servicers). A broker holds one re-encrypted ciphertext per producer and its routing
  table, a file. It asks its key server for public and re-encryption keys and its upstream broker for
  ciphertexts; both are transports on a world \<open>'w\<close>, and a failed call throws, as in
  \<^verbatim>\<open>BrokerKeyServerInternalClient\<close> and \<^verbatim>\<open>BrokerUpstreamInternalClient\<close>.

  \<open>writable\<close> says which files can be opened for writing. \<^verbatim>\<open>routingTableEmpty || !channelFound\<close> is
  written \<open>\<not> channelFound\<close>: a table with the channel is not empty. Debug files and messages are left out.
\<close>

section \<open>The service and the state\<close>

datatype bk_method =
    CipherTextFromProducer_m
  | ReEncryptedCipherTextToBroker_m
  | CipherTextToConsumer_m

type_synonym bk_request = "bk_method \<times> MessageRequest"

record ('cc, 'ct) broker_state =
  bcc :: "'cc option"
  brokerCTs :: "string \<rightharpoonup> 'ct option"
  bk_files :: files

type_synonym ('cc, 'ct, 'w) bk_servicer =
  "(('cc, 'ct) broker_state \<times> 'w, bk_method, bk_request, MessageReturn) servicer"

section \<open>The internal clients\<close>

definition b_CryptoContextRequestFromServer_Broker :: "('w, ks_request) upstream \<Rightarrow> string \<Rightarrow> ('w, bytes) act" where
  "b_CryptoContextRequestFromServer_Broker ks client_name =
     abind (up_call ks (CryptoContextRequestFromServer_Broker_m, MessageRequest0\<lparr>rq_client_name := client_name\<rparr>))
       (\<lambda>reply. ret (mr_cryptocontext reply))"

definition b_PublicKeyToBroker ::
  "('w, ks_request) upstream \<Rightarrow> bytes \<Rightarrow> string \<Rightarrow> string \<Rightarrow> ('w, MessageReturn \<times> bytes) act" where
  \<comment> \<open>the reply, and the string passed by reference\<close>
  "b_PublicKeyToBroker ks pkey client_type client_name =
     abind (up_call ks (PublicKeyToBroker_m, MessageRequest0\<lparr>rq_client_type := client_type, rq_client_name := client_name\<rparr>))
       (\<lambda>reply. ret (reply, if keyAvailable reply then mr_pkey reply else pkey))"

definition b_ReEncryptionKeyToBroker ::
  "('w, ks_request) upstream \<Rightarrow> bytes \<Rightarrow> string \<Rightarrow> string \<Rightarrow> string \<Rightarrow> string \<Rightarrow> ('w, MessageReturn \<times> bytes) act" where
  "b_ReEncryptionKeyToBroker ks rekey client_type client_name upstream_client_name upstream_client_type =
     abind (up_call ks (ReEncryptionKeyToBroker_m, MessageRequest0\<lparr>rq_client_type := client_type,
         rq_client_name := client_name, rq_upstream_client_name := upstream_client_name,
         rq_upstream_client_type := upstream_client_type\<rparr>))
       (\<lambda>reply. ret (reply, if keyAvailable reply then reKey reply else rekey))"

definition b_ReEncryptedCipherTextToBroker ::
  "('w, bk_request) upstream \<Rightarrow> bytes \<Rightarrow> string \<Rightarrow> string \<Rightarrow> string \<Rightarrow> ('w, MessageReturn \<times> bytes) act" where
  "b_ReEncryptedCipherTextToBroker bu CT client_type client_name ch =
     abind (up_call bu (ReEncryptedCipherTextToBroker_m, MessageRequest0\<lparr>rq_client_type := client_type,
         rq_client_name := client_name, rq_channel_name := ch\<rparr>))
       (\<lambda>reply. ret (reply, if textAvailable reply then mr_ciphertext reply else CT))"

section \<open>Re-encryption\<close>

definition reduce :: "('cc, 'pk, 'sk, 'rk, 'ct) pre_lib \<Rightarrow> 'ct option \<Rightarrow> 'ct option result" where
  \<comment> \<open>if (ct->GetElements()[0].GetNumOfElements() > 1) ct = ModReduce(ct)\<close>
  "reduce L r =
     (case r of
        None \<Rightarrow> Inl (Undefined ''GetElements of a null ciphertext'')
      | Some c \<Rightarrow> if NumOfElements L c > 1 then ModReduce L r else Inr r)"

definition reencrypt ::
  "('cc, 'pk, 'sk, 'rk, 'ct) pre_lib \<Rightarrow> string \<Rightarrow> 'ct option \<Rightarrow> 'rk option \<Rightarrow> 'pk option \<Rightarrow> 'ct option result" where
  \<comment> \<open>the branches on the security model; without HRA the public key is not passed\<close>
  "reencrypt L model ct rk pk =
     (if model = ''INDCPA'' then ReEncrypt L ct rk None
      else if model = ''FIXED_NOISE_HRA'' then ReEncrypt L ct rk pk
      else if model = ''NOISE_FLOODING_HRA'' then rbind (ReEncrypt L ct rk pk) (reduce L)
      else if model = ''NOISE_FLOODING_HRA_HYBRID'' then rbind (ReEncrypt L ct rk pk) (reduce L)
      else Inl (Openfhe_error ''Bad security model''))"

definition received_key :: "string \<Rightarrow> (bytes \<Rightarrow> 'v result) \<Rightarrow> bytes \<Rightarrow> ('w, 'v) act" where
  \<comment> \<open>an exception on an empty buffer, otherwise deserialised\<close>
  "received_key what deser s =
     abind (require (s \<noteq> []) (Openfhe_error (''Received empty serialized '' @ what))) (\<lambda>_. lift_r (deser s))"

definition unless_null ::
  "('cc, 'pk, 'sk, 'rk, 'ct) pre_lib \<Rightarrow> string \<Rightarrow> 'ct option \<Rightarrow> 'rk option \<Rightarrow> 'pk option \<Rightarrow> 'ct option result" where
  \<comment> \<open>if (reencryptionKey) re-encrypt; else the ciphertext itself\<close>
  "unless_null L model ct rk pk = (if rk \<noteq> None then reencrypt L model ct rk pk else Inr ct)"

definition received_ct ::
  "('cc, 'pk, 'sk, 'rk, 'ct) pre_lib \<Rightarrow> bytes \<Rightarrow> ('w, 'ct option) act" where
  "received_ct L s =
     abind (received_key ''cipher text'' (p_deser_ct L) s) (\<lambda>ct.
     abind (require (ct \<noteq> None) (Deserialize_error ''De-serialized ciphertext is NULL'')) (\<lambda>_. ret ct))"

section \<open>The servicers\<close>

definition bk_CipherTextRequestServicer ::
  "('cc, 'pk, 'sk, 'rk, 'ct) pre_lib \<Rightarrow> PreParams \<Rightarrow> ('w, ks_request) upstream \<Rightarrow> ('cc, 'ct, 'w) bk_servicer" where
  "bk_CipherTextRequestServicer L params ks = \<lparr> sv_method = CipherTextFromProducer_m, sv_process = (\<lambda>(_, request).
     let client_name = rq_client_name request in
     abind (require (rq_ctext request \<noteq> []) (Openfhe_error ''Received empty cipher text buffer'')) (\<lambda>_.
     abind (lift_r (p_deser_ct L (rq_ctext request))) (\<lambda>ct.
     abind (require (ct \<noteq> None) (Deserialize_error ''CipherText de-serialization error'')) (\<lambda>_.
     abind (remote (b_PublicKeyToBroker ks [] ''producer'' client_name)) (\<lambda>(_, reply_publickeyclient).
     abind (remote (b_ReEncryptionKeyToBroker ks [] ''broker'' (pre_process_name params) client_name ''producer''))
       (\<lambda>(_, reply_reencryptionkey).
     abind (received_key ''public key'' (p_deser_pk L) reply_publickeyclient) (\<lambda>senderPubKey.
     abind (received_key ''re-encryption key'' (p_deser_rk L) reply_reencryptionkey) (\<lambda>reencryptionKey.
     abind (lift_r (reencrypt L (security_model params) ct reencryptionKey senderPubKey)) (\<lambda>reencryptedCText.
     abind (modify_s (\<lambda>s. s\<lparr>brokerCTs := (brokerCTs s)(client_name \<mapsto> reencryptedCText)\<rparr>)) (\<lambda>_.
     ret (MessageReturn0\<lparr>mr_acknowledgement := ''Received CTEXT. Thank you, Your Server''\<rparr>))))))))))) \<rparr>"

definition cached_ct :: "string \<Rightarrow> (('cc, 'ct) broker_state \<times> 'w, 'ct option \<times> bool) act" where
  \<comment> \<open>reencryptedCText = brokerCTs[producer_name]; producerRegistered = true\<close>
  "cached_ct producer_name =
     abind get_s (\<lambda>s.
     abind (modify_s (\<lambda>s. s\<lparr>brokerCTs := idx_map None (brokerCTs s) producer_name\<rparr>)) (\<lambda>_.
     ret (idx_val None (brokerCTs s) producer_name, True)))"

definition adopt_ct ::
  "('cc, 'pk, 'sk, 'rk, 'ct) pre_lib \<Rightarrow> PreParams \<Rightarrow> string \<Rightarrow> 'ct option \<Rightarrow> bytes \<Rightarrow> bytes
   \<Rightarrow> (('cc, 'ct) broker_state \<times> 'w, 'ct option \<times> bool) act" where
  \<comment> \<open>a ciphertext of the upstream broker is re-encrypted for this broker and kept\<close>
  "adopt_ct L params producer_name ct reply_publickeyclient reply_reencryptionkey =
     abind (received_key ''public key'' (p_deser_pk L) reply_publickeyclient) (\<lambda>senderPubKey.
     abind (received_key ''re-encryption key'' (p_deser_rk L) reply_reencryptionkey) (\<lambda>reencryptionKey.
     abind (lift_r (unless_null L (security_model params) ct reencryptionKey senderPubKey)) (\<lambda>reencryptedCText.
     abind (modify_s (\<lambda>s. s\<lparr>brokerCTs := (brokerCTs s)(producer_name \<mapsto> reencryptedCText)\<rparr>)) (\<lambda>_.
     ret (reencryptedCText, True)))))"

definition upstream_of :: "PreParams \<Rightarrow> string \<Rightarrow> string \<times> string \<times> bool" where
  \<comment> \<open>upstream_client_name, upstream_client_type, source_sink_flag\<close>
  "upstream_of params producer_name =
     (if upstream_broker_name params = [] then (producer_name, ''producer'', True)
      else (upstream_broker_name params, ''broker'', False))"

definition add_route ::
  "(string \<Rightarrow> bool) \<Rightarrow> PreParams \<Rightarrow> string \<Rightarrow> string \<Rightarrow> string \<Rightarrow> bool \<Rightarrow> (('cc, 'ct) broker_state \<times> 'w, unit) act" where
  "add_route writable params ch up down flag =
     abind get_s (\<lambda>s.
     abind (lift_r (UpdateRoutingTable writable (bk_files s) (routingtablepath params) ch (pre_process_name params) up down flag)) (\<lambda>fs.
     modify_s (\<lambda>s. s\<lparr>bk_files := fs\<rparr>)))"

definition ReEncryptedCipherTextToBrokerRequestServicer ::
  "('cc, 'pk, 'sk, 'rk, 'ct) pre_lib \<Rightarrow> (string \<Rightarrow> bool) \<Rightarrow> PreParams \<Rightarrow> ('w, ks_request) upstream \<Rightarrow> ('w, bk_request) upstream
   \<Rightarrow> ('cc, 'ct, 'w) bk_servicer" where
  "ReEncryptedCipherTextToBrokerRequestServicer L writable params ks bu =
     \<lparr> sv_method = ReEncryptedCipherTextToBroker_m, sv_process = (\<lambda>(_, request).
     let client_type = rq_client_type request; downstream_client_name = rq_client_name request;
         client_name = pre_process_name params; requested_channel_name = rq_channel_name request in
     abind (lift_r (at ''SplitString'' (split_on CHR ''-'' requested_channel_name) 0)) (\<lambda>producer_name.
     case upstream_of params producer_name of (upstream_client_name, upstream_client_type, source_sink_flag) \<Rightarrow>
     abind get_s (\<lambda>s.
     abind (lift_r (ParseRoutingTable (bk_files s) (routingtablepath params) (pre_process_name params) downstream_client_name))
       (\<lambda>routingTableData.
     let channelFound = (routingTableData requested_channel_name \<noteq> None) in
     abind
       (if \<not> channelFound \<and> brokerCTs s producer_name = None then
          abind (remote (b_PublicKeyToBroker ks [] upstream_client_type upstream_client_name)) (\<lambda>(_, reply_publickeyclient).
          abind (remote (b_ReEncryptionKeyToBroker ks [] client_type client_name upstream_client_name upstream_client_type))
            (\<lambda>(_, reply_reencryptionkey).
          if upstream_broker_name params = [] then ret (None, False)
          else
            abind (remote (b_ReEncryptedCipherTextToBroker bu [] upstream_client_type client_name requested_channel_name))
              (\<lambda>(replyct, strct).
            if producerRegistered replyct
            then abind (received_ct L strct) (\<lambda>ct.
                 adopt_ct L params producer_name ct reply_publickeyclient reply_reencryptionkey)
            else ret (None, False))))
        else cached_ct producer_name) (\<lambda>(reencryptedCText, registered).
     if registered then
       abind (guard_ser ''CipherText serialization error'' (p_ser_ct L reencryptedCText)) (\<lambda>os.
       abind (add_route writable params requested_channel_name upstream_client_name downstream_client_name source_sink_flag) (\<lambda>_.
       ret (MessageReturn0\<lparr>textAvailable := True, mr_ciphertext := os, producerRegistered := True\<rparr>)))
     else ret (MessageReturn0\<lparr>textAvailable := False, producerRegistered := False\<rparr>)))))) \<rparr>"

definition CipherTextToConsumerRequestServicer ::
  "('cc, 'pk, 'sk, 'rk, 'ct) pre_lib \<Rightarrow> (string \<Rightarrow> bool) \<Rightarrow> PreParams \<Rightarrow> ('w, ks_request) upstream \<Rightarrow> ('w, bk_request) upstream
   \<Rightarrow> ('cc, 'ct, 'w) bk_servicer" where
  "CipherTextToConsumerRequestServicer L writable params ks bu =
     \<lparr> sv_method = CipherTextToConsumer_m, sv_process = (\<lambda>(_, request).
     let client_type = rq_client_type request; client_name = rq_client_name request;
         current_client_name = pre_process_name params; current_client_type = ''broker'';
         requested_channel_name = rq_channel_name request in
     abind (lift_r (at ''SplitString'' (split_on CHR ''-'' requested_channel_name) 0)) (\<lambda>producer_name.
     abind (lift_r (at ''SplitString'' (split_on CHR ''-'' requested_channel_name) 1)) (\<lambda>consumer_in_channel.
     abind (require (client_name = consumer_in_channel)
       (Openfhe_error ''consumer name in channel requested doesn't match the actual consumer name'')) (\<lambda>_.
     case upstream_of params producer_name of (upstream_client_name, upstream_client_type, source_sink_flag) \<Rightarrow>
     abind get_s (\<lambda>s.
     abind (lift_r (ParseRoutingTable (bk_files s) (routingtablepath params) (pre_process_name params) client_name))
       (\<lambda>routingTableData.
     let channelFound = (routingTableData requested_channel_name \<noteq> None) in
     abind (remote (b_PublicKeyToBroker ks [] upstream_client_type upstream_client_name)) (\<lambda>(_, reply_publickeyclient).
     abind (remote (b_ReEncryptionKeyToBroker ks [] current_client_type current_client_name upstream_client_name upstream_client_type))
       (\<lambda>(_, reply_reencryptionkey).
     abind
       (if \<not> channelFound \<and> brokerCTs s producer_name = None then
          if upstream_broker_name params = [] then ret (None, False)
          else
            abind (remote (b_ReEncryptedCipherTextToBroker bu [] upstream_client_type (pre_process_name params) requested_channel_name))
              (\<lambda>(replyct, reply_reencryptedCT).
            if producerRegistered replyct
            then abind (received_ct L reply_reencryptedCT) (\<lambda>ct.
                 adopt_ct L params producer_name ct reply_publickeyclient reply_reencryptionkey)
            else ret (None, False))
        else cached_ct producer_name) (\<lambda>(reencryptedCText, registered).
     abind (remote (b_PublicKeyToBroker ks reply_publickeyclient current_client_type current_client_name)) (\<lambda>(_, reply_publickeyclient).
     abind (remote (b_ReEncryptionKeyToBroker ks reply_reencryptionkey client_type client_name current_client_name current_client_type))
       (\<lambda>(_, reply_reencryptionkey).
     if registered then
       abind (add_route writable params requested_channel_name upstream_client_name client_name source_sink_flag) (\<lambda>_.
       abind (received_key ''public key'' (p_deser_pk L) reply_publickeyclient) (\<lambda>senderPubKey.
       abind (received_key ''re-encryption key'' (p_deser_rk L) reply_reencryptionkey) (\<lambda>reencryptionKey.
       abind (lift_r (unless_null L (security_model params) reencryptedCText reencryptionKey senderPubKey)) (\<lambda>reencryptedCTextConsumer.
       abind (guard_ser ''CipherText serialization error'' (p_ser_ct L reencryptedCTextConsumer)) (\<lambda>os.
       ret (MessageReturn0\<lparr>textAvailable := True, producerRegistered := True, mr_ciphertext := os\<rparr>))))))
     else ret (MessageReturn0\<lparr>producerRegistered := False, textAvailable := False\<rparr>)))))))))))) \<rparr>"

definition bk_servicers ::
  "('cc, 'pk, 'sk, 'rk, 'ct) pre_lib \<Rightarrow> (string \<Rightarrow> bool) \<Rightarrow> PreParams \<Rightarrow> ('w, ks_request) upstream \<Rightarrow> ('w, bk_request) upstream
   \<Rightarrow> ('cc, 'ct, 'w) bk_servicer list" where
  \<comment> \<open>in the order of HandleRpcs\<close>
  "bk_servicers L writable params ks bu =
     [bk_CipherTextRequestServicer L params ks,
      ReEncryptedCipherTextToBrokerRequestServicer L writable params ks bu,
      CipherTextToConsumerRequestServicer L writable params ks bu]"

definition bk_handler ::
  "('cc, 'pk, 'sk, 'rk, 'ct) pre_lib \<Rightarrow> (string \<Rightarrow> bool) \<Rightarrow> PreParams \<Rightarrow> ('w, ks_request) upstream \<Rightarrow> ('w, bk_request) upstream
   \<Rightarrow> (('cc, 'ct) broker_state \<times> 'w, bk_request, MessageReturn) handler" where
  "bk_handler L writable params ks bu = dispatch fst (bk_servicers L writable params ks bu)"

section \<open>Initialisation\<close>

definition bk_init ::
  "('cc, 'pk, 'sk, 'rk, 'ct) pre_lib \<Rightarrow> (string \<Rightarrow> bool) \<Rightarrow> PreParams \<Rightarrow> ('w, ks_request) upstream \<Rightarrow> files
   \<Rightarrow> ('w, ('cc, 'ct) broker_state) act" where
  \<comment> \<open>Run, up to the main loop\<close>
  "bk_init L writable params ks fs =
     (let fs = ClearRoutingTable writable fs (routingtablepath params @ pre_process_name params) in
      abind (b_CryptoContextRequestFromServer_Broker ks (pre_process_name params)) (\<lambda>reply_cryptocontext.
      abind (received_key ''CryptoContext'' (p_deser_cc L) reply_cryptocontext) (\<lambda>c.
      abind (require (c \<noteq> None) (Deserialize_error ''De-serialized CryptoContext is NULL'')) (\<lambda>_.
      ret \<lparr> bcc = c, brokerCTs = Map.empty, bk_files = fs \<rparr>))))"

end
