(* ===== verification/Pre_Clients.thy ===== *)
theory Pre_Clients
  imports Pre_Broker Hex_Codec
begin

text \<open>
  The producer and the consumer of the proxy re-encryption demo: the stubs of \<^verbatim>\<open>pre_producer.h\<close> and
  \<^verbatim>\<open>pre_consumer.h\<close> and the programs \<^verbatim>\<open>pre_producer_demo.cpp\<close> and \<^verbatim>\<open>pre_consumer_demo.cpp\<close>. Both run on a
  world with two transports, to the key server and to a broker. A program's key pair is draw \<open>n\<close>
  of \<^verbatim>\<open>KeyGen\<close>. The consumer polls in a loop that need not end; its result is None when it does not.

  The last section puts the servers behind transports: one request at a time, and an exception
  in a handler ends the server, as \<^verbatim>\<open>HandleRpcs\<close> does.
\<close>

section \<open>The producer\<close>

definition prod_CryptoContextFromServer :: "('w, ks_request) upstream \<Rightarrow> ('w, bytes) act" where
  "prod_CryptoContextFromServer ks =
     abind (up_call ks (CryptoContextFromServer_m, MessageRequest0)) (\<lambda>reply. ret (mr_cryptocontext reply))"

definition prod_PrivateKeyFromProducer :: "('w, ks_request) upstream \<Rightarrow> bytes \<Rightarrow> string \<Rightarrow> ('w, string) act" where
  "prod_PrivateKeyFromProducer ks pkey client_name =
     abind (up_call ks (PrivateKeyFromProducer_m, MessageRequest0\<lparr>rq_pkey := pkey, rq_client_name := client_name\<rparr>))
       (\<lambda>reply. ret (mr_acknowledgement reply))"

definition prod_PublicKeyFromClient :: "('w, ks_request) upstream \<Rightarrow> bytes \<Rightarrow> string \<Rightarrow> ('w, string) act" where
  "prod_PublicKeyFromClient ks pkey client_name =
     abind (up_call ks (PublicKeyFromClient_m, MessageRequest0\<lparr>rq_pkey := pkey, rq_client_type := ''producer'',
         rq_client_name := client_name\<rparr>))
       (\<lambda>reply. ret (mr_acknowledgement reply))"

definition prod_CipherTextFromProducer :: "('w, bk_request) upstream \<Rightarrow> bytes \<Rightarrow> string \<Rightarrow> ('w, string) act" where
  "prod_CipherTextFromProducer bu cText client_name =
     abind (up_call bu (CipherTextFromProducer_m, MessageRequest0\<lparr>rq_ctext := cText, rq_client_name := client_name\<rparr>))
       (\<lambda>reply. ret (mr_acknowledgement reply))"

definition pre_genCT ::
  "('cc, 'pk, 'sk, 'rk, 'ct) pre_lib \<Rightarrow> files \<Rightarrow> 'cc \<Rightarrow> 'pk option \<Rightarrow> PreParams \<Rightarrow> 'ct option result" where
  "pre_genCT L fs c publicKey params =
     (let plaintextModulus = p_PlaintextModulus L c in
      if plaintextModulus < 2 then Inl (Math_error ''code is designed for plaintextModulus =2'')
      else (case fs (producer_aes_key params @ ''_'' @ pre_process_name params) of
          None \<Rightarrow> Inl (Exit_failure ''Unable to open key file'')
        | Some content \<Rightarrow>
            let aes_key = (case tokens content of [] \<Rightarrow> [] | t # _ \<Rightarrow> t) in
            rbind (hexstr2intvec aes_key plaintextModulus) (\<lambda>vecofInts.
              Inr (p_Encrypt L publicKey vecofInts))))"

definition client_context ::
  "('cc, 'pk, 'sk, 'rk, 'ct) pre_lib \<Rightarrow> ('w, bytes) act \<Rightarrow> ('w, 'cc) act" where
  "client_context L CryptoContextFromServer =
     abind CryptoContextFromServer (\<lambda>ser.
     abind (received_key ''CryptoContext'' (p_deser_cc L) ser) (\<lambda>c.
       case c of None \<Rightarrow> throw (Deserialize_error ''De-serialized CryptoContext is NULL'') | Some ctx \<Rightarrow> ret ctx))"

definition pre_producer ::
  "('cc, 'pk, 'sk, 'rk, 'ct) pre_lib \<Rightarrow> nat \<Rightarrow> files \<Rightarrow> PreParams \<Rightarrow> ('w, ks_request) upstream \<Rightarrow> ('w, bk_request) upstream
   \<Rightarrow> ('w, unit) act" where
  \<comment> \<open>main of pre_producer_demo.cpp\<close>
  "pre_producer L n fs params ks bu =
     (let client_name = pre_process_name params in
      abind (client_context L (prod_CryptoContextFromServer ks)) (\<lambda>c.
      let keyPair = p_KeyGen L n in
      abind (guard_ser ''Serialized private key is empty'' (p_ser_sk L (snd keyPair))) (\<lambda>osKey.
      abind (prod_PrivateKeyFromProducer ks osKey client_name) (\<lambda>_.
      abind (guard_ser ''Serialized public key is empty'' (p_ser_pk L (fst keyPair))) (\<lambda>ospKey.
      abind (prod_PublicKeyFromClient ks ospKey client_name) (\<lambda>_.
      abind (lift_r (pre_genCT L fs c (fst keyPair) params)) (\<lambda>cipherText.
      abind (guard_ser ''Serialized cipther text is empty'' (p_ser_ct L cipherText)) (\<lambda>osCT.
      abind (prod_CipherTextFromProducer bu osCT client_name) (\<lambda>_. ret ())))))))))"

section \<open>The consumer\<close>

definition cons_CryptoContextFromServer :: "('w, ks_request) upstream \<Rightarrow> ('w, bytes) act" where
  "cons_CryptoContextFromServer ks =
     abind (up_call ks (CryptoContextFromServer_m, MessageRequest0)) (\<lambda>reply. ret (mr_cryptocontext reply))"

definition cons_PublicKeyFromClient :: "('w, ks_request) upstream \<Rightarrow> bytes \<Rightarrow> string \<Rightarrow> ('w, string) act" where
  "cons_PublicKeyFromClient ks pkey client_name =
     abind (up_call ks (PublicKeyFromClient_m, MessageRequest0\<lparr>rq_pkey := pkey, rq_client_type := ''consumer'',
         rq_client_name := client_name\<rparr>))
       (\<lambda>reply. ret (mr_acknowledgement reply))"

definition cons_CipherTextToConsumer ::
  "('w, bk_request) upstream \<Rightarrow> bytes \<Rightarrow> string \<Rightarrow> string \<Rightarrow> string \<Rightarrow> string \<Rightarrow> ('w, MessageReturn \<times> bytes) act" where
  "cons_CipherTextToConsumer bu cText client_type client_name broker ch =
     abind (up_call bu (CipherTextToConsumer_m, MessageRequest0\<lparr>rq_client_type := client_type,
         rq_client_name := client_name, rq_upstream_client_name := broker, rq_channel_name := ch\<rparr>))
       (\<lambda>reply. ret (reply, if textAvailable reply then mr_ciphertext reply else cText))"

partial_function (option) await_text ::
  "(bytes \<Rightarrow> ('w, MessageReturn \<times> bytes) act) \<Rightarrow> MessageReturn \<Rightarrow> bytes \<Rightarrow> 'w \<Rightarrow> (bytes result \<times> 'w) option" where
  \<comment> \<open>while (!replyct.textavailable()) ask again\<close>
  "await_text ask replyct s w =
     (if textAvailable replyct then Some (Inr s, w)
      else (case ask s w of
          (Inl e, w') \<Rightarrow> Some (Inl e, w')
        | (Inr (replyct', s'), w') \<Rightarrow> await_text ask replyct' s' w'))"

definition decrypted_key :: "('cc, 'pk, 'sk, 'rk, 'ct) pre_lib \<Rightarrow> 'cc \<Rightarrow> 'sk option \<Rightarrow> bytes \<Rightarrow> string result" where
  \<comment> \<open>from the serialised ciphertext to the AES key\<close>
  "decrypted_key L c sk serializedCipherText =
     (if serializedCipherText = [] then Inl (Openfhe_error ''Received empty serialized cipher text'')
      else rbind (p_deser_ct L serializedCipherText) (\<lambda>ct.
        if ct = None then Inl (Deserialize_error ''De-serialized ciphertext is NULL'')
        else rbind (p_Decrypt L sk ct) (\<lambda>decryptedVec.
          if length decryptedVec < 256 then Inl (Undefined ''decryptedVec[i]'')
          else intvec2hexstr (take 256 decryptedVec) (p_PlaintextModulus L c))))"

definition store_key ::
  "('cc, 'pk, 'sk, 'rk, 'ct) pre_lib \<Rightarrow> nat \<Rightarrow> (string \<Rightarrow> bool) \<Rightarrow> files \<Rightarrow> PreParams \<Rightarrow> 'cc \<Rightarrow> bytes \<Rightarrow> files result" where
  \<comment> \<open>the program after the loop\<close>
  "store_key L n writable fs params c serializedCipherText =
     rbind (decrypted_key L c (snd (p_KeyGen L n)) serializedCipherText) (\<lambda>unpackedConsumer.
       let keyoutfile = consumer_aes_key params @ ''_'' @ channel_name params in
       if \<not> writable keyoutfile then Inl (Exit_failure ''Unable to open key file'')
       else Inr (fs(keyoutfile \<mapsto> unpackedConsumer)))"

definition consumer_request ::
  "('cc, 'pk, 'sk, 'rk, 'ct) pre_lib \<Rightarrow> nat \<Rightarrow> PreParams \<Rightarrow> ('w, ks_request) upstream \<Rightarrow> ('w, bk_request) upstream
   \<Rightarrow> ('w, 'cc \<times> MessageReturn \<times> bytes) act" where
  \<comment> \<open>up to the loop\<close>
  "consumer_request L n params ks bu =
     (let client_name = pre_process_name params in
      abind (require (channel_name params \<noteq> []) (Openfhe_error ''Channel name not available'')) (\<lambda>_.
      abind (client_context L (cons_CryptoContextFromServer ks)) (\<lambda>c.
      let keyPair = p_KeyGen L n in
      abind (guard_ser ''Serialized public key is empty'' (p_ser_pk L (fst keyPair))) (\<lambda>osKey.
      abind (cons_PublicKeyFromClient ks osKey client_name) (\<lambda>_.
      abind (cons_CipherTextToConsumer bu [] ''consumer'' client_name (upstream_broker_name params) (channel_name params))
        (\<lambda>(replyct, s).
      abind (require (producerRegistered replyct) (Openfhe_error ''Producer not registered with the key server'')) (\<lambda>_.
      ret (c, replyct, s))))))))"

definition pre_consumer ::
  "('cc, 'pk, 'sk, 'rk, 'ct) pre_lib \<Rightarrow> nat \<Rightarrow> (string \<Rightarrow> bool) \<Rightarrow> files \<Rightarrow> PreParams
   \<Rightarrow> ('w, ks_request) upstream \<Rightarrow> ('w, bk_request) upstream \<Rightarrow> 'w \<Rightarrow> (files result \<times> 'w) option" where
  \<comment> \<open>main of pre_consumer_demo.cpp: the files it leaves\<close>
  "pre_consumer L n writable fs params ks bu w =
     (case consumer_request L n params ks bu w of
        (Inl e, w') \<Rightarrow> Some (Inl e, w')
      | (Inr (c, replyct, s), w') \<Rightarrow>
          (case await_text (\<lambda>s. cons_CipherTextToConsumer bu s ''consumer'' (pre_process_name params)
                 (upstream_broker_name params) (channel_name params)) replyct s w' of
             None \<Rightarrow> None
           | Some (Inl e, w'') \<Rightarrow> Some (Inl e, w'')
           | Some (Inr serializedCipherText, w'') \<Rightarrow>
               Some (store_key L n writable fs params c serializedCipherText, w'')))"

section \<open>Servers behind transports\<close>

definition rpc_to :: "string \<Rightarrow> ('s, 'q, MessageReturn) handler \<Rightarrow> ('s \<times> bool, 'q) upstream" where
  \<comment> \<open>a server with a flag, whether it is running; msg is the status of a call to a dead one\<close>
  "rpc_to msg h q x =
     (if snd x then (case h q (fst x) of
          (Inl e, s) \<Rightarrow> (Inl msg, (s, False))
        | (Inr p, s) \<Rightarrow> (Inr p, (s, True)))
      else (Inl msg, x))"

definition on_snd :: "('w, 'q) upstream \<Rightarrow> ('s \<times> 'w, 'q) upstream" where
  "on_snd up q x = (case up q (snd x) of (r, w) \<Rightarrow> (r, (fst x, w)))"

definition on_fst :: "('s, 'q) upstream \<Rightarrow> ('s \<times> 'w, 'q) upstream" where
  "on_fst up q x = (case up q (fst x) of (r, s) \<Rightarrow> (r, (s, snd x)))"

definition unreachable :: "string \<Rightarrow> ('w, 'q) upstream" where
  \<comment> \<open>an address nobody listens at\<close>
  "unreachable msg q w = (Inl msg, w)"

lemma transport_simps [simp]:
  "rpc_to msg h q (s, False) = (Inl msg, (s, False))"
  "h q s = (Inr p, s') \<Longrightarrow> rpc_to msg h q (s, True) = (Inr p, (s', True))"
  "h q s = (Inl e, s') \<Longrightarrow> rpc_to msg h q (s, True) = (Inl msg, (s', False))"
  "on_snd up q (s, w) = (fst (up q w), (s, snd (up q w)))"
  "on_fst up' q (t, w) = (fst (up' q t), (snd (up' q t), w))"
  "unreachable msg q w = (Inl msg, w)"
  by (simp_all add: rpc_to_def on_snd_def on_fst_def unreachable_def split: prod.splits)

end
