(* ===== verification/Pre_Scheme.thy ===== *)
theory Pre_Scheme
  imports Pre_Clients
begin

text \<open>
  What the programs of the proxy demo rely on in OpenFHE, as predicates on the record of its functions:
  \<open>serial_ok\<close>, serialised objects are read back; \<open>scheme_ok\<close>, a re-encryption key from one key pair to
  another turns ciphertexts of the first into ciphertexts of the second. \<open>toy_scheme\<close> is a record with
  both, on which the witnesses run: a ciphertext carries the number of its key pair and the plain vector.
\<close>

section \<open>Serialisation and the scheme\<close>

definition serial_ok :: "('cc, 'pk, 'sk, 'rk, 'ct) pre_lib \<Rightarrow> bool" where
  "serial_ok L \<longleftrightarrow>
     (\<forall>c. p_ser_cc L (Some c) \<noteq> [] \<and> p_deser_cc L (p_ser_cc L (Some c)) = Inr (Some c))
   \<and> (\<forall>k. p_ser_pk L (Some k) \<noteq> [] \<and> p_deser_pk L (p_ser_pk L (Some k)) = Inr (Some k))
   \<and> (\<forall>k. p_ser_sk L (Some k) \<noteq> [] \<and> p_deser_sk L (p_ser_sk L (Some k)) = Inr (Some k))
   \<and> (\<forall>k. p_ser_rk L k \<noteq> [] \<and> p_deser_rk L (p_ser_rk L k) = Inr k)
   \<and> (\<forall>c. p_ser_ct L (Some c) \<noteq> [] \<and> p_deser_ct L (p_ser_ct L (Some c)) = Inr (Some c))"

lemma serial_okD:
  assumes "serial_ok L"
  shows "p_ser_cc L (Some c) \<noteq> []" "p_deser_cc L (p_ser_cc L (Some c)) = Inr (Some c)"
    "p_ser_pk L (Some k) \<noteq> []" "p_deser_pk L (p_ser_pk L (Some k)) = Inr (Some k)"
    "p_ser_sk L (Some s) \<noteq> []" "p_deser_sk L (p_ser_sk L (Some s)) = Inr (Some s)"
    "p_ser_rk L r \<noteq> []" "p_deser_rk L (p_ser_rk L r) = Inr r"
    "p_ser_ct L (Some ct) \<noteq> []" "p_deser_ct L (p_ser_ct L (Some ct)) = Inr (Some ct)"
  using assms by (simp_all add: serial_ok_def)

definition bits256 :: "64 word list \<Rightarrow> bool" where
  \<comment> \<open>what the programs encrypt: the bits of a key of 32 bytes\<close>
  "bits256 v \<longleftrightarrow> length v = 256 \<and> set v \<subseteq> {0, 1}"

definition scheme_ok ::
  "('cc, 'pk, 'sk, 'rk, 'ct) pre_lib \<Rightarrow> (nat \<Rightarrow> nat \<Rightarrow> 64 word list \<Rightarrow> 'ct \<Rightarrow> bool) \<Rightarrow> bool" where
  \<comment> \<open>enc h i v c: c encrypts v for the key pair of draw i and comes from h re-encryptions, two at most: the
    broker's and the consumer's\<close>
  "scheme_ok L enc \<longleftrightarrow>
     (\<forall>i. \<exists>pk sk. p_KeyGen L i = (Some pk, Some sk))
   \<and> (\<forall>i v. bits256 v \<longrightarrow> (\<exists>c. p_Encrypt L (fst (p_KeyGen L i)) v = Some c \<and> enc 0 i v c))
   \<and> (\<forall>i j sk. snd (p_KeyGen L i) = Some sk \<longrightarrow>
        (\<exists>rk. ReKeyGen L sk (fst (p_KeyGen L j)) = Inr (Some rk)
         \<and> (\<forall>h v c pk. h < 2 \<longrightarrow> bits256 v \<longrightarrow> enc h i v c \<longrightarrow> pk \<in> {None, fst (p_KeyGen L i)} \<longrightarrow>
              (\<exists>c'. ReEncrypt L (Some c) (Some rk) pk = Inr (Some c') \<and> enc (Suc h) j v c'))))
   \<and> (\<forall>h i v c. h \<le> 2 \<longrightarrow> bits256 v \<longrightarrow> enc h i v c \<longrightarrow> NumOfElements L c > 1
        \<longrightarrow> (\<exists>c'. ModReduce L (Some c) = Inr (Some c') \<and> enc h i v c'))
   \<and> (\<forall>h i v c. h \<le> 2 \<longrightarrow> bits256 v \<longrightarrow> enc h i v c
        \<longrightarrow> (\<exists>rest. p_Decrypt L (snd (p_KeyGen L i)) (Some c) = Inr (v @ rest)))"

lemma scheme_keys: "scheme_ok L enc \<Longrightarrow> \<exists>pk sk. p_KeyGen L i = (Some pk, Some sk)"
  by (simp add: scheme_ok_def)

lemma scheme_encrypt: "scheme_ok L enc \<Longrightarrow> bits256 v \<Longrightarrow> \<exists>c. p_Encrypt L (fst (p_KeyGen L i)) v = Some c \<and> enc 0 i v c"
  by (simp add: scheme_ok_def)

lemma scheme_rekey:
  "scheme_ok L enc \<Longrightarrow> snd (p_KeyGen L i) = Some sk \<Longrightarrow> \<exists>rk. ReKeyGen L sk (fst (p_KeyGen L j)) = Inr (Some rk)
     \<and> (\<forall>h v c pk. h < 2 \<longrightarrow> bits256 v \<longrightarrow> enc h i v c \<longrightarrow> pk \<in> {None, fst (p_KeyGen L i)} \<longrightarrow>
          (\<exists>c'. ReEncrypt L (Some c) (Some rk) pk = Inr (Some c') \<and> enc (Suc h) j v c'))"
  unfolding scheme_ok_def by blast

lemma scheme_reduce:
  "scheme_ok L enc \<Longrightarrow> h \<le> 2 \<Longrightarrow> bits256 v \<Longrightarrow> enc h i v c \<Longrightarrow> \<exists>c'. reduce L (Some c) = Inr (Some c') \<and> enc h i v c'"
  by (auto simp: scheme_ok_def reduce_def)

lemma scheme_decrypt:
  "scheme_ok L enc \<Longrightarrow> h \<le> 2 \<Longrightarrow> bits256 v \<Longrightarrow> enc h i v c \<Longrightarrow> \<exists>rest. p_Decrypt L (snd (p_KeyGen L i)) (Some c) = Inr (v @ rest)"
  unfolding scheme_ok_def by blast

definition models :: "string set" where
  "models = {''INDCPA'', ''FIXED_NOISE_HRA'', ''NOISE_FLOODING_HRA'', ''NOISE_FLOODING_HRA_HYBRID''}"

text \<open>One hop, in any of the four security models.\<close>

lemma reencrypt_hop:
  assumes ok: "scheme_ok L enc" and m: "model \<in> models" and sk: "snd (p_KeyGen L i) = Some sk" and v: "h < 2" "bits256 v"
  shows "\<exists>rk. ReKeyGen L sk (fst (p_KeyGen L j)) = Inr (Some rk)
    \<and> (\<forall>c. enc h i v c \<longrightarrow> (\<exists>c'. reencrypt L model (Some c) (Some rk) (fst (p_KeyGen L i)) = Inr (Some c') \<and> enc (Suc h) j v c'))"
proof -
  obtain rk where rk: "ReKeyGen L sk (fst (p_KeyGen L j)) = Inr (Some rk)"
    and "\<forall>h v c pk. h < 2 \<longrightarrow> bits256 v \<longrightarrow> enc h i v c \<longrightarrow> pk \<in> {None, fst (p_KeyGen L i)}
      \<longrightarrow> (\<exists>c'. ReEncrypt L (Some c) (Some rk) pk = Inr (Some c') \<and> enc (Suc h) j v c')"
    using scheme_rekey [OF ok sk, of j] by (elim exE conjE)
  note re = this(2) [rule_format, OF v]
  have "\<exists>c'. reencrypt L model (Some c) (Some rk) (fst (p_KeyGen L i)) = Inr (Some c') \<and> enc (Suc h) j v c'" if e: "enc h i v c" for c
  proof -
    obtain a where a: "ReEncrypt L (Some c) (Some rk) None = Inr (Some a)" "enc (Suc h) j v a" using re [OF e] by blast
    obtain b where b: "ReEncrypt L (Some c) (Some rk) (fst (p_KeyGen L i)) = Inr (Some b)" "enc (Suc h) j v b" using re [OF e] by blast
    from v(1) have "Suc h \<le> 2" by simp
    from scheme_reduce [where L = L and enc = enc, OF ok this v(2) b(2)] obtain c' where
      c': "reduce L (Some b) = Inr (Some c')" "enc (Suc h) j v c'" by blast
    have "reencrypt L model (Some c) (Some rk) (fst (p_KeyGen L i)) \<in> {Inr (Some a), Inr (Some b), Inr (Some c')}"
      using m unfolding models_def by (auto simp: reencrypt_def a(1) b(1) c'(1))
    with a(2) b(2) c'(2) show ?thesis by auto
  qed
  with rk show ?thesis by blast
qed

section \<open>A concrete record\<close>

fun enc_opt :: "('a \<Rightarrow> nat \<times> nat list) \<Rightarrow> 'a option \<Rightarrow> bytes" where
  "enc_opt f None = enc_nats [0]"
| "enc_opt f (Some a) = enc_nats (Suc (fst (f a)) # snd (f a))"

definition dec_opt :: "(nat \<times> nat list \<Rightarrow> 'a) \<Rightarrow> bytes \<Rightarrow> 'a option result" where
  "dec_opt g s = (case dec_nats s of [] \<Rightarrow> Inl (Std_exception ''end of stream'') | 0 # _ \<Rightarrow> Inr None | Suc n # ns \<Rightarrow> Inr (Some (g (n, ns))))"

lemma enc_opt_not_nil [simp]: "enc_opt f a \<noteq> []"
  by (cases a) simp_all

lemma dec_enc_opt: "(\<And>a. g (f a) = a) \<Longrightarrow> dec_opt g (enc_opt f a) = Inr a"
  by (cases a) (simp_all add: dec_opt_def)

type_synonym toy_ct = "nat \<times> 64 word list"

definition toy_scheme :: "(nat, nat, nat, nat \<times> nat, toy_ct) pre_lib" where
  "toy_scheme = \<lparr>
     p_ser_cc = enc_opt (\<lambda>n. (n, [])), p_deser_cc = dec_opt fst,
     p_ser_pk = enc_opt (\<lambda>n. (n, [])), p_deser_pk = dec_opt fst,
     p_ser_sk = enc_opt (\<lambda>n. (n, [])), p_deser_sk = dec_opt fst,
     p_ser_rk = enc_opt (\<lambda>(a, b). (a, [b])), p_deser_rk = dec_opt (\<lambda>(a, b). (a, hd b)),
     p_ser_ct = enc_opt (\<lambda>(k, v). (k, map unat v)), p_deser_ct = dec_opt (\<lambda>(k, v). (k, map of_nat v)),
     p_KeyGen = (\<lambda>n. (Some n, Some n)),
     ReKeyGen = (\<lambda>sk pk. case pk of None \<Rightarrow> Inl (Config_error ''null key'') | Some p \<Rightarrow> Inr (Some (sk, p))),
     ReEncrypt = (\<lambda>ct rk _. case (ct, rk) of
         (Some (k, v), Some (a, b)) \<Rightarrow> Inr (Some (if k = a then (b, v) else (k, [])))
       | _ \<Rightarrow> Inl (Config_error ''null argument'')),
     NumOfElements = (\<lambda>_. 1), ModReduce = Inr, p_PlaintextModulus = (\<lambda>_. 2),
     p_Encrypt = (\<lambda>pk v. map_option (\<lambda>k. (k, v)) pk),
     p_Decrypt = (\<lambda>sk ct. case (sk, ct) of
         (Some s, Some (k, v)) \<Rightarrow> Inr (if s = k then v @ replicate (256 - length v) 0 else replicate 256 1)
       | _ \<Rightarrow> Inl (Config_error ''null argument'')) \<rparr>"

definition toy_enc :: "nat \<Rightarrow> nat \<Rightarrow> 64 word list \<Rightarrow> toy_ct \<Rightarrow> bool" where
  "toy_enc h i v c \<longleftrightarrow> c = (i, v)"

lemma toy_codecs [simp]:
  "dec_opt fst (enc_opt (\<lambda>n. (n, [])) k) = Inr k"
  "dec_opt (\<lambda>(a, b). (a, hd b)) (enc_opt (\<lambda>(a, b). (a, [b])) r) = Inr r"
  "dec_opt (\<lambda>(k, v). (k, map of_nat v)) (enc_opt (\<lambda>(k, v). (k, map unat v)) (c :: toy_ct option)) = Inr c"
  by (cases k; cases r; cases c; force simp: dec_opt_def comp_def)+

lemma toy_serial: "serial_ok toy_scheme"
  unfolding serial_ok_def toy_scheme_def
  by (intro conjI allI) (simp_all del: enc_opt.simps)

lemma toy_scheme_ok: "scheme_ok toy_scheme toy_enc"
  by (auto simp: scheme_ok_def toy_scheme_def toy_enc_def)

end
