(* ===== verification/Pre_Access.thy ===== *)
theory Pre_Access
  imports Pre_Scheme
begin

text \<open>
  The key server of the proxy demo: what its replies reveal and whom the access map protects. The
  replies to requests that do not ask for a re-encryption key of an authorised name do not
  depend on the values of the stored private keys (\<open>rekey_noninterference\<close>, an instance of \<open>handler_rel\<close>).
  Re-encryption keys, from the server's own private keys or through the chain of servers, are those
  \<^verbatim>\<open>ReKeyGen\<close> computes.
\<close>

section \<open>The handler, method by method\<close>

lemma ks_methods [simp]:
  "sv_method (ks_CryptoContextRequestServicer L) = CryptoContextFromServer_m"
  "sv_method (CryptoContextRequest_BrokerServicer L) = CryptoContextRequestFromServer_Broker_m"
  "sv_method (CryptoContextRequest_ServerServicer L) = CryptoContextRequestFromServer_Server_m"
  "sv_method (PrivateKeyRequestServicer L) = PrivateKeyFromProducer_m"
  "sv_method (ks_PublicKeyRequestServicer L) = PublicKeyFromClient_m"
  "sv_method (PublicKeyToBrokerRequestServicer L up) = PublicKeyToBroker_m"
  "sv_method (ReencryptionKeyRequestServicer L up) = ReEncryptionKeyToBroker_m"
  "sv_method (PublicKeyToServerRequestServicer L) = PublicKeyToServer_m"
  "sv_method (PublicKeyServerRequestServicer L) = PublicKeyfromServer_m"
  "sv_method (ReencryptionKeyServerRequestServicer L) = ReEncryptionKeyToServer_m"
  by (simp_all add: ks_CryptoContextRequestServicer_def CryptoContextRequest_BrokerServicer_def
      CryptoContextRequest_ServerServicer_def PrivateKeyRequestServicer_def ks_PublicKeyRequestServicer_def
      PublicKeyToBrokerRequestServicer_def ReencryptionKeyRequestServicer_def PublicKeyToServerRequestServicer_def
      PublicKeyServerRequestServicer_def ReencryptionKeyServerRequestServicer_def)

lemma ks_handler_simps [simp]:
  "ks_handler L up (CryptoContextFromServer_m, q) = sv_process (ks_CryptoContextRequestServicer L) (CryptoContextFromServer_m, q)"
  "ks_handler L up (CryptoContextRequestFromServer_Broker_m, q)
     = sv_process (CryptoContextRequest_BrokerServicer L) (CryptoContextRequestFromServer_Broker_m, q)"
  "ks_handler L up (CryptoContextRequestFromServer_Server_m, q)
     = sv_process (CryptoContextRequest_ServerServicer L) (CryptoContextRequestFromServer_Server_m, q)"
  "ks_handler L up (PrivateKeyFromProducer_m, q) = sv_process (PrivateKeyRequestServicer L) (PrivateKeyFromProducer_m, q)"
  "ks_handler L up (PublicKeyFromClient_m, q) = sv_process (ks_PublicKeyRequestServicer L) (PublicKeyFromClient_m, q)"
  "ks_handler L up (PublicKeyToBroker_m, q) = sv_process (PublicKeyToBrokerRequestServicer L up) (PublicKeyToBroker_m, q)"
  "ks_handler L up (ReEncryptionKeyToBroker_m, q)
     = sv_process (ReencryptionKeyRequestServicer L up) (ReEncryptionKeyToBroker_m, q)"
  "ks_handler L up (PublicKeyToServer_m, q) = sv_process (PublicKeyToServerRequestServicer L) (PublicKeyToServer_m, q)"
  "ks_handler L up (PublicKeyfromServer_m, q) = sv_process (PublicKeyServerRequestServicer L) (PublicKeyfromServer_m, q)"
  "ks_handler L up (ReEncryptionKeyToServer_m, q)
     = sv_process (ReencryptionKeyServerRequestServicer L) (ReEncryptionKeyToServer_m, q)"
  by (simp_all add: ks_handler_def dispatch_def ks_servicers_def)

named_theorems ks_defs \<open>the servicers of the key server\<close>
lemmas [ks_defs] = ks_CryptoContextRequestServicer_def CryptoContextRequest_BrokerServicer_def
  CryptoContextRequest_ServerServicer_def PrivateKeyRequestServicer_def ks_PublicKeyRequestServicer_def
  PublicKeyToBrokerRequestServicer_def ReencryptionKeyRequestServicer_def PublicKeyToServerRequestServicer_def
  PublicKeyServerRequestServicer_def ReencryptionKeyServerRequestServicer_def

section \<open>Noninterference\<close>

definition same_nulls :: "('k \<rightharpoonup> 'v option) \<Rightarrow> ('k \<rightharpoonup> 'v option) \<Rightarrow> bool" where
  "same_nulls m m' \<longleftrightarrow> (\<forall>k. idx_val None m k = None \<longleftrightarrow> idx_val None m' k = None)"

definition same_but_keys :: "('cc, 'pk, 'sk) ks_state \<times> 'w \<Rightarrow> ('cc, 'pk, 'sk) ks_state \<times> 'w \<Rightarrow> bool" where
  \<comment> \<open>everything equal but the values of the private keys; the same keys are null\<close>
  "same_but_keys x y \<longleftrightarrow> snd x = snd y \<and> fst y = (fst x)\<lparr>PrivateKeys := PrivateKeys (fst y)\<rparr>
     \<and> same_nulls (PrivateKeys (fst x)) (PrivateKeys (fst y))"

definition no_rekey_for_authorised :: "('cc, 'pk, 'sk) ks_state \<times> 'w \<Rightarrow> ks_request \<Rightarrow> bool" where
  "no_rekey_for_authorised x q \<longleftrightarrow>
     (fst q \<in> {ReEncryptionKeyToBroker_m, ReEncryptionKeyToServer_m}
        \<longrightarrow> rq_client_name (snd q) \<notin> set (authorizedConsumers (fst x)))"

lemma gen_rekey_unauthorised: "n \<notin> set amap \<Longrightarrow> gen_rekey L amap n c sk pk = Inr None"
  by (simp add: gen_rekey_def)

lemma idx_val_idx_map [simp]: "idx_val d (idx_map d m k) j = idx_val d m j"
  by (simp add: idx_val_def idx_map_def split: option.splits)

lemma same_nulls_upd [simp]: "same_nulls m m' \<Longrightarrow> same_nulls (m(k \<mapsto> v)) (m'(k \<mapsto> v))"
  by (simp add: same_nulls_def idx_val_upd)

lemma same_nulls_idx_map [simp]: "same_nulls m m' \<Longrightarrow> same_nulls (idx_map None m k) (idx_map None m' k)"
  by (simp add: same_nulls_def)

lemma same_nullsD: "same_nulls m m' \<Longrightarrow> idx_val None m k = None \<longleftrightarrow> idx_val None m' k = None"
  by (simp add: same_nulls_def)

lemma ks_access_map_kept:
  assumes "ks_handler L up q x = (r, x')"
  shows "authorizedConsumers (fst x') = authorizedConsumers (fst x)"
proof -
  obtain m rq s w where q: "q = (m, rq)" "x = (s, w)" by (metis surj_pair)
  show ?thesis using assms unfolding q
    by (cases m) (auto simp: ks_defs Let_def abind_def guard_ser_def require_def remote_def
        split: prod.splits sum.splits if_splits option.splits)
qed

lemma same_but_keysE:
  assumes "same_but_keys (s, w) y"
  obtains k where "y = (s\<lparr>PrivateKeys := k\<rparr>, w)" "same_nulls (PrivateKeys s) k"
  using assms by (cases y) (auto simp: same_but_keys_def)

lemma same_but_keysI:
  "same_nulls (PrivateKeys s) k \<Longrightarrow> same_but_keys (s, w) (s\<lparr>PrivateKeys := k\<rparr>, w)"
  by (simp add: same_but_keys_def)

lemmas run_act = abind_def guard_ser_def require_def remote_def

lemma ks_ignores_private_keys:
  assumes "m \<in> {CryptoContextFromServer_m, CryptoContextRequestFromServer_Server_m, PublicKeyFromClient_m, PublicKeyToBroker_m,
      PublicKeyToServer_m, PublicKeyfromServer_m}"
    and "ks_handler L up (m, rq) (s, w) = (r, (s', w'))"
  shows "ks_handler L up (m, rq) (s\<lparr>PrivateKeys := k\<rparr>, w) = (r, (s'\<lparr>PrivateKeys := k\<rparr>, w'))
    \<and> PrivateKeys s' = PrivateKeys s"
  using assms by (elim insertE; simp add: ks_defs Let_def run_act split: prod.splits sum.splits if_splits; auto)

lemma rekey_step_broker:
  assumes "ks_handler L up (CryptoContextRequestFromServer_Broker_m, rq) (s, w) = (r, x')"
    and "same_nulls (PrivateKeys s) k"
  shows "\<exists>y'. ks_handler L up (CryptoContextRequestFromServer_Broker_m, rq) (s\<lparr>PrivateKeys := k\<rparr>, w) = (r, y') \<and> same_but_keys x' y'"
  using assms
  by (auto simp: CryptoContextRequest_BrokerServicer_def Let_def run_act same_but_keys_def idx_val_upd split: if_splits)

lemma rekey_step_producer:
  assumes "ks_handler L up (PrivateKeyFromProducer_m, rq) (s, w) = (r, x')"
    and "same_nulls (PrivateKeys s) k"
  shows "\<exists>y'. ks_handler L up (PrivateKeyFromProducer_m, rq) (s\<lparr>PrivateKeys := k\<rparr>, w) = (r, y') \<and> same_but_keys x' y'"
  using assms
  by (auto simp: PrivateKeyRequestServicer_def Let_def run_act same_but_keys_def idx_val_upd split: if_splits sum.splits)

lemma rekey_reply_unauthorised:
  assumes "rq_client_name rq \<notin> set amap" "(sk = None) = (sk' = None)"
  shows "rekey_reply L up c amap rq pk sk = rekey_reply L up c amap rq pk sk'"
  using assms by (cases sk; cases sk') (simp_all add: rekey_reply_def gen_rekey_unauthorised)

lemma rekey_server_reply_unauthorised:
  assumes "n \<notin> set amap" "(sk = None) = (sk' = None)"
  shows "rekey_server_reply L c amap n pk sk = rekey_server_reply L c amap n pk sk'"
  using assms by (cases sk; cases sk') (simp_all add: rekey_server_reply_def gen_rekey_unauthorised)

lemma rekey_step_to_server:
  assumes h: "ks_handler L up (ReEncryptionKeyToServer_m, rq) (s, w) = (r, x')"
    and k: "same_nulls (PrivateKeys s) k"
    and u: "rq_client_name rq \<notin> set (authorizedConsumers s)"
  shows "\<exists>y'. ks_handler L up (ReEncryptionKeyToServer_m, rq) (s\<lparr>PrivateKeys := k\<rparr>, w) = (r, y') \<and> same_but_keys x' y'"
  using h k
  by (auto simp: ReencryptionKeyServerRequestServicer_def Let_def same_but_keys_def rekey_server_reply_unauthorised [OF u same_nullsD [OF k]])

lemma rekey_step_to_broker:
  assumes h: "ks_handler L up (ReEncryptionKeyToBroker_m, rq) (s, w) = (r, x')"
    and k: "same_nulls (PrivateKeys s) k"
    and u: "rq_client_name rq \<notin> set (authorizedConsumers s)"
  shows "\<exists>y'. ks_handler L up (ReEncryptionKeyToBroker_m, rq) (s\<lparr>PrivateKeys := k\<rparr>, w) = (r, y') \<and> same_but_keys x' y'"
  using h k
  by (auto simp: ReencryptionKeyRequestServicer_def Let_def same_but_keys_def rekey_reply_unauthorised [OF u same_nullsD [OF k]])

lemma rekey_step:
  assumes R: "same_but_keys x y" and ok: "no_rekey_for_authorised x q" and h: "ks_handler L up q x = (r, x')"
  shows "\<exists>y'. ks_handler L up q y = (r, y') \<and> same_but_keys x' y'"
proof -
  obtain m rq s w s' w' where q: "q = (m, rq)" "x = (s, w)" "x' = (s', w')" by (metis surj_pair)
  obtain k where y: "y = (s\<lparr>PrivateKeys := k\<rparr>, w)"
    and k: "same_nulls (PrivateKeys s) k"
    using R unfolding q by (rule same_but_keysE)
  note h = h [unfolded q] and ok = ok [unfolded q no_rekey_for_authorised_def, simplified]
  have keep: "same_but_keys (s', w') (s'\<lparr>PrivateKeys := k\<rparr>, w')" if "PrivateKeys s' = PrivateKeys s"
    using k that by (intro same_but_keysI) simp
  have "\<exists>y'. ks_handler L up (m, rq) (s\<lparr>PrivateKeys := k\<rparr>, w) = (r, y') \<and> same_but_keys (s', w') y'"
  proof (cases m)
    case CryptoContextRequestFromServer_Broker_m
    then show ?thesis using rekey_step_broker [OF _ k] h by simp
  next
    case PrivateKeyFromProducer_m
    then show ?thesis using rekey_step_producer [OF _ k] h by simp
  next
    case ReEncryptionKeyToBroker_m
    then show ?thesis using rekey_step_to_broker [OF _ k] h ok by simp
  next
    case ReEncryptionKeyToServer_m
    then show ?thesis using rekey_step_to_server [OF _ k] h ok by simp
  qed (use ks_ignores_private_keys [OF _ h, of k] keep in simp_all)
  then show ?thesis by (simp add: q y)
qed

interpretation ks: handler_rel "ks_handler L up" same_but_keys no_rekey_for_authorised for L up
  by unfold_locales (use rekey_step in blast, simp add: no_rekey_for_authorised_def fun_eq_iff ks_access_map_kept)

section \<open>The properties\<close>

text \<open>C15: Noninterference: take any requests to the key server among which those for re-encryption keys
  name no client of its access map. Then the private keys it stores do not matter: with other
  values in their place, the same ones being null, it gives the same replies, throws the same exception
  if any, and makes the same calls to the upstream server, and the rest of its state is the same.\<close>

theorem rekey_noninterference:
  assumes "same_nulls (PrivateKeys s) k"
    and "\<forall>(m, rq) \<in> set qs. m \<in> {ReEncryptionKeyToBroker_m, ReEncryptionKeyToServer_m}
        \<longrightarrow> rq_client_name rq \<notin> set (authorizedConsumers s)"
    and "serve (ks_handler L up) qs (s, w) = (r, (s', w'))"
  shows "\<exists>k'. serve (ks_handler L up) qs (s\<lparr>PrivateKeys := k\<rparr>, w) = (r, (s'\<lparr>PrivateKeys := k'\<rparr>, w'))"
proof -
  have "\<forall>q \<in> set qs. no_rekey_for_authorised (s, w) q"
    using assms(2) by (auto simp: no_rekey_for_authorised_def)
  from ks.serve_related [OF same_but_keysI [OF assms(1)] this assms(3)]
  obtain y where "serve (ks_handler L up) qs (s\<lparr>PrivateKeys := k\<rparr>, w) = (r, y)" "same_but_keys (s', w') y" by blast
  then show ?thesis by (auto elim!: same_but_keysE)
qed

lemma rekey_noninterference_witness:
  "let s = (ks_state0 (Some 0) [''C''])\<lparr>ks_PublicKeys := [(''consumer'', ''X'') \<mapsto> Some 5], PrivateKeys := [(''broker'', ''B'') \<mapsto> Some (7::nat)]\<rparr>;
       q = (ReEncryptionKeyToBroker_m, MessageRequest0\<lparr>rq_client_name := ''X'', rq_client_type := ''consumer'',
              rq_upstream_client_name := ''B'', rq_upstream_client_type := ''broker''\<rparr>);
       h = ks_handler toy_scheme (unreachable [])
   in fst (serve h [q] (s, ())) = Inr [MessageReturn0\<lparr>keyAvailable := True, reKey := enc_nats [0]\<rparr>]
    \<and> (\<exists>k' s'. serve h [q] (s\<lparr>PrivateKeys := [(''broker'', ''B'') \<mapsto> Some 8]\<rparr>, ())
         = (Inr [MessageReturn0\<lparr>keyAvailable := True, reKey := enc_nats [0]\<rparr>], (s'\<lparr>PrivateKeys := k'\<rparr>, ())))"
proof -
  let ?s = "(ks_state0 (Some 0) [''C''])\<lparr>ks_PublicKeys := [(''consumer'', ''X'') \<mapsto> Some 5], PrivateKeys := [(''broker'', ''B'') \<mapsto> Some (7::nat)]\<rparr>"
  let ?q = "(ReEncryptionKeyToBroker_m, MessageRequest0\<lparr>rq_client_name := ''X'', rq_client_type := ''consumer'',
              rq_upstream_client_name := ''B'', rq_upstream_client_type := ''broker''\<rparr>)"
  let ?h = "ks_handler toy_scheme (unreachable [])"
  let ?r = "Inr [MessageReturn0\<lparr>keyAvailable := True, reKey := enc_nats [0]\<rparr>]"
  obtain s' where s': "serve ?h [?q] (?s, ()) = (?r, (s', ()))"
    by (auto simp: ReencryptionKeyRequestServicer_def rekey_reply_def gen_rekey_def guard_ser_def toy_scheme_def
        ks_state0_def MessageRequest0_def MessageReturn0_def Let_def abind_def idx_val_def)
  have "same_nulls (PrivateKeys ?s) [(''broker'', ''B'') \<mapsto> Some 8]" by (simp add: same_nulls_def idx_val_def)
  from rekey_noninterference [OF this _ s'] s' show ?thesis by (auto simp: Let_def MessageRequest0_def ks_state0_def)
qed

lemma gen_rekey_authorised:
  "n \<in> set amap \<Longrightarrow> gen_rekey L amap n (Some c) sk pk = ReKeyGen L sk pk"
  by (simp add: gen_rekey_def)

lemma own_key_reply:
  assumes "p_ser_pk L pk \<noteq> []" "gen_rekey L amap (rq_client_name rq) (Some c) sk pk = Inr rk" "p_ser_rk L rk \<noteq> []"
  shows "rekey_reply L up (Some c) amap rq pk (Some sk) w
    = (Inr (MessageReturn0\<lparr>producerRegistered := (rq_upstream_client_type rq = ''producer''), keyAvailable := True,
         reKey := p_ser_rk L rk\<rparr>), w)"
  using assms by (auto simp: rekey_reply_def Let_def abind_def MessageReturn0_def)

text \<open>C26: Nobody checks who registers a public key. A client that sends a key of its own as the public
  key of the authorised broker B is acknowledged, and from then on the re-encryption key from a producer
  to B is computed for the client's key.\<close>

theorem broker_key_hijacked:
  assumes "ks_cc s = Some c" "PrivateKeys s (''producer'', P) = Some (Some sk)" "B \<in> set (authorizedConsumers s)"
    and "serial_ok L" "ReKeyGen L sk (Some evil) = Inr rk"
  shows "\<exists>s'. serve (ks_handler L up)
      [(PublicKeyFromClient_m, MessageRequest0\<lparr>rq_client_type := ''broker'', rq_client_name := B, rq_pkey := p_ser_pk L (Some evil)\<rparr>),
       (ReEncryptionKeyToBroker_m, MessageRequest0\<lparr>rq_client_type := ''broker'', rq_client_name := B,
          rq_upstream_client_type := ''producer'', rq_upstream_client_name := P\<rparr>)] (s, w)
    = (Inr [MessageReturn0\<lparr>mr_acknowledgement := ''Received PKEY. Thank you, Your Server''\<rparr>,
            MessageReturn0\<lparr>producerRegistered := True, keyAvailable := True, reKey := p_ser_rk L rk\<rparr>], (s', w))"
  using assms
  by (simp add: ks_PublicKeyRequestServicer_def ReencryptionKeyRequestServicer_def MessageRequest0_def Let_def
      serial_okD own_key_reply gen_rekey_authorised abind_def require_def idx_val_def [of None "PrivateKeys s"])

lemma broker_key_hijacked_witness:
  "\<exists>s'. serve (ks_handler toy_scheme (unreachable []))
      [(PublicKeyFromClient_m, MessageRequest0\<lparr>rq_client_type := ''broker'', rq_client_name := ''B'', rq_pkey := p_ser_pk toy_scheme (Some 9)\<rparr>),
       (ReEncryptionKeyToBroker_m, MessageRequest0\<lparr>rq_client_type := ''broker'', rq_client_name := ''B'',
          rq_upstream_client_type := ''producer'', rq_upstream_client_name := ''P''\<rparr>)]
      ((ks_state0 (Some 0) [''B''])\<lparr>PrivateKeys := [(''producer'', ''P'') \<mapsto> Some 3], ks_PublicKeys := [(''broker'', ''B'') \<mapsto> Some 4]\<rparr>, ())
    = (Inr [MessageReturn0\<lparr>mr_acknowledgement := ''Received PKEY. Thank you, Your Server''\<rparr>,
            MessageReturn0\<lparr>producerRegistered := True, keyAvailable := True, reKey := p_ser_rk toy_scheme (Some (3, 9))\<rparr>], (s', ()))"
  by (rule broker_key_hijacked [of _ 0 "''P''" 3]) (simp_all add: ks_state0_def toy_serial, simp add: toy_scheme_def)

section \<open>The chain of key servers\<close>

lemma remote_key_reply:
  assumes "c \<noteq> None" "rq_upstream_client_type rq \<noteq> ''producer''" "p_ser_pk L (Some pk) \<noteq> []"
    and "up (PublicKeyfromServer_m, MessageRequest0\<lparr>rq_pkey := p_ser_pk L (Some pk), rq_client_type := rq_client_type rq,
         rq_client_name := rq_client_name rq\<rparr>) w = (Inr p, w1)"
    and "up (ReEncryptionKeyToServer_m, MessageRequest0\<lparr>rq_client_type := rq_client_type rq,
         rq_client_name := rq_client_name rq, rq_upstream_client_name := rq_upstream_client_name rq,
         rq_upstream_client_type := rq_upstream_client_type rq\<rparr>) w1 = (Inr p', w2)"
  shows "rekey_reply L up c amap rq (Some pk) None w
    = (Inr (MessageReturn0\<lparr>keyAvailable := True, reKey := (if keyAvailable p' then reKey p' else [])\<rparr>), w2)"
  using assms
  by (auto simp: rekey_reply_def Let_def abind_def u_PublicKeyfromServer_def u_ReEncryptionKeyToServer_def up_call_def)

text \<open>A downstream key server that does not hold the private key of a broker asks its upstream server:
  it forwards the receiver's public key, then requests the re-encryption key. What it replies with is the key
  the upstream server computes under its own access map, a null key when the receiver is not in it;
  the downstream server's access map is never consulted. When the upstream server does not know the
  sender either, the reply says that the key is available and carries none.\<close>

theorem upstream_rekey:
  assumes "serial_ok L" "ks_cc s1 \<noteq> None" "ks_cc s2 \<noteq> None"
    and "idx_val None (PrivateKeys s2) (rq_upstream_client_type rq, rq_upstream_client_name rq) = None"
    and "rq_upstream_client_type rq \<noteq> ''producer''"
    and "idx_val None (ks_PublicKeys s2) (rq_client_type rq, rq_client_name rq) = Some pk"
    and "case idx_val None (PrivateKeys s1) (rq_upstream_client_type rq, rq_upstream_client_name rq) of
           None \<Rightarrow> key = []
         | Some sk \<Rightarrow> (\<exists>rk. gen_rekey L (authorizedConsumers s1) (rq_client_name rq) (ks_cc s1) sk (Some pk) = Inr rk
                        \<and> key = p_ser_rk L rk)"
  shows "\<exists>s1' s2'. ks_handler L (rpc_to msg (ks_handler L up)) (ReEncryptionKeyToBroker_m, rq) (s2, ((s1, w), True))
    = (Inr (MessageReturn0\<lparr>keyAvailable := True, reKey := key\<rparr>), (s2', ((s1', w), True)))"
proof -
  let ?k = "(rq_client_type rq, rq_client_name rq)" and ?u = "(rq_upstream_client_type rq, rq_upstream_client_name rq)"
  let ?h = "ks_handler L up"
  let ?t = "s1\<lparr>RecdPublicKeys := (RecdPublicKeys s1)(?k \<mapsto> Some pk)\<rparr>"
  have 1: "?h (PublicKeyfromServer_m, MessageRequest0\<lparr>rq_pkey := p_ser_pk L (Some pk), rq_client_type := rq_client_type rq,
      rq_client_name := rq_client_name rq\<rparr>) (s1, w)
    = (Inr (MessageReturn0\<lparr>mr_acknowledgement := ''Received PKEY. Thank you, Your Server''\<rparr>), (?t, w))"
    using assms(1) by (simp add: PublicKeyServerRequestServicer_def MessageRequest0_def Let_def serial_okD abind_def require_def)
  obtain p t' where 2: "?h (ReEncryptionKeyToServer_m, MessageRequest0\<lparr>rq_client_type := rq_client_type rq,
         rq_client_name := rq_client_name rq, rq_upstream_client_name := rq_upstream_client_name rq,
         rq_upstream_client_type := rq_upstream_client_type rq\<rparr>) (?t, w) = (Inr p, (t', w))"
    and p: "(if keyAvailable p then reKey p else []) = key"
    using assms(1,2,7)
    by (auto simp: ReencryptionKeyServerRequestServicer_def rekey_server_reply_def MessageRequest0_def MessageReturn0_def
        Let_def abind_def serial_okD split: option.splits)
  have "rekey_reply L (rpc_to msg ?h) (ks_cc s2) (authorizedConsumers s2) rq (Some pk) None ((s1, w), True)
      = (Inr (MessageReturn0\<lparr>keyAvailable := True, reKey := key\<rparr>), ((t', w), True))"
    using remote_key_reply [OF assms(3,5) serial_okD(3) [OF assms(1)]
        transport_simps(2) [where h = ?h, OF 1] transport_simps(2) [where h = ?h, OF 2]] p by simp
  then show ?thesis using assms(4,6) by (simp add: ReencryptionKeyRequestServicer_def Let_def)
qed

lemma upstream_rekey_witness:
  "\<exists>s1' s2'. ks_handler toy_scheme (rpc_to [] (ks_handler toy_scheme (unreachable []))) (ReEncryptionKeyToBroker_m,
      MessageRequest0\<lparr>rq_client_type := ''broker'', rq_client_name := ''B2'', rq_upstream_client_type := ''broker'', rq_upstream_client_name := ''B1''\<rparr>)
      ((ks_state0 (Some 0) [])\<lparr>ks_PublicKeys := [(''broker'', ''B2'') \<mapsto> Some 6]\<rparr>,
       (((ks_state0 (Some 0) [''B2''])\<lparr>PrivateKeys := [(''broker'', ''B1'') \<mapsto> Some 5]\<rparr>, ()), True))
    = (Inr (MessageReturn0\<lparr>keyAvailable := True, reKey := p_ser_rk toy_scheme (Some (5, 6))\<rparr>), (s2', ((s1', ()), True)))"
  by (rule upstream_rekey [of _ _ _ _ 6])
    (simp_all add: ks_state0_def toy_serial MessageRequest0_def idx_val_def gen_rekey_authorised, simp add: toy_scheme_def)

end
