(* ===== verification/Pre_Flow.thy ===== *)
theory Pre_Flow
  imports Pre_Access
begin

text \<open>
  The flow of a ciphertext through the proxy demo: what a broker's request leaves in its routing table,
  the consumer's polling loop, and the whole way from the producer's key file to the consumer's,
  through one key server and one broker. The worlds are nested pairs: a key server runs on its
  upstream's world, a broker on the world of its key server, the clients on that of the broker.
\<close>

section \<open>The broker's handler\<close>

lemma bk_methods [simp]:
  "sv_method (bk_CipherTextRequestServicer L params ks) = CipherTextFromProducer_m"
  "sv_method (ReEncryptedCipherTextToBrokerRequestServicer L writable params ks bu) = ReEncryptedCipherTextToBroker_m"
  "sv_method (CipherTextToConsumerRequestServicer L writable params ks bu) = CipherTextToConsumer_m"
  by (simp_all add: bk_CipherTextRequestServicer_def ReEncryptedCipherTextToBrokerRequestServicer_def
      CipherTextToConsumerRequestServicer_def)

lemma bk_handler_simps [simp]:
  "bk_handler L writable params ks bu (CipherTextFromProducer_m, q)
     = sv_process (bk_CipherTextRequestServicer L params ks) (CipherTextFromProducer_m, q)"
  "bk_handler L writable params ks bu (ReEncryptedCipherTextToBroker_m, q)
     = sv_process (ReEncryptedCipherTextToBrokerRequestServicer L writable params ks bu) (ReEncryptedCipherTextToBroker_m, q)"
  "bk_handler L writable params ks bu (CipherTextToConsumer_m, q)
     = sv_process (CipherTextToConsumerRequestServicer L writable params ks bu) (CipherTextToConsumer_m, q)"
  by (simp_all add: bk_handler_def dispatch_def bk_servicers_def)

section \<open>What keeps the files\<close>

named_theorems keeping \<open>actions that leave the files of a broker as they are\<close>

definition keeps :: "(('cc, 'ct) broker_state \<times> 'w, 'a) act \<Rightarrow> bool" where
  "keeps m \<longleftrightarrow> (\<forall>x r x'. m x = (r, x') \<longrightarrow> bk_files (fst x') = bk_files (fst x))"

lemma keepsD: "keeps m \<Longrightarrow> m x = (r, x') \<Longrightarrow> bk_files (fst x') = bk_files (fst x)"
  unfolding keeps_def by blast

lemma keeps_basic [keeping]:
  "keeps (ret a)" "keeps (throw e)" "keeps (lift_r r)" "keeps (require b e)" "keeps (remote m')" "keeps get_s"
  "(\<And>s. bk_files (f s) = bk_files s) \<Longrightarrow> keeps (modify_s f)"
  by (auto simp: keeps_def ret_def throw_def lift_r_def require_def remote_def get_s_def modify_s_def split: prod.splits)

lemma keeps_abind [keeping]:
  assumes "keeps m" "\<And>a. keeps (f a)"
  shows "keeps (abind m f)"
  unfolding keeps_def
proof (intro allI impI)
  fix x r x' assume h: "abind m f x = (r, x')"
  obtain a v where a: "m x = (a, v)" by (cases "m x")
  show "bk_files (fst x') = bk_files (fst x)"
    using h a keepsD [OF assms(1) a] keepsD [OF assms(2)] by (cases a) (auto simp: abind_def)
qed

lemma keeps_if [keeping]: "keeps m \<Longrightarrow> keeps m' \<Longrightarrow> keeps (if b then m else m')"
  by simp

lemma keeps_prod [keeping]: "(\<And>a b. keeps (f a b)) \<Longrightarrow> keeps (case p of (a, b) \<Rightarrow> f a b)"
  by (cases p) simp

lemma keeps_parts [keeping]:
  "keeps (guard_ser what os)" "keeps (received_key what deser s)" "keeps (received_ct L s)"
  "keeps (cached_ct p)" "keeps (adopt_ct L params p ct a b)"
  unfolding guard_ser_def received_key_def received_ct_def cached_ct_def adopt_ct_def
  by (auto intro!: keeping)

definition post :: "files \<Rightarrow> (('cc, 'ct) broker_state \<times> 'w, 'a) act \<Rightarrow> ('a \<Rightarrow> files \<Rightarrow> bool) \<Rightarrow> bool" where
  \<comment> \<open>when m returns, started on these files, Q holds of its value and the files it leaves\<close>
  "post fs m Q \<longleftrightarrow> (\<forall>x a x'. m x = (Inr a, x') \<longrightarrow> bk_files (fst x) = fs \<longrightarrow> Q a (bk_files (fst x')))"

named_theorems posts \<open>what an action leaves in the files of a broker\<close>

lemma post_abind [posts]: "keeps m \<Longrightarrow> (\<And>a. post fs (f a) Q) \<Longrightarrow> post fs (abind m f) Q"
  unfolding post_def abind_Inr_iff by (blast dest: keepsD intro: trans [OF keepsD])

lemma post_ret [posts]: "Q a fs \<Longrightarrow> post fs (ret a) Q"
  by (simp add: post_def)

lemma post_if [posts]: "(b \<Longrightarrow> post fs m Q) \<Longrightarrow> (\<not> b \<Longrightarrow> post fs m' Q) \<Longrightarrow> post fs (if b then m else m') Q"
  by simp

lemma post_prod [posts]: "(\<And>a b. post fs (f a b) Q) \<Longrightarrow> post fs (case p of (a, b) \<Rightarrow> f a b) Q"
  by (cases p) simp

lemma post_route:
  assumes "\<And>fs'. UpdateRoutingTable writable fs (routingtablepath params) ch (pre_process_name params) up down flag = Inr fs'
      \<Longrightarrow> post fs' (f ()) Q"
  shows "post fs (abind (add_route writable params ch up down flag) f) Q"
  using assms unfolding post_def
  by (force simp: add_route_def abind_def get_s_def modify_s_def split: sum.splits)

lemma post_hd:
  assumes "post fs (f (hd xs)) Q"
  shows "post fs (abind (lift_r (at what xs 0)) f) Q"
  using assms unfolding post_def by (auto simp: abind_def at_def hd_conv_nth split: if_splits)

definition routed ::
  "(string \<Rightarrow> bool) \<Rightarrow> PreParams \<Rightarrow> MessageRequest \<Rightarrow> files \<Rightarrow> MessageReturn \<Rightarrow> files \<Rightarrow> bool" where
  "routed writable params rq fs p fs' \<longleftrightarrow> textAvailable p = producerRegistered p \<and>
     (if textAvailable p
      then (case upstream_of params (hd (split_on CHR ''-'' (rq_channel_name rq))) of (up, _, flag) \<Rightarrow>
        UpdateRoutingTable writable fs (routingtablepath params) (rq_channel_name rq) (pre_process_name params) up
          (rq_client_name rq) flag = Inr fs')
      else fs' = fs)"

lemma to_consumer_routes:
  "post fs (sv_process (CipherTextToConsumerRequestServicer L writable params ks bu) (m, rq)) (routed writable params rq fs)"
proof (cases "upstream_of params (hd (split_on CHR ''-'' (rq_channel_name rq)))")
  case (fields up ty flag)
  show ?thesis
    unfolding CipherTextToConsumerRequestServicer_def Let_def servicer.simps prod.case
    by (rule post_hd, unfold fields prod.case)
      (rule post_route posts keeping | simp add: routed_def fields MessageReturn0_def)+
qed

lemma to_broker_routes:
  "post fs (sv_process (ReEncryptedCipherTextToBrokerRequestServicer L writable params ks bu) (m, rq)) (routed writable params rq fs)"
proof (cases "upstream_of params (hd (split_on CHR ''-'' (rq_channel_name rq)))")
  case (fields up ty flag)
  show ?thesis
    unfolding ReEncryptedCipherTextToBrokerRequestServicer_def Let_def servicer.simps prod.case
    by (rule post_hd, unfold fields prod.case)
      (rule post_route posts keeping | simp add: routed_def fields MessageReturn0_def)+
qed

lemma from_producer_routes:
  "post fs (sv_process (bk_CipherTextRequestServicer L params ks) (m, rq)) (routed writable params rq fs)"
  unfolding bk_CipherTextRequestServicer_def Let_def servicer.simps prod.case
  by (rule posts keeping | simp add: routed_def MessageReturn0_def)+

lemma handler_routes:
  "post fs (bk_handler L writable params ks bu (m, rq)) (routed writable params rq fs)"
  by (cases m) (simp_all only: bk_handler_simps to_consumer_routes to_broker_routes from_producer_routes)

text \<open>C29: A broker's reply says that the producer is registered exactly when it carries a ciphertext. Every
  request answered with a ciphertext appends one line to the broker's routing table, from the upstream broker or
  the producer in the channel's name to the client that asked, flagged as source when there is no upstream
  broker; every other request leaves the files alone.\<close>

theorem broker_routes:
  assumes "bk_handler L writable params ks bu (m, rq) (b, w) = (Inr p, (b', w'))"
    and "upstream_of params (hd (split_on CHR ''-'' (rq_channel_name rq))) = (up, ty, flag)"
  shows "textAvailable p = producerRegistered p \<and>
    (if textAvailable p
     then UpdateRoutingTable writable (bk_files b) (routingtablepath params) (rq_channel_name rq) (pre_process_name params) up
            (rq_client_name rq) flag = Inr (bk_files b')
     else bk_files b' = bk_files b)"
  using handler_routes [unfolded post_def, rule_format, OF assms(1)] assms(2)
  by (auto simp: routed_def split: if_splits)

section \<open>The consumer's loop\<close>

definition flags_agree :: "('w, bk_request) upstream \<Rightarrow> bool" where
  "flags_agree bu \<longleftrightarrow> (\<forall>q w p w'. bu q w = (Inr p, w') \<longrightarrow> textAvailable p = producerRegistered p)"

lemma flags_agreeD: "flags_agree bu \<Longrightarrow> bu q w = (Inr p, w') \<Longrightarrow> textAvailable p = producerRegistered p"
  unfolding flags_agree_def by blast

lemma broker_flags_agree: "flags_agree (rpc_to msg (bk_handler L writable params ks bu))"
  unfolding flags_agree_def
proof (intro allI impI)
  fix q x p x' assume h: "rpc_to msg (bk_handler L writable params ks bu) q x = (Inr p, x')"
  obtain m rq b w al where q: "q = (m, rq)" "x = ((b, w), al)" by (metis surj_pair)
  from h q obtain b' w' where "bk_handler L writable params ks bu (m, rq) (b, w) = (Inr p, (b', w'))"
    by (auto simp: rpc_to_def split: if_splits prod.splits sum.splits)
  from handler_routes [unfolded post_def, rule_format, OF this] show "textAvailable p = producerRegistered p"
    by (simp add: routed_def)
qed

lemma consumer_call_flags:
  "flags_agree bu \<Longrightarrow> cons_CipherTextToConsumer bu s t n b ch x = (Inr (p, s'), x') \<Longrightarrow> textAvailable p = producerRegistered p"
  by (auto simp: cons_CipherTextToConsumer_def up_call_def abind_def dest: flags_agreeD split: prod.splits sum.splits)

text \<open>C28: The consumer always comes to an end, whatever state the broker and the key server are in: it asks
  the broker at most once. The loop in which it waits for a ciphertext is never entered with a broker of
  this demo, because a broker that has no ciphertext also replies that the producer is not registered, and
  the consumer throws before the loop.\<close>

theorem pre_consumer_ends:
  "pre_consumer L n writable fs params ks (rpc_to msg (bk_handler L' writable' params' ks' bu')) x
   = (case consumer_request L n params ks (rpc_to msg (bk_handler L' writable' params' ks' bu')) x of
        (Inl e, x') \<Rightarrow> Some (Inl e, x')
      | (Inr (c, replyct, s), x') \<Rightarrow>
          Some (store_key L n writable fs params c s, x'))"
proof -
  let ?bu = "rpc_to msg (bk_handler L' writable' params' ks' bu')"
  have t: "textAvailable p" if "consumer_request L n params ks ?bu x = (Inr (c, p, s), x')" for c p s x'
    using that consumer_call_flags [OF broker_flags_agree]
    by (fastforce simp: consumer_request_def abind_Inr_iff Let_def abind_require split: if_splits)
  obtain r x' where r: "consumer_request L n params ks ?bu x = (r, x')" by (cases "consumer_request L n params ks ?bu x")
  show ?thesis
  proof (cases r)
    case (Inr y)
    obtain c p s where y: "y = (c, p, s)" by (metis surj_pair)
    from t [of c p s x'] r Inr y show ?thesis by (simp add: pre_consumer_def await_text.simps Let_def)
  qed (simp add: r pre_consumer_def)
qed

end
