(* ===== verification/Pre_Demo.thy ===== *)
theory Pre_Demo
  imports Pre_Flow
begin

text \<open>
  The proxy demo run as a whole: a key server without upstream, one broker, a producer and a consumer,
  from the producer's key file to the consumer's. Each step of the run is a lemma on the handler that
  serves it; a broker behind another broker is the step of a longer chain.
\<close>

section \<open>What a key server knows\<close>

lemma known_pk:
  assumes "serial_ok L" "ks_PublicKeys k (t, n) = Some (Some pk)"
  shows "b_PublicKeyToBroker (rpc_to msg (ks_handler L up)) old t n ((k, w), True)
    = (Inr (MessageReturn0\<lparr>producerRegistered := (t = ''producer''), keyAvailable := True, mr_pkey := p_ser_pk L (Some pk)\<rparr>,
        p_ser_pk L (Some pk)), ((k, w), True))"
proof -
  have "ks_handler L up (PublicKeyToBroker_m, MessageRequest0\<lparr>rq_client_type := t, rq_client_name := n\<rparr>) (k, w)
    = (Inr (MessageReturn0\<lparr>producerRegistered := (t = ''producer''), keyAvailable := True, mr_pkey := p_ser_pk L (Some pk)\<rparr>), (k, w))"
    using assms by (simp add: PublicKeyToBrokerRequestServicer_def pubkey_reply_def Let_def abind_def serial_okD
        MessageRequest0_def idx_val_def idx_map_def)
  then show ?thesis
    by (simp add: b_PublicKeyToBroker_def up_call_def abind_def rpc_to_def MessageReturn0_def)
qed

lemma known_rk:
  assumes "serial_ok L" "ks_cc k = Some c" "ks_PublicKeys k (t, n) = Some (Some pk)" "PrivateKeys k (ut, un) = Some (Some sk)"
    and "gen_rekey L (authorizedConsumers k) n (Some c) sk (Some pk) = Inr rk"
  shows "b_ReEncryptionKeyToBroker (rpc_to msg (ks_handler L up)) old t n un ut ((k, w), True)
    = (Inr (MessageReturn0\<lparr>producerRegistered := (ut = ''producer''), keyAvailable := True, reKey := p_ser_rk L rk\<rparr>,
        p_ser_rk L rk), ((k, w), True))"
proof -
  have "ks_handler L up (ReEncryptionKeyToBroker_m, MessageRequest0\<lparr>rq_client_type := t, rq_client_name := n,
      rq_upstream_client_name := un, rq_upstream_client_type := ut\<rparr>) (k, w)
    = (Inr (MessageReturn0\<lparr>producerRegistered := (ut = ''producer''), keyAvailable := True, reKey := p_ser_rk L rk\<rparr>), (k, w))"
    using assms by (simp add: ReencryptionKeyRequestServicer_def own_key_reply Let_def serial_okD
        MessageRequest0_def idx_val_def idx_map_def)
  then show ?thesis
    by (simp add: b_ReEncryptionKeyToBroker_def up_call_def abind_def rpc_to_def MessageReturn0_def)
qed

section \<open>What a broker does\<close>

lemma received_keyI: "s \<noteq> [] \<Longrightarrow> deser s = Inr v \<Longrightarrow> received_key what deser s w = (Inr v, w)"
  by (simp add: received_key_def abind_require)

lemma from_producer:
  assumes "serial_ok L"
    and "b_PublicKeyToBroker ks [] ''producer'' P w = (Inr (p1, p_ser_pk L (Some pk)), w1)"
    and "b_ReEncryptionKeyToBroker ks [] ''broker'' (pre_process_name params) P ''producer'' w1 = (Inr (p2, p_ser_rk L rk), w2)"
    and "reencrypt L (security_model params) (Some ct) rk (Some pk) = Inr ct'"
  shows "bk_handler L writable params ks bu (CipherTextFromProducer_m,
      MessageRequest0\<lparr>rq_ctext := p_ser_ct L (Some ct), rq_client_name := P\<rparr>) (b, w)
    = (Inr (MessageReturn0\<lparr>mr_acknowledgement := ''Received CTEXT. Thank you, Your Server''\<rparr>),
       (b\<lparr>brokerCTs := (brokerCTs b)(P \<mapsto> ct')\<rparr>, w2))"
  using assms by (simp add: bk_CipherTextRequestServicer_def MessageRequest0_def Let_def abind_def require_def serial_okD
      received_keyI)

lemma cached_ctI:
  "brokerCTs b P = Some ct \<Longrightarrow> cached_ct P (b, w) = (Inr (ct, True), (b, w))"
  by (simp add: cached_ct_def idx_val_def idx_map_def)

lemma to_consumer_cached:
  assumes "serial_ok L" "split_on CHR ''-'' ch = P # C # rest"
    and "upstream_of params P = (un, ut, flag)"
    and "ParseRoutingTable (bk_files b) (routingtablepath params) (pre_process_name params) C = Inr tab"
    and "brokerCTs b P = Some ct"
    and "b_PublicKeyToBroker ks [] ut un w = (Inr (p1, pk1), w1)"
    and "b_ReEncryptionKeyToBroker ks [] ''broker'' (pre_process_name params) un ut w1 = (Inr (p2, rk1), w2)"
    and "b_PublicKeyToBroker ks pk1 ''broker'' (pre_process_name params) w2 = (Inr (p3, p_ser_pk L (Some pk)), w3)"
    and "b_ReEncryptionKeyToBroker ks rk1 t C (pre_process_name params) ''broker'' w3 = (Inr (p4, p_ser_rk L rk), w4)"
    and "UpdateRoutingTable writable (bk_files b) (routingtablepath params) ch (pre_process_name params) un C flag = Inr fs'"
    and "unless_null L (security_model params) ct rk (Some pk) = Inr (Some ct')"
  shows "bk_handler L writable params ks bu (CipherTextToConsumer_m,
      MessageRequest0\<lparr>rq_client_type := t, rq_client_name := C, rq_upstream_client_name := x, rq_channel_name := ch\<rparr>) (b, w)
    = (Inr (MessageReturn0\<lparr>textAvailable := True, producerRegistered := True, mr_ciphertext := p_ser_ct L (Some ct')\<rparr>),
       (b\<lparr>bk_files := fs'\<rparr>, w4))"
proof -
  have r: "add_route writable params ch un C flag (b, w4) = (Inr (), (b\<lparr>bk_files := fs'\<rparr>, w4))"
    using assms(10) by (simp add: add_route_def abind_def)
  have c: "cached_ct P (b, w2) = (Inr (ct, True), (b, w2))" by (rule cached_ctI [OF assms(5)])
  show ?thesis
    using assms(1-9,11) r c
    by (simp add: CipherTextToConsumerRequestServicer_def MessageRequest0_def Let_def abind_def require_def serial_okD
        received_keyI)
qed

section \<open>The programs, step by step\<close>

definition clients_to_ks :: "string \<Rightarrow> ('s, ks_request, MessageReturn) handler \<Rightarrow> (('b \<times> 's \<times> bool) \<times> bool, ks_request) upstream" where
  \<comment> \<open>the key server, as the clients reach it: it is in the world of the broker\<close>
  "clients_to_ks msg h = on_fst (on_snd (rpc_to msg h))"

lemma clients_to_ks_Inr:
  "h q s = (Inr p, s') \<Longrightarrow> clients_to_ks msg h q ((b, s, True), f) = (Inr p, ((b, s', True), f))"
  by (simp add: clients_to_ks_def)

lemma ks_context:
  "serial_ok L \<Longrightarrow> ks_cc k = Some c \<Longrightarrow> ks_handler L up (CryptoContextFromServer_m, q) (k, w)
     = (Inr (MessageReturn0\<lparr>mr_cryptocontext := p_ser_cc L (Some c)\<rparr>), (k, w))"
  by (simp add: ks_CryptoContextRequestServicer_def abind_def serial_okD)

lemma ks_private_key:
  "serial_ok L \<Longrightarrow> ks_handler L up (PrivateKeyFromProducer_m, MessageRequest0\<lparr>rq_pkey := p_ser_sk L (Some sk), rq_client_name := n\<rparr>) (k, w)
     = (Inr (MessageReturn0\<lparr>mr_acknowledgement := ''Received PKEY. Thank you, Your Server''\<rparr>),
        (k\<lparr>PrivateKeys := (PrivateKeys k)((''producer'', n) \<mapsto> Some sk)\<rparr>, w))"
  by (simp add: PrivateKeyRequestServicer_def MessageRequest0_def Let_def abind_def require_def serial_okD)

lemma ks_public_key:
  "serial_ok L \<Longrightarrow> ks_handler L up (PublicKeyFromClient_m, MessageRequest0\<lparr>rq_pkey := p_ser_pk L (Some pk), rq_client_type := t,
       rq_client_name := n\<rparr>) (k, w)
     = (Inr (MessageReturn0\<lparr>mr_acknowledgement := ''Received PKEY. Thank you, Your Server''\<rparr>),
        (k\<lparr>ks_PublicKeys := (ks_PublicKeys k)((t, n) \<mapsto> Some pk)\<rparr>, w))"
  by (simp add: ks_PublicKeyRequestServicer_def MessageRequest0_def Let_def abind_def require_def serial_okD)

lemma ks_broker_context:
  "serial_ok L \<Longrightarrow> ks_cc k = Some c \<Longrightarrow>
     ks_handler L up (CryptoContextRequestFromServer_Broker_m, MessageRequest0\<lparr>rq_client_name := n\<rparr>) (k, w)
     = (Inr (MessageReturn0\<lparr>mr_cryptocontext := p_ser_cc L (Some c)\<rparr>),
        (k\<lparr>key_draws := Suc (key_draws k),
           ks_PublicKeys := (ks_PublicKeys k)((''broker'', n) \<mapsto> fst (p_KeyGen L (key_draws k))),
           PrivateKeys := (PrivateKeys k)((''broker'', n) \<mapsto> snd (p_KeyGen L (key_draws k)))\<rparr>, w))"
  by (simp add: CryptoContextRequest_BrokerServicer_def MessageRequest0_def Let_def abind_def require_def serial_okD)

lemma bk_init_run:
  assumes "serial_ok L" "ks_cc k = Some c"
  shows "bk_init L writable params (rpc_to msg (ks_handler L up)) fs ((k, w), True)
    = (Inr \<lparr> bcc = Some c, brokerCTs = Map.empty,
             bk_files = ClearRoutingTable writable fs (routingtablepath params @ pre_process_name params) \<rparr>,
       ((k\<lparr>key_draws := Suc (key_draws k),
           ks_PublicKeys := (ks_PublicKeys k)((''broker'', pre_process_name params) \<mapsto> fst (p_KeyGen L (key_draws k))),
           PrivateKeys := (PrivateKeys k)((''broker'', pre_process_name params) \<mapsto> snd (p_KeyGen L (key_draws k)))\<rparr>, w), True))"
  using ks_broker_context [OF assms, of up "pre_process_name params" w] serial_okD [OF assms(1)]
  by (simp add: bk_init_def b_CryptoContextRequestFromServer_Broker_def up_call_def Let_def abind_def require_def
      received_keyI rpc_to_def MessageReturn0_def)

lemma context_run:
  assumes "serial_ok L" "ks_cc k = Some c" "ask = (\<lambda>ks. abind (up_call ks (CryptoContextFromServer_m, MessageRequest0)) (\<lambda>reply. ret (mr_cryptocontext reply)))"
  shows "client_context L (ask (clients_to_ks msg (ks_handler L up))) ((b, (k, w), True), f) = (Inr c, ((b, (k, w), True), f))"
  by (simp add: client_context_def assms(3) up_call_def abind_def received_keyI MessageReturn0_def serial_okD [OF assms(1)]
      clients_to_ks_Inr [where h = "ks_handler L up", OF ks_context [OF assms(1,2)]])

lemma producer_run:
  assumes "serial_ok L" "ks_cc k = Some c" "p_KeyGen L n = (Some pk, Some sk)"
    and "pre_genCT L fs c (Some pk) params = Inr (Some ct)"
    and "h (CipherTextFromProducer_m, MessageRequest0\<lparr>rq_ctext := p_ser_ct L (Some ct), rq_client_name := pre_process_name params\<rparr>)
       (b, (k\<lparr>PrivateKeys := (PrivateKeys k)((''producer'', pre_process_name params) \<mapsto> Some sk),
          ks_PublicKeys := (ks_PublicKeys k)((''producer'', pre_process_name params) \<mapsto> Some pk)\<rparr>, w), True) = (Inr p, (b', kw'))"
  shows "pre_producer L n fs params (clients_to_ks msg (ks_handler L up)) (rpc_to msg h) ((b, (k, w), True), True)
    = (Inr (), ((b', kw'), True))"
proof -
  let ?ks = "clients_to_ks msg (ks_handler L up)" and ?P = "pre_process_name params"
  let ?k1 = "k\<lparr>PrivateKeys := (PrivateKeys k)((''producer'', ?P) \<mapsto> Some sk)\<rparr>"
  have 1: "client_context L (prod_CryptoContextFromServer ?ks) ((b, (k, w), True), True) = (Inr c, ((b, (k, w), True), True))"
    by (rule context_run [OF assms(1,2)]) (simp add: prod_CryptoContextFromServer_def fun_eq_iff)
  have 2: "prod_PrivateKeyFromProducer ?ks (p_ser_sk L (Some sk)) ?P ((b, (k, w), True), True)
      = (Inr ''Received PKEY. Thank you, Your Server'', ((b, (?k1, w), True), True))"
    by (simp add: prod_PrivateKeyFromProducer_def up_call_def abind_def MessageReturn0_def
        clients_to_ks_Inr [where h = "ks_handler L up", OF ks_private_key [OF assms(1)]])
  have 3: "prod_PublicKeyFromClient ?ks (p_ser_pk L (Some pk)) ?P ((b, (?k1, w), True), True)
      = (Inr ''Received PKEY. Thank you, Your Server'',
         ((b, (?k1\<lparr>ks_PublicKeys := (ks_PublicKeys ?k1)((''producer'', ?P) \<mapsto> Some pk)\<rparr>, w), True), True))"
    by (simp add: prod_PublicKeyFromClient_def up_call_def abind_def MessageReturn0_def
        clients_to_ks_Inr [where h = "ks_handler L up", OF ks_public_key [OF assms(1)]])
  show ?thesis
    using 1 2 3 assms(3,4) transport_simps(2) [where h = h and msg = msg, OF assms(5)] serial_okD [OF assms(1)]
    by (simp add: pre_producer_def Let_def abind_def prod_CipherTextFromProducer_def up_call_def)
qed

lemma consumer_request_run:
  assumes "serial_ok L" "ks_cc k = Some c" "fst (p_KeyGen L n) = Some pk" "channel_name params \<noteq> []"
    and "h (CipherTextToConsumer_m, MessageRequest0\<lparr>rq_client_type := ''consumer'', rq_client_name := pre_process_name params,
         rq_upstream_client_name := upstream_broker_name params, rq_channel_name := channel_name params\<rparr>)
       (b, (k\<lparr>ks_PublicKeys := (ks_PublicKeys k)((''consumer'', pre_process_name params) \<mapsto> Some pk)\<rparr>, w), True) = (Inr p, (b', kw'))"
    and "textAvailable p" "producerRegistered p"
  shows "consumer_request L n params (clients_to_ks msg (ks_handler L up)) (rpc_to msg h) ((b, (k, w), True), True)
    = (Inr (c, p, mr_ciphertext p), ((b', kw'), True))"
proof -
  let ?ks = "clients_to_ks msg (ks_handler L up)" and ?C = "pre_process_name params"
  have 1: "client_context L (cons_CryptoContextFromServer ?ks) ((b, (k, w), True), True) = (Inr c, ((b, (k, w), True), True))"
    by (rule context_run [OF assms(1,2)]) (simp add: cons_CryptoContextFromServer_def fun_eq_iff)
  have 2: "cons_PublicKeyFromClient ?ks (p_ser_pk L (Some pk)) ?C ((b, (k, w), True), True)
      = (Inr ''Received PKEY. Thank you, Your Server'',
         ((b, (k\<lparr>ks_PublicKeys := (ks_PublicKeys k)((''consumer'', ?C) \<mapsto> Some pk)\<rparr>, w), True), True))"
    by (simp add: cons_PublicKeyFromClient_def up_call_def abind_def MessageReturn0_def
        clients_to_ks_Inr [where h = "ks_handler L up", OF ks_public_key [OF assms(1)]])
  show ?thesis
    using 1 2 assms(3,4,6,7) transport_simps(2) [where h = h and msg = msg, OF assms(5)] serial_okD [OF assms(1)]
    by (simp add: consumer_request_def Let_def abind_def require_def cons_CipherTextToConsumer_def up_call_def)
qed

lemma consumer_run:
  assumes "consumer_request L n params ks bu x = (Inr (c, p, p_ser_ct L (Some ct)), x')" "textAvailable p" "serial_ok L"
    and "p_Decrypt L (snd (p_KeyGen L n)) (Some ct) = Inr v" "256 \<le> length v"
    and "intvec2hexstr (take 256 v) (p_PlaintextModulus L c) = Inr key"
    and "writable (consumer_aes_key params @ ''_'' @ channel_name params)"
  shows "pre_consumer L n writable fs params ks bu x
    = Some (Inr (fs(consumer_aes_key params @ ''_'' @ channel_name params \<mapsto> key)), x')"
  using assms by (simp add: pre_consumer_def await_text.simps store_key_def decrypted_key_def serial_okD Let_def)

section \<open>The demo, up to the consumer\<close>

lemma split_on_no: "c \<notin> set s \<Longrightarrow> split_on c s = [s]"
  by (induction s) auto

lemma split_on_two: "c \<notin> set s \<Longrightarrow> c \<notin> set t \<Longrightarrow> split_on c (s @ c # t) = [s, t]"
  by (induction s) (auto simp: split_on_no)

lemma genCT_run:
  assumes "scheme_ok L enc" "p_PlaintextModulus L c = 2"
    and "fs (producer_aes_key params @ ''_'' @ pre_process_name params) = Some content" "tokens content = key # ts"
    and "length key = 64" "list_all is_hex key"
  shows "\<exists>v ct. pre_genCT L fs c (fst (p_KeyGen L n)) params = Inr (Some ct) \<and> enc 0 n v ct
    \<and> bits256 v \<and> intvec2hexstr v 2 = Inr (map lower_hex key)"
proof -
  obtain v where v: "hexstr2intvec key 2 = Inr v" "bits256 v" "intvec2hexstr v 2 = Inr (map lower_hex key)"
    using hex_there_and_back [of key] assms(5,6) by (auto simp: bits256_def)
  obtain ct where "p_Encrypt L (fst (p_KeyGen L n)) v = Some ct" "enc 0 n v ct"
    using scheme_encrypt [where L = L and enc = enc, OF assms(1) v(2)] by blast
  then show ?thesis using v assms(2-5) by (auto simp: pre_genCT_def bits256_def Let_def)
qed

definition ready_for_consumer ::
  "('cc, 'pk, 'sk, 'rk, 'ct) pre_lib \<Rightarrow> 'cc \<Rightarrow> string list \<Rightarrow> nat \<Rightarrow> string \<Rightarrow> string \<Rightarrow> 'ct \<Rightarrow> string
   \<Rightarrow> ('cc, 'ct) broker_state \<Rightarrow> ('cc, 'pk, 'sk) ks_state \<Rightarrow> bool" where
  \<comment> \<open>the broker B has a ciphertext of the producer P, the key server has the keys of both\<close>
  "ready_for_consumer L c amap np B P ct route b k \<longleftrightarrow>
     brokerCTs b P = Some (Some ct) \<and> bk_files b route = Some [] \<and> ks_cc k = Some c \<and> authorizedConsumers k = amap
   \<and> ks_PublicKeys k (''broker'', B) = Some (fst (p_KeyGen L 0)) \<and> PrivateKeys k (''broker'', B) = Some (snd (p_KeyGen L 0))
   \<and> ks_PublicKeys k (''producer'', P) = Some (fst (p_KeyGen L np)) \<and> PrivateKeys k (''producer'', P) = Some (snd (p_KeyGen L np))"

lemma demo_started:
  assumes "serial_ok L" "scheme_ok L enc" "security_model pB \<in> models" "p_PlaintextModulus L c = 2"
    and "fsP (producer_aes_key pP @ ''_'' @ pre_process_name pP) = Some content" "tokens content = key # ts"
    and "length key = 64" "list_all is_hex key"
    and "pre_process_name pB \<in> set amap" "writable (routingtablepath pB @ pre_process_name pB)"
  shows "\<exists>b w v ct b' k.
      bk_init L writable pB (rpc_to msg (ks_handler L up)) fsB ((ks_state0 (Some c) amap, u), True) = (Inr b, w)
    \<and> pre_producer L np fsP pP (clients_to_ks msg (ks_handler L up))
        (rpc_to msg (bk_handler L writable pB (rpc_to msg (ks_handler L up)) bu)) ((b, w), True) = (Inr (), ((b', (k, u), True), True))
    \<and> ready_for_consumer L c amap np (pre_process_name pB) (pre_process_name pP) ct (routingtablepath pB @ pre_process_name pB) b' k
    \<and> enc 1 0 v ct \<and> bits256 v \<and> intvec2hexstr v 2 = Inr (map lower_hex key)"
proof -
  let ?B = "pre_process_name pB" and ?P = "pre_process_name pP" and ?ks = "rpc_to msg (ks_handler L up)"
  let ?route = "routingtablepath pB @ ?B" and ?k0 = "ks_state0 (Some c) amap"
  obtain pk0 sk0 where k0: "p_KeyGen L 0 = (Some pk0, Some sk0)" using scheme_keys [OF assms(2)] by blast
  obtain pk sk where kp: "p_KeyGen L np = (Some pk, Some sk)" using scheme_keys [OF assms(2)] by blast
  let ?b = "\<lparr> bcc = Some c, brokerCTs = Map.empty, bk_files = fsB(?route \<mapsto> []) \<rparr>"
  let ?k1 = "?k0\<lparr>key_draws := 1, ks_PublicKeys := [(''broker'', ?B) \<mapsto> Some pk0], PrivateKeys := [(''broker'', ?B) \<mapsto> Some sk0]\<rparr>"
  let ?k2 = "?k1\<lparr>PrivateKeys := (PrivateKeys ?k1)((''producer'', ?P) \<mapsto> Some sk),
      ks_PublicKeys := (ks_PublicKeys ?k1)((''producer'', ?P) \<mapsto> Some pk)\<rparr>"
  have start: "bk_init L writable pB ?ks fsB ((?k0, u), True) = (Inr ?b, ((?k1, u), True))"
    using bk_init_run [where L = L and k = ?k0 and c = c and up = up and w = u and msg = msg and params = pB and fs = fsB and writable = writable] assms(1,10) by (simp add: ks_state0_def ClearRoutingTable_def k0)
  obtain v ct where gen: "pre_genCT L fsP c (Some pk) pP = Inr (Some ct)" and ct: "enc 0 np v ct"
    and v: "bits256 v" "intvec2hexstr v 2 = Inr (map lower_hex key)"
    using genCT_run [where L = L and enc = enc and c = c and fs = fsP and params = pP and n = np, OF assms(2,4-8)] by (auto simp: kp)
  obtain rk where rk: "ReKeyGen L sk (Some pk0) = Inr (Some rk)"
    and hop: "\<And>c. enc 0 np v c \<Longrightarrow> \<exists>c'. reencrypt L (security_model pB) (Some c) (Some rk) (Some pk) = Inr (Some c') \<and> enc (Suc 0) 0 v c'"
    using reencrypt_hop [where L = L and enc = enc and h = 0 and i = np and sk = sk and v = v and j = 0, OF assms(2,3) _ _ v(1)]
    by (auto simp: kp k0)
  obtain ct0 where ct0: "reencrypt L (security_model pB) (Some ct) (Some rk) (Some pk) = Inr (Some ct0)" "enc (Suc 0) 0 v ct0"
    using hop [OF ct] by blast
  have 1: "b_PublicKeyToBroker ?ks [] ''producer'' ?P ((?k2, u), True) = (Inr
      (MessageReturn0\<lparr>producerRegistered := True, keyAvailable := True, mr_pkey := p_ser_pk L (Some pk)\<rparr>, p_ser_pk L (Some pk)), ((?k2, u), True))"
    using known_pk [where L = L and k = ?k2 and t = "''producer''" and n = ?P and pk = pk and up = up and w = u] assms(1) by simp
  have 2: "b_ReEncryptionKeyToBroker ?ks [] ''broker'' ?B ?P ''producer'' ((?k2, u), True) = (Inr
      (MessageReturn0\<lparr>producerRegistered := True, keyAvailable := True, reKey := p_ser_rk L (Some rk)\<rparr>, p_ser_rk L (Some rk)), ((?k2, u), True))"
    using known_rk [where L = L and k = ?k2 and c = c and t = "''broker''" and n = ?B and pk = pk0 and ut = "''producer''" and un = ?P
        and sk = sk and rk = "Some rk" and up = up and w = u] assms(1,9) rk
    by (simp add: ks_state0_def gen_rekey_authorised)
  note serve = from_producer [OF assms(1) 1 2 ct0(1), of writable bu ?b]
  have "pre_producer L np fsP pP (clients_to_ks msg (ks_handler L up)) (rpc_to msg (bk_handler L writable pB ?ks bu))
      ((?b, (?k1, u), True), True)
    = (Inr (), ((?b\<lparr>brokerCTs := [?P \<mapsto> Some ct0]\<rparr>, (?k2, u), True), True))"
    using producer_run [where k = ?k1 and up = up and w = u and h = "bk_handler L writable pB ?ks bu" and b = ?b and msg = msg,
        OF assms(1) _ kp gen serve] by (simp add: ks_state0_def)
  moreover have "ready_for_consumer L c amap np ?B ?P ct0 ?route (?b\<lparr>brokerCTs := [?P \<mapsto> Some ct0]\<rparr>) ?k2"
    by (simp add: ready_for_consumer_def ks_state0_def kp k0)
  ultimately show ?thesis using start ct0(2) v unfolding One_nat_def by blast
qed

lemma consumer_served:
  assumes "serial_ok L" "scheme_ok L enc" "ready_for_consumer L c amap np B P ct (routingtablepath pB @ B) b k"
    and "B = pre_process_name pB" "B \<in> set amap" "upstream_broker_name pB = []" "writable (routingtablepath pB @ B)"
    and "CHR ''-'' \<notin> set P" "CHR ''-'' \<notin> set C" "p_KeyGen L 0 = (Some pk0, Some sk0)"
    and "gen_rekey L amap C (Some c) sk0 (Some pkc) = Inr rk"
    and "unless_null L (security_model pB) (Some ct) rk (Some pk0) = Inr (Some ct')"
  shows "\<exists>b'. brokerCTs b' = brokerCTs b \<and> bk_handler L writable pB (rpc_to msg (ks_handler L up)) bu (CipherTextToConsumer_m,
      MessageRequest0\<lparr>rq_client_type := ''consumer'', rq_client_name := C, rq_upstream_client_name := x, rq_channel_name := P @ ''-'' @ C\<rparr>)
      (b, ((k\<lparr>ks_PublicKeys := (ks_PublicKeys k)((''consumer'', C) \<mapsto> Some pkc)\<rparr>, u), True))
    = (Inr (MessageReturn0\<lparr>textAvailable := True, producerRegistered := True, mr_ciphertext := p_ser_ct L (Some ct')\<rparr>),
       (b', ((k\<lparr>ks_PublicKeys := (ks_PublicKeys k)((''consumer'', C) \<mapsto> Some pkc)\<rparr>, u), True)))"
proof -
  let ?k = "k\<lparr>ks_PublicKeys := (ks_PublicKeys k)((''consumer'', C) \<mapsto> Some pkc)\<rparr>" and ?ks = "rpc_to msg (ks_handler L up)"
  obtain pk sk where kp: "p_KeyGen L np = (Some pk, Some sk)" using scheme_keys [OF assms(2)] by blast
  obtain rk1 where rk1: "ReKeyGen L sk (Some pk0) = Inr (Some rk1)"
    using scheme_rekey [OF assms(2), of np sk 0] by (auto simp: kp assms(10))
  from assms(3) have k: "brokerCTs b P = Some (Some ct)" "bk_files b (routingtablepath pB @ B) = Some []"
    "ks_cc k = Some c" "authorizedConsumers k = amap" "ks_PublicKeys k (''broker'', B) = Some (Some pk0)"
    "PrivateKeys k (''broker'', B) = Some (Some sk0)" "ks_PublicKeys k (''producer'', P) = Some (Some pk)"
    "PrivateKeys k (''producer'', P) = Some (Some sk)"
    by (simp_all add: ready_for_consumer_def kp assms(10))
  obtain p1 where 1: "b_PublicKeyToBroker ?ks [] ''producer'' P ((?k, u), True) = (Inr (p1, p_ser_pk L (Some pk)), ((?k, u), True))"
    using known_pk [where L = L and k = ?k and t = "''producer''" and n = P and pk = pk and up = up and w = u] assms(1) k by simp
  obtain p2 where 2: "b_ReEncryptionKeyToBroker ?ks [] ''broker'' (pre_process_name pB) P ''producer'' ((?k, u), True)
      = (Inr (p2, p_ser_rk L (Some rk1)), ((?k, u), True))"
    using known_rk [where L = L and k = ?k and c = c and t = "''broker''" and n = B and pk = pk0 and ut = "''producer''" and un = P
        and sk = sk and rk = "Some rk1" and up = up and w = u] assms(1,4,5) k rk1 by (simp add: gen_rekey_authorised)
  obtain p3 where 3: "b_PublicKeyToBroker ?ks (p_ser_pk L (Some pk)) ''broker'' (pre_process_name pB) ((?k, u), True)
      = (Inr (p3, p_ser_pk L (Some pk0)), ((?k, u), True))"
    using known_pk [where L = L and k = ?k and t = "''broker''" and n = B and pk = pk0 and up = up and w = u] assms(1,4) k by simp
  obtain p4 where 4: "b_ReEncryptionKeyToBroker ?ks (p_ser_rk L (Some rk1)) ''consumer'' C (pre_process_name pB) ''broker'' ((?k, u), True)
      = (Inr (p4, p_ser_rk L rk), ((?k, u), True))"
    using known_rk [where L = L and k = ?k and c = c and t = "''consumer''" and n = C and pk = pkc and ut = "''broker''" and un = B
        and sk = sk0 and rk = rk and up = up and w = u] assms(1,4,11) k by simp
  obtain fs' where 5: "UpdateRoutingTable writable (bk_files b) (routingtablepath pB) (P @ ''-'' @ C) (pre_process_name pB) P C True = Inr fs'"
    using assms(4,7) by (simp add: UpdateRoutingTable_def Let_def)
  have 6: "ParseRoutingTable (bk_files b) (routingtablepath pB) (pre_process_name pB) C = Inr Map.empty"
    using k(2) assms(4) by (simp add: ParseRoutingTable_def)
  have 7: "split_on CHR ''-'' (P @ ''-'' @ C) = [P, C]" using split_on_two [OF assms(8,9)] by simp
  have 8: "upstream_of pB P = (P, ''producer'', True)" using assms(6) by (simp add: upstream_of_def)
  show ?thesis
    using to_consumer_cached [OF assms(1) 7 8 6 k(1) 1 2 3 4 5 assms(12), of bu x]
    by (intro exI [of _ "b\<lparr>bk_files := fs'\<rparr>"]) simp
qed

text \<open>C14: The demo works. With a key server, a broker without upstream and a consumer that both are in the key
  server's access map, in any of the four security models: the broker starts, the producer reads a key of 64
  hexadecimal digits from its key file, encrypts it and sends it to the broker, and the consumer that asks for the
  channel producer-consumer writes the same key, in lower case, to its own key file. What the programs rely on:
  serialised objects are read back, and re-encryption is correct.\<close>

theorem demo_delivers_key:
  assumes "serial_ok L" "scheme_ok L enc" "security_model pB \<in> models" "p_PlaintextModulus L c = 2"
    and "fsP (producer_aes_key pP @ ''_'' @ P) = Some content" "tokens content = key # ts" "length key = 64" "list_all is_hex key"
    and "pre_process_name pP = P" "pre_process_name pB = B" "pre_process_name pC = C" "B \<in> set amap" "C \<in> set amap"
    and "upstream_broker_name pB = []" "channel_name pC = P @ ''-'' @ C" "CHR ''-'' \<notin> set P" "CHR ''-'' \<notin> set C"
    and "writable (routingtablepath pB @ B)" "writableC (consumer_aes_key pC @ ''_'' @ P @ ''-'' @ C)"
    and "ks = rpc_to msg (ks_handler L up)" "cks = clients_to_ks msg (ks_handler L up)"
    and "cbk = rpc_to msg (bk_handler L writable pB ks bu)"
  shows "\<exists>b w x y. bk_init L writable pB ks fsB ((ks_state0 (Some c) amap, u), True) = (Inr b, w)
    \<and> pre_producer L np fsP pP cks cbk ((b, w), True) = (Inr (), x)
    \<and> pre_consumer L nc writableC fsC pC cks cbk x
        = Some (Inr (fsC(consumer_aes_key pC @ ''_'' @ P @ ''-'' @ C \<mapsto> map lower_hex key)), y)"
proof -
  have P: "fsP (producer_aes_key pP @ ''_'' @ pre_process_name pP) = Some content" "pre_process_name pB \<in> set amap"
    "writable (routingtablepath pB @ pre_process_name pB)" using assms(5,9,10,12,18) by simp_all
  obtain b w v ct b' k where run: "bk_init L writable pB ks fsB ((ks_state0 (Some c) amap, u), True) = (Inr b, w)"
      "pre_producer L np fsP pP cks cbk ((b, w), True) = (Inr (), ((b', (k, u), True), True))"
    and ready: "ready_for_consumer L c amap np B P ct (routingtablepath pB @ B) b' k"
    and ct: "enc (Suc 0) 0 v ct" "bits256 v" "intvec2hexstr v 2 = Inr (map lower_hex key)"
    using demo_started [where pB = pB and pP = pP and fsP = fsP and fsB = fsB and up = up and u = u and msg = msg and np = np and bu = bu
        and amap = amap and writable = writable, OF assms(1-4) P(1) assms(6-8) P(2,3)]
    unfolding assms(9-11,20-22) One_nat_def by blast
  obtain pk0 sk0 where k0: "p_KeyGen L 0 = (Some pk0, Some sk0)" using scheme_keys [OF assms(2)] by blast
  obtain pkc skc where kc: "p_KeyGen L nc = (Some pkc, Some skc)" using scheme_keys [OF assms(2)] by blast
  obtain rk where rk: "ReKeyGen L sk0 (Some pkc) = Inr (Some rk)"
    and hop: "\<And>c. enc (Suc 0) 0 v c \<Longrightarrow> \<exists>c'. reencrypt L (security_model pB) (Some c) (Some rk) (Some pk0) = Inr (Some c') \<and> enc (Suc (Suc 0)) nc v c'"
    using reencrypt_hop [where L = L and enc = enc and h = "Suc 0" and i = 0 and sk = sk0 and v = v and j = nc, OF assms(2,3) _ _ ct(2)]
    by (auto simp: kc k0)
  obtain ct' where ct': "reencrypt L (security_model pB) (Some ct) (Some rk) (Some pk0) = Inr (Some ct')" "enc (Suc (Suc 0)) nc v ct'"
    using hop [OF ct(1)] by blast
  let ?p = "MessageReturn0\<lparr>textAvailable := True, producerRegistered := True, mr_ciphertext := p_ser_ct L (Some ct')\<rparr>"
  obtain b'' where served: "bk_handler L writable pB ks bu (CipherTextToConsumer_m, MessageRequest0\<lparr>rq_client_type := ''consumer'',
        rq_client_name := pre_process_name pC, rq_upstream_client_name := upstream_broker_name pC, rq_channel_name := channel_name pC\<rparr>)
      (b', (k\<lparr>ks_PublicKeys := (ks_PublicKeys k)((''consumer'', pre_process_name pC) \<mapsto> Some pkc)\<rparr>, u), True)
    = (Inr ?p, (b'', (k\<lparr>ks_PublicKeys := (ks_PublicKeys k)((''consumer'', pre_process_name pC) \<mapsto> Some pkc)\<rparr>, u), True))"
    using consumer_served [where msg = msg and up = up and u = u and bu = bu and x = "upstream_broker_name pC" and writable = writable,
        OF assms(1,2) ready assms(10) [symmetric] assms(12,14,18,16,17) k0, of pkc "Some rk" ct'] ct' rk
    by (auto simp: unless_null_def gen_rekey_authorised assms)
  have "ks_cc k = Some c" using ready by (simp add: ready_for_consumer_def)
  then have req: "consumer_request L nc pC cks cbk ((b', (k, u), True), True) = (Inr (c, ?p, p_ser_ct L (Some ct')),
      ((b'', (k\<lparr>ks_PublicKeys := (ks_PublicKeys k)((''consumer'', pre_process_name pC) \<mapsto> Some pkc)\<rparr>, u), True), True))"
    using consumer_request_run [where msg = msg and up = up and h = "bk_handler L writable pB ks bu", OF assms(1) _ _ _ served, of c nc]
    by (simp add: kc assms(15,21,22))
  obtain rest where dec: "p_Decrypt L (Some skc) (Some ct') = Inr (v @ rest)" "256 \<le> length (v @ rest)"
    using scheme_decrypt [where L = L and enc = enc, OF assms(2) _ ct(2) ct'(2)] ct(2) by (auto simp: kc bits256_def)
  have "pre_consumer L nc writableC fsC pC cks cbk ((b', (k, u), True), True)
      = Some (Inr (fsC(consumer_aes_key pC @ ''_'' @ channel_name pC \<mapsto> map lower_hex key)),
          ((b'', (k\<lparr>ks_PublicKeys := (ks_PublicKeys k)((''consumer'', pre_process_name pC) \<mapsto> Some pkc)\<rparr>, u), True), True))"
    by (rule consumer_run [OF req _ assms(1) _ dec(2)]) (use assms(19) ct(2) in \<open>simp_all add: kc dec(1) ct(3) bits256_def assms(4,15)\<close>)
  with run show ?thesis unfolding assms(15) by blast
qed

text \<open>C25: A consumer that is not in the access map gets a ciphertext all the same, and its program does not notice:
  the broker passes on the very ciphertext it keeps for the producer, which is encrypted for the broker's
  own key pair (draw 0 of the key server), not for the consumer's, and whose plaintext is the producer's key. The
  documentation has it otherwise: \<^verbatim>\<open>Running_Examples.md\<close> says that such a consumer gets a ciphertext that is random garbage.\<close>

theorem demo_unauthorised_consumer:
  assumes "serial_ok L" "scheme_ok L enc" "security_model pB \<in> models" "p_PlaintextModulus L c = 2"
    and "fsP (producer_aes_key pP @ ''_'' @ P) = Some content" "tokens content = key # ts" "length key = 64" "list_all is_hex key"
    and "pre_process_name pP = P" "pre_process_name pB = B" "pre_process_name pC = C" "B \<in> set amap" "C \<notin> set amap"
    and "upstream_broker_name pB = []" "channel_name pC = P @ ''-'' @ C" "CHR ''-'' \<notin> set P" "CHR ''-'' \<notin> set C"
    and "writable (routingtablepath pB @ B)"
    and "ks = rpc_to msg (ks_handler L up)" "cks = clients_to_ks msg (ks_handler L up)"
    and "cbk = rpc_to msg (bk_handler L writable pB ks bu)"
  shows "\<exists>b w x ct v p b' kw. bk_init L writable pB ks fsB ((ks_state0 (Some c) amap, u), True) = (Inr b, w)
    \<and> pre_producer L np fsP pP cks cbk ((b, w), True) = (Inr (), x)
    \<and> enc 1 0 v ct \<and> intvec2hexstr v 2 = Inr (map lower_hex key)
    \<and> consumer_request L nc pC cks cbk x = (Inr (c, p, p_ser_ct L (Some ct)), ((b', kw), True))
    \<and> brokerCTs b' P = Some (Some ct)"
proof -
  have P: "fsP (producer_aes_key pP @ ''_'' @ pre_process_name pP) = Some content" "pre_process_name pB \<in> set amap"
    "writable (routingtablepath pB @ pre_process_name pB)" using assms(5,9,10,12,18) by simp_all
  obtain b w v ct b' k where run: "bk_init L writable pB ks fsB ((ks_state0 (Some c) amap, u), True) = (Inr b, w)"
      "pre_producer L np fsP pP cks cbk ((b, w), True) = (Inr (), ((b', (k, u), True), True))"
    and ready: "ready_for_consumer L c amap np B P ct (routingtablepath pB @ B) b' k" and ct: "enc (Suc 0) 0 v ct" "intvec2hexstr v 2 = Inr (map lower_hex key)"
    using demo_started [where pB = pB and pP = pP and fsP = fsP and fsB = fsB and up = up and u = u and msg = msg and np = np and bu = bu
        and amap = amap and writable = writable, OF assms(1-4) P(1) assms(6-8) P(2,3)]
    unfolding assms(9-11,19-21) One_nat_def by blast
  obtain pk0 sk0 where k0: "p_KeyGen L 0 = (Some pk0, Some sk0)" using scheme_keys [OF assms(2)] by blast
  obtain pkc skc where kc: "p_KeyGen L nc = (Some pkc, Some skc)" using scheme_keys [OF assms(2)] by blast
  let ?p = "MessageReturn0\<lparr>textAvailable := True, producerRegistered := True, mr_ciphertext := p_ser_ct L (Some ct)\<rparr>"
  obtain b'' where served: "bk_handler L writable pB ks bu (CipherTextToConsumer_m, MessageRequest0\<lparr>rq_client_type := ''consumer'',
        rq_client_name := pre_process_name pC, rq_upstream_client_name := upstream_broker_name pC, rq_channel_name := channel_name pC\<rparr>)
      (b', (k\<lparr>ks_PublicKeys := (ks_PublicKeys k)((''consumer'', pre_process_name pC) \<mapsto> Some pkc)\<rparr>, u), True)
    = (Inr ?p, (b'', (k\<lparr>ks_PublicKeys := (ks_PublicKeys k)((''consumer'', pre_process_name pC) \<mapsto> Some pkc)\<rparr>, u), True))"
    and kept: "brokerCTs b'' = brokerCTs b'"
    using consumer_served [where msg = msg and up = up and u = u and bu = bu and x = "upstream_broker_name pC" and writable = writable,
        OF assms(1,2) ready assms(10) [symmetric] assms(12,14,18,16,17) k0, of pkc None ct] assms(13)
    by (auto simp: unless_null_def gen_rekey_unauthorised assms(11,15,19))
  have "ks_cc k = Some c" using ready by (simp add: ready_for_consumer_def)
  then have "consumer_request L nc pC cks cbk ((b', (k, u), True), True) = (Inr (c, ?p, p_ser_ct L (Some ct)),
      ((b'', (k\<lparr>ks_PublicKeys := (ks_PublicKeys k)((''consumer'', pre_process_name pC) \<mapsto> Some pkc)\<rparr>, u), True), True))"
    using consumer_request_run [where msg = msg and up = up and h = "bk_handler L writable pB ks bu", OF assms(1) _ _ _ served, of c nc]
    by (simp add: kc assms(15,20,21))
  moreover have "brokerCTs b'' P = Some (Some ct)" using ready kept by (simp add: ready_for_consumer_def)
  ultimately show ?thesis using run ct unfolding One_nat_def by blast
qed

text \<open>C27: A broker that is not in the access map cannot take a ciphertext: the key server answers its request for
  the producer's re-encryption key with a null key, the broker passes it to \<^verbatim>\<open>ReEncrypt\<close>, and the exception
  of \<^verbatim>\<open>ReEncrypt\<close> ends the broker. The producer sees a failed call, and every later call to that broker fails.\<close>

theorem unauthorised_broker_dies:
  assumes "serial_ok L" "\<And>ct pk. \<exists>e. ReEncrypt L ct None pk = Inl e" "security_model params \<in> models"
    and "ks_cc k = Some c" "pre_process_name params \<notin> set (authorizedConsumers k)"
    and "ks_PublicKeys k (''broker'', pre_process_name params) = Some (Some pkB)"
    and "ks_PublicKeys k (''producer'', P) = Some (Some pkP)" "PrivateKeys k (''producer'', P) = Some (Some skP)"
  shows "rpc_to msg (bk_handler L writable params (rpc_to msg (ks_handler L up)) bu)
      (CipherTextFromProducer_m, MessageRequest0\<lparr>rq_ctext := p_ser_ct L (Some ct), rq_client_name := P\<rparr>)
      ((b, ((k, u), True)), True)
    = (Inl msg, ((b, ((k, u), True)), False))"
proof -
  obtain p1 where 1: "b_PublicKeyToBroker (rpc_to msg (ks_handler L up)) [] ''producer'' P ((k, u), True)
      = (Inr (p1, p_ser_pk L (Some pkP)), ((k, u), True))"
    using known_pk [where L = L and k = k and t = "''producer''" and n = P and pk = pkP and up = up and w = u] assms(1,7) by simp
  obtain p2 where 2: "b_ReEncryptionKeyToBroker (rpc_to msg (ks_handler L up)) [] ''broker'' (pre_process_name params) P ''producer'' ((k, u), True)
      = (Inr (p2, p_ser_rk L None), ((k, u), True))"
    using known_rk [where L = L and k = k and c = c and t = "''broker''" and n = "pre_process_name params" and pk = pkB
        and ut = "''producer''" and un = P and sk = skP and rk = None and up = up and w = u] assms
    by (simp add: gen_rekey_unauthorised)
  obtain e where e: "reencrypt L (security_model params) (Some ct) None (Some pkP) = Inl e"
    using assms(2) [of "Some ct" None] assms(2) [of "Some ct" "Some pkP"] assms(3) by (auto simp: reencrypt_def models_def)
  have "bk_handler L writable params (rpc_to msg (ks_handler L up)) bu
      (CipherTextFromProducer_m, MessageRequest0\<lparr>rq_ctext := p_ser_ct L (Some ct), rq_client_name := P\<rparr>) (b, ((k, u), True))
    = (Inl e, (b, ((k, u), True)))"
    using 1 2 e by (simp add: bk_CipherTextRequestServicer_def MessageRequest0_def Let_def abind_def require_def received_keyI
        serial_okD [OF assms(1)])
  then show ?thesis by (simp add: rpc_to_def)
qed

section \<open>A run\<close>

definition demo_params :: "string \<Rightarrow> PreParams" where
  "demo_params n = PreParams0\<lparr>pre_process_name := n, channel_name := ''P-C'', security_model := ''INDCPA''\<rparr>"

definition demo_key :: string where
  "demo_key = replicate 64 CHR ''A''"

definition demo_ks :: "(((nat, nat, nat) ks_state \<times> unit) \<times> bool, ks_request) upstream" where
  "demo_ks = rpc_to [] (ks_handler toy_scheme (unreachable []))"

definition demo_bk :: "((((nat, toy_ct) broker_state \<times> ((nat, nat, nat) ks_state \<times> unit) \<times> bool)) \<times> bool, bk_request) upstream" where
  "demo_bk = rpc_to [] (bk_handler toy_scheme (\<lambda>_. True) (demo_params ''B'') demo_ks (unreachable []))"

definition demo_clients :: "((((nat, toy_ct) broker_state \<times> ((nat, nat, nat) ks_state \<times> unit) \<times> bool)) \<times> bool, ks_request) upstream" where
  "demo_clients = clients_to_ks [] (ks_handler toy_scheme (unreachable []))"

definition demo_files :: files where
  "demo_files = [''demoData/keys/producer_aes_key_P'' \<mapsto> demo_key]"

lemma demo_key_facts:
  "tokens demo_key = [demo_key]" "length demo_key = 64" "list_all is_hex demo_key" "map lower_hex demo_key = replicate 64 CHR ''a''"
proof -
  have "\<forall>c \<in> set demo_key. \<not> is_space c" by (simp add: demo_key_def is_space_def)
  then have "tokens_from [] (demo_key @ []) = tokens_from demo_key []" by (subst tokens_from_word) simp_all
  then show "tokens demo_key = [demo_key]" by (simp add: tokens_def demo_key_def)
qed (simp_all add: demo_key_def list_all_iff is_hex_def hex_val_def lower_hex_def hex_digit_def char_of_def bit_0)

lemma demo_facts:
  "security_model (demo_params n) \<in> models" "p_PlaintextModulus toy_scheme c = 2"
  "demo_files (producer_aes_key (demo_params n) @ ''_'' @ ''P'') = Some demo_key"
  "pre_process_name (demo_params n) = n" "upstream_broker_name (demo_params n) = []" "channel_name (demo_params n) = ''P'' @ ''-'' @ ''C''"
  "consumer_aes_key (demo_params n) = ''demoData/keys/consumer_aes_key''"
  by (simp_all add: demo_params_def models_def toy_scheme_def demo_files_def PreParams0_def)

lemma demo_delivers_key_witness:
  "\<exists>b w x y. bk_init toy_scheme (\<lambda>_. True) (demo_params ''B'') demo_ks Map.empty ((ks_state0 (Some 0) [''B'', ''C''], ()), True) = (Inr b, w)
    \<and> pre_producer toy_scheme 5 demo_files (demo_params ''P'') demo_clients demo_bk ((b, w), True) = (Inr (), x)
    \<and> pre_consumer toy_scheme 6 (\<lambda>_. True) Map.empty (demo_params ''C'') demo_clients demo_bk x
        = Some (Inr [''demoData/keys/consumer_aes_key_P-C'' \<mapsto> replicate 64 CHR ''a''], y)"
  using demo_delivers_key [where L = toy_scheme and enc = toy_enc and pB = "demo_params ''B''" and pP = "demo_params ''P''" and pC = "demo_params ''C''"
      and P = "''P''" and B = "''B''" and C = "''C''" and c = 0 and fsP = demo_files and amap = "[''B'', ''C'']" and content = demo_key
      and key = demo_key and ts = "[]" and ks = demo_ks and cks = demo_clients and cbk = demo_bk and msg = "[]" and up = "unreachable []"
      and bu = "unreachable []" and writable = "\<lambda>_. True" and writableC = "\<lambda>_. True" and fsB = Map.empty and fsC = Map.empty and u = "()"
      and np = 5 and nc = 6]
  by (simp add: toy_serial toy_scheme_ok demo_facts demo_facts(3) [simplified] demo_key_facts demo_ks_def demo_clients_def demo_bk_def)

lemma demo_unauthorised_consumer_witness:
  "\<exists>b w x ct v p b' kw. bk_init toy_scheme (\<lambda>_. True) (demo_params ''B'') demo_ks Map.empty ((ks_state0 (Some 0) [''B''], ()), True) = (Inr b, w)
    \<and> pre_producer toy_scheme 5 demo_files (demo_params ''P'') demo_clients demo_bk ((b, w), True) = (Inr (), x)
    \<and> ct = (0, v) \<and> intvec2hexstr v 2 = Inr (map lower_hex demo_key)
    \<and> consumer_request toy_scheme 6 (demo_params ''C'') demo_clients demo_bk x = (Inr (0, p, p_ser_ct toy_scheme (Some ct)), ((b', kw), True))
    \<and> brokerCTs b' ''P'' = Some (Some ct)"
  using demo_unauthorised_consumer [where L = toy_scheme and enc = toy_enc and pB = "demo_params ''B''" and pP = "demo_params ''P''" and pC = "demo_params ''C''"
      and P = "''P''" and B = "''B''" and C = "''C''" and c = 0 and fsP = demo_files and amap = "[''B'']" and content = demo_key
      and key = demo_key and ts = "[]" and ks = demo_ks and cks = demo_clients and cbk = demo_bk and msg = "[]" and up = "unreachable []"
      and bu = "unreachable []" and writable = "\<lambda>_. True" and fsB = Map.empty and u = "()" and np = 5 and nc = 6]
  by (simp add: toy_serial toy_scheme_ok toy_enc_def demo_facts demo_facts(3) [simplified] demo_key_facts demo_ks_def demo_clients_def demo_bk_def)

lemma unauthorised_broker_dies_witness:
  "let k = (ks_state0 (Some 0) [''C''])\<lparr>ks_PublicKeys := [(''broker'', ''B'') \<mapsto> Some 0, (''producer'', ''P'') \<mapsto> Some 5],
       PrivateKeys := [(''broker'', ''B'') \<mapsto> Some 0, (''producer'', ''P'') \<mapsto> Some 5]\<rparr>; b = \<lparr> bcc = Some 0, brokerCTs = Map.empty, bk_files = Map.empty \<rparr>
   in demo_bk (CipherTextFromProducer_m, MessageRequest0\<lparr>rq_ctext := p_ser_ct toy_scheme (Some (5, [1])), rq_client_name := ''P''\<rparr>)
        ((b, ((k, ()), True)), True) = (Inl [], ((b, ((k, ()), True)), False))"
  unfolding Let_def demo_bk_def demo_ks_def
  by (rule unauthorised_broker_dies [where c = 0 and pkB = 0 and pkP = 5 and skP = 5])
    (auto simp: toy_serial demo_facts ks_state0_def, auto simp: toy_scheme_def split: option.splits)

lemma broker_routes_witness:
  "let b = \<lparr> bcc = Some 0, brokerCTs = [''P'' \<mapsto> Some (0, [1])], bk_files = [''demoData/routingTables/B'' \<mapsto> []] \<rparr>;
       rq = MessageRequest0\<lparr>rq_client_name := ''B2'', rq_channel_name := ''P-C''\<rparr>
   in \<exists>p b' w'. bk_handler toy_scheme (\<lambda>_. True) (demo_params ''B'') demo_ks (unreachable []) (ReEncryptedCipherTextToBroker_m, rq)
          (b, ((ks_state0 (Some 0) [], ()), True)) = (Inr p, (b', w'))
      \<and> textAvailable p \<and> bk_files b' ''demoData/routingTables/B'' = Some (''P-C:P>B2;source'' @ [newline])"
proof -
  let ?b = "\<lparr> bcc = Some 0, brokerCTs = [''P'' \<mapsto> Some (0, [1])], bk_files = [''demoData/routingTables/B'' \<mapsto> []] \<rparr> :: (nat, toy_ct) broker_state"
  let ?rq = "MessageRequest0\<lparr>rq_client_name := ''B2'', rq_channel_name := ''P-C''\<rparr>"
  let ?h = "bk_handler toy_scheme (\<lambda>_. True) (demo_params ''B'') demo_ks (unreachable []) (ReEncryptedCipherTextToBroker_m, ?rq)
    (?b, ((ks_state0 (Some 0) [], ()), True))"
  obtain p b' w' where h: "?h = (Inr p, (b', w'))" "textAvailable p"
    by (simp add: ReEncryptedCipherTextToBrokerRequestServicer_def MessageRequest0_def MessageReturn0_def Let_def abind_def upstream_of_def demo_params_def
        PreParams0_def ParseRoutingTable_def cached_ct_def idx_val_def idx_map_def add_route_def UpdateRoutingTable_def guard_ser_def toy_scheme_def)
  have u: "upstream_of (demo_params ''B'') (hd (split_on CHR ''-'' (rq_channel_name ?rq))) = (''P'', ''producer'', True)"
    by (simp add: upstream_of_def demo_facts MessageRequest0_def)
  from broker_routes [OF h(1) u] h(2) have "bk_files b' ''demoData/routingTables/B'' = Some (''P-C:P>B2;source'' @ [newline])"
    by (auto simp: UpdateRoutingTable_def routing_line_def demo_params_def PreParams0_def MessageRequest0_def
        dest!: fun_cong [where x = "''demoData/routingTables/B''"])
  with h show ?thesis unfolding Let_def by blast
qed

end
