(* ===== verification/P2P_Net.thy ===== *)
theory P2P_Net
  imports Node_Receive
begin

text \<open>
  Programs on the peer to peer framework and networks of them. A program is a tree of the calls it makes
  on its \<^verbatim>\<open>NodeImpl\<close>: \<^verbatim>\<open>sendMsg\<close>, \<^verbatim>\<open>getMsgWait\<close> without a timeout, one \<^verbatim>\<open>getMsg\<close>. \<open>node_move\<close> is
  the abstract network: one first-in first-out channel for each pair of nodes, blocking receives.
  Networks whose programs only receive in order, without a type, are confluent, so that one run that ends
  decides all others (\<open>net_confluent\<close>); \<open>turn\<close> is what one node does between two points of its program,
  the building block of such runs.
\<close>

section \<open>Programs\<close>

datatype 'a nprog =
    NRet "'a result"
  | NSend string string bytes u32 u32 "'a nprog" \<comment> \<open>destination, type, data, sleep time and timeout\<close>
  | NRecv string string "message_format \<Rightarrow> 'a nprog" \<comment> \<open>getMsgWait: sender, type\<close>
  | NPoll string string "message_format \<Rightarrow> 'a nprog" \<comment> \<open>one getMsg\<close>

primrec nbind :: "'a nprog \<Rightarrow> ('a \<Rightarrow> 'b nprog) \<Rightarrow> 'b nprog" where
  "nbind (NRet r) f = (case r of Inl e \<Rightarrow> NRet (Inl e) | Inr x \<Rightarrow> f x)"
| "nbind (NSend t ty d sl ti k) f = NSend t ty d sl ti (nbind k f)"
| "nbind (NRecv s ty k) f = NRecv s ty (\<lambda>m. nbind (k m) f)"
| "nbind (NPoll s ty k) f = NPoll s ty (\<lambda>m. nbind (k m) f)"

primrec patient :: "'a nprog \<Rightarrow> bool" where
  \<comment> \<open>the program neither polls nor asks for a type\<close>
  "patient (NRet r) = True"
| "patient (NSend t ty d sl ti k) = patient k"
| "patient (NRecv s ty k) = (ty = [] \<and> (\<forall>m. patient (k m)))"
| "patient (NPoll s ty k) = False"

definition nret :: "'a \<Rightarrow> 'a nprog" where
  "nret x = NRet (Inr x)"

definition nthrow :: "error \<Rightarrow> 'a nprog" where
  "nthrow e = NRet (Inl e)"

definition n_lift :: "'a result \<Rightarrow> 'a nprog" where
  "n_lift r = NRet r"

definition n_sendSerialMsg :: "('o \<Rightarrow> bytes) \<Rightarrow> 'o \<Rightarrow> string \<Rightarrow> string \<Rightarrow> unit nprog" where
  \<comment> \<open>sendSerialMsg with the default times\<close>
  "n_sendSerialMsg ser obj ty t =
     (if ser obj = [] then nthrow (Serialize_error (''Serialized '' @ ty @ '' is empty''))
      else NSend t ty (ser obj) 1 0 (nret ()))"

definition n_getSerialMsgWait :: "(bytes \<Rightarrow> 'o result) \<Rightarrow> string \<Rightarrow> string \<Rightarrow> 'o nprog" where
  \<comment> \<open>getSerialMsgWait: getMsgWait without the type\<close>
  "n_getSerialMsgWait deser ty s = NRecv s [] (\<lambda>msg.
     NRet (if Data msg = [] then Inl (Openfhe_error (''Received empty serialized object '' @ ty))
           else deser (Data msg)))"

lemma nbind_simps [simp]:
  "nbind (nret x) f = f x"
  "nbind (nthrow e) f = nthrow e"
  "nbind (n_lift (Inr x)) f = f x"
  "nbind (n_lift (Inl e)) f = nthrow e"
  by (simp_all add: nret_def nthrow_def n_lift_def)

lemma nbind_assoc: "nbind (nbind p f) g = nbind p (\<lambda>x. nbind (f x) g)"
  by (induction p) (auto split: sum.split)

lemma patient_nbind: "patient p \<Longrightarrow> (\<And>x. patient (f x)) \<Longrightarrow> patient (nbind p f)"
  by (induction p) (auto split: sum.split)

lemma patient_simps [simp]:
  "patient (nret x)" "patient (nthrow e)" "patient (n_lift r)" "patient (n_sendSerialMsg ser obj ty t)"
  "patient (n_getSerialMsgWait deser ty s)"
  by (simp_all add: nret_def nthrow_def n_lift_def n_sendSerialMsg_def n_getSerialMsgWait_def)

section \<open>The abstract network\<close>

record 'a net =
  procs :: "string \<rightharpoonup> 'a nprog"
  chan :: "string \<Rightarrow> string \<Rightarrow> message_format list" \<comment> \<open>receiver, sender\<close>

definition wire_msg :: "string \<Rightarrow> string \<Rightarrow> bytes \<Rightarrow> RequestMessage" where
  \<comment> \<open>what the node called i puts on the wire\<close>
  "wire_msg i ty d = \<lparr> node_name = i, data_type = ty, rq_data = d \<rparr>"

definition take_msg :: "string \<Rightarrow> message_format list \<Rightarrow> message_format \<times> message_format list" where
  "take_msg ty q =
     (if q = [] then (message0, [])
      else case (if ty = [] then (hd q, tl q) else pop_loop ty q) of (m, r) \<Rightarrow> (ack m, r))"

type_synonym links = "string \<Rightarrow> string \<Rightarrow> message_format list"

definition chan_put :: "string \<Rightarrow> string \<Rightarrow> message_format \<Rightarrow> links \<Rightarrow> links" where
  \<comment> \<open>i sends to t\<close>
  "chan_put i t m c = c(t := (c t)(i := c t i @ [m]))"

definition chan_take :: "string \<Rightarrow> string \<Rightarrow> string \<Rightarrow> links \<Rightarrow> links" where
  \<comment> \<open>i takes a message of s\<close>
  "chan_take i s ty c = c(i := (c i)(s := snd (take_msg ty (c i s))))"

definition not_in_map :: error where
  "not_in_map = Exit_failure ''is not in the network map''"

definition node_move :: "(string \<Rightarrow> string \<Rightarrow> bool) \<Rightarrow> string \<Rightarrow> 'a net \<Rightarrow> 'a net option" where
  \<comment> \<open>the next call of the node i\<close>
  "node_move conn i y =
     (case procs y i of
        Some (NSend t ty d sl ti k) \<Rightarrow>
          if conn i t
          then Some (y\<lparr>procs := (procs y)(i \<mapsto> k), chan := chan_put i t (message_of (wire_msg i ty d)) (chan y)\<rparr>)
          else Some (y\<lparr>procs := (procs y)(i \<mapsto> NRet (Inl not_in_map))\<rparr>)
      | Some (NRecv s ty k) \<Rightarrow>
          if chan y i s = [] then None
          else Some (y\<lparr>procs := (procs y)(i \<mapsto> k (fst (take_msg ty (chan y i s)))),
                 chan := chan_take i s ty (chan y)\<rparr>)
      | Some (NPoll s ty k) \<Rightarrow>
          Some (y\<lparr>procs := (procs y)(i \<mapsto> k (fst (take_msg ty (chan y i s)))),
                 chan := chan_take i s ty (chan y)\<rparr>)
      | _ \<Rightarrow> None)"

definition net_step :: "(string \<Rightarrow> string \<Rightarrow> bool) \<Rightarrow> 'a net \<Rightarrow> 'a net \<Rightarrow> bool" where
  "net_step conn y z \<longleftrightarrow> (\<exists>i. node_move conn i y = Some z)"

definition net_reach :: "(string \<Rightarrow> string \<Rightarrow> bool) \<Rightarrow> 'a net \<Rightarrow> 'a net \<Rightarrow> bool" where
  "net_reach conn = (net_step conn)\<^sup>*\<^sup>*"

definition settled :: "(string \<Rightarrow> string \<Rightarrow> bool) \<Rightarrow> 'a net \<Rightarrow> bool" where
  "settled conn y \<longleftrightarrow> (\<forall>i. node_move conn i y = None)"

fun net_run :: "(string \<Rightarrow> string \<Rightarrow> bool) \<Rightarrow> string list \<Rightarrow> 'a net \<Rightarrow> 'a net" where
  \<comment> \<open>a schedule; a node that cannot move is skipped\<close>
  "net_run conn [] y = y"
| "net_run conn (i # is) y = net_run conn is (case node_move conn i y of None \<Rightarrow> y | Some z \<Rightarrow> z)"

definition patient_net :: "'a net \<Rightarrow> bool" where
  "patient_net y \<longleftrightarrow> (\<forall>i p. procs y i = Some p \<longrightarrow> patient p)"

lemma net_reach_refl [simp, intro]: "net_reach conn y y"
  by (simp add: net_reach_def)

lemma net_reach_trans [trans]: "net_reach conn y u \<Longrightarrow> net_reach conn u z \<Longrightarrow> net_reach conn y z"
  unfolding net_reach_def by (rule rtranclp_trans)

lemma net_reach_move: "node_move conn i y = Some u \<Longrightarrow> net_reach conn u z \<Longrightarrow> net_reach conn y z"
  unfolding net_reach_def net_step_def by (blast intro: converse_rtranclp_into_rtranclp)

lemma net_run_reach: "net_reach conn y (net_run conn is y)"
proof (induction "is" arbitrary: y)
  case (Cons i "is")
  then show ?case by (cases "node_move conn i y") (auto intro: net_reach_move)
qed simp

lemma take_msg_Nil [simp]: "take_msg ty [] = (message0, [])"
  by (simp add: take_msg_def)

lemma take_msg_Cons [simp]: "take_msg [] (m # q) = (ack m, q)"
  by (simp add: take_msg_def)

lemma take_msg_append: "q \<noteq> [] \<Longrightarrow> take_msg [] (q @ r) = (fst (take_msg [] q), snd (take_msg [] q) @ r)"
  by (cases q) simp_all

section \<open>Confluence\<close>

text \<open>A relation whose one-step peaks close in at most one step on each side: runs that end end in the same
  state, and every other run can still get there.\<close>

lemma random_descent:
  assumes inv: "\<And>x y. I x \<Longrightarrow> r x y \<Longrightarrow> I y"
    and peak: "\<And>x y z. I x \<Longrightarrow> r x y \<Longrightarrow> r x z \<Longrightarrow> y = z \<or> (\<exists>u. r y u \<and> r z u)"
    and "r\<^sup>*\<^sup>* x d" "I x" and stop: "\<And>z. \<not> r d z"
  shows "r\<^sup>*\<^sup>* x y \<Longrightarrow> r\<^sup>*\<^sup>* y d"
  using assms(3,4)
proof (induction arbitrary: y rule: converse_rtranclp_induct)
  case base
  then show ?case by (metis converse_rtranclpE rtranclp.rtrancl_refl stop)
next
  case (step x x1)
  have strip: "r\<^sup>*\<^sup>* x y \<Longrightarrow> I x \<Longrightarrow> r x x1 \<Longrightarrow> y = x \<or> r\<^sup>*\<^sup>* x1 y \<or> (\<exists>u. r y u \<and> r\<^sup>*\<^sup>* x1 u)" for x x1 y
  proof (induction arbitrary: x1 rule: converse_rtranclp_induct)
    case (step a b)
    from peak [OF step.prems(1) step.prems(2) step.hyps(1)] consider "x1 = b" | u where "r x1 u" "r b u" by auto
    then show ?case
    proof cases
      case 1
      with step.hyps(2) show ?thesis by blast
    next
      case 2
      from step.IH [OF inv [OF step.prems(1) step.hyps(1)] 2(2)] 2(1,2) step.hyps show ?thesis
        by (meson converse_rtranclp_into_rtranclp r_into_rtranclp)
    qed
  qed simp
  from strip [OF step.prems(1) step.prems(2) step.hyps(1)]
  consider "y = x" | "r\<^sup>*\<^sup>* x1 y" | u where "r y u" "r\<^sup>*\<^sup>* x1 u" by blast
  then show ?case
    using step.IH inv [OF step.prems(2) step.hyps(1)] step.hyps
    by cases (auto intro: converse_rtranclp_into_rtranclp)
qed

lemma node_move_patient: "patient_net y \<Longrightarrow> node_move conn i y = Some z \<Longrightarrow> patient_net z"
  unfolding patient_net_def node_move_def
  by (force split: option.splits nprog.splits if_splits prod.splits)

lemma net_eqI: "procs y = procs z \<Longrightarrow> chan y = chan z \<Longrightarrow> y = (z :: 'a net)"
  by (cases y, cases z) simp

lemma chan_put_at: "chan_put i t m c x y = (if x = t \<and> y = i then c x y @ [m] else c x y)"
  by (simp add: chan_put_def)

lemma chan_take_at: "chan_take i s ty c x y = (if x = i \<and> y = s then snd (take_msg ty (c x y)) else c x y)"
  by (simp add: chan_take_def)

lemma chan_commute:
  assumes "i \<noteq> j"
  shows "chan_put i t m (chan_put j t' m' c) = chan_put j t' m' (chan_put i t m c)"
    and "chan_take i s ty (chan_take j s' ty' c) = chan_take j s' ty' (chan_take i s ty c)"
    and "c i s \<noteq> [] \<Longrightarrow> chan_take i s [] (chan_put j t m c) = chan_put j t m (chan_take i s [] c)"
    and "c i s \<noteq> [] \<Longrightarrow> fst (take_msg [] (chan_put j t m c i s)) = fst (take_msg [] (c i s))"
    and "c i s \<noteq> [] \<Longrightarrow> chan_put j t m c i s \<noteq> []"
    and "chan_take j s' ty' c i s = c i s"
  using assms by (auto intro!: ext simp: chan_put_at chan_take_at take_msg_append)

datatype effect = Nothing | Put string message_format | Take string

fun apply_effect :: "string \<Rightarrow> effect \<Rightarrow> links \<Rightarrow> links" where
  "apply_effect i Nothing c = c"
| "apply_effect i (Put t m) c = chan_put i t m c"
| "apply_effect i (Take s) c = chan_take i s [] c"

fun possible :: "string \<Rightarrow> effect \<Rightarrow> links \<Rightarrow> bool" where
  "possible i (Take s) c = (c i s \<noteq> [])"
| "possible i _ c = True"

definition received_msg :: "string \<Rightarrow> effect \<Rightarrow> links \<Rightarrow> message_format" where
  "received_msg i a c = (case a of Take s \<Rightarrow> fst (take_msg [] (c i s)) | _ \<Rightarrow> message0)"

lemma effects_commute:
  assumes "i \<noteq> j" "possible i a c" "possible j b c"
  shows "apply_effect i a (apply_effect j b c) = apply_effect j b (apply_effect i a c)"
    and "possible i a (apply_effect j b c)"
    and "received_msg i a (apply_effect j b c) = received_msg i a c"
proof -
  note C = chan_commute [OF assms(1)] and D = chan_commute [OF assms(1) [symmetric]]
  show "apply_effect i a (apply_effect j b c) = apply_effect j b (apply_effect i a c)"
    using assms C(2) by (cases a; cases b) (simp_all add: C(1,3) D(3))
  show "possible i a (apply_effect j b c)"
    using assms by (cases a; cases b) (simp_all add: C(5,6))
  show "received_msg i a (apply_effect j b c) = received_msg i a c"
    using assms by (cases a; cases b) (simp_all add: received_msg_def C(4,6))
qed

lemma patient_move:
  assumes "patient p"
  shows "\<exists>a k. \<forall>y. procs y i = Some p \<longrightarrow> node_move conn i y =
    (if possible i a (chan y) \<and> \<not> (\<exists>r. p = NRet r)
     then Some (y\<lparr>procs := (procs y)(i \<mapsto> k (received_msg i a (chan y))), chan := apply_effect i a (chan y)\<rparr>)
     else None)"
proof (cases p)
  case (NRet r)
  then show ?thesis by (simp add: node_move_def)
next
  case (NSend t ty d sl ti k)
  show ?thesis
  proof (cases "conn i t")
    case True
    then show ?thesis using NSend
      by (intro exI [of _ "Put t (message_of (wire_msg i ty d))"] exI [of _ "\<lambda>_. k"]) (simp add: node_move_def)
  next
    case False
    then show ?thesis using NSend
      by (intro exI [of _ Nothing] exI [of _ "\<lambda>_. NRet (Inl not_in_map)"]) (simp add: node_move_def)
  qed
next
  case (NRecv s ty k)
  then show ?thesis using assms
    by (intro exI [of _ "Take s"] exI [of _ k]) (simp add: node_move_def received_msg_def)
qed (use assms in simp)

lemma node_peak:
  assumes "patient_net y" "node_move conn i y = Some u" "node_move conn j y = Some v" "i \<noteq> j"
  shows "\<exists>z. node_move conn j u = Some z \<and> node_move conn i v = Some z"
proof -
  obtain p q where p: "procs y i = Some p" and q: "procs y j = Some q"
    using assms(2,3) by (auto simp: node_move_def split: option.splits)
  then have "patient p" "patient q" using assms(1) by (auto simp: patient_net_def)
  from patient_move [OF this(1), of i conn] obtain a k where
    P: "procs z i = Some p \<Longrightarrow> node_move conn i z = (if possible i a (chan z) \<and> \<not> (\<exists>r. p = NRet r)
      then Some (z\<lparr>procs := (procs z)(i \<mapsto> k (received_msg i a (chan z))), chan := apply_effect i a (chan z)\<rparr>)
      else None)" for z by blast
  from patient_move [OF \<open>patient q\<close>, of j conn] obtain b l where
    Q: "procs z j = Some q \<Longrightarrow> node_move conn j z = (if possible j b (chan z) \<and> \<not> (\<exists>r. q = NRet r)
      then Some (z\<lparr>procs := (procs z)(j \<mapsto> l (received_msg j b (chan z))), chan := apply_effect j b (chan z)\<rparr>)
      else None)" for z by blast
  have i: "possible i a (chan y)" "\<not> (\<exists>r. p = NRet r)"
    "u = y\<lparr>procs := (procs y)(i \<mapsto> k (received_msg i a (chan y))), chan := apply_effect i a (chan y)\<rparr>"
    using P [OF p] assms(2) by (auto split: if_splits)
  have j: "possible j b (chan y)" "\<not> (\<exists>r. q = NRet r)"
    "v = y\<lparr>procs := (procs y)(j \<mapsto> l (received_msg j b (chan y))), chan := apply_effect j b (chan y)\<rparr>"
    using Q [OF q] assms(3) by (auto split: if_splits)
  note A = effects_commute [OF assms(4) i(1) j(1)] and B = effects_commute [OF assms(4) [symmetric] j(1) i(1)]
  have ij: "procs v i = Some p" "procs u j = Some q" using p q i(3) j(3) assms(4) by auto
  show ?thesis
    unfolding P [OF ij(1)] Q [OF ij(2)] using i(2) j(2)
    by (simp add: i(3) j(3) A B(2,3) fun_upd_twist [OF assms(4), of "procs y"])
qed

lemma net_confluent:
  assumes "patient_net y" "net_reach conn y d" "settled conn d" "net_reach conn y z"
  shows "net_reach conn z d"
proof -
  have "(net_step conn)\<^sup>*\<^sup>* z d"
  proof (rule random_descent [where r = "net_step conn" and I = patient_net])
    show "patient_net b" if "patient_net a" "net_step conn a b" for a b
      using that node_move_patient by (auto simp: net_step_def)
    show "b = c \<or> (\<exists>u. net_step conn b u \<and> net_step conn c u)"
      if "patient_net a" "net_step conn a b" "net_step conn a c" for a b c
    proof -
      from that(2,3) obtain i j where "node_move conn i a = Some b" "node_move conn j a = Some c"
        by (auto simp: net_step_def)
      with node_peak [OF that(1) this] show ?thesis by (cases "i = j") (auto simp: net_step_def)
    qed
    show "\<not> net_step conn d b" for b using assms(3) by (simp add: settled_def net_step_def)
  qed (use assms in \<open>auto simp: net_reach_def\<close>)
  then show ?thesis by (simp add: net_reach_def)
qed

section \<open>Turns\<close>

definition msgs_of :: "string \<Rightarrow> (string \<times> message_format) list \<Rightarrow> message_format list" where
  "msgs_of s xs = map snd (filter (\<lambda>p. fst p = s) xs)"

lemma msgs_of_simps [simp]:
  "msgs_of s [] = []"
  "msgs_of s ((t, m) # xs) = (if t = s then m # msgs_of s xs else msgs_of s xs)"
  "msgs_of s (xs @ ys) = msgs_of s xs @ msgs_of s ys"
  "msgs_of s (map (Pair t) ms) = (if t = s then ms else [])"
  by (auto simp: msgs_of_def filter_map o_def)

inductive turn :: "string \<Rightarrow> 'a nprog \<Rightarrow> (string \<times> message_format) list \<Rightarrow> (string \<times> message_format) list \<Rightarrow> 'a nprog \<Rightarrow> bool"
  for i where
  turn_here: "turn i p [] [] p"
| turn_recv: "turn i (k (ack m)) ins outs q \<Longrightarrow> turn i (NRecv s [] k) ((s, m) # ins) outs q"
| turn_send: "turn i p ins outs q \<Longrightarrow> turn i (NSend t ty d sl ti p) ins ((t, message_of (wire_msg i ty d)) # outs) q"

lemma turn_trans: "turn i p a b q \<Longrightarrow> turn i q c d r \<Longrightarrow> turn i p (a @ c) (b @ d) r"
  by (induction rule: turn.induct) (auto intro: turn.intros)

lemma turn_nbind: "turn i p a b q \<Longrightarrow> turn i (nbind p f) a b (nbind q f)"
  by (induction rule: turn.induct) (auto intro: turn.intros)

lemma turn_nbind_ret: "turn i p a b (NRet (Inr x)) \<Longrightarrow> turn i (f x) c d q \<Longrightarrow> turn i (nbind p f) (a @ c) (b @ d) q"
  using turn_nbind [of i p a b "NRet (Inr x)" f] by (auto intro: turn_trans)

lemma turn_getSerial:
  "Data m \<noteq> [] \<Longrightarrow> deser (Data m) = Inr x \<Longrightarrow> turn i (n_getSerialMsgWait deser ty s) [(s, m)] [] (NRet (Inr x))"
  unfolding n_getSerialMsgWait_def by (rule turn_recv) (simp add: turn_here)

lemma turn_sendSerial:
  "ser x \<noteq> [] \<Longrightarrow> turn i (n_sendSerialMsg ser x ty t) [] [(t, message_of (wire_msg i ty (ser x)))] (NRet (Inr ()))"
  unfolding n_sendSerialMsg_def nret_def by (simp, rule turn_send, rule turn_here)

lemma turn_reach:
  assumes "turn i p ins outs q" "procs y i = Some p" "\<And>s. chan y i s = msgs_of s ins @ rest s"
    and "\<And>t. t \<in> fst ` set outs \<Longrightarrow> conn i t \<and> t \<noteq> i"
  shows "\<exists>z. net_reach conn y z \<and> procs z = (procs y)(i \<mapsto> q)
    \<and> (\<forall>x w. chan z x w = (if x = i then rest w else if w = i then chan y x w @ msgs_of x outs else chan y x w))"
  using assms
proof (induction arbitrary: y rule: turn.induct)
  case (turn_here p)
  then show ?case by (intro exI [of _ y]) (auto simp: fun_upd_idem)
next
  case (turn_recv k m ins outs q s)
  have c: "chan y i s = m # msgs_of s ins @ rest s" using turn_recv.prems(2) by simp
  obtain u where u: "node_move conn i y = Some u" "procs u = (procs y)(i \<mapsto> k (ack m))"
    "chan u = chan_take i s [] (chan y)"
  proof (rule that)
    show "node_move conn i y = Some (y\<lparr>procs := (procs y)(i \<mapsto> k (ack m)), chan := chan_take i s [] (chan y)\<rparr>)"
      using turn_recv.prems(1) c by (simp add: node_move_def)
  qed simp_all
  have "chan u i w = msgs_of w ins @ rest w" for w
    using c turn_recv.prems(2) [of w] by (simp add: u(3) chan_take_at)
  moreover have "procs u i = Some (k (ack m))" by (simp add: u(2))
  ultimately obtain z where
    z: "net_reach conn u z" "procs z = (procs u)(i \<mapsto> q)"
      "\<forall>x w. chan z x w = (if x = i then rest w else if w = i then chan u x w @ msgs_of x outs else chan u x w)"
    using turn_recv.IH [of u] turn_recv.prems(3) by blast
  have "net_reach conn y z" using u(1) z(1) by (rule net_reach_move)
  then show ?case by (intro exI [of _ z]) (auto simp: u(2,3) z(2,3) chan_take_at)
next
  case (turn_send p ins outs q t ty d sl ti)
  have t: "conn i t" "t \<noteq> i" using turn_send.prems(3) [of t] by auto
  obtain u where u: "node_move conn i y = Some u" "procs u = (procs y)(i \<mapsto> p)"
    "chan u = chan_put i t (message_of (wire_msg i ty d)) (chan y)"
  proof (rule that)
    show "node_move conn i y = Some (y\<lparr>procs := (procs y)(i \<mapsto> p), chan := chan_put i t (message_of (wire_msg i ty d)) (chan y)\<rparr>)"
      using turn_send.prems(1) t by (simp add: node_move_def)
  qed simp_all
  have "chan u i w = msgs_of w ins @ rest w" for w
    using turn_send.prems(2) [of w] t by (simp add: u(3) chan_put_at)
  moreover have "procs u i = Some p" by (simp add: u(2))
  moreover have "\<And>t'. t' \<in> fst ` set outs \<Longrightarrow> conn i t' \<and> t' \<noteq> i" using turn_send.prems(3) by simp
  ultimately obtain z where
    z: "net_reach conn u z" "procs z = (procs u)(i \<mapsto> q)"
      "\<forall>x w. chan z x w = (if x = i then rest w else if w = i then chan u x w @ msgs_of x outs else chan u x w)"
    using turn_send.IH [of u] by blast
  have "net_reach conn y z" using u(1) z(1) by (rule net_reach_move)
  then show ?case by (intro exI [of _ z]) (auto simp: u(2,3) z(2,3) chan_put_at)
qed

end
