(* ===== verification/P2P_Ring.thy ===== *)
theory P2P_Ring
  imports P2P_Net
begin

text \<open>
  Networks whose nodes are called Node1 to Noden, as in the measurement demos: a state in which at most one
  channel between the nodes holds messages (\<open>ring_net\<close>), one node's turn from such a state to the
  next (\<open>ring_turn\<close>), and a sweep, in which nodes take turns one after the other, each receiving what
  the one before it sent (\<open>ring_sweep\<close>). What the nodes send to a further node, the
  controller, is collected.
\<close>

section \<open>Names\<close>

definition nm :: "nat \<Rightarrow> string" where
  \<comment> \<open>"Node" + std::to_string(j)\<close>
  "nm j = ''Node'' @ digits_of j"

definition node_number :: "string \<Rightarrow> nat" where
  "node_number x = value_of 0 (drop 4 x)"

lemma node_number_nm [simp]: "node_number (nm j) = j"
  by (simp add: node_number_def nm_def value_of_digits_of)

lemma nm_eq_iff [simp]: "nm i = nm j \<longleftrightarrow> i = j"
  by (metis node_number_nm)

definition node_names :: "nat \<Rightarrow> string set" where
  "node_names n = nm ` {1..n}"

lemma nm_in_names [simp]: "nm j \<in> node_names n \<longleftrightarrow> 1 \<le> j \<and> j \<le> n"
  by (auto simp: node_names_def)

section \<open>States of the ring\<close>

definition ring_net :: "'a net \<Rightarrow> string \<Rightarrow> nat \<Rightarrow> (nat \<Rightarrow> 'a nprog) \<Rightarrow> (nat \<Rightarrow> message_format list) \<Rightarrow> nat \<Rightarrow> nat
   \<Rightarrow> message_format list \<Rightarrow> 'a net" where
  \<comment> \<open>node j is at R j, has sent L j to C, and ms is on its way from node s to node t\<close>
  "ring_net y0 C n R L t s ms =
     \<lparr> procs = (\<lambda>x. if x \<in> node_names n then Some (R (node_number x)) else procs y0 x),
       chan = (\<lambda>x w.
         if x \<in> node_names n \<and> w \<in> node_names n then (if x = nm t \<and> w = nm s then ms else [])
         else if x = C \<and> w \<in> node_names n then chan y0 x w @ L (node_number w)
         else chan y0 x w) \<rparr>"

lemma ring_net_quiet: "ring_net y0 C n R L t s [] = ring_net y0 C n R L t' s' []"
  by (simp add: ring_net_def fun_eq_iff)

lemma ring_net_cong:
  assumes "\<And>j. 1 \<le> j \<Longrightarrow> j \<le> n \<Longrightarrow> R j = R' j" "\<And>j. 1 \<le> j \<Longrightarrow> j \<le> n \<Longrightarrow> L j = L' j"
  shows "ring_net y0 C n R L t s ms = ring_net y0 C n R' L' t s ms"
  using assms by (auto simp: ring_net_def node_names_def fun_eq_iff)

lemma ring_turn:
  assumes turn: "turn (nm i) (R i) (map (Pair (nm s)) ms) outs q"
    and "1 \<le> i" "i \<le> n" "1 \<le> s" "s \<le> n" "1 \<le> t" "t \<le> n" "t \<noteq> i" "C \<notin> node_names n"
    and outs: "fst ` set outs \<subseteq> {nm t, C}" and conn: "\<And>x. x \<in> fst ` set outs \<Longrightarrow> conn (nm i) x"
  shows "net_reach conn (ring_net y0 C n R L i s ms)
    (ring_net y0 C n (R(i := q)) (L(i := L i @ msgs_of C outs)) t i (msgs_of (nm t) outs))"
proof -
  let ?y = "ring_net y0 C n R L i s ms"
  let ?z = "ring_net y0 C n (R(i := q)) (L(i := L i @ msgs_of C outs)) t i (msgs_of (nm t) outs)"
  let ?rest = "\<lambda>w. if w \<in> node_names n then [] else chan ?y (nm i) w"
  have ni: "nm i \<noteq> C" using assms(2,3,9) by auto
  have "procs ?y (nm i) = Some (R i)" using assms(2,3) by (simp add: ring_net_def)
  moreover have "chan ?y (nm i) w = msgs_of w (map (Pair (nm s)) ms) @ ?rest w" for w
    using assms(2-5) by (auto simp: ring_net_def)
  moreover have "conn (nm i) x \<and> x \<noteq> nm i" if "x \<in> fst ` set outs" for x
    using that outs conn ni assms(8) by auto
  ultimately obtain z where z: "net_reach conn ?y z" "procs z = (procs ?y)(nm i \<mapsto> q)"
    "\<And>x w. chan z x w = (if x = nm i then ?rest w else if w = nm i then chan ?y x w @ msgs_of x outs else chan ?y x w)"
    using turn_reach [OF turn, of ?y ?rest conn] by blast
  have other: "msgs_of x outs = []" if "x \<noteq> nm t" "x \<noteq> C" for x
    using that outs by (induction outs) (auto simp: msgs_of_def)
  have "z = ?z"
  proof (rule net_eqI)
    show "procs z = procs ?z"
      using assms(2,3) by (auto simp: z(2) ring_net_def fun_eq_iff node_names_def)
    have "chan z x w = chan ?z x w" for x w
      using assms(2-9) ni other by (auto simp: z(3) ring_net_def node_names_def)
    then show "chan z = chan ?z" by (simp add: fun_eq_iff)
  qed
  with z(1) show ?thesis by simp
qed

lemma ring_sweep:
  fixes v :: "nat \<Rightarrow> nat"
  assumes turns: "\<And>j. 1 \<le> j \<Longrightarrow> j \<le> m \<Longrightarrow>
      turn (nm (v j)) (P (v j)) (map (Pair (nm (v (j - 1)))) (ms j)) (outs (v j)) (Q (v j))"
    and outs: "\<And>j. 1 \<le> j \<Longrightarrow> j \<le> m \<Longrightarrow> fst ` set (outs (v j)) \<subseteq> {nm (v (Suc j)), C}
      \<and> msgs_of (nm (v (Suc j))) (outs (v j)) = ms (Suc j)
      \<and> (\<forall>x \<in> fst ` set (outs (v j)). conn (nm (v j)) x)"
    and v: "\<And>j. j \<le> Suc m \<Longrightarrow> 1 \<le> v j \<and> v j \<le> n" "inj_on v {1..m}"
    and next_v: "\<And>j. 1 \<le> j \<Longrightarrow> j \<le> m \<Longrightarrow> v (Suc j) \<noteq> v j"
    and R: "\<And>j. 1 \<le> j \<Longrightarrow> j \<le> m \<Longrightarrow> R (v j) = P (v j)" and "C \<notin> node_names n"
  shows "net_reach conn (ring_net y0 C n R L (v 1) (v 0) (ms 1))
    (ring_net y0 C n (\<lambda>j. if j \<in> v ` {1..m} then Q j else R j)
      (\<lambda>j. if j \<in> v ` {1..m} then L j @ msgs_of C (outs j) else L j) (v (Suc m)) (v m) (ms (Suc m)))"
  using assms
proof (induction m)
  case 0
  then show ?case by simp
next
  case (Suc m)
  let ?R = "\<lambda>k j. if j \<in> v ` {1..k} then Q j else R j"
  let ?L = "\<lambda>k j. if j \<in> v ` {1..k} then L j @ msgs_of C (outs j) else L j"
  have fresh: "v (Suc m) \<notin> v ` {1..m}"
    using Suc.prems(4) by (fastforce simp: inj_on_def)
  have split: "v ` {1..Suc m} = insert (v (Suc m)) (v ` {1..m})"
    by (simp add: atLeastAtMostSuc_conv)
  have "net_reach conn (ring_net y0 C n R L (v 1) (v 0) (ms 1))
      (ring_net y0 C n (?R m) (?L m) (v (Suc m)) (v m) (ms (Suc m)))"
  proof (rule Suc.IH, goal_cases)
    case (1 j)
    then show ?case using Suc.prems(1) [of j] by simp
  next
    case (2 j)
    then show ?case using Suc.prems(2) [of j] by simp
  next
    case (3 j)
    then show ?case using Suc.prems(3) [of j] by simp
  next
    case 4
    show ?case by (rule inj_on_subset [OF Suc.prems(4)]) auto
  next
    case (5 j)
    then show ?case using Suc.prems(5) [of j] by simp
  next
    case (6 j)
    then show ?case using Suc.prems(6) [of j] by simp
  next
    case 7
    show ?case by (fact Suc.prems(7))
  qed
  also have "net_reach conn \<dots>
      (ring_net y0 C n ((?R m)(v (Suc m) := Q (v (Suc m))))
        ((?L m)(v (Suc m) := ?L m (v (Suc m)) @ msgs_of C (outs (v (Suc m)))))
        (v (Suc (Suc m))) (v (Suc m)) (msgs_of (nm (v (Suc (Suc m)))) (outs (v (Suc m)))))"
  proof (rule ring_turn)
    show "turn (nm (v (Suc m))) (?R m (v (Suc m))) (map (Pair (nm (v m))) (ms (Suc m))) (outs (v (Suc m))) (Q (v (Suc m)))"
      using Suc.prems(1) [of "Suc m"] Suc.prems(6) [of "Suc m"] fresh by simp
    show "fst ` set (outs (v (Suc m))) \<subseteq> {nm (v (Suc (Suc m))), C}"
      using Suc.prems(2) [of "Suc m"] by auto
    show "conn (nm (v (Suc m))) x" if "x \<in> fst ` set (outs (v (Suc m)))" for x
      using Suc.prems(2) [of "Suc m"] that by auto
    show "1 \<le> v m" "v m \<le> n" using Suc.prems(3) [of m] by simp_all
    show "1 \<le> v (Suc m)" "v (Suc m) \<le> n" using Suc.prems(3) [of "Suc m"] by simp_all
    show "1 \<le> v (Suc (Suc m))" "v (Suc (Suc m)) \<le> n" using Suc.prems(3) [of "Suc (Suc m)"] by simp_all
    show "v (Suc (Suc m)) \<noteq> v (Suc m)" using Suc.prems(5) [of "Suc m"] by simp
  qed (fact Suc.prems(7))
  also have "(?R m)(v (Suc m) := Q (v (Suc m))) = ?R (Suc m)"
    using fresh unfolding split by (auto simp del: One_nat_def)
  also have "(?L m)(v (Suc m) := ?L m (v (Suc m)) @ msgs_of C (outs (v (Suc m)))) = ?L (Suc m)"
    using fresh unfolding split by (auto simp del: One_nat_def)
  also have "msgs_of (nm (v (Suc (Suc m)))) (outs (v (Suc m))) = ms (Suc (Suc m))"
    using Suc.prems(2) [of "Suc m"] by simp
  finally show ?case .
qed

end
