(* ===== verification/P2P_Nodes.thy ===== *)
theory P2P_Nodes
  imports P2P_Net
begin

text \<open>
  The programs of \<open>P2P_Net\<close> on the nodes of \<^verbatim>\<open>node.h\<close>: \<open>p2p_move\<close> is one \<^verbatim>\<open>sendMsg\<close> or one \<^verbatim>\<open>getMsg\<close> of
  one node, with the routines of \<open>Node\<close> on the node's own state and the servicer of the addressed node
  at the other end of the wire. A node whose program has ended has stopped its server.
  The concrete system refines the abstract network.
\<close>

section \<open>The programs on their nodes\<close>

record 'a p2p =
  programs :: "string \<rightharpoonup> 'a nprog"
  nodes :: "string \<rightharpoonup> node"

definition running :: "'a p2p \<Rightarrow> string \<Rightarrow> bool" where
  \<comment> \<open>the node's program has not ended: its server listens\<close>
  "running c n = (case programs c n of None \<Rightarrow> False | Some p \<Rightarrow> (case p of NRet r \<Rightarrow> False | _ \<Rightarrow> True))"

definition wire :: "(string \<rightharpoonup> string) \<Rightarrow> (string \<Rightarrow> bool) \<Rightarrow> (string \<rightharpoonup> node) transport" where
  \<comment> \<open>the node at the address handles the request, if it listens\<close>
  "wire who up address rq ns =
     (case who address of
        None \<Rightarrow> (Inl connect_error, ns)
      | Some n \<Rightarrow>
          (case ns n of
             None \<Rightarrow> (Inl connect_error, ns)
           | Some nd \<Rightarrow>
               if up n
               then (map_sum (\<lambda>_. connect_error) id (fst (sv_process MessageServicer rq (msgQueues nd))),
                     ns(n \<mapsto> deliver rq nd))
               else (Inl connect_error, ns)))"

definition p2p_move :: "(string \<rightharpoonup> string) \<Rightarrow> string \<Rightarrow> 'a p2p \<Rightarrow> 'a p2p option" where
  \<comment> \<open>the node i does one sendMsg or one getMsg; None also for a sendMsg that does not return\<close>
  "p2p_move who i c =
     (case (programs c i, nodes c i) of
        (Some p, Some nd) \<Rightarrow>
          (case p of
             NRet r \<Rightarrow> None
           | NSend t ty d sl ti k \<Rightarrow>
               (case sendMsg (wire who (running c)) t (message0\<lparr>msg_NodeName := i, msgType := ty, Data := d\<rparr>) sl ti True
                       (nd, nodes c) of
                  None \<Rightarrow> None
                | Some (r, nd', ns) \<Rightarrow>
                    Some \<lparr> programs = (programs c)(i \<mapsto> (case r of Inl e \<Rightarrow> NRet (Inl e) | Inr _ \<Rightarrow> k)),
                           nodes = ns(i \<mapsto> nd') \<rparr>)
           | NRecv s ty k \<Rightarrow>
               (case getMsg s ty nd of (m, nd') \<Rightarrow>
                  Some \<lparr> programs = (programs c)(i \<mapsto> (if acknowledgement m then k m else p)),
                         nodes = (nodes c)(i \<mapsto> nd') \<rparr>)
           | NPoll s ty k \<Rightarrow>
               (case getMsg s ty nd of (m, nd') \<Rightarrow>
                  Some \<lparr> programs = (programs c)(i \<mapsto> k m), nodes = (nodes c)(i \<mapsto> nd') \<rparr>))
      | _ \<Rightarrow> None)"

definition p2p_reach :: "(string \<rightharpoonup> string) \<Rightarrow> 'a p2p \<Rightarrow> 'a p2p \<Rightarrow> bool" where
  "p2p_reach who = (\<lambda>y z. \<exists>i. p2p_move who i y = Some z)\<^sup>*\<^sup>*"

definition net_of :: "'a p2p \<Rightarrow> 'a net" where
  \<comment> \<open>the channel from s to i is what waits in i's queue for s\<close>
  "net_of c = \<lparr> procs = programs c,
     chan = (\<lambda>i s. case nodes c i of None \<Rightarrow> [] | Some nd \<Rightarrow> Queue (queue_of nd s)) \<rparr>"

definition p2p_ok :: "(string \<rightharpoonup> string) \<Rightarrow> (string \<Rightarrow> string \<Rightarrow> bool) \<Rightarrow> 'a p2p \<Rightarrow> bool" where
  \<comment> \<open>every program has its node, the queues are in order, and the network maps are those of conn\<close>
  "p2p_ok who conn c \<longleftrightarrow> dom (programs c) = dom (nodes c)
     \<and> (\<forall>i nd. nodes c i = Some nd \<longrightarrow> nodes_ok nd
          \<and> (\<forall>t. map_of (connectedAddresses nd) t = None \<longleftrightarrow> \<not> conn i t)
          \<and> (\<forall>t a. map_of (connectedAddresses nd) t = Some a \<longrightarrow> who a = Some t))
     \<and> (\<forall>i t. conn i t \<longrightarrow> t \<in> dom (nodes c) \<and> t \<noteq> i)"

definition delivered :: "'a net \<Rightarrow> bool" where
  \<comment> \<open>nothing waits for a node that has ended\<close>
  "delivered d \<longleftrightarrow> (\<forall>i r. procs d i = Some (NRet r) \<longrightarrow> (\<forall>s. chan d i s = []))"

lemma running_iff: "running c n \<longleftrightarrow> (\<exists>p. programs c n = Some p \<and> (\<forall>r. p \<noteq> NRet r))"
  by (auto simp: running_def split: option.split nprog.split)

lemma sendMsg_up:
  assumes "map_of (connectedAddresses nd) t = Some a" "who a = Some t" "up t" "ns t = Some ndt"
  shows "\<exists>nd'. sendMsg (wire who up) t msg sl ti True (nd, ns)
      = Some (Inr (), nd', ns(t \<mapsto> deliver \<lparr> node_name = msg_NodeName msg, data_type = msgType msg, rq_data = Data msg \<rparr> ndt))
    \<and> connectedAddresses nd' = connectedAddresses nd \<and> msgQueues nd' = msgQueues nd"
proof -
  let ?rq = "\<lparr> node_name = msg_NodeName msg, data_type = msgType msg, rq_data = Data msg \<rparr>"
  let ?ok = "\<lparr> rm_acknowledgement = True, error_msg = [] \<rparr>"
  have s: "sendMsgNoWait (wire who up) t msg nd ns = (Inr ?ok, ns(t \<mapsto> deliver ?rq ndt))"
    using assms by (simp add: sendMsgNoWait_def sendGRPCMsg_def wire_def MessageServicer_def Let_def)
  have "\<not> connect_waits 10 10000 ?ok 0" by (simp add: connect_waits_def connect_error_def)
  then show ?thesis
    by (simp add: sendMsg_def Let_def s connect_loop.simps ack_loop.simps)
qed

lemma sendMsg_no_address:
  "map_of (connectedAddresses nd) t = None \<Longrightarrow> sendMsg rpc t msg sl ti True (nd, w) = Some (Inl not_in_map, nd, w)"
  by (simp add: sendMsg_def sendMsgNoWait_def not_in_map_def)

lemma getMsg_take:
  assumes "nodes_ok nd" "getMsg s ty nd = (m, nd')"
  shows "nodes_ok nd' \<and> connectedAddresses nd' = connectedAddresses nd
    \<and> (m, Queue (queue_of nd' s)) = take_msg ty (Queue (queue_of nd s))
    \<and> (\<forall>n. n \<noteq> s \<longrightarrow> queue_of nd' n = queue_of nd n) \<and> (acknowledgement m \<longleftrightarrow> Queue (queue_of nd s) \<noteq> [])"
proof (cases "Queue (queue_of nd s)")
  case Nil
  then show ?thesis
    using assms by (auto simp: getMsg_def Let_def q_empty_def nodes_ok_def smap_ins_ok message0_def)
next
  case (Cons x q)
  obtain m' q' where t: "(if ty = [] then q_pop (queue_of nd s) else q_pop_with_type ty (queue_of nd s)) = (m', q')"
    by fastforce
  then have "take_msg ty (Queue (queue_of nd s)) = (ack m', Queue q')"
    using Cons by (auto simp: take_msg_def q_pop_def q_pop_with_type_def split: if_splits prod.splits)
  moreover have "m = ack m'" "nd' = nd\<lparr>msgQueues := smap_put s q' (smap_ins tsqueue0 (msgQueues nd) s)\<rparr>"
    using assms(2) Cons t by (auto simp: getMsg_def Let_def q_empty_def ack_def split: if_splits)
  ultimately show ?thesis
    using assms(1) Cons by (simp add: nodes_ok_def smap_ins_ok smap_put_ok)
qed

lemma chan_net_of: "nodes c i = Some nd \<Longrightarrow> chan (net_of c) i s = Queue (queue_of nd s)"
  by (simp add: net_of_def)

lemma procs_net_of [simp]: "procs (net_of c) = programs c"
  by (simp add: net_of_def)

lemma p2p_okD:
  assumes "p2p_ok who conn c"
  shows "programs c i = Some p \<Longrightarrow> \<exists>nd. nodes c i = Some nd"
    and "nodes c i = Some nd \<Longrightarrow> nodes_ok nd"
    and "nodes c i = Some nd \<Longrightarrow> map_of (connectedAddresses nd) t = None \<longleftrightarrow> \<not> conn i t"
    and "nodes c i = Some nd \<Longrightarrow> map_of (connectedAddresses nd) t = Some a \<Longrightarrow> who a = Some t"
    and "conn i t \<Longrightarrow> (\<exists>p. programs c t = Some p) \<and> t \<noteq> i"
  using assms unfolding p2p_ok_def by blast+

lemma p2p_ok_update:
  assumes "p2p_ok who conn c" "nodes c i = Some nd" "nodes_ok nd'" "connectedAddresses nd' = connectedAddresses nd"
    and "programs c i = Some p"
  shows "p2p_ok who conn \<lparr> programs = (programs c)(i \<mapsto> q), nodes = (nodes c)(i \<mapsto> nd') \<rparr>"
  using assms unfolding p2p_ok_def by (auto simp: domIff)

lemma p2p_receive:
  assumes ok: "p2p_ok who conn c" and p: "programs c i = Some p" and nd: "nodes c i = Some nd"
    and g: "getMsg s ty nd = (m, nd')"
  shows "p2p_ok who conn \<lparr> programs = (programs c)(i \<mapsto> q), nodes = (nodes c)(i \<mapsto> nd') \<rparr>"
    and "net_of \<lparr> programs = (programs c)(i \<mapsto> q), nodes = (nodes c)(i \<mapsto> nd') \<rparr>
      = \<lparr> procs = (programs c)(i \<mapsto> q), chan = chan_take i s ty (chan (net_of c)) \<rparr>"
    and "m = fst (take_msg ty (chan (net_of c) i s))"
    and "acknowledgement m \<longleftrightarrow> chan (net_of c) i s \<noteq> []"
proof -
  note G = getMsg_take [OF p2p_okD(2) [OF ok nd] g]
  then have t: "fst (take_msg ty (Queue (queue_of nd s))) = m" "snd (take_msg ty (Queue (queue_of nd s))) = Queue (queue_of nd' s)"
    by (metis fst_conv, metis snd_conv)
  show "p2p_ok who conn \<lparr> programs = (programs c)(i \<mapsto> q), nodes = (nodes c)(i \<mapsto> nd') \<rparr>"
    using p2p_ok_update [OF ok nd _ _ p] G by blast
  show "m = fst (take_msg ty (chan (net_of c) i s))" "acknowledgement m \<longleftrightarrow> chan (net_of c) i s \<noteq> []"
    using G t by (simp_all add: chan_net_of [OF nd])
  have "chan (net_of \<lparr> programs = (programs c)(i \<mapsto> q), nodes = (nodes c)(i \<mapsto> nd') \<rparr>) x y
      = chan_take i s ty (chan (net_of c)) x y" for x y
    using G t nd by (auto simp: chan_take_at net_of_def)
  then show "net_of \<lparr> programs = (programs c)(i \<mapsto> q), nodes = (nodes c)(i \<mapsto> nd') \<rparr>
      = \<lparr> procs = (programs c)(i \<mapsto> q), chan = chan_take i s ty (chan (net_of c)) \<rparr>"
    by (intro net_eqI) (simp_all add: fun_eq_iff)
qed

text \<open>A call of a node is a call in the abstract network, unless it is a poll that finds nothing or a
  message to a node that has ended.\<close>

lemma p2p_send:
  assumes ok: "p2p_ok who conn c" and p: "programs c i = Some (NSend t ty d sl ti k)"
    and up: "conn i t \<Longrightarrow> running c t"
  shows "\<exists>c'. p2p_move who i c = Some c' \<and> p2p_ok who conn c' \<and> node_move conn i (net_of c) = Some (net_of c')"
proof -
  obtain nd where nd: "nodes c i = Some nd" using p2p_okD(1) [OF ok p] by blast
  show ?thesis
  proof (cases "conn i t")
    case False
    then have "map_of (connectedAddresses nd) t = None" using p2p_okD(3) [OF ok nd] by simp
    note s = sendMsg_no_address [OF this, of "wire who (running c)"
        "message0\<lparr>msg_NodeName := i, msgType := ty, Data := d\<rparr>" sl ti "nodes c"]
    have u: "(nodes c)(i \<mapsto> nd) = nodes c" using nd by auto
    have "p2p_move who i c = Some \<lparr> programs = (programs c)(i \<mapsto> NRet (Inl not_in_map)), nodes = (nodes c)(i \<mapsto> nd) \<rparr>"
      by (simp add: p2p_move_def p nd s)
    moreover have "p2p_ok who conn \<lparr> programs = (programs c)(i \<mapsto> NRet (Inl not_in_map)), nodes = (nodes c)(i \<mapsto> nd) \<rparr>"
      using p2p_ok_update [OF ok nd _ _ p] p2p_okD(2) [OF ok nd] by simp
    ultimately show ?thesis
      using False p u by (auto simp: node_move_def net_of_def)
  next
    case True
    then obtain a where a: "map_of (connectedAddresses nd) t = Some a" using p2p_okD(3) [OF ok nd, of t] by auto
    obtain ndt where t: "nodes c t = Some ndt" "t \<noteq> i" using p2p_okD(1,5) [OF ok] True by metis
    from sendMsg_up [where ns = "nodes c" and up = "running c" and who = who and nd = nd and t = t and ndt = ndt, OF a p2p_okD(4) [OF ok nd a] up [OF True] t(1), of "message0\<lparr>msg_NodeName := i, msgType := ty, Data := d\<rparr>" sl ti]
    obtain nd' where s: "sendMsg (wire who (running c)) t (message0\<lparr>msg_NodeName := i, msgType := ty, Data := d\<rparr>) sl ti True (nd, nodes c)
        = Some (Inr (), nd', (nodes c)(t \<mapsto> deliver (wire_msg i ty d) ndt))"
      and nd': "connectedAddresses nd' = connectedAddresses nd" "msgQueues nd' = msgQueues nd"
      by (auto simp: wire_msg_def)
    let ?c = "\<lparr> programs = (programs c)(i \<mapsto> k), nodes = (nodes c)(t \<mapsto> deliver (wire_msg i ty d) ndt, i \<mapsto> nd') \<rparr>"
    note okt = p2p_okD(2) [OF ok t(1)] and oki = p2p_okD(2) [OF ok nd]
    have "p2p_move who i c = Some ?c" by (simp add: p2p_move_def p nd s)
    moreover have "p2p_ok who conn ?c"
    proof -
      obtain pt where pt: "programs c t = Some pt" using p2p_okD(5) [OF ok True] by blast
      have "p2p_ok who conn \<lparr> programs = (programs c)(t \<mapsto> pt), nodes = (nodes c)(t \<mapsto> deliver (wire_msg i ty d) ndt) \<rparr>"
        by (rule p2p_ok_update [OF ok t(1) deliver_ok [OF okt] _ pt]) (simp add: deliver_def)
      then have "p2p_ok who conn \<lparr> programs = programs c, nodes = (nodes c)(t \<mapsto> deliver (wire_msg i ty d) ndt) \<rparr>"
        using pt by (simp add: fun_upd_idem)
      from p2p_ok_update [OF this, of i nd nd' _ k] show ?thesis
        using nd nd' oki t(2) p by (simp add: nodes_ok_def)
    qed
    moreover have "chan (net_of ?c) x y = chan_put i t (message_of (wire_msg i ty d)) (chan (net_of c)) x y" for x y
      using nd t nd'(2) deliver_queue [OF okt, of "wire_msg i ty d"]
      by (auto simp: chan_put_at net_of_def wire_msg_def q_push_def)
    then have "node_move conn i (net_of c) = Some (net_of ?c)"
      using True p by (simp add: node_move_def) (intro net_eqI, simp_all add: fun_eq_iff)
    ultimately show ?thesis by blast
  qed
qed

lemma p2p_recv:
  assumes ok: "p2p_ok who conn c" and p: "programs c i = Some (NRecv s ty k)"
  shows "\<exists>c'. p2p_move who i c = Some c' \<and> p2p_ok who conn c' \<and>
    (if chan (net_of c) i s = [] then net_of c' = net_of c else node_move conn i (net_of c) = Some (net_of c'))"
proof -
  obtain nd where nd: "nodes c i = Some nd" using p2p_okD(1) [OF ok p] by blast
  obtain m nd' where g: "getMsg s ty nd = (m, nd')" by fastforce
  note R = p2p_receive [OF ok p nd g]
  let ?c = "\<lparr> programs = (programs c)(i \<mapsto> (if acknowledgement m then k m else NRecv s ty k)), nodes = (nodes c)(i \<mapsto> nd') \<rparr>"
  have "p2p_move who i c = Some ?c" by (simp add: p2p_move_def p nd g)
  moreover have "net_of ?c = net_of c" if "chan (net_of c) i s = []"
    using that R(4) p by (intro net_eqI) (auto simp: R(2) chan_take_at fun_eq_iff)
  moreover have "node_move conn i (net_of c) = Some (net_of ?c)" if "chan (net_of c) i s \<noteq> []"
    using that R(4) p by (simp add: node_move_def R(2) R(3) [symmetric])
  ultimately show ?thesis using R(1) by auto
qed

lemma p2p_poll:
  assumes ok: "p2p_ok who conn c" and p: "programs c i = Some (NPoll s ty k)"
  shows "\<exists>c'. p2p_move who i c = Some c' \<and> p2p_ok who conn c' \<and> node_move conn i (net_of c) = Some (net_of c')"
proof -
  obtain nd where nd: "nodes c i = Some nd" using p2p_okD(1) [OF ok p] by blast
  obtain m nd' where g: "getMsg s ty nd = (m, nd')" by fastforce
  note R = p2p_receive [OF ok p nd g]
  let ?c = "\<lparr> programs = (programs c)(i \<mapsto> k m), nodes = (nodes c)(i \<mapsto> nd') \<rparr>"
  have "p2p_move who i c = Some ?c" by (simp add: p2p_move_def p nd g)
  moreover have "node_move conn i (net_of c) = Some (net_of ?c)"
    using p by (simp add: node_move_def R(2) R(3) [symmetric])
  ultimately show ?thesis using R(1) by blast
qed

lemma ended_waits:
  assumes "net_reach conn y z" "procs y t = Some (NRet r)" "chan y t s \<noteq> []"
  shows "procs z t = Some (NRet r) \<and> chan z t s \<noteq> []"
  using assms(1) unfolding net_reach_def
proof (induction rule: rtranclp_induct)
  case (step u v)
  then obtain i where i: "node_move conn i u = Some v" by (auto simp: net_step_def)
  with step.IH have "i \<noteq> t" by (auto simp: node_move_def)
  with i step.IH show ?case
    by (auto simp: node_move_def chan_put_at chan_take_at split: option.splits nprog.splits if_splits)
qed (use assms in simp)

lemma to_running:
  assumes "p2p_ok who conn c" "net_reach conn (net_of c) d" "delivered d" "settled conn d" "patient_net (net_of c)"
    and p: "programs c i = Some (NSend t ty m sl ti k)" and "conn i t"
  shows "running c t"
proof (rule ccontr)
  assume "\<not> running c t"
  moreover obtain q where "programs c t = Some q" using p2p_okD(5) [OF assms(1,7)] by blast
  ultimately obtain r where r: "programs c t = Some (NRet r)" by (auto simp: running_iff)
  obtain z where z: "node_move conn i (net_of c) = Some z" "procs z t = Some (NRet r)" "chan z t i \<noteq> []"
    using p assms(7) r p2p_okD(5) [OF assms(1,7)] by (auto simp: node_move_def chan_put_at)
  then have "net_reach conn (net_of c) z" by (auto intro: net_reach_move)
  from net_confluent [OF assms(5,2,4) this] ended_waits [OF _ z(2,3)] assms(3)
  show False by (auto simp: delivered_def)
qed

definition on_way :: "(string \<rightharpoonup> string) \<Rightarrow> (string \<Rightarrow> string \<Rightarrow> bool) \<Rightarrow> 'a net \<Rightarrow> 'a p2p \<Rightarrow> bool" where
  "on_way who conn d c \<longleftrightarrow> p2p_ok who conn c \<and> patient_net (net_of c) \<and> net_reach conn (net_of c) d"

lemma on_way_move:
  assumes "on_way who conn d c" "settled conn d" "delivered d" "p2p_move who i c = Some c'"
  shows "on_way who conn d c' \<and> net_reach conn (net_of c) (net_of c')"
proof -
  note A = assms(1) [unfolded on_way_def]
  obtain p where p: "programs c i = Some p" using assms(4) by (auto simp: p2p_move_def split: option.splits)
  have "p2p_ok who conn c' \<and> (net_of c' = net_of c \<or> node_move conn i (net_of c) = Some (net_of c'))"
  proof (cases p)
    case (NRet r)
    then show ?thesis using assms(4) p by (auto simp: p2p_move_def split: option.splits)
  next
    case (NSend t ty m sl ti k)
    then have "conn i t \<Longrightarrow> running c t" using to_running [of who conn c d i t ty m sl ti k] A assms(2,3) p by blast
    from p2p_send [of who conn c i t ty m sl ti k, OF _ _ this] show ?thesis using A p NSend assms(4) by auto
  next
    case (NRecv s ty k)
    then show ?thesis using p2p_recv [of who conn c i s ty k] A p assms(4) by (auto split: if_splits)
  next
    case (NPoll s ty k)
    then show ?thesis using p2p_poll [of who conn c i s ty k] A p assms(4) by auto
  qed
  then show ?thesis
    using A net_confluent [of "net_of c" conn d "net_of c'"] assms(2) node_move_patient [of "net_of c" conn i "net_of c'"]
    by (auto simp: on_way_def intro: net_reach_move)
qed

lemma on_way_reach:
  assumes "on_way who conn d c" "settled conn d" "delivered d" "p2p_reach who c c'"
  shows "on_way who conn d c' \<and> net_reach conn (net_of c) (net_of c')"
  using assms(4) unfolding p2p_reach_def
proof (induction rule: rtranclp_induct)
  case (step u v)
  then show ?case using on_way_move [OF _ assms(2,3)] net_reach_trans by blast
qed (use assms(1) in simp)

lemma on_way_arrives:
  assumes "net_reach conn y d" "on_way who conn d c" "net_of c = y" "settled conn d" "delivered d"
  shows "\<exists>c'. p2p_reach who c c' \<and> net_of c' = d"
  using assms(1-3) unfolding net_reach_def
proof (induction arbitrary: c rule: converse_rtranclp_induct)
  case base
  then show ?case by (auto simp: p2p_reach_def)
next
  case (step y z)
  note A = step.prems(1) [unfolded on_way_def]
  obtain i where i: "node_move conn i (net_of c) = Some z" using step.hyps(1) step.prems(2) by (auto simp: net_step_def)
  obtain p where p: "programs c i = Some p" using i by (auto simp: node_move_def split: option.splits)
  have "\<exists>c'. p2p_move who i c = Some c' \<and> net_of c' = z"
  proof (cases p)
    case (NSend t ty m sl ti k)
    then have "conn i t \<Longrightarrow> running c t" using to_running [of who conn c d i t ty m sl ti k] A assms(4,5) p by blast
    from p2p_send [of who conn c i t ty m sl ti k, OF _ _ this] show ?thesis using A p NSend i by auto
  next
    case (NRecv s ty k)
    then have "chan (net_of c) i s \<noteq> []" using i p by (auto simp: node_move_def)
    with NRecv show ?thesis using p2p_recv [of who conn c i s ty k] A p i by auto
  next
    case (NPoll s ty k)
    then show ?thesis using p2p_poll [of who conn c i s ty k] A p i by auto
  qed (use i p in \<open>auto simp: node_move_def\<close>)
  then obtain c1 where c1: "p2p_move who i c = Some c1" "net_of c1 = z" by blast
  from on_way_move [OF step.prems(1) assms(4,5) c1(1)] step.IH [OF _ c1(2)] obtain c' where
    "p2p_reach who c1 c'" "net_of c' = d" by blast
  with c1(1) show ?case unfolding p2p_reach_def by (blast intro: converse_rtranclp_into_rtranclp)
qed

lemma p2p_runs_on:
  assumes "p2p_ok who conn c" "patient_net (net_of c)"
    and "net_reach conn (net_of c) d" "settled conn d" "delivered d"
    and "p2p_reach who c c'"
  shows "net_reach conn (net_of c) (net_of c') \<and> (\<exists>c''. p2p_reach who c' c'' \<and> net_of c'' = d)"
proof -
  have "on_way who conn d c" using assms(1-3) by (simp add: on_way_def)
  note W = on_way_reach [OF this assms(4-6)]
  then show ?thesis using on_way_arrives [of conn "net_of c'" d who c'] assms(4,5) by (auto simp: on_way_def)
qed

text \<open>C13: the programs on their nodes implement the network of channels. Take any programs that receive
  without a type and do not poll, on nodes with empty or filled queues. If one run of the abstract network ends, with nothing
  left for a node that has ended, then whatever the nodes do, in any interleaving of their \<^verbatim>\<open>sendMsg\<close>
  and \<^verbatim>\<open>getMsg\<close> calls, they only ever reach states of the abstract network, no message is sent to a
  node that has stopped its server, and from every state they can run on to that same end.\<close>

theorem p2p_implements_channels:
  assumes "p2p_ok who conn c" "patient_net (net_of c)"
    and "net_reach conn (net_of c) d" "settled conn d" "delivered d"
    and "p2p_reach who c c'"
  shows "net_reach conn (net_of c) (net_of c') \<and> (\<exists>c''. p2p_reach who c' c'' \<and> net_of c'' = d)"
  by (rule p2p_runs_on [OF assms])

end
