(* ===== verification/P2P_Runs.thy ===== *)
theory P2P_Runs
  imports P2P_Nodes
begin

text \<open>
  Runs of a few nodes. What a program sends and receives until it ends is a list of events
  (\<open>follows\<close>); a schedule plays the lists of all nodes against the channels (\<open>play\<close>). A schedule that
  plays them to the end is a run of the network (\<open>play_ends\<close>), which then decides all runs of
  the programs on their nodes (\<open>p2p_outcome\<close>).
\<close>

datatype io = Out string message_format | In string message_format

abbreviation msg :: "string \<Rightarrow> string \<Rightarrow> bytes \<Rightarrow> message_format" where
  "msg i ty d \<equiv> message_of (wire_msg i ty d)"

lemma Data_msg [simp]: "Data (msg i ty d) = d"
  by (simp add: message_of_def wire_msg_def message0_def)

inductive follows :: "string \<Rightarrow> 'a nprog \<Rightarrow> io list \<Rightarrow> 'a nprog \<Rightarrow> bool" for i where
  follows_here: "follows i p [] p"
| follows_recv: "follows i (k (ack m)) es q \<Longrightarrow> follows i (NRecv s [] k) (In s m # es) q"
| follows_send: "follows i p es q \<Longrightarrow> follows i (NSend t ty d sl ti p) (Out t (msg i ty d) # es) q"

inductive_cases follows_NilE: "follows i p [] q"
inductive_cases follows_OutE: "follows i p (Out t m # es) q"
inductive_cases follows_InE: "follows i p (In s m # es) q"

lemma follows_nret: "follows i (nret x) [] (NRet (Inr x))"
  by (simp add: nret_def follows_here)

lemma follows_get:
  assumes "Data m \<noteq> []" "deser (Data m) = Inr x" "follows i (f x) es q"
  shows "follows i (nbind (n_getSerialMsgWait deser ty s) f) (In s m # es) q"
  unfolding n_getSerialMsgWait_def using assms by (simp add: follows_recv)

lemma follows_put:
  assumes "ser x \<noteq> []" "follows i (f ()) es q"
  shows "follows i (nbind (n_sendSerialMsg ser x ty t) f) (Out t (msg i ty (ser x)) # es) q"
  unfolding n_sendSerialMsg_def nret_def using assms by (simp add: follows_send)

lemma follows_nbind: "follows i p a (NRet (Inr x)) \<Longrightarrow> follows i (f x) b q \<Longrightarrow> follows i (nbind p f) (a @ b) q"
  by (induction p a "NRet (Inr x) :: 'a nprog" rule: follows.induct) (auto intro: follows.intros)

fun play :: "(string \<Rightarrow> string \<Rightarrow> bool) \<Rightarrow> string list \<Rightarrow> (string \<Rightarrow> io list) \<Rightarrow> links
   \<Rightarrow> ((string \<Rightarrow> io list) \<times> links) option" where
  "play conn [] T c = Some (T, c)"
| "play conn (i # is) T c =
     (case T i of
        [] \<Rightarrow> None
      | Out t m # es \<Rightarrow> if conn i t then play conn is (T(i := es)) (chan_put i t m c) else None
      | In s m # es \<Rightarrow>
          (case c i s of
             [] \<Rightarrow> None
           | m' # q \<Rightarrow> if m' = m then play conn is (T(i := es)) (chan_take i s [] c) else None))"

lemma play_reach:
  assumes "play conn is T (chan y) = Some (T', c')"
    and "\<And>i. i \<in> dom (procs y) \<Longrightarrow> follows i (the (procs y i)) (T i) (Q i)"
    and "\<And>i. i \<notin> dom (procs y) \<Longrightarrow> T i = []"
  shows "\<exists>z. net_reach conn y z \<and> chan z = c' \<and> dom (procs z) = dom (procs y)
    \<and> (\<forall>i \<in> dom (procs y). follows i (the (procs z i)) (T' i) (Q i))"
  using assms
proof (induction "is" arbitrary: T y)
  case Nil
  then show ?case by auto
next
  case (Cons i "is")
  note run = Cons.prems(1) and fol = Cons.prems(2) and out = Cons.prems(3)
  have i: "i \<in> dom (procs y)" using run out [of i] by (cases "T i") auto
  then obtain p where p: "procs y i = Some p" by auto
  have f: "follows i p (T i) (Q i)" using fol [OF i] p by simp
  have others: "follows j (the (((procs y)(i \<mapsto> p')) j)) ((T(i := es)) j) (Q j)"
    if "j \<in> dom ((procs y)(i \<mapsto> p'))" "follows i p' es (Q i)" for j p' es
    using that fol [of j] i by auto
  obtain e es where T: "T i = e # es" using run by (cases "T i") auto
  show ?case
  proof (cases e)
    case (Out t m)
    then have "conn i t" using run T by (auto split: if_splits)
    from f T Out obtain ty d sl ti p' where s: "p = NSend t ty d sl ti p'" "m = msg i ty d" "follows i p' es (Q i)"
      by (auto elim: follows_OutE)
    let ?u = "y\<lparr>procs := (procs y)(i \<mapsto> p'), chan := chan_put i t m (chan y)\<rparr>"
    have "node_move conn i y = Some ?u" using p s \<open>conn i t\<close> by (simp add: node_move_def)
    moreover have "\<exists>z. net_reach conn ?u z \<and> chan z = c' \<and> dom (procs z) = dom (procs ?u)
        \<and> (\<forall>j \<in> dom (procs ?u). follows j (the (procs z j)) (T' j) (Q j))"
    proof (rule Cons.IH)
      show "play conn is (T(i := es)) (chan ?u) = Some (T', c')" using run T Out \<open>conn i t\<close> by simp
      show "follows j (the (procs ?u j)) ((T(i := es)) j) (Q j)" if "j \<in> dom (procs ?u)" for j
        using others [OF _ s(3), of j] that by simp
      show "(T(i := es)) j = []" if "j \<notin> dom (procs ?u)" for j using out [of j] that by auto
    qed
    ultimately obtain z where "net_reach conn ?u z" "chan z = c'" "dom (procs z) = dom (procs ?u)"
      "\<forall>j \<in> dom (procs ?u). follows j (the (procs z j)) (T' j) (Q j)" and m: "node_move conn i y = Some ?u" by blast
    with net_reach_move [OF m, of z] i show ?thesis by (intro exI [of _ z]) auto
  next
    case (In s m)
    then obtain q where q: "chan y i s = m # q" using run T by (auto split: list.splits if_splits)
    from f T In obtain k where k: "p = NRecv s [] k" "follows i (k (ack m)) es (Q i)"
      by (auto elim: follows_InE)
    let ?u = "y\<lparr>procs := (procs y)(i \<mapsto> k (ack m)), chan := chan_take i s [] (chan y)\<rparr>"
    have "node_move conn i y = Some ?u" using p k q by (simp add: node_move_def)
    moreover have "\<exists>z. net_reach conn ?u z \<and> chan z = c' \<and> dom (procs z) = dom (procs ?u)
        \<and> (\<forall>j \<in> dom (procs ?u). follows j (the (procs z j)) (T' j) (Q j))"
    proof (rule Cons.IH)
      show "play conn is (T(i := es)) (chan ?u) = Some (T', c')" using run T In q by (simp split: if_splits)
      show "follows j (the (procs ?u j)) ((T(i := es)) j) (Q j)" if "j \<in> dom (procs ?u)" for j
        using others [OF _ k(2), of j] that by simp
      show "(T(i := es)) j = []" if "j \<notin> dom (procs ?u)" for j using out [of j] that by auto
    qed
    ultimately obtain z where "net_reach conn ?u z" "chan z = c'" "dom (procs z) = dom (procs ?u)"
      "\<forall>j \<in> dom (procs ?u). follows j (the (procs z j)) (T' j) (Q j)" and m: "node_move conn i y = Some ?u" by blast
    with net_reach_move [OF m, of z] i show ?thesis by (intro exI [of _ z]) auto
  qed
qed


lemma play_ends:
  assumes "play conn is T (chan y) = Some (T', c')"
    and "\<And>i. i \<in> dom (procs y) \<Longrightarrow> follows i (the (procs y i)) (T i) (NRet (res i)) \<and> T' i = []"
    and "\<And>i. i \<notin> dom (procs y) \<Longrightarrow> T i = []"
  shows "net_reach conn y \<lparr> procs = (\<lambda>i. if i \<in> dom (procs y) then Some (NRet (res i)) else None), chan = c' \<rparr>"
proof -
  obtain z where z: "net_reach conn y z" "chan z = c'" "dom (procs z) = dom (procs y)"
    "\<And>i. i \<in> dom (procs y) \<Longrightarrow> follows i (the (procs z i)) (T' i) (NRet (res i))"
    using play_reach [of conn "is" T y T' c' "\<lambda>i. NRet (res i)"] assms by blast
  have "procs z i = (if i \<in> dom (procs y) then Some (NRet (res i)) else None)" for i
  proof (cases "i \<in> dom (procs y)")
    case True
    then obtain p where "procs z i = Some p" using z(3) by blast
    with z(4) [OF True] assms(2) [OF True] True show ?thesis by (auto elim: follows_NilE)
  qed (use z(3) in auto)
  then have "z = \<lparr> procs = (\<lambda>i. if i \<in> dom (procs y) then Some (NRet (res i)) else None), chan = c' \<rparr>"
    using z(2) by (intro net_eqI) (simp_all add: fun_eq_iff)
  with z(1) show ?thesis by simp
qed

lemma p2p_outcome:
  assumes ok: "p2p_ok who conn c" and patient: "patient_net (net_of c)"
    and run: "play conn is T (chan (net_of c)) = Some (T', c')" "\<And>i s. c' i s = []"
    and T: "\<And>i. i \<in> dom (programs c) \<Longrightarrow> follows i (the (programs c i)) (T i) (NRet (res i)) \<and> T' i = []"
    and out: "\<And>i. i \<notin> dom (programs c) \<Longrightarrow> T i = []"
    and reach: "p2p_reach who c u"
  shows "\<exists>z. p2p_reach who u z \<and> (\<forall>i \<in> dom (programs c). programs z i = Some (NRet (res i)))"
proof -
  let ?d = "\<lparr> procs = (\<lambda>i. if i \<in> dom (programs c) then Some (NRet (res i)) else None), chan = c' \<rparr>"
  have "net_reach conn (net_of c) ?d"
    using play_ends [of conn "is" T "net_of c" T' c' res] run(1) T out by simp
  moreover have "settled conn ?d" by (auto simp: settled_def node_move_def)
  moreover have "delivered ?d" using run(2) by (simp add: delivered_def)
  ultimately obtain z where "p2p_reach who u z" "net_of z = ?d"
    using p2p_runs_on [OF ok patient _ _ _ reach] by blast
  then have "programs z = procs ?d" using procs_net_of [of z] by metis
  then have "\<forall>i \<in> dom (programs c). programs z i = Some (NRet (res i))" by (simp del: domIff dom_def)
  with \<open>p2p_reach who u z\<close> show ?thesis by blast
qed

section \<open>Schedules checked by evaluation\<close>

text \<open>The events of n nodes with numbers for the nodes and the messages: whether a schedule plays them to the
  end is evaluated by \<open>sim\<close>, for any names and messages (\<open>sim_play\<close>).\<close>

datatype coded_io = NOut nat nat | NIn nat nat \<comment> \<open>the other node and the message\<close>

fun sim :: "nat list \<Rightarrow> coded_io list list \<Rightarrow> nat list list list \<Rightarrow> bool" where
  "sim [] T c \<longleftrightarrow> list_all (\<lambda>es. es = []) T \<and> list_all (list_all (\<lambda>q. q = [])) c"
| "sim (i # is) T c \<longleftrightarrow> i < length T \<and>
     (case T ! i of
        [] \<Rightarrow> False
      | NOut t m # es \<Rightarrow> t < length T \<and> sim is (T[i := es]) (c[t := (c ! t)[i := c ! t ! i @ [m]]])
      | NIn s m # es \<Rightarrow> s < length T \<and>
          (case c ! i ! s of
             [] \<Rightarrow> False
           | m' # q \<Rightarrow> m = m' \<and> sim is (T[i := es]) (c[i := (c ! i)[s := q]])))"

fun decoded :: "(nat \<Rightarrow> string) \<Rightarrow> (nat \<Rightarrow> message_format) \<Rightarrow> coded_io \<Rightarrow> io" where
  "decoded nu mu (NOut t m) = Out (nu t) (mu m)"
| "decoded nu mu (NIn s m) = In (nu s) (mu m)"

definition decoded_events :: "(nat \<Rightarrow> string) \<Rightarrow> (nat \<Rightarrow> message_format) \<Rightarrow> coded_io list list \<Rightarrow> (string \<Rightarrow> io list) \<Rightarrow> bool" where
  "decoded_events nu mu T f \<longleftrightarrow> (\<forall>i < length T. f (nu i) = map (decoded nu mu) (T ! i)) \<and> (\<forall>x. x \<notin> nu ` {..<length T} \<longrightarrow> f x = [])"

definition decoded_links :: "(nat \<Rightarrow> string) \<Rightarrow> (nat \<Rightarrow> message_format) \<Rightarrow> nat list list list \<Rightarrow> links \<Rightarrow> bool" where
  "decoded_links nu mu c l \<longleftrightarrow> (\<forall>i < length c. length (c ! i) = length c \<and> (\<forall>s < length c. l (nu i) (nu s) = map mu (c ! i ! s)))
     \<and> (\<forall>x y. x \<notin> nu ` {..<length c} \<or> y \<notin> nu ` {..<length c} \<longrightarrow> l x y = [])"

lemma decoded_events_upd:
  assumes "decoded_events nu mu T f" "inj_on nu {..<length T}" "i < length T" "g = map (decoded nu mu) es"
  shows "decoded_events nu mu (T[i := es]) (f(nu i := g))"
  using assms unfolding decoded_events_def by (auto simp: nth_list_update inj_on_eq_iff)

lemma decoded_links_put:
  assumes l: "decoded_links nu mu c l" and inj: "inj_on nu {..<length c}" and t: "t < length c" "i < length c"
  shows "decoded_links nu mu (c[t := (c ! t)[i := c ! t ! i @ [m]]]) (chan_put (nu i) (nu t) (mu m) l)"
  using l t unfolding decoded_links_def
  by (auto simp: chan_put_at nth_list_update inj_on_eq_iff [OF inj])

lemma decoded_links_take:
  assumes l: "decoded_links nu mu c l" and inj: "inj_on nu {..<length c}" and t: "s < length c" "i < length c" and q: "c ! i ! s = m # q"
  shows "decoded_links nu mu (c[i := (c ! i)[s := q]]) (chan_take (nu i) (nu s) [] l)"
  using l t q unfolding decoded_links_def
  by (auto simp: chan_take_at nth_list_update inj_on_eq_iff [OF inj])

lemma sim_play:
  assumes "sim is T c" "length c = length T" "decoded_events nu mu T f" "decoded_links nu mu c l" "inj_on nu {..<length T}"
    and "\<And>i t m. i < length T \<Longrightarrow> NOut t m \<in> set (T ! i) \<Longrightarrow> conn (nu i) (nu t)"
  shows "\<exists>T' c'. play conn (map nu is) f l = Some (T', c') \<and> (\<forall>i. T' i = []) \<and> (\<forall>i s. c' i s = [])"
  using assms
proof (induction "is" T c arbitrary: f l rule: sim.induct)
  case (1 T c)
  have "f x = []" for x
    using 1(1,3) by (cases "x \<in> nu ` {..<length T}") (auto simp: decoded_events_def list_all_length)
  moreover have "l x y = []" for x y
    using 1(1,4) by (cases "x \<in> nu ` {..<length c} \<and> y \<in> nu ` {..<length c}") (auto simp: decoded_links_def list_all_length)
  ultimately show ?case by simp
next
  case (2 i "is" T c)
  note ev = 2(5) and li = 2(6) and inj = 2(7) and conn = 2(8)
  have i: "i < length T" "i < length c" using 2(3,4) by auto
  obtain e es where T: "T ! i = e # es" using 2(3) by (cases "T ! i") auto
  have f: "f (nu i) = decoded nu mu e # map (decoded nu mu) es" using ev i T by (simp add: decoded_events_def)
  have step: "NOut t m \<in> set (T[i := es] ! j) \<Longrightarrow> j < length (T[i := es]) \<Longrightarrow> conn (nu j) (nu t)" for t m j
    using conn [of j t m] T by (cases "j = i") auto
  show ?case
  proof (cases e)
    case (NOut t m)
    have t: "t < length T" "sim is (T[i := es]) (c[t := (c ! t)[i := c ! t ! i @ [m]]])" using 2(3) T NOut by auto
    have "conn (nu i) (nu t)" using conn [of i t m] i T NOut by simp
    moreover have "\<exists>T' c'. play conn (map nu is) (f(nu i := map (decoded nu mu) es)) (chan_put (nu i) (nu t) (mu m) l) = Some (T', c')
        \<and> (\<forall>i. T' i = []) \<and> (\<forall>i s. c' i s = [])"
      by (rule 2(1) [OF T NOut t(2)]) (use 2(4) ev li inj i t step in \<open>auto intro: decoded_events_upd decoded_links_put simp del: fun_upd_apply\<close>)
    ultimately show ?thesis using f NOut by simp
  next
    case (NIn s m)
    obtain q where s: "s < length T" "c ! i ! s = m # q" "sim is (T[i := es]) (c[i := (c ! i)[s := q]])"
      using 2(3) T NIn by (auto split: list.splits)
    have "l (nu i) (nu s) = mu m # map mu q" using li i s 2(4) by (simp add: decoded_links_def)
    moreover have "\<exists>T' c'. play conn (map nu is) (f(nu i := map (decoded nu mu) es)) (chan_take (nu i) (nu s) [] l) = Some (T', c')
        \<and> (\<forall>i. T' i = []) \<and> (\<forall>i s. c' i s = [])"
      by (rule 2(2) [OF T NIn s(2) s(3)]) (use 2(4) ev li inj i s step in \<open>auto intro: decoded_events_upd decoded_links_take simp del: fun_upd_apply\<close>)
    ultimately show ?thesis using f NIn by simp
  qed
qed

definition coded_events :: "(nat \<Rightarrow> string) \<Rightarrow> (nat \<Rightarrow> message_format) \<Rightarrow> coded_io list list \<Rightarrow> string \<Rightarrow> io list" where
  "coded_events nu mu T x = (case find (\<lambda>i. nu i = x) [0..<length T] of None \<Rightarrow> [] | Some i \<Rightarrow> map (decoded nu mu) (T ! i))"

definition links_used :: "coded_io list list \<Rightarrow> (nat \<times> nat) list" where
  "links_used T = remdups (concat (map (\<lambda>i. concat (map (\<lambda>e. case e of NOut t m \<Rightarrow> [(i, t)] | _ \<Rightarrow> []) (T ! i))) [0..<length T]))"

lemma coded_events_at:
  assumes "inj_on nu {..<length T}" "i < length T"
  shows "coded_events nu mu T (nu i) = map (decoded nu mu) (T ! i)"
proof (cases "find (\<lambda>j. nu j = nu i) [0..<length T]")
  case None
  then show ?thesis using assms(2) by (auto simp: find_None_iff)
next
  case (Some j)
  then have "nu j = nu i" "j < length T" by (auto simp: find_Some_iff)
  then have "j = i" using assms by (auto simp: inj_on_eq_iff)
  then show ?thesis using Some by (simp add: coded_events_def)
qed

lemma coded_events_none: "x \<notin> nu ` {..<length T} \<Longrightarrow> coded_events nu mu T x = []"
  by (auto simp: coded_events_def find_Some_iff split: option.split)

lemma coded_events_decoded: "inj_on nu {..<length T} \<Longrightarrow> decoded_events nu mu T (coded_events nu mu T)"
  unfolding decoded_events_def by (simp add: coded_events_at coded_events_none)

lemma sim_runs:
  assumes "sim is T (replicate n (replicate n []))" "length T = n" "inj_on nu {..<n}"
    and "\<forall>(i, t) \<in> set (links_used T). conn (nu i) (nu t)"
  shows "\<exists>T' c'. play conn (map nu is) (coded_events nu mu T) (\<lambda>_ _. []) = Some (T', c') \<and> (\<forall>i. T' i = []) \<and> (\<forall>i s. c' i s = [])"
proof (rule sim_play [OF assms(1)])
  show "decoded_events nu mu T (coded_events nu mu T)" using assms(2,3) by (simp add: coded_events_decoded)
  show "decoded_links nu mu (replicate n (replicate n [])) (\<lambda>_ _. [])" by (simp add: decoded_links_def)
  show "conn (nu i) (nu t)" if "i < length T" "NOut t m \<in> set (T ! i)" for i t m
  proof -
    have "(i, t) \<in> set (links_used T)" unfolding links_used_def using that by force
    then show ?thesis using assms(4) by auto
  qed
qed (use assms in simp_all)

section \<open>Fresh systems\<close>

definition fresh_system :: "(string \<rightharpoonup> 'a nprog) \<Rightarrow> 'a p2p \<Rightarrow> bool" where
  \<comment> \<open>the programs are about to start, nothing was delivered yet\<close>
  "fresh_system ps c \<longleftrightarrow> programs c = ps \<and> (\<forall>i nd s. nodes c i = Some nd \<longrightarrow> Queue (queue_of nd s) = [])"

lemma fresh_system_chan: "fresh_system ps c \<Longrightarrow> chan (net_of c) = (\<lambda>_ _. [])"
  by (auto simp: fresh_system_def net_of_def fun_eq_iff split: option.split)

section \<open>Fully connected nodes\<close>

definition mesh :: "(string \<times> 'a nprog) list \<Rightarrow> 'a p2p" where
  \<comment> \<open>nodes that run the programs, each with all others in its network map\<close>
  "mesh ps = \<lparr> programs = map_of ps,
     nodes = (\<lambda>x. if x \<in> fst ` set ps
       then Some (node0\<lparr>connectedAddresses := map (\<lambda>t. (t, ''h:'' @ t)) (filter (\<lambda>t. t \<noteq> x) (map fst ps))\<rparr>) else None) \<rparr>"

definition mesh_who :: "string \<rightharpoonup> string" where
  "mesh_who a = (if take 2 a = ''h:'' then Some (drop 2 a) else None)"

definition mesh_conn :: "string list \<Rightarrow> string \<Rightarrow> string \<Rightarrow> bool" where
  "mesh_conn ns i t \<longleftrightarrow> i \<in> set ns \<and> t \<in> set ns \<and> i \<noteq> t"

lemma map_of_addresses: "map_of (map (\<lambda>t. (t, g t)) ts) t = (if t \<in> set ts then Some (g t) else None)"
  by (induction ts) auto

lemma mesh_ok: "p2p_ok mesh_who (mesh_conn (map fst ps)) (mesh ps)"
  by (auto simp: p2p_ok_def mesh_def mesh_who_def mesh_conn_def map_of_addresses dom_map_of_conv_image_fst nodes_ok_def node0_def
      split: if_splits) force+

lemma mesh_fresh: "fresh_system (map_of ps) (mesh ps)"
  by (simp add: fresh_system_def mesh_def node0_def smap_get_def tsqueue0_def)

section \<open>Two connected nodes\<close>

definition pair_who :: "string \<rightharpoonup> string" where
  "pair_who = [''h:1'' \<mapsto> ''Node1'', ''h:2'' \<mapsto> ''Node2'']"

definition pair_conn :: "string \<Rightarrow> string \<Rightarrow> bool" where
  "pair_conn i t \<longleftrightarrow> (i, t) = (''Node1'', ''Node2'') \<or> (i, t) = (''Node2'', ''Node1'')"

definition pair_system :: "'a nprog \<Rightarrow> 'a nprog \<Rightarrow> 'a p2p" where
  "pair_system p q = \<lparr> programs = [''Node1'' \<mapsto> p, ''Node2'' \<mapsto> q],
     nodes = [''Node1'' \<mapsto> node0\<lparr>connectedAddresses := [(''Node2'', ''h:2'')]\<rparr>,
              ''Node2'' \<mapsto> node0\<lparr>connectedAddresses := [(''Node1'', ''h:1'')]\<rparr>] \<rparr>"

lemma pair_system_ok: "p2p_ok pair_who pair_conn (pair_system p q)"
  by (auto simp: p2p_ok_def pair_system_def pair_who_def pair_conn_def nodes_ok_def node0_def split: if_splits)

lemma pair_system_chan: "chan (net_of (pair_system p q)) = (\<lambda>_ _. [])"
  by (auto simp: net_of_def pair_system_def node0_def smap_get_def tsqueue0_def fun_eq_iff)

lemma pair_conn_simps [simp]: "pair_conn ''Node1'' ''Node2''" "pair_conn ''Node2'' ''Node1''"
  by (simp_all add: pair_conn_def)

lemma p2p_implements_channels_witness:
  "\<exists>c. p2p_reach pair_who (pair_system (NSend ''Node2'' ''ty'' ''x'' 1 0 (nret ''sent''))
       (n_getSerialMsgWait Inr ''ty'' ''Node1'')) c
    \<and> net_of c = \<lparr> procs = [''Node1'' \<mapsto> NRet (Inr ''sent''), ''Node2'' \<mapsto> NRet (Inr ''x'')], chan = (\<lambda>_ _. []) \<rparr>"
proof -
  let ?y = "pair_system (NSend ''Node2'' ''ty'' ''x'' 1 0 (nret ''sent'')) (n_getSerialMsgWait Inr ''ty'' ''Node1'')"
  let ?d = "\<lparr> procs = [''Node1'' \<mapsto> NRet (Inr ''sent''), ''Node2'' \<mapsto> NRet (Inr ''x'')], chan = (\<lambda>_ _. []) \<rparr>"
  let ?T = "(\<lambda>_. [])(''Node1'' := [Out ''Node2'' (msg ''Node1'' ''ty'' ''x'')], ''Node2'' := [In ''Node1'' (msg ''Node1'' ''ty'' ''x'')])"
  let ?r = "\<lambda>i. Inr (if i = ''Node1'' then ''sent'' else ''x'')"
  have run: "play pair_conn [''Node1'', ''Node2''] ?T (chan (net_of ?y)) = Some (\<lambda>_. [], \<lambda>_ _. [])"
    by (simp add: pair_system_chan fun_eq_iff chan_put_at chan_take_at)
  have progs: "programs ?y = [''Node1'' \<mapsto> NSend ''Node2'' ''ty'' ''x'' 1 0 (nret ''sent''),
      ''Node2'' \<mapsto> n_getSerialMsgWait Inr ''ty'' ''Node1'']" by (simp add: pair_system_def)
  have "follows ''Node1'' (NSend ''Node2'' ''ty'' ''x'' 1 0 (nret ''sent'')) [Out ''Node2'' (msg ''Node1'' ''ty'' ''x'')] (NRet (Inr ''sent''))"
    unfolding nret_def by (intro follows.intros)
  moreover have "follows ''Node2'' (n_getSerialMsgWait Inr ''ty'' ''Node1'') [In ''Node1'' (msg ''Node1'' ''ty'' ''x'')] (NRet (Inr ''x''))"
    unfolding n_getSerialMsgWait_def by (rule follows_recv) (simp add: follows_here)
  ultimately have "net_reach pair_conn (net_of ?y)
      \<lparr> procs = (\<lambda>i. if i \<in> dom (procs (net_of ?y)) then Some (NRet (?r i)) else None), chan = (\<lambda>_ _. []) \<rparr>"
    by (intro play_ends [OF run]) (auto simp: progs)
  also have "(\<lambda>i. if i \<in> dom (procs (net_of ?y)) then Some (NRet (?r i)) else None) = procs ?d"
    by (auto simp: progs fun_eq_iff)
  finally have "net_reach pair_conn (net_of ?y) ?d" by (simp only: net.select_convs)
  moreover have "patient_net (net_of ?y)"
    by (auto simp: patient_net_def pair_system_def split: if_splits)
  moreover have "settled pair_conn ?d" "delivered ?d"
    by (auto simp: settled_def node_move_def delivered_def)
  ultimately show ?thesis
    using p2p_implements_channels [OF pair_system_ok, of _ _ ?d ?y] by (auto simp: p2p_reach_def)
qed

end
