(* ===== verification/Measure_Lib.thy ===== *)
theory Measure_Lib
  imports P2P_Runs "HOL-Library.Signed_Division"
begin

text \<open>
  What the programs of \<^verbatim>\<open>network_measure_examples\<close> share: reading their input file, the arithmetic
  of \<^verbatim>\<open>int64_t\<close> they do on it, the operations of OpenFHE's BFV scheme that they use, as a record
  of functions, and what they rely on in them: \<open>bfv_serial_ok\<close>, serialised objects are read back, and
  \<open>bfv_joint_ok\<close>, evaluation under the joint key of two nodes and their distributed decryption.
\<close>

section \<open>Input files\<close>

definition int64_ok :: "int \<Rightarrow> bool" where
  "int64_ok x \<longleftrightarrow> - (2 ^ 63) \<le> x \<and> x < 2 ^ 63"

definition sign_of :: "string \<Rightarrow> bool \<times> string" where
  \<comment> \<open>an optional sign, and what follows it\<close>
  "sign_of s = (case s of
      [] \<Rightarrow> (False, [])
    | c # r \<Rightarrow> if c = CHR ''-'' then (True, r) else if c = CHR ''+'' then (False, r) else (False, s))"

definition scan_int64 :: "string \<Rightarrow> (int \<times> string) option" where
  \<comment> \<open>fin >> data: a decimal number after white space, or failure; failure also out of range\<close>
  "scan_int64 s =
     (case sign_of (dropWhile is_space s) of (neg, s2) \<Rightarrow>
        let ds = takeWhile digit s2;
            v = (if neg then - int (value_of 0 ds) else int (value_of 0 ds))
        in if ds = [] \<or> \<not> int64_ok v then None else Some (v, dropWhile digit s2))"

lemma dropWhile_shorter: "takeWhile P xs \<noteq> [] \<Longrightarrow> length (dropWhile P xs) < length xs"
  by (cases xs) (auto simp: le_imp_less_Suc length_dropWhile_le split: if_splits)

lemma sign_of_shorter: "length (snd (sign_of s)) \<le> length s"
  by (cases s) (auto simp: sign_of_def)

lemma scan_int64_shorter: "scan_int64 s = Some (v, r) \<Longrightarrow> length r < length s"
proof -
  assume s: "scan_int64 s = Some (v, r)"
  obtain neg s2 where n: "sign_of (dropWhile is_space s) = (neg, s2)" by fastforce
  have "length s2 \<le> length s"
    using sign_of_shorter [of "dropWhile is_space s"] length_dropWhile_le [of is_space s] n by simp
  moreover have "takeWhile digit s2 \<noteq> []" "r = dropWhile digit s2"
    using s by (simp_all add: scan_int64_def n Let_def del: takeWhile_eq_Nil_iff split: if_splits)
  ultimately show ?thesis using dropWhile_shorter [of digit s2] by simp
qed

function read_ints :: "string \<Rightarrow> int list" where
  \<comment> \<open>while (fin >> data) vectorOfInts.push_back(data);\<close>
  "read_ints s = (case scan_int64 s of None \<Rightarrow> [] | Some (v, r) \<Rightarrow> v # read_ints r)"
  by auto
termination
  by (relation "measure length") (auto dest: scan_int64_shorter)

declare read_ints.simps [simp del]

section \<open>Masks\<close>

definition mul64 :: "int \<Rightarrow> int \<Rightarrow> int result" where
  \<comment> \<open>a product of int64_t: undefined on overflow\<close>
  "mul64 x y = (if int64_ok (x * y) then Inr (x * y) else Inl (Undefined ''signed overflow''))"

fun mask_loop :: "nat \<Rightarrow> int list \<Rightarrow> (nat \<Rightarrow> nat) \<Rightarrow> nat list \<Rightarrow> (int list \<times> int list) result" where
  \<comment> \<open>the random vector and the masked values, (vectorOfInts[i] * random_rvec[i]) % plaintextModulus\<close>
  "mask_loop p v rand [] = Inr ([], [])"
| "mask_loop p v rand (i # is) =
     rbind (at ''vectorOfInts'' v i) (\<lambda>x.
     rbind (mul64 x (int (rand i mod p))) (\<lambda>xr.
     rbind (mask_loop p v rand is) (\<lambda>(rs, ms). Inr (int (rand i mod p) # rs, (xr smod int p) # ms))))"

section \<open>The library\<close>

record bfv_params =
  bp_plaintextModulus :: nat
  bp_standardDeviation :: string
  bp_securityLevel :: string
  bp_secretKeyDist :: string
  bp_multiplicativeDepth :: u32
  bp_batchSize :: u32
  bp_enabled :: "string list"

record ('cc, 'pk, 'sk, 'ek, 'ct, 'pt) bfv_lib =
  m_GenCryptoContext :: "bfv_params \<Rightarrow> 'cc"
  m_ser_cc :: "'cc \<Rightarrow> bytes"
  m_deser_cc :: "bytes \<Rightarrow> 'cc result"
  m_ser_pk :: "'pk \<Rightarrow> bytes"
  m_deser_pk :: "bytes \<Rightarrow> 'pk result"
  m_ser_ek :: "'ek \<Rightarrow> bytes"
  m_deser_ek :: "bytes \<Rightarrow> 'ek result"
  m_ser_ct :: "'ct \<Rightarrow> bytes"
  m_deser_ct :: "bytes \<Rightarrow> 'ct result"
  m_ClearKeys :: "'cc \<Rightarrow> 'cc" \<comment> \<open>ClearEvalMultKeys, ClearEvalAutomorphismKeys\<close>
  m_KeyGen :: "'cc \<Rightarrow> 'pk \<times> 'sk"
  m_MultipartyKeyGen :: "'cc \<Rightarrow> 'pk \<Rightarrow> 'pk \<times> 'sk"
  m_KeyTag :: "'pk \<Rightarrow> string"
  m_KeySwitchGen :: "'cc \<Rightarrow> 'sk \<Rightarrow> 'sk \<Rightarrow> 'ek"
  m_MultiKeySwitchGen :: "'cc \<Rightarrow> 'sk \<Rightarrow> 'sk \<Rightarrow> 'ek \<Rightarrow> 'ek"
  m_MultiAddEvalKeys :: "'cc \<Rightarrow> 'ek \<Rightarrow> 'ek \<Rightarrow> string \<Rightarrow> 'ek"
  m_MultiMultEvalKey :: "'cc \<Rightarrow> 'sk \<Rightarrow> 'ek \<Rightarrow> string \<Rightarrow> 'ek"
  m_MultiAddEvalMultKeys :: "'cc \<Rightarrow> 'ek \<Rightarrow> 'ek \<Rightarrow> string \<Rightarrow> 'ek"
  m_InsertEvalMultKey :: "'cc \<Rightarrow> 'ek list \<Rightarrow> 'cc"
  m_PlaintextModulus :: "'cc \<Rightarrow> nat"
  m_MakePackedPlaintext :: "'cc \<Rightarrow> int list \<Rightarrow> 'pt result"
  m_Encrypt :: "'cc \<Rightarrow> 'pk \<Rightarrow> 'pt \<Rightarrow> 'ct"
  m_EvalMult :: "'cc \<Rightarrow> 'ct \<Rightarrow> 'ct \<Rightarrow> 'ct"
  m_EvalSub :: "'cc \<Rightarrow> 'ct \<Rightarrow> 'ct \<Rightarrow> 'ct"
  m_MultipartyDecryptLead :: "'cc \<Rightarrow> 'ct list \<Rightarrow> 'sk \<Rightarrow> 'ct list"
  m_MultipartyDecryptMain :: "'cc \<Rightarrow> 'ct list \<Rightarrow> 'sk \<Rightarrow> 'ct list"
  m_MultipartyDecryptFusion :: "'cc \<Rightarrow> 'ct list \<Rightarrow> 'pt"
  m_GetPackedValue :: "nat \<Rightarrow> 'pt \<Rightarrow> int list" \<comment> \<open>after SetLength\<close>

definition measure_params :: bfv_params where
  "measure_params = \<lparr> bp_plaintextModulus = 65537, bp_standardDeviation = ''3.2'',
     bp_securityLevel = ''HEStd_128_classic'', bp_secretKeyDist = ''UNIFORM_TERNARY'',
     bp_multiplicativeDepth = 4, bp_batchSize = 1024, bp_enabled = [''PKE'', ''LEVELEDSHE'', ''MULTIPARTY''] \<rparr>"

definition bfv_serial_ok ::
  "('cc, 'pk, 'sk, 'ek, 'ct, 'pt) bfv_lib \<Rightarrow> ('cc, 'pk, 'sk, 'ek, 'ct, 'pt) bfv_lib \<Rightarrow> bool" where
  \<comment> \<open>what the first node serialises the second one reads back\<close>
  "bfv_serial_ok A B \<longleftrightarrow>
     (\<forall>x. m_ser_cc A x \<noteq> [] \<and> m_deser_cc B (m_ser_cc A x) = Inr x)
   \<and> (\<forall>x. m_ser_pk A x \<noteq> [] \<and> m_deser_pk B (m_ser_pk A x) = Inr x)
   \<and> (\<forall>x. m_ser_ek A x \<noteq> [] \<and> m_deser_ek B (m_ser_ek A x) = Inr x)
   \<and> (\<forall>x. m_ser_ct A x \<noteq> [] \<and> m_deser_ct B (m_ser_ct A x) = Inr x)"

lemma mask_loop_ok:
  assumes "\<forall>i \<in> set is. i < length v \<and> int64_ok (v ! i * int (rand i mod p))"
  shows "mask_loop p v rand is = Inr (map (\<lambda>i. int (rand i mod p)) is, map (\<lambda>i. (v ! i * int (rand i mod p)) smod int p) is)"
  using assms by (induction p v rand "is" rule: mask_loop.induct) (simp_all add: mul64_def)

lemma smod_cong: "(x :: int) smod p mod p = x mod p"
proof -
  have "x smod p = x - x sdiv p * p" by (simp add: minus_sdiv_mult_eq_smod)
  then show ?thesis by (simp add: mod_diff_eq [symmetric] del: mod_diff_right_eq mod_diff_left_eq)
qed

end
