(* ===== verification/Measure_Main.thy ===== *)
theory Measure_Main
  imports Measure_Lib
begin

text \<open>
  \<^verbatim>\<open>network_measure.cpp\<close>: two nodes compare their twelve measurements without revealing them. Each phase of
  \<^verbatim>\<open>main\<close> is a definition, \<open>network_measure\<close> their sequence; the result is the list of the indices at which a node
  reports a difference. \<^verbatim>\<open>rand\<close> is the sequence of the values of \<^verbatim>\<open>std::rand()\<close>, the input file is an
  argument. Pauses, timings and output are left out.
\<close>

section \<open>The program\<close>

definition startNode :: string where "startNode = ''Node1''"
definition nextNode :: string where "nextNode = ''Node2''"

definition other_node :: "string \<Rightarrow> string" where
  \<comment> \<open>sendtoNode and getfromNode\<close>
  "other_node me = (if me = startNode then nextNode else startNode)"

definition measure_context :: "('cc, 'pk, 'sk, 'ek, 'ct, 'pt) bfv_lib \<Rightarrow> string \<Rightarrow> 'cc nprog" where
  "measure_context L me =
     (if me = startNode
      then let c = m_GenCryptoContext L measure_params
           in nbind (n_sendSerialMsg (m_ser_cc L) c ''cryptocontext'' (other_node me)) (\<lambda>_. nret c)
      else nbind (n_getSerialMsgWait (m_deser_cc L) ''cryptocontext'' (other_node me)) (\<lambda>c. nret (m_ClearKeys L c)))"

definition measure_pubkey :: "('cc, 'pk, 'sk, 'ek, 'ct, 'pt) bfv_lib \<Rightarrow> string \<Rightarrow> 'cc \<Rightarrow> (('pk \<times> 'sk) \<times> 'pk) nprog" where
  \<comment> \<open>the key pair and the final public key\<close>
  "measure_pubkey L me c =
     nbind (if me = startNode then nret (m_KeyGen L c)
            else nbind (n_getSerialMsgWait (m_deser_pk L) ''PublicKey'' (other_node me)) (\<lambda>prevPubKey.
                 nret (m_MultipartyKeyGen L c prevPubKey))) (\<lambda>keyPair.
     nbind (n_sendSerialMsg (m_ser_pk L) (fst keyPair) ''PublicKey'' (other_node me)) (\<lambda>_.
     if me \<noteq> ''Node2''
     then nbind (n_getSerialMsgWait (m_deser_pk L) ''PublicKey'' (other_node me)) (\<lambda>FinalPubKey.
          nret (keyPair, FinalPubKey))
     else nret (keyPair, fst keyPair)))"

definition evalmult_forward ::
  "('cc, 'pk, 'sk, 'ek, 'ct, 'pt) bfv_lib \<Rightarrow> string \<Rightarrow> 'cc \<Rightarrow> 'pk \<times> 'sk \<Rightarrow> 'pk \<Rightarrow> unit nprog" where
  \<comment> \<open>in the direction Node1, Node2\<close>
  "evalmult_forward L me c keyPair FinalPubKey =
     (if me = startNode
      then n_sendSerialMsg (m_ser_ek L) (m_KeySwitchGen L c (snd keyPair) (snd keyPair)) ''evalmultkey'' (other_node me)
      else nbind (n_getSerialMsgWait (m_deser_ek L) ''evalmultkey'' (other_node me)) (\<lambda>PrevevalMultKey.
        let evalMultKey = m_MultiKeySwitchGen L c (snd keyPair) (snd keyPair) PrevevalMultKey;
            evalMultPrevandCurrent = m_MultiAddEvalKeys L c PrevevalMultKey evalMultKey (m_KeyTag L (fst keyPair))
        in nbind (n_sendSerialMsg (m_ser_ek L) evalMultPrevandCurrent ''evalmultkey'' (other_node me)) (\<lambda>_.
           if me = ''Node2''
           then n_sendSerialMsg (m_ser_ek L)
                  (m_MultiMultEvalKey L c (snd keyPair) evalMultPrevandCurrent (m_KeyTag L FinalPubKey))
                  ''evalmixmultkey'' (other_node me)
           else nret ())))"

definition evalmult_backward ::
  "('cc, 'pk, 'sk, 'ek, 'ct, 'pt) bfv_lib \<Rightarrow> string \<Rightarrow> 'cc \<Rightarrow> 'pk \<times> 'sk \<Rightarrow> 'pk \<Rightarrow> 'cc nprog" where
  \<comment> \<open>in the direction Node2, Node1; the context with the keys inserted\<close>
  "evalmult_backward L me c keyPair FinalPubKey =
     (if me \<noteq> nextNode
      then nbind (n_getSerialMsgWait (m_deser_ek L) ''evalmultkey'' (other_node me)) (\<lambda>evalMultAll.
           nbind (n_getSerialMsgWait (m_deser_ek L) ''evalmixmultkey'' (other_node me)) (\<lambda>PrevevalMixMultKey.
           let evalMultKeyskAll = m_MultiMultEvalKey L c (snd keyPair) evalMultAll (m_KeyTag L FinalPubKey);
               evalMultAddskAll = m_MultiAddEvalMultKeys L c evalMultKeyskAll PrevevalMixMultKey (m_KeyTag L FinalPubKey)
           in nbind (n_sendSerialMsg (m_ser_ek L) evalMultAddskAll ''evalmixmultkey'' (other_node me)) (\<lambda>_.
              nret (if me = startNode then m_InsertEvalMultKey L c [evalMultAddskAll] else c))))
      else nret c)"

definition measure_evalmult ::
  "('cc, 'pk, 'sk, 'ek, 'ct, 'pt) bfv_lib \<Rightarrow> string \<Rightarrow> 'cc \<Rightarrow> 'pk \<times> 'sk \<Rightarrow> 'pk \<Rightarrow> 'cc nprog" where
  "measure_evalmult L me c keyPair FinalPubKey =
     nbind (evalmult_forward L me c keyPair FinalPubKey) (\<lambda>_.
     nbind (evalmult_backward L me c keyPair FinalPubKey) (\<lambda>c'.
     if me \<noteq> startNode
     then nbind (n_getSerialMsgWait (m_deser_ek L) ''evalmixmultkey'' (other_node me)) (\<lambda>evalMultFinal.
          nret (m_InsertEvalMultKey L c' [evalMultFinal]))
     else nret c'))"

definition masked_cts ::
  "('cc, 'pk, 'sk, 'ek, 'ct, 'pt) bfv_lib \<Rightarrow> 'cc \<Rightarrow> 'pk \<Rightarrow> (nat \<Rightarrow> nat) \<Rightarrow> int list \<Rightarrow> ('ct \<times> 'ct) result" where
  \<comment> \<open>the encryptions of the masked measurements and of the mask\<close>
  "masked_cts L c FinalPubKey rand vectorOfInts =
     rbind (m_MakePackedPlaintext L c vectorOfInts) (\<lambda>_.
     rbind (mask_loop (m_PlaintextModulus L c) vectorOfInts rand [0..<12]) (\<lambda>(random_rvec, plain_randomciphertext).
     rbind (m_MakePackedPlaintext L c random_rvec) (\<lambda>plainrandom_r.
     rbind (m_MakePackedPlaintext L c plain_randomciphertext) (\<lambda>ptrandom.
       Inr (m_Encrypt L c FinalPubKey ptrandom, m_Encrypt L c FinalPubKey plainrandom_r)))))"

definition measure_products ::
  "('cc, 'pk, 'sk, 'ek, 'ct, 'pt) bfv_lib \<Rightarrow> string \<Rightarrow> 'cc \<Rightarrow> 'pk \<Rightarrow> (nat \<Rightarrow> nat) \<Rightarrow> string \<Rightarrow> 'ct nprog" where
  \<comment> \<open>the exchange of the ciphertexts, and resultCT\<close>
  "measure_products L me c FinalPubKey rand inputfile =
     nbind (n_lift (masked_cts L c FinalPubKey rand (read_ints inputfile))) (\<lambda>(randomcipherText, encryptedrandom_r).
     nbind (n_sendSerialMsg (m_ser_ct L) randomcipherText ''ciphertext'' (other_node me)) (\<lambda>_.
     nbind (n_sendSerialMsg (m_ser_ct L) encryptedrandom_r ''randomness ciphertext'' (other_node me)) (\<lambda>_.
     nbind (n_getSerialMsgWait (m_deser_ct L) ''ciphertext'' (other_node me)) (\<lambda>clientCT.
     nbind (n_getSerialMsgWait (m_deser_ct L) ''randomness ciphertext'' (other_node me)) (\<lambda>ClientRandomness.
       let temp1 = m_EvalMult L c randomcipherText ClientRandomness;
           temp2 = m_EvalMult L c clientCT encryptedrandom_r
       in nret (if me = startNode then m_EvalSub L c temp1 temp2 else m_EvalSub L c temp2 temp1))))))"

fun differences :: "int list \<Rightarrow> nat list \<Rightarrow> nat list result" where
  \<comment> \<open>for (int i = 0; i < 12; i++) if (plaintextvec[i] != 0)\<close>
  "differences plaintextvec [] = Inr []"
| "differences plaintextvec (i # is) =
     rbind (at ''plaintextvec'' plaintextvec i) (\<lambda>x.
     rbind (differences plaintextvec is) (\<lambda>js. Inr (if x \<noteq> 0 then i # js else js)))"

definition measure_decrypt ::
  "('cc, 'pk, 'sk, 'ek, 'ct, 'pt) bfv_lib \<Rightarrow> string \<Rightarrow> 'cc \<Rightarrow> 'sk \<Rightarrow> 'ct \<Rightarrow> nat list nprog" where
  \<comment> \<open>distributed decryption, and the indices at which a difference is reported\<close>
  "measure_decrypt L me c sk resultCT =
     (let ciphertextPartial = (if me = startNode then m_MultipartyDecryptLead L c [resultCT] sk
                               else m_MultipartyDecryptMain L c [resultCT] sk)
      in nbind (n_lift (at ''ciphertextPartial'' ciphertextPartial 0)) (\<lambda>mine.
         nbind (n_sendSerialMsg (m_ser_ct L) mine ''partialct'' (other_node me)) (\<lambda>_.
         nbind (n_getSerialMsgWait (m_deser_ct L) ''partialct'' (other_node me)) (\<lambda>otherClientPartialCT.
           let partialCiphertextVec = (if me = startNode then [mine, otherClientPartialCT]
                                       else [otherClientPartialCT, mine]);
               plaintextvec = m_GetPackedValue L 12 (m_MultipartyDecryptFusion L c partialCiphertextVec)
           in n_lift (differences plaintextvec [0..<12])))))"

definition network_measure ::
  "('cc, 'pk, 'sk, 'ek, 'ct, 'pt) bfv_lib \<Rightarrow> string \<Rightarrow> (nat \<Rightarrow> nat) \<Rightarrow> string \<Rightarrow> nat list nprog" where
  "network_measure L me rand inputfile =
     nbind (measure_context L me) (\<lambda>c.
     nbind (measure_pubkey L me c) (\<lambda>(keyPair, FinalPubKey).
     nbind (measure_evalmult L me c keyPair FinalPubKey) (\<lambda>c'.
     nbind (measure_products L me c' FinalPubKey rand inputfile) (\<lambda>resultCT.
       measure_decrypt L me c' (snd keyPair) resultCT))))"

end
