(* ===== verification/Measure_Correct.thy ===== *)
theory Measure_Correct
  imports Measure_Main
begin

text \<open>
  Two nodes running \<^verbatim>\<open>network_measure\<close>, in any interleaving, on the nodes of the peer to peer framework:
  both end, and report a difference at the indices at which the masked difference is not
  zero modulo the plaintext modulus. What the scheme guarantees is \<open>bfv_joint_ok\<close>, on the keys that the two programs
  generate together (\<open>joint_keys\<close>).
\<close>

section \<open>The joint keys\<close>

record ('cc, 'pk, 'sk, 'ek) joint =
  j_cc :: 'cc \<comment> \<open>as generated\<close>
  j_pk1 :: 'pk
  j_sk1 :: 'sk
  j_pk :: 'pk \<comment> \<open>the final public key\<close>
  j_sk2 :: 'sk
  j_em1 :: 'ek
  j_em2 :: 'ek
  j_mix :: 'ek
  j_ek :: 'ek \<comment> \<open>the final evaluation key\<close>

definition joint_keys ::
  "('cc, 'pk, 'sk, 'ek, 'ct, 'pt) bfv_lib \<Rightarrow> ('cc, 'pk, 'sk, 'ek, 'ct, 'pt) bfv_lib \<Rightarrow> 'cc \<Rightarrow> 'cc \<Rightarrow> ('cc, 'pk, 'sk, 'ek) joint" where
  \<comment> \<open>of two nodes with the contexts c and d\<close>
  "joint_keys A B c d =
     (let (pk1, sk1) = m_KeyGen A c;
          (pk, sk2) = m_MultipartyKeyGen B d pk1;
          em1 = m_KeySwitchGen A c sk1 sk1;
          em2 = m_MultiAddEvalKeys B d em1 (m_MultiKeySwitchGen B d sk2 sk2 em1) (m_KeyTag B pk);
          mix = m_MultiMultEvalKey B d sk2 em2 (m_KeyTag B pk);
          ek = m_MultiAddEvalMultKeys A c (m_MultiMultEvalKey A c sk1 em2 (m_KeyTag A pk)) mix (m_KeyTag A pk)
      in \<lparr> j_cc = c, j_pk1 = pk1, j_sk1 = sk1, j_pk = pk, j_sk2 = sk2, j_em1 = em1, j_em2 = em2, j_mix = mix, j_ek = ek \<rparr>)"

lemma joint_keys_simps:
  fixes A B c d defines "J \<equiv> joint_keys A B c d"
  shows "j_cc J = c" "m_KeyGen A c = (j_pk1 J, j_sk1 J)"
    "m_MultipartyKeyGen B d (j_pk1 J) = (j_pk J, j_sk2 J)"
    "m_KeySwitchGen A c (j_sk1 J) (j_sk1 J) = j_em1 J"
    "m_MultiAddEvalKeys B d (j_em1 J) (m_MultiKeySwitchGen B d (j_sk2 J) (j_sk2 J) (j_em1 J)) (m_KeyTag B (j_pk J)) = j_em2 J"
    "m_MultiMultEvalKey B d (j_sk2 J) (j_em2 J) (m_KeyTag B (j_pk J)) = j_mix J"
    "m_MultiAddEvalMultKeys A c (m_MultiMultEvalKey A c (j_sk1 J) (j_em2 J) (m_KeyTag A (j_pk J))) (j_mix J) (m_KeyTag A (j_pk J)) = j_ek J"
  unfolding J_def by (simp_all add: joint_keys_def Let_def split: prod.split)

type_synonym 'ct meaning = "'ct \<Rightarrow> (nat \<Rightarrow> int) \<Rightarrow> bool"

definition bfv_eval_ok :: "('cc, 'pk, 'sk, 'ek, 'ct, 'pt) bfv_lib \<Rightarrow> 'cc \<Rightarrow> 'pk \<Rightarrow> 'ct meaning \<Rightarrow> bool" where
  \<comment> \<open>encryption and evaluation with the context c: enc ct u says that ct encrypts u, slot by slot\<close>
  "bfv_eval_ok L c pk enc \<longleftrightarrow>
     (\<forall>v pt. m_MakePackedPlaintext L c v = Inr pt \<longrightarrow> enc (m_Encrypt L c pk pt) (\<lambda>i. if i < length v then v ! i else 0))
   \<and> (\<forall>a b u w. enc a u \<and> enc b w \<longrightarrow>
        enc (m_EvalMult L c a b) (\<lambda>i. u i * w i) \<and> enc (m_EvalSub L c a b) (\<lambda>i. u i - w i))"

definition bfv_joint_ok ::
  "('cc, 'pk, 'sk, 'ek, 'ct, 'pt) bfv_lib \<Rightarrow> ('cc, 'pk, 'sk, 'ek, 'ct, 'pt) bfv_lib \<Rightarrow> 'cc \<Rightarrow> 'cc \<Rightarrow> nat \<Rightarrow> 'ct meaning \<Rightarrow> bool" where
  \<comment> \<open>both nodes evaluate alike, and the fusion of their two partial decryptions is the plaintext modulo p\<close>
  "bfv_joint_ok A B c d p enc \<longleftrightarrow>
     (let J = joint_keys A B c d; c1 = m_InsertEvalMultKey A c [j_ek J]; c2 = m_InsertEvalMultKey B d [j_ek J] in
      0 < p \<and> m_PlaintextModulus A c1 = p \<and> m_PlaintextModulus B c2 = p
      \<and> bfv_eval_ok A c1 (j_pk J) enc \<and> bfv_eval_ok B c2 (j_pk J) enc
      \<and> m_EvalMult A c1 = m_EvalMult B c2 \<and> m_EvalSub A c1 = m_EvalSub B c2
      \<and> (\<forall>ct u. enc ct u \<longrightarrow> (\<exists>a b. m_MultipartyDecryptLead A c1 [ct] (j_sk1 J) = [a]
           \<and> m_MultipartyDecryptMain B c2 [ct] (j_sk2 J) = [b]
           \<and> (\<forall>v \<in> {m_GetPackedValue A 12 (m_MultipartyDecryptFusion A c1 [a, b]),
                 m_GetPackedValue B 12 (m_MultipartyDecryptFusion B c2 [a, b])}.
               length v = 12 \<and> (\<forall>i < 12. \<bar>v ! i\<bar> < int p \<and> int p dvd v ! i - u i)))))"

section \<open>One node at a time\<close>

lemma differences_eq: "\<forall>i \<in> set is. i < length v \<Longrightarrow> differences v is = Inr (filter (\<lambda>i. v ! i \<noteq> 0) is)"
  by (induction v "is" rule: differences.induct) auto

lemma mask_loop_Inr:
  "mask_loop p v rand is = Inr (rs, ms) \<Longrightarrow> rs = map (\<lambda>i. int (rand i mod p)) is
     \<and> ms = map (\<lambda>i. (v ! i * int (rand i mod p)) smod int p) is \<and> (\<forall>i \<in> set is. i < length v)"
  by (induction p v rand "is" arbitrary: rs ms rule: mask_loop.induct)
    (auto simp: rbind_Inr_iff at_Inr_iff mul64_def split: prod.splits if_splits)

definition sends :: "string \<Rightarrow> (string \<times> bytes) list \<Rightarrow> io list" where
  \<comment> \<open>what a node sends to the other one\<close>
  "sends i xs = map (\<lambda>(ty, d). Out (other_node i) (msg i ty d)) xs"

definition gets :: "string \<Rightarrow> (string \<times> bytes) list \<Rightarrow> io list" where
  "gets i xs = map (\<lambda>(ty, d). In (other_node i) (msg (other_node i) ty d)) xs"

definition events1 ::
  "('cc, 'pk, 'sk, 'ek, 'ct, 'pt) bfv_lib \<Rightarrow> ('cc, 'pk, 'sk, 'ek, 'ct, 'pt) bfv_lib \<Rightarrow> ('cc, 'pk, 'sk, 'ek) joint
   \<Rightarrow> 'ct \<times> 'ct \<Rightarrow> 'ct \<times> 'ct \<Rightarrow> 'ct \<Rightarrow> 'ct \<Rightarrow> io list" where
  \<comment> \<open>what Node1 sends and receives\<close>
  "events1 A B J m1 m2 a b =
     sends ''Node1'' [(''cryptocontext'', m_ser_cc A (j_cc J)), (''PublicKey'', m_ser_pk A (j_pk1 J))]
     @ gets ''Node1'' [(''PublicKey'', m_ser_pk B (j_pk J))]
     @ sends ''Node1'' [(''evalmultkey'', m_ser_ek A (j_em1 J))]
     @ gets ''Node1'' [(''evalmultkey'', m_ser_ek B (j_em2 J)), (''evalmixmultkey'', m_ser_ek B (j_mix J))]
     @ sends ''Node1'' [(''evalmixmultkey'', m_ser_ek A (j_ek J)), (''ciphertext'', m_ser_ct A (fst m1)),
         (''randomness ciphertext'', m_ser_ct A (snd m1))]
     @ gets ''Node1'' [(''ciphertext'', m_ser_ct B (fst m2)), (''randomness ciphertext'', m_ser_ct B (snd m2))]
     @ sends ''Node1'' [(''partialct'', m_ser_ct A a)] @ gets ''Node1'' [(''partialct'', m_ser_ct B b)]"

definition events2 ::
  "('cc, 'pk, 'sk, 'ek, 'ct, 'pt) bfv_lib \<Rightarrow> ('cc, 'pk, 'sk, 'ek, 'ct, 'pt) bfv_lib \<Rightarrow> ('cc, 'pk, 'sk, 'ek) joint
   \<Rightarrow> 'ct \<times> 'ct \<Rightarrow> 'ct \<times> 'ct \<Rightarrow> 'ct \<Rightarrow> 'ct \<Rightarrow> io list" where
  \<comment> \<open>what Node2 sends and receives\<close>
  "events2 A B J m1 m2 a b =
     gets ''Node2'' [(''cryptocontext'', m_ser_cc A (j_cc J)), (''PublicKey'', m_ser_pk A (j_pk1 J))]
     @ sends ''Node2'' [(''PublicKey'', m_ser_pk B (j_pk J))]
     @ gets ''Node2'' [(''evalmultkey'', m_ser_ek A (j_em1 J))]
     @ sends ''Node2'' [(''evalmultkey'', m_ser_ek B (j_em2 J)), (''evalmixmultkey'', m_ser_ek B (j_mix J))]
     @ gets ''Node2'' [(''evalmixmultkey'', m_ser_ek A (j_ek J))]
     @ sends ''Node2'' [(''ciphertext'', m_ser_ct B (fst m2)), (''randomness ciphertext'', m_ser_ct B (snd m2))]
     @ gets ''Node2'' [(''ciphertext'', m_ser_ct A (fst m1)), (''randomness ciphertext'', m_ser_ct A (snd m1))]
     @ sends ''Node2'' [(''partialct'', m_ser_ct B b)] @ gets ''Node2'' [(''partialct'', m_ser_ct A a)]"

definition turns :: "string list" where
  \<comment> \<open>a schedule of the two nodes\<close>
  "turns = replicate 2 ''Node1'' @ replicate 3 ''Node2'' @ replicate 2 ''Node1'' @ replicate 3 ''Node2''
     @ replicate 5 ''Node1'' @ replicate 6 ''Node2'' @ replicate 4 ''Node1'' @ [''Node2'']"

lemmas names = startNode_def nextNode_def other_node_def

lemma measure_play:
  assumes "conn ''Node1'' ''Node2''" "conn ''Node2'' ''Node1''"
  shows "\<exists>T' c'. play conn turns ((\<lambda>_. [])(''Node1'' := events1 A B J m1 m2 a b, ''Node2'' := events2 A B J m1 m2 a b))
      (\<lambda>_ _. []) = Some (T', c') \<and> (\<forall>i. T' i = []) \<and> (\<forall>i s. c' i s = [])"
  using assms by (simp add: turns_def numeral_eq_Suc chan_put_at chan_take_at events1_def events2_def sends_def gets_def names)

lemma node1_follows:
  fixes A B c d
  defines "J \<equiv> joint_keys A B c d" and "c1 \<equiv> m_InsertEvalMultKey A c [j_ek (joint_keys A B c d)]"
  assumes "c = m_GenCryptoContext A measure_params"
    and ser: "bfv_serial_ok A A" "bfv_serial_ok B A"
    and cts: "masked_cts A c1 (j_pk J) r (read_ints fx) = Inr (ct1, e1)"
    and partial: "m_MultipartyDecryptLead A c1 [m_EvalSub A c1 (m_EvalMult A c1 ct1 e2) (m_EvalMult A c1 ct2 e1)] (j_sk1 J) = [a]"
  shows "follows ''Node1'' (network_measure A ''Node1'' r fx) (events1 A B J (ct1, e1) (ct2, e2) a b)
   (NRet (differences (m_GetPackedValue A 12 (m_MultipartyDecryptFusion A c1 [a, b])) [0..<12]))"
proof -
  note K = joint_keys_simps [where A = A and B = B and c = c and d = d, folded J_def]
  have c1: "c1 = m_InsertEvalMultKey A c [j_ek J]" by (simp add: c1_def J_def)
  note ser' = ser [unfolded bfv_serial_ok_def]
  show ?thesis
    unfolding network_measure_def measure_context_def measure_pubkey_def measure_evalmult_def evalmult_forward_def
      evalmult_backward_def measure_products_def measure_decrypt_def
    using ser' cts partial
    by (simp add: names events1_def events2_def sends_def gets_def assms(3) [symmetric] K nbind_assoc Let_def c1 [symmetric] 
       follows_put follows_get follows_here n_lift_def [of "differences v is" for v "is"])
qed

lemma node2_follows:
  fixes A B c d
  defines "J \<equiv> joint_keys A B c d" and "c2 \<equiv> m_InsertEvalMultKey B d [j_ek (joint_keys A B c d)]"
  assumes "d = m_ClearKeys B c"
    and ser: "bfv_serial_ok B B" "bfv_serial_ok A B"
    and cts: "masked_cts B c2 (j_pk J) s (read_ints fy) = Inr (ct2, e2)"
    and partial: "m_MultipartyDecryptMain B c2 [m_EvalSub B c2 (m_EvalMult B c2 ct1 e2) (m_EvalMult B c2 ct2 e1)] (j_sk2 J) = [b]"
  shows "follows ''Node2'' (network_measure B ''Node2'' s fy) (events2 A B J (ct1, e1) (ct2, e2) a b)
   (NRet (differences (m_GetPackedValue B 12 (m_MultipartyDecryptFusion B c2 [a, b])) [0..<12]))"
proof -
  note K = joint_keys_simps [where A = A and B = B and c = c and d = d, folded J_def]
  have c2: "c2 = m_InsertEvalMultKey B d [j_ek J]" by (simp add: c2_def J_def)
  note ser' = ser [unfolded bfv_serial_ok_def]
  show ?thesis
    unfolding network_measure_def measure_context_def measure_pubkey_def measure_evalmult_def evalmult_forward_def
      evalmult_backward_def measure_products_def measure_decrypt_def
    using ser' cts partial
    by (simp add: names events1_def events2_def sends_def gets_def assms(3) [symmetric] K nbind_assoc Let_def c2 [symmetric]
       follows_put follows_get follows_here n_lift_def [of "differences v is" for v "is"])
qed

section \<open>Both nodes\<close>

lemma network_measure_patient: "patient (network_measure L me rand f)"
  unfolding network_measure_def measure_context_def measure_pubkey_def measure_evalmult_def evalmult_forward_def
      evalmult_backward_def measure_products_def measure_decrypt_def Let_def
  by (auto intro!: patient_nbind split: prod.split)

lemma masked_cts_Inr:
  assumes "masked_cts L c pk rand v = Inr (ct, e)" "bfv_eval_ok L c pk enc" "m_PlaintextModulus L c = p"
  shows "12 \<le> length v \<and> (\<exists>u w. enc ct u \<and> enc e w \<and>
    (\<forall>i < 12. u i = (v ! i * int (rand i mod p)) smod int p \<and> w i = int (rand i mod p)))"
proof -
  obtain rs ms pr pm where m: "mask_loop p v rand [0..<12] = Inr (rs, ms)"
    and pr: "m_MakePackedPlaintext L c rs = Inr pr" "e = m_Encrypt L c pk pr"
    and pm: "m_MakePackedPlaintext L c ms = Inr pm" "ct = m_Encrypt L c pk pm"
    using assms(1,3) by (auto simp: masked_cts_def rbind_Inr_iff)
  note M = mask_loop_Inr [OF m]
  have "enc ct (\<lambda>i. if i < length ms then ms ! i else 0)" "enc e (\<lambda>i. if i < length rs then rs ! i else 0)"
    using assms(2) pr pm by (simp_all add: bfv_eval_ok_def)
  moreover have "12 \<le> length v" using M by auto
  ultimately show ?thesis using M
    by (intro conjI exI [of _ "\<lambda>i. if i < length ms then ms ! i else 0"]
        exI [of _ "\<lambda>i. if i < length rs then rs ! i else 0"]) (simp_all del: upt_Suc)
qed

definition differ :: "nat \<Rightarrow> int list \<Rightarrow> int list \<Rightarrow> (nat \<Rightarrow> nat) \<Rightarrow> (nat \<Rightarrow> nat) \<Rightarrow> nat list" where
  \<comment> \<open>the indices at which the difference, masked by both nodes, is not zero modulo p\<close>
  "differ p x y r s = filter (\<lambda>i. \<not> int p dvd (x ! i - y ! i) * int (r i mod p) * int (s i mod p)) [0..<12]"

lemma masked_difference:
  "((x * r) smod p * s - (y * s) smod p * r) mod p = ((x - y) * r * s) mod p" for x y r s p :: int
proof -
  have "((x * r) smod p * s) mod p = (x * r * s) mod p" "((y * s) smod p * r) mod p = (y * s * r) mod p"
    using smod_cong [of "x * r" p] smod_cong [of "y * s" p] by (metis mod_mult_left_eq)+
  then have "((x * r) smod p * s - (y * s) smod p * r) mod p = (x * r * s - y * s * r) mod p"
    by (metis mod_diff_eq)
  then show ?thesis by (simp add: algebra_simps)
qed

definition ctx1 :: "('cc, 'pk, 'sk, 'ek, 'ct, 'pt) bfv_lib \<Rightarrow> 'cc" where
  "ctx1 A = m_GenCryptoContext A measure_params"

definition ctx2 :: "('cc, 'pk, 'sk, 'ek, 'ct, 'pt) bfv_lib \<Rightarrow> ('cc, 'pk, 'sk, 'ek, 'ct, 'pt) bfv_lib \<Rightarrow> 'cc" where
  "ctx2 A B = m_ClearKeys B (ctx1 A)"

definition prepared ::
  "('cc, 'pk, 'sk, 'ek, 'ct, 'pt) bfv_lib \<Rightarrow> 'cc \<Rightarrow> ('cc, 'pk, 'sk, 'ek) joint \<Rightarrow> (nat \<Rightarrow> nat) \<Rightarrow> string \<Rightarrow> ('ct \<times> 'ct) result" where
  \<comment> \<open>what a node with the context c sends once the evaluation key is inserted\<close>
  "prepared L c J rand inputfile = masked_cts L (m_InsertEvalMultKey L c [j_ek J]) (j_pk J) rand (read_ints inputfile)"

lemma zero_iff_dvd: "\<bar>v\<bar> < p \<Longrightarrow> p dvd v - u \<Longrightarrow> v = 0 \<longleftrightarrow> p dvd u" for v u p :: int
  by (metis abs_of_nonneg dvd_0_right dvd_diff_commute dvd_diff_right_iff dvd_minus_iff diff_0 zdvd_not_zless zero_less_abs_iff dvd_abs_iff)

lemma differences_differ:
  assumes "length v = 12" and v: "\<And>i. i < 12 \<Longrightarrow> \<bar>v ! i\<bar> < int p \<and> int p dvd v ! i - (u1 i * w2 i - u2 i * w1 i)"
    and u: "\<And>i. i < 12 \<Longrightarrow> u1 i = (x ! i * int (r i mod p)) smod int p \<and> w1 i = int (r i mod p)"
      "\<And>i. i < 12 \<Longrightarrow> u2 i = (y ! i * int (s i mod p)) smod int p \<and> w2 i = int (s i mod p)"
  shows "differences v [0..<12] = Inr (differ p x y r s)"
proof -
  have "v ! i \<noteq> 0 \<longleftrightarrow> \<not> int p dvd (x ! i - y ! i) * int (r i mod p) * int (s i mod p)" if "i < 12" for i
  proof -
    have "v ! i = 0 \<longleftrightarrow> int p dvd u1 i * w2 i - u2 i * w1 i" using v [OF that] by (intro zero_iff_dvd) auto
    also have "\<dots> \<longleftrightarrow> int p dvd (x ! i - y ! i) * int (r i mod p) * int (s i mod p)"
      unfolding dvd_eq_mod_eq_0 using u [OF that] masked_difference [of "x ! i" "int (r i mod p)" "int p" "int (s i mod p)" "y ! i"]
      by simp
    finally show ?thesis by simp
  qed
  then have "filter (\<lambda>i. v ! i \<noteq> 0) [0..<12] = differ p x y r s"
    unfolding differ_def by (intro filter_cong) simp_all
  then show ?thesis using differences_eq [of "[0..<12]" v] assms(1) by simp
qed

lemma two_nodes_outcome:
  assumes ok: "p2p_ok who conn y" and sys: "fresh_system [''Node1'' \<mapsto> p1, ''Node2'' \<mapsto> p2] y"
    and patient: "patient p1" "patient p2"
    and f: "follows ''Node1'' p1 T1 (NRet r1)" "follows ''Node2'' p2 T2 (NRet r2)"
    and play: "\<exists>T' c'. play conn is ((\<lambda>_. [])(''Node1'' := T1, ''Node2'' := T2)) (\<lambda>_ _. []) = Some (T', c')
      \<and> (\<forall>i. T' i = []) \<and> (\<forall>i s. c' i s = [])"
    and reach: "p2p_reach who y u"
  shows "\<exists>z. p2p_reach who u z \<and> programs z ''Node1'' = Some (NRet r1) \<and> programs z ''Node2'' = Some (NRet r2)"
proof -
  let ?T = "(\<lambda>_. [])(''Node1'' := T1, ''Node2'' := T2)" and ?r = "\<lambda>i. if i = ''Node1'' then r1 else r2"
  from play obtain T' c' where run: "play conn is ?T (\<lambda>_ _. []) = Some (T', c')" "\<And>i. T' i = []" "\<And>i s. c' i s = []"
    by (elim exE conjE) simp
  have progs: "programs y = [''Node1'' \<mapsto> p1, ''Node2'' \<mapsto> p2]" using sys by (simp add: fresh_system_def)
  then have dom: "dom (programs y) = {''Node1'', ''Node2''}" by auto
  have "patient_net (net_of y)" using patient by (auto simp: patient_net_def progs split: if_splits)
  then have "\<exists>z. p2p_reach who u z \<and> (\<forall>i \<in> dom (programs y). programs z i = Some (NRet (?r i)))"
  proof (rule p2p_outcome [OF ok _ _ run(3) _ _ reach])
    show "play conn is ?T (chan (net_of y)) = Some (T', c')" using run(1) fresh_system_chan [OF sys] by simp
    show "follows i (the (programs y i)) (?T i) (NRet (?r i)) \<and> T' i = []" if "i \<in> dom (programs y)" for i
      using that f run(2) by (auto simp: progs)
    show "?T i = []" if "i \<notin> dom (programs y)" for i using that dom by auto
  qed
  then show ?thesis by (simp add: dom)
qed

text \<open>C10: two nodes running \<^verbatim>\<open>network_measure\<close> on the nodes of the peer to peer framework, with any input
  files and random numbers. If both files can be encoded, then in every interleaving both programs
  end, and both report a difference at exactly the indices i below twelve at which
  (x_i - y_i) * r_i * s_i is not zero modulo the plaintext modulus, for the masks r_i and s_i of
  the two nodes: an equal measurement is never reported, and a difference is hidden when a mask is zero.\<close>

theorem network_measure_correct:
  assumes ok: "p2p_ok who conn y"
    and sys: "fresh_system [''Node1'' \<mapsto> network_measure A ''Node1'' r fx, ''Node2'' \<mapsto> network_measure B ''Node2'' s fy] y"
    and ser: "bfv_serial_ok A A" "bfv_serial_ok A B" "bfv_serial_ok B A" "bfv_serial_ok B B"
    and joint: "bfv_joint_ok A B (ctx1 A) (ctx2 A B) p enc"
    and cts: "prepared A (ctx1 A) (joint_keys A B (ctx1 A) (ctx2 A B)) r fx = Inr m1"
      "prepared B (ctx2 A B) (joint_keys A B (ctx1 A) (ctx2 A B)) s fy = Inr m2"
    and conn: "conn ''Node1'' ''Node2''" "conn ''Node2'' ''Node1''"
    and reach: "p2p_reach who y u"
  shows "\<exists>z. p2p_reach who u z \<and> (\<forall>i \<in> {''Node1'', ''Node2''}.
    programs z i = Some (NRet (Inr (differ p (read_ints fx) (read_ints fy) r s))))"
proof -
  let ?c = "ctx1 A" and ?d = "ctx2 A B"
  define J where "J = joint_keys A B ?c ?d"
  define c1 where "c1 = m_InsertEvalMultKey A ?c [j_ek J]"
  define c2 where "c2 = m_InsertEvalMultKey B ?d [j_ek J]"
  obtain ct1 e1 ct2 e2 where m: "m1 = (ct1, e1)" "m2 = (ct2, e2)" by (metis surj_pair)
  have cts1: "masked_cts A c1 (j_pk J) r (read_ints fx) = Inr (ct1, e1)"
    and cts2: "masked_cts B c2 (j_pk J) s (read_ints fy) = Inr (ct2, e2)"
    using cts by (simp_all add: prepared_def J_def c1_def c2_def m)
  have jo: "0 < p" "m_PlaintextModulus A c1 = p" "m_PlaintextModulus B c2 = p" "bfv_eval_ok A c1 (j_pk J) enc"
    "bfv_eval_ok B c2 (j_pk J) enc" "m_EvalMult A c1 = m_EvalMult B c2" "m_EvalSub A c1 = m_EvalSub B c2"
    and dec: "\<And>ct u. enc ct u \<Longrightarrow> \<exists>a b. m_MultipartyDecryptLead A c1 [ct] (j_sk1 J) = [a]
           \<and> m_MultipartyDecryptMain B c2 [ct] (j_sk2 J) = [b]
           \<and> (\<forall>v \<in> {m_GetPackedValue A 12 (m_MultipartyDecryptFusion A c1 [a, b]),
                 m_GetPackedValue B 12 (m_MultipartyDecryptFusion B c2 [a, b])}.
               length v = 12 \<and> (\<forall>i < 12. \<bar>v ! i\<bar> < int p \<and> int p dvd v ! i - u i))"
    using joint by (auto simp: bfv_joint_ok_def Let_def J_def c1_def c2_def)
  obtain u1 w1 u2 w2 where e: "enc ct1 u1" "enc e1 w1" "enc ct2 u2" "enc e2 w2"
    and u: "\<And>i. i < 12 \<Longrightarrow> u1 i = (read_ints fx ! i * int (r i mod p)) smod int p \<and> w1 i = int (r i mod p)"
      "\<And>i. i < 12 \<Longrightarrow> u2 i = (read_ints fy ! i * int (s i mod p)) smod int p \<and> w2 i = int (s i mod p)"
    using masked_cts_Inr [OF cts1 jo(4,2)] masked_cts_Inr [OF cts2 jo(5,3)] by metis
  let ?res = "m_EvalSub A c1 (m_EvalMult A c1 ct1 e2) (m_EvalMult A c1 ct2 e1)"
  have "enc ?res (\<lambda>i. u1 i * w2 i - u2 i * w1 i)" using jo(4) e by (simp add: bfv_eval_ok_def)
  from dec [OF this] obtain a b where ab: "m_MultipartyDecryptLead A c1 [?res] (j_sk1 J) = [a]"
      "m_MultipartyDecryptMain B c2 [?res] (j_sk2 J) = [b]"
    and v: "\<And>v. v \<in> {m_GetPackedValue A 12 (m_MultipartyDecryptFusion A c1 [a, b]),
                 m_GetPackedValue B 12 (m_MultipartyDecryptFusion B c2 [a, b])} \<Longrightarrow>
               length v = 12 \<and> (\<forall>i < 12. \<bar>v ! i\<bar> < int p \<and> int p dvd v ! i - (u1 i * w2 i - u2 i * w1 i))"
    by blast
  have D: "differences v [0..<12] = Inr (differ p (read_ints fx) (read_ints fy) r s)"
    if "v \<in> {m_GetPackedValue A 12 (m_MultipartyDecryptFusion A c1 [a, b]),
                 m_GetPackedValue B 12 (m_MultipartyDecryptFusion B c2 [a, b])}" for v
    using v [OF that] u jo(1) by (intro differences_differ) auto
  note f1 = node1_follows [of ?c A B ?d r fx ct1 e1 e2 ct2 a b, folded J_def, folded c1_def, OF _ ser(1,3) cts1 ab(1)]
  note f2 = node2_follows [of ?d B ?c A s fy ct2 e2 ct1 e1 b a, folded J_def, folded c2_def, OF _ ser(4,2) cts2]
  have D12: "differences (m_GetPackedValue A 12 (m_MultipartyDecryptFusion A c1 [a, b])) [0..<12] = Inr (differ p (read_ints fx) (read_ints fy) r s)"
    "differences (m_GetPackedValue B 12 (m_MultipartyDecryptFusion B c2 [a, b])) [0..<12] = Inr (differ p (read_ints fx) (read_ints fy) r s)"
    by (rule D, simp)+
  have main2: "m_MultipartyDecryptMain B c2 [m_EvalSub B c2 (m_EvalMult B c2 ct1 e2) (m_EvalMult B c2 ct2 e1)] (j_sk2 J) = [b]"
    using ab(2) unfolding jo(6,7) .
  note f1' = f1 [OF ctx1_def, unfolded D12] and f2' = f2 [OF ctx2_def main2, unfolded D12]
  show ?thesis
    using two_nodes_outcome [OF ok sys network_measure_patient network_measure_patient f1' f2' measure_play [OF conn] reach] by simp
qed

section \<open>A concrete instance\<close>

definition toy_bfv :: "(nat, nat, nat, nat, nat list, int list) bfv_lib" where
  \<comment> \<open>a ciphertext is the list of its twelve slots\<close>
  "toy_bfv = \<lparr> m_GenCryptoContext = (\<lambda>_. 0),
     m_ser_cc = (\<lambda>n. enc_nats [n]), m_deser_cc = (\<lambda>s. Inr (hd (dec_nats s))),
     m_ser_pk = (\<lambda>n. enc_nats [n]), m_deser_pk = (\<lambda>s. Inr (hd (dec_nats s))),
     m_ser_ek = (\<lambda>n. enc_nats [n]), m_deser_ek = (\<lambda>s. Inr (hd (dec_nats s))),
     m_ser_ct = (\<lambda>ns. enc_nats (0 # ns)), m_deser_ct = (\<lambda>s. Inr (tl (dec_nats s))),
     m_ClearKeys = (\<lambda>c. c), m_KeyGen = (\<lambda>_. (1, 1)), m_MultipartyKeyGen = (\<lambda>_ _. (2, 2)), m_KeyTag = (\<lambda>_. []),
     m_KeySwitchGen = (\<lambda>_ _ _. 3), m_MultiKeySwitchGen = (\<lambda>_ _ _ _. 4), m_MultiAddEvalKeys = (\<lambda>_ _ _ _. 5),
     m_MultiMultEvalKey = (\<lambda>_ _ _ _. 6), m_MultiAddEvalMultKeys = (\<lambda>_ _ _ _. 7), m_InsertEvalMultKey = (\<lambda>c _. c),
     m_PlaintextModulus = (\<lambda>_. 65537), m_MakePackedPlaintext = (\<lambda>_ v. Inr v),
     m_Encrypt = (\<lambda>_ _ v. map (\<lambda>i. nat ((if i < length v then v ! i else 0) mod 65537)) [0..<12]),
     m_EvalMult = (\<lambda>_ a b. map (\<lambda>i. a ! i * b ! i mod 65537) [0..<12]),
     m_EvalSub = (\<lambda>_ a b. map (\<lambda>i. nat ((int (a ! i) - int (b ! i)) mod 65537)) [0..<12]),
     m_MultipartyDecryptLead = (\<lambda>_ cts _. cts), m_MultipartyDecryptMain = (\<lambda>_ cts _. cts),
     m_MultipartyDecryptFusion = (\<lambda>_ cts. case cts of [] \<Rightarrow> [] | ct # _ \<Rightarrow> map int ct),
     m_GetPackedValue = take \<rparr>"

definition toy_slots :: "nat list meaning" where
  "toy_slots ct u \<longleftrightarrow> ct = map (\<lambda>i. nat (u i mod 65537)) [0..<12]"

lemma toy_bfv_serial: "bfv_serial_ok toy_bfv toy_bfv"
  by (simp add: bfv_serial_ok_def toy_bfv_def)

lemma toy_eval: "bfv_eval_ok toy_bfv c pk toy_slots"
proof -
  have m: "nat (u mod 65537) * nat (w mod 65537) mod 65537 = nat (u * w mod 65537)" for u w :: int
  proof -
    have "int (nat (u mod 65537) * nat (w mod 65537) mod 65537) = int (nat (u * w mod 65537))"
      by (simp add: of_nat_mod mod_mult_eq)
    then show ?thesis by (simp only: of_nat_eq_iff)
  qed
  have s: "(u mod 65537 - w mod 65537) mod 65537 = (u - w) mod 65537" for u w :: int by (rule mod_diff_eq)
  show ?thesis by (auto simp: bfv_eval_ok_def toy_bfv_def toy_slots_def m s simp del: upt_Suc)
qed

lemma toy_joint: "bfv_joint_ok toy_bfv toy_bfv c d 65537 toy_slots"
proof -
  have "length v = 12 \<and> (\<forall>i < 12. \<bar>v ! i\<bar> < 65537 \<and> 65537 dvd v ! i - u i)"
    if "v = map int (map (\<lambda>i. nat (u i mod 65537)) [0..<12])" for v u
    using that by (simp del: upt_Suc) (metis dvd_minus_mod dvd_diff_commute)
  then show ?thesis
    by (auto simp: bfv_joint_ok_def Let_def toy_eval) (simp_all add: toy_bfv_def toy_slots_def del: upt_Suc)
qed

definition toy_masks :: "nat \<Rightarrow> nat" where
  \<comment> \<open>the first random number is a multiple of the modulus\<close>
  "toy_masks i = (if i = 0 then 65537 else 2)"

definition file_x :: string where "file_x = ''1 2 3 4 5 6 7 8 9 8 7 -6''"
definition file_y :: string where "file_y = ''9 2 3 5 5 6 7 8 9 8 7 -6''"

lemma files_read: "read_ints file_x = [1, 2, 3, 4, 5, 6, 7, 8, 9, 8, 7, -6]" "read_ints file_y = [9, 2, 3, 5, 5, 6, 7, 8, 9, 8, 7, -6]"
  by code_simp+

lemma toy_prepared:
  assumes "read_ints f = v" "length v = 12" "\<forall>x \<in> set v. \<bar>x\<bar> < 10"
  shows "\<exists>m. prepared toy_bfv c J toy_masks f = Inr m"
proof -
  have "int64_ok (v ! i * int (toy_masks i mod 65537))" if "i < 12" for i
  proof -
    have "\<bar>v ! i\<bar> < 10" using assms that by simp
    then show ?thesis by (auto simp: int64_ok_def toy_masks_def)
  qed
  then have "mask_loop 65537 v toy_masks [0..<12] = Inr (map (\<lambda>i. int (toy_masks i mod 65537)) [0..<12],
      map (\<lambda>i. (v ! i * int (toy_masks i mod 65537)) smod int 65537) [0..<12])"
    by (intro mask_loop_ok) (use assms(2) in auto)
  then show ?thesis by (simp add: prepared_def masked_cts_def assms(1) toy_bfv_def del: upt_Suc)
qed

lemma toy_differ: "differ 65537 [1, 2, 3, 4, 5, 6, 7, 8, 9, 8, 7, -6] [9, 2, 3, 5, 5, 6, 7, 8, 9, 8, 7, -6] toy_masks toy_masks = [3]"
  unfolding differ_def by (simp add: upt_rec toy_masks_def)

lemma network_measure_correct_witness:
  "\<exists>z. p2p_reach pair_who (pair_system (network_measure toy_bfv ''Node1'' toy_masks file_x)
       (network_measure toy_bfv ''Node2'' toy_masks file_y)) z
     \<and> (\<forall>i \<in> {''Node1'', ''Node2''}. programs z i = Some (NRet (Inr [3])))"
proof -
  let ?y = "pair_system (network_measure toy_bfv ''Node1'' toy_masks file_x) (network_measure toy_bfv ''Node2'' toy_masks file_y)"
  let ?J = "joint_keys toy_bfv toy_bfv (ctx1 toy_bfv) (ctx2 toy_bfv toy_bfv)"
  have sys: "fresh_system [''Node1'' \<mapsto> network_measure toy_bfv ''Node1'' toy_masks file_x,
      ''Node2'' \<mapsto> network_measure toy_bfv ''Node2'' toy_masks file_y] ?y"
    by (simp add: fresh_system_def pair_system_def node0_def smap_get_def tsqueue0_def)
  obtain m1 m2 where m: "prepared toy_bfv (ctx1 toy_bfv) ?J toy_masks file_x = Inr m1"
    "prepared toy_bfv (ctx2 toy_bfv toy_bfv) ?J toy_masks file_y = Inr m2"
    using toy_prepared [OF files_read(1), of "ctx1 toy_bfv" ?J] toy_prepared [OF files_read(2), of "ctx2 toy_bfv toy_bfv" ?J] by auto
  have "p2p_reach pair_who ?y ?y" by (simp add: p2p_reach_def)
  from network_measure_correct [OF pair_system_ok sys toy_bfv_serial toy_bfv_serial toy_bfv_serial toy_bfv_serial
      toy_joint m pair_conn_simps this]
  show ?thesis by (simp add: files_read toy_differ)
qed

end
