(* ===== verification/Measure_Controller.thy ===== *)
theory Measure_Controller
  imports Measure_Main
begin

text \<open>
  \<^verbatim>\<open>network_measure_with_controller.cpp\<close> and \<^verbatim>\<open>controller_network_measure.cpp\<close>: the comparison of two nodes with a third
  program, the controller, which generates the context and masks both ciphertexts with the same random vector. The phases of
  both \<^verbatim>\<open>main\<close> functions are definitions; what the files share with \<^verbatim>\<open>network_measure.cpp\<close>, word for word, is
  that file's definition. A node's result is the list of the indices at which it reports a difference.
\<close>

section \<open>The nodes\<close>

definition controllerNode :: string where "controllerNode = ''Controller''"

definition cm_context :: "('cc, 'pk, 'sk, 'ek, 'ct, 'pt) bfv_lib \<Rightarrow> 'cc nprog" where
  "cm_context L = nbind (n_getSerialMsgWait (m_deser_cc L) ''cryptocontext'' controllerNode) (\<lambda>c. nret (m_ClearKeys L c))"

definition cm_pubkey :: "('cc, 'pk, 'sk, 'ek, 'ct, 'pt) bfv_lib \<Rightarrow> string \<Rightarrow> 'cc \<Rightarrow> (('pk \<times> 'sk) \<times> 'pk) nprog" where
  \<comment> \<open>as measure_pubkey, and Node2 sends the final key to the controller\<close>
  "cm_pubkey L me c =
     nbind (if me = startNode then nret (m_KeyGen L c)
            else nbind (n_getSerialMsgWait (m_deser_pk L) ''PublicKey'' (other_node me)) (\<lambda>prevPubKey.
                 nret (m_MultipartyKeyGen L c prevPubKey))) (\<lambda>keyPair.
     nbind (n_sendSerialMsg (m_ser_pk L) (fst keyPair) ''PublicKey'' (other_node me)) (\<lambda>_.
     if me \<noteq> ''Node2''
     then nbind (n_getSerialMsgWait (m_deser_pk L) ''PublicKey'' (other_node me)) (\<lambda>FinalPubKey.
          nret (keyPair, FinalPubKey))
     else nbind (n_sendSerialMsg (m_ser_pk L) (fst keyPair) ''public key'' controllerNode) (\<lambda>_.
          nret (keyPair, fst keyPair))))"

definition cm_evalmult_backward ::
  "('cc, 'pk, 'sk, 'ek, 'ct, 'pt) bfv_lib \<Rightarrow> string \<Rightarrow> 'cc \<Rightarrow> 'pk \<times> 'sk \<Rightarrow> 'pk \<Rightarrow> 'cc nprog" where
  \<comment> \<open>as evalmult_backward, and Node1 sends the final key to the controller\<close>
  "cm_evalmult_backward L me c keyPair FinalPubKey =
     (if me \<noteq> nextNode
      then nbind (n_getSerialMsgWait (m_deser_ek L) ''evalmultkey'' (other_node me)) (\<lambda>evalMultAll.
           nbind (n_getSerialMsgWait (m_deser_ek L) ''evalmixmultkey'' (other_node me)) (\<lambda>PrevevalMixMultKey.
           let evalMultKeyskAll = m_MultiMultEvalKey L c (snd keyPair) evalMultAll (m_KeyTag L FinalPubKey);
               evalMultAddskAll = m_MultiAddEvalMultKeys L c evalMultKeyskAll PrevevalMixMultKey (m_KeyTag L FinalPubKey)
           in nbind (n_sendSerialMsg (m_ser_ek L) evalMultAddskAll ''evalmixmultkey'' (other_node me)) (\<lambda>_.
              if me = startNode
              then nbind (n_sendSerialMsg (m_ser_ek L) evalMultAddskAll ''evalmixmultkey'' controllerNode) (\<lambda>_.
                   nret (m_InsertEvalMultKey L c [evalMultAddskAll]))
              else nret c)))
      else nret c)"

definition cm_evalmult ::
  "('cc, 'pk, 'sk, 'ek, 'ct, 'pt) bfv_lib \<Rightarrow> string \<Rightarrow> 'cc \<Rightarrow> 'pk \<times> 'sk \<Rightarrow> 'pk \<Rightarrow> 'cc nprog" where
  \<comment> \<open>the direction Node1, Node2 is that of network_measure\<close>
  "cm_evalmult L me c keyPair FinalPubKey =
     nbind (evalmult_forward L me c keyPair FinalPubKey) (\<lambda>_.
     nbind (cm_evalmult_backward L me c keyPair FinalPubKey) (\<lambda>c'.
     if me \<noteq> startNode
     then nbind (n_getSerialMsgWait (m_deser_ek L) ''evalmixmultkey'' (other_node me)) (\<lambda>evalMultFinal.
          nret (m_InsertEvalMultKey L c' [evalMultFinal]))
     else nret c'))"

definition cm_exchange ::
  "('cc, 'pk, 'sk, 'ek, 'ct, 'pt) bfv_lib \<Rightarrow> string \<Rightarrow> 'cc \<Rightarrow> 'pk \<Rightarrow> string \<Rightarrow> ('ct \<times> 'ct) nprog" where
  \<comment> \<open>the ciphertext goes to the controller, its product with the mask to the other node\<close>
  "cm_exchange L me c FinalPubKey inputfile =
     nbind (n_lift (m_MakePackedPlaintext L c (read_ints inputfile))) (\<lambda>pt.
     nbind (n_sendSerialMsg (m_ser_ct L) (m_Encrypt L c FinalPubKey pt) ''ciphertext'' controllerNode) (\<lambda>_.
     nbind (n_getSerialMsgWait (m_deser_ct L) ''randomized ciphertext'' controllerNode) (\<lambda>randomizedCT.
     nbind (n_sendSerialMsg (m_ser_ct L) randomizedCT ''randomized ciphertext'' (other_node me)) (\<lambda>_.
     nbind (n_getSerialMsgWait (m_deser_ct L) ''randomized ciphertext'' (other_node me)) (\<lambda>otherclientCT.
       nret (randomizedCT, otherclientCT))))))"

definition cm_decrypt :: "('cc, 'pk, 'sk, 'ek, 'ct, 'pt) bfv_lib \<Rightarrow> string \<Rightarrow> 'cc \<Rightarrow> 'sk \<Rightarrow> 'ct \<times> 'ct \<Rightarrow> nat list nprog" where
  \<comment> \<open>the difference of the products, decrypted and compared as in network_measure\<close>
  "cm_decrypt L me c sk cts = (case cts of (randomizedCT, otherclientCT) \<Rightarrow>
     measure_decrypt L me c sk (if me = startNode then m_EvalSub L c randomizedCT otherclientCT
                                else m_EvalSub L c otherclientCT randomizedCT))"

definition measure_with_controller ::
  "('cc, 'pk, 'sk, 'ek, 'ct, 'pt) bfv_lib \<Rightarrow> string \<Rightarrow> string \<Rightarrow> nat list nprog" where
  "measure_with_controller L me inputfile =
     nbind (cm_context L) (\<lambda>c.
     nbind (cm_pubkey L me c) (\<lambda>(keyPair, FinalPubKey).
     nbind (cm_evalmult L me c keyPair FinalPubKey) (\<lambda>c'.
     nbind (cm_exchange L me c' FinalPubKey inputfile) (\<lambda>cts.
       cm_decrypt L me c' (snd keyPair) cts))))"

section \<open>The controller\<close>

definition controller_keys :: "('cc, 'pk, 'sk, 'ek, 'ct, 'pt) bfv_lib \<Rightarrow> 'cc \<Rightarrow> ('cc \<times> 'pk) nprog" where
  \<comment> \<open>the final keys of the nodes: the context with the evaluation key, and the public key\<close>
  "controller_keys L c =
     nbind (n_getSerialMsgWait (m_deser_pk L) ''PublicKey'' ''Node2'') (\<lambda>FinalPubKey.
     nbind (n_getSerialMsgWait (m_deser_ek L) ''evalmixmultkey'' ''Node1'') (\<lambda>evalMultFinal.
       nret (m_InsertEvalMultKey L c [evalMultFinal], FinalPubKey)))"

definition controller_mask :: "(nat \<Rightarrow> nat) \<Rightarrow> int list" where
  \<comment> \<open>random_rvec, std::rand() % plaintextModulus twelve times\<close>
  "controller_mask rand = map (\<lambda>i. int (rand i mod 65537)) [0..<12]"

definition controller_measure :: "('cc, 'pk, 'sk, 'ek, 'ct, 'pt) bfv_lib \<Rightarrow> (nat \<Rightarrow> nat) \<Rightarrow> unit nprog" where
  "controller_measure L rand =
     (let c = m_GenCryptoContext L measure_params in
      nbind (n_sendSerialMsg (m_ser_cc L) c ''cryptocontext'' ''Node1'') (\<lambda>_.
      nbind (n_sendSerialMsg (m_ser_cc L) c ''cryptocontext'' ''Node2'') (\<lambda>_.
      nbind (controller_keys L c) (\<lambda>(c', FinalPubKey).
      nbind (n_lift (m_MakePackedPlaintext L c' (controller_mask rand))) (\<lambda>plainrandom_r.
      let encryptedrandom_r = m_Encrypt L c' FinalPubKey plainrandom_r in
      nbind (n_getSerialMsgWait (m_deser_ct L) ''ciphertext'' ''Node1'') (\<lambda>ctA.
      nbind (n_sendSerialMsg (m_ser_ct L) (m_EvalMult L c' encryptedrandom_r ctA) ''randomized ciphertext'' ''Node1'') (\<lambda>_.
      nbind (n_getSerialMsgWait (m_deser_ct L) ''ciphertext'' ''Node2'') (\<lambda>ctB.
        n_sendSerialMsg (m_ser_ct L) (m_EvalMult L c' encryptedrandom_r ctB) ''randomized ciphertext'' ''Node2''))))))))"

end
