(* ===== verification/Measure_Controller_Correct.thy ===== *)
theory Measure_Controller_Correct
  imports Measure_Controller Measure_Correct
begin

text \<open>
  The controller and two nodes comparing their measurements, in any interleaving: all three end, and both nodes report
  a difference exactly where the product of the difference and the controller's mask is not zero modulo the
  plaintext modulus. The keys are those of \<open>joint_keys\<close>; beyond \<open>bfv_joint_ok\<close> the
  controller is to evaluate under them too.
\<close>

section \<open>Events\<close>

definition cm_names :: "nat \<Rightarrow> string" where
  "cm_names i = [''Controller'', ''Node1'', ''Node2''] ! i"

definition cm_codes :: "coded_io list list" where
  \<comment> \<open>who sends what to whom, by the numbers of the programs and messages\<close>
  "cm_codes =
    [[NOut 1 0, NOut 2 1, NIn 2 4, NIn 1 9, NIn 1 10, NOut 1 12, NIn 2 11, NOut 2 13],
     [NIn 0 0, NOut 2 2, NIn 2 3, NOut 2 5, NIn 2 6, NIn 2 7, NOut 2 8, NOut 0 9, NOut 0 10, NIn 0 12, NOut 2 14, NIn 2 15, NOut 2 16, NIn 2 17],
     [NIn 0 1, NIn 1 2, NOut 1 3, NOut 0 4, NIn 1 5, NOut 1 6, NOut 1 7, NIn 1 8, NOut 0 11, NIn 0 13, NOut 1 15, NIn 1 14, NOut 1 17, NIn 1 16]]"

definition cm_schedule :: "nat list" where
  "cm_schedule = [0, 0, 1, 1, 2, 2, 2, 2, 1, 1, 2, 2, 2, 1, 1, 1, 1, 1, 2, 2, 0, 0, 0, 0, 0, 0, 1, 1, 2, 2, 2, 2, 1, 1, 1, 2]"

definition cm_messages ::
  "('cc, 'pk, 'sk, 'ek, 'ct, 'pt) bfv_lib \<Rightarrow> ('cc, 'pk, 'sk, 'ek, 'ct, 'pt) bfv_lib \<Rightarrow> ('cc, 'pk, 'sk, 'ek, 'ct, 'pt) bfv_lib
   \<Rightarrow> 'cc \<Rightarrow> ('cc, 'pk, 'sk, 'ek) joint \<Rightarrow> (nat \<Rightarrow> 'ct) \<Rightarrow> (nat \<Rightarrow> 'ct) \<Rightarrow> (nat \<Rightarrow> 'ct) \<Rightarrow> message_format list" where
  \<comment> \<open>of node j: x j is the ciphertext, m j its product with the mask, a j the partial decryption\<close>
  "cm_messages C A B c0 J x m a =
    [msg ''Controller'' ''cryptocontext'' (m_ser_cc C c0),
     msg ''Controller'' ''cryptocontext'' (m_ser_cc C c0),
     msg ''Node1'' ''PublicKey'' (m_ser_pk A (j_pk1 J)),
     msg ''Node2'' ''PublicKey'' (m_ser_pk B (j_pk J)),
     msg ''Node2'' ''public key'' (m_ser_pk B (j_pk J)),
     msg ''Node1'' ''evalmultkey'' (m_ser_ek A (j_em1 J)),
     msg ''Node2'' ''evalmultkey'' (m_ser_ek B (j_em2 J)),
     msg ''Node2'' ''evalmixmultkey'' (m_ser_ek B (j_mix J)),
     msg ''Node1'' ''evalmixmultkey'' (m_ser_ek A (j_ek J)),
     msg ''Node1'' ''evalmixmultkey'' (m_ser_ek A (j_ek J)),
     msg ''Node1'' ''ciphertext'' (m_ser_ct A (x 1)),
     msg ''Node2'' ''ciphertext'' (m_ser_ct B (x 2)),
     msg ''Controller'' ''randomized ciphertext'' (m_ser_ct C (m 1)),
     msg ''Controller'' ''randomized ciphertext'' (m_ser_ct C (m 2)),
     msg ''Node1'' ''randomized ciphertext'' (m_ser_ct A (m 1)),
     msg ''Node2'' ''randomized ciphertext'' (m_ser_ct B (m 2)),
     msg ''Node1'' ''partialct'' (m_ser_ct A (a 1)),
     msg ''Node2'' ''partialct'' (m_ser_ct B (a 2))]"

definition cm_events ::
  "('cc, 'pk, 'sk, 'ek, 'ct, 'pt) bfv_lib \<Rightarrow> ('cc, 'pk, 'sk, 'ek, 'ct, 'pt) bfv_lib \<Rightarrow> ('cc, 'pk, 'sk, 'ek, 'ct, 'pt) bfv_lib
   \<Rightarrow> 'cc \<Rightarrow> ('cc, 'pk, 'sk, 'ek) joint \<Rightarrow> (nat \<Rightarrow> 'ct) \<Rightarrow> (nat \<Rightarrow> 'ct) \<Rightarrow> (nat \<Rightarrow> 'ct) \<Rightarrow> string \<Rightarrow> io list" where
  "cm_events C A B c0 J x m a = coded_events cm_names ((!) (cm_messages C A B c0 J x m a)) cm_codes"

definition cm_connected :: "(string \<Rightarrow> string \<Rightarrow> bool) \<Rightarrow> bool" where
  "cm_connected conn \<longleftrightarrow> (\<forall>i \<in> {''Controller'', ''Node1'', ''Node2''}. \<forall>j \<in> {''Controller'', ''Node1'', ''Node2''}. i \<noteq> j \<longrightarrow> conn i j)"

lemma cm_names_simps [simp]: "cm_names 0 = ''Controller''" "cm_names (Suc 0) = ''Node1''" "cm_names 1 = ''Node1''" "cm_names 2 = ''Node2''"
  by (simp_all add: cm_names_def)

lemma cm_play:
  assumes "cm_connected conn"
  shows "\<exists>T' c'. play conn (map cm_names cm_schedule) (cm_events C A B c0 J x m a) (\<lambda>_ _. []) = Some (T', c')
    \<and> (\<forall>i. T' i = []) \<and> (\<forall>i s. c' i s = [])"
  unfolding cm_events_def
proof (rule sim_runs)
  show "sim cm_schedule cm_codes (replicate 3 (replicate 3 []))" by code_simp
  have "links_used cm_codes = [(0, 1), (0, 2), (1, 0), (1, 2), (2, 0), (2, 1)]" by code_simp
  then show "\<forall>(i, t) \<in> set (links_used cm_codes). conn (cm_names i) (cm_names t)"
    using assms by (simp add: cm_connected_def)
  have "{..<3 :: nat} = {0, 1, 2}" by auto
  then show "inj_on cm_names {..<3}" by simp
qed (simp add: cm_codes_def)

section \<open>The programs follow their events\<close>

type_synonym ('cc, 'pk, 'sk, 'ek, 'ct, 'pt) three_libs =
  "('cc, 'pk, 'sk, 'ek, 'ct, 'pt) bfv_lib \<times> ('cc, 'pk, 'sk, 'ek, 'ct, 'pt) bfv_lib \<times> ('cc, 'pk, 'sk, 'ek, 'ct, 'pt) bfv_lib"
  \<comment> \<open>the library of the controller and of both nodes\<close>

definition cm_serial_ok :: "('cc, 'pk, 'sk, 'ek, 'ct, 'pt) three_libs \<Rightarrow> bool" where
  "cm_serial_ok S = (case S of (C, A, B) \<Rightarrow> \<forall>K \<in> {C, A, B}. \<forall>L \<in> {C, A, B}. bfv_serial_ok K L)"

lemma cm_serialD:
  assumes "cm_serial_ok (C, A, B)" "K \<in> {C, A, B}"
  shows "m_ser_cc K u \<noteq> []" "m_ser_pk K x \<noteq> []" "m_ser_ek K y \<noteq> []" "m_ser_ct K z \<noteq> []"
    "L \<in> {C, A, B} \<Longrightarrow> m_deser_cc L (m_ser_cc K u) = Inr u" "L \<in> {C, A, B} \<Longrightarrow> m_deser_pk L (m_ser_pk K x) = Inr x"
    "L \<in> {C, A, B} \<Longrightarrow> m_deser_ek L (m_ser_ek K y) = Inr y" "L \<in> {C, A, B} \<Longrightarrow> m_deser_ct L (m_ser_ct K z) = Inr z"
proof -
  have "bfv_serial_ok K L" if "L \<in> {C, A, B}" for L using assms that unfolding cm_serial_ok_def by blast
  then show "m_ser_cc K u \<noteq> []" "m_ser_pk K x \<noteq> []" "m_ser_ek K y \<noteq> []" "m_ser_ct K z \<noteq> []"
    "L \<in> {C, A, B} \<Longrightarrow> m_deser_cc L (m_ser_cc K u) = Inr u" "L \<in> {C, A, B} \<Longrightarrow> m_deser_pk L (m_ser_pk K x) = Inr x"
    "L \<in> {C, A, B} \<Longrightarrow> m_deser_ek L (m_ser_ek K y) = Inr y" "L \<in> {C, A, B} \<Longrightarrow> m_deser_ct L (m_ser_ct K z) = Inr z"
    using assms(2) by (auto simp: bfv_serial_ok_def)
qed

lemma cm_controller_follows:
  fixes C A B J defines "c0 \<equiv> m_GenCryptoContext C measure_params" and "c' \<equiv> m_InsertEvalMultKey C (m_GenCryptoContext C measure_params) [j_ek J]"
  assumes ser: "cm_serial_ok (C, A, B)"
    and mask: "m_MakePackedPlaintext C c' (controller_mask r) = Inr pt" "e = m_Encrypt C c' (j_pk J) pt"
    and m: "\<And>j. m j = m_EvalMult C c' e (x j)"
  shows "follows ''Controller'' (nbind (controller_measure C r) (\<lambda>_. nret [])) (cm_events C A B c0 J x m a ''Controller'')
    (NRet (Inr ([] :: nat list)))"
proof -
  have ev: "cm_events C A B c0 J x m a ''Controller'' = map (decoded cm_names ((!) (cm_messages C A B c0 J x m a))) (cm_codes ! 0)"
    by (simp add: cm_events_def coded_events_def cm_codes_def cm_names_def)
  show ?thesis
    unfolding controller_measure_def controller_keys_def ev
    using mask by (simp add: cm_codes_def cm_messages_def Let_def nbind_assoc follows_put follows_get follows_nret cm_serialD [OF ser]
      c0_def [symmetric] c'_def [unfolded c0_def [symmetric], symmetric] m)
qed

lemma cm_node1_follows:
  fixes C A B c d defines "J \<equiv> joint_keys A B c d" and "c1 \<equiv> m_InsertEvalMultKey A c [j_ek (joint_keys A B c d)]"
  assumes c: "c = m_ClearKeys A c0" and ser: "cm_serial_ok (C, A, B)"
    and x: "m_MakePackedPlaintext A c1 (read_ints f) = Inr pt" "x 1 = m_Encrypt A c1 (j_pk J) pt"
    and partial: "m_MultipartyDecryptLead A c1 [m_EvalSub A c1 (m 1) (m 2)] (j_sk1 J) = [a 1]"
  shows "follows ''Node1'' (measure_with_controller A ''Node1'' f) (cm_events C A B c0 J x m a ''Node1'')
   (NRet (differences (m_GetPackedValue A 12 (m_MultipartyDecryptFusion A c1 [a 1, a 2])) [0..<12]))"
proof -
  note K = joint_keys_simps [where A = A and B = B and c = c and d = d, folded J_def]
  have c1: "c1 = m_InsertEvalMultKey A c [j_ek J]" by (simp add: c1_def J_def)
  have ev: "cm_events C A B c0 J x m a ''Node1'' = map (decoded cm_names ((!) (cm_messages C A B c0 J x m a))) (cm_codes ! 1)"
    by (simp add: cm_events_def coded_events_def cm_codes_def cm_names_def)
  show ?thesis
    unfolding measure_with_controller_def cm_context_def cm_pubkey_def cm_evalmult_def evalmult_forward_def
      cm_evalmult_backward_def cm_exchange_def cm_decrypt_def measure_decrypt_def ev
    using x partial
    by (simp add: names controllerNode_def cm_codes_def cm_messages_def c [symmetric] K nbind_assoc Let_def c1 [symmetric] cm_serialD [OF ser]
       follows_put follows_get follows_here n_lift_def [of "differences v is" for v "is"])
qed

lemma cm_node2_follows:
  fixes C A B c d defines "J \<equiv> joint_keys A B c d" and "c2 \<equiv> m_InsertEvalMultKey B d [j_ek (joint_keys A B c d)]"
  assumes d: "d = m_ClearKeys B c0" and ser: "cm_serial_ok (C, A, B)"
    and x: "m_MakePackedPlaintext B c2 (read_ints f) = Inr pt" "x 2 = m_Encrypt B c2 (j_pk J) pt"
    and partial: "m_MultipartyDecryptMain B c2 [m_EvalSub B c2 (m 1) (m 2)] (j_sk2 J) = [a 2]"
  shows "follows ''Node2'' (measure_with_controller B ''Node2'' f) (cm_events C A B c0 J x m a ''Node2'')
   (NRet (differences (m_GetPackedValue B 12 (m_MultipartyDecryptFusion B c2 [a 1, a 2])) [0..<12]))"
proof -
  note K = joint_keys_simps [where A = A and B = B and c = c and d = d, folded J_def]
  have c2: "c2 = m_InsertEvalMultKey B d [j_ek J]" by (simp add: c2_def J_def)
  have ev: "cm_events C A B c0 J x m a ''Node2'' = map (decoded cm_names ((!) (cm_messages C A B c0 J x m a))) (cm_codes ! 2)"
    by (simp add: cm_events_def coded_events_def cm_codes_def cm_names_def)
  show ?thesis
    unfolding measure_with_controller_def cm_context_def cm_pubkey_def cm_evalmult_def evalmult_forward_def
      cm_evalmult_backward_def cm_exchange_def cm_decrypt_def measure_decrypt_def ev
    using x partial
    by (simp add: names controllerNode_def cm_codes_def cm_messages_def d [symmetric] K nbind_assoc Let_def c2 [symmetric] cm_serialD [OF ser]
       follows_put follows_get follows_here n_lift_def [of "differences v is" for v "is"])
qed

section \<open>All three programs\<close>

lemma cm_patient:
  "patient (measure_with_controller L me f)" "patient (nbind (controller_measure L r) (\<lambda>_. nret x))"
  unfolding measure_with_controller_def cm_context_def cm_pubkey_def cm_evalmult_def evalmult_forward_def
      cm_evalmult_backward_def cm_exchange_def cm_decrypt_def measure_decrypt_def controller_measure_def controller_keys_def Let_def
  by (auto intro!: patient_nbind split: prod.split)

definition cm_programs :: "('cc, 'pk, 'sk, 'ek, 'ct, 'pt) three_libs \<Rightarrow> (nat \<Rightarrow> nat) \<Rightarrow> string \<Rightarrow> string \<Rightarrow> string \<rightharpoonup> nat list nprog" where
  \<comment> \<open>the controller reports nothing\<close>
  "cm_programs S r fx fy = (case S of (C, A, B) \<Rightarrow>
     [''Controller'' \<mapsto> nbind (controller_measure C r) (\<lambda>_. nret []),
      ''Node1'' \<mapsto> measure_with_controller A ''Node1'' fx, ''Node2'' \<mapsto> measure_with_controller B ''Node2'' fy])"

definition cm_ctx :: "('cc, 'pk, 'sk, 'ek, 'ct, 'pt) bfv_lib \<Rightarrow> ('cc, 'pk, 'sk, 'ek, 'ct, 'pt) bfv_lib \<Rightarrow> 'cc" where
  \<comment> \<open>the controller's context at a node\<close>
  "cm_ctx C L = m_ClearKeys L (m_GenCryptoContext C measure_params)"

definition cm_joint :: "('cc, 'pk, 'sk, 'ek, 'ct, 'pt) three_libs \<Rightarrow> ('cc, 'pk, 'sk, 'ek) joint" where
  "cm_joint S = (case S of (C, A, B) \<Rightarrow> joint_keys A B (cm_ctx C A) (cm_ctx C B))"

definition cm_scheme_ok :: "('cc, 'pk, 'sk, 'ek, 'ct, 'pt) three_libs \<Rightarrow> 'ct meaning \<Rightarrow> bool" where
  \<comment> \<open>the scheme works under the joint keys of the nodes, at the controller too\<close>
  "cm_scheme_ok S enc = (case S of (C, A, B) \<Rightarrow>
     bfv_joint_ok A B (cm_ctx C A) (cm_ctx C B) 65537 enc
     \<and> bfv_eval_ok C (m_InsertEvalMultKey C (m_GenCryptoContext C measure_params) [j_ek (cm_joint S)]) (j_pk (cm_joint S)) enc)"

definition cm_packs :: "('cc, 'pk, 'sk, 'ek, 'ct, 'pt) three_libs \<Rightarrow> (nat \<Rightarrow> nat) \<Rightarrow> int list \<Rightarrow> int list \<Rightarrow> bool" where
  \<comment> \<open>the measurements and the mask can be encoded\<close>
  "cm_packs S r v w = (case S of (C, A, B) \<Rightarrow> let k = j_ek (cm_joint S) in
     (\<exists>p. m_MakePackedPlaintext C (m_InsertEvalMultKey C (m_GenCryptoContext C measure_params) [k]) (controller_mask r) = Inr p)
   \<and> (\<exists>p. m_MakePackedPlaintext A (m_InsertEvalMultKey A (cm_ctx C A) [k]) v = Inr p)
   \<and> (\<exists>p. m_MakePackedPlaintext B (m_InsertEvalMultKey B (cm_ctx C B) [k]) w = Inr p))"

definition slot :: "int list \<Rightarrow> nat \<Rightarrow> int" where
  \<comment> \<open>a packed plaintext is padded with zeros\<close>
  "slot v i = (if i < length v then v ! i else 0)"

definition cm_differ :: "int list \<Rightarrow> int list \<Rightarrow> (nat \<Rightarrow> nat) \<Rightarrow> nat list" where
  \<comment> \<open>the indices at which the difference, masked by the controller, is not zero modulo the plaintext modulus\<close>
  "cm_differ x y r = filter (\<lambda>i. \<not> 65537 dvd (slot x i - slot y i) * int (r i mod 65537)) [0..<12]"

lemma eval_ok_encrypt:
  assumes "bfv_eval_ok L c pk enc" "m_MakePackedPlaintext L c v = Inr pt"
  shows "enc (m_Encrypt L c pk pt) (slot v)"
proof -
  have "slot v = (\<lambda>i. if i < length v then v ! i else 0)" by (rule ext) (simp add: slot_def)
  then show ?thesis using assms by (simp add: bfv_eval_ok_def)
qed

lemma eval_ok_ops:
  assumes "bfv_eval_ok L c pk enc" "enc a u" "enc b w"
  shows "enc (m_EvalMult L c a b) (\<lambda>i. u i * w i)" "enc (m_EvalSub L c a b) (\<lambda>i. u i - w i)"
  using assms by (simp_all add: bfv_eval_ok_def)

lemma cm_differences:
  assumes "length v = 12"
    and v: "\<And>i. i < 12 \<Longrightarrow> \<bar>v ! i\<bar> < 65537 \<and> 65537 dvd v ! i - (slot (controller_mask r) i * slot x i - slot (controller_mask r) i * slot y i)"
  shows "differences v [0..<12] = Inr (cm_differ x y r)"
proof -
  have "v ! i = 0 \<longleftrightarrow> 65537 dvd (slot x i - slot y i) * int (r i mod 65537)" if "i < 12" for i
  proof -
    have "slot (controller_mask r) i = int (r i mod 65537)" using that by (simp add: slot_def controller_mask_def del: upt_Suc)
    then have "slot (controller_mask r) i * slot x i - slot (controller_mask r) i * slot y i = (slot x i - slot y i) * int (r i mod 65537)"
      by (simp add: algebra_simps del: of_nat_mod)
    then show ?thesis using zero_iff_dvd [of "v ! i" 65537] v [OF that] by (simp del: of_nat_mod)
  qed
  then have "filter (\<lambda>i. v ! i \<noteq> 0) [0..<12] = cm_differ x y r"
    unfolding cm_differ_def by (intro filter_cong) simp_all
  then show ?thesis using differences_eq [of "[0..<12]" v] assms(1) by simp
qed

lemma cm_all_follow:
  assumes ser: "cm_serial_ok (C, A, B)" and scheme: "cm_scheme_ok (C, A, B) enc" and packs: "cm_packs (C, A, B) r (read_ints fx) (read_ints fy)"
  shows "\<exists>x m a. \<forall>i \<in> dom (cm_programs (C, A, B) r fx fy).
    follows i (the (cm_programs (C, A, B) r fx fy i)) (cm_events C A B (m_GenCryptoContext C measure_params) (cm_joint (C, A, B)) x m a i)
      (NRet (Inr (if i = ''Controller'' then [] else cm_differ (read_ints fx) (read_ints fy) r)))"
proof -
  let ?cc = "m_GenCryptoContext C measure_params" and ?c = "cm_ctx C A" and ?d = "cm_ctx C B"
  define J where "J = joint_keys A B ?c ?d"
  define c' where "c' = m_InsertEvalMultKey C ?cc [j_ek J]"
  define c1 where "c1 = m_InsertEvalMultKey A ?c [j_ek J]"
  define c2 where "c2 = m_InsertEvalMultKey B ?d [j_ek J]"
  have J: "cm_joint (C, A, B) = J" by (simp add: cm_joint_def J_def)
  have S: "bfv_joint_ok A B ?c ?d 65537 enc" "bfv_eval_ok C c' (j_pk J) enc"
    using scheme by (simp_all add: cm_scheme_ok_def J c'_def)
  note S' = S(2) S(1) [unfolded bfv_joint_ok_def Let_def, folded J_def, folded c1_def c2_def, unfolded of_nat_numeral]
  have ev: "bfv_eval_ok C c' (j_pk J) enc" "bfv_eval_ok A c1 (j_pk J) enc" "bfv_eval_ok B c2 (j_pk J) enc" "m_EvalSub A c1 = m_EvalSub B c2"
    and dec: "\<And>ct u. enc ct u \<Longrightarrow> \<exists>a b. m_MultipartyDecryptLead A c1 [ct] (j_sk1 J) = [a]
           \<and> m_MultipartyDecryptMain B c2 [ct] (j_sk2 J) = [b]
           \<and> (\<forall>v \<in> {m_GetPackedValue A 12 (m_MultipartyDecryptFusion A c1 [a, b]),
                 m_GetPackedValue B 12 (m_MultipartyDecryptFusion B c2 [a, b])}.
               length v = 12 \<and> (\<forall>i < 12. \<bar>v ! i\<bar> < 65537 \<and> 65537 dvd v ! i - u i))"
    using S' by blast+
  obtain pr px py where pack: "m_MakePackedPlaintext C c' (controller_mask r) = Inr pr"
    "m_MakePackedPlaintext A c1 (read_ints fx) = Inr px" "m_MakePackedPlaintext B c2 (read_ints fy) = Inr py"
    using packs by (auto simp: cm_packs_def Let_def J c'_def c1_def c2_def)
  define e where "e = m_Encrypt C c' (j_pk J) pr"
  define x where "x j = (if j = 1 then m_Encrypt A c1 (j_pk J) px else m_Encrypt B c2 (j_pk J) py)" for j :: nat
  define m where "m j = m_EvalMult C c' e (x j)" for j
  have E: "enc e (slot (controller_mask r))" "enc (x 1) (slot (read_ints fx))" "enc (x 2) (slot (read_ints fy))"
    using eval_ok_encrypt [OF ev(1) pack(1)] eval_ok_encrypt [OF ev(2) pack(2)] eval_ok_encrypt [OF ev(3) pack(3)]
    by (simp_all add: e_def x_def)
  note M = eval_ok_ops(1) [OF ev(1) E(1,2), folded m_def] eval_ok_ops(1) [OF ev(1) E(1,3), folded m_def]
  note diff = eval_ok_ops(2) [OF ev(2) M]
  from dec [OF diff] obtain a1 a2 where partial: "m_MultipartyDecryptLead A c1 [m_EvalSub A c1 (m 1) (m 2)] (j_sk1 J) = [a1]"
      "m_MultipartyDecryptMain B c2 [m_EvalSub A c1 (m 1) (m 2)] (j_sk2 J) = [a2]"
    and D: "\<And>v. v \<in> {m_GetPackedValue A 12 (m_MultipartyDecryptFusion A c1 [a1, a2]),
                 m_GetPackedValue B 12 (m_MultipartyDecryptFusion B c2 [a1, a2])} \<Longrightarrow>
        differences v [0..<12] = Inr (cm_differ (read_ints fx) (read_ints fy) r)"
    using cm_differences by meson
  define a where "a j = (if j = 1 then a1 else a2)" for j :: nat
  have a: "a1 = a 1" "a2 = a 2" by (simp_all add: a_def)
  note f0 = cm_controller_follows [where C = C and A = A and B = B and J = J and r = r and pt = pr and e = e and m = m and x = x and a = a, folded c'_def, OF ser pack(1) e_def m_def]
  note f1 = cm_node1_follows [where C = C and A = A and B = B and c = ?c and d = ?d and f = fx and pt = px and x = x and m = m and a = a, folded J_def, folded c1_def, OF cm_ctx_def ser pack(2)]
  note f2 = cm_node2_follows [where C = C and A = A and B = B and c = ?c and d = ?d and f = fy and pt = py and x = x and m = m and a = a, folded J_def, folded c2_def, OF cm_ctx_def ser pack(3)]
  have "x 1 = m_Encrypt A c1 (j_pk J) px" "x 2 = m_Encrypt B c2 (j_pk J) py" by (simp_all add: x_def)
  note f1' = f1 [OF this(1) partial(1) [unfolded a]] and f2' = f2 [OF this(2) partial(2) [unfolded a ev(4)]]
  have "dom (cm_programs (C, A, B) r fx fy) = {''Controller'', ''Node1'', ''Node2''}" by (auto simp: cm_programs_def)
  then show ?thesis
    using f0 f1' f2' D unfolding a J by (intro exI [of _ x] exI [of _ m] exI [of _ a]) (simp add: cm_programs_def)
qed

text \<open>C11: the controller and two nodes comparing measurements on the nodes of the peer to peer framework, with any input files and random
  numbers. If the files and the mask can be encoded, then in every interleaving all three programs end, and both nodes
  report a difference at exactly the indices i below twelve at which (x_i - y_i) * r_i is not zero modulo 65537 for
  the controller's mask r_i; a file that is too short counts as padded with zeros.\<close>

theorem controlled_measure_correct:
  assumes ok: "p2p_ok who conn y" and sys: "fresh_system (cm_programs (C, A, B) r fx fy) y"
    and ser: "cm_serial_ok (C, A, B)" and scheme: "cm_scheme_ok (C, A, B) enc"
    and packs: "cm_packs (C, A, B) r (read_ints fx) (read_ints fy)" and conn: "cm_connected conn"
    and reach: "p2p_reach who y u"
  shows "\<exists>z. p2p_reach who u z \<and> programs z ''Controller'' = Some (NRet (Inr []))
    \<and> (\<forall>i \<in> {''Node1'', ''Node2''}. programs z i = Some (NRet (Inr (cm_differ (read_ints fx) (read_ints fy) r))))"
proof -
  let ?P = "cm_programs (C, A, B) r fx fy" and ?cc = "m_GenCryptoContext C measure_params" and ?J = "cm_joint (C, A, B)"
  let ?r = "\<lambda>i. Inr (if i = ''Controller'' then [] else cm_differ (read_ints fx) (read_ints fy) r)"
  obtain x m a where F: "\<And>i. i \<in> dom ?P \<Longrightarrow> follows i (the (?P i)) (cm_events C A B ?cc ?J x m a i) (NRet (?r i))"
    using cm_all_follow [OF ser scheme packs] by blast
  from cm_play [OF conn, of C A B ?cc ?J x m a] obtain T' c' where run:
    "play conn (map cm_names cm_schedule) (cm_events C A B ?cc ?J x m a) (\<lambda>_ _. []) = Some (T', c')" "\<And>i. T' i = []" "\<And>i s. c' i s = []"
    by (elim exE conjE) simp
  have progs: "programs y = ?P" using sys by (simp add: fresh_system_def)
  have dom: "dom ?P = {''Controller'', ''Node1'', ''Node2''}" by (auto simp: cm_programs_def)
  have "patient_net (net_of y)"
    by (auto simp: patient_net_def progs cm_programs_def cm_patient split: if_splits)
  then have "\<exists>z. p2p_reach who u z \<and> (\<forall>i \<in> dom (programs y). programs z i = Some (NRet (?r i)))"
  proof (rule p2p_outcome [OF ok _ _ run(3) _ _ reach])
    show "play conn (map cm_names cm_schedule) (cm_events C A B ?cc ?J x m a) (chan (net_of y)) = Some (T', c')"
      using run(1) fresh_system_chan [OF sys] by simp
    show "follows i (the (programs y i)) (cm_events C A B ?cc ?J x m a i) (NRet (?r i)) \<and> T' i = []" if "i \<in> dom (programs y)" for i
      using F that run(2) unfolding progs by blast
    have "{..<length cm_codes} = {0, 1, 2}" by (auto simp: cm_codes_def)
    then show "cm_events C A B ?cc ?J x m a i = []" if "i \<notin> dom (programs y)" for i
      using that unfolding progs dom cm_events_def by (intro coded_events_none) auto
  qed
  then show ?thesis unfolding progs dom by auto
qed

section \<open>A concrete instance\<close>

definition toy_three :: "(nat, nat, nat, nat, nat list, int list) three_libs" where
  "toy_three = (toy_bfv, toy_bfv, toy_bfv)"

definition toy_measure :: "(string \<times> nat list nprog) list" where
  "toy_measure = [(''Controller'', nbind (controller_measure toy_bfv toy_masks) (\<lambda>_. nret [])),
     (''Node1'', measure_with_controller toy_bfv ''Node1'' file_x), (''Node2'', measure_with_controller toy_bfv ''Node2'' file_y)]"

lemma toy_measure_programs: "map_of toy_measure = cm_programs toy_three toy_masks file_x file_y"
  by (rule ext) (simp add: toy_measure_def cm_programs_def toy_three_def)

lemma controlled_measure_correct_witness:
  "\<exists>z. p2p_reach mesh_who (mesh toy_measure) z \<and> programs z ''Controller'' = Some (NRet (Inr []))
     \<and> (\<forall>i \<in> {''Node1'', ''Node2''}. programs z i = Some (NRet (Inr [3])))"
proof -
  have conn: "cm_connected (mesh_conn (map fst toy_measure))" by (simp add: cm_connected_def mesh_conn_def toy_measure_def)
  have ser: "cm_serial_ok (toy_bfv, toy_bfv, toy_bfv)" by (simp add: cm_serial_ok_def toy_bfv_serial)
  have scheme: "cm_scheme_ok (toy_bfv, toy_bfv, toy_bfv) toy_slots" by (simp add: cm_scheme_ok_def toy_joint toy_eval)
  have packs: "cm_packs (toy_bfv, toy_bfv, toy_bfv) toy_masks (read_ints file_x) (read_ints file_y)"
    by (simp add: cm_packs_def toy_bfv_def Let_def)
  have "p2p_reach mesh_who (mesh toy_measure) (mesh toy_measure)" by (simp add: p2p_reach_def)
  note outcome = controlled_measure_correct [OF mesh_ok mesh_fresh [of toy_measure, unfolded toy_measure_programs toy_three_def] ser scheme packs conn this]
  have "cm_differ (read_ints file_x) (read_ints file_y) toy_masks = [3]"
    unfolding files_read cm_differ_def by (simp add: upt_rec slot_def toy_masks_def)
  with outcome show ?thesis by simp
qed

end
