(* ===== verification/Path_Keys.thy ===== *)
theory Path_Keys
  imports P2P_Ring
begin

text \<open>
  The joint keys of a path of nodes: \<^verbatim>\<open>JointPublickeyGen\<close>, \<^verbatim>\<open>JointEvalMultkeyGen\<close> and
  \<^verbatim>\<open>JointEvalSumkeyGen\<close> of \<^verbatim>\<open>path_measure_crypto_functions.cpp\<close>. A key travels down the path from the first
  node to the last and the result back up, each node talking to its neighbours only. The node's own keys
  (\<^verbatim>\<open>set_keyPair\<close>, \<^verbatim>\<open>get_keyPair\<close> and the like of \<^verbatim>\<open>NodeImpl\<close>) are a record that the functions take and
  return; the vector of four neighbours is the record \<open>nodes_path\<close>. Null pointers are options.
\<close>

section \<open>State and library\<close>

record nodes_path =
  dsendtoNode :: string
  dgetfromNode :: string
  usendtoNode :: string
  ugetfromNode :: string

record ('pk, 'sk, 'ek, 'es) node_keys =
  nk_keyPair :: "('pk \<times> 'sk) option"
  nk_FinalPubKey :: "'pk option"
  nk_evalMultFinal :: "'ek option"
  nk_evalSumFinal :: "'es option"

definition node_keys0 :: "('pk, 'sk, 'ek, 'es) node_keys" where
  "node_keys0 = \<lparr> nk_keyPair = None, nk_FinalPubKey = None, nk_evalMultFinal = None, nk_evalSumFinal = None \<rparr>"

record ('cc, 'pk, 'sk, 'ek, 'es) path_lib =
  k_ser_pk :: "'pk \<Rightarrow> bytes"
  k_deser_pk :: "bytes \<Rightarrow> 'pk result"
  k_ser_ek :: "'ek \<Rightarrow> bytes"
  k_deser_ek :: "bytes \<Rightarrow> 'ek result"
  k_ser_es :: "'es \<Rightarrow> bytes"
  k_deser_es :: "bytes \<Rightarrow> 'es result"
  k_KeyGen :: "'cc \<Rightarrow> 'pk \<times> 'sk"
  k_MultipartyKeyGen :: "'cc \<Rightarrow> 'pk \<Rightarrow> 'pk \<times> 'sk"
  k_KeyTag :: "'pk \<Rightarrow> string"
  k_KeySwitchGen :: "'cc \<Rightarrow> 'sk \<Rightarrow> 'sk \<Rightarrow> 'ek"
  k_MultiKeySwitchGen :: "'cc \<Rightarrow> 'sk \<Rightarrow> 'sk \<Rightarrow> 'ek \<Rightarrow> 'ek"
  k_MultiAddEvalKeys :: "'cc \<Rightarrow> 'ek \<Rightarrow> 'ek \<Rightarrow> string \<Rightarrow> 'ek"
  k_MultiMultEvalKey :: "'cc \<Rightarrow> 'sk \<Rightarrow> 'ek \<Rightarrow> string \<Rightarrow> 'ek"
  k_MultiAddEvalMultKeys :: "'cc \<Rightarrow> 'ek \<Rightarrow> 'ek \<Rightarrow> string \<Rightarrow> 'ek"
  k_EvalSumKeyGen :: "'cc \<Rightarrow> 'sk \<Rightarrow> 'es" \<comment> \<open>and GetEvalSumKeyMap\<close>
  k_MultiEvalSumKeyGen :: "'cc \<Rightarrow> 'sk \<Rightarrow> 'es \<Rightarrow> string \<Rightarrow> 'es"
  k_MultiAddEvalSumKeys :: "'cc \<Rightarrow> 'es \<Rightarrow> 'es \<Rightarrow> string \<Rightarrow> 'es"

definition deref :: "string \<Rightarrow> 'a option \<Rightarrow> 'a nprog" where
  \<comment> \<open>a pointer that the code does not check\<close>
  "deref what p = (case p of None \<Rightarrow> nthrow (Undefined what) | Some x \<Rightarrow> nret x)"

definition get_keyPair :: "('pk, 'sk, 'ek, 'es) node_keys \<Rightarrow> ('pk \<times> 'sk) nprog" where
  "get_keyPair nk = deref ''keyPair'' (nk_keyPair nk)"

definition get_FinalPubKey :: "('pk, 'sk, 'ek, 'es) node_keys \<Rightarrow> 'pk nprog" where
  "get_FinalPubKey nk = deref ''FinalPubKey'' (nk_FinalPubKey nk)"

section \<open>The joint public key\<close>

definition pubkey_down ::
  "('cc, 'pk, 'sk, 'ek, 'es) path_lib \<Rightarrow> string \<Rightarrow> string \<Rightarrow> string \<Rightarrow> nodes_path \<Rightarrow> 'cc
   \<Rightarrow> ('pk, 'sk, 'ek, 'es) node_keys \<Rightarrow> (('pk \<times> 'sk) \<times> ('pk, 'sk, 'ek, 'es) node_keys) nprog" where
  "pubkey_down L me startNode endNode path c nk =
     nbind (if me = startNode then nret (k_KeyGen L c)
            else nbind (n_getSerialMsgWait (k_deser_pk L) ''PublicKey'' (dgetfromNode path)) (\<lambda>prevPubKey.
                 nret (k_MultipartyKeyGen L c prevPubKey))) (\<lambda>keyPair.
     nbind (n_sendSerialMsg (k_ser_pk L) (fst keyPair) ''PublicKey''
              (if me = endNode then usendtoNode path else dsendtoNode path)) (\<lambda>_.
       nret (keyPair, nk\<lparr>nk_keyPair := Some keyPair\<rparr>)))"

definition pubkey_up ::
  "('cc, 'pk, 'sk, 'ek, 'es) path_lib \<Rightarrow> string \<Rightarrow> string \<Rightarrow> string \<Rightarrow> nodes_path
   \<Rightarrow> ('pk \<times> 'sk) \<times> ('pk, 'sk, 'ek, 'es) node_keys \<Rightarrow> ('pk \<times> ('pk, 'sk, 'ek, 'es) node_keys) nprog" where
  "pubkey_up L me startNode endNode path = (\<lambda>(keyPair, nk).
     nbind (if me \<noteq> endNode
            then nbind (n_getSerialMsgWait (k_deser_pk L) ''PublicKey'' (ugetfromNode path)) (\<lambda>FinalPubKey.
                 if me \<noteq> startNode
                 then nbind (n_sendSerialMsg (k_ser_pk L) FinalPubKey ''PublicKey'' (usendtoNode path)) (\<lambda>_. nret FinalPubKey)
                 else nret FinalPubKey)
            else nret (fst keyPair)) (\<lambda>FinalPubKey.
       nret (FinalPubKey, nk\<lparr>nk_FinalPubKey := Some FinalPubKey\<rparr>)))"

definition JointPublickeyGen ::
  "('cc, 'pk, 'sk, 'ek, 'es) path_lib \<Rightarrow> string \<Rightarrow> string \<Rightarrow> string \<Rightarrow> nodes_path \<Rightarrow> 'cc
   \<Rightarrow> ('pk, 'sk, 'ek, 'es) node_keys \<Rightarrow> ('pk \<times> ('pk, 'sk, 'ek, 'es) node_keys) nprog" where
  "JointPublickeyGen L me startNode endNode path c nk =
     nbind (pubkey_down L me startNode endNode path c nk) (pubkey_up L me startNode endNode path)"

section \<open>The joint evaluation keys\<close>

definition evalmult_down ::
  "('cc, 'pk, 'sk, 'ek, 'es) path_lib \<Rightarrow> string \<Rightarrow> string \<Rightarrow> string \<Rightarrow> nodes_path \<Rightarrow> 'cc
   \<Rightarrow> ('pk, 'sk, 'ek, 'es) node_keys \<Rightarrow> unit nprog" where
  "evalmult_down L me startNode endNode path c nk =
     nbind (get_keyPair nk) (\<lambda>keyPair.
     if me = startNode
     then n_sendSerialMsg (k_ser_ek L) (k_KeySwitchGen L c (snd keyPair) (snd keyPair)) ''evalmultkey'' (dsendtoNode path)
     else nbind (n_getSerialMsgWait (k_deser_ek L) ''evalmultkey'' (dgetfromNode path)) (\<lambda>PrevevalMultKey.
       let evalMultKey = k_MultiKeySwitchGen L c (snd keyPair) (snd keyPair) PrevevalMultKey;
           evalMultPrevandCurrent = k_MultiAddEvalKeys L c PrevevalMultKey evalMultKey (k_KeyTag L (fst keyPair))
       in if me = endNode
          then nbind (n_sendSerialMsg (k_ser_ek L) evalMultPrevandCurrent ''evalmultkey'' (usendtoNode path)) (\<lambda>_.
               nbind (get_FinalPubKey nk) (\<lambda>FinalPubKey.
                 n_sendSerialMsg (k_ser_ek L)
                   (k_MultiMultEvalKey L c (snd keyPair) evalMultPrevandCurrent (k_KeyTag L FinalPubKey))
                   ''evalmixmultkey'' (usendtoNode path)))
          else n_sendSerialMsg (k_ser_ek L) evalMultPrevandCurrent ''evalmultkey'' (dsendtoNode path)))"

definition evalmult_up ::
  "('cc, 'pk, 'sk, 'ek, 'es) path_lib \<Rightarrow> string \<Rightarrow> string \<Rightarrow> string \<Rightarrow> nodes_path \<Rightarrow> 'cc
   \<Rightarrow> ('pk, 'sk, 'ek, 'es) node_keys \<Rightarrow> 'ek option nprog" where
  \<comment> \<open>the final key, at the first node, which returns it\<close>
  "evalmult_up L me startNode endNode path c nk =
     (if me \<noteq> endNode
      then nbind (n_getSerialMsgWait (k_deser_ek L) ''evalmultkey'' (ugetfromNode path)) (\<lambda>evalMultAll.
           nbind (if me \<noteq> startNode
                  then n_sendSerialMsg (k_ser_ek L) evalMultAll ''evalmultkey'' (usendtoNode path)
                  else nret ()) (\<lambda>_.
           nbind (n_getSerialMsgWait (k_deser_ek L) ''evalmixmultkey'' (ugetfromNode path)) (\<lambda>PrevevalMixMultKey.
           nbind (get_keyPair nk) (\<lambda>keyPair.
           nbind (get_FinalPubKey nk) (\<lambda>FinalPubKey.
           let evalMultKeyskAll = k_MultiMultEvalKey L c (snd keyPair) evalMultAll (k_KeyTag L FinalPubKey);
               evalMultAddskAll = k_MultiAddEvalMultKeys L c evalMultKeyskAll PrevevalMixMultKey (k_KeyTag L FinalPubKey)
           in if me = startNode
              then nbind (n_sendSerialMsg (k_ser_ek L) evalMultAddskAll ''evalmixmultkey'' (dsendtoNode path)) (\<lambda>_.
                     nret (Some evalMultAddskAll))
              else nbind (n_sendSerialMsg (k_ser_ek L) evalMultAddskAll ''evalmixmultkey'' (usendtoNode path)) (\<lambda>_.
                     nret None))))))
      else nret None)"

definition evalmult_final ::
  "('cc, 'pk, 'sk, 'ek, 'es) path_lib \<Rightarrow> string \<Rightarrow> string \<Rightarrow> string \<Rightarrow> nodes_path
   \<Rightarrow> ('pk, 'sk, 'ek, 'es) node_keys \<Rightarrow> 'ek option \<Rightarrow> ('ek option \<times> ('pk, 'sk, 'ek, 'es) node_keys) nprog" where
  "evalmult_final L me startNode endNode path nk returned =
     (case returned of
        Some k \<Rightarrow> nret (Some k, nk\<lparr>nk_evalMultFinal := Some k\<rparr>)
      | None \<Rightarrow>
          nbind (if me \<noteq> startNode
                 then nbind (n_getSerialMsgWait (k_deser_ek L) ''evalmixmultkey'' (dgetfromNode path)) (\<lambda>evalMultFinal.
                      if me \<noteq> endNode
                      then nbind (n_sendSerialMsg (k_ser_ek L) evalMultFinal ''evalmixmultkey'' (dsendtoNode path)) (\<lambda>_.
                             nret (Some evalMultFinal))
                      else nret (Some evalMultFinal))
                 else nret None) (\<lambda>evalMultFinal.
            nret (evalMultFinal, nk\<lparr>nk_evalMultFinal := evalMultFinal\<rparr>)))"

definition JointEvalMultkeyGen ::
  "('cc, 'pk, 'sk, 'ek, 'es) path_lib \<Rightarrow> string \<Rightarrow> string \<Rightarrow> string \<Rightarrow> nodes_path \<Rightarrow> 'cc
   \<Rightarrow> ('pk, 'sk, 'ek, 'es) node_keys \<Rightarrow> ('ek option \<times> ('pk, 'sk, 'ek, 'es) node_keys) nprog" where
  "JointEvalMultkeyGen L me startNode endNode path c nk =
     nbind (evalmult_down L me startNode endNode path c nk) (\<lambda>_.
     nbind (evalmult_up L me startNode endNode path c nk) (evalmult_final L me startNode endNode path nk))"

definition evalsum_down ::
  "('cc, 'pk, 'sk, 'ek, 'es) path_lib \<Rightarrow> string \<Rightarrow> string \<Rightarrow> string \<Rightarrow> nodes_path \<Rightarrow> 'cc
   \<Rightarrow> ('pk, 'sk, 'ek, 'es) node_keys \<Rightarrow> 'es option nprog" where
  \<comment> \<open>the final keys, at the last node, which returns them\<close>
  "evalsum_down L me startNode endNode path c nk =
     nbind (get_keyPair nk) (\<lambda>keyPair.
     if me = startNode
     then let evalSumKeys = k_EvalSumKeyGen L c (snd keyPair)
          in nbind (n_sendSerialMsg (k_ser_es L) evalSumKeys ''evalSumKeys0'' (dsendtoNode path)) (\<lambda>_.
             nbind (n_sendSerialMsg (k_ser_es L) evalSumKeys ''evalSumKeys1'' (dsendtoNode path)) (\<lambda>_. nret None))
     else nbind (n_getSerialMsgWait (k_deser_es L) ''evalSumKeys0'' (dgetfromNode path)) (\<lambda>PrevevalSumKey0.
          nbind (n_getSerialMsgWait (k_deser_es L) ''evalSumKeys1'' (dgetfromNode path)) (\<lambda>PrevevalSumKey1.
          let evalSumKeys0 = k_MultiEvalSumKeyGen L c (snd keyPair) PrevevalSumKey0 (k_KeyTag L (fst keyPair));
              evalSumKeys1 = k_MultiAddEvalSumKeys L c PrevevalSumKey1 evalSumKeys0 (k_KeyTag L (fst keyPair))
          in if me = endNode
             then nbind (n_sendSerialMsg (k_ser_es L) evalSumKeys1 ''evalSumKeys1'' (usendtoNode path)) (\<lambda>_.
                    nret (Some evalSumKeys1))
             else nbind (n_sendSerialMsg (k_ser_es L) evalSumKeys0 ''evalSumKeys0'' (dsendtoNode path)) (\<lambda>_.
                  nbind (n_sendSerialMsg (k_ser_es L) evalSumKeys1 ''evalSumKeys1'' (dsendtoNode path)) (\<lambda>_. nret None)))))"

definition evalsum_up ::
  "('cc, 'pk, 'sk, 'ek, 'es) path_lib \<Rightarrow> string \<Rightarrow> string \<Rightarrow> string \<Rightarrow> nodes_path
   \<Rightarrow> ('pk, 'sk, 'ek, 'es) node_keys \<Rightarrow> 'es option \<Rightarrow> ('es option \<times> ('pk, 'sk, 'ek, 'es) node_keys) nprog" where
  \<comment> \<open>the last node returns before it would set its own final keys\<close>
  "evalsum_up L me startNode endNode path nk returned =
     (case returned of
        Some k \<Rightarrow> nret (Some k, nk)
      | None \<Rightarrow>
          nbind (if me \<noteq> endNode
                 then nbind (n_getSerialMsgWait (k_deser_es L) ''evalSumKeys1'' (ugetfromNode path)) (\<lambda>evalSumFinal.
                      if me \<noteq> startNode
                      then nbind (n_sendSerialMsg (k_ser_es L) evalSumFinal ''evalSumKeys1'' (usendtoNode path)) (\<lambda>_.
                             nret (Some evalSumFinal))
                      else nret (Some evalSumFinal))
                 else nret None) (\<lambda>evalSumFinal.
            nret (evalSumFinal, nk\<lparr>nk_evalSumFinal := evalSumFinal\<rparr>)))"

definition JointEvalSumkeyGen ::
  "('cc, 'pk, 'sk, 'ek, 'es) path_lib \<Rightarrow> string \<Rightarrow> string \<Rightarrow> string \<Rightarrow> nodes_path \<Rightarrow> 'cc
   \<Rightarrow> ('pk, 'sk, 'ek, 'es) node_keys \<Rightarrow> ('es option \<times> ('pk, 'sk, 'ek, 'es) node_keys) nprog" where
  "JointEvalSumkeyGen L me startNode endNode path c nk =
     nbind (evalsum_down L me startNode endNode path c nk) (evalsum_up L me startNode endNode path nk)"

section \<open>The path\<close>

definition path_of :: "u32 \<Rightarrow> u32 \<Rightarrow> nodes_path" where
  \<comment> \<open>the neighbours of the node node_id on a path of num_of_nodes nodes; the fields not set are empty strings\<close>
  "path_of num_of_nodes node_id =
     (let next_node = nm (unat (node_id + 1)); previous = nm (unat (node_id - 1))
      in if node_id = 1
         then \<lparr> dsendtoNode = next_node, dgetfromNode = [], usendtoNode = [], ugetfromNode = next_node \<rparr>
         else if 1 < node_id \<and> node_id < num_of_nodes
         then \<lparr> dsendtoNode = next_node, dgetfromNode = previous, usendtoNode = previous, ugetfromNode = next_node \<rparr>
         else \<lparr> dsendtoNode = [], dgetfromNode = previous, usendtoNode = previous, ugetfromNode = [] \<rparr>)"

definition path_keys ::
  "('cc, 'pk, 'sk, 'ek, 'es) path_lib \<Rightarrow> u32 \<Rightarrow> u32 \<Rightarrow> 'cc \<Rightarrow> ('pk \<times> 'ek option \<times> 'es option) nprog" where
  \<comment> \<open>the three routines one after the other at the node node_id\<close>
  "path_keys L num_of_nodes node_id c =
     (let me = nm (unat node_id); endNode = nm (unat num_of_nodes); path = path_of num_of_nodes node_id in
      nbind (JointPublickeyGen L me (nm 1) endNode path c node_keys0) (\<lambda>(FinalPubKey, nk).
      nbind (JointEvalMultkeyGen L me (nm 1) endNode path c nk) (\<lambda>(evalMultFinal, nk).
      nbind (JointEvalSumkeyGen L me (nm 1) endNode path c nk) (\<lambda>(evalSumFinal, _).
        nret (FinalPubKey, evalMultFinal, evalSumFinal)))))"

section \<open>A concrete instance of the library\<close>

definition toy_path :: "(nat, nat, nat, nat, nat) path_lib" where
  \<comment> \<open>node c has the secret key c; a joint key is a sum, and the evaluation key is the square of the joint secret key\<close>
  "toy_path = \<lparr> k_ser_pk = (\<lambda>n. enc_nats [n]), k_deser_pk = (\<lambda>s. Inr (hd (dec_nats s))),
     k_ser_ek = (\<lambda>n. enc_nats [n]), k_deser_ek = (\<lambda>s. Inr (hd (dec_nats s))),
     k_ser_es = (\<lambda>n. enc_nats [n]), k_deser_es = (\<lambda>s. Inr (hd (dec_nats s))),
     k_KeyGen = (\<lambda>c. (c, c)), k_MultipartyKeyGen = (\<lambda>c pk. (pk + c, c)), k_KeyTag = (\<lambda>_. []),
     k_KeySwitchGen = (\<lambda>_ sk _. sk), k_MultiKeySwitchGen = (\<lambda>_ sk _ _. sk), k_MultiAddEvalKeys = (\<lambda>_ a b _. a + b),
     k_MultiMultEvalKey = (\<lambda>_ sk ek _. sk * ek), k_MultiAddEvalMultKeys = (\<lambda>_ a b _. a + b),
     k_EvalSumKeyGen = (\<lambda>_ sk. sk), k_MultiEvalSumKeyGen = (\<lambda>_ sk _ _. sk), k_MultiAddEvalSumKeys = (\<lambda>_ a b _. a + b) \<rparr>"

end
