(* ===== verification/Floats.thy ===== *)
theory Floats
  imports Prelude "HOL-Library.Log_Nat"
begin

text \<open>
  Binary floating point numbers as rationals: rounding to a number of significant bits, ties to even, as
  conversions to \<^verbatim>\<open>float\<close> and operations on \<^verbatim>\<open>double\<close> do. Exponents are not bounded: infinities
  and subnormal numbers are left out, other than the quotient by zero.
\<close>

definition exponent :: "rat \<Rightarrow> int" where
  \<comment> \<open>of a positive number: the exponent of its leading bit\<close>
  "exponent x = (case quotient_of x of (a, b) \<Rightarrow>
     let k = bitlen a - bitlen b in if 2 powi k \<le> x then k else k - 1)"

definition round_even :: "rat \<Rightarrow> int" where
  "round_even y = (let f = \<lfloor>y\<rfloor>; d = y - of_int f
     in if d < 1 / 2 then f else if 1 / 2 < d then f + 1 else if even f then f else f + 1)"

definition fl :: "nat \<Rightarrow> rat \<Rightarrow> rat" where
  \<comment> \<open>rounding to p significant bits\<close>
  "fl p x = (if x = 0 then 0
     else let u = 2 powi (exponent \<bar>x\<bar> - int p + 1) in of_int (round_even (x / u)) * u)"

abbreviation to_float :: "rat \<Rightarrow> rat" where "to_float \<equiv> fl 24"

definition dadd :: "rat \<Rightarrow> rat \<Rightarrow> rat" where
  "dadd x y = fl 53 (x + y)"

definition ddiv :: "rat \<Rightarrow> rat \<Rightarrow> rat option" where
  \<comment> \<open>None: an infinity or not a number\<close>
  "ddiv x y = (if y = 0 then None else Some (fl 53 (x / y)))"

definition dround :: "rat \<Rightarrow> int" where
  \<comment> \<open>round(): halves away from zero\<close>
  "dround x = (if 0 \<le> x then \<lfloor>x + 1 / 2\<rfloor> else - \<lfloor>1 / 2 - x\<rfloor>)"

lemma exponent_bounds:
  assumes "0 < x"
  shows "2 powi exponent x \<le> x" "x < 2 powi (exponent x + 1)"
proof -
  obtain a b where q: "quotient_of x = (a, b)" by fastforce
  have b: "0 < b" and x: "x = of_int a / of_int b"
    using quotient_of_denom_pos [OF q] quotient_of_div [OF q] by simp_all
  have a: "0 < a" using assms b unfolding x by (simp add: zero_less_divide_iff)
  have bits: "(2 :: rat) powi (bitlen n - 1) \<le> of_int n" "of_int n < (2 :: rat) powi bitlen n" if "0 < n" for n
  proof -
    have n: "0 < bitlen n" using that by (simp add: bitlen_eq_zero_iff order_less_le bitlen_nonneg)
    have B: "2 ^ nat (bitlen n - 1) \<le> n" "n < 2 ^ nat (bitlen n)" using bitlen_bounds [OF that] by simp_all
    have "(2 :: rat) powi (bitlen n - 1) = of_int (2 ^ nat (bitlen n - 1))"
      using n by (simp add: power_int_def)
    with B(1) show "(2 :: rat) powi (bitlen n - 1) \<le> of_int n" by (simp only: of_int_le_iff)
    have "(2 :: rat) powi bitlen n = of_int (2 ^ nat (bitlen n))"
      using n by (simp add: power_int_def)
    with B(2) show "of_int n < (2 :: rat) powi bitlen n" by (simp only: of_int_less_iff)
  qed
  let ?k = "bitlen a - bitlen b"
  have "(2 :: rat) powi (bitlen a - 1) / 2 powi bitlen b < of_int a / of_int b"
    using bits [OF a] bits [OF b] a b by (intro frac_less2) simp_all
  moreover have "(2 :: rat) powi (bitlen a - 1) / 2 powi bitlen b = 2 powi (?k - 1)"
    by (simp flip: power_int_diff add: algebra_simps)
  ultimately have low: "2 powi (?k - 1) < x" by (simp add: x)
  have "of_int a / of_int b < (2 :: rat) powi bitlen a / 2 powi (bitlen b - 1)"
    using bits [OF a] bits [OF b] a b by (intro frac_less) simp_all
  moreover have "(2 :: rat) powi bitlen a / 2 powi (bitlen b - 1) = 2 powi (?k + 1)"
    by (simp flip: power_int_diff add: algebra_simps)
  ultimately have high: "x < 2 powi (?k + 1)" by (simp add: x)
  show "2 powi exponent x \<le> x" "x < 2 powi (exponent x + 1)"
    using low high by (auto simp: exponent_def q Let_def)
qed

lemma round_even_error: "\<bar>of_int (round_even y) - y\<bar> \<le> 1 / 2"
proof -
  have "of_int \<lfloor>y\<rfloor> \<le> y" "y < of_int \<lfloor>y\<rfloor> + 1" by linarith+
  then show ?thesis unfolding round_even_def Let_def by (auto simp: abs_le_iff)
qed

lemma round_even_int [simp]: "round_even (of_int n) = n"
  by (simp add: round_even_def)

lemma fl_0 [simp]: "fl p 0 = 0"
  by (simp add: fl_def)

lemma fl_error: "\<bar>fl p x - x\<bar> \<le> \<bar>x\<bar> / 2 ^ p"
proof (cases "x = 0")
  case False
  define u where "u = (2 :: rat) powi (exponent \<bar>x\<bar> - int p + 1)"
  have u: "0 < u" by (simp add: u_def)
  have "fl p x - x = (of_int (round_even (x / u)) - x / u) * u"
    using False u unfolding fl_def u_def [symmetric] Let_def by (simp add: algebra_simps)
  then have "\<bar>fl p x - x\<bar> = \<bar>of_int (round_even (x / u)) - x / u\<bar> * u" using u by (simp add: abs_mult)
  also have "\<dots> \<le> 1 / 2 * u" using u by (intro mult_right_mono round_even_error) simp
  also have "\<dots> = 2 powi exponent \<bar>x\<bar> / 2 ^ p"
    by (simp add: u_def power_int_add power_int_diff flip: power_int_of_nat)
  also have "\<dots> \<le> \<bar>x\<bar> / 2 ^ p"
    using exponent_bounds(1) [of "\<bar>x\<bar>"] False by (intro divide_right_mono) simp_all
  finally show ?thesis .
qed simp

lemma fl_small_int:
  assumes "\<bar>n\<bar> < 2 ^ p"
  shows "fl p (of_int n) = of_int n"
proof (cases "n = 0")
  case False
  let ?x = "of_int n :: rat"
  have pos: "0 < \<bar>?x\<bar>" using False by simp
  let ?e = "exponent \<bar>?x\<bar>"
  have "2 powi ?e < (2 :: rat) ^ p"
  proof -
    have "\<bar>?x\<bar> < 2 ^ p" using assms by (metis of_int_abs of_int_less_iff of_int_numeral of_int_power)
    with exponent_bounds(1) [OF pos] show ?thesis by simp
  qed
  then have "2 powi ?e < (2 :: rat) powi int p" by (simp only: power_int_of_nat)
  then have e: "?e < int p" using power_int_increasing [of "int p" ?e "2 :: rat"] by (cases "int p \<le> ?e") auto
  define u where "u = (2 :: rat) powi (?e - int p + 1)"
  obtain m where m: "int p - 1 - ?e = int m" using e by (intro that [of "nat (int p - 1 - ?e)"]) simp
  have "?x / u = of_int (n * 2 ^ m)"
  proof -
    have "1 / u = 2 powi (int p - 1 - ?e)" by (simp add: u_def power_int_minus_divide [symmetric] algebra_simps)
    then have "1 / u = 2 ^ m" by (simp add: m)
    then have "?x * (1 / u) = ?x * 2 ^ m" by (simp only:)
    then show ?thesis by simp
  qed
  then have "round_even (?x / u) = n * 2 ^ m" by (simp only: round_even_int)
  with \<open>?x / u = of_int (n * 2 ^ m)\<close> False show ?thesis
    unfolding fl_def u_def [symmetric] Let_def by (simp add: u_def field_simps)
qed simp

end
