(* ===== verification/Registers.thy ===== *)
theory Registers
  imports Path_Keys Floats
begin

text \<open>
  The registers of \<^verbatim>\<open>register_functions.h\<close>: named ranges of the slots of one CKKS ciphertext, each written
  by adding or multiplying a plaintext vector. What a ciphertext holds is a function from slots to
  rationals with a bound on the error (\<open>slots\<close>), as CKKS computes approximately. Lemmas: a sequence of writes leaves in
  every register the sum of what was written to it (\<open>registers_sum\<close>); a multiplication zeroes
  all slots behind its register (\<open>owrite_erases\<close>).
\<close>

section \<open>The library\<close>

type_synonym cplx = "rat \<times> rat" \<comment> \<open>std::complex\<close>

record ckks_params =
  cp_standardDeviation :: string
  cp_securityLevel :: string
  cp_secretKeyDist :: string
  cp_multiplicativeDepth :: u32
  cp_scalingModSize :: u32
  cp_enabled :: "string list"

record ('cc, 'pk, 'sk, 'ek, 'es, 'ct, 'pt) ckks_lib =
  c_keys :: "('cc, 'pk, 'sk, 'ek, 'es) path_lib"
  c_GenCryptoContext :: "ckks_params \<Rightarrow> 'cc"
  c_ser_cc :: "'cc \<Rightarrow> bytes"
  c_deser_cc :: "bytes \<Rightarrow> 'cc result"
  c_ser_ct :: "'ct \<Rightarrow> bytes"
  c_deser_ct :: "bytes \<Rightarrow> 'ct result"
  c_ClearKeys :: "'cc \<Rightarrow> 'cc"
  c_InsertEvalMultKey :: "'cc \<Rightarrow> 'ek list \<Rightarrow> 'cc"
  c_InsertEvalSumKey :: "'cc \<Rightarrow> 'es \<Rightarrow> 'cc"
  c_CyclotomicOrder :: "'cc \<Rightarrow> u32"
  c_MakeCKKSPackedPlaintext :: "'cc \<Rightarrow> cplx list \<Rightarrow> 'pt result"
  c_Encrypt :: "'cc \<Rightarrow> 'pk \<Rightarrow> 'pt \<Rightarrow> 'ct"
  c_EvalAdd :: "'cc \<Rightarrow> 'ct \<Rightarrow> 'pt \<Rightarrow> 'ct"
  c_EvalMult :: "'cc \<Rightarrow> 'ct \<Rightarrow> 'pt \<Rightarrow> 'ct"
  c_MultipartyDecryptLead :: "'cc \<Rightarrow> 'ct list \<Rightarrow> 'sk \<Rightarrow> 'ct list"
  c_MultipartyDecryptMain :: "'cc \<Rightarrow> 'ct list \<Rightarrow> 'sk \<Rightarrow> 'ct list"
  c_MultipartyDecryptFusion :: "'cc \<Rightarrow> 'ct list \<Rightarrow> 'pt"
  c_GetCKKSPackedValue :: "nat \<Rightarrow> 'pt \<Rightarrow> cplx list" \<comment> \<open>after SetLength\<close>

section \<open>The register map\<close>

type_synonym register_map = "(string \<times> int \<times> int) list" \<comment> \<open>name, offset and length\<close>

definition register_insert :: "string \<Rightarrow> u32 \<Rightarrow> u32 \<Rightarrow> register_map \<Rightarrow> register_map" where
  \<comment> \<open>std::map::insert keeps an entry that is there; the unsigned numbers become ints\<close>
  "register_insert name off len m = smap_ins (sint off, sint len) m name"

definition initialize_map :: "u32 \<Rightarrow> register_map \<Rightarrow> register_map result" where
  "initialize_map ringsize m =
     (let n_nodes = 4 :: u32;
          n_elements = ringsize div 2;
          m = register_insert ''v1'' 0 n_nodes m;
          m = register_insert ''v2'' n_nodes n_nodes m;
          m = register_insert ''v3'' (n_nodes + n_nodes) n_nodes m;
          m = register_insert ''n'' (n_nodes + n_nodes + n_nodes) 1 m;
          offset = n_nodes + n_nodes + n_nodes + 1
      in if n_elements < offset then Inl (Exit_failure ''number of entries greater than allowed by ring dimension'')
         else Inr m)"

definition get_offset :: "register_map \<Rightarrow> string \<Rightarrow> int \<Rightarrow> int" where
  "get_offset m name index = (case map_of m name of
      None \<Rightarrow> -1
    | Some (offset, len) \<Rightarrow> if len \<le> index then -1 else offset)"

definition get_length :: "register_map \<Rightarrow> string \<Rightarrow> int" where
  "get_length m name = (case map_of m name of None \<Rightarrow> -1 | Some (offset, len) \<Rightarrow> len)"

definition filled_vector :: "int \<Rightarrow> rat \<Rightarrow> cplx list result" where
  \<comment> \<open>std::vector(n, x): a negative n is converted to a huge unsigned one\<close>
  "filled_vector n x = (if n < 0 then Inl (Std_exception ''cannot create std::vector larger than max_size()'')
     else Inr (replicate (nat n) (x, 0)))"

definition set_at :: "cplx list \<Rightarrow> int \<Rightarrow> rat \<Rightarrow> cplx list result" where
  \<comment> \<open>invec[i] = x\<close>
  "set_at v i x = (if 0 \<le> i \<and> i < int (length v) then Inr (v[nat i := (x, 0)]) else Inl (Undefined ''invec''))"

section \<open>Operations\<close>

definition write_reg ::
  "('cc, 'pk, 'sk, 'ek, 'es, 'ct, 'pt) ckks_lib \<Rightarrow> register_map \<Rightarrow> 'cc \<Rightarrow> 'ct \<Rightarrow> string \<Rightarrow> rat \<Rightarrow> int \<Rightarrow> 'ct result" where
  "write_reg L m c ct name val index =
     (let offset = get_offset m name index; len = get_length m name in
      rbind (filled_vector (offset + len) 0) (\<lambda>invec.
      rbind (set_at invec (offset + index) val) (\<lambda>invec.
      rbind (c_MakeCKKSPackedPlaintext L c invec) (\<lambda>ptvec. Inr (c_EvalAdd L c ct ptvec)))))"

definition mul ::
  "('cc, 'pk, 'sk, 'ek, 'es, 'ct, 'pt) ckks_lib \<Rightarrow> register_map \<Rightarrow> 'cc \<Rightarrow> 'ct \<Rightarrow> string \<Rightarrow> rat \<Rightarrow> int \<Rightarrow> 'ct result" where
  "mul L m c ct name val index =
     (let offset = get_offset m name index; len = get_length m name in
      rbind (filled_vector (offset + len) 1) (\<lambda>invec.
      if offset = -1 then Inl (Exit_failure ''offset not found'') else
      rbind (set_at invec (offset + index) val) (\<lambda>invec.
      rbind (c_MakeCKKSPackedPlaintext L c invec) (\<lambda>ptvec. Inr (c_EvalMult L c ct ptvec)))))"

definition add ::
  "('cc, 'pk, 'sk, 'ek, 'es, 'ct, 'pt) ckks_lib \<Rightarrow> register_map \<Rightarrow> 'cc \<Rightarrow> 'ct \<Rightarrow> string \<Rightarrow> rat \<Rightarrow> int \<Rightarrow> 'ct result" where
  "add L m c ct name val index = write_reg L m c ct name val index"

definition sub ::
  "('cc, 'pk, 'sk, 'ek, 'es, 'ct, 'pt) ckks_lib \<Rightarrow> register_map \<Rightarrow> 'cc \<Rightarrow> 'ct \<Rightarrow> string \<Rightarrow> rat \<Rightarrow> int \<Rightarrow> 'ct result" where
  "sub L m c ct name val index = write_reg L m c ct name (- val) index"

definition owrite ::
  "('cc, 'pk, 'sk, 'ek, 'es, 'ct, 'pt) ckks_lib \<Rightarrow> register_map \<Rightarrow> 'cc \<Rightarrow> 'ct \<Rightarrow> string \<Rightarrow> rat \<Rightarrow> int \<Rightarrow> 'ct result" where
  "owrite L m c ct name val index = rbind (mul L m c ct name 0 index) (\<lambda>ct. add L m c ct name val index)"

definition sub_vector :: "'a list \<Rightarrow> int \<Rightarrow> int \<Rightarrow> 'a list result" where
  \<comment> \<open>the elements from pt.begin() + offset to pt.begin() + offset + length\<close>
  "sub_vector pt offset len =
     (if 0 \<le> offset \<and> 0 \<le> len \<and> offset + len \<le> int (length pt) then Inr (take (nat len) (drop (nat offset) pt))
      else Inl (Undefined ''pt''))"

fun unpackPT :: "register_map \<Rightarrow> cplx list \<Rightarrow> (string \<times> rat list) list result" where
  "unpackPT [] pt = Inr []"
| "unpackPT ((name, offset, len) # m) pt =
     rbind (sub_vector pt offset len) (\<lambda>tmp.
     rbind (unpackPT m pt) (\<lambda>outmap. Inr ((name, map fst tmp) # outmap)))"

section \<open>What the slots hold\<close>

type_synonym 'ct slots = "'ct \<Rightarrow> (nat \<Rightarrow> rat) \<Rightarrow> rat \<Rightarrow> bool"
  \<comment> \<open>ct decrypts to the values, up to the error\<close>

definition padded :: "cplx list \<Rightarrow> nat \<Rightarrow> rat" where
  "padded v k = (if k < length v then fst (v ! k) else 0)"

definition ckks_add_ok ::
  "('cc, 'pk, 'sk, 'ek, 'es, 'ct, 'pt) ckks_lib \<Rightarrow> 'cc \<Rightarrow> nat \<Rightarrow> rat \<Rightarrow> 'ct slots \<Rightarrow> bool" where
  \<comment> \<open>vectors that fit are encoded, and adding one adds its values and at most \<epsilon> of error\<close>
  "ckks_add_ok L c n \<epsilon> enc \<longleftrightarrow>
     (\<forall>v. length v \<le> n \<longrightarrow> (\<exists>pt. c_MakeCKKSPackedPlaintext L c v = Inr pt
        \<and> (\<forall>a u e. enc a u e \<longrightarrow> enc (c_EvalAdd L c a pt) (\<lambda>k. u k + padded v k) (e + \<epsilon>))))"

definition ckks_mult_ok ::
  "('cc, 'pk, 'sk, 'ek, 'es, 'ct, 'pt) ckks_lib \<Rightarrow> 'cc \<Rightarrow> nat \<Rightarrow> rat \<Rightarrow> 'ct slots \<Rightarrow> bool" where
  \<comment> \<open>a product with values bounded by b, of values bounded by a\<close>
  "ckks_mult_ok L c n \<epsilon> enc \<longleftrightarrow>
     (\<forall>v. length v \<le> n \<longrightarrow> (\<exists>pt. c_MakeCKKSPackedPlaintext L c v = Inr pt
        \<and> (\<forall>x u e a b. enc x u e \<and> (\<forall>k. \<bar>u k\<bar> \<le> a) \<and> (\<forall>k. \<bar>padded v k\<bar> \<le> b) \<longrightarrow>
              enc (c_EvalMult L c x pt) (\<lambda>k. u k * padded v k) (e * b + a * \<epsilon> + \<epsilon>))))"

definition decrypts_ok :: "('ct \<Rightarrow> cplx list) \<Rightarrow> nat \<Rightarrow> rat \<Rightarrow> 'ct slots \<Rightarrow> bool" where
  \<comment> \<open>the first n slots are decrypted with at most \<delta> of further error\<close>
  "decrypts_ok plain n \<delta> enc \<longleftrightarrow>
     (\<forall>ct u e. enc ct u e \<longrightarrow> n \<le> length (plain ct) \<and> (\<forall>k < n. \<bar>fst (plain ct ! k) - u k\<bar> \<le> e + \<delta>))"

definition register_ok :: "register_map \<Rightarrow> nat \<Rightarrow> string \<Rightarrow> int \<Rightarrow> bool" where
  \<comment> \<open>the register exists, fits into n slots, and has the index\<close>
  "register_ok m n name index \<longleftrightarrow>
     (\<exists>offset len. map_of m name = Some (offset, len) \<and> 0 \<le> offset \<and> 0 \<le> index \<and> index < len \<and> offset + len \<le> int n)"

definition slot_of :: "register_map \<Rightarrow> string \<Rightarrow> int \<Rightarrow> nat" where
  "slot_of m name index = (case map_of m name of None \<Rightarrow> 0 | Some (offset, len) \<Rightarrow> nat (offset + index))"

lemma padded_update: "nat i < length v \<Longrightarrow> padded (v[nat i := (x, 0)]) k = (if k = nat i then x else padded v k)"
  by (auto simp: padded_def)

lemma padded_replicate: "padded (replicate n (x, 0)) k = (if k < n then x else 0)"
  by (simp add: padded_def)

lemma write_spec:
  assumes reg: "register_ok m n name index" and L: "ckks_add_ok L c n \<epsilon> enc" and ct: "enc ct u e"
  shows "\<exists>ct'. write_reg L m c ct name val index = Inr ct'
    \<and> enc ct' (\<lambda>k. u k + (if k = slot_of m name index then val else 0)) (e + \<epsilon>)"
proof -
  obtain off len where m: "map_of m name = Some (off, len)" "0 \<le> off" "0 \<le> index" "index < len" "off + len \<le> int n"
    using reg by (auto simp: register_ok_def)
  let ?v = "(replicate (nat (off + len)) (0 :: rat, 0 :: rat))[nat (off + index) := (val, 0)]"
  have "length ?v \<le> n" using m by simp
  then obtain pt where pt: "c_MakeCKKSPackedPlaintext L c ?v = Inr pt"
    and add: "enc (c_EvalAdd L c ct pt) (\<lambda>k. u k + padded ?v k) (e + \<epsilon>)"
    using L ct unfolding ckks_add_ok_def by blast
  have "(\<lambda>k. u k + padded ?v k) = (\<lambda>k. u k + (if k = slot_of m name index then val else 0))"
    using m by (auto simp: fun_eq_iff padded_update padded_replicate slot_of_def)
  moreover have "write_reg L m c ct name val index = Inr (c_EvalAdd L c ct pt)"
    using m pt by (simp add: write_reg_def get_offset_def get_length_def filled_vector_def set_at_def)
  ultimately show ?thesis using add by auto
qed

section \<open>Sequences of writes\<close>

fun write_all ::
  "('cc, 'pk, 'sk, 'ek, 'es, 'ct, 'pt) ckks_lib \<Rightarrow> register_map \<Rightarrow> 'cc \<Rightarrow> (string \<times> rat \<times> int) list \<Rightarrow> 'ct \<Rightarrow> 'ct result" where
  "write_all L m c [] ct = Inr ct"
| "write_all L m c ((name, val, index) # ws) ct =
     rbind (write_reg L m c ct name val index) (write_all L m c ws)"

definition written :: "string \<Rightarrow> int \<Rightarrow> (string \<times> rat \<times> int) list \<Rightarrow> rat" where
  \<comment> \<open>the sum of what is written to one element of a register\<close>
  "written name index ws = (\<Sum>(x, val, i) \<leftarrow> ws. if x = name \<and> i = index then val else 0)"

definition slot_sum :: "register_map \<Rightarrow> (string \<times> rat \<times> int) list \<Rightarrow> nat \<Rightarrow> rat" where
  "slot_sum m ws k = (\<Sum>(x, val, i) \<leftarrow> ws. if k = slot_of m x i then val else 0)"

definition layout_ok :: "register_map \<Rightarrow> bool" where
  \<comment> \<open>names are distinct and the registers do not overlap\<close>
  "layout_ok m \<longleftrightarrow> distinct (map fst m) \<and> (\<forall>x i y j n k. register_ok m n x i \<and> register_ok m k y j
     \<and> slot_of m x i = slot_of m y j \<longrightarrow> x = y \<and> i = j)"

lemma written_simps [simp]:
  "written name index [] = 0"
  "written name index ((x, val, i) # ws) = (if x = name \<and> i = index then val else 0) + written name index ws"
  by (simp_all add: written_def)

lemma slot_sum_simps [simp]:
  "slot_sum m [] k = 0"
  "slot_sum m ((x, val, i) # ws) k = (if k = slot_of m x i then val else 0) + slot_sum m ws k"
  by (simp_all add: slot_sum_def)

lemma write_all_append: "write_all L m c (ws @ vs) ct = rbind (write_all L m c ws ct) (write_all L m c vs)"
  by (induction L m c ws ct rule: write_all.induct) (auto simp: rbind_def split: sum.split)

lemma write_all_spec:
  assumes "\<forall>(x, _, i) \<in> set ws. register_ok m n x i" "ckks_add_ok L c n \<epsilon> enc" "enc ct u e"
  shows "\<exists>ct'. write_all L m c ws ct = Inr ct' \<and> enc ct' (\<lambda>k. u k + slot_sum m ws k) (e + of_nat (length ws) * \<epsilon>)"
  using assms
proof (induction ws arbitrary: ct u e)
  case (Cons w ws)
  obtain x val i where w: "w = (x, val, i)" by (cases w)
  have "register_ok m n x i" using Cons.prems(1) w by simp
  from write_spec [OF this Cons.prems(2,3), of val] obtain ct1 where
    ct1: "write_reg L m c ct x val i = Inr ct1" "enc ct1 (\<lambda>k. u k + (if k = slot_of m x i then val else 0)) (e + \<epsilon>)" by blast
  from Cons.IH [OF _ Cons.prems(2) ct1(2)] Cons.prems(1) ct1(1) show ?case
    by (auto simp: w algebra_simps)
qed simp

lemma slot_sum_written:
  assumes "layout_ok m" "\<forall>(x, _, i) \<in> set ws. register_ok m n x i" "register_ok m n name index"
  shows "slot_sum m ws (slot_of m name index) = written name index ws"
  using assms(2)
proof (induction ws)
  case (Cons w ws)
  obtain x val i where w: "w = (x, val, i)" by (cases w)
  with Cons.prems have "register_ok m n x i" by simp
  then have "slot_of m name index = slot_of m x i \<longleftrightarrow> x = name \<and> i = index"
    using assms(1,3) unfolding layout_ok_def by metis
  then show ?case using Cons by (simp add: w)
qed simp

section \<open>Reading the registers\<close>

lemma unpackPT_lookup:
  assumes "\<forall>(x, off, len) \<in> set m. 0 \<le> off \<and> 0 \<le> len \<and> off + len \<le> int (length pt)"
  shows "\<exists>out. unpackPT m pt = Inr out \<and> map fst out = map fst m
    \<and> (\<forall>x off len. map_of m x = Some (off, len) \<longrightarrow>
        map_of out x = Some (map fst (take (nat len) (drop (nat off) pt))))"
  using assms by (induction m pt rule: unpackPT.induct) (auto simp: sub_vector_def)

lemma unpackPT_at:
  assumes "unpackPT m pt = Inr out" "register_ok m n x i"
  shows "\<exists>v. map_of out x = Some v \<and> nat i < length v \<and> v ! nat i = fst (pt ! slot_of m x i)"
  using assms
proof (induction m arbitrary: out)
  case (Cons r m)
  obtain name off len where r: "r = (name, off, len)" by (cases r)
  obtain tmp rest where t: "sub_vector pt off len = Inr tmp" "unpackPT m pt = Inr rest" "out = (name, map fst tmp) # rest"
    using Cons.prems(1) by (auto simp: r rbind_Inr_iff)
  show ?case
  proof (cases "name = x")
    case True
    have i: "0 \<le> i" "i < len" using Cons.prems(2) by (auto simp: register_ok_def r True)
    have len: "0 \<le> off" "off + len \<le> int (length pt)" "tmp = take (nat len) (drop (nat off) pt)"
      using t(1) by (auto simp: sub_vector_def split: if_splits)
    have "nat off + nat i = nat (off + i)" using i len by simp
    then show ?thesis using i len by (simp add: t(3) True slot_of_def r)
  next
    case False
    then have "register_ok m n x i" "slot_of (r # m) x i = slot_of m x i"
      using Cons.prems(2) by (auto simp: register_ok_def slot_of_def r)
    then show ?thesis using Cons.IH [OF t(2)] False by (simp add: t(3))
  qed
qed (simp add: register_ok_def)

section \<open>The registers of the programs\<close>

lemma initialize_map_eq:
  assumes "26 \<le> ringsize"
  shows "initialize_map ringsize [] = Inr [(''n'', 12, 1), (''v1'', 0, 4), (''v2'', 4, 4), (''v3'', 8, 4)]"
proof -
  have "\<not> ringsize div 2 < 13"
    using assms div_le_mono [of 26 "unat ringsize" 2] by (simp add: word_less_nat_alt word_le_nat_alt unat_div)
  then show ?thesis by (simp add: initialize_map_def register_insert_def smap_ins_def Let_def)
qed

definition the_registers :: register_map where
  "the_registers = [(''n'', 12, 1), (''v1'', 0, 4), (''v2'', 4, 4), (''v3'', 8, 4)]"

lemma initialize_map_the:
  "initialize_map ringsize [] = Inr m \<Longrightarrow> m = the_registers"
  by (auto simp: initialize_map_def register_insert_def smap_ins_def Let_def the_registers_def split: if_splits)

lemma register_ok_the:
  "13 \<le> n \<Longrightarrow> register_ok the_registers n x i \<longleftrightarrow> 0 \<le> i \<and> (x = ''n'' \<and> i < 1 \<or> x \<in> {''v1'', ''v2'', ''v3''} \<and> i < 4)"
  by (auto simp: register_ok_def the_registers_def)

lemma the_registers_layout: "layout_ok the_registers"
proof -
  have wide: "register_ok the_registers (max n 13) x i" if "register_ok the_registers n x i" for n x i
    using that by (auto simp: register_ok_def)
  have "x = y \<and> i = j" if "register_ok the_registers n x i" "register_ok the_registers k y j"
    "slot_of the_registers x i = slot_of the_registers y j" for x i y j n k
    using wide [OF that(1)] wide [OF that(2)] that(3)
    unfolding register_ok_the [OF max.cobounded2] by (auto simp: slot_of_def the_registers_def)
  then show ?thesis by (auto simp: layout_ok_def) (simp add: the_registers_def)
qed

lemma the_registers_unpack:
  assumes "13 \<le> length pt"
  shows "\<exists>out. unpackPT the_registers pt = Inr out"
  using unpackPT_lookup [of the_registers pt] assms by (auto simp: the_registers_def)

text \<open>C37: the registers of one ciphertext are independent accumulators. Start from a ciphertext of zeros, let
  any number of \<^verbatim>\<open>write\<close>s into the registers of \<^verbatim>\<open>initialize_map\<close> follow, each at an index of its
  register, and decrypt: \<^verbatim>\<open>unpackPT\<close> then returns, at every index of every register, the sum of what
  was written there, as the reference definition \<open>written\<close> adds it up, up to the errors of the
  encryption, of the additions and of the decryption.\<close>

theorem registers_hold_sums:
  assumes init: "initialize_map ringsize [] = Inr m" and n: "13 \<le> n"
    and ws: "\<forall>(x, _, i) \<in> set ws. register_ok m n x i"
    and L: "ckks_add_ok L c n \<epsilon> enc" and zero: "enc ct (\<lambda>_. 0) e"
    and dec: "decrypts_ok plain n \<delta> enc"
  shows "\<exists>ct' out. write_all L m c ws ct = Inr ct' \<and> unpackPT m (plain ct') = Inr out
    \<and> (\<forall>x i. register_ok m n x i \<longrightarrow> (\<exists>v. map_of out x = Some v \<and> nat i < length v
        \<and> \<bar>v ! nat i - written x i ws\<bar> \<le> e + of_nat (length ws) * \<epsilon> + \<delta>))"
proof -
  have m: "m = the_registers" using init by (rule initialize_map_the)
  obtain ct' where ct': "write_all L m c ws ct = Inr ct'"
    and e: "enc ct' (\<lambda>k. 0 + slot_sum m ws k) (e + of_nat (length ws) * \<epsilon>)"
    using write_all_spec [OF ws L zero] by blast
  have D: "n \<le> length (plain ct') \<and> (\<forall>k < n. \<bar>fst (plain ct' ! k) - (0 + slot_sum m ws k)\<bar> \<le> (e + of_nat (length ws) * \<epsilon>) + \<delta>)"
    using dec e unfolding decrypts_ok_def by blast
  then have "13 \<le> length (plain ct')" using n by simp
  from the_registers_unpack [OF this] obtain out where out: "unpackPT m (plain ct') = Inr out" by (auto simp: m)
  have "\<exists>v. map_of out x = Some v \<and> nat i < length v \<and> \<bar>v ! nat i - written x i ws\<bar> \<le> e + of_nat (length ws) * \<epsilon> + \<delta>"
    if ok: "register_ok m n x i" for x i
  proof -
    obtain v where v: "map_of out x = Some v" "nat i < length v" "v ! nat i = fst (plain ct' ! slot_of m x i)"
      using unpackPT_at [OF out ok] by blast
    have "slot_of m x i < n" using ok by (auto simp: register_ok_def slot_of_def)
    then have "\<bar>fst (plain ct' ! slot_of m x i) - slot_sum m ws (slot_of m x i)\<bar> \<le> e + of_nat (length ws) * \<epsilon> + \<delta>"
      using D by simp
    then show ?thesis
      using v slot_sum_written [OF the_registers_layout [folded m] ws ok] by simp
  qed
  with ct' out show ?thesis by blast
qed

text \<open>C38: overwriting an element of a register erases all registers behind it: the vector of ones that the
  other elements are multiplied by ends with the register, and the slots after it are multiplied by zero.
  The element has its new value, the slots before the end of the register keep theirs.\<close>

theorem owrite_erases:
  assumes reg: "map_of m name = Some (off, len)" "0 \<le> off" "0 \<le> index" "index < len" "off + len \<le> int n"
    and L: "ckks_mult_ok L c n \<epsilon> enc" "ckks_add_ok L c n \<epsilon> enc" and ct: "enc ct u e" "\<And>k. \<bar>u k\<bar> \<le> a"
  shows "\<exists>ct'. owrite L m c ct name val index = Inr ct'
    \<and> enc ct' (\<lambda>k. if k = nat (off + index) then val else if k < nat (off + len) then u k else 0) (e + a * \<epsilon> + \<epsilon> + \<epsilon>)"
proof -
  have ok: "register_ok m n name index" using reg by (auto simp: register_ok_def)
  let ?v = "(replicate (nat (off + len)) (1 :: rat, 0 :: rat))[nat (off + index) := (0, 0)]"
  have v: "padded ?v k = (if k = nat (off + index) \<or> \<not> k < nat (off + len) then 0 else 1)" for k
    using reg by (auto simp: padded_update padded_replicate)
  have "length ?v \<le> n" using reg by simp
  then obtain pt where pt: "c_MakeCKKSPackedPlaintext L c ?v = Inr pt"
    and mult: "\<forall>x u e a b. enc x u e \<and> (\<forall>k. \<bar>u k\<bar> \<le> a) \<and> (\<forall>k. \<bar>padded ?v k\<bar> \<le> b) \<longrightarrow>
      enc (c_EvalMult L c x pt) (\<lambda>k. u k * padded ?v k) (e * b + a * \<epsilon> + \<epsilon>)"
    using L(1) unfolding ckks_mult_ok_def by blast
  have "\<forall>k. \<bar>padded ?v k\<bar> \<le> 1" by (simp add: v)
  with ct have "enc (c_EvalMult L c ct pt) (\<lambda>k. u k * padded ?v k) (e * 1 + a * \<epsilon> + \<epsilon>)"
    by (intro mult [rule_format] conjI) simp_all
  then have E: "enc (c_EvalMult L c ct pt) (\<lambda>k. u k * padded ?v k) (e + a * \<epsilon> + \<epsilon>)" by simp
  have mul: "mul L m c ct name 0 index = Inr (c_EvalMult L c ct pt)"
    using reg pt by (simp add: mul_def get_offset_def get_length_def filled_vector_def set_at_def)
  from write_spec [OF ok L(2) E, of val] obtain ct' where
    ct': "write_reg L m c (c_EvalMult L c ct pt) name val index = Inr ct'"
    "enc ct' (\<lambda>k. u k * padded ?v k + (if k = slot_of m name index then val else 0)) (e + a * \<epsilon> + \<epsilon> + \<epsilon>)" by blast
  have "(\<lambda>k. u k * padded ?v k + (if k = slot_of m name index then val else 0)) =
      (\<lambda>k. if k = nat (off + index) then val else if k < nat (off + len) then u k else 0)"
    using reg by (auto simp: fun_eq_iff v slot_of_def)
  with ct' mul show ?thesis by (simp add: owrite_def add_def)
qed

section \<open>A concrete instance\<close>

definition rat_code :: "rat \<Rightarrow> nat list" where
  "rat_code x = (case quotient_of x of (a, b) \<Rightarrow> [if a < 0 then 1 else 0, nat \<bar>a\<bar>, nat b])"

fun rats_of :: "nat list \<Rightarrow> rat list" where
  "rats_of (s # a # b # ns) = (if s = 1 then - of_nat a else of_nat a) / of_nat b # rats_of ns"
| "rats_of _ = []"

lemma rats_of_code: "rats_of (concat (map rat_code xs)) = xs"
proof (induction xs)
  case (Cons x xs)
  obtain a b where q: "quotient_of x = (a, b)" by fastforce
  have x: "0 < b" "of_int a / of_int b = x" using quotient_of_denom_pos [OF q] quotient_of_div [OF q] by simp_all
  have "rat_code x = [if a < 0 then 1 else 0, nat \<bar>a\<bar>, nat b]" by (simp add: rat_code_def q)
  then show ?case using Cons x by (cases "a < 0") simp_all
qed simp

definition toy_ckks :: "(nat, nat, nat, nat, nat, rat list, cplx list) ckks_lib" where
  \<comment> \<open>a ciphertext is the list of its slots\<close>
  "toy_ckks = \<lparr> c_keys = toy_path, c_GenCryptoContext = (\<lambda>_. 0),
     c_ser_cc = (\<lambda>n. enc_nats [n]), c_deser_cc = (\<lambda>s. Inr (hd (dec_nats s))),
     c_ser_ct = (\<lambda>xs. enc_nats (0 # concat (map rat_code xs))), c_deser_ct = (\<lambda>s. Inr (rats_of (tl (dec_nats s)))), c_ClearKeys = (\<lambda>c. c), c_InsertEvalMultKey = (\<lambda>c _. c),
     c_InsertEvalSumKey = (\<lambda>c _. c), c_CyclotomicOrder = (\<lambda>_. 64), c_MakeCKKSPackedPlaintext = (\<lambda>_ v. Inr v),
     c_Encrypt = (\<lambda>_ _ v. map (padded v) [0..<16]),
     c_EvalAdd = (\<lambda>_ a v. map (\<lambda>k. a ! k + padded v k) [0..<16]),
     c_EvalMult = (\<lambda>_ a v. map (\<lambda>k. a ! k * padded v k) [0..<16]),
     c_MultipartyDecryptLead = (\<lambda>_ cts _. cts), c_MultipartyDecryptMain = (\<lambda>_ cts _. cts),
     c_MultipartyDecryptFusion = (\<lambda>_ cts. map (\<lambda>x. (x, 0)) (hd cts)), c_GetCKKSPackedValue = take \<rparr>"

definition toy_enc :: "rat list slots" where
  "toy_enc ct u e \<longleftrightarrow> ct = map u [0..<16] \<and> e = 0"

lemma toy_ckks_ok: "ckks_add_ok toy_ckks c n 0 toy_enc" "ckks_mult_ok toy_ckks c n 0 toy_enc"
  by (auto simp: ckks_add_ok_def ckks_mult_ok_def toy_ckks_def toy_enc_def simp del: upt_Suc)

lemma the_registers_init: "initialize_map 32 [] = Inr the_registers"
  using initialize_map_eq [of 32] by (simp add: the_registers_def)

lemma registers_hold_sums_witness:
  "\<exists>ct' out. write_all toy_ckks the_registers 0 [(''v1'', 5, 0), (''n'', 1, 0), (''v1'', 7, 1), (''n'', 1, 0)] (map (\<lambda>_. 0) [0..<16]) = Inr ct'
     \<and> unpackPT the_registers (map (\<lambda>x. (x, 0)) ct') = Inr out
     \<and> (\<exists>v. map_of out ''n'' = Some v \<and> v ! 0 = 2) \<and> (\<exists>v. map_of out ''v1'' = Some v \<and> v ! 1 = 7)"
proof -
  let ?ws = "[(''v1'', 5, 0), (''n'', 1, 0), (''v1'', 7, 1), (''n'', 1, 0)] :: (string \<times> rat \<times> int) list"
  have zero: "toy_enc (map (\<lambda>_. 0) [0..<16]) (\<lambda>_. 0) 0" by (simp add: toy_enc_def)
  have ws: "\<forall>(x, _, i) \<in> set ?ws. register_ok the_registers 16 x i" by (simp add: register_ok_the)
  have dec: "decrypts_ok (map (\<lambda>x. (x, 0))) 16 0 toy_enc"
    by (simp add: decrypts_ok_def toy_enc_def del: upt_Suc)
  have n: "13 \<le> (16 :: nat)" by simp
  obtain ct' out where r: "write_all toy_ckks the_registers 0 ?ws (map (\<lambda>_. 0) [0..<16]) = Inr ct'"
    "unpackPT the_registers (map (\<lambda>x. (x, 0)) ct') = Inr out"
    "\<forall>x i. register_ok the_registers 16 x i \<longrightarrow> (\<exists>v. map_of out x = Some v \<and> nat i < length v
        \<and> \<bar>v ! nat i - written x i ?ws\<bar> \<le> 0 + of_nat (length ?ws) * 0 + 0)"
    using registers_hold_sums [where plain = "map (\<lambda>x. (x, 0))", OF the_registers_init n ws toy_ckks_ok(1) [of 0 16] zero dec]
    by (elim exE conjE) (rule that)
  show ?thesis using r(1,2) r(3) [rule_format, of "''n''" 0] r(3) [rule_format, of "''v1''" 1] by (simp add: register_ok_the) blast
qed

lemma owrite_erases_witness:
  "\<exists>ct'. owrite toy_ckks the_registers 0 (map (\<lambda>k. of_nat k) [0..<16]) ''v1'' 9 2 = Inr ct'
    \<and> toy_enc ct' (\<lambda>k. if k = 2 then 9 else if k < 4 then (if k < 16 then of_nat k else 0) else 0) 0"
proof -
  have "toy_enc (map (\<lambda>k. of_nat k) [0..<16]) (\<lambda>k. if k < 16 then of_nat k else 0) 0"
    by (simp add: toy_enc_def)
  moreover have "\<bar>if k < 16 then rat_of_nat k else 0\<bar> \<le> 16" for k by simp
  ultimately show ?thesis
    using owrite_erases [where m = the_registers and name = "''v1''" and off = 0 and len = 4 and index = 2 and a = 16 and c = 0 and val = 9
      and u = "\<lambda>k. if k < 16 then of_nat k else 0" and n = 16, OF _ _ _ _ _ toy_ckks_ok(2,1)]
    by (simp add: the_registers_def del: upt_Suc cong: if_cong)
qed

end
