(* ===== verification/Statistics.thy ===== *)
theory Statistics
  imports Registers Measure_Lib
begin

text \<open>
  The statistics demo: the programs of the nodes (\<^verbatim>\<open>network_statistics.cpp\<close>) and of the controller
  (\<^verbatim>\<open>controller_statistics.cpp\<close>). The nodes generate their joint keys along a path, a ciphertext of
  zeros travels down the path and every node writes its three numbers into its elements of the registers
  v1, v2, v3 and increments n; the controller fuses the partial decryptions and prints the
  averages. The programs end with what they print: nothing for a node, the report for the controller.
\<close>

section \<open>The nodes\<close>

record path_input =
  num_of_nodes :: u32
  node_id :: u32
  vectorOfInts :: "int list"

fun input_loop :: "int list \<Rightarrow> u32 \<Rightarrow> path_input \<Rightarrow> path_input" where
  \<comment> \<open>while (fin >> data)\<close>
  "input_loop [] ctr p = p"
| "input_loop (x # xs) ctr p =
     input_loop xs (ctr + 1)
       (if ctr = 0 then p\<lparr>num_of_nodes := word_of_int x\<rparr>
        else if ctr = 1 then p\<lparr>node_id := word_of_int x\<rparr>
        else p\<lparr>vectorOfInts := vectorOfInts p @ [x]\<rparr>)"

definition path_input_of :: "string \<Rightarrow> path_input" where
  "path_input_of inputfile = input_loop (read_ints inputfile) 0 \<lparr> num_of_nodes = 0, node_id = 0, vectorOfInts = [] \<rparr>"

definition checked_input :: "string \<Rightarrow> string \<Rightarrow> path_input result" where
  "checked_input me inputfile =
     (let p = path_input_of inputfile
      in if num_of_nodes p = 0 \<or> node_id p = 0 \<or> me \<noteq> nm (unat (node_id p))
         then Inl (Exit_failure ''Wrong input file'') else Inr p)"

fun write_inputs ::
  "('cc, 'pk, 'sk, 'ek, 'es, 'ct, 'pt) ckks_lib \<Rightarrow> register_map \<Rightarrow> 'cc \<Rightarrow> int list \<Rightarrow> u32 \<Rightarrow> nat list \<Rightarrow> 'ct \<Rightarrow> 'ct result" where
  \<comment> \<open>for (i = 0; i < 3; i++) write(prevCT, cc, "v" + to_string(i + 1), vectorOfInts[i], node_id - 1)\<close>
  "write_inputs L m c v nid [] ct = Inr ct"
| "write_inputs L m c v nid (i # is) ct =
     rbind (Prelude.at ''vectorOfInts'' v i) (\<lambda>x.
     rbind (write_reg L m c ct (''v'' @ digits_of (Suc i)) (to_float (of_int x)) (sint (nid - 1)))
       (write_inputs L m c v nid is))"

definition accumulate ::
  "('cc, 'pk, 'sk, 'ek, 'es, 'ct, 'pt) ckks_lib \<Rightarrow> 'cc \<Rightarrow> u32 \<Rightarrow> path_input \<Rightarrow> 'ct \<Rightarrow> 'ct result" where
  \<comment> \<open>the node's numbers, and the counter\<close>
  "accumulate L c ringsize p prevCT =
     rbind (initialize_map ringsize []) (\<lambda>m.
     rbind (write_inputs L m c (vectorOfInts p) (node_id p) [0..<3] prevCT) (\<lambda>ct.
       add L m c ct ''n'' (to_float 1) 0))"

definition statistics_keys ::
  "('cc, 'pk, 'sk, 'ek, 'es, 'ct, 'pt) ckks_lib \<Rightarrow> string \<Rightarrow> string \<Rightarrow> string \<Rightarrow> nodes_path \<Rightarrow> 'cc
   \<Rightarrow> ('cc \<times> ('pk, 'sk, 'ek, 'es) node_keys) nprog" where
  \<comment> \<open>the joint keys, and what the controller gets of them\<close>
  "statistics_keys L me start_node end_node path c =
     (let K = c_keys L in
      nbind (JointPublickeyGen K me start_node end_node path c node_keys0) (\<lambda>(FinalPubKey, nk).
      nbind (if me = end_node then n_sendSerialMsg (k_ser_pk K) FinalPubKey ''finalpublickey'' ''Controller''
             else nret ()) (\<lambda>_.
      nbind (JointEvalMultkeyGen K me start_node end_node path c nk) (\<lambda>(em, nk).
      nbind (deref ''evalMultFinal'' em) (\<lambda>evalMultFinal.
      let c = c_InsertEvalMultKey L c [evalMultFinal] in
      nbind (if me = start_node then n_sendSerialMsg (k_ser_ek K) evalMultFinal ''evalmultfinal'' ''Controller''
             else nret ()) (\<lambda>_.
      nbind (JointEvalSumkeyGen K me start_node end_node path c nk) (\<lambda>(es, nk).
      nbind (deref ''evalSumFinal'' es) (\<lambda>evalSumFinal.
      let c = c_InsertEvalSumKey L c evalSumFinal in
      nbind (if me = end_node then n_sendSerialMsg (k_ser_es K) evalSumFinal ''evalsumfinal'' ''Controller''
             else nret ()) (\<lambda>_.
        nret (c, nk))))))))))"

definition statistics_round ::
  "('cc, 'pk, 'sk, 'ek, 'es, 'ct, 'pt) ckks_lib \<Rightarrow> string \<Rightarrow> string \<Rightarrow> string \<Rightarrow> nodes_path \<Rightarrow> 'cc \<Rightarrow> u32 \<Rightarrow> path_input \<Rightarrow> 'ct nprog" where
  \<comment> \<open>the ciphertext, down the path and back\<close>
  "statistics_round L me start_node end_node path c ringsize p =
     nbind (if me \<noteq> start_node then n_getSerialMsgWait (c_deser_ct L) ''ciphertext'' (dgetfromNode path)
            else n_getSerialMsgWait (c_deser_ct L) ''zero ciphertext'' ''Controller'') (\<lambda>prevCT.
     nbind (n_lift (accumulate L c ringsize p prevCT)) (\<lambda>prevCT.
     nbind (n_sendSerialMsg (c_ser_ct L) prevCT ''ciphertext''
              (if me = end_node then usendtoNode path else dsendtoNode path)) (\<lambda>_.
     if me \<noteq> end_node
     then nbind (n_getSerialMsgWait (c_deser_ct L) ''ciphertext'' (ugetfromNode path)) (\<lambda>FinalCT.
          if me \<noteq> start_node
          then nbind (n_sendSerialMsg (c_ser_ct L) FinalCT ''ciphertext'' (usendtoNode path)) (\<lambda>_. nret FinalCT)
          else nret FinalCT)
     else nret prevCT)))"

definition network_statistics ::
  "('cc, 'pk, 'sk, 'ek, 'es, 'ct, 'pt) ckks_lib \<Rightarrow> string \<Rightarrow> string \<Rightarrow> 'r option nprog" where
  "network_statistics L me inputfile =
     nbind (n_getSerialMsgWait (c_deser_cc L) ''cryptocontext'' ''Controller'') (\<lambda>cc.
     let c = c_ClearKeys L cc; ringsize = c_CyclotomicOrder L c div 2 in
     nbind (n_lift (checked_input me inputfile)) (\<lambda>p.
     let start_node = ''Node1''; end_node = nm (unat (num_of_nodes p)); path = path_of (num_of_nodes p) (node_id p) in
     nbind (statistics_keys L me start_node end_node path c) (\<lambda>(c, nk).
     nbind (statistics_round L me start_node end_node path c ringsize p) (\<lambda>FinalCT.
     nbind (get_keyPair nk) (\<lambda>keyPair.
     nbind (n_lift (Prelude.at ''ciphertextPartial''
              (if me = start_node then c_MultipartyDecryptLead L c [FinalCT] (snd keyPair)
               else c_MultipartyDecryptMain L c [FinalCT] (snd keyPair)) 0)) (\<lambda>partial.
     nbind (n_sendSerialMsg (c_ser_ct L) partial ''partialct'' ''Controller'') (\<lambda>_. nret None)))))))"

section \<open>The controller\<close>

record report =
  mean1 :: "rat option" \<comment> \<open>None when the division gives an infinity or not a number\<close>
  mean2 :: "rat option"
  mean3 :: "rat option"
  total :: int

definition statistics_params :: ckks_params where
  "statistics_params = \<lparr> cp_standardDeviation = ''3.2'', cp_securityLevel = ''HEStd_128_classic'',
     cp_secretKeyDist = ''UNIFORM_TERNARY'', cp_multiplicativeDepth = 1, cp_scalingModSize = 50,
     cp_enabled = [''PKE'', ''KEYSWITCH'', ''LEVELEDSHE'', ''ADVANCEDSHE'', ''MULTIPARTY''] \<rparr>"

fun send_context :: "('cc \<Rightarrow> bytes) \<Rightarrow> 'cc \<Rightarrow> string list \<Rightarrow> unit nprog" where
  "send_context ser c [] = nret ()"
| "send_context ser c (x # xs) = nbind (n_sendSerialMsg ser c ''cryptocontext'' x) (\<lambda>_. send_context ser c xs)"

fun collect_partial_cts :: "(bytes \<Rightarrow> 'ct result) \<Rightarrow> nat \<Rightarrow> string list \<Rightarrow> 'ct option list \<Rightarrow> 'ct option list nprog" where
  \<comment> \<open>partialCiphertextVec[i] = the partial decryption of the ith node\<close>
  "collect_partial_cts deser i [] v = nret v"
| "collect_partial_cts deser i (x # xs) v =
     nbind (n_getSerialMsgWait deser ''partialct'' x) (\<lambda>ct.
       if i < length v then collect_partial_cts deser (Suc i) xs (v[i := Some ct])
       else nthrow (Undefined ''partialCiphertextVec''))"

fun all_present :: "'a option list \<Rightarrow> 'a list result" where
  \<comment> \<open>the fusion dereferences every element\<close>
  "all_present [] = Inr []"
| "all_present (None # xs) = Inl (Undefined ''partialCiphertextVec'')"
| "all_present (Some x # xs) = rbind (all_present xs) (\<lambda>ys. Inr (x # ys))"

definition register_of :: "(string \<times> rat list) list \<Rightarrow> string \<Rightarrow> rat list result" where
  \<comment> \<open>find(name)->second\<close>
  "register_of m name = (case map_of m name of None \<Rightarrow> Inl (Undefined name) | Some v \<Rightarrow> Inr v)"

definition sum_of :: "rat list \<Rightarrow> rat" where
  \<comment> \<open>sum = 0.0; for (auto& v : vec) sum += v\<close>
  "sum_of = foldl dadd 0"

definition statistics_report :: "register_map \<Rightarrow> cplx list \<Rightarrow> report result" where
  "statistics_report m ptvec =
     rbind (unpackPT m ptvec) (\<lambda>unpacked.
     rbind (register_of unpacked ''n'') (\<lambda>n.
     rbind (Prelude.at ''n'' n 0) (\<lambda>num.
     rbind (register_of unpacked ''v1'') (\<lambda>x1.
     rbind (register_of unpacked ''v2'') (\<lambda>x2.
     rbind (register_of unpacked ''v3'') (\<lambda>x3.
       Inr \<lparr> mean1 = ddiv (sum_of x1) num, mean2 = ddiv (sum_of x2) num, mean3 = ddiv (sum_of x3) num,
             total = dround num \<rparr>))))))"

definition controller_statistics ::
  "('cc, 'pk, 'sk, 'ek, 'es, 'ct, 'pt) ckks_lib \<Rightarrow> string list \<Rightarrow> report option nprog" where
  \<comment> \<open>the list is what getConnectedNodes returns\<close>
  "controller_statistics L names =
     (let K = c_keys L; c = c_GenCryptoContext L statistics_params; start_node = ''Node1''; end_node = ''Node3'' in
      nbind (send_context (c_ser_cc L) c names) (\<lambda>_.
      nbind (n_getSerialMsgWait (k_deser_pk K) ''PublicKey'' end_node) (\<lambda>FinalPubKey.
      let ringsize = c_CyclotomicOrder L c div 2 in
      nbind (n_lift (initialize_map ringsize [])) (\<lambda>m.
      let vecsize = unat (ringsize div 4); zeroVector = replicate vecsize (0, 0) @ replicate vecsize (0, 0) in
      nbind (n_lift (c_MakeCKKSPackedPlaintext L c zeroVector)) (\<lambda>zeroPT.
      nbind (n_sendSerialMsg (c_ser_ct L) (c_Encrypt L c FinalPubKey zeroPT) ''zero ciphertext'' start_node) (\<lambda>_.
      nbind (n_getSerialMsgWait (k_deser_ek K) ''evalmixmultkey'' start_node) (\<lambda>evalMultFinal.
      let c = c_InsertEvalMultKey L c [evalMultFinal] in
      nbind (n_getSerialMsgWait (k_deser_es K) ''evalsumkey1'' end_node) (\<lambda>evalSumFinal.
      let c = c_InsertEvalSumKey L c evalSumFinal in
      nbind (collect_partial_cts (c_deser_ct L) 0 names (replicate 3 None)) (\<lambda>partials.
      nbind (n_lift (all_present partials)) (\<lambda>cts.
      let ptvec = c_GetCKKSPackedValue L 16 (c_MultipartyDecryptFusion L c cts) in
      nbind (n_lift (statistics_report m ptvec)) (\<lambda>r. nret (Some r))))))))))))"

end
