(* ===== verification/Statistics_Run.thy ===== *)
theory Statistics_Run
  imports Statistics
begin

text \<open>
  What the controller and the three nodes of the statistics demo send and receive, one after the other (\<open>stat_events\<close>),
  a schedule that plays it to the end (\<open>stat_play\<close>), and the proofs that the programs follow it
  (\<open>controller_follows\<close>, \<open>stat_node_follows\<close>), whatever the keys and ciphertexts are.
\<close>

section \<open>The keys of three nodes\<close>

record ('pk, 'sk, 'ek, 'es) three_keys =
  t_pk1 :: 'pk
  t_sk1 :: 'sk
  t_pk2 :: 'pk
  t_sk2 :: 'sk
  t_pk3 :: 'pk \<comment> \<open>the final public key\<close>
  t_sk3 :: 'sk
  t_em1 :: 'ek
  t_em2 :: 'ek
  t_em3 :: 'ek
  t_mix3 :: 'ek
  t_mix2 :: 'ek
  t_ek :: 'ek \<comment> \<open>the final evaluation key\<close>
  t_es1 :: 'es
  t_own2 :: 'es
  t_sum2 :: 'es
  t_es :: 'es \<comment> \<open>the final rotation keys\<close>

type_synonym ('cc, 'pk, 'sk, 'ek, 'es, 'ct, 'pt) ckks_nodes = "nat \<Rightarrow> ('cc, 'pk, 'sk, 'ek, 'es, 'ct, 'pt) ckks_lib"
  \<comment> \<open>the library of the controller, 0, and of the nodes\<close>

definition ctx_at :: "('cc, 'pk, 'sk, 'ek, 'es, 'ct, 'pt) ckks_nodes \<Rightarrow> nat \<Rightarrow> 'cc" where
  \<comment> \<open>the context before keys are inserted\<close>
  "ctx_at N j = (let c = c_GenCryptoContext (N 0) statistics_params in if j = 0 then c else c_ClearKeys (N j) c)"

definition ctx_mult :: "('cc, 'pk, 'sk, 'ek, 'es, 'ct, 'pt) ckks_nodes \<Rightarrow> nat \<Rightarrow> 'ek \<Rightarrow> 'cc" where
  "ctx_mult N j k = c_InsertEvalMultKey (N j) (ctx_at N j) [k]"

definition ctx_keys :: "('cc, 'pk, 'sk, 'ek, 'es, 'ct, 'pt) ckks_nodes \<Rightarrow> nat \<Rightarrow> ('pk, 'sk, 'ek, 'es) three_keys \<Rightarrow> 'cc" where
  \<comment> \<open>the context with the joint keys\<close>
  "ctx_keys N j T = c_InsertEvalSumKey (N j) (ctx_mult N j (t_ek T)) (t_es T)"

definition three_keys_of :: "('cc, 'pk, 'sk, 'ek, 'es, 'ct, 'pt) ckks_nodes \<Rightarrow> ('pk, 'sk, 'ek, 'es) three_keys" where
  "three_keys_of N =
     (let K1 = c_keys (N 1); K2 = c_keys (N 2); K3 = c_keys (N 3); c1 = ctx_at N 1; c2 = ctx_at N 2; c3 = ctx_at N 3;
          (pk1, sk1) = k_KeyGen K1 c1; (pk2, sk2) = k_MultipartyKeyGen K2 c2 pk1; (pk3, sk3) = k_MultipartyKeyGen K3 c3 pk2;
          em1 = k_KeySwitchGen K1 c1 sk1 sk1;
          em2 = k_MultiAddEvalKeys K2 c2 em1 (k_MultiKeySwitchGen K2 c2 sk2 sk2 em1) (k_KeyTag K2 pk2);
          em3 = k_MultiAddEvalKeys K3 c3 em2 (k_MultiKeySwitchGen K3 c3 sk3 sk3 em2) (k_KeyTag K3 pk3);
          mix3 = k_MultiMultEvalKey K3 c3 sk3 em3 (k_KeyTag K3 pk3);
          mix2 = k_MultiAddEvalMultKeys K2 c2 (k_MultiMultEvalKey K2 c2 sk2 em3 (k_KeyTag K2 pk3)) mix3 (k_KeyTag K2 pk3);
          ek = k_MultiAddEvalMultKeys K1 c1 (k_MultiMultEvalKey K1 c1 sk1 em3 (k_KeyTag K1 pk3)) mix2 (k_KeyTag K1 pk3);
          es1 = k_EvalSumKeyGen K1 (ctx_mult N 1 ek) sk1;
          own2 = k_MultiEvalSumKeyGen K2 (ctx_mult N 2 ek) sk2 es1 (k_KeyTag K2 pk2);
          sum2 = k_MultiAddEvalSumKeys K2 (ctx_mult N 2 ek) es1 own2 (k_KeyTag K2 pk2);
          own3 = k_MultiEvalSumKeyGen K3 (ctx_mult N 3 ek) sk3 own2 (k_KeyTag K3 pk3);
          es = k_MultiAddEvalSumKeys K3 (ctx_mult N 3 ek) sum2 own3 (k_KeyTag K3 pk3)
      in \<lparr> t_pk1 = pk1, t_sk1 = sk1, t_pk2 = pk2, t_sk2 = sk2, t_pk3 = pk3, t_sk3 = sk3, t_em1 = em1, t_em2 = em2, t_em3 = em3,
           t_mix3 = mix3, t_mix2 = mix2, t_ek = ek, t_es1 = es1, t_own2 = own2, t_sum2 = sum2, t_es = es \<rparr>)"

lemma three_keys_simps:
  fixes N defines "T \<equiv> three_keys_of N"
    and "K1 \<equiv> c_keys (N 1)" and "K2 \<equiv> c_keys (N 2)" and "K3 \<equiv> c_keys (N 3)"
  shows "k_KeyGen K1 (ctx_at N 1) = (t_pk1 T, t_sk1 T)"
    "k_MultipartyKeyGen K2 (ctx_at N 2) (t_pk1 T) = (t_pk2 T, t_sk2 T)"
    "k_MultipartyKeyGen K3 (ctx_at N 3) (t_pk2 T) = (t_pk3 T, t_sk3 T)"
    "k_KeySwitchGen K1 (ctx_at N 1) (t_sk1 T) (t_sk1 T) = t_em1 T"
    "k_MultiAddEvalKeys K2 (ctx_at N 2) (t_em1 T) (k_MultiKeySwitchGen K2 (ctx_at N 2) (t_sk2 T) (t_sk2 T) (t_em1 T)) (k_KeyTag K2 (t_pk2 T)) = t_em2 T"
    "k_MultiAddEvalKeys K3 (ctx_at N 3) (t_em2 T) (k_MultiKeySwitchGen K3 (ctx_at N 3) (t_sk3 T) (t_sk3 T) (t_em2 T)) (k_KeyTag K3 (t_pk3 T)) = t_em3 T"
    "k_MultiMultEvalKey K3 (ctx_at N 3) (t_sk3 T) (t_em3 T) (k_KeyTag K3 (t_pk3 T)) = t_mix3 T"
    "k_MultiAddEvalMultKeys K2 (ctx_at N 2) (k_MultiMultEvalKey K2 (ctx_at N 2) (t_sk2 T) (t_em3 T) (k_KeyTag K2 (t_pk3 T))) (t_mix3 T) (k_KeyTag K2 (t_pk3 T)) = t_mix2 T"
    "k_MultiAddEvalMultKeys K1 (ctx_at N 1) (k_MultiMultEvalKey K1 (ctx_at N 1) (t_sk1 T) (t_em3 T) (k_KeyTag K1 (t_pk3 T))) (t_mix2 T) (k_KeyTag K1 (t_pk3 T)) = t_ek T"
    "k_EvalSumKeyGen K1 (ctx_mult N 1 (t_ek T)) (t_sk1 T) = t_es1 T"
    "k_MultiEvalSumKeyGen K2 (ctx_mult N 2 (t_ek T)) (t_sk2 T) (t_es1 T) (k_KeyTag K2 (t_pk2 T)) = t_own2 T"
    "k_MultiAddEvalSumKeys K2 (ctx_mult N 2 (t_ek T)) (t_es1 T) (t_own2 T) (k_KeyTag K2 (t_pk2 T)) = t_sum2 T"
    "k_MultiAddEvalSumKeys K3 (ctx_mult N 3 (t_ek T)) (t_sum2 T) (k_MultiEvalSumKeyGen K3 (ctx_mult N 3 (t_ek T)) (t_sk3 T) (t_own2 T) (k_KeyTag K3 (t_pk3 T))) (k_KeyTag K3 (t_pk3 T)) = t_es T"
  unfolding T_def K1_def K2_def K3_def by (simp_all add: three_keys_of_def Let_def split: prod.split)

section \<open>Events\<close>

definition stat_names :: "nat \<Rightarrow> string" where
  "stat_names i = [''Controller'', ''Node1'', ''Node2'', ''Node3''] ! i"

definition stat_codes :: "coded_io list list" where
  \<comment> \<open>who sends what to whom, in order, by the numbers of the nodes and messages\<close>
  "stat_codes =
    [[NOut 1 0, NOut 2 1, NOut 3 2, NIn 3 7, NOut 1 8, NIn 1 17, NIn 3 24, NIn 1 29, NIn 2 30, NIn 3 31],
     [NIn 0 0, NOut 2 3, NIn 2 6, NOut 2 9, NIn 2 12, NIn 2 14, NOut 2 15, NOut 0 17, NOut 2 18, NOut 2 19, NIn 2 23, NIn 0 8, NOut 2 25, NIn 2 28, NOut 0 29],
     [NIn 0 1, NIn 1 3, NOut 3 4, NIn 3 5, NOut 1 6, NIn 1 9, NOut 3 10, NIn 3 11, NOut 1 12, NIn 3 13, NOut 1 14, NIn 1 15, NOut 3 16, NIn 1 18, NIn 1 19, NOut 3 20, NOut 3 21, NIn 3 22, NOut 1 23, NIn 1 25, NOut 3 26, NIn 3 27, NOut 1 28, NOut 0 30],
     [NIn 0 2, NIn 2 4, NOut 2 5, NOut 0 7, NIn 2 10, NOut 2 11, NOut 2 13, NIn 2 16, NIn 2 20, NIn 2 21, NOut 2 22, NOut 0 24, NIn 2 26, NOut 2 27, NOut 0 31]]"

definition stat_schedule :: "nat list" where
  "stat_schedule =
    [0, 0, 0, 1, 1, 2, 2, 2, 3, 3, 3, 3, 0, 0, 2, 2, 1, 1, 2, 2, 3, 3, 3, 2, 2, 2, 2, 1, 1, 1, 1, 1, 1, 2, 2, 2,
     2, 2, 2, 3, 3, 3, 3, 3, 0, 0, 2, 2, 1, 1, 1, 2, 2, 3, 3, 3, 2, 2, 2, 1, 1, 0, 0, 0]"

definition stat_messages ::
  "('cc, 'pk, 'sk, 'ek, 'es, 'ct, 'pt) ckks_nodes \<Rightarrow> ('pk, 'sk, 'ek, 'es) three_keys \<Rightarrow> (nat \<Rightarrow> 'ct) \<Rightarrow> (nat \<Rightarrow> 'ct) \<Rightarrow> message_format list" where
  "stat_messages N T w a =
    [msg ''Controller'' ''cryptocontext'' (c_ser_cc (N 0) (ctx_at N 0)),
     msg ''Controller'' ''cryptocontext'' (c_ser_cc (N 0) (ctx_at N 0)),
     msg ''Controller'' ''cryptocontext'' (c_ser_cc (N 0) (ctx_at N 0)),
     msg ''Node1'' ''PublicKey'' (k_ser_pk (c_keys (N 1)) (t_pk1 T)),
     msg ''Node2'' ''PublicKey'' (k_ser_pk (c_keys (N 2)) (t_pk2 T)),
     msg ''Node3'' ''PublicKey'' (k_ser_pk (c_keys (N 3)) (t_pk3 T)),
     msg ''Node2'' ''PublicKey'' (k_ser_pk (c_keys (N 2)) (t_pk3 T)),
     msg ''Node3'' ''finalpublickey'' (k_ser_pk (c_keys (N 3)) (t_pk3 T)),
     msg ''Controller'' ''zero ciphertext'' (c_ser_ct (N 0) (w 0)),
     msg ''Node1'' ''evalmultkey'' (k_ser_ek (c_keys (N 1)) (t_em1 T)),
     msg ''Node2'' ''evalmultkey'' (k_ser_ek (c_keys (N 2)) (t_em2 T)),
     msg ''Node3'' ''evalmultkey'' (k_ser_ek (c_keys (N 3)) (t_em3 T)),
     msg ''Node2'' ''evalmultkey'' (k_ser_ek (c_keys (N 2)) (t_em3 T)),
     msg ''Node3'' ''evalmixmultkey'' (k_ser_ek (c_keys (N 3)) (t_mix3 T)),
     msg ''Node2'' ''evalmixmultkey'' (k_ser_ek (c_keys (N 2)) (t_mix2 T)),
     msg ''Node1'' ''evalmixmultkey'' (k_ser_ek (c_keys (N 1)) (t_ek T)),
     msg ''Node2'' ''evalmixmultkey'' (k_ser_ek (c_keys (N 2)) (t_ek T)),
     msg ''Node1'' ''evalmultfinal'' (k_ser_ek (c_keys (N 1)) (t_ek T)),
     msg ''Node1'' ''evalSumKeys0'' (k_ser_es (c_keys (N 1)) (t_es1 T)),
     msg ''Node1'' ''evalSumKeys1'' (k_ser_es (c_keys (N 1)) (t_es1 T)),
     msg ''Node2'' ''evalSumKeys0'' (k_ser_es (c_keys (N 2)) (t_own2 T)),
     msg ''Node2'' ''evalSumKeys1'' (k_ser_es (c_keys (N 2)) (t_sum2 T)),
     msg ''Node3'' ''evalSumKeys1'' (k_ser_es (c_keys (N 3)) (t_es T)),
     msg ''Node2'' ''evalSumKeys1'' (k_ser_es (c_keys (N 2)) (t_es T)),
     msg ''Node3'' ''evalsumfinal'' (k_ser_es (c_keys (N 3)) (t_es T)),
     msg ''Node1'' ''ciphertext'' (c_ser_ct (N 1) (w 1)),
     msg ''Node2'' ''ciphertext'' (c_ser_ct (N 2) (w 2)),
     msg ''Node3'' ''ciphertext'' (c_ser_ct (N 3) (w 3)),
     msg ''Node2'' ''ciphertext'' (c_ser_ct (N 2) (w 3)),
     msg ''Node1'' ''partialct'' (c_ser_ct (N 1) (a 1)),
     msg ''Node2'' ''partialct'' (c_ser_ct (N 2) (a 2)),
     msg ''Node3'' ''partialct'' (c_ser_ct (N 3) (a 3))]"

definition stat_events ::
  "('cc, 'pk, 'sk, 'ek, 'es, 'ct, 'pt) ckks_nodes \<Rightarrow> ('pk, 'sk, 'ek, 'es) three_keys \<Rightarrow> (nat \<Rightarrow> 'ct) \<Rightarrow> (nat \<Rightarrow> 'ct) \<Rightarrow> string \<Rightarrow> io list" where
  \<comment> \<open>w j is the ciphertext node j passes on, a j its partial decryption\<close>
  "stat_events N T w a = coded_events stat_names ((!) (stat_messages N T w a)) stat_codes"

definition stat_connected :: "(string \<Rightarrow> string \<Rightarrow> bool) \<Rightarrow> bool" where
  \<comment> \<open>the connections the demo uses\<close>
  "stat_connected conn \<longleftrightarrow> (\<forall>j \<in> {''Node1'', ''Node2'', ''Node3''}. conn ''Controller'' j \<and> conn j ''Controller'')
     \<and> conn ''Node1'' ''Node2'' \<and> conn ''Node2'' ''Node1'' \<and> conn ''Node2'' ''Node3'' \<and> conn ''Node3'' ''Node2''"

lemma stat_names_simps [simp]:
  "stat_names 0 = ''Controller''" "stat_names (Suc 0) = ''Node1''" "stat_names 1 = ''Node1''" "stat_names 2 = ''Node2''" "stat_names 3 = ''Node3''"
  by (simp_all add: stat_names_def)

lemma stat_names_inj: "inj_on stat_names {..<4}"
proof -
  have "{..<4 :: nat} = {0, 1, 2, 3}" by auto
  then show ?thesis by simp
qed

lemma stat_play:
  assumes "stat_connected conn"
  shows "\<exists>T' c'. play conn (map stat_names stat_schedule) (stat_events N T w a) (\<lambda>_ _. []) = Some (T', c')
    \<and> (\<forall>i. T' i = []) \<and> (\<forall>i s. c' i s = [])"
  unfolding stat_events_def
proof (rule sim_runs)
  show "sim stat_schedule stat_codes (replicate 4 (replicate 4 []))" by code_simp
  have "links_used stat_codes = [(0, 2), (0, 3), (0, 1), (1, 2), (1, 0), (2, 3), (2, 1), (2, 0), (3, 2), (3, 0)]" by code_simp
  then show "\<forall>(i, t) \<in> set (links_used stat_codes). conn (stat_names i) (stat_names t)"
    using assms by (simp add: stat_connected_def)
qed (simp_all add: stat_names_inj stat_codes_def)

section \<open>The programs follow their events\<close>

definition stat_serial_ok :: "('cc, 'pk, 'sk, 'ek, 'es, 'ct, 'pt) ckks_nodes \<Rightarrow> bool" where
  \<comment> \<open>every program reads what any other has written\<close>
  "stat_serial_ok N \<longleftrightarrow> (\<forall>i \<le> 3. \<forall>j \<le> 3.
     (\<forall>x. c_ser_cc (N i) x \<noteq> [] \<and> c_deser_cc (N j) (c_ser_cc (N i) x) = Inr x)
   \<and> (\<forall>x. c_ser_ct (N i) x \<noteq> [] \<and> c_deser_ct (N j) (c_ser_ct (N i) x) = Inr x)
   \<and> (\<forall>x. k_ser_pk (c_keys (N i)) x \<noteq> [] \<and> k_deser_pk (c_keys (N j)) (k_ser_pk (c_keys (N i)) x) = Inr x)
   \<and> (\<forall>x. k_ser_ek (c_keys (N i)) x \<noteq> [] \<and> k_deser_ek (c_keys (N j)) (k_ser_ek (c_keys (N i)) x) = Inr x)
   \<and> (\<forall>x. k_ser_es (c_keys (N i)) x \<noteq> [] \<and> k_deser_es (c_keys (N j)) (k_ser_es (c_keys (N i)) x) = Inr x))"

lemma stat_serialD:
  assumes "stat_serial_ok N" "i \<le> 3"
  shows "c_ser_cc (N i) x \<noteq> []" "c_ser_ct (N i) y \<noteq> []" "k_ser_pk (c_keys (N i)) z \<noteq> []" "k_ser_ek (c_keys (N i)) u \<noteq> []"
    "k_ser_es (c_keys (N i)) v \<noteq> []"
    "j \<le> 3 \<Longrightarrow> c_deser_cc (N j) (c_ser_cc (N i) x) = Inr x"
    "j \<le> 3 \<Longrightarrow> c_deser_ct (N j) (c_ser_ct (N i) y) = Inr y"
    "j \<le> 3 \<Longrightarrow> k_deser_pk (c_keys (N j)) (k_ser_pk (c_keys (N i)) z) = Inr z"
    "j \<le> 3 \<Longrightarrow> k_deser_ek (c_keys (N j)) (k_ser_ek (c_keys (N i)) u) = Inr u"
    "j \<le> 3 \<Longrightarrow> k_deser_es (c_keys (N j)) (k_ser_es (c_keys (N i)) v) = Inr v"
  using assms by (auto simp: stat_serial_ok_def)

lemma ctx_folds:
  "j \<noteq> 0 \<Longrightarrow> c_ClearKeys (N j) (ctx_at N 0) = ctx_at N j"
  "c_InsertEvalMultKey (N j) (ctx_at N j) [k] = ctx_mult N j k"
  "c_InsertEvalSumKey (N j) (ctx_mult N j (t_ek T)) (t_es T) = ctx_keys N j T"
  by (simp_all add: ctx_at_def ctx_mult_def ctx_keys_def Let_def)

lemma stat_paths:
  "path_of 3 1 = \<lparr> dsendtoNode = ''Node2'', dgetfromNode = [], usendtoNode = [], ugetfromNode = ''Node2'' \<rparr>"
  "path_of 3 2 = \<lparr> dsendtoNode = ''Node3'', dgetfromNode = ''Node1'', usendtoNode = ''Node1'', ugetfromNode = ''Node3'' \<rparr>"
  "path_of 3 3 = \<lparr> dsendtoNode = [], dgetfromNode = ''Node2'', usendtoNode = ''Node2'', ugetfromNode = [] \<rparr>"
  by code_simp+

lemma nm_3: "nm 3 = ''Node3''"
  by code_simp

lemmas stat_programs = network_statistics_def statistics_keys_def statistics_round_def JointPublickeyGen_def pubkey_down_def
  pubkey_up_def JointEvalMultkeyGen_def evalmult_down_def evalmult_up_def evalmult_final_def JointEvalSumkeyGen_def
  evalsum_down_def evalsum_up_def get_keyPair_def get_FinalPubKey_def deref_def

lemma stat_follows1:
  fixes N defines "T \<equiv> three_keys_of N"
  assumes ser: "stat_serial_ok N"
    and p: "checked_input ''Node1'' f = Inr p" "num_of_nodes p = 3" "node_id p = 1"
    and acc: "accumulate (N 1) (ctx_keys N 1 T) (c_CyclotomicOrder (N 1) (ctx_at N 1) div 2) p (w 0) = Inr (w 1)"
    and partial: "c_MultipartyDecryptLead (N 1) (ctx_keys N 1 T) [w 3] (t_sk1 T) = [a 1]"
  shows "follows ''Node1'' (network_statistics (N 1) ''Node1'' f) (stat_events N T w a ''Node1'') (NRet (Inr None))"
proof -
  note K = three_keys_simps [of N, folded T_def, unfolded One_nat_def]
  have ev: "stat_events N T w a ''Node1'' = map (decoded stat_names ((!) (stat_messages N T w a))) (stat_codes ! 1)"
    by (simp add: stat_events_def coded_events_def stat_codes_def stat_names_def)
  show ?thesis
    unfolding stat_programs ev using p acc partial
    by (simp add: stat_codes_def stat_messages_def Let_def nbind_assoc stat_paths nm_3 ctx_folds K
      follows_put follows_get follows_nret stat_serialD [OF ser])
qed

lemma stat_follows2:
  fixes N defines "T \<equiv> three_keys_of N"
  assumes ser: "stat_serial_ok N"
    and p: "checked_input ''Node2'' f = Inr p" "num_of_nodes p = 3" "node_id p = 2"
    and acc: "accumulate (N 2) (ctx_keys N 2 T) (c_CyclotomicOrder (N 2) (ctx_at N 2) div 2) p (w 1) = Inr (w 2)"
    and partial: "c_MultipartyDecryptMain (N 2) (ctx_keys N 2 T) [w 3] (t_sk2 T) = [a 2]"
  shows "follows ''Node2'' (network_statistics (N 2) ''Node2'' f) (stat_events N T w a ''Node2'') (NRet (Inr None))"
proof -
  note K = three_keys_simps [of N, folded T_def, unfolded One_nat_def]
  have ev: "stat_events N T w a ''Node2'' = map (decoded stat_names ((!) (stat_messages N T w a))) (stat_codes ! 2)"
    by (simp add: stat_events_def coded_events_def stat_codes_def stat_names_def)
  show ?thesis
    unfolding stat_programs ev using p acc partial
    by (simp add: stat_codes_def stat_messages_def Let_def nbind_assoc stat_paths nm_3 ctx_folds K
      follows_put follows_get follows_nret stat_serialD [OF ser])
qed

lemma stat_follows3:
  fixes N defines "T \<equiv> three_keys_of N"
  assumes ser: "stat_serial_ok N"
    and p: "checked_input ''Node3'' f = Inr p" "num_of_nodes p = 3" "node_id p = 3"
    and acc: "accumulate (N 3) (ctx_keys N 3 T) (c_CyclotomicOrder (N 3) (ctx_at N 3) div 2) p (w 2) = Inr (w 3)"
    and partial: "c_MultipartyDecryptMain (N 3) (ctx_keys N 3 T) [w 3] (t_sk3 T) = [a 3]"
  shows "follows ''Node3'' (network_statistics (N 3) ''Node3'' f) (stat_events N T w a ''Node3'') (NRet (Inr None))"
proof -
  note K = three_keys_simps [of N, folded T_def, unfolded One_nat_def]
  have ev: "stat_events N T w a ''Node3'' = map (decoded stat_names ((!) (stat_messages N T w a))) (stat_codes ! 3)"
    by (simp add: stat_events_def coded_events_def stat_codes_def stat_names_def)
  show ?thesis
    unfolding stat_programs ev using p acc partial
    by (simp add: stat_codes_def stat_messages_def Let_def nbind_assoc stat_paths nm_3 ctx_folds K
      follows_put follows_get follows_nret stat_serialD [OF ser])
qed

definition zero_vector :: "u32 \<Rightarrow> cplx list" where
  \<comment> \<open>the plaintext of the first ciphertext\<close>
  "zero_vector ringsize = replicate (unat (ringsize div 4)) (0, 0) @ replicate (unat (ringsize div 4)) (0, 0)"

lemma controller_follows:
  fixes N defines "T \<equiv> three_keys_of N" and "ringsize \<equiv> c_CyclotomicOrder (N 0) (ctx_at N 0) div 2"
  assumes ser: "stat_serial_ok N" and ring: "26 \<le> ringsize"
    and zero: "c_MakeCKKSPackedPlaintext (N 0) (ctx_at N 0) (zero_vector ringsize) = Inr pt"
      "c_Encrypt (N 0) (ctx_at N 0) (t_pk3 T) pt = w 0"
    and report: "statistics_report the_registers (c_GetCKKSPackedValue (N 0) 16
        (c_MultipartyDecryptFusion (N 0) (ctx_keys N 0 T) [a 1, a 2, a 3])) = Inr r"
  shows "follows ''Controller'' (controller_statistics (N 0) [''Node1'', ''Node2'', ''Node3''])
    (stat_events N T w a ''Controller'') (NRet (Inr (Some r)))"
proof -
  have c0: "c_GenCryptoContext (N 0) statistics_params = ctx_at N 0" by (simp add: ctx_at_def)
  have ev: "stat_events N T w a ''Controller'' = map (decoded stat_names ((!) (stat_messages N T w a))) (stat_codes ! 0)"
    by (simp add: stat_events_def coded_events_def stat_codes_def stat_names_def)
  have init: "initialize_map ringsize [] = Inr the_registers"
    using initialize_map_eq [OF ring] by (simp add: the_registers_def)
  have three: "replicate 3 None = [None, None, None]" by (simp add: numeral_3_eq_3)
  show ?thesis
    unfolding controller_statistics_def ev c0 three using zero report init
    by (simp add: stat_codes_def stat_messages_def Let_def nbind_assoc ctx_folds zero_vector_def ringsize_def [symmetric]
      follows_put follows_get follows_nret stat_serialD [OF ser])
qed

end
