(* ===== verification/Path_Correct.thy ===== *)
theory Path_Correct
  imports Path_Keys P2P_Runs
begin

text \<open>
  Any number of nodes on a path that generate their joint keys: every interleaving of their programs ends
  with the same three keys at every node. The keys are those of the chains \<open>path_pair\<close>, \<open>path_em\<close>, \<open>path_mix\<close>
  and \<open>path_es\<close>; the runs are sweeps down the path and up again.
\<close>

section \<open>Sweeps down and up the path\<close>

lemma turn_get:
  assumes "Data m \<noteq> []" "deser (Data m) = Inr x" "turn i (f x) ins outs q"
  shows "turn i (nbind (n_getSerialMsgWait deser ty s) f) ((s, m) # ins) outs q"
  unfolding n_getSerialMsgWait_def using assms by (simp add: turn_recv)

lemma turn_put:
  assumes "ser x \<noteq> []" "turn i (f ()) ins outs q"
  shows "turn i (nbind (n_sendSerialMsg ser x ty t) f) ins ((t, msg i ty (ser x)) # outs) q"
  unfolding n_sendSerialMsg_def nret_def using assms by (simp add: turn_send)

definition path_connected :: "nat \<Rightarrow> (string \<Rightarrow> string \<Rightarrow> bool) \<Rightarrow> bool" where
  \<comment> \<open>neighbours on the path have each other in their network maps\<close>
  "path_connected n conn \<longleftrightarrow> 2 \<le> n \<and> (\<forall>j. 1 \<le> j \<and> j < n \<longrightarrow> conn (nm j) (nm (Suc j)) \<and> conn (nm (Suc j)) (nm j))"

lemma path_connectedD:
  assumes "path_connected n conn"
  shows "2 \<le> n" "\<And>j. 1 \<le> j \<Longrightarrow> j < n \<Longrightarrow> conn (nm j) (nm (Suc j))" "\<And>j. 1 \<le> j \<Longrightarrow> j < n \<Longrightarrow> conn (nm (Suc j)) (nm j)"
  using assms by (auto simp: path_connected_def)

lemma down_sweep:
  assumes net: "path_connected n conn" and C: "C \<notin> node_names n"
    and turns: "\<And>j. 1 \<le> j \<Longrightarrow> j < n \<Longrightarrow>
      turn (nm j) (R j) (map (Pair (nm (j - 1))) (if j = 1 then [] else M (j - 1))) (map (Pair (nm (Suc j))) (M j)) (Q j)"
  shows "net_reach conn (ring_net y0 C n R L t s [])
    (ring_net y0 C n (\<lambda>j. if 1 \<le> j \<and> j < n then Q j else R j) L n (n - 1) (M (n - 1)))"
proof -
  note two = path_connectedD(1) [OF net] and down = path_connectedD(2) [OF net] and up = path_connectedD(3) [OF net]
  have not_C [simp]: "1 \<le> j \<Longrightarrow> j \<le> n \<Longrightarrow> nm j \<noteq> C" for j using C by auto
  define v where "v i = (if i = 0 then n else i)" for i :: nat
  define ms where "ms i = (if i \<le> 1 then [] else M (i - 1))" for i :: nat
  have "net_reach conn (ring_net y0 C n R L (v 1) (v 0) (ms 1))
      (ring_net y0 C n (\<lambda>j. if j \<in> v ` {1..n - 1} then Q j else R j)
        (\<lambda>j. if j \<in> v ` {1..n - 1} then L j @ msgs_of C (map (Pair (nm (Suc j))) (M j)) else L j)
        (v (Suc (n - 1))) (v (n - 1)) (ms (Suc (n - 1))))"
  proof (rule ring_sweep [where P = R], goal_cases)
    case (1 j)
    with turns [of j] two show ?case by (auto simp: v_def ms_def)
  next
    case (2 j)
    with down [of j] two show ?case by (auto simp: v_def ms_def)
  next
    case (4)
    show ?case by (auto simp: v_def inj_on_def)
  qed (use two C in \<open>auto simp: v_def\<close>)
  also have "v ` {1..n - 1} = {j. 1 \<le> j \<and> j < n}"
    using two by (auto simp: v_def image_iff)
  also have "(\<lambda>j. if j \<in> {j. 1 \<le> j \<and> j < n} then L j @ msgs_of C (map (Pair (nm (Suc j))) (M j)) else L j) = L"
    by (auto simp: fun_eq_iff)
  also have "ring_net y0 C n R L (v 1) (v 0) (ms 1) = ring_net y0 C n R L t s []"
    by (simp add: ms_def) (rule ring_net_quiet)
  finally show ?thesis using two by (simp add: v_def ms_def)
qed

lemma up_sweep:
  assumes net: "path_connected n conn" and C: "C \<notin> node_names n"
    and last: "turn (nm n) (R n) (map (Pair (nm (n - 1))) ms0) (map (Pair (nm (n - 1))) (M n)) (Q n)"
    and turns: "\<And>j. 1 \<le> j \<Longrightarrow> j < n \<Longrightarrow> turn (nm j) (R j) (map (Pair (nm (Suc j))) (M (Suc j)))
        (map (Pair (nm (if j = 1 then 2 else j - 1))) (M j)) (Q j)"
  shows "net_reach conn (ring_net y0 C n R L n (n - 1) ms0) (ring_net y0 C n Q L 2 1 (M 1))"
proof -
  note two = path_connectedD(1) [OF net] and down = path_connectedD(2) [OF net] and up = path_connectedD(3) [OF net]
  have not_C [simp]: "1 \<le> j \<Longrightarrow> j \<le> n \<Longrightarrow> nm j \<noteq> C" for j using C by auto
  define v where "v i = (if i = 0 then n - 1 else if i = Suc n then 2 else Suc n - i)" for i :: nat
  define ms where "ms i = (if i = 1 then ms0 else M (n + 2 - i))" for i :: nat
  define outs where "outs j = map (Pair (nm (if j = 1 then 2 else j - 1))) (M j)" for j
  have "net_reach conn (ring_net y0 C n R L (v 1) (v 0) (ms 1))
      (ring_net y0 C n (\<lambda>j. if j \<in> v ` {1..n} then Q j else R j)
        (\<lambda>j. if j \<in> v ` {1..n} then L j @ msgs_of C (outs j) else L j)
        (v (Suc n)) (v n) (ms (Suc n)))"
  proof (rule ring_sweep [where P = R], goal_cases)
    case (1 j)
    show ?case
    proof (cases "j = 1")
      case True
      with last two show ?thesis by (simp add: v_def ms_def outs_def)
    next
      case False
      have "v (j - 1) = Suc (Suc n - j)" "n + 2 - j = Suc (Suc n - j)" "v j = Suc n - j"
        using 1 False by (auto simp: v_def)
      with turns [of "Suc n - j"] 1 False show ?thesis by (simp add: ms_def outs_def)
    qed
  next
    case (2 j)
    have "v (Suc j) = (if j = n then 2 else n - j)" "v j = Suc n - j" "n + 2 - Suc j = Suc n - j"
      using 2 two by (auto simp: v_def)
    moreover have "conn (nm (Suc n - j)) (nm (if j = n then 2 else n - j))"
      using up [of "n - j"] down [of 1] 2 two by (auto simp: Suc_diff_le numeral_2_eq_2)
    ultimately show ?case using 2 two by (auto simp: outs_def ms_def)
  next
    case (3 j)
    then show ?case using two by (auto simp: v_def)
  next
    case (4)
    show ?case by (auto simp: v_def inj_on_def)
  next
    case (5 j)
    then show ?case using two by (auto simp: v_def)
  qed (use two C in \<open>auto simp: v_def\<close>)
  also have "v ` {1..n} = {1..n}"
  proof -
    have "j \<in> v ` {1..n}" if "j \<in> {1..n}" for j
      using that by (intro image_eqI [of _ _ "Suc n - j"]) (auto simp: v_def)
    then show ?thesis by (auto simp: v_def)
  qed
  also have "ring_net y0 C n (\<lambda>j. if j \<in> {1..n} then Q j else R j) (\<lambda>j. if j \<in> {1..n} then L j @ msgs_of C (outs j) else L j)
      (v (Suc n)) (v n) (ms (Suc n)) = ring_net y0 C n Q L (v (Suc n)) (v n) (ms (Suc n))"
    using two by (intro ring_net_cong) (auto simp: outs_def)
  finally show ?thesis using two by (simp add: v_def ms_def)
qed

lemma back_sweep:
  assumes net: "path_connected n conn" and C: "C \<notin> node_names n"
    and turns: "\<And>j. 1 < j \<Longrightarrow> j \<le> n \<Longrightarrow>
      turn (nm j) (R j) (map (Pair (nm (j - 1))) (M (j - 1))) (if j = n then [] else map (Pair (nm (Suc j))) (M j)) (Q j)"
  shows "net_reach conn (ring_net y0 C n R L 2 1 (M 1)) (ring_net y0 C n (\<lambda>j. if 1 < j then Q j else R j) L 1 n [])"
proof -
  note two = path_connectedD(1) [OF net] and down = path_connectedD(2) [OF net] and up = path_connectedD(3) [OF net]
  have not_C [simp]: "1 \<le> j \<Longrightarrow> j \<le> n \<Longrightarrow> nm j \<noteq> C" for j using C by auto
  define v where "v i = (if i = n then 1 else Suc i)" for i :: nat
  define ms where "ms i = (if i = n then [] else M i)" for i :: nat
  define outs where "outs j = (if j = n then [] else map (Pair (nm (Suc j))) (M j))" for j
  have "net_reach conn (ring_net y0 C n R L (v 1) (v 0) (ms 1))
      (ring_net y0 C n (\<lambda>j. if j \<in> v ` {1..n - 1} then Q j else R j)
        (\<lambda>j. if j \<in> v ` {1..n - 1} then L j @ msgs_of C (outs j) else L j)
        (v (Suc (n - 1))) (v (n - 1)) (ms (Suc (n - 1))))"
  proof (rule ring_sweep [where P = R], goal_cases)
    case (1 j)
    with turns [of "Suc j"] two show ?case by (auto simp: v_def ms_def outs_def)
  next
    case (2 j)
    with down [of "Suc j"] two show ?case by (auto simp: v_def ms_def outs_def)
  next
    case (4)
    show ?case by (auto simp: v_def inj_on_def)
  qed (use two C in \<open>auto simp: v_def\<close>)
  also have "v ` {1..n - 1} = {2..n}"
  proof -
    have "j \<in> v ` {1..n - 1}" if "j \<in> {2..n}" for j
      using that by (intro image_eqI [of _ _ "j - 1"]) (auto simp: v_def)
    then show ?thesis by (auto simp: v_def)
  qed
  also have "ring_net y0 C n (\<lambda>j. if j \<in> {2..n} then Q j else R j) (\<lambda>j. if j \<in> {2..n} then L j @ msgs_of C (outs j) else L j)
      (v (Suc (n - 1))) (v (n - 1)) (ms (Suc (n - 1))) = ring_net y0 C n (\<lambda>j. if 1 < j then Q j else R j) L (v (Suc (n - 1))) (v (n - 1)) (ms (Suc (n - 1)))"
    using two by (intro ring_net_cong) (auto simp: outs_def)
  finally show ?thesis using two by (simp add: v_def ms_def numeral_2_eq_2 split: if_splits)
qed

section \<open>The keys of the path\<close>

type_synonym ('cc, 'pk, 'sk, 'ek, 'es) path_nodes = "nat \<Rightarrow> ('cc, 'pk, 'sk, 'ek, 'es) path_lib \<times> 'cc"
  \<comment> \<open>the library and the context of every node\<close>

abbreviation Lib :: "('cc, 'pk, 'sk, 'ek, 'es) path_nodes \<Rightarrow> nat \<Rightarrow> ('cc, 'pk, 'sk, 'ek, 'es) path_lib" where
  "Lib N j \<equiv> fst (N j)"

abbreviation Ctx :: "('cc, 'pk, 'sk, 'ek, 'es) path_nodes \<Rightarrow> nat \<Rightarrow> 'cc" where
  "Ctx N j \<equiv> snd (N j)"

primrec path_pair :: "('cc, 'pk, 'sk, 'ek, 'es) path_nodes \<Rightarrow> nat \<Rightarrow> 'pk \<times> 'sk" where
  \<comment> \<open>the key pair of node Suc j: each public key extends the one before\<close>
  "path_pair N 0 = k_KeyGen (Lib N 1) (Ctx N 1)"
| "path_pair N (Suc j) = k_MultipartyKeyGen (Lib N (Suc (Suc j))) (Ctx N (Suc (Suc j))) (fst (path_pair N j))"

definition pk_at :: "('cc, 'pk, 'sk, 'ek, 'es) path_nodes \<Rightarrow> nat \<Rightarrow> 'pk" where
  "pk_at N j = fst (path_pair N (j - 1))"

definition sk_at :: "('cc, 'pk, 'sk, 'ek, 'es) path_nodes \<Rightarrow> nat \<Rightarrow> 'sk" where
  "sk_at N j = snd (path_pair N (j - 1))"

primrec path_em :: "('cc, 'pk, 'sk, 'ek, 'es) path_nodes \<Rightarrow> nat \<Rightarrow> 'ek" where
  \<comment> \<open>what node Suc j passes on: the sum of the key switching keys so far\<close>
  "path_em N 0 = k_KeySwitchGen (Lib N 1) (Ctx N 1) (sk_at N 1) (sk_at N 1)"
| "path_em N (Suc j) = (let L = Lib N (Suc (Suc j)); c = Ctx N (Suc (Suc j)); sk = sk_at N (Suc (Suc j))
     in k_MultiAddEvalKeys L c (path_em N j) (k_MultiKeySwitchGen L c sk sk (path_em N j)) (k_KeyTag L (pk_at N (Suc (Suc j)))))"

definition mix_own :: "('cc, 'pk, 'sk, 'ek, 'es) path_nodes \<Rightarrow> nat \<Rightarrow> nat \<Rightarrow> 'ek" where
  \<comment> \<open>the last node's sum, multiplied by the secret key of node j\<close>
  "mix_own N n j = k_MultiMultEvalKey (Lib N j) (Ctx N j) (sk_at N j) (path_em N (n - 1)) (k_KeyTag (Lib N j) (pk_at N n))"

primrec path_mix :: "('cc, 'pk, 'sk, 'ek, 'es) path_nodes \<Rightarrow> nat \<Rightarrow> nat \<Rightarrow> 'ek" where
  \<comment> \<open>what the node d steps above the last one passes up\<close>
  "path_mix N n 0 = mix_own N n n"
| "path_mix N n (Suc d) = (let j = n - Suc d in
     k_MultiAddEvalMultKeys (Lib N j) (Ctx N j) (mix_own N n j) (path_mix N n d) (k_KeyTag (Lib N j) (pk_at N n)))"

primrec path_es :: "('cc, 'pk, 'sk, 'ek, 'es) path_nodes \<Rightarrow> nat \<Rightarrow> 'es \<times> 'es" where
  \<comment> \<open>the rotation keys of node Suc j and their sum so far\<close>
  "path_es N 0 = (let k = k_EvalSumKeyGen (Lib N 1) (Ctx N 1) (sk_at N 1) in (k, k))"
| "path_es N (Suc j) = (let i = Suc (Suc j); L = Lib N i; c = Ctx N i; tag = k_KeyTag L (pk_at N i);
       own = k_MultiEvalSumKeyGen L c (sk_at N i) (fst (path_es N j)) tag
     in (own, k_MultiAddEvalSumKeys L c (snd (path_es N j)) own tag))"

definition path_serial_ok :: "('cc, 'pk, 'sk, 'ek, 'es) path_nodes \<Rightarrow> nat \<Rightarrow> bool" where
  \<comment> \<open>every node reads what any other has written\<close>
  "path_serial_ok N n \<longleftrightarrow> (\<forall>i \<in> {1..n}. \<forall>j \<in> {1..n}.
     (\<forall>x. k_ser_pk (Lib N i) x \<noteq> [] \<and> k_deser_pk (Lib N j) (k_ser_pk (Lib N i) x) = Inr x)
   \<and> (\<forall>x. k_ser_ek (Lib N i) x \<noteq> [] \<and> k_deser_ek (Lib N j) (k_ser_ek (Lib N i) x) = Inr x)
   \<and> (\<forall>x. k_ser_es (Lib N i) x \<noteq> [] \<and> k_deser_es (Lib N j) (k_ser_es (Lib N i) x) = Inr x))"

definition final_keys :: "('cc, 'pk, 'sk, 'ek, 'es) path_nodes \<Rightarrow> nat \<Rightarrow> 'pk \<times> 'ek option \<times> 'es option" where
  "final_keys N n = (pk_at N n, Some (path_mix N n (n - 1)), Some (snd (path_es N (n - 1))))"

section \<open>The programs between the sweeps\<close>

definition nk1 :: "('cc, 'pk, 'sk, 'ek, 'es) path_nodes \<Rightarrow> nat \<Rightarrow> ('pk, 'sk, 'ek, 'es) node_keys" where
  "nk1 N j = node_keys0\<lparr>nk_keyPair := Some (path_pair N (j - 1))\<rparr>"

definition nk2 :: "('cc, 'pk, 'sk, 'ek, 'es) path_nodes \<Rightarrow> nat \<Rightarrow> nat \<Rightarrow> ('pk, 'sk, 'ek, 'es) node_keys" where
  "nk2 N n j = (nk1 N j)\<lparr>nk_FinalPubKey := Some (pk_at N n)\<rparr>"

definition nk3 :: "('cc, 'pk, 'sk, 'ek, 'es) path_nodes \<Rightarrow> nat \<Rightarrow> nat \<Rightarrow> ('pk, 'sk, 'ek, 'es) node_keys" where
  "nk3 N n j = (nk2 N n j)\<lparr>nk_evalMultFinal := Some (path_mix N n (n - 1))\<rparr>"

definition pth :: "nat \<Rightarrow> nat \<Rightarrow> nodes_path" where
  "pth n j = path_of (of_nat n) (of_nat j)"

definition sum_rest ::
  "('cc, 'pk, 'sk, 'ek, 'es) path_nodes \<Rightarrow> nat \<Rightarrow> nat \<Rightarrow> 'pk \<Rightarrow> 'ek option \<Rightarrow> ('pk, 'sk, 'ek, 'es) node_keys
   \<Rightarrow> ('pk \<times> 'ek option \<times> 'es option) nprog" where
  "sum_rest N n j pk em nk =
     nbind (JointEvalSumkeyGen (Lib N j) (nm j) (nm 1) (nm n) (pth n j) (Ctx N j) nk) (\<lambda>(es, _). nret (pk, em, es))"

definition mult_rest ::
  "('cc, 'pk, 'sk, 'ek, 'es) path_nodes \<Rightarrow> nat \<Rightarrow> nat \<Rightarrow> 'pk \<times> ('pk, 'sk, 'ek, 'es) node_keys
   \<Rightarrow> ('pk \<times> 'ek option \<times> 'es option) nprog" where
  "mult_rest N n j = (\<lambda>(pk, nk). nbind (JointEvalMultkeyGen (Lib N j) (nm j) (nm 1) (nm n) (pth n j) (Ctx N j) nk)
     (\<lambda>(em, nk). sum_rest N n j pk em nk))"

lemma path_keys_nm:
  assumes "n < 2 ^ 32" "1 \<le> j" "j \<le> n"
  shows "path_keys (Lib N j) (of_nat n) (of_nat j) (Ctx N j) =
    nbind (JointPublickeyGen (Lib N j) (nm j) (nm 1) (nm n) (pth n j) (Ctx N j) node_keys0) (mult_rest N n j)"
  using assms by (simp add: path_keys_def mult_rest_def sum_rest_def[abs_def] pth_def take_bit_nat_eq_self unat_of_nat Let_def)

lemma u32_of_nat:
  assumes "j < 2 ^ 32"
  shows "unat (of_nat j :: u32) = j"
  using assms by (simp add: unat_of_nat take_bit_nat_eq_self)

lemma u32_less: "i < 2 ^ 32 \<Longrightarrow> j < 2 ^ 32 \<Longrightarrow> (of_nat i :: u32) < of_nat j \<longleftrightarrow> i < j"
  by (simp add: word_less_nat_alt u32_of_nat)

lemma u32_one: "j < 2 ^ 32 \<Longrightarrow> (of_nat j :: u32) = 1 \<longleftrightarrow> j = 1"
  using word_unat_eq_iff [of "of_nat j :: u32" 1] by (simp add: u32_of_nat)

lemma pth_eq:
  assumes "n < 2 ^ 32" "1 \<le> j" "j \<le> n"
  shows "pth n j =
    (if j = 1 then \<lparr> dsendtoNode = nm (Suc j), dgetfromNode = [], usendtoNode = [], ugetfromNode = nm (Suc j) \<rparr>
     else if j < n
     then \<lparr> dsendtoNode = nm (Suc j), dgetfromNode = nm (j - 1), usendtoNode = nm (j - 1), ugetfromNode = nm (Suc j) \<rparr>
     else \<lparr> dsendtoNode = [], dgetfromNode = nm (j - 1), usendtoNode = nm (j - 1), ugetfromNode = [] \<rparr>)"
proof -
  have j: "j < 2 ^ 32" using assms by simp
  have up: "unat ((of_nat j :: u32) + 1) = Suc j" if "j < 2 ^ 32 - 1"
  proof -
    have "(of_nat j :: u32) + 1 = of_nat (Suc j)" by simp
    moreover have "Suc j < 2 ^ 32" using that by simp
    ultimately show ?thesis using u32_of_nat by metis
  qed
  have down: "unat ((of_nat j :: u32) - 1) = j - 1"
  proof -
    have "(of_nat j :: u32) - 1 = of_nat (j - 1)" using assms(2) by simp
    moreover have "j - 1 < 2 ^ 32" using j by simp
    ultimately show ?thesis using u32_of_nat by metis
  qed
  have one: "(1 :: u32) < of_nat j \<longleftrightarrow> 1 < j" using u32_less [of 1 j] j by simp
  show ?thesis
    using up assms u32_less [OF j assms(1)]
    by (auto simp: pth_def path_of_def Let_def down u32_one [OF j] one)
qed

definition stage :: "('cc, 'pk, 'sk, 'ek, 'es) path_nodes \<Rightarrow> nat \<Rightarrow> nat \<Rightarrow> nat \<Rightarrow> ('pk \<times> 'ek option \<times> 'es option) nprog" where
  \<comment> \<open>where the program of node j is between the sweeps\<close>
  "stage N n k j =
     (let L = Lib N j; me = nm j; c = Ctx N j; p = pth n j; pk = pk_at N n; em = Some (path_mix N n (n - 1));
          finish = (\<lambda>(es, _). nret (pk, em, es))
      in if k = 0 then nbind (JointPublickeyGen L me (nm 1) (nm n) p c node_keys0) (mult_rest N n j)
         else if k = 1 then nbind (pubkey_up L me (nm 1) (nm n) p (path_pair N (j - 1), nk1 N j)) (mult_rest N n j)
         else if k = 2 then mult_rest N n j (pk, nk2 N n j)
         else if k = 3 then nbind (evalmult_up L me (nm 1) (nm n) p c (nk2 N n j)) (\<lambda>r.
             nbind (evalmult_final L me (nm 1) (nm n) p (nk2 N n j) r) (\<lambda>(em, nk). sum_rest N n j pk em nk))
         else if k = 4 then (if j = 1 then sum_rest N n j pk em (nk3 N n j)
            else nbind (evalmult_final L me (nm 1) (nm n) p (nk2 N n j) None) (\<lambda>(em, nk). sum_rest N n j pk em nk))
         else if k = 5 then sum_rest N n j pk em (nk3 N n j)
         else if k = 6 then nbind (evalsum_up L me (nm 1) (nm n) p (nk3 N n j) None) finish
         else nret (pk, em, Some (snd (path_es N (n - 1)))))"

definition mails :: "('cc, 'pk, 'sk, 'ek, 'es) path_nodes \<Rightarrow> nat \<Rightarrow> nat \<Rightarrow> nat \<Rightarrow> message_format list" where
  \<comment> \<open>what node j sends in the kth sweep\<close>
  "mails N n k j =
     (let L = Lib N j; me = nm j;
          pk = (\<lambda>x. msg me ''PublicKey'' (k_ser_pk L x)); em = (\<lambda>x. msg me ''evalmultkey'' (k_ser_ek L x));
          mix = (\<lambda>x. msg me ''evalmixmultkey'' (k_ser_ek L x));
          es0 = (\<lambda>x. msg me ''evalSumKeys0'' (k_ser_es L x)); es1 = (\<lambda>x. msg me ''evalSumKeys1'' (k_ser_es L x))
      in if k = 0 then [pk (pk_at N j)]
         else if k = 1 then (if j = 1 then [] else [pk (pk_at N n)])
         else if k = 2 then [em (path_em N (j - 1))]
         else if k = 3 then (if j = 1 then [mix (path_mix N n (n - 1))] else [em (path_em N (n - 1)), mix (path_mix N n (n - j))])
         else if k = 4 then [mix (path_mix N n (n - 1))]
         else if k = 5 then [es0 (fst (path_es N (j - 1))), es1 (snd (path_es N (j - 1)))]
         else (if j = 1 then [] else [es1 (snd (path_es N (n - 1)))]))"

lemma path_serialD:
  assumes "path_serial_ok N n" "1 \<le> i" "i \<le> n"
  shows "k_ser_pk (Lib N i) x \<noteq> []" "k_ser_ek (Lib N i) y \<noteq> []" "k_ser_es (Lib N i) z \<noteq> []"
    "1 \<le> j \<Longrightarrow> j \<le> n \<Longrightarrow> k_deser_pk (Lib N j) (k_ser_pk (Lib N i) x) = Inr x"
    "1 \<le> j \<Longrightarrow> j \<le> n \<Longrightarrow> k_deser_ek (Lib N j) (k_ser_ek (Lib N i) y) = Inr y"
    "1 \<le> j \<Longrightarrow> j \<le> n \<Longrightarrow> k_deser_es (Lib N j) (k_ser_es (Lib N i) z) = Inr z"
  using assms by (auto simp: path_serial_ok_def)

lemmas turn_simps = turn_put turn_get turn_here nbind_assoc stage_def mails_def Let_def

lemma node_cases:
  fixes j :: nat
  assumes "1 \<le> j" "j = 1 \<Longrightarrow> P" "\<And>i. j = Suc (Suc i) \<Longrightarrow> P"
  shows P
  using assms by (cases j; cases "j - 1") auto

lemma last_node:
  assumes "2 \<le> (n :: nat)"
  obtains i where "n = Suc (Suc i)"
  using assms by (cases n; cases "n - 1") auto

lemma turn_pubkey_down:
  assumes "n < 2 ^ 32" "path_serial_ok N n" "1 \<le> j" "j < n"
  shows "turn (nm j) (stage N n 0 j) (map (Pair (nm (j - 1))) (if j = 1 then [] else mails N n 0 (j - 1)))
    (map (Pair (nm (Suc j))) (mails N n 0 j)) (stage N n 1 j)"
  by (rule node_cases [OF assms(3)])
    (use assms(1,4) in \<open>simp_all add: turn_simps JointPublickeyGen_def pubkey_down_def pth_eq pk_at_def nk1_def path_serialD [OF assms(2)]\<close>)

lemma turn_pubkey_last:
  assumes "n < 2 ^ 32" "path_serial_ok N n" "2 \<le> n"
  shows "turn (nm n) (stage N n 0 n) (map (Pair (nm (n - 1))) (mails N n 0 (n - 1)))
    (map (Pair (nm (n - 1))) (mails N n 1 n)) (stage N n 2 n)"
proof -
  obtain i where "n = Suc (Suc i)" using last_node [OF assms(3)] .
  then show ?thesis using assms(1)
    by (simp add: turn_simps JointPublickeyGen_def pubkey_down_def pubkey_up_def pth_eq pk_at_def nk1_def nk2_def path_serialD [OF assms(2)])
qed

lemma turn_pubkey_up:
  assumes "n < 2 ^ 32" "path_serial_ok N n" "1 \<le> j" "j < n"
  shows "turn (nm j) (stage N n 1 j) (map (Pair (nm (Suc j))) (mails N n 1 (Suc j)))
    (map (Pair (nm (if j = 1 then 2 else j - 1))) (mails N n 1 j)) (stage N n 2 j)"
  by (rule node_cases [OF assms(3)])
    (use assms(1,4) in \<open>simp_all add: turn_simps pubkey_up_def pth_eq nk1_def nk2_def path_serialD [OF assms(2)]\<close>)

lemma turn_evalmult_down:
  assumes "n < 2 ^ 32" "path_serial_ok N n" "1 \<le> j" "j < n"
  shows "turn (nm j) (stage N n 2 j) (map (Pair (nm (j - 1))) (if j = 1 then [] else mails N n 2 (j - 1)))
    (map (Pair (nm (Suc j))) (mails N n 2 j)) (stage N n 3 j)"
  by (rule node_cases [OF assms(3)])
    (use assms(1,4) in \<open>simp_all add: turn_simps mult_rest_def JointEvalMultkeyGen_def evalmult_down_def get_keyPair_def deref_def pth_eq
      pk_at_def sk_at_def nk1_def nk2_def path_serialD [OF assms(2)]\<close>)

lemma turn_evalmult_last:
  assumes "n < 2 ^ 32" "path_serial_ok N n" "2 \<le> n"
  shows "turn (nm n) (stage N n 2 n) (map (Pair (nm (n - 1))) (mails N n 2 (n - 1)))
    (map (Pair (nm (n - 1))) (mails N n 3 n)) (stage N n 4 n)"
proof -
  obtain i where "n = Suc (Suc i)" using last_node [OF assms(3)] .
  then show ?thesis using assms(1)
    by (simp add: turn_simps mult_rest_def JointEvalMultkeyGen_def evalmult_down_def evalmult_up_def get_keyPair_def
      get_FinalPubKey_def deref_def pth_eq pk_at_def sk_at_def nk1_def nk2_def mix_own_def path_serialD [OF assms(2)])
qed

lemma path_mix_step:
  assumes "1 \<le> j" "j < n"
  shows "path_mix N n (n - j) = k_MultiAddEvalMultKeys (Lib N j) (Ctx N j)
    (k_MultiMultEvalKey (Lib N j) (Ctx N j) (sk_at N j) (path_em N (n - 1)) (k_KeyTag (Lib N j) (pk_at N n)))
    (path_mix N n (n - Suc j)) (k_KeyTag (Lib N j) (pk_at N n))"
proof -
  obtain d where "n - j = Suc d" "n - Suc d = j" "n - Suc j = d"
    using assms(2) by (metis Suc_diff_Suc diff_diff_cancel less_imp_le_nat)
  then show ?thesis by (simp add: mix_own_def Let_def)
qed

lemma turn_evalmult_up:
  assumes "n < 2 ^ 32" "path_serial_ok N n" "1 \<le> j" "j < n"
  shows "turn (nm j) (stage N n 3 j) (map (Pair (nm (Suc j))) (mails N n 3 (Suc j)))
    (map (Pair (nm (if j = 1 then 2 else j - 1))) (mails N n 3 j)) (stage N n 4 j)"
proof -
  have two: "nm 2 = nm (Suc (Suc 0))" by (simp add: numeral_2_eq_2)
  show ?thesis using path_mix_step [OF assms(3,4), of N] assms(1,3,4)
    by (cases "j = 1") (simp_all add: turn_simps evalmult_up_def evalmult_final_def get_keyPair_def get_FinalPubKey_def deref_def
      pth_eq nk1_def nk2_def nk3_def path_serialD [OF assms(2)] two sk_at_def del: path_em.simps path_mix.simps path_pair.simps)
qed

lemma turn_evalmult_back:
  assumes "n < 2 ^ 32" "path_serial_ok N n" "1 < j" "j \<le> n"
  shows "turn (nm j) (stage N n 4 j) (map (Pair (nm (j - 1))) (mails N n 4 (j - 1)))
    (if j = n then [] else map (Pair (nm (Suc j))) (mails N n 4 j)) (stage N n 5 j)"
  using assms(1,3,4)
  by (cases "j = n") (simp_all add: turn_simps evalmult_final_def pth_eq nk3_def path_serialD [OF assms(2)]
    del: path_em.simps path_mix.simps path_pair.simps)

lemma turn_evalsum_down:
  assumes "n < 2 ^ 32" "path_serial_ok N n" "1 \<le> j" "j < n"
  shows "turn (nm j) (stage N n 5 j) (map (Pair (nm (j - 1))) (if j = 1 then [] else mails N n 5 (j - 1)))
    (map (Pair (nm (Suc j))) (mails N n 5 j)) (stage N n 6 j)"
  by (rule node_cases [OF assms(3)])
    (use assms(1,4) in \<open>simp_all add: turn_simps sum_rest_def JointEvalSumkeyGen_def evalsum_down_def get_keyPair_def deref_def pth_eq
      pk_at_def sk_at_def nk1_def nk2_def nk3_def path_serialD [OF assms(2)]\<close>)

lemma turn_evalsum_last:
  assumes "n < 2 ^ 32" "path_serial_ok N n" "2 \<le> n"
  shows "turn (nm n) (stage N n 5 n) (map (Pair (nm (n - 1))) (mails N n 5 (n - 1)))
    (map (Pair (nm (n - 1))) (mails N n 6 n)) (stage N n 7 n)"
proof -
  obtain i where "n = Suc (Suc i)" using last_node [OF assms(3)] .
  then show ?thesis using assms(1)
    by (simp add: turn_simps sum_rest_def JointEvalSumkeyGen_def evalsum_down_def evalsum_up_def get_keyPair_def deref_def pth_eq
      pk_at_def sk_at_def nk1_def nk2_def nk3_def path_serialD [OF assms(2)] del: path_mix.simps)
qed

lemma turn_evalsum_up:
  assumes "n < 2 ^ 32" "path_serial_ok N n" "1 \<le> j" "j < n"
  shows "turn (nm j) (stage N n 6 j) (map (Pair (nm (Suc j))) (mails N n 6 (Suc j)))
    (map (Pair (nm (if j = 1 then 2 else j - 1))) (mails N n 6 j)) (stage N n 7 j)"
  using assms(1,3,4)
  by (cases "j = 1") (simp_all add: turn_simps evalsum_up_def pth_eq path_serialD [OF assms(2)]
      del: path_em.simps path_mix.simps path_pair.simps path_es.simps)

section \<open>The whole run\<close>

lemma path_round:
  \<comment> \<open>down the path, and up again from the last node\<close>
  assumes net: "path_connected n conn" "C \<notin> node_names n"
    and down: "\<And>j. 1 \<le> j \<Longrightarrow> j < n \<Longrightarrow> turn (nm j) (R0 j) (map (Pair (nm (j - 1))) (if j = 1 then [] else M0 (j - 1)))
        (map (Pair (nm (Suc j))) (M0 j)) (R1 j)"
    and last: "turn (nm n) (R0 n) (map (Pair (nm (n - 1))) (M0 (n - 1))) (map (Pair (nm (n - 1))) (M1 n)) (R2 n)"
    and up: "\<And>j. 1 \<le> j \<Longrightarrow> j < n \<Longrightarrow> turn (nm j) (R1 j) (map (Pair (nm (Suc j))) (M1 (Suc j)))
        (map (Pair (nm (if j = 1 then 2 else j - 1))) (M1 j)) (R2 j)"
  shows "net_reach conn (ring_net y0 C n R0 L t s []) (ring_net y0 C n R2 L 2 1 (M1 1))"
proof -
  let ?R = "\<lambda>j. if 1 \<le> j \<and> j < n then R1 j else R0 j"
  have "net_reach conn (ring_net y0 C n R0 L t s []) (ring_net y0 C n ?R L n (n - 1) (M0 (n - 1)))"
    by (rule down_sweep [OF net]) (rule down)
  also have "net_reach conn \<dots> (ring_net y0 C n R2 L 2 1 (M1 1))"
  proof (rule up_sweep [OF net], goal_cases)
    case 1
    show ?case using last by simp
  next
    case (2 j)
    then show ?case using up [of j] by simp
  qed
  finally show ?thesis .
qed

lemma path_keys_run:
  assumes net: "path_connected n conn" "C \<notin> node_names n" and n: "n < 2 ^ 32" and ser: "path_serial_ok N n"
  shows "net_reach conn (ring_net y0 C n (stage N n 0) L t s []) (ring_net y0 C n (stage N n 7) L t s [])"
proof -
  have two: "2 \<le> n" using net(1) by (rule path_connectedD)
  have "net_reach conn (ring_net y0 C n (stage N n 0) L t s []) (ring_net y0 C n (stage N n 2) L 2 1 (mails N n 1 1))"
    by (rule path_round [OF net turn_pubkey_down [OF n ser] turn_pubkey_last [OF n ser two] turn_pubkey_up [OF n ser]])
  also have "mails N n 1 1 = []" by (simp add: mails_def Let_def)
  also have "ring_net y0 C n (stage N n 2) L 2 1 [] = ring_net y0 C n (stage N n 2) L t s []" by (rule ring_net_quiet)
  also have "net_reach conn \<dots> (ring_net y0 C n (stage N n 4) L 2 1 (mails N n 3 1))"
    by (rule path_round [OF net turn_evalmult_down [OF n ser] turn_evalmult_last [OF n ser two] turn_evalmult_up [OF n ser]])
  also have "mails N n 3 1 = mails N n 4 1" by (simp add: mails_def)
  also have "net_reach conn (ring_net y0 C n (stage N n 4) L 2 1 (mails N n 4 1))
      (ring_net y0 C n (\<lambda>j. if 1 < j then stage N n 5 j else stage N n 4 j) L 1 n [])"
  proof (rule back_sweep [OF net], goal_cases)
    case (1 j)
    with turn_evalmult_back [OF n ser, of j] show ?case by simp
  qed
  also have "\<dots> = ring_net y0 C n (stage N n 5) L 1 n []"
    by (rule ring_net_cong) (auto simp: stage_def Let_def)
  also have "net_reach conn \<dots> (ring_net y0 C n (stage N n 7) L 2 1 (mails N n 6 1))"
    by (rule path_round [OF net turn_evalsum_down [OF n ser] turn_evalsum_last [OF n ser two] turn_evalsum_up [OF n ser]])
  also have "mails N n 6 1 = []" by (simp add: mails_def Let_def)
  also have "ring_net y0 C n (stage N n 7) L 2 1 [] = ring_net y0 C n (stage N n 7) L t s []" by (rule ring_net_quiet)
  finally show ?thesis .
qed

definition path_programs :: "('cc, 'pk, 'sk, 'ek, 'es) path_nodes \<Rightarrow> nat \<Rightarrow> (string \<rightharpoonup> ('pk \<times> 'ek option \<times> 'es option) nprog)" where
  "path_programs N n = (\<lambda>x. if x \<in> node_names n
     then Some (path_keys (Lib N (node_number x)) (of_nat n) (of_nat (node_number x)) (Ctx N (node_number x))) else None)"

lemma path_keys_patient: "patient (path_keys L n j c)"
  unfolding path_keys_def JointPublickeyGen_def pubkey_down_def pubkey_up_def JointEvalMultkeyGen_def evalmult_down_def evalmult_up_def
    evalmult_final_def JointEvalSumkeyGen_def evalsum_down_def evalsum_up_def get_keyPair_def get_FinalPubKey_def deref_def Let_def
  by (auto intro!: patient_nbind split: prod.split option.split)

lemma path_start:
  assumes "n < 2 ^ 32"
  shows "\<lparr> procs = path_programs N n, chan = (\<lambda>_ _. []) \<rparr> =
    ring_net \<lparr> procs = Map.empty, chan = (\<lambda>_ _. []) \<rparr> C n (stage N n 0) (\<lambda>_. []) t s []"
  using assms by (auto simp: ring_net_def path_programs_def fun_eq_iff node_names_def stage_def Let_def path_keys_nm)

text \<open>C5: n nodes on a path, for any n from two, run \<^verbatim>\<open>JointPublickeyGen\<close>, \<^verbatim>\<open>JointEvalMultkeyGen\<close> and
  \<^verbatim>\<open>JointEvalSumkeyGen\<close> one after the other. In every interleaving all programs end, and every node holds the same three
  keys: the last public key of the chain, the evaluation key to which every node added its own
  share on the way up, and the sum of all rotation keys.\<close>

theorem path_keys_agree:
  assumes ok: "p2p_ok who conn y" and sys: "fresh_system (path_programs N n) y"
    and net: "path_connected n conn" and n: "n < 2 ^ 32" and ser: "path_serial_ok N n"
    and reach: "p2p_reach who y u"
  shows "\<exists>z. p2p_reach who u z \<and> (\<forall>j \<in> {1..n}. programs z (nm j) = Some (NRet (Inr (final_keys N n))))"
proof -
  let ?y0 = "\<lparr> procs = Map.empty, chan = (\<lambda>_ _. []) \<rparr>"
  let ?d = "ring_net ?y0 [] n (stage N n 7) (\<lambda>_. []) 1 1 []"
  have "[] \<notin> node_names n" by (auto simp: node_names_def nm_def)
  have y: "net_of y = \<lparr> procs = path_programs N n, chan = (\<lambda>_ _. []) \<rparr>"
    using sys fresh_system_chan [OF sys] by (intro net_eqI) (simp_all add: fresh_system_def)
  have "patient_net (net_of y)"
    by (auto simp: patient_net_def y path_programs_def path_keys_patient split: if_splits)
  moreover have "net_reach conn (net_of y) ?d"
    unfolding y path_start [OF n, of N "[]" 1 1] by (rule path_keys_run) fact+
  moreover have "procs ?d x = Some p \<Longrightarrow> \<exists>r. p = NRet r" "chan ?d x w = []" for x p w
    by (auto simp: ring_net_def stage_def nret_def Let_def split: if_splits)
  then have "settled conn ?d" "delivered ?d"
    by (auto simp: settled_def node_move_def delivered_def split: option.split nprog.split)
  ultimately obtain z where z: "p2p_reach who u z" "net_of z = ?d"
    using p2p_runs_on [OF ok _ _ _ _ reach] by blast
  have "programs z (nm j) = Some (NRet (Inr (final_keys N n)))" if "j \<in> {1..n}" for j
  proof -
    have "programs z (nm j) = procs ?d (nm j)" using z(2) procs_net_of [of z] by metis
    then show ?thesis using that by (simp add: ring_net_def stage_def final_keys_def nret_def Let_def)
  qed
  with z(1) show ?thesis by blast
qed

section \<open>Three nodes\<close>

definition toy_nodes :: "(nat, nat, nat, nat, nat) path_nodes" where
  "toy_nodes j = (toy_path, j)"

definition three_paths :: "(string \<times> (nat \<times> nat option \<times> nat option) nprog) list" where
  "three_paths = [(''Node1'', path_keys toy_path 3 1 1), (''Node2'', path_keys toy_path 3 2 2), (''Node3'', path_keys toy_path 3 3 3)]"

lemma nm_numerals [simp]: "nm 1 = ''Node1''" "nm (Suc 0) = ''Node1''" "nm 2 = ''Node2''" "nm 3 = ''Node3''"
  by (code_simp)+

lemma three_names: "node_names 3 = {''Node1'', ''Node2'', ''Node3''}"
proof -
  have "{1..3 :: nat} = {1, 2, 3}" by auto
  then show ?thesis by (simp add: node_names_def)
qed

lemma three_paths_programs: "map_of three_paths = path_programs toy_nodes 3"
proof -
  have "node_number ''Node1'' = 1" "node_number ''Node2'' = 2" "node_number ''Node3'' = 3"
    using node_number_nm [of 1] node_number_nm [of 2] node_number_nm [of 3] by simp_all
  then show ?thesis by (auto simp: three_paths_def path_programs_def three_names toy_nodes_def fun_eq_iff)
qed

lemma path_keys_agree_witness:
  "\<exists>z. p2p_reach mesh_who (mesh three_paths) z
     \<and> (\<forall>i \<in> {''Node1'', ''Node2'', ''Node3''}. programs z i = Some (NRet (Inr (6, Some 36, Some 6))))"
proof -
  have net: "path_connected 3 (mesh_conn (map fst three_paths))"
    unfolding path_connected_def
  proof (intro conjI allI impI)
    show "mesh_conn (map fst three_paths) (nm j) (nm (Suc j))" "mesh_conn (map fst three_paths) (nm (Suc j)) (nm j)"
      if "1 \<le> j \<and> j < 3" for j
    proof -
      from that have "j = 1 \<or> j = 2" by auto
      then show "mesh_conn (map fst three_paths) (nm j) (nm (Suc j))" "mesh_conn (map fst three_paths) (nm (Suc j)) (nm j)"
        by (auto simp: mesh_conn_def three_paths_def simp flip: numeral_2_eq_2 numeral_3_eq_3)
    qed
  qed simp
  have ser: "path_serial_ok toy_nodes 3" by (simp add: path_serial_ok_def toy_nodes_def toy_path_def)
  have keys: "final_keys toy_nodes 3 = (6, Some 36, Some 6)"
    by (simp add: final_keys_def pk_at_def sk_at_def mix_own_def toy_nodes_def toy_path_def Let_def numeral_3_eq_3)
  have "p2p_reach mesh_who (mesh three_paths) (mesh three_paths)" by (simp add: p2p_reach_def)
  from path_keys_agree [OF mesh_ok mesh_fresh [of three_paths, unfolded three_paths_programs] net _ ser this]
  obtain z where z: "p2p_reach mesh_who (mesh three_paths) z"
    "\<forall>j \<in> {1..3}. programs z (nm j) = Some (NRet (Inr (6, Some 36, Some 6)))"
    by (auto simp: keys)
  have "{1..3 :: nat} = {1, 2, 3}" by auto
  then have "\<forall>j \<in> {1, 2, 3}. programs z (nm j) = Some (NRet (Inr (6, Some 36, Some 6)))" using z(2) by (simp only:)
  then show ?thesis using z(1) by (intro exI [of _ z]) simp
qed

end
