(* ===== verification/Statistics_Correct.thy ===== *)
theory Statistics_Correct
  imports Statistics_Run Path_Correct
begin

text \<open>
  The statistics demo as a whole: the controller and three nodes, on the nodes of the peer to peer framework, in any
  interleaving. All programs end, and the controller reports the averages of the registers it decrypts, which
  hold the numbers of the three nodes and their count up to the errors of CKKS (\<open>stat_scheme_ok\<close>).
\<close>

section \<open>What the nodes write\<close>

definition node_writes :: "path_input \<Rightarrow> (string \<times> rat \<times> int) list" where
  "node_writes p = (let i = sint (node_id p - 1); x = (\<lambda>k. to_float (of_int (vectorOfInts p ! k)))
     in [(''v1'', x 0, i), (''v2'', x 1, i), (''v3'', x 2, i), (''n'', 1, 0)])"

lemma rbind_Inr_right: "rbind m Inr = m"
  by (cases m) simp_all

lemma rbind_assoc: "rbind (rbind m f) g = rbind m (\<lambda>x. rbind (f x) g)"
  by (cases m) simp_all

lemma writes_fun:
  "write_inputs L m c v nid [] = Inr"
  "write_inputs L m c v nid (i # is) = (\<lambda>ct. rbind (Prelude.at ''vectorOfInts'' v i) (\<lambda>x.
     rbind (write_reg L m c ct (''v'' @ digits_of (Suc i)) (to_float (of_int x)) (sint (nid - 1))) (write_inputs L m c v nid is)))"
  "write_all L m c [] = Inr"
  "write_all L m c ((name, val, index) # ws) = (\<lambda>ct. rbind (write_reg L m c ct name val index) (write_all L m c ws))"
  by (simp_all add: fun_eq_iff)

lemma register_names: "''v'' @ digits_of (Suc 0) = ''v1''" "''v'' @ digits_of (Suc (Suc 0)) = ''v2''"
  "''v'' @ digits_of (Suc (Suc (Suc 0))) = ''v3''"
  by code_simp+

lemma accumulate_writes:
  assumes "26 \<le> ringsize" "3 \<le> length (vectorOfInts p)"
  shows "accumulate L c ringsize p ct = write_all L the_registers c (node_writes p) ct"
proof -
  have init: "initialize_map ringsize [] = Inr the_registers"
    using initialize_map_eq [OF assms(1)] by (simp add: the_registers_def)
  have one: "to_float 1 = 1" using fl_small_int [of 1 24] by simp
  have "[0..<3] = [0, Suc 0, Suc (Suc 0)]" by (simp add: upt_rec)
  moreover have "Prelude.at w (vectorOfInts p) 0 = Inr (vectorOfInts p ! 0)" "Prelude.at w (vectorOfInts p) (Suc 0) = Inr (vectorOfInts p ! 1)"
    "Prelude.at w (vectorOfInts p) (Suc (Suc 0)) = Inr (vectorOfInts p ! 2)" for w
    using assms(2) by (auto simp: Prelude.at_def numeral_2_eq_2)
  ultimately show ?thesis
    using register_names
    by (simp add: accumulate_def init node_writes_def Let_def one add_def rbind_Inr_right rbind_assoc writes_fun)
qed

section \<open>What the controller reports\<close>

lemma statistics_report_eq:
  assumes "13 \<le> length pt"
  shows "statistics_report the_registers pt = Inr
    \<lparr> mean1 = ddiv (sum_of (map fst (take 4 pt))) (fst (pt ! 12)),
      mean2 = ddiv (sum_of (map fst (take 4 (drop 4 pt)))) (fst (pt ! 12)),
      mean3 = ddiv (sum_of (map fst (take 4 (drop 8 pt)))) (fst (pt ! 12)), total = dround (fst (pt ! 12)) \<rparr>"
proof -
  have "take (Suc 0) (drop 12 pt) = [pt ! 12]" using assms by (simp add: take_Suc hd_drop_conv_nth)
  then show ?thesis
    using assms by (simp add: statistics_report_def the_registers_def sub_vector_def register_of_def)
qed

lemma dround_near: "\<bar>x - of_int n\<bar> < 1 / 2 \<Longrightarrow> 0 < n \<Longrightarrow> dround x = n"
proof -
  assume x: "\<bar>x - of_int n\<bar> < 1 / 2" "0 < n"
  have "(1 :: rat) \<le> of_int n" using x(2) by simp
  moreover have near: "x - of_int n < 1 / 2" "of_int n - x < 1 / 2" using x(1) by linarith+
  ultimately have "0 < x" by linarith
  moreover have "\<lfloor>x + 1 / 2\<rfloor> = n" using near by (intro floor_unique) linarith+
  ultimately show ?thesis by (simp add: dround_def)
qed

section \<open>The system\<close>

definition stat_scheme_ok ::
  "('cc, 'pk, 'sk, 'ek, 'es, 'ct, 'pt) ckks_nodes \<Rightarrow> rat \<Rightarrow> rat \<Rightarrow> rat \<Rightarrow> 'ct slots \<Rightarrow> bool" where
  \<comment> \<open>with the joint keys, each of encryption, addition of a vector and decryption adds its error\<close>
  "stat_scheme_ok N \<eta> \<epsilon> \<delta> enc \<longleftrightarrow>
     (let T = three_keys_of N; ring = (\<lambda>j. c_CyclotomicOrder (N j) (ctx_at N j) div 2) in
      (\<forall>j \<le> 3. 26 \<le> ring j)
      \<and> (\<exists>pt. c_MakeCKKSPackedPlaintext (N 0) (ctx_at N 0) (zero_vector (ring 0)) = Inr pt
          \<and> enc (c_Encrypt (N 0) (ctx_at N 0) (t_pk3 T) pt) (\<lambda>_. 0) \<eta>)
      \<and> (\<forall>j \<in> {1, 2, 3}. ckks_add_ok (N j) (ctx_keys N j T) 13 \<epsilon> enc)
      \<and> (\<forall>ct u e. enc ct u e \<longrightarrow> (\<exists>a b c. c_MultipartyDecryptLead (N 1) (ctx_keys N 1 T) [ct] (t_sk1 T) = [a]
          \<and> c_MultipartyDecryptMain (N 2) (ctx_keys N 2 T) [ct] (t_sk2 T) = [b]
          \<and> c_MultipartyDecryptMain (N 3) (ctx_keys N 3 T) [ct] (t_sk3 T) = [c]
          \<and> (let v = c_GetCKKSPackedValue (N 0) 16 (c_MultipartyDecryptFusion (N 0) (ctx_keys N 0 T) [a, b, c])
             in length v = 16 \<and> (\<forall>k < 13. \<bar>fst (v ! k) - u k\<bar> \<le> e + \<delta>)))))"

definition stat_programs_of :: "('cc, 'pk, 'sk, 'ek, 'es, 'ct, 'pt) ckks_nodes \<Rightarrow> (nat \<Rightarrow> string) \<Rightarrow> (string \<rightharpoonup> report option nprog)" where
  "stat_programs_of N f = [''Controller'' \<mapsto> controller_statistics (N 0) [''Node1'', ''Node2'', ''Node3''],
     ''Node1'' \<mapsto> network_statistics (N 1) ''Node1'' (f 1), ''Node2'' \<mapsto> network_statistics (N 2) ''Node2'' (f 2),
     ''Node3'' \<mapsto> network_statistics (N 3) ''Node3'' (f 3)]"

lemma network_statistics_patient: "patient (network_statistics L me f)"
  unfolding stat_programs Let_def
  by (auto intro!: patient_nbind split: prod.split option.split)

lemma send_context_patient: "patient (send_context ser c names)"
  by (induction names) (auto intro: patient_nbind)

lemma collect_partial_cts_patient: "patient (collect_partial_cts deser i names v)"
  by (induction names arbitrary: i v) (auto intro!: patient_nbind)

lemma controller_statistics_patient: "patient (controller_statistics L names)"
  unfolding controller_statistics_def Let_def
  by (auto intro!: patient_nbind send_context_patient collect_partial_cts_patient)

lemma node_writes_ok: "node_id p \<in> {1, 2, 3} \<Longrightarrow> \<forall>(x, _, i) \<in> set (node_writes p). register_ok the_registers 13 x i"
  by (auto simp: node_writes_def Let_def register_ok_the)

lemma slot_sum_append: "slot_sum m (ws @ vs) k = slot_sum m ws k + slot_sum m vs k"
  by (simp add: slot_sum_def)

lemma all_writes:
  fixes M :: "nat \<Rightarrow> ('cc, 'pk, 'sk, 'ek, 'es, 'ct, 'pt) ckks_lib" and w :: "nat \<Rightarrow> 'ct"
  assumes L: "\<And>j. j \<in> {1, 2, 3} \<Longrightarrow> ckks_add_ok (M j) (c j) 13 \<epsilon> enc"
    and p: "\<And>j. j \<in> {1, 2, 3 :: nat} \<Longrightarrow> node_id (p j) = of_nat j"
    and zero: "enc (w 0) (\<lambda>_. 0) \<eta>"
  shows "\<exists>w1 w2 w3. write_all (M 1) the_registers (c 1) (node_writes (p 1)) (w 0) = Inr w1
    \<and> write_all (M 2) the_registers (c 2) (node_writes (p 2)) w1 = Inr w2
    \<and> write_all (M 3) the_registers (c 3) (node_writes (p 3)) w2 = Inr w3
    \<and> enc w3 (slot_sum the_registers (node_writes (p 1) @ node_writes (p 2) @ node_writes (p 3))) (\<eta> + 12 * \<epsilon>)"
proof -
  have ok: "\<forall>(x, _, i) \<in> set (node_writes (p j)). register_ok the_registers 13 x i" if "j \<in> {1, 2, 3}" for j
    using p [OF that] that by (intro node_writes_ok) auto
  have len: "length (node_writes (p j)) = 4" for j by (simp add: node_writes_def Let_def)
  obtain w1 where w1: "write_all (M 1) the_registers (c 1) (node_writes (p 1)) (w 0) = Inr w1"
    "enc w1 (\<lambda>k. 0 + slot_sum the_registers (node_writes (p 1)) k) (\<eta> + of_nat (length (node_writes (p 1))) * \<epsilon>)"
    using write_all_spec [OF ok [of 1] L [of 1] zero] by auto
  obtain w2 where w2: "write_all (M 2) the_registers (c 2) (node_writes (p 2)) w1 = Inr w2"
    "enc w2 (\<lambda>k. (0 + slot_sum the_registers (node_writes (p 1)) k) + slot_sum the_registers (node_writes (p 2)) k)
       ((\<eta> + of_nat (length (node_writes (p 1))) * \<epsilon>) + of_nat (length (node_writes (p 2))) * \<epsilon>)"
    using write_all_spec [OF ok [of 2] L [of 2] w1(2)] by auto
  obtain w3 where w3: "write_all (M 3) the_registers (c 3) (node_writes (p 3)) w2 = Inr w3"
    "enc w3 (\<lambda>k. ((0 + slot_sum the_registers (node_writes (p 1)) k) + slot_sum the_registers (node_writes (p 2)) k)
         + slot_sum the_registers (node_writes (p 3)) k)
       (((\<eta> + of_nat (length (node_writes (p 1))) * \<epsilon>) + of_nat (length (node_writes (p 2))) * \<epsilon>) + of_nat (length (node_writes (p 3))) * \<epsilon>)"
    using write_all_spec [OF ok [of 3] L [of 3] w2(2)] by auto
  have "(\<lambda>k. ((0 + slot_sum the_registers (node_writes (p 1)) k) + slot_sum the_registers (node_writes (p 2)) k)
         + slot_sum the_registers (node_writes (p 3)) k)
      = slot_sum the_registers (node_writes (p 1) @ node_writes (p 2) @ node_writes (p 3))"
    by (simp add: fun_eq_iff slot_sum_append)
  moreover have "((\<eta> + of_nat (length (node_writes (p 1))) * \<epsilon>) + of_nat (length (node_writes (p 2))) * \<epsilon>) + of_nat (length (node_writes (p 3))) * \<epsilon>
      = \<eta> + 12 * \<epsilon>" by (simp add: len)
  ultimately have "enc w3 (slot_sum the_registers (node_writes (p 1) @ node_writes (p 2) @ node_writes (p 3))) (\<eta> + 12 * \<epsilon>)"
    using w3(2) by (simp only:)
  with w1(1) w2(1) w3(1) show ?thesis by blast
qed

lemma slot_values:
  assumes p: "\<forall>j \<in> {1, 2, 3 :: nat}. node_id (p j) = of_nat j"
  defines "s \<equiv> slot_sum the_registers (node_writes (p 1) @ node_writes (p 2) @ node_writes (p 3))"
  shows "s 12 = 3" "k < 3 \<Longrightarrow> s (4 * k + 3) = 0"
    "k < 3 \<Longrightarrow> j \<in> {1, 2, 3} \<Longrightarrow> s (4 * k + (j - 1)) = to_float (of_int (vectorOfInts (p j) ! k))"
proof -
  have ids: "node_id (p 1) = 1" "node_id (p 2) = 2" "node_id (p 3) = 3" using p by simp_all
  have k: "k = 0 \<or> k = 1 \<or> k = 2" if "k < 3" using that by auto
  note defs = s_def node_writes_def Let_def ids [unfolded One_nat_def] slot_of_def the_registers_def
  show "s 12 = 3" by (simp add: defs)
  show "s (4 * k + 3) = 0" if "k < 3" using k [OF that] by (elim disjE) (simp_all add: defs)
  show "s (4 * k + (j - 1)) = to_float (of_int (vectorOfInts (p j) ! k))" if "k < 3" "j \<in> {1, 2, 3}"
    using k [OF that(1)] that(2) by (elim disjE insertE emptyE) (simp_all add: defs)
qed

lemma stat_outcome:
  assumes ok: "p2p_ok who conn y" and sys: "fresh_system (stat_programs_of N f) y" and conn: "stat_connected conn"
    and F: "follows ''Controller'' (controller_statistics (N 0) [''Node1'', ''Node2'', ''Node3'']) (stat_events N T w a ''Controller'') (NRet (Inr (Some r)))"
      "follows ''Node1'' (network_statistics (N 1) ''Node1'' (f 1) :: report option nprog) (stat_events N T w a ''Node1'') (NRet (Inr None))"
      "follows ''Node2'' (network_statistics (N 2) ''Node2'' (f 2) :: report option nprog) (stat_events N T w a ''Node2'') (NRet (Inr None))"
      "follows ''Node3'' (network_statistics (N 3) ''Node3'' (f 3) :: report option nprog) (stat_events N T w a ''Node3'') (NRet (Inr None))"
    and reach: "p2p_reach who y u"
  shows "\<exists>z. p2p_reach who u z \<and> (\<forall>i \<in> {''Node1'', ''Node2'', ''Node3''}. programs z i = Some (NRet (Inr None)))
    \<and> programs z ''Controller'' = Some (NRet (Inr (Some r)))"
proof -
  let ?res = "\<lambda>i. Inr (if i = ''Controller'' then Some r else None)"
  obtain T' c' where run: "play conn (map stat_names stat_schedule) (stat_events N T w a) (\<lambda>_ _. []) = Some (T', c')"
    "\<And>i. T' i = []" "\<And>i s. c' i s = []"
    using stat_play [OF conn, of N T w a] by (elim exE conjE) simp
  have progs: "programs y = stat_programs_of N f" using sys by (simp add: fresh_system_def)
  then have dom: "dom (programs y) = {''Controller'', ''Node1'', ''Node2'', ''Node3''}" by (auto simp: stat_programs_of_def)
  have "patient_net (net_of y)"
    using network_statistics_patient controller_statistics_patient
    by (auto simp: patient_net_def progs stat_programs_of_def split: if_splits)
  then have "\<exists>z. p2p_reach who u z \<and> (\<forall>i \<in> dom (programs y). programs z i = Some (NRet (?res i)))"
  proof (rule p2p_outcome [OF ok _ _ run(3) _ _ reach])
    show "play conn (map stat_names stat_schedule) (stat_events N T w a) (chan (net_of y)) = Some (T', c')"
      using run(1) fresh_system_chan [OF sys] by simp
    show "follows i (the (programs y i)) (stat_events N T w a i) (NRet (?res i)) \<and> T' i = []" if "i \<in> dom (programs y)" for i
      using that F run(2) unfolding dom by (auto simp: progs stat_programs_of_def)
    show "stat_events N T w a i = []" if "i \<notin> dom (programs y)" for i
    proof -
      have "{..<length stat_codes} = {0, 1, 2, 3}" by (auto simp: stat_codes_def)
      then show ?thesis using that unfolding dom stat_events_def by (intro coded_events_none) auto
    qed
  qed
  then show ?thesis unfolding dom by auto
qed

abbreviation inputs :: "(nat \<Rightarrow> string) \<Rightarrow> nat \<Rightarrow> path_input" where
  "inputs f j \<equiv> path_input_of (f j)"

definition all_node_writes :: "(nat \<Rightarrow> string) \<Rightarrow> (string \<times> rat \<times> int) list" where
  "all_node_writes f = node_writes (inputs f 1) @ node_writes (inputs f 2) @ node_writes (inputs f 3)"

definition files_ok :: "(nat \<Rightarrow> string) \<Rightarrow> bool" where
  \<comment> \<open>the ith node's file: three nodes, its number, and at least three measurements\<close>
  "files_ok f \<longleftrightarrow> (\<forall>j \<in> {1, 2, 3}. num_of_nodes (inputs f j) = 3 \<and> node_id (inputs f j) = of_nat j
      \<and> 3 \<le> length (vectorOfInts (inputs f j)))"

lemma stat_all_follow:
  assumes ser: "stat_serial_ok N" and scheme: "stat_scheme_ok N \<eta> \<epsilon> \<delta> enc" and files: "files_ok f"
  shows "\<exists>w a v. length v = 16 \<and> (\<forall>k < 13. \<bar>fst (v ! k) - slot_sum the_registers (all_node_writes f) k\<bar> \<le> \<eta> + 12 * \<epsilon> + \<delta>)
    \<and> (\<forall>r. statistics_report the_registers v = Inr r \<longrightarrow>
        follows ''Controller'' (controller_statistics (N 0) [''Node1'', ''Node2'', ''Node3'']) (stat_events N (three_keys_of N) w a ''Controller'') (NRet (Inr (Some r))))
    \<and> follows ''Node1'' (network_statistics (N 1) ''Node1'' (f 1) :: report option nprog) (stat_events N (three_keys_of N) w a ''Node1'') (NRet (Inr None))
    \<and> follows ''Node2'' (network_statistics (N 2) ''Node2'' (f 2) :: report option nprog) (stat_events N (three_keys_of N) w a ''Node2'') (NRet (Inr None))
    \<and> follows ''Node3'' (network_statistics (N 3) ''Node3'' (f 3) :: report option nprog) (stat_events N (three_keys_of N) w a ''Node3'') (NRet (Inr None))"
proof -
  define T where "T = three_keys_of N"
  define p where "p j = inputs f j" for j :: nat
  define ring where "ring j = c_CyclotomicOrder (N j) (ctx_at N j) div 2" for j
  note S = scheme [unfolded stat_scheme_ok_def Let_def, folded T_def ring_def]
  have rings: "26 \<le> ring j" if "j \<le> 3" for j using S that by blast
  obtain pt where zero: "c_MakeCKKSPackedPlaintext (N 0) (ctx_at N 0) (zero_vector (ring 0)) = Inr pt"
    "enc (c_Encrypt (N 0) (ctx_at N 0) (t_pk3 T) pt) (\<lambda>_. 0) \<eta>" using S by blast
  have add: "ckks_add_ok (N j) (ctx_keys N j T) 13 \<epsilon> enc" if "j \<in> {1, 2, 3}" for j using S that by blast
  have pj: "num_of_nodes (p j) = 3" "node_id (p j) = of_nat j" "3 \<le> length (vectorOfInts (p j))" if "j \<in> {1, 2, 3}" for j
    using files that by (auto simp: p_def files_ok_def)
  define w0 where "w0 = c_Encrypt (N 0) (ctx_at N 0) (t_pk3 T) pt"
  define ws where "ws = node_writes (p 1) @ node_writes (p 2) @ node_writes (p 3)"
  obtain w1 w2 w3 where W: "write_all (N 1) the_registers (ctx_keys N 1 T) (node_writes (p 1)) w0 = Inr w1"
    "write_all (N 2) the_registers (ctx_keys N 2 T) (node_writes (p 2)) w1 = Inr w2"
    "write_all (N 3) the_registers (ctx_keys N 3 T) (node_writes (p 3)) w2 = Inr w3"
    and encW: "enc w3 (slot_sum the_registers ws) (\<eta> + 12 * \<epsilon>)"
    using all_writes [of N "\<lambda>j. ctx_keys N j T" \<epsilon> enc p "\<lambda>_. w0" \<eta>] add pj(2) zero(2) by (auto simp: ws_def w0_def)
  obtain a1 a2 a3 where A: "c_MultipartyDecryptLead (N 1) (ctx_keys N 1 T) [w3] (t_sk1 T) = [a1]"
      "c_MultipartyDecryptMain (N 2) (ctx_keys N 2 T) [w3] (t_sk2 T) = [a2]"
      "c_MultipartyDecryptMain (N 3) (ctx_keys N 3 T) [w3] (t_sk3 T) = [a3]"
    and V: "length (c_GetCKKSPackedValue (N 0) 16 (c_MultipartyDecryptFusion (N 0) (ctx_keys N 0 T) [a1, a2, a3])) = 16"
      "\<forall>k < 13. \<bar>fst (c_GetCKKSPackedValue (N 0) 16 (c_MultipartyDecryptFusion (N 0) (ctx_keys N 0 T) [a1, a2, a3]) ! k)
         - slot_sum the_registers ws k\<bar> \<le> \<eta> + 12 * \<epsilon> + \<delta>"
    using S encW by meson
  define w where "w j = (if j = 0 then w0 else if j = 1 then w1 else if j = 2 then w2 else w3)" for j :: nat
  define a where "a j = (if j = 1 then a1 else if j = 2 then a2 else a3)" for j :: nat
  define v where "v = c_GetCKKSPackedValue (N 0) 16 (c_MultipartyDecryptFusion (N 0) (ctx_keys N 0 T) [a 1, a 2, a 3])"
  have v: "length v = 16" "\<And>k. k < 13 \<Longrightarrow> \<bar>fst (v ! k) - slot_sum the_registers ws k\<bar> \<le> \<eta> + 12 * \<epsilon> + \<delta>"
    using V by (simp_all add: v_def a_def)
  have acc: "accumulate (N j) (ctx_keys N j T) (ring j) (p j) (w (j - 1)) = Inr (w j)" if "j \<in> {1, 2, 3}" for j
  proof -
    have "26 \<le> ring j" using that by (intro rings) auto
    note rule = accumulate_writes [OF this pj(3) [OF that]]
    show ?thesis unfolding rule using that W by (auto simp: w_def)
  qed
  have input: "checked_input (nm j) (f j) = Inr (p j)" if "j \<in> {1, 2, 3}" for j
    using pj [OF that] that by (auto simp: checked_input_def p_def Let_def)
  have FC: "follows ''Controller'' (controller_statistics (N 0) [''Node1'', ''Node2'', ''Node3'']) (stat_events N T w a ''Controller'') (NRet (Inr (Some r)))"
    if report: "statistics_report the_registers v = Inr r" for r
    unfolding T_def by (rule controller_follows [where pt = pt])
      (use ser rings [of 0] zero report in \<open>simp_all add: ring_def T_def w_def w0_def v_def\<close>)
  have F: "follows ''Node1'' (network_statistics (N 1) ''Node1'' (f 1) :: report option nprog) (stat_events N T w a ''Node1'') (NRet (Inr None))"
    "follows ''Node2'' (network_statistics (N 2) ''Node2'' (f 2) :: report option nprog) (stat_events N T w a ''Node2'') (NRet (Inr None))"
    "follows ''Node3'' (network_statistics (N 3) ''Node3'' (f 3) :: report option nprog) (stat_events N T w a ''Node3'') (NRet (Inr None))"
    using stat_follows1 [OF ser, of "f 1" "p 1" w a] stat_follows2 [OF ser, of "f 2" "p 2" w a] stat_follows3 [OF ser, of "f 3" "p 3" w a]
      input [of 1] input [of 2] input [of 3] pj [of 1] pj [of 2] pj [of 3] acc [of 1] acc [of 2] acc [of 3] A
    by (simp_all add: T_def ring_def w_def a_def)
  have "ws = all_node_writes f" by (simp add: ws_def all_node_writes_def p_def)
  then show ?thesis using v FC F unfolding T_def by blast
qed

lemma stat_values_near:
  assumes v: "length v = 16" "\<forall>k < 13. \<bar>fst (v ! k) - slot_sum the_registers (all_node_writes f) k\<bar> \<le> E"
    and files: "files_ok f"
  shows "\<exists>x num. statistics_report the_registers v = Inr \<lparr> mean1 = ddiv (sum_of (x 0)) num,
        mean2 = ddiv (sum_of (x 1)) num, mean3 = ddiv (sum_of (x 2)) num, total = dround num \<rparr>
    \<and> \<bar>num - 3\<bar> \<le> E
    \<and> (\<forall>k < 3. length (x k) = 4 \<and> \<bar>x k ! 3\<bar> \<le> E
        \<and> (\<forall>j \<in> {1, 2, 3}. \<bar>x k ! (j - 1) - to_float (of_int (vectorOfInts (inputs f j) ! k))\<bar> \<le> E))
    \<and> (E < 1 / 2 \<longrightarrow> dround num = 3)"
proof -
  define num where "num = fst (v ! 12)"
  define x where "x k = map fst (take 4 (drop (4 * k) v))" for k
  have report: "statistics_report the_registers v = Inr \<lparr> mean1 = ddiv (sum_of (x 0)) num,
      mean2 = ddiv (sum_of (x 1)) num, mean3 = ddiv (sum_of (x 2)) num, total = dround num \<rparr>"
    using statistics_report_eq [of v] v(1) by (simp add: x_def num_def)
  have "\<forall>j \<in> {1, 2, 3}. node_id (inputs f j) = of_nat j" using files by (auto simp: files_ok_def)
  note s = slot_values [of "inputs f", OF this, folded all_node_writes_def]
  have num: "\<bar>num - 3\<bar> \<le> E" using v(2) [rule_format, of 12] s(1) by (simp add: num_def)
  have xs: "length (x k) = 4" "\<And>i. i < 4 \<Longrightarrow> x k ! i = fst (v ! (4 * k + i))" if "k < 3" for k
    using that v(1) by (simp_all add: x_def)
  have x3: "\<bar>x k ! 3\<bar> \<le> E" if "k < 3" for k
    using that v(2) [rule_format, of "4 * k + 3"] s(2) [OF that] xs [OF that] by simp
  have xj: "\<bar>x k ! (j - 1) - to_float (of_int (vectorOfInts (inputs f j) ! k))\<bar> \<le> E" if "k < 3" "j \<in> {1, 2, 3}" for k j
  proof -
    have i: "j - 1 < 4" "4 * k + (j - 1) < 13" using that by auto
    show ?thesis using v(2) [rule_format, OF i(2)] unfolding s(3) [OF that] xs(2) [OF that(1) i(1)] .
  qed
  have "E < 1 / 2 \<Longrightarrow> dround num = 3" using num by (intro dround_near) simp_all
  with report num x3 xj xs(1) show ?thesis by blast
qed

text \<open>C9: the statistics demo computes the averages. Run the controller and three nodes on the nodes of the peer to peer
  framework, the ith node with an input file for three nodes and number i that holds three numbers. In every
  interleaving all four programs end. The controller prints the averages of three registers of four numbers,
  divided by a count: up to the error \<open>\<eta> + 12 * \<epsilon> + \<delta>\<close> the count is 3, the ith number of a register is
  what the ith node had in its file, rounded to a \<^verbatim>\<open>float\<close>, and the fourth one zero. If the error
  is below a half, the printed number of elements is exactly 3.\<close>

theorem statistics_correct:
  assumes ok: "p2p_ok who conn y" and sys: "fresh_system (stat_programs_of N f) y" and conn: "stat_connected conn"
    and ser: "stat_serial_ok N" and scheme: "stat_scheme_ok N \<eta> \<epsilon> \<delta> enc"
    and files: "files_ok f"
    and reach: "p2p_reach who y u"
  shows "\<exists>z x num. p2p_reach who u z
    \<and> (\<forall>i \<in> {''Node1'', ''Node2'', ''Node3''}. programs z i = Some (NRet (Inr None)))
    \<and> programs z ''Controller'' = Some (NRet (Inr (Some \<lparr> mean1 = ddiv (sum_of (x 0)) num,
        mean2 = ddiv (sum_of (x 1)) num, mean3 = ddiv (sum_of (x 2)) num, total = dround num \<rparr>)))
    \<and> \<bar>num - 3\<bar> \<le> \<eta> + 12 * \<epsilon> + \<delta>
    \<and> (\<forall>k < 3. length (x k) = 4 \<and> \<bar>x k ! 3\<bar> \<le> \<eta> + 12 * \<epsilon> + \<delta>
        \<and> (\<forall>j \<in> {1, 2, 3}. \<bar>x k ! (j - 1) - to_float (of_int (vectorOfInts (inputs f j) ! k))\<bar> \<le> \<eta> + 12 * \<epsilon> + \<delta>))
    \<and> (\<eta> + 12 * \<epsilon> + \<delta> < 1 / 2 \<longrightarrow> dround num = 3)"
proof -
  obtain w a v where v: "length v = 16" "\<forall>k < 13. \<bar>fst (v ! k) - slot_sum the_registers (all_node_writes f) k\<bar> \<le> \<eta> + 12 * \<epsilon> + \<delta>"
    and FC: "\<And>r. statistics_report the_registers v = Inr r \<Longrightarrow>
        follows ''Controller'' (controller_statistics (N 0) [''Node1'', ''Node2'', ''Node3'']) (stat_events N (three_keys_of N) w a ''Controller'') (NRet (Inr (Some r)))"
    and F: "follows ''Node1'' (network_statistics (N 1) ''Node1'' (f 1) :: report option nprog) (stat_events N (three_keys_of N) w a ''Node1'') (NRet (Inr None))"
      "follows ''Node2'' (network_statistics (N 2) ''Node2'' (f 2) :: report option nprog) (stat_events N (three_keys_of N) w a ''Node2'') (NRet (Inr None))"
      "follows ''Node3'' (network_statistics (N 3) ''Node3'' (f 3) :: report option nprog) (stat_events N (three_keys_of N) w a ''Node3'') (NRet (Inr None))"
    using stat_all_follow [OF ser scheme files] by blast
  from stat_values_near [OF v files] obtain x num where
    r: "statistics_report the_registers v = Inr \<lparr> mean1 = ddiv (sum_of (x 0)) num,
        mean2 = ddiv (sum_of (x 1)) num, mean3 = ddiv (sum_of (x 2)) num, total = dround num \<rparr>"
    and near: "\<bar>num - 3\<bar> \<le> \<eta> + 12 * \<epsilon> + \<delta>"
      "\<forall>k < 3. length (x k) = 4 \<and> \<bar>x k ! 3\<bar> \<le> \<eta> + 12 * \<epsilon> + \<delta>
        \<and> (\<forall>j \<in> {1, 2, 3}. \<bar>x k ! (j - 1) - to_float (of_int (vectorOfInts (inputs f j) ! k))\<bar> \<le> \<eta> + 12 * \<epsilon> + \<delta>)"
      "\<eta> + 12 * \<epsilon> + \<delta> < 1 / 2 \<longrightarrow> dround num = 3"
    by (elim exE conjE) (rule that)
  from stat_outcome [OF ok sys conn FC [OF r] F reach] near show ?thesis by blast
qed

section \<open>A concrete instance\<close>

definition toy_files :: "nat \<Rightarrow> string" where
  "toy_files j = (if j = 1 then ''3 1 10 20 30'' else if j = 2 then ''3 2 40 50 60'' else ''3 3 100 110 -120'')"

definition toy_stat :: "(string \<times> report option nprog) list" where
  "toy_stat = [(''Node1'', network_statistics toy_ckks ''Node1'' (toy_files 1)), (''Node2'', network_statistics toy_ckks ''Node2'' (toy_files 2)),
     (''Node3'', network_statistics toy_ckks ''Node3'' (toy_files 3)),
     (''Controller'', controller_statistics toy_ckks [''Node1'', ''Node2'', ''Node3''])]"

lemma toy_inputs: "inputs toy_files 1 = \<lparr> num_of_nodes = 3, node_id = 1, vectorOfInts = [10, 20, 30] \<rparr>"
  "inputs toy_files 2 = \<lparr> num_of_nodes = 3, node_id = 2, vectorOfInts = [40, 50, 60] \<rparr>"
  "inputs toy_files 3 = \<lparr> num_of_nodes = 3, node_id = 3, vectorOfInts = [100, 110, -120] \<rparr>"
  by code_simp+

lemma toy_stat_serial: "stat_serial_ok (\<lambda>_. toy_ckks)"
  by (simp add: stat_serial_ok_def toy_ckks_def toy_path_def rats_of_code)

lemma toy_stat_scheme: "stat_scheme_ok (\<lambda>_. toy_ckks) 0 0 0 toy_enc"
proof -
  have "26 \<le> c_CyclotomicOrder toy_ckks c div 2" for c by (simp add: toy_ckks_def)
  moreover have "c_MakeCKKSPackedPlaintext toy_ckks c v = Inr v" for c v by (simp add: toy_ckks_def)
  moreover have "toy_enc (c_Encrypt toy_ckks c pk (zero_vector r)) (\<lambda>_. 0) 0" for c pk r
    by (simp add: toy_ckks_def toy_enc_def zero_vector_def padded_def nth_append del: upt_Suc)
  moreover have "\<exists>x y z. c_MultipartyDecryptLead toy_ckks c1 [ct] s1 = [x] \<and> c_MultipartyDecryptMain toy_ckks c2 [ct] s2 = [y]
      \<and> c_MultipartyDecryptMain toy_ckks c3 [ct] s3 = [z]
      \<and> (let v = c_GetCKKSPackedValue toy_ckks 16 (c_MultipartyDecryptFusion toy_ckks c [x, y, z])
         in length v = 16 \<and> (\<forall>k < 13. \<bar>fst (v ! k) - u k\<bar> \<le> e + 0))"
    if "toy_enc ct u e" for ct u e c1 s1 c2 s2 c3 s3 c
    using that by (simp add: toy_ckks_def toy_enc_def Let_def del: upt_Suc)
  ultimately show ?thesis
    unfolding stat_scheme_ok_def Let_def using toy_ckks_ok(1) by (intro conjI allI impI ballI) blast+
qed

lemma statistics_correct_witness:
  "\<exists>z. p2p_reach mesh_who (mesh toy_stat) z \<and> (\<exists>r. programs z ''Controller'' = Some (NRet (Inr (Some r))) \<and> total r = 3
     \<and> mean1 r = Some 50 \<and> mean2 r = Some 60 \<and> mean3 r = Some (-10))"
proof -
  have progs: "map_of toy_stat = stat_programs_of (\<lambda>_. toy_ckks) toy_files"
    by (auto simp: toy_stat_def stat_programs_of_def fun_eq_iff)
  have conn: "stat_connected (mesh_conn (map fst toy_stat))" by (simp add: stat_connected_def mesh_conn_def toy_stat_def)
  have files: "files_ok toy_files" using toy_inputs by (simp add: files_ok_def)
  have "p2p_reach mesh_who (mesh toy_stat) (mesh toy_stat)" by (simp add: p2p_reach_def)
  from statistics_correct [OF mesh_ok mesh_fresh [of toy_stat, unfolded progs] conn toy_stat_serial toy_stat_scheme files this]
  obtain z x num where z: "p2p_reach mesh_who (mesh toy_stat) z"
    "programs z ''Controller'' = Some (NRet (Inr (Some \<lparr> mean1 = ddiv (sum_of (x 0)) num,
        mean2 = ddiv (sum_of (x 1)) num, mean3 = ddiv (sum_of (x 2)) num, total = dround num \<rparr>)))"
    "\<bar>num - 3\<bar> \<le> 0 + 12 * 0 + 0"
    "\<forall>k < 3. length (x k) = 4 \<and> \<bar>x k ! 3\<bar> \<le> 0 + 12 * 0 + 0
        \<and> (\<forall>j \<in> {1, 2, 3}. \<bar>x k ! (j - 1) - to_float (of_int (vectorOfInts (inputs toy_files j) ! k))\<bar> \<le> 0 + 12 * 0 + 0)"
    by (elim exE conjE) (rule that)
  have num: "num = 3" using z(3) by simp
  have x: "x k = [to_float (of_int (vectorOfInts (inputs toy_files 1) ! k)), to_float (of_int (vectorOfInts (inputs toy_files 2) ! k)),
      to_float (of_int (vectorOfInts (inputs toy_files 3) ! k)), 0]" if "k < 3" for k
    using z(4) [rule_format, OF that] by (intro nth_equalityI) (auto simp: less_Suc_eq numeral_eq_Suc)
  have small: "fl p (of_int n) = of_int n" if "\<bar>n\<bar> < 256" "8 \<le> p" for p n
    using that power_increasing [of 8 p "2 :: int"] by (intro fl_small_int) simp
  have "x 0 = [10, 40, 100, 0]" "x 1 = [20, 50, 110, 0]" "x 2 = [30, 60, -120, 0]"
    using small [of 10 24] small [of 40 24] small [of 100 24] small [of 20 24] small [of 50 24] small [of 110 24]
      small [of 30 24] small [of 60 24] small [of "-120" 24] toy_inputs by (simp_all add: x)
  moreover have "dround 3 = 3" using dround_near [of 3 3] by simp
  ultimately show ?thesis
    using z(1,2) num small [of 10 53] small [of 50 53] small [of 150 53] small [of 20 53] small [of 70 53] small [of 180 53]
      small [of 30 53] small [of 90 53] small [of "-30" 53] small [of 60 53] small [of "-10" 53]
    by (intro exI [of _ z]) (simp add: sum_of_def dadd_def ddiv_def)
qed

end
