(* ===== verification/P2P_Rounds.thy ===== *)
theory P2P_Rounds
  imports P2P_Runs P2P_Ring
begin

text \<open>
  Rounds of communication: from a state in which nothing is under way every node sends, then every node
  receives what was sent to it, and again nothing is under way (\<open>exchange\<close>). Broadcasts, gathering
  and pairwise exchanges are instances. As the programs are patient, a run made of such rounds decides all runs
  (\<open>quiet_outcome\<close>).
\<close>

section \<open>States between rounds\<close>

definition crew :: "string set \<Rightarrow> (string \<Rightarrow> 'a nprog) \<Rightarrow> links \<Rightarrow> 'a net" where
  \<comment> \<open>the nodes of A run the programs R\<close>
  "crew A R c = \<lparr> procs = (\<lambda>x. if x \<in> A then Some (R x) else None), chan = c \<rparr>"

abbreviation quiet :: "string set \<Rightarrow> (string \<Rightarrow> 'a nprog) \<Rightarrow> 'a net" where
  "quiet A R \<equiv> crew A R (\<lambda>_ _. [])"

lemma crew_cong: "(\<And>x. x \<in> A \<Longrightarrow> R x = S x) \<Longrightarrow> crew A R c = crew A S c"
  by (auto simp: crew_def fun_eq_iff)

lemma crew_turn:
  assumes "turn i (R i) ins outs q" "i \<in> A" "\<And>s. c i s = msgs_of s ins @ rest s"
    and "\<And>t. t \<in> fst ` set outs \<Longrightarrow> conn i t \<and> t \<noteq> i"
  shows "net_reach conn (crew A R c)
    (crew A (R(i := q)) (\<lambda>x w. if x = i then rest w else if w = i then c x w @ msgs_of x outs else c x w))"
proof -
  have "\<exists>z. net_reach conn (crew A R c) z \<and> procs z = (procs (crew A R c))(i \<mapsto> q)
    \<and> (\<forall>x w. chan z x w = (if x = i then rest w else if w = i then chan (crew A R c) x w @ msgs_of x outs else chan (crew A R c) x w))"
    by (rule turn_reach [OF assms(1)]) (use assms in \<open>auto simp: crew_def\<close>)
  then obtain z where z: "net_reach conn (crew A R c) z" "procs z = (procs (crew A R c))(i \<mapsto> q)"
    "\<And>x w. chan z x w = (if x = i then rest w else if w = i then c x w @ msgs_of x outs else c x w)"
    by (auto simp: crew_def)
  have "z = crew A (R(i := q)) (\<lambda>x w. if x = i then rest w else if w = i then c x w @ msgs_of x outs else c x w)"
    using assms(2) z(2,3) by (intro net_eqI) (auto simp: crew_def fun_eq_iff)
  with z(1) show ?thesis by simp
qed

lemma msgs_of_none: "x \<notin> fst ` set outs \<Longrightarrow> msgs_of x outs = []"
  by (auto simp: msgs_of_def filter_empty_conv image_iff)

section \<open>Rounds\<close>

lemma send_phase:
  assumes "distinct S" "set S \<subseteq> A"
    and "\<And>x. x \<in> set S \<Longrightarrow> turn x (R x) [] (outs x) (Q x) \<and> (\<forall>t \<in> fst ` set (outs x). conn x t \<and> t \<noteq> x)"
  shows "net_reach conn (crew A R c) (crew A (\<lambda>x. if x \<in> set S then Q x else R x)
    (\<lambda>x w. c x w @ (if w \<in> set S then msgs_of x (outs w) else [])))"
  using assms
proof (induction S rule: rev_induct)
  case (snoc i S)
  let ?R = "\<lambda>x. if x \<in> set S then Q x else R x"
  let ?c = "\<lambda>x w. c x w @ (if w \<in> set S then msgs_of x (outs w) else [])"
  have i: "i \<in> A" "i \<notin> set S" "turn i (R i) [] (outs i) (Q i)" "\<And>t. t \<in> fst ` set (outs i) \<Longrightarrow> conn i t \<and> t \<noteq> i"
    using snoc.prems by auto
  have own: "msgs_of i (outs i) = []" using i(4) by (intro msgs_of_none) blast
  have "net_reach conn (crew A R c) (crew A ?R ?c)" by (rule snoc.IH) (use snoc.prems in auto)
  also have "net_reach conn (crew A ?R ?c)
      (crew A (?R(i := Q i)) (\<lambda>x w. if x = i then ?c i w else if w = i then ?c x w @ msgs_of x (outs i) else ?c x w))"
    by (rule crew_turn) (use i in auto)
  also have "?R(i := Q i) = (\<lambda>x. if x \<in> set (S @ [i]) then Q x else R x)" by (auto simp: fun_eq_iff)
  also have "(\<lambda>x w. if x = i then ?c i w else if w = i then ?c x w @ msgs_of x (outs i) else ?c x w)
      = (\<lambda>x w. c x w @ (if w \<in> set (S @ [i]) then msgs_of x (outs w) else []))"
    using i(2) own by (auto simp: fun_eq_iff)
  finally show ?case .
qed simp

lemma recv_phase:
  assumes "distinct S" "set S \<subseteq> A"
    and "\<And>x. x \<in> set S \<Longrightarrow> turn x (R x) (ins x) [] (Q x)" "\<And>x w. x \<in> set S \<Longrightarrow> c x w = msgs_of w (ins x)"
  shows "net_reach conn (crew A R c) (crew A (\<lambda>x. if x \<in> set S then Q x else R x) (\<lambda>x w. if x \<in> set S then [] else c x w))"
  using assms
proof (induction S rule: rev_induct)
  case (snoc i S)
  let ?R = "\<lambda>x. if x \<in> set S then Q x else R x"
  let ?c = "\<lambda>x w. if x \<in> set S then [] else c x w"
  have i: "i \<in> A" "i \<notin> set S" "turn i (R i) (ins i) [] (Q i)" "\<And>w. c i w = msgs_of w (ins i)"
    using snoc.prems by auto
  have "net_reach conn (crew A R c) (crew A ?R ?c)" by (rule snoc.IH) (use snoc.prems in auto)
  also have "net_reach conn (crew A ?R ?c)
      (crew A (?R(i := Q i)) (\<lambda>x w. if x = i then [] else if w = i then ?c x w @ msgs_of x [] else ?c x w))"
    by (rule crew_turn) (use i in auto)
  also have "?R(i := Q i) = (\<lambda>x. if x \<in> set (S @ [i]) then Q x else R x)" by (auto simp: fun_eq_iff)
  also have "(\<lambda>x w. if x = i then [] else if w = i then ?c x w @ msgs_of x [] else ?c x w)
      = (\<lambda>x w. if x \<in> set (S @ [i]) then [] else c x w)"
    by (auto simp: fun_eq_iff)
  finally show ?case .
qed simp

lemma exchange:
  assumes "finite A"
    and "\<And>x. x \<in> A \<Longrightarrow> turn x (R x) [] (outs x) (Q x)"
    and "\<And>x t. x \<in> A \<Longrightarrow> t \<in> fst ` set (outs x) \<Longrightarrow> conn x t \<and> t \<noteq> x \<and> t \<in> A"
    and "\<And>x. x \<in> A \<Longrightarrow> turn x (Q x) (ins x) [] (Q' x)"
    and "\<And>x w. x \<in> A \<Longrightarrow> msgs_of w (ins x) = (if w \<in> A then msgs_of x (outs w) else [])"
  shows "net_reach conn (quiet A R) (quiet A Q')"
proof -
  obtain S where S: "set S = A" "distinct S" using finite_distinct_list [OF assms(1)] by blast
  have "net_reach conn (quiet A R) (crew A (\<lambda>x. if x \<in> set S then Q x else R x)
      (\<lambda>x w. [] @ (if w \<in> set S then msgs_of x (outs w) else [])))"
  proof (rule send_phase [OF S(2)])
    show "set S \<subseteq> A" using S(1) by simp
    show "turn x (R x) [] (outs x) (Q x) \<and> (\<forall>t \<in> fst ` set (outs x). conn x t \<and> t \<noteq> x)" if "x \<in> set S" for x
      using that S(1) assms(2,3) by blast
  qed
  also have "crew A (\<lambda>x. if x \<in> set S then Q x else R x) (\<lambda>x w. [] @ (if w \<in> set S then msgs_of x (outs w) else []))
      = crew A Q (\<lambda>x w. if w \<in> A then msgs_of x (outs w) else [])"
    using S(1) by (simp add: crew_def fun_eq_iff)
  also have "net_reach conn \<dots> (crew A (\<lambda>x. if x \<in> set S then Q' x else Q x)
      (\<lambda>x w. if x \<in> set S then [] else if w \<in> A then msgs_of x (outs w) else []))"
  proof (rule recv_phase [OF S(2)])
    show "set S \<subseteq> A" using S(1) by simp
    show "turn x (Q x) (ins x) [] (Q' x)" if "x \<in> set S" for x using that S(1) assms(4) by simp
    show "(if w \<in> A then msgs_of x (outs w) else []) = msgs_of w (ins x)" if "x \<in> set S" for x w
      using that S(1) assms(5) by simp
  qed
  also have "\<dots> = quiet A Q'"
  proof -
    have "msgs_of x (outs w) = []" if "x \<notin> A" "w \<in> A" for x w
      using that assms(3) by (intro msgs_of_none) blast
    then have "(if x \<in> set S then [] else if w \<in> A then msgs_of x (outs w) else []) = []" for x w
      using S(1) by simp
    then show ?thesis unfolding crew_def S(1) by (simp add: fun_eq_iff)
  qed
  finally show ?thesis .
qed

lemma scatter:
  \<comment> \<open>the node h sends to all others\<close>
  assumes "finite A" "h \<in> A" "turn h (R h) [] outs (Q h)" "\<And>t. t \<in> fst ` set outs \<Longrightarrow> conn h t \<and> t \<noteq> h \<and> t \<in> A"
    and "\<And>x. x \<in> A \<Longrightarrow> x \<noteq> h \<Longrightarrow> turn x (R x) (map (Pair h) (msgs_of x outs)) [] (Q x)"
  shows "net_reach conn (quiet A R) (quiet A Q)"
proof (rule exchange [where outs = "\<lambda>x. if x = h then outs else []" and Q = "\<lambda>x. if x = h then Q h else R x"
      and ins = "\<lambda>x. if x = h then [] else map (Pair h) (msgs_of x outs)"])
  have "msgs_of x outs = []" if "x = h \<or> x \<notin> A" for x using assms(4) that by (intro msgs_of_none) blast
  then show "msgs_of w (if x = h then [] else map (Pair h) (msgs_of x outs)) = (if w \<in> A then msgs_of x (if w = h then outs else []) else [])" if "x \<in> A" for x w
    using assms(2) that by auto
  show "turn x (R x) [] (if x = h then outs else []) (if x = h then Q h else R x)" if "x \<in> A" for x
    using assms(3) by (simp add: turn_here)
  show "turn x (if x = h then Q h else R x) (if x = h then [] else map (Pair h) (msgs_of x outs)) [] (Q x)" if "x \<in> A" for x
    using assms(5) that by (simp add: turn_here)
qed (use assms in \<open>auto split: if_splits\<close>)

lemma hand_over:
  \<comment> \<open>i sends to t\<close>
  assumes "finite A" "i \<in> A" "t \<in> A" "conn i t" "t \<noteq> i"
    and "turn i (R i) [] (map (Pair t) ms) p" "turn t (R t) (map (Pair i) ms) [] q"
  shows "net_reach conn (quiet A R) (quiet A (R(i := p, t := q)))"
  by (rule scatter [where h = i and outs = "map (Pair t) ms"]) (use assms in \<open>auto simp: turn_here\<close>)

lemma swap:
  \<comment> \<open>i and t send to each other, then receive\<close>
  assumes "finite A" "i \<in> A" "t \<in> A" "conn i t" "conn t i" "t \<noteq> i"
    and "turn i (R i) [] (map (Pair t) ms) p" "turn t (R t) [] (map (Pair i) ns) q"
    and "turn i p (map (Pair t) ns) [] p'" "turn t q (map (Pair i) ms) [] q'"
  shows "net_reach conn (quiet A R) (quiet A (R(i := p', t := q')))"
  by (rule exchange [where outs = "\<lambda>x. if x = i then map (Pair t) ms else if x = t then map (Pair i) ns else []"
        and ins = "\<lambda>x. if x = i then map (Pair t) ns else if x = t then map (Pair i) ms else []"
        and Q = "R(i := p, t := q)"]) (use assms in \<open>auto simp: turn_here split: if_splits\<close>)

section \<open>All runs\<close>

lemma quiet_outcome:
  \<comment> \<open>rounds that end all programs decide every run on the nodes\<close>
  assumes ok: "p2p_ok who conn y" and sys: "fresh_system (\<lambda>x. if x \<in> A then Some (P x) else None) y"
    and pat: "\<And>x. x \<in> A \<Longrightarrow> patient (P x)"
    and run: "net_reach conn (quiet A P) (quiet A Q)" and ends: "\<And>x. x \<in> A \<Longrightarrow> Q x = NRet (res x)"
    and reach: "p2p_reach who y u"
  shows "\<exists>z. p2p_reach who u z \<and> (\<forall>x \<in> A. programs z x = Some (NRet (res x)))"
proof -
  have y: "net_of y = quiet A P"
    using sys fresh_system_chan [OF sys] by (intro net_eqI) (simp_all add: fresh_system_def crew_def)
  have "patient_net (net_of y)" using pat by (auto simp: patient_net_def y crew_def split: if_splits)
  moreover have "settled conn (quiet A Q)" "delivered (quiet A Q)"
    using ends by (auto simp: settled_def node_move_def delivered_def crew_def)
  ultimately obtain z where z: "p2p_reach who u z" "net_of z = quiet A Q"
    using p2p_runs_on [OF ok _ _ _ _ reach] run y by metis
  have "programs z = procs (quiet A Q)" using z(2) procs_net_of [of z] by metis
  then have "programs z x = Some (NRet (res x))" if "x \<in> A" for x
    using that ends by (simp add: crew_def)
  with z(1) show ?thesis by blast
qed

section \<open>Rounds of the nodes Node1 to Noden\<close>

definition team :: "nat \<Rightarrow> (nat \<Rightarrow> 'a nprog) \<Rightarrow> 'a net" where
  \<comment> \<open>node j is at P j, nothing is under way\<close>
  "team n P = quiet (node_names n) (\<lambda>x. P (node_number x))"

definition meshed :: "nat \<Rightarrow> (string \<Rightarrow> string \<Rightarrow> bool) \<Rightarrow> bool" where
  \<comment> \<open>every node has all others in its network map\<close>
  "meshed n conn \<longleftrightarrow> (\<forall>i \<in> {1..n}. \<forall>j \<in> {1..n}. i \<noteq> j \<longrightarrow> conn (nm i) (nm j))"

definition all_others :: "nat \<Rightarrow> nat \<Rightarrow> string list \<Rightarrow> bool" where
  \<comment> \<open>the names of the other nodes, in some order\<close>
  "all_others n j names \<longleftrightarrow> distinct names \<and> set names = node_names n - {nm j}"

lemma meshedD: "meshed n conn \<Longrightarrow> 1 \<le> i \<Longrightarrow> i \<le> n \<Longrightarrow> 1 \<le> j \<Longrightarrow> j \<le> n \<Longrightarrow> i \<noteq> j \<Longrightarrow> conn (nm i) (nm j)"
  by (simp add: meshed_def)

lemma finite_names [simp]: "finite (node_names n)"
  by (simp add: node_names_def)

lemma node_namesE:
  assumes "x \<in> node_names n"
  obtains j where "x = nm j" "1 \<le> j" "j \<le> n"
  using assms by (auto simp: node_names_def)

lemma team_cong: "(\<And>j. 1 \<le> j \<Longrightarrow> j \<le> n \<Longrightarrow> P j = Q j) \<Longrightarrow> team n P = team n Q"
  unfolding team_def by (rule crew_cong) (auto elim: node_namesE)

lemma msgs_of_all:
  "distinct names \<Longrightarrow> msgs_of x (map (\<lambda>t. (t, m)) names) = (if x \<in> set names then [m] else [])"
  by (induction names) auto

lemma msgs_of_each:
  "distinct is \<Longrightarrow> msgs_of (nm j) (map (\<lambda>i. (nm i, m i)) is) = (if j \<in> set is then [m j] else [])"
  by (induction "is") auto

lemma msgs_of_stranger: "x \<notin> node_names n \<Longrightarrow> set is \<subseteq> {1..n} \<Longrightarrow> msgs_of x (map (\<lambda>i. (nm i, m i)) is) = []"
  by (rule msgs_of_none) (auto simp: node_names_def)

lemma team_scatter:
  assumes net: "meshed n conn" and h: "1 \<le> h" "h \<le> n" and names: "all_others n h names"
    and hub: "turn (nm h) (P h) [] (map (\<lambda>t. (t, m)) names) (Q h)"
    and others: "\<And>j. 1 \<le> j \<Longrightarrow> j \<le> n \<Longrightarrow> j \<noteq> h \<Longrightarrow> turn (nm j) (P j) [(nm h, m)] [] (Q j)"
  shows "net_reach conn (team n P) (team n Q)"
  unfolding team_def
proof (rule scatter [where h = "nm h" and outs = "map (\<lambda>t. (t, m)) names"])
  show "conn (nm h) t \<and> t \<noteq> nm h \<and> t \<in> node_names n" if "t \<in> fst ` set (map (\<lambda>t. (t, m)) names)" for t
    using that names h meshedD [OF net h] by (auto simp: all_others_def image_image elim!: node_namesE)
  show "turn x (P (node_number x)) (map (Pair (nm h)) (msgs_of x (map (\<lambda>t. (t, m)) names))) [] (Q (node_number x))"
    if "x \<in> node_names n" "x \<noteq> nm h" for x
    using that others names by (auto simp: all_others_def msgs_of_all elim!: node_namesE)
qed (use h hub in simp_all)

lemma team_all:
  assumes net: "meshed n conn" and names: "\<And>j. 1 \<le> j \<Longrightarrow> j \<le> n \<Longrightarrow> all_others n j (names j)"
    and sends: "\<And>j. 1 \<le> j \<Longrightarrow> j \<le> n \<Longrightarrow> turn (nm j) (P j) [] (map (\<lambda>t. (t, m j)) (names j)) (Q j)"
    and takes: "\<And>j. 1 \<le> j \<Longrightarrow> j \<le> n \<Longrightarrow> turn (nm j) (Q j) (map (\<lambda>i. (nm i, m i)) (filter (\<lambda>i. i \<noteq> j) [1..<Suc n])) [] (Q' j)"
  shows "net_reach conn (team n P) (team n Q')"
  unfolding team_def
proof (rule exchange [where outs = "\<lambda>x. map (\<lambda>t. (t, m (node_number x))) (names (node_number x))"
      and Q = "\<lambda>x. Q (node_number x)" and ins = "\<lambda>x. map (\<lambda>i. (nm i, m i)) (filter (\<lambda>i. i \<noteq> node_number x) [1..<Suc n])"])
  show "conn x t \<and> t \<noteq> x \<and> t \<in> node_names n"
    if "x \<in> node_names n" "t \<in> fst ` set (map (\<lambda>t. (t, m (node_number x))) (names (node_number x)))" for x t
    using that names meshedD [OF net] by (auto simp: all_others_def image_image elim!: node_namesE)
  show "msgs_of w (map (\<lambda>i. (nm i, m i)) (filter (\<lambda>i. i \<noteq> node_number x) [1..<Suc n]))
      = (if w \<in> node_names n then msgs_of x (map (\<lambda>t. (t, m (node_number w))) (names (node_number w))) else [])"
    if "x \<in> node_names n" for x w
  proof (cases "w \<in> node_names n")
    case True
    then show ?thesis using that names
      by (auto simp: msgs_of_each msgs_of_all all_others_def elim!: node_namesE)
  next
    case False
    then show ?thesis by (subst msgs_of_stranger) auto
  qed
  show "turn x (P (node_number x)) [] (map (\<lambda>t. (t, m (node_number x))) (names (node_number x))) (Q (node_number x))"
    if "x \<in> node_names n" for x
    using that by (rule node_namesE) (simp add: sends)
  show "turn x (Q (node_number x)) (map (\<lambda>i. (nm i, m i)) (filter (\<lambda>i. i \<noteq> node_number x) [1..<Suc n])) [] (Q' (node_number x))"
    if "x \<in> node_names n" for x
    using that by (rule node_namesE) (use takes in \<open>simp del: upt_Suc\<close>)
qed simp

lemma team_gather:
  \<comment> \<open>the nodes js send to h\<close>
  assumes net: "meshed n conn" and h: "1 \<le> h" "h \<le> n" and js: "distinct js" "set js \<subseteq> {1..n} - {h}"
    and sends: "\<And>j. j \<in> set js \<Longrightarrow> turn (nm j) (P j) [] [(nm h, m j)] (Q j)"
    and hub: "turn (nm h) (P h) (map (\<lambda>j. (nm j, m j)) js) [] (Q h)"
    and others: "\<And>j. 1 \<le> j \<Longrightarrow> j \<le> n \<Longrightarrow> j \<noteq> h \<Longrightarrow> j \<notin> set js \<Longrightarrow> Q j = P j"
  shows "net_reach conn (team n P) (team n Q)"
proof -
  have each: "\<forall>j \<in> set js. 1 \<le> j \<and> j \<le> n \<and> j \<noteq> h" using js(2) by auto
  show ?thesis unfolding team_def
proof (rule exchange [where outs = "\<lambda>x. if node_number x \<in> set js then [(nm h, m (node_number x))] else []"
      and Q = "\<lambda>x. if node_number x \<in> set js then Q (node_number x) else P (node_number x)"
      and ins = "\<lambda>x. if x = nm h then map (\<lambda>j. (nm j, m j)) js else []"])
  show "turn x (P (node_number x)) [] (if node_number x \<in> set js then [(nm h, m (node_number x))] else [])
      (if node_number x \<in> set js then Q (node_number x) else P (node_number x))" if "x \<in> node_names n" for x
    using that by (rule node_namesE) (simp add: sends turn_here)
  show "conn x t \<and> t \<noteq> x \<and> t \<in> node_names n" if "x \<in> node_names n"
    "t \<in> fst ` set (if node_number x \<in> set js then [(nm h, m (node_number x))] else [])" for x t
    using that h each meshedD [OF net] by (auto split: if_splits elim!: node_namesE)
  show "turn x (if node_number x \<in> set js then Q (node_number x) else P (node_number x))
      (if x = nm h then map (\<lambda>j. (nm j, m j)) js else []) [] (Q (node_number x))" if "x \<in> node_names n" for x
    using that
  proof (rule node_namesE)
    fix j assume j: "x = nm j" "1 \<le> j" "j \<le> n"
    have "h \<notin> set js" using js by auto
    then show ?thesis using j hub others [of j] by (auto simp: turn_here)
  qed
  show "msgs_of w (if x = nm h then map (\<lambda>j. (nm j, m j)) js else [])
      = (if w \<in> node_names n then msgs_of x (if node_number w \<in> set js then [(nm h, m (node_number w))] else []) else [])"
    if "x \<in> node_names n" for x w
  proof (cases "w \<in> node_names n")
    case True
    then show ?thesis using js by (auto simp: msgs_of_each elim!: node_namesE)
  next
    case False
    then show ?thesis using each msgs_of_stranger [OF False, of js m] by (auto simp: subset_iff)
  qed
qed simp
qed

lemma team_spread:
  \<comment> \<open>h sends to the nodes js\<close>
  assumes net: "meshed n conn" and h: "1 \<le> h" "h \<le> n" and js: "distinct js" "set js \<subseteq> {1..n} - {h}"
    and hub: "turn (nm h) (P h) [] (map (\<lambda>j. (nm j, m)) js) (Q h)"
    and takes: "\<And>j. j \<in> set js \<Longrightarrow> turn (nm j) (P j) [(nm h, m)] [] (Q j)"
    and others: "\<And>j. 1 \<le> j \<Longrightarrow> j \<le> n \<Longrightarrow> j \<noteq> h \<Longrightarrow> j \<notin> set js \<Longrightarrow> Q j = P j"
  shows "net_reach conn (team n P) (team n Q)"
proof -
  have each: "\<forall>j \<in> set js. 1 \<le> j \<and> j \<le> n \<and> j \<noteq> h" using js(2) by auto
  show ?thesis unfolding team_def
proof (rule scatter [where h = "nm h" and outs = "map (\<lambda>j. (nm j, m)) js"])
  show "conn (nm h) t \<and> t \<noteq> nm h \<and> t \<in> node_names n" if "t \<in> fst ` set (map (\<lambda>j. (nm j, m)) js)" for t
    using that each h meshedD [OF net h] by auto
  show "turn x (P (node_number x)) (map (Pair (nm h)) (msgs_of x (map (\<lambda>j. (nm j, m)) js))) [] (Q (node_number x))"
    if "x \<in> node_names n" "x \<noteq> nm h" for x
  proof (rule node_namesE [OF that(1)])
    fix j assume j: "x = nm j" "1 \<le> j" "j \<le> n"
    then show ?thesis using that(2) takes others [of j] msgs_of_each [OF js(1), of j "\<lambda>_. m"] by (auto simp: turn_here)
  qed
qed (use h hub in simp_all)
qed

lemma team_hand:
  assumes "meshed n conn" "1 \<le> i" "i \<le> n" "1 \<le> t" "t \<le> n" "t \<noteq> i"
    and "turn (nm i) (P i) [] (map (Pair (nm t)) ms) p" "turn (nm t) (P t) (map (Pair (nm i)) ms) [] q"
  shows "net_reach conn (team n P) (team n (P(i := p, t := q)))"
proof -
  have "net_reach conn (team n P) (quiet (node_names n) ((\<lambda>x. P (node_number x))(nm i := p, nm t := q)))"
    unfolding team_def by (rule hand_over) (use assms meshedD [OF assms(1)] in auto)
  also have "\<dots> = team n (P(i := p, t := q))"
    unfolding team_def by (rule crew_cong) (auto elim!: node_namesE)
  finally show ?thesis .
qed

lemma team_swap:
  assumes "meshed n conn" "1 \<le> i" "i \<le> n" "1 \<le> t" "t \<le> n" "t \<noteq> i"
    and "turn (nm i) (P i) [] [(nm t, m)] p" "turn (nm t) (P t) [] [(nm i, m')] q"
    and "turn (nm i) p [(nm t, m')] [] p'" "turn (nm t) q [(nm i, m)] [] q'"
  shows "net_reach conn (team n P) (team n (P(i := p', t := q')))"
proof -
  have "net_reach conn (team n P) (quiet (node_names n) ((\<lambda>x. P (node_number x))(nm i := p', nm t := q')))"
    unfolding team_def
    by (rule swap [where ms = "[m]" and ns = "[m']" and p = p and q = q]) (use assms meshedD [OF assms(1)] in auto)
  also have "\<dots> = team n (P(i := p', t := q'))"
    unfolding team_def by (rule crew_cong) (auto elim!: node_namesE)
  finally show ?thesis .
qed

lemma team_down:
  \<comment> \<open>down the path: node j waits at I j, holds what it passes on at H j, has passed it on at W j\<close>
  assumes net: "meshed n conn" and n: "1 \<le> n"
    and send: "\<And>j. 1 \<le> j \<Longrightarrow> j < n \<Longrightarrow> turn (nm j) (H j) [] (map (Pair (nm (Suc j))) (M j)) (W j)"
    and take: "\<And>j. 1 \<le> j \<Longrightarrow> j < n \<Longrightarrow> turn (nm (Suc j)) (I (Suc j)) (map (Pair (nm j)) (M j)) [] (H (Suc j))"
  shows "net_reach conn (team n (\<lambda>j. if j = 1 then H 1 else I j)) (team n (\<lambda>j. if j = n then H n else W j))"
proof -
  define S where "S k j = (if j < k then W j else if j = k then H j else I j)" for k j
  have "k < n \<Longrightarrow> net_reach conn (team n (S 1)) (team n (S (Suc k)))" for k
  proof (induction k)
    case (Suc k)
    have "net_reach conn (team n (S 1)) (team n (S (Suc k)))" using Suc by simp
    also have "net_reach conn \<dots> (team n ((S (Suc k))(Suc k := W (Suc k), Suc (Suc k) := H (Suc (Suc k)))))"
      by (rule team_hand [OF net, where ms = "M (Suc k)"]) (use Suc.prems send [of "Suc k"] take [of "Suc k"] in \<open>auto simp: S_def\<close>)
    also have "(S (Suc k))(Suc k := W (Suc k), Suc (Suc k) := H (Suc (Suc k))) = S (Suc (Suc k))"
      by (auto simp: S_def fun_eq_iff)
    finally show ?case .
  qed (simp only: One_nat_def net_reach_refl)
  moreover have "Suc (n - 1) = n" "n - 1 < n" using n by simp_all
  ultimately have "net_reach conn (team n (S 1)) (team n (S n))" by fastforce
  moreover have "team n (S 1) = team n (\<lambda>j. if j = 1 then H 1 else I j)" by (rule team_cong) (auto simp: S_def)
  moreover have "team n (S n) = team n (\<lambda>j. if j = n then H n else W j)" by (rule team_cong) (auto simp: S_def)
  ultimately show ?thesis by simp
qed

lemma team_up:
  \<comment> \<open>up the path\<close>
  assumes net: "meshed n conn" and n: "1 \<le> n"
    and send: "\<And>j. 1 \<le> j \<Longrightarrow> j < n \<Longrightarrow> turn (nm (Suc j)) (H (Suc j)) [] (map (Pair (nm j)) (M j)) (W (Suc j))"
    and take: "\<And>j. 1 \<le> j \<Longrightarrow> j < n \<Longrightarrow> turn (nm j) (I j) (map (Pair (nm (Suc j))) (M j)) [] (H j)"
  shows "net_reach conn (team n (\<lambda>j. if j = n then H n else I j)) (team n (\<lambda>j. if j = 1 then H 1 else W j))"
proof -
  define S where "S k j = (if k < j then W j else if j = k then H j else I j)" for k j
  have "k < n \<Longrightarrow> net_reach conn (team n (S n)) (team n (S (n - k)))" for k
  proof (induction k)
    case (Suc k)
    have s: "n - k = Suc (n - Suc k)" "1 \<le> n - Suc k" "n - Suc k < n" using Suc.prems by auto
    have "net_reach conn (team n (S n)) (team n (S (n - k)))" using Suc by simp
    also have "net_reach conn \<dots> (team n ((S (n - k))(n - k := W (n - k), n - Suc k := H (n - Suc k))))"
      by (rule team_hand [OF net, where ms = "M (n - Suc k)"]) (use s send [of "n - Suc k"] take [of "n - Suc k"] in \<open>auto simp: S_def\<close>)
    also have "(S (n - k))(n - k := W (n - k), n - Suc k := H (n - Suc k)) = S (n - Suc k)"
      using s by (auto simp: S_def fun_eq_iff)
    finally show ?case .
  qed (simp only: diff_zero net_reach_refl)
  moreover have "n - (n - 1) = 1" "n - 1 < n" using n by simp_all
  ultimately have "net_reach conn (team n (S n)) (team n (S 1))" by fastforce
  moreover have "team n (S n) = team n (\<lambda>j. if j = n then H n else I j)" by (rule team_cong) (auto simp: S_def)
  moreover have "team n (S 1) = team n (\<lambda>j. if j = 1 then H 1 else W j)" by (rule team_cong) (auto simp: S_def)
  ultimately show ?thesis by simp
qed

end
