(* ===== verification/Aborts_P2P.thy ===== *)
theory Aborts_P2P
  imports Statistics
begin

text \<open>
  The peer to peer demo of the aborts protocol: \<^verbatim>\<open>thresh_aborts_client.cpp\<close> and its \<^verbatim>\<open>crypto_functions.cpp\<close>.
  The nodes generate joint keys along the path, broadcasting the final ones, share their secret keys, exchange
  ciphertexts, evaluate, and decrypt together; when a node has dropped out, Node1 recovers its
  secret key from the shares of the others. The library is a record of functions; the names of
  \<^verbatim>\<open>connectedAddresses\<close>, the extra argument of the command line and the contents of the input file are arguments.
  Null pointers are options; the result is the plaintext that the program prints.
\<close>

section \<open>Library\<close>

record abort_params =
  ap_plaintextModulus :: nat
  ap_standardDeviation :: string
  ap_securityLevel :: string
  ap_secretKeyDist :: string
  ap_multiplicativeDepth :: u32
  ap_batchSize :: u32
  ap_digitSize :: u32
  ap_scalingModSize :: u32
  ap_multiplicationTechnique :: string
  ap_enabled :: "string list"

record ('cc, 'pk, 'sk, 'ek, 'es, 'ct, 'pt, 'sh) abort_lib =
  b_keys :: "('cc, 'pk, 'sk, 'ek, 'es) path_lib"
  b_GenCryptoContext :: "abort_params \<Rightarrow> 'cc"
  b_ser_cc :: "'cc \<Rightarrow> bytes"
  b_deser_cc :: "bytes \<Rightarrow> 'cc result"
  b_ser_sh :: "'sh \<Rightarrow> bytes"
  b_deser_sh :: "bytes \<Rightarrow> 'sh result"
  b_ser_ct :: "'ct \<Rightarrow> bytes"
  b_deser_ct :: "bytes \<Rightarrow> 'ct result"
  b_ser_cts :: "'ct list \<Rightarrow> bytes"
  b_deser_cts :: "bytes \<Rightarrow> 'ct list result"
  b_ClearKeys :: "'cc \<Rightarrow> 'cc" \<comment> \<open>ClearEvalMultKeys, ClearEvalAutomorphismKeys\<close>
  b_ShareKeys :: "'cc \<Rightarrow> 'sk \<Rightarrow> u32 \<Rightarrow> u32 \<Rightarrow> u32 \<Rightarrow> string \<Rightarrow> (u32 \<rightharpoonup> 'sh)"
  b_share0 :: 'sh \<comment> \<open>a default DCRTPoly\<close>
  b_InsertEvalMultKey :: "'cc \<Rightarrow> 'ek list \<Rightarrow> 'cc"
  b_InsertEvalSumKey :: "'cc \<Rightarrow> 'es \<Rightarrow> 'cc"
  b_MakePackedPlaintext :: "'cc \<Rightarrow> int list \<Rightarrow> 'pt result"
  b_Encrypt :: "'cc \<Rightarrow> 'pk \<Rightarrow> 'pt \<Rightarrow> 'ct"
  b_EvalMultMany :: "'cc \<Rightarrow> 'ct list \<Rightarrow> 'ct"
  b_EvalAddMany :: "'cc \<Rightarrow> 'ct list \<Rightarrow> 'ct"
  b_EvalSum :: "'cc \<Rightarrow> 'ct \<Rightarrow> u32 \<Rightarrow> 'ct"
  b_MultipartyDecryptLead :: "'cc \<Rightarrow> 'ct option list \<Rightarrow> 'sk \<Rightarrow> 'ct list result"
  b_MultipartyDecryptMain :: "'cc \<Rightarrow> 'ct option list \<Rightarrow> 'sk \<Rightarrow> 'ct list result"
  b_RecoverSharedKey :: "'cc \<Rightarrow> (u32 \<rightharpoonup> 'sh) \<Rightarrow> u32 \<Rightarrow> u32 \<Rightarrow> string \<Rightarrow> 'sk result"
  b_MultipartyDecryptFusion :: "'cc \<Rightarrow> 'ct list \<Rightarrow> 'pt"
  b_SetLength :: "nat \<Rightarrow> 'pt \<Rightarrow> 'pt"

definition aborts_params :: abort_params where
  "aborts_params = \<lparr> ap_plaintextModulus = 65537, ap_standardDeviation = ''3.2'',
     ap_securityLevel = ''HEStd_128_classic'', ap_secretKeyDist = ''UNIFORM_TERNARY'',
     ap_multiplicativeDepth = 4, ap_batchSize = 16, ap_digitSize = 30, ap_scalingModSize = 60,
     ap_multiplicationTechnique = ''HPS'', ap_enabled = [''PKE'', ''LEVELEDSHE'', ''ADVANCEDSHE'', ''MULTIPARTY''] \<rparr>"

section \<open>Broadcasts and timed receives\<close>

fun n_broadcast :: "string list \<Rightarrow> string \<Rightarrow> bytes \<Rightarrow> u32 \<Rightarrow> u32 \<Rightarrow> unit nprog" where
  \<comment> \<open>broadcastMsg: to every connected node, in the order of the map\<close>
  "n_broadcast [] ty d sleep timeout = nret ()"
| "n_broadcast (t # ts) ty d sleep timeout = NSend t ty d sleep timeout (n_broadcast ts ty d sleep timeout)"

definition n_broadcastSerialMsg :: "('o \<Rightarrow> bytes) \<Rightarrow> 'o \<Rightarrow> string \<Rightarrow> string list \<Rightarrow> u32 \<Rightarrow> u32 \<Rightarrow> unit nprog" where
  "n_broadcastSerialMsg ser obj ty names sleep timeout =
     (if ser obj = [] then nthrow (Serialize_error (''Serialized '' @ ty @ '' is empty''))
      else n_broadcast names ty (ser obj) sleep timeout)"

definition n_sendSerialMsg_timed :: "('o \<Rightarrow> bytes) \<Rightarrow> 'o \<Rightarrow> string \<Rightarrow> string \<Rightarrow> u32 \<Rightarrow> u32 \<Rightarrow> unit nprog" where
  \<comment> \<open>sendSerialMsg with a sleep time and a timeout\<close>
  "n_sendSerialMsg_timed ser obj ty t sleep timeout =
     (if ser obj = [] then nthrow (Serialize_error (''Serialized '' @ ty @ '' is empty''))
      else NSend t ty (ser obj) sleep timeout (nret ()))"

primrec n_wait_loop :: "nat \<Rightarrow> string \<Rightarrow> string \<Rightarrow> u32 \<Rightarrow> u32 \<Rightarrow> u32 \<Rightarrow> message_format \<Rightarrow> message_format nprog" where
  \<comment> \<open>the loop of getMsgWait with a timeout; the fuel bounds the polls\<close>
  "n_wait_loop 0 s ty sleep timeout ctr reply = nthrow (Undefined ''fuel'')"
| "n_wait_loop (Suc fuel) s ty sleep timeout ctr reply =
     (if acknowledgement reply then nret reply
      else NPoll s ty (\<lambda>reply.
        if ctr * sleep > timeout \<and> timeout \<noteq> 0 then nret reply
        else n_wait_loop fuel s ty sleep timeout (ctr + 1) reply))"

definition abort_sleep_msecs :: u32 where "abort_sleep_msecs = 10"
definition abort_timeout :: u32 where "abort_timeout = 1000"

definition n_getMsgWait_timed :: "string \<Rightarrow> string \<Rightarrow> message_format nprog" where
  \<comment> \<open>getMsgWait(s, ty, 10, 1000)\<close>
  "n_getMsgWait_timed s ty = NPoll s ty (n_wait_loop 103 s ty abort_sleep_msecs abort_timeout 0)"

definition node_ids :: "u32 \<Rightarrow> u32 list" where
  \<comment> \<open>for (i = 1; i <= num_of_nodes; i++)\<close>
  "node_ids n = map of_nat [1..<Suc (unat n)]"

definition node_of :: "u32 \<Rightarrow> string" where
  \<comment> \<open>"Node" + std::to_string(i)\<close>
  "node_of i = nm (unat i)"

section \<open>Joint keys\<close>

definition abort_PublickeyGen ::
  "('cc, 'pk, 'sk, 'ek, 'es) path_lib \<Rightarrow> string list \<Rightarrow> string \<Rightarrow> string \<Rightarrow> string \<Rightarrow> nodes_path \<Rightarrow> 'cc
   \<Rightarrow> ('pk, 'sk, 'ek, 'es) node_keys \<Rightarrow> ('pk \<times> ('pk, 'sk, 'ek, 'es) node_keys) nprog" where
  "abort_PublickeyGen L names me startNode endNode path c nk =
     nbind (if me = startNode then nret (k_KeyGen L c)
            else nbind (n_getSerialMsgWait (k_deser_pk L) ''PublicKey'' (dgetfromNode path)) (\<lambda>prevPubKey.
                 nret (k_MultipartyKeyGen L c prevPubKey))) (\<lambda>keyPair.
     nbind (if me \<noteq> endNode then n_sendSerialMsg (k_ser_pk L) (fst keyPair) ''PublicKey'' (dsendtoNode path)
            else nret ()) (\<lambda>_.
     nbind (if me = endNode
            then nbind (n_broadcastSerialMsg (k_ser_pk L) (fst keyPair) ''PublicKey'' names 1 0) (\<lambda>_. nret (fst keyPair))
            else n_getSerialMsgWait (k_deser_pk L) ''PublicKey'' endNode) (\<lambda>FinalPubKey.
       nret (FinalPubKey, nk\<lparr>nk_keyPair := Some keyPair, nk_FinalPubKey := Some FinalPubKey\<rparr>))))"

definition abort_evalmult_down ::
  "('cc, 'pk, 'sk, 'ek, 'es) path_lib \<Rightarrow> string list \<Rightarrow> string \<Rightarrow> string \<Rightarrow> string \<Rightarrow> nodes_path \<Rightarrow> 'cc
   \<Rightarrow> ('pk, 'sk, 'ek, 'es) node_keys \<Rightarrow> unit nprog" where
  "abort_evalmult_down L names me startNode endNode path c nk =
     nbind (get_keyPair nk) (\<lambda>keyPair.
     if me = startNode
     then n_sendSerialMsg (k_ser_ek L) (k_KeySwitchGen L c (snd keyPair) (snd keyPair)) ''evalmultkey'' (dsendtoNode path)
     else nbind (n_getSerialMsgWait (k_deser_ek L) ''evalmultkey'' (dgetfromNode path)) (\<lambda>PrevevalMultKey.
       let evalMultKey = k_MultiKeySwitchGen L c (snd keyPair) (snd keyPair) PrevevalMultKey;
           evalMultPrevandCurrent = k_MultiAddEvalKeys L c PrevevalMultKey evalMultKey (k_KeyTag L (fst keyPair))
       in if me = endNode
          then nbind (get_FinalPubKey nk) (\<lambda>FinalPubKey.
               let evalMultskAll = k_MultiMultEvalKey L c (snd keyPair) evalMultPrevandCurrent (k_KeyTag L FinalPubKey)
               in nbind (n_broadcastSerialMsg (k_ser_ek L) evalMultPrevandCurrent ''evalmultkey'' names 1 0) (\<lambda>_.
                  n_sendSerialMsg (k_ser_ek L) evalMultskAll ''evalmixmultkey'' (usendtoNode path)))
          else n_sendSerialMsg (k_ser_ek L) evalMultPrevandCurrent ''evalmultkey'' (dsendtoNode path)))"

definition abort_evalmult_up ::
  "('cc, 'pk, 'sk, 'ek, 'es) path_lib \<Rightarrow> string list \<Rightarrow> string \<Rightarrow> string \<Rightarrow> string \<Rightarrow> nodes_path \<Rightarrow> 'cc
   \<Rightarrow> ('pk, 'sk, 'ek, 'es) node_keys \<Rightarrow> 'ek option nprog" where
  \<comment> \<open>the final key, at the first node, which returns it\<close>
  "abort_evalmult_up L names me startNode endNode path c nk =
     (if me \<noteq> endNode
      then nbind (n_getSerialMsgWait (k_deser_ek L) ''evalmultkey'' endNode) (\<lambda>evalMultAll.
           nbind (n_getSerialMsgWait (k_deser_ek L) ''evalmixmultkey'' (ugetfromNode path)) (\<lambda>PrevevalMixMultKey.
           nbind (get_keyPair nk) (\<lambda>keyPair.
           nbind (get_FinalPubKey nk) (\<lambda>FinalPubKey.
           let evalMultKeyskAll = k_MultiMultEvalKey L c (snd keyPair) evalMultAll (k_KeyTag L FinalPubKey);
               evalMultAddskAll = k_MultiAddEvalMultKeys L c evalMultKeyskAll PrevevalMixMultKey (k_KeyTag L FinalPubKey)
           in if me = startNode
              then nbind (n_broadcastSerialMsg (k_ser_ek L) evalMultAddskAll ''evalmixmultkey'' names 1 0) (\<lambda>_.
                     nret (Some evalMultAddskAll))
              else nbind (n_sendSerialMsg (k_ser_ek L) evalMultAddskAll ''evalmixmultkey'' (usendtoNode path)) (\<lambda>_.
                     nret None)))))
      else nret None)"

definition abort_EvalMultkeyGen ::
  "('cc, 'pk, 'sk, 'ek, 'es) path_lib \<Rightarrow> string list \<Rightarrow> string \<Rightarrow> string \<Rightarrow> string \<Rightarrow> nodes_path \<Rightarrow> 'cc
   \<Rightarrow> ('pk, 'sk, 'ek, 'es) node_keys \<Rightarrow> ('ek option \<times> ('pk, 'sk, 'ek, 'es) node_keys) nprog" where
  "abort_EvalMultkeyGen L names me startNode endNode path c nk =
     nbind (abort_evalmult_down L names me startNode endNode path c nk) (\<lambda>_.
     nbind (abort_evalmult_up L names me startNode endNode path c nk) (\<lambda>returned.
     case returned of
       Some k \<Rightarrow> nret (Some k, nk\<lparr>nk_evalMultFinal := Some k\<rparr>)
     | None \<Rightarrow>
         nbind (if me \<noteq> startNode
                then nbind (n_getSerialMsgWait (k_deser_ek L) ''evalmixmultkey'' startNode) (\<lambda>k. nret (Some k))
                else nret None) (\<lambda>evalMultFinal.
           nret (evalMultFinal, nk\<lparr>nk_evalMultFinal := evalMultFinal\<rparr>))))"

definition abort_EvalSumkeyGen ::
  "('cc, 'pk, 'sk, 'ek, 'es) path_lib \<Rightarrow> string list \<Rightarrow> string \<Rightarrow> string \<Rightarrow> string \<Rightarrow> nodes_path \<Rightarrow> 'cc
   \<Rightarrow> ('pk, 'sk, 'ek, 'es) node_keys \<Rightarrow> ('es option \<times> ('pk, 'sk, 'ek, 'es) node_keys) nprog" where
  "abort_EvalSumkeyGen L names me startNode endNode path c nk =
     nbind (get_keyPair nk) (\<lambda>keyPair.
     nbind
       (if me = startNode
        then let evalSumKeys = k_EvalSumKeyGen L c (snd keyPair)
             in nbind (n_sendSerialMsg (k_ser_es L) evalSumKeys ''evalSumKeys0'' (dsendtoNode path)) (\<lambda>_.
                nbind (n_sendSerialMsg (k_ser_es L) evalSumKeys ''evalSumKeys1'' (dsendtoNode path)) (\<lambda>_. nret None))
        else nbind (n_getSerialMsgWait (k_deser_es L) ''evalSumKeys0'' (dgetfromNode path)) (\<lambda>PrevevalSumKey0.
             nbind (n_getSerialMsgWait (k_deser_es L) ''evalSumKeys1'' (dgetfromNode path)) (\<lambda>PrevevalSumKey1.
             let evalSumKeys0 = k_MultiEvalSumKeyGen L c (snd keyPair) PrevevalSumKey0 (k_KeyTag L (fst keyPair));
                 evalSumKeys1 = k_MultiAddEvalSumKeys L c PrevevalSumKey1 evalSumKeys0 (k_KeyTag L (fst keyPair))
             in if me = endNode
                then nbind (n_broadcastSerialMsg (k_ser_es L) evalSumKeys1 ''evalSumKeys1'' names 1 0) (\<lambda>_.
                       nret (Some evalSumKeys1))
                else nbind (n_sendSerialMsg (k_ser_es L) evalSumKeys0 ''evalSumKeys0'' (dsendtoNode path)) (\<lambda>_.
                     nbind (n_sendSerialMsg (k_ser_es L) evalSumKeys1 ''evalSumKeys1'' (dsendtoNode path)) (\<lambda>_. nret None)))))
       (\<lambda>returned.
     case returned of
       Some k \<Rightarrow> nret (Some k, nk\<lparr>nk_evalSumFinal := Some k\<rparr>)
     | None \<Rightarrow>
         nbind (if me \<noteq> endNode
                then nbind (n_getSerialMsgWait (k_deser_es L) ''evalSumKeys1'' endNode) (\<lambda>k. nret (Some k))
                else nret None) (\<lambda>evalSumFinal.
           nret (evalSumFinal, nk\<lparr>nk_evalSumFinal := evalSumFinal\<rparr>))))"

section \<open>Recovering a dropped node\<close>

definition recovery_helpers :: "u32 \<Rightarrow> u32 \<Rightarrow> u32 list \<Rightarrow> u32 list" where
  \<comment> \<open>the nodes j with (j != node_id) and j not in node_nack\<close>
  "recovery_helpers N nid node_nack = filter (\<lambda>j. j \<noteq> nid \<and> j \<notin> set node_nack) (node_ids N)"

fun recovery_round :: "(bytes \<Rightarrow> 'sh result) \<Rightarrow> u32 list \<Rightarrow> (u32 \<rightharpoonup> 'sh) \<Rightarrow> u32 \<Rightarrow> ((u32 \<rightharpoonup> 'sh) \<times> u32) nprog" where
  \<comment> \<open>the inner loop: the shares received and ctr\<close>
  "recovery_round deser [] recoveryShares ctr = nret (recoveryShares, ctr)"
| "recovery_round deser (j # js) recoveryShares ctr =
     nbind (n_getSerialMsgWait deser ''secretsharerecovery'' (node_of j)) (\<lambda>secretshareRecover.
       recovery_round deser js (recoveryShares(j \<mapsto> secretshareRecover)) (ctr + 1))"

primrec recovery_loop ::
  "nat \<Rightarrow> (bytes \<Rightarrow> 'sh result) \<Rightarrow> u32 list \<Rightarrow> u32 \<Rightarrow> (u32 \<rightharpoonup> 'sh) \<Rightarrow> u32 \<Rightarrow> (u32 \<rightharpoonup> 'sh) nprog" where
  \<comment> \<open>while (ctr < threshold); without another node it never ends and does nothing, which is undefined in C++\<close>
  "recovery_loop 0 deser js threshold recoveryShares ctr = nthrow (Undefined ''fuel'')"
| "recovery_loop (Suc fuel) deser js threshold recoveryShares ctr =
     (if ctr < threshold
      then if js = [] then nthrow (Undefined ''loop without progress'')
           else nbind (recovery_round deser js recoveryShares ctr) (\<lambda>(recoveryShares, ctr).
                  recovery_loop fuel deser js threshold recoveryShares ctr)
      else nret recoveryShares)"

definition RecoverDroppedSecret ::
  "('cc, 'pk, 'sk, 'ek, 'es, 'ct, 'pt, 'sh) abort_lib \<Rightarrow> u32 \<Rightarrow> u32 list \<Rightarrow> 'cc \<Rightarrow> (u32 \<rightharpoonup> 'sh) \<Rightarrow> u32 \<Rightarrow> u32
   \<Rightarrow> ('sk \<times> (u32 \<rightharpoonup> 'sh)) nprog" where
  \<comment> \<open>the recovered key, and recoveryShares, which is passed by reference\<close>
  "RecoverDroppedSecret L nid node_nack c recoveryShares N threshold =
     nbind (recovery_loop (Suc (unat threshold)) (b_deser_sh L) (recovery_helpers N nid node_nack)
              threshold recoveryShares 1) (\<lambda>recoveryShares.
     nbind (n_lift (b_RecoverSharedKey L c recoveryShares N threshold ''shamir'')) (\<lambda>recovered_sk.
       nret (recovered_sk, recoveryShares)))"

fun send_recovered :: "('ct list \<Rightarrow> bytes) \<Rightarrow> 'ct list \<Rightarrow> u32 list \<Rightarrow> unit nprog" where
  "send_recovered ser ciphertextPartial1 [] = nret ()"
| "send_recovered ser ciphertextPartial1 (j # js) =
     nbind (n_sendSerialMsg_timed ser ciphertextPartial1 ''abortspartialciphertext'' (node_of j) 5 10) (\<lambda>_.
       send_recovered ser ciphertextPartial1 js)"

definition SendRecoveredPartialCT ::
  "('cc, 'pk, 'sk, 'ek, 'es, 'ct, 'pt, 'sh) abort_lib \<Rightarrow> u32 \<Rightarrow> u32 list \<Rightarrow> u32 \<Rightarrow> 'cc \<Rightarrow> 'ct option \<Rightarrow> 'sk \<Rightarrow> 'ct list nprog" where
  "SendRecoveredPartialCT L nid node_nack N c resultCT recovered_sk =
     nbind (n_lift (b_MultipartyDecryptMain L c [resultCT] recovered_sk)) (\<lambda>ciphertextPartial1.
     nbind (send_recovered (b_ser_cts L) ciphertextPartial1 (recovery_helpers N nid node_nack)) (\<lambda>_.
       nret ciphertextPartial1))"

section \<open>The program\<close>

definition operation_of :: "string \<Rightarrow> (string \<times> bool) result" where
  \<comment> \<open>compute_operation and aborts, from the extra argument\<close>
  "operation_of arguments =
     (if CHR ''-'' \<notin> set arguments then Inr (arguments, False)
      else let arguments_split = split_on CHR ''-'' arguments
           in rbind (Prelude.at ''arguments_split'' arguments_split 0) (\<lambda>op.
              rbind (Prelude.at ''arguments_split'' arguments_split 1) (\<lambda>a. Inr (op, a = ''abort''))))"

fun sync_replies :: "u32 \<Rightarrow> u32 list \<Rightarrow> unit nprog" where
  "sync_replies nid [] = nret ()"
| "sync_replies nid (i # is) =
     (if i \<noteq> nid then NRecv (node_of i) ''synchronize msg'' (\<lambda>_. sync_replies nid is)
      else sync_replies nid is)"

definition abort_sync :: "string list \<Rightarrow> path_input \<Rightarrow> unit nprog" where
  "abort_sync names p =
     nbind (n_broadcast names ''synchronize msg'' ''synchronize'' 1 0) (\<lambda>_.
       sync_replies (node_id p) (node_ids (num_of_nodes p)))"

definition abort_context :: "('cc, 'pk, 'sk, 'ek, 'es, 'ct, 'pt, 'sh) abort_lib \<Rightarrow> string list \<Rightarrow> string \<Rightarrow> 'cc nprog" where
  "abort_context L names me =
     nbind (if me = ''Node1''
            then let c = b_GenCryptoContext L aborts_params
                 in nbind (n_broadcastSerialMsg (b_ser_cc L) c ''cryptocontext'' names 1 0) (\<lambda>_. nret c)
            else n_getSerialMsgWait (b_deser_cc L) ''cryptocontext'' ''Node1'') (\<lambda>c.
       nret (b_ClearKeys L c))"

definition drop_threshold :: "u32 \<Rightarrow> u32" where
  \<comment> \<open>floor(num_of_nodes/2) + 1, an integer division\<close>
  "drop_threshold N = N div 2 + 1"

fun exchange_shares ::
  "('cc, 'pk, 'sk, 'ek, 'es, 'ct, 'pt, 'sh) abort_lib \<Rightarrow> u32 \<Rightarrow> (u32 \<rightharpoonup> 'sh) \<Rightarrow> u32 list \<Rightarrow> (u32 \<rightharpoonup> 'sh) \<Rightarrow> (u32 \<rightharpoonup> 'sh) nprog" where
  \<comment> \<open>every node's share to the node, and its share of that node's key\<close>
  "exchange_shares L nid secretshares [] recdSecretShares = nret recdSecretShares"
| "exchange_shares L nid secretshares (i # is) recdSecretShares =
     (if i \<noteq> nid
      then nbind (n_sendSerialMsg (b_ser_sh L) (idx_val (b_share0 L) secretshares i) ''secretshare'' (node_of i)) (\<lambda>_.
           nbind (n_getSerialMsgWait (b_deser_sh L) ''secretshare'' (node_of i)) (\<lambda>recdShare.
             exchange_shares L nid secretshares is (recdSecretShares(i \<mapsto> recdShare))))
      else exchange_shares L nid secretshares is recdSecretShares)"

definition abort_evalkeys ::
  "('cc, 'pk, 'sk, 'ek, 'es, 'ct, 'pt, 'sh) abort_lib \<Rightarrow> string list \<Rightarrow> string \<Rightarrow> string \<Rightarrow> string \<Rightarrow> nodes_path \<Rightarrow> 'cc
   \<Rightarrow> ('pk, 'sk, 'ek, 'es) node_keys \<Rightarrow> 'cc nprog" where
  \<comment> \<open>the evaluation keys that the operation needs\<close>
  "abort_evalkeys L names op me endNode path c nk =
     nbind (if op = ''multiply''
            then nbind (abort_EvalMultkeyGen (b_keys L) names me ''Node1'' endNode path c nk) (\<lambda>(evalMultFinal, nk).
                 nbind (deref ''evalMultFinal'' evalMultFinal) (\<lambda>k. nret (b_InsertEvalMultKey L c [k], nk)))
            else nret (c, nk)) (\<lambda>(c, nk).
     if op = ''vectorsum''
     then nbind (abort_EvalSumkeyGen (b_keys L) names me ''Node1'' endNode path c nk) (\<lambda>(evalSumFinal, nk).
          nbind (deref ''evalSumFinal'' evalSumFinal) (\<lambda>k. nret (b_InsertEvalSumKey L c k)))
     else nret c)"

fun gather_cts :: "('cc, 'pk, 'sk, 'ek, 'es, 'ct, 'pt, 'sh) abort_lib \<Rightarrow> u32 \<Rightarrow> 'ct \<Rightarrow> u32 list \<Rightarrow> 'ct list nprog" where
  \<comment> \<open>CipherTexts\<close>
  "gather_cts L nid cipherText [] = nret []"
| "gather_cts L nid cipherText (i # is) =
     nbind (if nid \<noteq> i then n_getSerialMsgWait (b_deser_ct L) ''ciphertext'' (node_of i) else nret cipherText) (\<lambda>ct.
     nbind (gather_cts L nid cipherText is) (\<lambda>cts. nret (ct # cts)))"

definition abort_setup ::
  "('cc, 'pk, 'sk, 'ek, 'es, 'ct, 'pt, 'sh) abort_lib \<Rightarrow> string list \<Rightarrow> string \<Rightarrow> string \<Rightarrow> path_input
   \<Rightarrow> ('cc \<times> 'sk \<times> (u32 \<rightharpoonup> 'sh) \<times> 'ct list) nprog" where
  \<comment> \<open>from the context to the ciphertexts of all nodes: the context, the secret key, the shares received, the ciphertexts\<close>
  "abort_setup L names me op p =
     (let n = num_of_nodes p; endNode = node_of n; path = path_of n (node_id p) in
      nbind (abort_context L names me) (\<lambda>c.
      nbind (abort_PublickeyGen (b_keys L) names me ''Node1'' endNode path c node_keys0) (\<lambda>(FinalPubKey, nk).
      nbind (get_keyPair nk) (\<lambda>keyPair.
      nbind (exchange_shares L (node_id p) (b_ShareKeys L c (snd keyPair) n (drop_threshold n) (node_id p) ''shamir'')
               (node_ids n) Map.empty) (\<lambda>recdSecretShares.
      nbind (abort_evalkeys L names op me endNode path c nk) (\<lambda>c.
      nbind (n_lift (b_MakePackedPlaintext L c (vectorOfInts p))) (\<lambda>pt.
      let cipherText = b_Encrypt L c FinalPubKey pt in
      nbind (n_broadcastSerialMsg (b_ser_ct L) cipherText ''ciphertext'' names 1 0) (\<lambda>_.
      nbind (gather_cts L (node_id p) cipherText (node_ids n)) (\<lambda>CipherTexts.
        nret (c, snd keyPair, recdSecretShares, CipherTexts))))))))))"

definition abort_compute :: "('cc, 'pk, 'sk, 'ek, 'es, 'ct, 'pt, 'sh) abort_lib \<Rightarrow> string \<Rightarrow> 'cc \<Rightarrow> 'ct list \<Rightarrow> 'ct option result" where
  \<comment> \<open>an unknown operation leaves the null pointer\<close>
  "abort_compute L op c CipherTexts =
     (if op = ''multiply'' then Inr (Some (b_EvalMultMany L c CipherTexts))
      else if op = ''add'' then Inr (Some (b_EvalAddMany L c CipherTexts))
      else if op = ''vectorsum'' then rbind (Prelude.at ''CipherTexts'' CipherTexts 0) (\<lambda>ct. Inr (Some (b_EvalSum L c ct 16)))
      else Inr None)"

fun collect_shares ::
  "('cc, 'pk, 'sk, 'ek, 'es, 'ct, 'pt, 'sh) abort_lib \<Rightarrow> u32 \<Rightarrow> 'ct list \<Rightarrow> u32 list \<Rightarrow> ('ct option list \<times> u32 list) nprog" where
  \<comment> \<open>partialCiphertextVec, and node_nack, the nodes that did not answer in time\<close>
  "collect_shares L nid ciphertextPartial [] = nret ([], [])"
| "collect_shares L nid ciphertextPartial (i # is) =
     (if nid \<noteq> i
      then nbind (n_getMsgWait_timed (node_of i) ''partialciphertext'') (\<lambda>replyMsg.
           if \<not> acknowledgement replyMsg
           then nbind (collect_shares L nid ciphertextPartial is) (\<lambda>(v, node_nack). nret (None # v, i # node_nack))
           else if Data replyMsg = [] then nthrow (Openfhe_error ''Received empty serialized object partial ct'')
           else nbind (n_lift (b_deser_cts L (Data replyMsg))) (\<lambda>ciphertextPartial1.
                nbind (n_lift (Prelude.at ''ciphertextPartial1'' ciphertextPartial1 0)) (\<lambda>x.
                nbind (collect_shares L nid ciphertextPartial is) (\<lambda>(v, node_nack). nret (Some x # v, node_nack)))))
      else nbind (n_lift (Prelude.at ''ciphertextPartial'' ciphertextPartial 0)) (\<lambda>x.
           nbind (collect_shares L nid ciphertextPartial is) (\<lambda>(v, node_nack). nret (Some x # v, node_nack))))"

fun recover_nodes ::
  "('cc, 'pk, 'sk, 'ek, 'es, 'ct, 'pt, 'sh) abort_lib \<Rightarrow> 'cc \<Rightarrow> u32 \<Rightarrow> u32 \<Rightarrow> 'ct option \<Rightarrow> (u32 \<rightharpoonup> 'sh) \<Rightarrow> u32 list
   \<Rightarrow> u32 list \<Rightarrow> (u32 \<rightharpoonup> 'sh) \<Rightarrow> 'ct option list \<Rightarrow> 'ct option list nprog" where
  \<comment> \<open>for (i = 0; i < node_nack.size(); i++): Node1 recovers, the others send their shares and wait\<close>
  "recover_nodes L c n nid resultCT recd node_nack [] recoveryShares partialCiphertextVec = nret partialCiphertextVec"
| "recover_nodes L c n nid resultCT recd node_nack (d # ds) recoveryShares partialCiphertextVec =
     nbind (if nid = 1
            then nbind (RecoverDroppedSecret L nid node_nack c (recoveryShares(1 \<mapsto> idx_val (b_share0 L) recd d)) n
                          (drop_threshold n)) (\<lambda>(recoveredSecret, recoveryShares).
                 nbind (SendRecoveredPartialCT L nid node_nack n c resultCT recoveredSecret) (\<lambda>ciphertextPartial1.
                   nret (ciphertextPartial1, recoveryShares)))
            else nbind (n_sendSerialMsg (b_ser_sh L) (idx_val (b_share0 L) recd d) ''secretsharerecovery'' (node_of 1)) (\<lambda>_.
                 nbind (n_getSerialMsgWait (b_deser_cts L) ''abortspartialciphertext'' (node_of 1)) (\<lambda>ciphertextPartial1.
                   nret (ciphertextPartial1, recoveryShares)))) (\<lambda>(ciphertextPartial1, recoveryShares).
     nbind (n_lift (Prelude.at ''ciphertextPartial1'' ciphertextPartial1 0)) (\<lambda>x.
       if unat (d - 1) < length partialCiphertextVec
       then recover_nodes L c n nid resultCT recd node_nack ds recoveryShares (partialCiphertextVec[unat (d - 1) := Some x])
       else nthrow (Undefined ''partialCiphertextVec'')))"

definition abort_fuse :: "('cc, 'pk, 'sk, 'ek, 'es, 'ct, 'pt, 'sh) abort_lib \<Rightarrow> 'cc \<Rightarrow> 'ct option list \<Rightarrow> 'pt nprog" where
  "abort_fuse L c partialCiphertextVec =
     nbind (n_lift (all_present partialCiphertextVec)) (\<lambda>cts. nret (b_SetLength L 24 (b_MultipartyDecryptFusion L c cts)))"

definition abort_recover ::
  "('cc, 'pk, 'sk, 'ek, 'es, 'ct, 'pt, 'sh) abort_lib \<Rightarrow> 'cc \<Rightarrow> u32 \<Rightarrow> u32 \<Rightarrow> 'ct option \<Rightarrow> (u32 \<rightharpoonup> 'sh) \<Rightarrow> 'ct option list \<Rightarrow> u32 list \<Rightarrow> 'pt nprog" where
  \<comment> \<open>after the partial decryptions: the threshold, the aborts protocol, the fusion\<close>
  "abort_recover L c n nid resultCT recd partialCiphertextVec node_nack =
     (if node_nack \<noteq> [] \<and> of_nat (length node_nack) \<ge> drop_threshold n
      then nthrow (Config_error ''majority number of nodes dropped out, not enough nodes to recover'')
      else nbind (recover_nodes L c n nid resultCT recd node_nack node_nack Map.empty partialCiphertextVec) (abort_fuse L c))"

definition abort_decrypt ::
  "('cc, 'pk, 'sk, 'ek, 'es, 'ct, 'pt, 'sh) abort_lib \<Rightarrow> string list \<Rightarrow> 'cc \<Rightarrow> u32 \<Rightarrow> u32 \<Rightarrow> 'sk \<Rightarrow> (u32 \<rightharpoonup> 'sh) \<Rightarrow> 'ct option \<Rightarrow> 'pt nprog" where
  "abort_decrypt L names c n nid sk recd resultCT =
     nbind (n_lift (if nid = 1 then b_MultipartyDecryptLead L c [resultCT] sk
                    else b_MultipartyDecryptMain L c [resultCT] sk)) (\<lambda>ciphertextPartial.
     nbind (n_broadcastSerialMsg (b_ser_cts L) ciphertextPartial ''partialciphertext'' names 5 10) (\<lambda>_.
     nbind (collect_shares L nid ciphertextPartial (node_ids n)) (\<lambda>(partialCiphertextVec, node_nack).
       abort_recover L c n nid resultCT recd partialCiphertextVec node_nack)))"

definition thresh_aborts_client :: "('cc, 'pk, 'sk, 'ek, 'es, 'ct, 'pt, 'sh) abort_lib \<Rightarrow> string list \<Rightarrow> string \<Rightarrow> string \<Rightarrow> string \<Rightarrow> 'pt nprog" where
  "thresh_aborts_client L names me arguments inputfile =
     nbind (n_lift (operation_of arguments)) (\<lambda>(op, aborts).
     nbind (n_lift (checked_input me inputfile)) (\<lambda>p.
     nbind (abort_sync names p) (\<lambda>_.
     nbind (abort_setup L names me op p) (\<lambda>(c, sk, recdSecretShares, CipherTexts).
     if aborts then nthrow (Exit_failure ''This client is Aborting the protocol and exiting.'')
     else nbind (n_lift (abort_compute L op c CipherTexts)) (\<lambda>resultCT.
          abort_decrypt L names c (num_of_nodes p) (node_id p) sk recdSecretShares resultCT)))))"

end
