(* ===== verification/Aborts_Setup.thy ===== *)
theory Aborts_Setup
  imports Aborts_P2P P2P_Rounds Path_Correct
begin

text \<open>
  The nodes of the aborts demo up to the point at which all have all ciphertexts: \<open>abort_setup\<close>, for any number of nodes.
  A run of it is a sequence of rounds: the context is broadcast, the public key goes down the path and
  is broadcast, each two nodes swap their shares, the evaluation keys go down and up the path with broadcasts
  between, and all ciphertexts are exchanged. The joint keys are those of the path of \<open>Path_Correct\<close>.
\<close>

section \<open>What the nodes compute\<close>

type_synonym ('cc, 'pk, 'sk, 'ek, 'es, 'ct, 'pt, 'sh) abort_nodes = "nat \<Rightarrow> ('cc, 'pk, 'sk, 'ek, 'es, 'ct, 'pt, 'sh) abort_lib"
  \<comment> \<open>the library of every node, with its own random numbers\<close>

definition ab_ctx :: "('cc, 'pk, 'sk, 'ek, 'es, 'ct, 'pt, 'sh) abort_nodes \<Rightarrow> nat \<Rightarrow> 'cc" where
  "ab_ctx N j = b_ClearKeys (N j) (b_GenCryptoContext (N 1) aborts_params)"

definition ab_path :: "('cc, 'pk, 'sk, 'ek, 'es, 'ct, 'pt, 'sh) abort_nodes \<Rightarrow> ('cc, 'pk, 'sk, 'ek, 'es) path_nodes" where
  "ab_path N j = (b_keys (N j), ab_ctx N j)"

definition ab_pk :: "('cc, 'pk, 'sk, 'ek, 'es, 'ct, 'pt, 'sh) abort_nodes \<Rightarrow> nat \<Rightarrow> 'pk" where
  "ab_pk N n = pk_at (ab_path N) n"

definition ab_sk :: "('cc, 'pk, 'sk, 'ek, 'es, 'ct, 'pt, 'sh) abort_nodes \<Rightarrow> nat \<Rightarrow> 'sk" where
  "ab_sk N j = sk_at (ab_path N) j"

definition ab_shares :: "('cc, 'pk, 'sk, 'ek, 'es, 'ct, 'pt, 'sh) abort_nodes \<Rightarrow> nat \<Rightarrow> nat \<Rightarrow> (u32 \<rightharpoonup> 'sh)" where
  \<comment> \<open>the shares of node j's secret key\<close>
  "ab_shares N n j = b_ShareKeys (N j) (ab_ctx N j) (ab_sk N j) (of_nat n) (drop_threshold (of_nat n)) (of_nat j) ''shamir''"

definition ab_share :: "('cc, 'pk, 'sk, 'ek, 'es, 'ct, 'pt, 'sh) abort_nodes \<Rightarrow> nat \<Rightarrow> nat \<Rightarrow> nat \<Rightarrow> 'sh" where
  \<comment> \<open>the share of node i's key for node j\<close>
  "ab_share N n i j = idx_val (b_share0 (N i)) (ab_shares N n i) (of_nat j)"

definition ab_recd :: "('cc, 'pk, 'sk, 'ek, 'es, 'ct, 'pt, 'sh) abort_nodes \<Rightarrow> nat \<Rightarrow> nat \<Rightarrow> nat \<Rightarrow> (u32 \<rightharpoonup> 'sh)" where
  \<comment> \<open>what node j has received of the first m nodes\<close>
  "ab_recd N n j m = (\<lambda>i. if 1 \<le> unat i \<and> unat i \<le> m \<and> unat i \<noteq> j then Some (ab_share N n (unat i) j) else None)"

definition ab_ctx_keys :: "('cc, 'pk, 'sk, 'ek, 'es, 'ct, 'pt, 'sh) abort_nodes \<Rightarrow> nat \<Rightarrow> string \<Rightarrow> nat \<Rightarrow> 'cc" where
  \<comment> \<open>the context with the evaluation keys of the operation\<close>
  "ab_ctx_keys N n op j =
     (if op = ''multiply'' then b_InsertEvalMultKey (N j) (ab_ctx N j) [path_mix (ab_path N) n (n - 1)]
      else if op = ''vectorsum'' then b_InsertEvalSumKey (N j) (ab_ctx N j) (snd (path_es (ab_path N) (n - 1)))
      else ab_ctx N j)"

definition ab_ct :: "('cc, 'pk, 'sk, 'ek, 'es, 'ct, 'pt, 'sh) abort_nodes \<Rightarrow> nat \<Rightarrow> string \<Rightarrow> (nat \<Rightarrow> 'pt) \<Rightarrow> nat \<Rightarrow> 'ct" where
  "ab_ct N n op pt j = b_Encrypt (N j) (ab_ctx_keys N n op j) (ab_pk N n) (pt j)"

definition ab_result ::
  "('cc, 'pk, 'sk, 'ek, 'es, 'ct, 'pt, 'sh) abort_nodes \<Rightarrow> nat \<Rightarrow> string \<Rightarrow> (nat \<Rightarrow> 'pt) \<Rightarrow> nat
   \<Rightarrow> 'cc \<times> 'sk \<times> (u32 \<rightharpoonup> 'sh) \<times> 'ct list" where
  "ab_result N n op pt j = (ab_ctx_keys N n op j, ab_sk N j, ab_recd N n j n, map (ab_ct N n op pt) [1..<Suc n])"

definition abort_serial_ok :: "('cc, 'pk, 'sk, 'ek, 'es, 'ct, 'pt, 'sh) abort_nodes \<Rightarrow> nat \<Rightarrow> bool" where
  \<comment> \<open>every node reads what any other has written\<close>
  "abort_serial_ok N n \<longleftrightarrow> path_serial_ok (ab_path N) n \<and> (\<forall>i \<in> {1..n}. \<forall>j \<in> {1..n}.
     (\<forall>x. b_ser_cc (N i) x \<noteq> [] \<and> b_deser_cc (N j) (b_ser_cc (N i) x) = Inr x)
   \<and> (\<forall>x. b_ser_sh (N i) x \<noteq> [] \<and> b_deser_sh (N j) (b_ser_sh (N i) x) = Inr x)
   \<and> (\<forall>x. b_ser_ct (N i) x \<noteq> [] \<and> b_deser_ct (N j) (b_ser_ct (N i) x) = Inr x)
   \<and> (\<forall>x. b_ser_cts (N i) x \<noteq> [] \<and> b_deser_cts (N j) (b_ser_cts (N i) x) = Inr x))"

lemma abort_serialD:
  assumes "abort_serial_ok N n" "1 \<le> i" "i \<le> n"
  shows "b_ser_cc (N i) c \<noteq> []" "b_ser_sh (N i) s \<noteq> []" "b_ser_ct (N i) x \<noteq> []" "b_ser_cts (N i) v \<noteq> []"
    "1 \<le> j \<Longrightarrow> j \<le> n \<Longrightarrow> b_deser_cc (N j) (b_ser_cc (N i) c) = Inr c"
    "1 \<le> j \<Longrightarrow> j \<le> n \<Longrightarrow> b_deser_sh (N j) (b_ser_sh (N i) s) = Inr s"
    "1 \<le> j \<Longrightarrow> j \<le> n \<Longrightarrow> b_deser_ct (N j) (b_ser_ct (N i) x) = Inr x"
    "1 \<le> j \<Longrightarrow> j \<le> n \<Longrightarrow> b_deser_cts (N j) (b_ser_cts (N i) v) = Inr v"
    "k_ser_pk (b_keys (N i)) pk \<noteq> []" "k_ser_ek (b_keys (N i)) ek \<noteq> []" "k_ser_es (b_keys (N i)) es \<noteq> []"
    "1 \<le> j \<Longrightarrow> j \<le> n \<Longrightarrow> k_deser_pk (b_keys (N j)) (k_ser_pk (b_keys (N i)) pk) = Inr pk"
    "1 \<le> j \<Longrightarrow> j \<le> n \<Longrightarrow> k_deser_ek (b_keys (N j)) (k_ser_ek (b_keys (N i)) ek) = Inr ek"
    "1 \<le> j \<Longrightarrow> j \<le> n \<Longrightarrow> k_deser_es (b_keys (N j)) (k_ser_es (b_keys (N i)) es) = Inr es"
  using assms by (auto simp: abort_serial_ok_def path_serial_ok_def ab_path_def)

section \<open>Turns with broadcasts\<close>

lemma turn_broadcast: "turn i (k ()) [] [] q \<Longrightarrow> turn i (nbind (n_broadcast names ty d sl ti) k) [] (map (\<lambda>t. (t, msg i ty d)) names) q"
  by (induction names) (auto intro: turn.intros simp: nret_def)

lemma turn_bcast:
  assumes "ser x \<noteq> []" "turn i (k ()) [] [] q"
  shows "turn i (nbind (n_broadcastSerialMsg ser x ty names sl ti) k) [] (map (\<lambda>t. (t, msg i ty (ser x))) names) q"
  unfolding n_broadcastSerialMsg_def using assms by (simp add: turn_broadcast)

lemma patient_broadcast [simp]: "patient (n_broadcast names ty d sl ti)"
  by (induction names) simp_all

lemma patient_bcast [simp]: "patient (n_broadcastSerialMsg ser x ty names sl ti)"
  by (simp add: n_broadcastSerialMsg_def)

lemmas round_simps = turn_put turn_get turn_here turn_bcast nbind_assoc Let_def

lemma nm_one_iff [simp]: "nm j = ''Node1'' \<longleftrightarrow> j = 1" "''Node1'' = nm j \<longleftrightarrow> j = 1"
  using nm_eq_iff [of j 1] by auto

section \<open>The public key\<close>

definition pub_rest ::
  "('cc, 'pk, 'sk, 'ek, 'es) path_nodes \<Rightarrow> nat \<Rightarrow> (nat \<Rightarrow> string list) \<Rightarrow> nat \<Rightarrow> nat
   \<Rightarrow> ('pk \<times> ('pk, 'sk, 'ek, 'es) node_keys \<Rightarrow> 'r nprog) \<Rightarrow> 'r nprog" where
  \<comment> \<open>where node j is in abort_PublickeyGen: at the start, with its key pair, waiting for the final key, done\<close>
  "pub_rest N n names s j k =
     (let pk = (\<lambda>x. nret (x, node_keys0\<lparr>nk_keyPair := Some (path_pair N (j - 1)), nk_FinalPubKey := Some x\<rparr>));
          last = nbind (n_getSerialMsgWait (k_deser_pk (Lib N j)) ''PublicKey'' (nm n)) pk
      in if s = 0 then nbind (abort_PublickeyGen (Lib N j) (names j) (nm j) (nm 1) (nm n) (pth n j) (Ctx N j) node_keys0) k
         else if s = 1
         then (if j = n
               then nbind (n_broadcastSerialMsg (k_ser_pk (Lib N j)) (pk_at N n) ''PublicKey'' (names j) 1 0) (\<lambda>_. nbind (pk (pk_at N n)) k)
               else nbind (n_sendSerialMsg (k_ser_pk (Lib N j)) (pk_at N j) ''PublicKey'' (nm (Suc j))) (\<lambda>_. nbind last k))
         else if s = 2 then nbind last k
         else k (pk_at N n, nk2 N n j))"

lemma pub_round:
  assumes net: "meshed n conn" and n: "2 \<le> n" "n < 2 ^ 32" and names: "all_others n n (names n)" and ser: "path_serial_ok N n"
  shows "net_reach conn (team n (\<lambda>j. pub_rest N n names 0 j (k j))) (team n (\<lambda>j. pub_rest N n names 3 j (k j)))"
proof -
  note S = path_serialD [OF ser]
  have starts: "team n (\<lambda>j. pub_rest N n names 0 j (k j)) = team n (\<lambda>j. if j = 1 then pub_rest N n names 1 1 (k 1) else pub_rest N n names 0 j (k j))"
    by (rule team_cong) (use n in \<open>auto simp: pub_rest_def abort_PublickeyGen_def pk_at_def pth_eq nbind_assoc Let_def\<close>)
  have down: "net_reach conn (team n (\<lambda>j. if j = 1 then pub_rest N n names 1 1 (k 1) else pub_rest N n names 0 j (k j)))
      (team n (\<lambda>j. if j = n then pub_rest N n names 1 n (k n) else pub_rest N n names 2 j (k j)))"
  proof (rule team_down [OF net, where M = "\<lambda>j. [msg (nm j) ''PublicKey'' (k_ser_pk (Lib N j) (pk_at N j))]"])
    fix j assume j: "1 \<le> j" "j < n"
    show "turn (nm j) (pub_rest N n names 1 j (k j)) [] (map (Pair (nm (Suc j))) [msg (nm j) ''PublicKey'' (k_ser_pk (Lib N j) (pk_at N j))])
        (pub_rest N n names 2 j (k j))"
      using j by (simp add: pub_rest_def round_simps S)
    have "path_pair N (Suc j - 1) = k_MultipartyKeyGen (Lib N (Suc j)) (Ctx N (Suc j)) (pk_at N j)"
      using j by (cases j) (simp_all add: pk_at_def)
    then show "turn (nm (Suc j)) (pub_rest N n names 0 (Suc j) (k (Suc j)))
        (map (Pair (nm j)) [msg (nm j) ''PublicKey'' (k_ser_pk (Lib N j) (pk_at N j))]) [] (pub_rest N n names 1 (Suc j) (k (Suc j)))"
      using j n by (cases "Suc j = n") (auto simp: pub_rest_def abort_PublickeyGen_def round_simps S pth_eq pk_at_def [of N "Suc j"] pk_at_def [of N n])
  qed (use n in simp)
  have up: "net_reach conn (team n (\<lambda>j. if j = n then pub_rest N n names 1 n (k n) else pub_rest N n names 2 j (k j)))
      (team n (\<lambda>j. pub_rest N n names 3 j (k j)))"
    by (rule team_scatter [OF net, where h = n and m = "msg (nm n) ''PublicKey'' (k_ser_pk (Lib N n) (pk_at N n))"])
      (use n names in \<open>auto simp: pub_rest_def round_simps S nk2_def nk1_def\<close>)
  show ?thesis unfolding starts by (rule net_reach_trans [OF down up])
qed

section \<open>The evaluation keys\<close>

definition mult_at ::
  "('cc, 'pk, 'sk, 'ek, 'es) path_nodes \<Rightarrow> nat \<Rightarrow> (nat \<Rightarrow> string list) \<Rightarrow> nat \<Rightarrow> nat
   \<Rightarrow> ('ek option \<times> ('pk, 'sk, 'ek, 'es) node_keys \<Rightarrow> 'r nprog) \<Rightarrow> 'r nprog" where
  \<comment> \<open>where node j is in abort_EvalMultkeyGen: at the start; with the sum so far; waiting for the sum of all;
    with it; with the product so far; waiting for the final key; done\<close>
  "mult_at N n names s j k =
     (let K = Lib N j; tag = k_KeyTag K (pk_at N n);
          fin = (\<lambda>e. k (Some e, (nk2 N n j)\<lparr>nk_evalMultFinal := Some e\<rparr>));
          final = nbind (n_getSerialMsgWait (k_deser_ek K) ''evalmixmultkey'' (nm 1)) fin;
          pass = (\<lambda>mix. if j = 1 then nbind (n_broadcastSerialMsg (k_ser_ek K) mix ''evalmixmultkey'' (names j) 1 0) (\<lambda>_. fin mix)
                         else nbind (n_sendSerialMsg (k_ser_ek K) mix ''evalmixmultkey'' (nm (j - 1))) (\<lambda>_. final));
          mixed = (\<lambda>all. nbind (n_getSerialMsgWait (k_deser_ek K) ''evalmixmultkey'' (nm (Suc j))) (\<lambda>prev.
                     pass (k_MultiAddEvalMultKeys K (Ctx N j) (k_MultiMultEvalKey K (Ctx N j) (sk_at N j) all tag) prev tag)));
          total = nbind (n_getSerialMsgWait (k_deser_ek K) ''evalmultkey'' (nm n)) mixed
      in if s = 0 then nbind (abort_EvalMultkeyGen K (names j) (nm j) (nm 1) (nm n) (pth n j) (Ctx N j) (nk2 N n j)) k
         else if s = 1
         then (if j = n
               then nbind (n_broadcastSerialMsg (k_ser_ek K) (path_em N (n - 1)) ''evalmultkey'' (names j) 1 0) (\<lambda>_. pass (path_mix N n 0))
               else nbind (n_sendSerialMsg (k_ser_ek K) (path_em N (j - 1)) ''evalmultkey'' (nm (Suc j))) (\<lambda>_. total))
         else if s = 2 then total
         else if s = 3 then (if j = n then pass (path_mix N n 0) else mixed (path_em N (n - 1)))
         else if s = 4 then pass (path_mix N n (n - j))
         else if s = 5 then final
         else fin (path_mix N n (n - 1)))"

lemma mult_first:
  assumes "2 \<le> n" "n < 2 ^ 32"
  shows "mult_at N n names 0 1 k = mult_at N n names 1 1 k"
  using assms by (simp add: mult_at_def abort_EvalMultkeyGen_def abort_evalmult_down_def abort_evalmult_up_def get_keyPair_def
    get_FinalPubKey_def deref_def nk2_def nk1_def pth_eq sk_at_def nbind_assoc Let_def)

lemma mult_send:
  assumes "path_serial_ok N n" "1 \<le> j" "j < n"
  shows "turn (nm j) (mult_at N n names 1 j k) [] (map (Pair (nm (Suc j))) [msg (nm j) ''evalmultkey'' (k_ser_ek (Lib N j) (path_em N (j - 1)))])
    (mult_at N n names 2 j k)"
  using assms by (simp add: mult_at_def round_simps path_serialD)

lemma mult_take:
  assumes "path_serial_ok N n" "n < 2 ^ 32" "1 \<le> j" "j < n"
  shows "turn (nm (Suc j)) (mult_at N n names 0 (Suc j) k)
    (map (Pair (nm j)) [msg (nm j) ''evalmultkey'' (k_ser_ek (Lib N j) (path_em N (j - 1)))]) [] (mult_at N n names 1 (Suc j) k)"
proof -
  obtain i where i: "j = Suc i" using assms(3) by (cases j) auto
  show ?thesis
    using assms unfolding i
    by (cases "Suc (Suc i) = n") (auto simp: mult_at_def abort_EvalMultkeyGen_def abort_evalmult_down_def abort_evalmult_up_def
      get_keyPair_def get_FinalPubKey_def deref_def nk2_def nk1_def pth_eq sk_at_def pk_at_def mix_own_def round_simps path_serialD [OF assms(1)])
qed

lemma mult_mix_send:
  assumes "path_serial_ok N n" "1 \<le> j" "j < n"
  shows "turn (nm (Suc j)) (mult_at N n names 4 (Suc j) k) []
    (map (Pair (nm j)) [msg (nm (Suc j)) ''evalmixmultkey'' (k_ser_ek (Lib N (Suc j)) (path_mix N n (n - Suc j)))]) (mult_at N n names 5 (Suc j) k)"
  using assms by (simp add: mult_at_def round_simps path_serialD del: path_mix.simps)

lemma mult_mix_take:
  assumes "path_serial_ok N n" "1 \<le> j" "j < n"
  shows "turn (nm j) (mult_at N n names 3 j k)
    (map (Pair (nm (Suc j))) [msg (nm (Suc j)) ''evalmixmultkey'' (k_ser_ek (Lib N (Suc j)) (path_mix N n (n - Suc j)))]) []
    (mult_at N n names 4 j k)"
  using assms path_mix_step [of j n N] by (simp add: mult_at_def round_simps path_serialD del: path_mix.simps)

lemma mult_last: "mult_at N n names 3 n k = mult_at N n names 4 n k"
  by (simp add: mult_at_def Let_def)

lemma mult_round:
  assumes net: "meshed n conn" and n: "2 \<le> n" "n < 2 ^ 32" and names: "all_others n n (names n)" "all_others n 1 (names 1)"
    and ser: "path_serial_ok N n"
  shows "net_reach conn (team n (\<lambda>j. mult_at N n names 0 j (k j))) (team n (\<lambda>j. mult_at N n names 6 j (k j)))"
proof -
  note S = path_serialD [OF ser]
  let ?at = "\<lambda>s j. mult_at N n names s j (k j)"
  have starts: "team n (?at 0) = team n (\<lambda>j. if j = 1 then ?at 1 1 else ?at 0 j)"
    by (rule team_cong) (simp add: mult_first [OF n, unfolded One_nat_def])
  have down: "net_reach conn (team n (\<lambda>j. if j = 1 then ?at 1 1 else ?at 0 j)) (team n (\<lambda>j. if j = n then ?at 1 n else ?at 2 j))"
    by (rule team_down [OF net, where M = "\<lambda>j. [msg (nm j) ''evalmultkey'' (k_ser_ek (Lib N j) (path_em N (j - 1)))]"])
      (use n mult_send [OF ser] mult_take [OF ser n(2)] in simp_all)
  have total: "net_reach conn (team n (\<lambda>j. if j = n then ?at 1 n else ?at 2 j)) (team n (?at 3))"
    by (rule team_scatter [OF net, where h = n and m = "msg (nm n) ''evalmultkey'' (k_ser_ek (Lib N n) (path_em N (n - 1)))"])
      (use n names in \<open>auto simp: mult_at_def round_simps S\<close>)
  have middle: "team n (?at 3) = team n (\<lambda>j. if j = n then ?at 4 n else ?at 3 j)"
    by (rule team_cong) (auto intro: mult_last)
  have up: "net_reach conn (team n (\<lambda>j. if j = n then ?at 4 n else ?at 3 j)) (team n (\<lambda>j. if j = 1 then ?at 4 1 else ?at 5 j))"
    by (rule team_up [OF net, where M = "\<lambda>j. [msg (nm (Suc j)) ''evalmixmultkey'' (k_ser_ek (Lib N (Suc j)) (path_mix N n (n - Suc j)))]"])
      (use n mult_mix_send [OF ser] mult_mix_take [OF ser] in simp_all)
  have final: "net_reach conn (team n (\<lambda>j. if j = 1 then ?at 4 1 else ?at 5 j)) (team n (?at 6))"
    by (rule team_scatter [OF net, where h = 1 and m = "msg (nm 1) ''evalmixmultkey'' (k_ser_ek (Lib N 1) (path_mix N n (n - 1)))"])
      (use n names in \<open>auto simp: mult_at_def round_simps S simp del: path_mix.simps\<close>)
  show ?thesis unfolding starts
    using net_reach_trans [OF down net_reach_trans [OF total [unfolded middle] net_reach_trans [OF up final]]] .
qed

definition sum_at ::
  "('cc, 'pk, 'sk, 'ek, 'es) path_nodes \<Rightarrow> nat \<Rightarrow> (nat \<Rightarrow> string list) \<Rightarrow> nat \<Rightarrow> nat
   \<Rightarrow> ('es option \<times> ('pk, 'sk, 'ek, 'es) node_keys \<Rightarrow> 'r nprog) \<Rightarrow> 'r nprog" where
  \<comment> \<open>where node j is in abort_EvalSumkeyGen: at the start, with its keys, waiting for the final keys, done\<close>
  "sum_at N n names s j k =
     (let K = Lib N j; fin = (\<lambda>e. k (Some e, (nk2 N n j)\<lparr>nk_evalSumFinal := Some e\<rparr>));
          final = nbind (n_getSerialMsgWait (k_deser_es K) ''evalSumKeys1'' (nm n)) fin
      in if s = 0 then nbind (abort_EvalSumkeyGen K (names j) (nm j) (nm 1) (nm n) (pth n j) (Ctx N j) (nk2 N n j)) k
         else if s = 1
         then (if j = n
               then nbind (n_broadcastSerialMsg (k_ser_es K) (snd (path_es N (n - 1))) ''evalSumKeys1'' (names j) 1 0) (\<lambda>_. fin (snd (path_es N (n - 1))))
               else nbind (n_sendSerialMsg (k_ser_es K) (fst (path_es N (j - 1))) ''evalSumKeys0'' (nm (Suc j))) (\<lambda>_.
                    nbind (n_sendSerialMsg (k_ser_es K) (snd (path_es N (j - 1))) ''evalSumKeys1'' (nm (Suc j))) (\<lambda>_. final)))
         else if s = 2 then final
         else fin (snd (path_es N (n - 1))))"

definition sum_mails :: "('cc, 'pk, 'sk, 'ek, 'es) path_nodes \<Rightarrow> nat \<Rightarrow> message_format list" where
  "sum_mails N j = [msg (nm j) ''evalSumKeys0'' (k_ser_es (Lib N j) (fst (path_es N (j - 1)))),
     msg (nm j) ''evalSumKeys1'' (k_ser_es (Lib N j) (snd (path_es N (j - 1))))]"

lemma sum_first:
  assumes "2 \<le> n" "n < 2 ^ 32"
  shows "sum_at N n names 0 1 k = sum_at N n names 1 1 k"
  using assms by (simp add: sum_at_def abort_EvalSumkeyGen_def get_keyPair_def deref_def nk2_def nk1_def pth_eq sk_at_def nbind_assoc Let_def)

lemma sum_send:
  assumes "path_serial_ok N n" "1 \<le> j" "j < n"
  shows "turn (nm j) (sum_at N n names 1 j k) [] (map (Pair (nm (Suc j))) (sum_mails N j)) (sum_at N n names 2 j k)"
  using assms by (simp add: sum_at_def sum_mails_def round_simps path_serialD)

lemma sum_take:
  assumes "path_serial_ok N n" "n < 2 ^ 32" "1 \<le> j" "j < n"
  shows "turn (nm (Suc j)) (sum_at N n names 0 (Suc j) k) (map (Pair (nm j)) (sum_mails N j)) [] (sum_at N n names 1 (Suc j) k)"
proof -
  obtain i where i: "j = Suc i" using assms(3) by (cases j) auto
  show ?thesis
    using assms unfolding i
    by (cases "Suc (Suc i) = n") (auto simp: sum_at_def sum_mails_def abort_EvalSumkeyGen_def
      get_keyPair_def deref_def nk2_def nk1_def pth_eq sk_at_def pk_at_def round_simps path_serialD [OF assms(1)])
qed

lemma sum_round:
  assumes net: "meshed n conn" and n: "2 \<le> n" "n < 2 ^ 32" and names: "all_others n n (names n)" and ser: "path_serial_ok N n"
  shows "net_reach conn (team n (\<lambda>j. sum_at N n names 0 j (k j))) (team n (\<lambda>j. sum_at N n names 3 j (k j)))"
proof -
  note S = path_serialD [OF ser]
  let ?at = "\<lambda>s j. sum_at N n names s j (k j)"
  have starts: "team n (?at 0) = team n (\<lambda>j. if j = 1 then ?at 1 1 else ?at 0 j)"
    by (rule team_cong) (simp add: sum_first [OF n, unfolded One_nat_def])
  have down: "net_reach conn (team n (\<lambda>j. if j = 1 then ?at 1 1 else ?at 0 j)) (team n (\<lambda>j. if j = n then ?at 1 n else ?at 2 j))"
    by (rule team_down [OF net, where M = "sum_mails N"])
      (use n sum_send [OF ser] sum_take [OF ser n(2)] in simp_all)
  have final: "net_reach conn (team n (\<lambda>j. if j = n then ?at 1 n else ?at 2 j)) (team n (?at 3))"
    by (rule team_scatter [OF net, where h = n and m = "msg (nm n) ''evalSumKeys1'' (k_ser_es (Lib N n) (snd (path_es N (n - 1))))"])
      (use n names in \<open>auto simp: sum_at_def round_simps S\<close>)
  show ?thesis unfolding starts using net_reach_trans [OF down final] .
qed

section \<open>The secret shares\<close>

definition share_at ::
  "('cc, 'pk, 'sk, 'ek, 'es, 'ct, 'pt, 'sh) abort_nodes \<Rightarrow> nat \<Rightarrow> nat \<Rightarrow> ((u32 \<rightharpoonup> 'sh) \<Rightarrow> 'r nprog) \<Rightarrow> nat \<Rightarrow> 'r nprog" where
  \<comment> \<open>node j has exchanged shares with the first m nodes\<close>
  "share_at N n j k m = nbind (exchange_shares (N j) (of_nat j) (ab_shares N n j) (map of_nat [Suc m..<Suc n]) (ab_recd N n j m)) k"

definition share_wait ::
  "('cc, 'pk, 'sk, 'ek, 'es, 'ct, 'pt, 'sh) abort_nodes \<Rightarrow> nat \<Rightarrow> nat \<Rightarrow> ((u32 \<rightharpoonup> 'sh) \<Rightarrow> 'r nprog) \<Rightarrow> nat \<Rightarrow> 'r nprog" where
  \<comment> \<open>node j has sent its share to node Suc m and waits for the other\<close>
  "share_wait N n j k m = nbind (n_getSerialMsgWait (b_deser_sh (N j)) ''secretshare'' (nm (Suc m))) (\<lambda>x.
     nbind (exchange_shares (N j) (of_nat j) (ab_shares N n j) (map of_nat [Suc (Suc m)..<Suc n]) ((ab_recd N n j m)(of_nat (Suc m) \<mapsto> x))) k)"

definition share_msg :: "('cc, 'pk, 'sk, 'ek, 'es, 'ct, 'pt, 'sh) abort_nodes \<Rightarrow> nat \<Rightarrow> nat \<Rightarrow> nat \<Rightarrow> message_format" where
  "share_msg N n i j = msg (nm i) ''secretshare'' (b_ser_sh (N i) (ab_share N n i j))"

lemma u32_eq: "i < 2 ^ 32 \<Longrightarrow> j < 2 ^ 32 \<Longrightarrow> (of_nat i :: u32) = of_nat j \<longleftrightarrow> i = j"
  by (metis u32_of_nat)

lemma node_of_nat [simp]: "i < 2 ^ 32 \<Longrightarrow> node_of (of_nat i) = nm i"
  by (simp add: node_of_def u32_of_nat)

lemma rest_ids: "m < n \<Longrightarrow> map of_nat [Suc m..<Suc n] = of_nat (Suc m) # map of_nat [Suc (Suc m)..<Suc n]"
  by (simp add: upt_conv_Cons del: upt_Suc)

lemma ab_recd_skip: "ab_recd N n (Suc m) (Suc m) = ab_recd N n (Suc m) m"
  by (auto simp: ab_recd_def fun_eq_iff le_Suc_eq)

lemma ab_recd_step:
  assumes "Suc m \<noteq> j" "Suc m < 2 ^ 32"
  shows "(ab_recd N n j m)(of_nat (Suc m) \<mapsto> ab_share N n (Suc m) j) = ab_recd N n j (Suc m)"
proof
  fix i :: u32
  have "i = of_nat (Suc m) \<longleftrightarrow> unat i = Suc m" using u32_of_nat [OF assms(2)] by (auto intro: word_unat_eq_iff [THEN iffD2])
  then show "((ab_recd N n j m)(of_nat (Suc m) \<mapsto> ab_share N n (Suc m) j)) i = ab_recd N n j (Suc m) i"
    using assms u32_of_nat [OF assms(2)] by (auto simp: ab_recd_def le_Suc_eq)
qed

lemma share_skip: "m < n \<Longrightarrow> share_at N n (Suc m) k m = share_at N n (Suc m) k (Suc m)"
  by (simp add: share_at_def rest_ids ab_recd_skip del: upt_Suc)

lemma share_send:
  assumes "abort_serial_ok N n" "n < 2 ^ 32" "1 \<le> j" "j \<le> n" "m < n" "Suc m \<noteq> j"
  shows "turn (nm j) (share_at N n j k m) [] [(nm (Suc m), share_msg N n j (Suc m))] (share_wait N n j k m)"
  using assms u32_eq [of "Suc m" j] by (simp add: share_at_def share_wait_def share_msg_def rest_ids ab_share_def round_simps abort_serialD
    del: upt_Suc of_nat_Suc)

lemma share_take:
  assumes "abort_serial_ok N n" "n < 2 ^ 32" "1 \<le> j" "j \<le> n" "m < n" "Suc m \<noteq> j"
  shows "turn (nm j) (share_wait N n j k m) [(nm (Suc m), share_msg N n (Suc m) j)] [] (share_at N n j k (Suc m))"
  using assms ab_recd_step [of m j N n] by (simp add: share_at_def share_wait_def share_msg_def round_simps abort_serialD
    del: upt_Suc of_nat_Suc)

definition swapped :: "nat \<Rightarrow> nat \<Rightarrow> nat \<Rightarrow> nat \<Rightarrow> nat" where
  \<comment> \<open>how far node j is when all pairs with a first node up to a are done, and those of Suc a with nodes up to b\<close>
  "swapped n a b j = (if j \<le> a then n else if j = Suc a then b else if j \<le> b then Suc a else a)"

lemma share_round:
  assumes net: "meshed n conn" and n: "n < 2 ^ 32" and ser: "abort_serial_ok N n"
  shows "net_reach conn (team n (\<lambda>j. share_at N n j (k j) 0)) (team n (\<lambda>j. share_at N n j (k j) n))"
proof -
  let ?S = "\<lambda>a b. team n (\<lambda>j. share_at N n j (k j) (swapped n a b j))"
  have inner: "net_reach conn (?S a (Suc a)) (?S a (Suc a + d))" if "Suc a + d \<le> n" for a d
    using that
  proof (induction d)
    case (Suc d)
    let ?i = "Suc a" and ?t = "Suc (Suc a + d)"
    have "net_reach conn (?S a (Suc a)) (?S a (Suc a + d))" using Suc by simp
    also have "net_reach conn \<dots> (team n ((\<lambda>j. share_at N n j (k j) (swapped n a (Suc a + d) j))
        (?i := share_at N n ?i (k ?i) ?t, ?t := share_at N n ?t (k ?t) ?i)))"
    proof (rule team_swap [OF net, where m = "share_msg N n ?i ?t" and m' = "share_msg N n ?t ?i"])
      show "turn (nm ?i) (share_at N n ?i (k ?i) (swapped n a (Suc a + d) ?i)) [] [(nm ?t, share_msg N n ?i ?t)] (share_wait N n ?i (k ?i) (Suc a + d))"
        using share_send [OF ser n, of ?i "Suc a + d" "k ?i"] Suc.prems by (simp add: swapped_def)
      show "turn (nm ?t) (share_at N n ?t (k ?t) (swapped n a (Suc a + d) ?t)) [] [(nm ?i, share_msg N n ?t ?i)] (share_wait N n ?t (k ?t) a)"
        using share_send [OF ser n, of ?t a "k ?t"] Suc.prems by (simp add: swapped_def)
      show "turn (nm ?i) (share_wait N n ?i (k ?i) (Suc a + d)) [(nm ?t, share_msg N n ?t ?i)] [] (share_at N n ?i (k ?i) ?t)"
        using share_take [OF ser n, of ?i "Suc a + d" "k ?i"] Suc.prems by simp
      show "turn (nm ?t) (share_wait N n ?t (k ?t) a) [(nm ?i, share_msg N n ?i ?t)] [] (share_at N n ?t (k ?t) ?i)"
        using share_take [OF ser n, of ?t a "k ?t"] Suc.prems by simp
    qed (use Suc.prems in simp_all)
    also have "\<dots> = ?S a (Suc a + Suc d)"
      by (rule team_cong) (auto simp: swapped_def)
    finally show ?case .
  qed simp
  have "net_reach conn (team n (\<lambda>j. share_at N n j (k j) 0)) (team n (\<lambda>j. share_at N n j (k j) (if j \<le> a then n else a)))" if "a \<le> n" for a
    using that
  proof (induction a)
    case 0
    have "team n (\<lambda>j. share_at N n j (k j) 0) = team n (\<lambda>j. share_at N n j (k j) (if j \<le> 0 then n else 0))"
      by (rule team_cong) simp
    then show ?case by simp
  next
    case (Suc a)
    then have "net_reach conn (team n (\<lambda>j. share_at N n j (k j) 0)) (team n (\<lambda>j. share_at N n j (k j) (if j \<le> a then n else a)))" by simp
    also have "\<dots> = ?S a (Suc a)"
      by (rule team_cong) (use Suc.prems share_skip [of a n N "k (Suc a)"] in \<open>auto simp: swapped_def\<close>)
    also have "net_reach conn \<dots> (?S a (Suc a + (n - Suc a)))" by (rule inner) (use Suc.prems in simp)
    also have "\<dots> = team n (\<lambda>j. share_at N n j (k j) (if j \<le> Suc a then n else Suc a))"
      by (rule team_cong) (use Suc.prems in \<open>auto simp: swapped_def\<close>)
    finally show ?case .
  qed
  from this [of n] have "net_reach conn (team n (\<lambda>j. share_at N n j (k j) 0)) (team n (\<lambda>j. share_at N n j (k j) (if j \<le> n then n else n)))" by simp
  then show ?thesis by simp
qed

section \<open>The ciphertexts\<close>

definition cts_rest ::
  "('cc, 'pk, 'sk, 'ek, 'es, 'ct, 'pt, 'sh) abort_nodes \<Rightarrow> nat \<Rightarrow> (nat \<Rightarrow> string list) \<Rightarrow> (nat \<Rightarrow> path_input) \<Rightarrow> nat
   \<Rightarrow> (u32 \<rightharpoonup> 'sh) \<Rightarrow> 'cc \<Rightarrow> ('cc \<times> 'sk \<times> (u32 \<rightharpoonup> 'sh) \<times> 'ct list) nprog" where
  \<comment> \<open>node j has the context with the keys\<close>
  "cts_rest N n names p j recd c =
     nbind (n_lift (b_MakePackedPlaintext (N j) c (vectorOfInts (p j)))) (\<lambda>pt.
     let cipherText = b_Encrypt (N j) c (ab_pk N n) pt in
     nbind (n_broadcastSerialMsg (b_ser_ct (N j)) cipherText ''ciphertext'' (names j) 1 0) (\<lambda>_.
     nbind (gather_cts (N j) (of_nat j) cipherText (node_ids (of_nat n))) (\<lambda>CipherTexts. nret (c, ab_sk N j, recd, CipherTexts))))"

definition keys_rest ::
  "('cc, 'pk, 'sk, 'ek, 'es, 'ct, 'pt, 'sh) abort_nodes \<Rightarrow> nat \<Rightarrow> (nat \<Rightarrow> string list) \<Rightarrow> string \<Rightarrow> (nat \<Rightarrow> path_input) \<Rightarrow> nat
   \<Rightarrow> (u32 \<rightharpoonup> 'sh) \<Rightarrow> ('cc \<times> 'sk \<times> (u32 \<rightharpoonup> 'sh) \<times> 'ct list) nprog" where
  \<comment> \<open>node j has its shares\<close>
  "keys_rest N n names op p j recd =
     nbind (abort_evalkeys (N j) (names j) op (nm j) (nm n) (pth n j) (ab_ctx N j) (nk2 (ab_path N) n j)) (cts_rest N n names p j recd)"

definition shares_rest ::
  "('cc, 'pk, 'sk, 'ek, 'es, 'ct, 'pt, 'sh) abort_nodes \<Rightarrow> nat \<Rightarrow> (nat \<Rightarrow> string list) \<Rightarrow> string \<Rightarrow> (nat \<Rightarrow> path_input) \<Rightarrow> nat
   \<Rightarrow> 'pk \<times> ('pk, 'sk, 'ek, 'es) node_keys \<Rightarrow> ('cc \<times> 'sk \<times> (u32 \<rightharpoonup> 'sh) \<times> 'ct list) nprog" where
  \<comment> \<open>node j has the public key\<close>
  "shares_rest N n names op p j = (\<lambda>(FinalPubKey, nk).
     let c = ab_ctx N j in
     nbind (get_keyPair nk) (\<lambda>keyPair.
     nbind (exchange_shares (N j) (of_nat j) (b_ShareKeys (N j) c (snd keyPair) (of_nat n) (drop_threshold (of_nat n)) (of_nat j) ''shamir'')
              (node_ids (of_nat n)) Map.empty) (\<lambda>recd.
     nbind (abort_evalkeys (N j) (names j) op (nm j) (nm n) (pth n j) c nk) (\<lambda>c.
     nbind (n_lift (b_MakePackedPlaintext (N j) c (vectorOfInts (p j)))) (\<lambda>pt.
     let cipherText = b_Encrypt (N j) c FinalPubKey pt in
     nbind (n_broadcastSerialMsg (b_ser_ct (N j)) cipherText ''ciphertext'' (names j) 1 0) (\<lambda>_.
     nbind (gather_cts (N j) (of_nat j) cipherText (node_ids (of_nat n))) (\<lambda>CipherTexts.
       nret (c, snd keyPair, recd, CipherTexts))))))))"

definition abort_inputs_ok :: "('cc, 'pk, 'sk, 'ek, 'es, 'ct, 'pt, 'sh) abort_nodes \<Rightarrow> nat \<Rightarrow> string \<Rightarrow> (nat \<Rightarrow> path_input) \<Rightarrow> (nat \<Rightarrow> 'pt) \<Rightarrow> bool" where
  \<comment> \<open>the input files name the nodes, and their numbers fit into a plaintext\<close>
  "abort_inputs_ok N n op p pt \<longleftrightarrow> (\<forall>j \<in> {1..n}. num_of_nodes (p j) = of_nat n \<and> node_id (p j) = of_nat j
     \<and> b_MakePackedPlaintext (N j) (ab_ctx_keys N n op j) (vectorOfInts (p j)) = Inr (pt j))"

lemma node_ids_nat: "n < 2 ^ 32 \<Longrightarrow> node_ids (of_nat n) = map of_nat [1..<Suc n]"
  by (simp add: node_ids_def u32_of_nat del: upt_Suc)

definition ct_msg :: "('cc, 'pk, 'sk, 'ek, 'es, 'ct, 'pt, 'sh) abort_nodes \<Rightarrow> nat \<Rightarrow> string \<Rightarrow> (nat \<Rightarrow> 'pt) \<Rightarrow> nat \<Rightarrow> message_format" where
  "ct_msg N n op pt i = msg (nm i) ''ciphertext'' (b_ser_ct (N i) (ab_ct N n op pt i))"

lemma gather_turn:
  assumes ser: "abort_serial_ok N n" and n: "n < 2 ^ 32" and j: "1 \<le> j" "j \<le> n"
  shows "set is \<subseteq> {1..n} \<Longrightarrow> turn (nm j) (nbind (gather_cts (N j) (of_nat j) (ab_ct N n op pt j) (map of_nat is)) k)
    (map (\<lambda>i. (nm i, ct_msg N n op pt i)) (filter (\<lambda>i. i \<noteq> j) is)) [] (k (map (ab_ct N n op pt) is))"
proof (induction "is" arbitrary: k)
  case Nil
  then show ?case by (simp add: turn_here)
next
  case (Cons i "is")
  have i: "1 \<le> i" "i \<le> n" "(of_nat j :: u32) = of_nat i \<longleftrightarrow> j = i" using Cons.prems n j u32_eq by auto
  have "turn (nm j) (nbind (gather_cts (N j) (of_nat j) (ab_ct N n op pt j) (map of_nat is)) (\<lambda>cts. k (ab_ct N n op pt i # cts)))
    (map (\<lambda>i. (nm i, ct_msg N n op pt i)) (filter (\<lambda>i. i \<noteq> j) is)) [] (k (ab_ct N n op pt i # map (ab_ct N n op pt) is))"
    using Cons.IH [of "\<lambda>cts. k (ab_ct N n op pt i # cts)"] Cons.prems by simp
  then show ?case
    using i n j by (auto simp: ct_msg_def nbind_assoc abort_serialD [OF ser] intro!: turn_get)
qed

lemma cts_round:
  assumes net: "meshed n conn" and n: "n < 2 ^ 32" and ser: "abort_serial_ok N n"
    and names: "\<forall>j \<in> {1..n}. all_others n j (names j)" and inp: "abort_inputs_ok N n op p pt"
  shows "net_reach conn (team n (\<lambda>j. cts_rest N n names p j (ab_recd N n j n) (ab_ctx_keys N n op j)))
    (team n (\<lambda>j. nret (ab_result N n op pt j)))"
proof (rule team_all [OF net, where names = names and m = "ct_msg N n op pt"
    and Q = "\<lambda>j. nbind (gather_cts (N j) (of_nat j) (ab_ct N n op pt j) (map of_nat [1..<Suc n]))
      (\<lambda>cts. nret (ab_ctx_keys N n op j, ab_sk N j, ab_recd N n j n, cts))"])
  fix j assume j: "1 \<le> j" "j \<le> n"
  then show "all_others n j (names j)" using names by simp
  have "b_MakePackedPlaintext (N j) (ab_ctx_keys N n op j) (vectorOfInts (p j)) = Inr (pt j)"
    using inp j by (simp add: abort_inputs_ok_def)
  then show "turn (nm j) (cts_rest N n names p j (ab_recd N n j n) (ab_ctx_keys N n op j)) [] (map (\<lambda>t. (t, ct_msg N n op pt j)) (names j))
      (nbind (gather_cts (N j) (of_nat j) (ab_ct N n op pt j) (map of_nat [1..<Suc n])) (\<lambda>cts. nret (ab_ctx_keys N n op j, ab_sk N j, ab_recd N n j n, cts)))"
    using j n by (simp add: cts_rest_def ct_msg_def ab_ct_def [symmetric] node_ids_nat round_simps abort_serialD [OF ser] del: upt_Suc)
  have "set [1..<Suc n] \<subseteq> {1..n}" by auto
  from gather_turn [OF ser n j this, of op pt "\<lambda>cts. nret (ab_ctx_keys N n op j, ab_sk N j, ab_recd N n j n, cts)"]
  show "turn (nm j) (nbind (gather_cts (N j) (of_nat j) (ab_ct N n op pt j) (map of_nat [1..<Suc n])) (\<lambda>cts. nret (ab_ctx_keys N n op j, ab_sk N j, ab_recd N n j n, cts)))
      (map (\<lambda>i. (nm i, ct_msg N n op pt i)) (filter (\<lambda>i. i \<noteq> j) [1..<Suc n])) [] (nret (ab_result N n op pt j))"
    by (simp add: ab_result_def del: upt_Suc)
qed

section \<open>The evaluation keys of the operation\<close>

definition mult_done ::
  "('cc, 'pk, 'sk, 'ek, 'es, 'ct, 'pt, 'sh) abort_nodes \<Rightarrow> nat \<Rightarrow> (nat \<Rightarrow> string list) \<Rightarrow> (nat \<Rightarrow> path_input) \<Rightarrow> nat
   \<Rightarrow> 'ek option \<times> ('pk, 'sk, 'ek, 'es) node_keys \<Rightarrow> ('cc \<times> 'sk \<times> (u32 \<rightharpoonup> 'sh) \<times> 'ct list) nprog" where
  "mult_done N n names p j = (\<lambda>(em, _). nbind (deref ''evalMultFinal'' em) (\<lambda>k.
     cts_rest N n names p j (ab_recd N n j n) (b_InsertEvalMultKey (N j) (ab_ctx N j) [k])))"

definition sum_done ::
  "('cc, 'pk, 'sk, 'ek, 'es, 'ct, 'pt, 'sh) abort_nodes \<Rightarrow> nat \<Rightarrow> (nat \<Rightarrow> string list) \<Rightarrow> (nat \<Rightarrow> path_input) \<Rightarrow> nat
   \<Rightarrow> 'es option \<times> ('pk, 'sk, 'ek, 'es) node_keys \<Rightarrow> ('cc \<times> 'sk \<times> (u32 \<rightharpoonup> 'sh) \<times> 'ct list) nprog" where
  "sum_done N n names p j = (\<lambda>(es, _). nbind (deref ''evalSumFinal'' es) (\<lambda>k.
     cts_rest N n names p j (ab_recd N n j n) (b_InsertEvalSumKey (N j) (ab_ctx N j) k)))"

lemma keys_round:
  assumes net: "meshed n conn" and n: "2 \<le> n" "n < 2 ^ 32" and ser: "abort_serial_ok N n"
    and names: "\<forall>j \<in> {1..n}. all_others n j (names j)"
  shows "net_reach conn (team n (\<lambda>j. keys_rest N n names op p j (ab_recd N n j n)))
    (team n (\<lambda>j. cts_rest N n names p j (ab_recd N n j n) (ab_ctx_keys N n op j)))"
proof -
  have others: "all_others n n (names n)" "all_others n 1 (names 1)" using names n by auto
  have ser': "path_serial_ok (ab_path N) n" using ser by (simp add: abort_serial_ok_def)
  consider "op = ''multiply''" | "op = ''vectorsum''" | "op \<noteq> ''multiply'' \<and> op \<noteq> ''vectorsum''" by blast
  then show ?thesis
  proof cases
    case 1
    have "team n (\<lambda>j. keys_rest N n names op p j (ab_recd N n j n)) = team n (\<lambda>j. mult_at (ab_path N) n names 0 j (mult_done N n names p j))"
      by (rule team_cong) (simp add: 1 keys_rest_def mult_at_def abort_evalkeys_def mult_done_def ab_path_def nbind_assoc case_prod_beta' Let_def)
    moreover have "team n (\<lambda>j. mult_at (ab_path N) n names 6 j (mult_done N n names p j)) = team n (\<lambda>j. cts_rest N n names p j (ab_recd N n j n) (ab_ctx_keys N n op j))"
      by (rule team_cong) (simp add: 1 mult_at_def mult_done_def ab_ctx_keys_def deref_def Let_def)
    ultimately show ?thesis using mult_round [where names = names and N = "ab_path N" and k = "mult_done N n names p", OF net n others ser'] by simp
  next
    case 2
    have "team n (\<lambda>j. keys_rest N n names op p j (ab_recd N n j n)) = team n (\<lambda>j. sum_at (ab_path N) n names 0 j (sum_done N n names p j))"
      by (rule team_cong) (simp add: 2 keys_rest_def sum_at_def abort_evalkeys_def sum_done_def ab_path_def nbind_assoc case_prod_beta' Let_def)
    moreover have "team n (\<lambda>j. sum_at (ab_path N) n names 3 j (sum_done N n names p j)) = team n (\<lambda>j. cts_rest N n names p j (ab_recd N n j n) (ab_ctx_keys N n op j))"
      by (rule team_cong) (simp add: 2 sum_at_def sum_done_def ab_ctx_keys_def deref_def Let_def)
    ultimately show ?thesis using sum_round [where names = names and N = "ab_path N" and k = "sum_done N n names p", OF net n others(1) ser'] by simp
  next
    case 3
    have "team n (\<lambda>j. keys_rest N n names op p j (ab_recd N n j n)) = team n (\<lambda>j. cts_rest N n names p j (ab_recd N n j n) (ab_ctx_keys N n op j))"
      by (rule team_cong) (simp add: 3 keys_rest_def abort_evalkeys_def ab_ctx_keys_def)
    then show ?thesis by simp
  qed
qed

section \<open>The whole run\<close>

lemma context_round:
  assumes net: "meshed n conn" and n: "2 \<le> n" "n < 2 ^ 32" and ser: "abort_serial_ok N n"
    and names: "\<forall>j \<in> {1..n}. all_others n j (names j)" and inp: "abort_inputs_ok N n op p pt"
  shows "net_reach conn (team n (\<lambda>j. abort_setup (N j) (names j) (nm j) op (p j)))
    (team n (\<lambda>j. pub_rest (ab_path N) n names 0 j (shares_rest N n names op p j)))"
proof (rule team_scatter [OF net, where h = 1 and names = "names 1"
    and m = "msg (nm 1) ''cryptocontext'' (b_ser_cc (N 1) (b_GenCryptoContext (N 1) aborts_params))"])
  have p: "num_of_nodes (p j) = of_nat n" "node_id (p j) = of_nat j" if "1 \<le> j" "j \<le> n" for j
    using inp that by (simp_all add: abort_inputs_ok_def)
  show "turn (nm 1) (abort_setup (N 1) (names 1) (nm 1) op (p 1)) []
      (map (\<lambda>t. (t, msg (nm 1) ''cryptocontext'' (b_ser_cc (N 1) (b_GenCryptoContext (N 1) aborts_params)))) (names 1))
      (pub_rest (ab_path N) n names 0 1 (shares_rest N n names op p 1))"
    using n p [of 1] by (simp add: abort_setup_def abort_context_def pub_rest_def shares_rest_def ab_path_def ab_ctx_def pth_def
      round_simps abort_serialD [OF ser] case_prod_beta')
  fix j assume "1 \<le> j" "j \<le> n" "j \<noteq> 1"
  then show "turn (nm j) (abort_setup (N j) (names j) (nm j) op (p j))
      [(nm 1, msg (nm 1) ''cryptocontext'' (b_ser_cc (N 1) (b_GenCryptoContext (N 1) aborts_params)))] []
      (pub_rest (ab_path N) n names 0 j (shares_rest N n names op p j))"
    using n p [of j] by (simp add: abort_setup_def abort_context_def pub_rest_def shares_rest_def ab_path_def ab_ctx_def pth_def
      round_simps abort_serialD [OF ser] case_prod_beta')
qed (use n names in simp_all)

lemma setup_run:
  assumes net: "meshed n conn" and n: "2 \<le> n" "n < 2 ^ 32" and ser: "abort_serial_ok N n"
    and names: "\<forall>j \<in> {1..n}. all_others n j (names j)" and inp: "abort_inputs_ok N n op p pt"
  shows "net_reach conn (team n (\<lambda>j. abort_setup (N j) (names j) (nm j) op (p j))) (team n (\<lambda>j. nret (ab_result N n op pt j)))"
proof -
  have ser': "path_serial_ok (ab_path N) n" using ser by (simp add: abort_serial_ok_def)
  have others: "all_others n n (names n)" using names n by auto
  have shares: "team n (\<lambda>j. pub_rest (ab_path N) n names 3 j (shares_rest N n names op p j))
      = team n (\<lambda>j. share_at N n j (keys_rest N n names op p j) 0)"
  proof (rule team_cong)
    fix j :: nat
    have "ab_recd N n j 0 = Map.empty" by (simp add: ab_recd_def fun_eq_iff)
    then show "pub_rest (ab_path N) n names 3 j (shares_rest N n names op p j) = share_at N n j (keys_rest N n names op p j) 0"
      by (simp add: pub_rest_def shares_rest_def share_at_def keys_rest_def[abs_def] cts_rest_def[abs_def] get_keyPair_def deref_def nk2_def nk1_def
        ab_shares_def ab_sk_def sk_at_def ab_pk_def node_ids_nat [OF n(2)] Let_def del: upt_Suc)
  qed
  have keys: "team n (\<lambda>j. share_at N n j (keys_rest N n names op p j) n) = team n (\<lambda>j. keys_rest N n names op p j (ab_recd N n j n))"
    by (rule team_cong) (simp add: share_at_def)
  note A = context_round [OF net n ser names inp]
    and B = pub_round [where k = "shares_rest N n names op p" and names = names, OF net n others ser', unfolded shares]
    and C = share_round [where k = "keys_rest N n names op p", OF net n(2) ser, unfolded keys]
    and D = keys_round [where op = op and p = p, OF net n ser names]
    and E = cts_round [OF net n(2) ser names inp]
  show ?thesis
    using net_reach_trans [OF A net_reach_trans [OF B net_reach_trans [OF C net_reach_trans [OF D E]]]] .
qed

lemma gather_patient: "patient (gather_cts L nid ct is)"
  by (induction "is") (auto intro!: patient_nbind)

lemma exchange_patient: "patient (exchange_shares L nid sh is rec)"
  by (induction "is" arbitrary: rec) (auto intro!: patient_nbind)

lemma abort_setup_patient: "patient (abort_setup L names me op p)"
  unfolding abort_setup_def abort_context_def abort_PublickeyGen_def abort_evalkeys_def abort_EvalMultkeyGen_def abort_evalmult_down_def
    abort_evalmult_up_def abort_EvalSumkeyGen_def get_keyPair_def get_FinalPubKey_def deref_def Let_def
  by (auto intro!: patient_nbind simp: gather_patient exchange_patient split: prod.split option.split)

definition abort_programs ::
  "('cc, 'pk, 'sk, 'ek, 'es, 'ct, 'pt, 'sh) abort_nodes \<Rightarrow> nat \<Rightarrow> (nat \<Rightarrow> string list) \<Rightarrow> string \<Rightarrow> (nat \<Rightarrow> path_input)
   \<Rightarrow> (string \<rightharpoonup> ('cc \<times> 'sk \<times> (u32 \<rightharpoonup> 'sh) \<times> 'ct list) nprog)" where
  "abort_programs N n names op p = (\<lambda>x. if x \<in> node_names n
     then Some (let j = node_number x in abort_setup (N j) (names j) (nm j) op (p j)) else None)"

text \<open>C6: n nodes of the aborts demo, each with all others in its network map, run from the crypto context to the exchange of
  the ciphertexts, for any n from two and any operation. In every interleaving all of them end; every node holds the ciphertexts of
  all nodes in the order of their numbers, for each other node that node's share of its secret key, and a context with
  the evaluation keys of the operation, which are the same as those that the path demo computes without broadcasts.\<close>

theorem abort_setup_agrees:
  assumes ok: "p2p_ok who conn y" and sys: "fresh_system (abort_programs N n names op p) y"
    and net: "meshed n conn" and n: "2 \<le> n" "n < 2 ^ 32" and ser: "abort_serial_ok N n"
    and names: "\<forall>j \<in> {1..n}. all_others n j (names j)" and inp: "abort_inputs_ok N n op p pt"
    and reach: "p2p_reach who y u"
  shows "\<exists>z. p2p_reach who u z \<and> (\<forall>j \<in> {1..n}. programs z (nm j) = Some (NRet (Inr (ab_result N n op pt j))))"
proof -
  have "\<exists>z. p2p_reach who u z \<and> (\<forall>x \<in> node_names n. programs z x = Some (NRet (Inr (ab_result N n op pt (node_number x)))))"
    by (rule quiet_outcome [where Q = "\<lambda>x. nret (ab_result N n op pt (node_number x))", OF ok sys [unfolded abort_programs_def] _ _ _ reach])
      (use setup_run [OF net n ser names inp] in \<open>simp_all add: abort_setup_patient team_def nret_def Let_def\<close>)
  then show ?thesis by (auto simp: node_names_def)
qed

section \<open>Three nodes\<close>

definition toy_abort :: "(nat, nat, nat, nat, nat, nat, nat, nat) abort_nodes" where
  \<comment> \<open>node j has the secret key 10 + j; three ciphertexts are masked by the sum of the keys, and a share is the key\<close>
  "toy_abort j = \<lparr> b_keys = toy_path, b_GenCryptoContext = (\<lambda>_. 10), b_ser_cc = (\<lambda>n. enc_nats [n]), b_deser_cc = (\<lambda>s. Inr (hd (dec_nats s))),
     b_ser_sh = (\<lambda>n. enc_nats [n]), b_deser_sh = (\<lambda>s. Inr (hd (dec_nats s))), b_ser_ct = (\<lambda>n. enc_nats [n]), b_deser_ct = (\<lambda>s. Inr (hd (dec_nats s))),
     b_ser_cts = (\<lambda>ns. enc_nats (0 # ns)), b_deser_cts = (\<lambda>s. Inr (tl (dec_nats s))), b_ClearKeys = (\<lambda>c. c + j),
     b_ShareKeys = (\<lambda>_ sk _ _ _ _ _. Some sk), b_share0 = 0, b_InsertEvalMultKey = (\<lambda>c _. c), b_InsertEvalSumKey = (\<lambda>c _. c),
     b_MakePackedPlaintext = (\<lambda>_ v. Inr (nat (sum_list v))), b_Encrypt = (\<lambda>_ pk m. m + pk),
     b_EvalMultMany = (\<lambda>_ cts. sum_list cts), b_EvalAddMany = (\<lambda>_ cts. sum_list cts), b_EvalSum = (\<lambda>_ ct _. ct),
     b_MultipartyDecryptLead = (\<lambda>_ cts sk. case cts of [Some ct] \<Rightarrow> Inr [ct - 3 * sk] | _ \<Rightarrow> Inl (Openfhe_error ''ciphertext'')),
     b_MultipartyDecryptMain = (\<lambda>_ cts sk. case cts of [Some ct] \<Rightarrow> Inr [3 * sk] | _ \<Rightarrow> Inl (Openfhe_error ''ciphertext'')),
     b_RecoverSharedKey = (\<lambda>_ m n _ _. case List.map_filter m (node_ids n) of sk # _ \<Rightarrow> Inr sk | [] \<Rightarrow> Inl (Openfhe_error ''not enough shares'')),
     b_MultipartyDecryptFusion = (\<lambda>_ cts. hd cts - sum_list (tl cts)), b_SetLength = (\<lambda>_ m. m) \<rparr>"

definition toy_names :: "nat \<Rightarrow> string list" where
  "toy_names j = (if j = 1 then [''Node2'', ''Node3''] else if j = 2 then [''Node1'', ''Node3''] else [''Node1'', ''Node2''])"

definition toy_input :: "nat \<Rightarrow> path_input" where
  "toy_input j = \<lparr> num_of_nodes = 3, node_id = of_nat j, vectorOfInts = [int j, 5] \<rparr>"

definition three_aborts :: "(string \<times> (nat \<times> nat \<times> (u32 \<rightharpoonup> nat) \<times> nat list) nprog) list" where
  "three_aborts = map (\<lambda>j. (nm j, abort_setup (toy_abort j) (toy_names j) (nm j) ''add'' (toy_input j))) [1, 2, 3]"

lemma three_numbers: "node_number ''Node1'' = 1" "node_number ''Node2'' = 2" "node_number ''Node3'' = 3"
  using node_number_nm [of 1] node_number_nm [of 2] node_number_nm [of 3] by simp_all

lemma three_set: "{1..3 :: nat} = {1, 2, 3}"
  by auto

lemma toy_others: "\<forall>j \<in> {1..3}. all_others 3 j (toy_names j)"
  unfolding three_set by (auto simp: all_others_def toy_names_def three_names simp del: One_nat_def)

lemma toy_abort_serial: "abort_serial_ok toy_abort n"
  by (simp add: abort_serial_ok_def path_serial_ok_def ab_path_def toy_abort_def toy_path_def)

lemma toy_abort_inputs: "abort_inputs_ok toy_abort 3 op toy_input (\<lambda>j. j + 5)"
  by (simp add: abort_inputs_ok_def toy_input_def toy_abort_def nat_add_distrib)

lemma abort_setup_agrees_witness:
  "\<exists>z. p2p_reach mesh_who (mesh three_aborts) z
     \<and> (\<forall>j \<in> {1, 2, 3}. \<exists>recd. programs z (nm j) = Some (NRet (Inr (10 + j, 10 + j, recd, [42, 43, 44]))))"
proof -
  have progs: "map_of three_aborts = abort_programs toy_abort 3 toy_names ''add'' toy_input"
    by (auto simp: three_aborts_def abort_programs_def three_names three_numbers fun_eq_iff)
  have net: "meshed 3 (mesh_conn (map fst three_aborts))"
    unfolding meshed_def three_set by (auto simp: mesh_conn_def three_aborts_def simp del: One_nat_def)
  have "ab_pk toy_abort 3 = 36"
    by (simp add: ab_pk_def pk_at_def ab_path_def ab_ctx_def toy_abort_def toy_path_def numeral_3_eq_3)
  moreover have "ab_sk toy_abort j = 10 + j" if "j \<in> {1, 2, 3}" for j
    using that by (auto simp: ab_sk_def sk_at_def ab_path_def ab_ctx_def toy_abort_def toy_path_def numeral_2_eq_2 numeral_3_eq_3)
  moreover have "[1..<Suc 3] = [1, 2, 3]" by (simp add: upt_rec)
  ultimately have res: "\<exists>recd. ab_result toy_abort 3 ''add'' (\<lambda>j. j + 5) j = (10 + j, 10 + j, recd, [42, 43, 44])" if "j \<in> {1, 2, 3}" for j
    using that by (simp add: ab_result_def ab_ct_def ab_ctx_keys_def ab_ctx_def toy_abort_def del: upt_Suc)
  have "p2p_reach mesh_who (mesh three_aborts) (mesh three_aborts)" by (simp add: p2p_reach_def)
  from abort_setup_agrees [OF mesh_ok mesh_fresh [of three_aborts, unfolded progs] net _ _ toy_abort_serial toy_others toy_abort_inputs this]
  obtain z where z: "p2p_reach mesh_who (mesh three_aborts) z"
    "\<forall>j \<in> {1, 2, 3}. programs z (nm j) = Some (NRet (Inr (ab_result toy_abort 3 ''add'' (\<lambda>j. j + 5) j)))"
    unfolding three_set by auto
  with res show ?thesis by metis
qed

end
