(* ===== verification/Aborts_Recovery.thy ===== *)
theory Aborts_Recovery
  imports Aborts_Setup
begin

text \<open>
  The nodes of the aborts demo when some of them have dropped out: \<open>abort_recover\<close>, from the point at which the nodes that
  are left agree on who is missing. Node1 gathers the shares of a dropped node's key, recovers the key and
  sends the partial decryption it makes with it to the others, one dropped node after the other. With a majority
  left every run ends with the plaintext; with exactly half of the nodes left no run ends.
\<close>

section \<open>The nodes that are left\<close>

definition helpers :: "nat \<Rightarrow> nat list \<Rightarrow> nat list" where
  \<comment> \<open>the nodes that are left, without Node1\<close>
  "helpers n D = filter (\<lambda>j. j \<noteq> 1 \<and> j \<notin> set D) [1..<Suc n]"

definition dropped_ok :: "nat \<Rightarrow> nat list \<Rightarrow> bool" where
  \<comment> \<open>the dropped nodes, each once, Node1 not among them\<close>
  "dropped_ok n D \<longleftrightarrow> distinct D \<and> set D \<subseteq> {2..n} \<and> 2 \<le> n \<and> n < 2 ^ 32"

lemma helpers_set: "set (helpers n D) = {2..n} - set D"
  by (auto simp: helpers_def)

lemma helpers_distinct: "distinct (helpers n D)"
  by (simp add: helpers_def del: upt_Suc)

lemma helpers_length:
  assumes "dropped_ok n D"
  shows "Suc (length (helpers n D) + length D) = n"
proof -
  have "length (helpers n D) = card ({2..n} - set D)"
    using distinct_card [OF helpers_distinct [of n D]] by (simp add: helpers_set)
  also have "\<dots> = card {2..n} - card (set D)" using assms by (intro card_Diff_subset) (auto simp: dropped_ok_def)
  also have "\<dots> = n - 1 - length D" using assms distinct_card [of D] by (simp add: dropped_ok_def)
  finally have "length (helpers n D) = n - 1 - length D" .
  moreover have "length D \<le> n - 1"
    using assms card_mono [of "{2..n}" "set D"] distinct_card [of D] by (simp add: dropped_ok_def)
  moreover have "2 \<le> n" using assms by (simp add: dropped_ok_def)
  ultimately show ?thesis by linarith
qed

lemma u32_in: "j < 2 ^ 32 \<Longrightarrow> set D \<subseteq> {..<2 ^ 32} \<Longrightarrow> (of_nat j :: u32) \<in> of_nat ` set D \<longleftrightarrow> j \<in> set D"
  using u32_eq by (auto simp: subset_iff)

lemma recovery_helpers_nat:
  assumes "dropped_ok n D"
  shows "recovery_helpers (of_nat n) (of_nat 1) (map of_nat D) = map of_nat (helpers n D)"
proof -
  have n: "n < 2 ^ 32" and D: "set D \<subseteq> {..<2 ^ 32}" using assms by (auto simp: dropped_ok_def)
  have "filter (\<lambda>j. j \<noteq> (of_nat 1 :: u32) \<and> j \<notin> of_nat ` set D) (map of_nat is) = map of_nat (filter (\<lambda>j. j \<noteq> 1 \<and> j \<notin> set D) is)"
    if "set is \<subseteq> {1..n}" for "is"
    using that
  proof (induction "is")
    case (Cons i "is")
    then have "i < 2 ^ 32" using n by simp
    then show ?case using Cons u32_eq [of i 1] u32_in [OF _ D, of i] by (simp del: of_nat_1)
  qed simp
  from this [of "[1..<Suc n]"] show ?thesis
    by (simp add: recovery_helpers_def helpers_def node_ids_nat [OF n] del: upt_Suc of_nat_1) fastforce
qed

lemma threshold_nat:
  assumes "2 \<le> n" "n < 2 ^ 32"
  shows "drop_threshold (of_nat n) = of_nat (n div 2 + 1)"
proof -
  have "(of_nat n :: u32) div 2 = of_nat (n div 2)"
    by (rule word_unat_eq_iff [THEN iffD2]) (use assms u32_of_nat [of n] u32_of_nat [of "n div 2"] in \<open>simp add: unat_div\<close>)
  then show ?thesis by (simp add: drop_threshold_def)
qed

section \<open>Turns\<close>

definition with_shares :: "(nat \<Rightarrow> 'sh) \<Rightarrow> nat list \<Rightarrow> (u32 \<rightharpoonup> 'sh) \<Rightarrow> (u32 \<rightharpoonup> 'sh)" where
  "with_shares sh js rs = foldl (\<lambda>rs j. rs(of_nat j \<mapsto> sh j)) rs js"

definition share_mail :: "('cc, 'pk, 'sk, 'ek, 'es, 'ct, 'pt, 'sh) abort_nodes \<Rightarrow> (nat \<Rightarrow> 'sh) \<Rightarrow> nat \<Rightarrow> message_format" where
  "share_mail N sh j = msg (nm j) ''secretsharerecovery'' (b_ser_sh (N j) (sh j))"

lemma turn_recovery_round:
  assumes ser: "abort_serial_ok N n" and n: "2 \<le> n" "n < 2 ^ 32"
  shows "set js \<subseteq> {1..n} \<Longrightarrow> turn (nm 1) (k (with_shares sh js rs, ctr + of_nat (length js))) ins outs q \<Longrightarrow>
    turn (nm 1) (nbind (recovery_round (b_deser_sh (N 1)) (map of_nat js) rs ctr) k) (map (\<lambda>j. (nm j, share_mail N sh j)) js @ ins) outs q"
proof (induction js arbitrary: rs ctr)
  case (Cons j js)
  have j: "1 \<le> j" "j \<le> n" using Cons.prems by auto
  have "turn (nm 1) (nbind (recovery_round (b_deser_sh (N 1)) (map of_nat js) (rs(of_nat j \<mapsto> sh j)) (ctr + 1)) k)
      (map (\<lambda>j. (nm j, share_mail N sh j)) js @ ins) outs q"
    using Cons.prems by (intro Cons.IH) (simp_all add: with_shares_def add.assoc del: fun_upd_apply)
  then show ?case
    using j n by (simp add: share_mail_def nbind_assoc turn_get abort_serialD [OF ser])
qed (simp add: with_shares_def)

lemma turn_send_recovered:
  assumes "ser cp \<noteq> []" "set js \<subseteq> {1..n}" "n < 2 ^ 32" "turn i (k ()) [] [] q"
  shows "turn i (nbind (send_recovered ser cp (map of_nat js)) k) [] (map (\<lambda>j. (nm j, msg i ''abortspartialciphertext'' (ser cp))) js) q"
  using assms
proof (induction js)
  case (Cons j js)
  then show ?case
    by (auto simp: n_sendSerialMsg_timed_def nret_def nbind_assoc intro: turn_send)
qed simp

section \<open>A dropped node is recovered\<close>

definition rec_at ::
  "('cc, 'pk, 'sk, 'ek, 'es, 'ct, 'pt, 'sh) abort_nodes \<Rightarrow> nat \<Rightarrow> string \<Rightarrow> 'ct \<Rightarrow> nat list \<Rightarrow> error \<Rightarrow> nat list \<Rightarrow> (u32 \<rightharpoonup> 'sh) \<Rightarrow> 'ct option list \<Rightarrow> nat \<Rightarrow> 'pt nprog" where
  \<comment> \<open>node j when the nodes ds are still to be recovered; a dropped node has ended\<close>
  "rec_at N n op ct D e ds rs vec j =
     (if j \<in> set D then NRet (Inl e)
      else nbind (recover_nodes (N j) (ab_ctx_keys N n op j) (of_nat n) (of_nat j) (Some ct) (ab_recd N n j n) (map of_nat D) (map of_nat ds)
                   (if j = 1 then rs else Map.empty) vec) (abort_fuse (N j) (ab_ctx_keys N n op j)))"

definition shamir_ok :: "('cc, 'pk, 'sk, 'ek, 'es, 'ct, 'pt, 'sh) abort_nodes \<Rightarrow> nat \<Rightarrow> 'cc \<Rightarrow> bool" where
  \<comment> \<open>Shamir's scheme: a majority of the shares of a key recovers it\<close>
  "shamir_ok N n c \<longleftrightarrow> (\<forall>d \<in> {1..n}. \<forall>I m. I \<subseteq> {1..n} - {d} \<and> n div 2 + 1 \<le> card I \<and> dom m = of_nat ` I
       \<and> (\<forall>i \<in> I. m (of_nat i) = Some (ab_share N n d i))
     \<longrightarrow> b_RecoverSharedKey (N 1) c m (of_nat n) (drop_threshold (of_nat n)) ''shamir'' = Inr (ab_sk N d))"

definition partials_ok :: "('cc, 'pk, 'sk, 'ek, 'es, 'ct, 'pt, 'sh) abort_nodes \<Rightarrow> nat \<Rightarrow> string \<Rightarrow> 'ct \<Rightarrow> nat list \<Rightarrow> (nat \<Rightarrow> 'ct) \<Rightarrow> bool" where
  \<comment> \<open>for a dropped node, part is the partial decryption with that node's own secret key\<close>
  "partials_ok N n op ct D part \<longleftrightarrow> (\<forall>d \<in> set D. \<exists>r.
     b_MultipartyDecryptMain (N 1) (ab_ctx_keys N n op 1) [Some ct] (ab_sk N d) = Inr (part d # r))"

lemma u32_pred: "1 \<le> j \<Longrightarrow> j < 2 ^ 32 \<Longrightarrow> unat ((of_nat j :: u32) - 1) = j - 1"
  using u32_of_nat [of "j - 1"] by (cases j) simp_all

lemma idx_recd:
  assumes "1 \<le> d" "d \<le> n" "n < 2 ^ 32" "d \<noteq> j"
  shows "idx_val s (ab_recd N n j n) (of_nat d) = ab_share N n d j"
  using assms by (simp add: ab_recd_def idx_val_def u32_of_nat)

lemma with_shares_dom: "dom (with_shares sh js rs) = of_nat ` set js \<union> dom rs"
  by (induction js arbitrary: rs) (auto simp: with_shares_def)

lemma with_shares_at:
  assumes "set js \<subseteq> {..<2 ^ 32}" "i < 2 ^ 32" "i \<in> set js \<or> rs (of_nat i) = Some (sh i)"
  shows "with_shares sh js rs (of_nat i) = Some (sh i)"
  using assms
proof (induction js arbitrary: rs)
  case (Cons j js)
  have "with_shares sh js (rs(of_nat j \<mapsto> sh j)) (of_nat i) = Some (sh i)"
    by (rule Cons.IH) (use Cons.prems u32_eq [of i j] in auto)
  then show ?case by (simp add: with_shares_def)
qed (simp add: with_shares_def)

definition left_map :: "nat \<Rightarrow> nat list \<Rightarrow> (u32 \<rightharpoonup> 'sh) \<Rightarrow> bool" where
  \<comment> \<open>shares of nodes that are left, whatever they are\<close>
  "left_map n D rs \<longleftrightarrow> dom rs \<subseteq> of_nat ` ({1..n} - set D)"

definition new_shares :: "('cc, 'pk, 'sk, 'ek, 'es, 'ct, 'pt, 'sh) abort_nodes \<Rightarrow> nat \<Rightarrow> nat list \<Rightarrow> nat \<Rightarrow> (u32 \<rightharpoonup> 'sh) \<Rightarrow> (u32 \<rightharpoonup> 'sh)" where
  \<comment> \<open>recoveryShares after a round for d\<close>
  "new_shares N n D d rs = with_shares (ab_share N n d) (helpers n D) (rs(1 \<mapsto> ab_share N n d 1))"

lemma new_shares_dom:
  assumes "dropped_ok n D" "left_map n D rs"
  shows "dom (new_shares N n D d rs) = of_nat ` ({1..n} - set D)"
proof -
  have "{1..n} - set D = insert 1 (set (helpers n D))" using assms(1) by (auto simp: helpers_set dropped_ok_def)
  then show ?thesis using assms(2) by (auto simp: new_shares_def with_shares_dom left_map_def)
qed

lemma new_shares_at:
  assumes "dropped_ok n D" "i \<in> {1..n} - set D"
  shows "new_shares N n D d rs (of_nat i) = Some (ab_share N n d i)"
  unfolding new_shares_def
proof (rule with_shares_at)
  show "set (helpers n D) \<subseteq> {..<2 ^ 32}" "i < 2 ^ 32" using assms by (auto simp: helpers_set dropped_ok_def)
  show "i \<in> set (helpers n D) \<or> (rs(1 \<mapsto> ab_share N n d 1)) (of_nat i) = Some (ab_share N n d i)"
    using assms by (cases "i = 1") (auto simp: helpers_set)
qed

lemma recovered_key:
  assumes "shamir_ok N n c" "dropped_ok n D" "d \<in> set D" "left_map n D rs" "n div 2 + 1 + length D \<le> n"
  shows "b_RecoverSharedKey (N 1) c (new_shares N n D d rs) (of_nat n) (drop_threshold (of_nat n)) ''shamir'' = Inr (ab_sk N d)"
proof -
  let ?I = "{1..n} - set D"
  have "set D \<subseteq> {1..n}" "card (set D) = length D" using assms(2) distinct_card [of D] by (auto simp: dropped_ok_def)
  then have "card ?I = n - length D" by (simp add: card_Diff_subset)
  then have "n div 2 + 1 \<le> card ?I" using assms(5) by linarith
  moreover have "?I \<subseteq> {1..n} - {d}" "d \<in> {1..n}" using assms(2,3) by (auto simp: dropped_ok_def)
  moreover have "dom (new_shares N n D d rs) = of_nat ` ?I" by (rule new_shares_dom [OF assms(2,4)])
  moreover have "\<forall>i \<in> ?I. new_shares N n D d rs (of_nat i) = Some (ab_share N n d i)" using new_shares_at [OF assms(2)] by blast
  ultimately show ?thesis using assms(1) unfolding shamir_ok_def by blast
qed

section \<open>One round\<close>

definition answer_mail :: "('cc, 'pk, 'sk, 'ek, 'es, 'ct, 'pt, 'sh) abort_nodes \<Rightarrow> 'ct list \<Rightarrow> message_format" where
  "answer_mail N cp = msg (nm 1) ''abortspartialciphertext'' (b_ser_cts (N 1) cp)"

definition rec_mid ::
  "('cc, 'pk, 'sk, 'ek, 'es, 'ct, 'pt, 'sh) abort_nodes \<Rightarrow> nat \<Rightarrow> string \<Rightarrow> 'ct \<Rightarrow> nat list \<Rightarrow> error \<Rightarrow> nat list \<Rightarrow> (u32 \<rightharpoonup> 'sh) \<Rightarrow> 'ct option list \<Rightarrow> nat \<Rightarrow> 'ct list \<Rightarrow> nat \<Rightarrow> 'pt nprog" where
  \<comment> \<open>Node1 holds the partial decryption cp for d, the others wait for it\<close>
  "rec_mid N n op ct D e ds rs vec d cp j =
     (if j = 1
      then nbind (send_recovered (b_ser_cts (N 1)) cp (map of_nat (helpers n D))) (\<lambda>_. rec_at N n op ct D e ds rs (vec[d - 1 := Some (hd cp)]) 1)
      else if j \<in> set D then NRet (Inl e)
      else nbind (n_getSerialMsgWait (b_deser_cts (N j)) ''abortspartialciphertext'' (nm 1)) (\<lambda>cp.
           nbind (n_lift (Prelude.at ''ciphertextPartial1'' cp 0)) (\<lambda>x. rec_at N n op ct D e ds Map.empty (vec[d - 1 := Some x]) j)))"

lemma rec_at_spoke:
  assumes D: "dropped_ok n D" "d \<in> set D" and j: "2 \<le> j" "j \<le> n" "j \<notin> set D" and vec: "length vec = n"
  shows "rec_at N n op ct D e (d # ds) rs vec j =
    nbind (n_sendSerialMsg (b_ser_sh (N j)) (ab_share N n d j) ''secretsharerecovery'' (nm 1)) (\<lambda>_. rec_mid N n op ct D e ds rs' vec d cp j)"
proof -
  have d: "2 \<le> d" "d \<le> n" "d \<noteq> j" "d < 2 ^ 32" "j < 2 ^ 32" "n < 2 ^ 32" using D j by (auto simp: dropped_ok_def)
  have i: "idx_val s (ab_recd N n j n) (of_nat d) = ab_share N n d j" for s using idx_recd [of d n j s N] d by simp
  have "(of_nat j :: u32) \<noteq> 1" "d - Suc 0 < n" using u32_one [OF d(5)] j d by simp_all
  then show ?thesis
    using j d vec by (simp add: rec_at_def rec_mid_def nbind_assoc i u32_pred node_of_nat [of 1, unfolded of_nat_1] del: nm_numerals cong: if_cong)
qed

lemma rec_mid_take:
  assumes "abort_serial_ok N n" "2 \<le> j" "j \<le> n" "j \<notin> set D"
  shows "turn (nm j) (rec_mid N n op ct D e ds rs vec d (x # r) j) [(nm 1, answer_mail N (x # r))] []
    (rec_at N n op ct D e ds rs (vec[d - 1 := Some x]) j)"
  using assms by (simp add: rec_mid_def answer_mail_def round_simps abort_serialD rec_at_def)

lemma rec_mid_send:
  assumes "abort_serial_ok N n" "dropped_ok n D"
  shows "turn (nm 1) (rec_mid N n op ct D e ds rs vec d (x # r) 1) [] (map (\<lambda>j. (nm j, answer_mail N (x # r))) (helpers n D))
    (rec_at N n op ct D e ds rs (vec[d - 1 := Some x]) 1)"
  unfolding rec_mid_def answer_mail_def if_P [OF refl]
  by (rule turn_send_recovered [where n = n]) (use assms in \<open>auto simp: abort_serialD helpers_set dropped_ok_def turn_here\<close>)

lemma recovery_loop_turn:
  assumes ser: "abort_serial_ok N n" and D: "dropped_ok n D" and enough: "n div 2 + 1 + length D \<le> n"
    and rest: "turn (nm 1) (k (with_shares sh (helpers n D) rs)) [] outs q"
  shows "turn (nm 1) (nbind (recovery_loop (Suc (unat (drop_threshold (of_nat n)))) (b_deser_sh (N 1)) (map of_nat (helpers n D))
      (drop_threshold (of_nat n)) rs 1) k) (map (\<lambda>j. (nm j, share_mail N sh j)) (helpers n D)) outs q"
proof -
  have n: "2 \<le> n" "n < 2 ^ 32" using D by (auto simp: dropped_ok_def)
  note len = helpers_length [OF D] and t = threshold_nat [OF n]
  have "n div 2 + 1 < 2 ^ 32" using n by linarith
  then have fuel: "unat (drop_threshold (of_nat n)) = Suc (n div 2)" unfolding t by (metis Suc_eq_plus1 u32_of_nat)
  have first: "(1 :: u32) < drop_threshold (of_nat n)"
    unfolding t using u32_less [of 1 "n div 2 + 1"] n by simp
  have "n div 2 + 1 \<le> Suc (length (helpers n D))" "Suc (length (helpers n D)) < 2 ^ 32" using len enough n by linarith+
  then have last: "\<not> (1 + of_nat (length (helpers n D)) :: u32) < drop_threshold (of_nat n)"
    unfolding t using u32_less [of "Suc (length (helpers n D))" "n div 2 + 1"] by simp
  have "helpers n D \<noteq> []" using len enough n by auto
  then show ?thesis
    using turn_recovery_round [where js = "helpers n D" and ins = "[]" and outs = outs and q = q and N = N and n = n and sh = sh and rs = rs and ctr = 1
      and k = "\<lambda>(rs, ctr). nbind (recovery_loop (unat (drop_threshold (of_nat n))) (b_deser_sh (N 1)) (map of_nat (helpers n D)) (drop_threshold (of_nat n)) rs ctr) k"] ser n rest D
    by (simp add: first last fuel nbind_assoc case_prod_beta' helpers_set dropped_ok_def subset_iff)
qed

definition hub_rest ::
  "('cc, 'pk, 'sk, 'ek, 'es, 'ct, 'pt, 'sh) abort_nodes \<Rightarrow> nat \<Rightarrow> string \<Rightarrow> 'ct \<Rightarrow> nat list \<Rightarrow> error \<Rightarrow> nat list \<Rightarrow> 'ct option list \<Rightarrow> nat \<Rightarrow> (u32 \<rightharpoonup> 'sh) \<Rightarrow> 'pt nprog" where
  \<comment> \<open>Node1 has gathered the shares of d's key\<close>
  "hub_rest N n op ct D e ds vec d rs =
    nbind (n_lift (b_RecoverSharedKey (N 1) (ab_ctx_keys N n op 1) rs (of_nat n) (drop_threshold (of_nat n)) ''shamir'')) (\<lambda>sk.
    nbind (SendRecoveredPartialCT (N 1) 1 (map of_nat D) (of_nat n) (ab_ctx_keys N n op 1) (Some ct) sk) (\<lambda>cp.
    nbind (n_lift (Prelude.at ''ciphertextPartial1'' cp 0)) (\<lambda>x. rec_at N n op ct D e ds rs (vec[d - 1 := Some x]) 1)))"

lemma rec_at_hub_eq:
  assumes D: "dropped_ok n D" "d \<in> set D" and vec: "length vec = n"
  shows "rec_at N n op ct D e (d # ds) rs vec 1 = nbind (recovery_loop (Suc (unat (drop_threshold (of_nat n)))) (b_deser_sh (N 1))
      (map of_nat (helpers n D)) (drop_threshold (of_nat n)) (rs(1 \<mapsto> ab_share N n d 1)) 1) (hub_rest N n op ct D e ds vec d)"
proof -
  have d: "2 \<le> d" "d \<le> n" "d < 2 ^ 32" "n < 2 ^ 32" using D by (auto simp: dropped_ok_def)
  have i: "idx_val s (ab_recd N n 1 n) (of_nat d) = ab_share N n d 1" for s using idx_recd [of d n 1 s N] d by simp
  have one: "1 \<notin> set D" "d - Suc 0 < n" using D d by (auto simp: dropped_ok_def)
  show ?thesis
    using one vec d recovery_helpers_nat [OF D(1), unfolded of_nat_1]
    by (simp add: rec_at_def hub_rest_def[abs_def] RecoverDroppedSecret_def nbind_assoc i i [unfolded One_nat_def] u32_pred
      del: recovery_loop.simps cong: if_cong)
qed

lemma rec_at_hub:
  assumes ser: "abort_serial_ok N n" and D: "dropped_ok n D" "d \<in> set D" and enough: "n div 2 + 1 + length D \<le> n"
    and shamir: "shamir_ok N n (ab_ctx_keys N n op 1)" and rs: "left_map n D rs" and vec: "length vec = n"
    and main: "b_MultipartyDecryptMain (N 1) (ab_ctx_keys N n op 1) [Some ct] (ab_sk N d) = Inr (x # r)"
  shows "turn (nm 1) (rec_at N n op ct D e (d # ds) rs vec 1) (map (\<lambda>j. (nm j, share_mail N (ab_share N n d) j)) (helpers n D)) []
    (rec_mid N n op ct D e ds (new_shares N n D d rs) vec d (x # r) 1)"
  unfolding rec_at_hub_eq [OF D vec]
proof (rule recovery_loop_turn [OF ser D(1) enough])
  show "turn (nm 1) (hub_rest N n op ct D e ds vec d (with_shares (ab_share N n d) (helpers n D) (rs(1 \<mapsto> ab_share N n d 1)))) [] []
      (rec_mid N n op ct D e ds (new_shares N n D d rs) vec d (x # r) 1)"
    unfolding new_shares_def [symmetric] hub_rest_def
    using recovered_key [OF shamir D rs enough] main recovery_helpers_nat [OF D(1), unfolded of_nat_1]
    by (simp add: SendRecoveredPartialCT_def nbind_assoc rec_mid_def turn_here)
qed

lemma helper_cases:
  assumes "1 \<le> j" "j \<le> n"
  shows "j = 1 \<or> j \<in> set (helpers n D) \<or> j \<in> set D"
  using assms by (auto simp: helpers_set)

lemma recover_one:
  assumes net: "meshed n conn" and ser: "abort_serial_ok N n" and D: "dropped_ok n D" "d \<in> set D"
    and enough: "n div 2 + 1 + length D \<le> n" and shamir: "shamir_ok N n (ab_ctx_keys N n op 1)"
    and rs: "left_map n D rs" and vec: "length vec = n" and part: "partials_ok N n op ct D part"
  shows "net_reach conn (team n (rec_at N n op ct D e (d # ds) rs vec))
    (team n (rec_at N n op ct D e ds (new_shares N n D d rs) (vec[d - 1 := Some (part d)])))"
proof -
  obtain r where main: "b_MultipartyDecryptMain (N 1) (ab_ctx_keys N n op 1) [Some ct] (ab_sk N d) = Inr (part d # r)"
    using part D(2) by (auto simp: partials_ok_def)
  let ?mid = "rec_mid N n op ct D e ds (new_shares N n D d rs) vec d (part d # r)"
  have js: "set (helpers n D) \<subseteq> {1..n} - {1}" by (auto simp: helpers_set)
  have D1: "1 \<notin> set D" "1 \<le> n" using D by (auto simp: dropped_ok_def)
  have "net_reach conn (team n (rec_at N n op ct D e (d # ds) rs vec)) (team n ?mid)"
  proof (rule team_gather [OF net _ _ helpers_distinct js, where m = "share_mail N (ab_share N n d)"])
    fix j assume "j \<in> set (helpers n D)"
    then have j: "2 \<le> j" "j \<le> n" "j \<notin> set D" by (auto simp: helpers_set)
    show "turn (nm j) (rec_at N n op ct D e (d # ds) rs vec j) [] [(nm 1, share_mail N (ab_share N n d) j)] (?mid j)"
      unfolding rec_at_spoke [OF D j vec, where rs' = "new_shares N n D d rs" and cp = "part d # r"] share_mail_def
      by (rule turn_put) (use j abort_serialD [OF ser, of j] in \<open>simp_all add: turn_here\<close>)
  next
    show "turn (nm 1) (rec_at N n op ct D e (d # ds) rs vec 1) (map (\<lambda>j. (nm j, share_mail N (ab_share N n d) j)) (helpers n D)) [] (?mid 1)"
      by (rule rec_at_hub) fact+
  next
    fix j assume "1 \<le> j" "j \<le> n" "j \<noteq> 1" "j \<notin> set (helpers n D)"
    then show "?mid j = rec_at N n op ct D e (d # ds) rs vec j"
      using helper_cases [of j n D] by (auto simp: rec_mid_def rec_at_def)
  qed (use D1 in simp_all)
  moreover have "net_reach conn (team n ?mid) (team n (rec_at N n op ct D e ds (new_shares N n D d rs) (vec[d - 1 := Some (part d)])))"
  proof (rule team_spread [OF net _ _ helpers_distinct js, where m = "answer_mail N (part d # r)"])
    fix j assume "j \<in> set (helpers n D)"
    then have j: "2 \<le> j" "j \<le> n" "j \<notin> set D" by (auto simp: helpers_set)
    show "turn (nm j) (?mid j) [(nm 1, answer_mail N (part d # r))] []
        (rec_at N n op ct D e ds (new_shares N n D d rs) (vec[d - 1 := Some (part d)]) j)"
      by (rule rec_mid_take [OF ser j])
  next
    show "turn (nm 1) (?mid 1) [] (map (\<lambda>j. (nm j, answer_mail N (part d # r))) (helpers n D))
        (rec_at N n op ct D e ds (new_shares N n D d rs) (vec[d - 1 := Some (part d)]) 1)"
      by (rule rec_mid_send [OF ser D(1)])
  next
    fix j assume "1 \<le> j" "j \<le> n" "j \<noteq> 1" "j \<notin> set (helpers n D)"
    then show "rec_at N n op ct D e ds (new_shares N n D d rs) (vec[d - 1 := Some (part d)]) j = ?mid j"
      using helper_cases [of j n D] by (auto simp: rec_mid_def rec_at_def)
  qed (use D1 in simp_all)
  ultimately show ?thesis by (rule net_reach_trans)
qed

section \<open>All dropped nodes\<close>

definition fill_in :: "(nat \<Rightarrow> 'ct) \<Rightarrow> nat list \<Rightarrow> 'ct option list \<Rightarrow> 'ct option list" where
  "fill_in part ds vec = foldl (\<lambda>v d. v[d - 1 := Some (part d)]) vec ds"

definition partials :: "nat \<Rightarrow> nat list \<Rightarrow> (nat \<Rightarrow> 'ct) \<Rightarrow> 'ct option list" where
  \<comment> \<open>partialCiphertextVec with the answers of the nodes that are left\<close>
  "partials n D part = map (\<lambda>i. if i \<in> set D then None else Some (part i)) [1..<Suc n]"

lemma fill_in_length: "length (fill_in part ds vec) = length vec"
  by (induction ds arbitrary: vec) (simp_all add: fill_in_def)

lemma fill_in_nth:
  assumes "i < length vec" "0 \<notin> set ds"
  shows "fill_in part ds vec ! i = (if Suc i \<in> set ds then Some (part (Suc i)) else vec ! i)"
  using assms
proof (induction ds arbitrary: vec)
  case (Cons d ds)
  have "fill_in part (d # ds) vec ! i = fill_in part ds (vec[d - 1 := Some (part d)]) ! i" by (simp add: fill_in_def)
  also have "\<dots> = (if Suc i \<in> set ds then Some (part (Suc i)) else vec[d - 1 := Some (part d)] ! i)" by (rule Cons.IH) (use Cons.prems in auto)
  finally show ?case using Cons.prems by (cases d) (auto simp: nth_list_update)
qed (simp add: fill_in_def)

lemma fill_in_all:
  assumes "dropped_ok n D"
  shows "fill_in part D (partials n D part) = map (\<lambda>i. Some (part i)) [1..<Suc n]"
proof (rule nth_equalityI)
  have "0 \<notin> set D" using assms by (auto simp: dropped_ok_def)
  then show "fill_in part D (partials n D part) ! i = map (\<lambda>i. Some (part i)) [1..<Suc n] ! i"
    if "i < length (fill_in part D (partials n D part))" for i
    using that by (simp add: fill_in_length fill_in_nth partials_def del: upt_Suc)
qed (simp add: fill_in_length partials_def)

lemma all_present_map: "all_present (map (\<lambda>i. Some (f i)) is) = Inr (map f is)"
  by (induction "is") simp_all

lemma recover_all:
  assumes net: "meshed n conn" and ser: "abort_serial_ok N n" and D: "dropped_ok n D"
    and enough: "n div 2 + 1 + length D \<le> n" and shamir: "shamir_ok N n (ab_ctx_keys N n op 1)" and part: "partials_ok N n op ct D part"
  shows "set ds \<subseteq> set D \<Longrightarrow> left_map n D rs \<Longrightarrow> length vec = n \<Longrightarrow>
    \<exists>rs'. net_reach conn (team n (rec_at N n op ct D e ds rs vec)) (team n (rec_at N n op ct D e [] rs' (fill_in part ds vec)))"
proof (induction ds arbitrary: rs vec)
  case Nil
  then show ?case by (auto simp: fill_in_def)
next
  case (Cons d ds)
  have "left_map n D (new_shares N n D d rs)" using new_shares_dom [OF D Cons.prems(2), of N d] by (simp add: left_map_def)
  then obtain rs' where rest: "net_reach conn (team n (rec_at N n op ct D e ds (new_shares N n D d rs) (vec[d - 1 := Some (part d)])))
      (team n (rec_at N n op ct D e [] rs' (fill_in part ds (vec[d - 1 := Some (part d)]))))"
    using Cons.IH [of "new_shares N n D d rs" "vec[d - 1 := Some (part d)]"] Cons.prems by auto
  have one: "net_reach conn (team n (rec_at N n op ct D e (d # ds) rs vec))
      (team n (rec_at N n op ct D e ds (new_shares N n D d rs) (vec[d - 1 := Some (part d)])))"
    by (rule recover_one [OF net ser D _ enough shamir _ _ part]) (use Cons.prems in auto)
  have "fill_in part (d # ds) vec = fill_in part ds (vec[d - 1 := Some (part d)])" by (simp add: fill_in_def)
  with net_reach_trans [OF one rest] show ?case by (intro exI [of _ rs']) simp
qed

section \<open>The programs\<close>

definition recover_program ::
  "('cc, 'pk, 'sk, 'ek, 'es, 'ct, 'pt, 'sh) abort_nodes \<Rightarrow> nat \<Rightarrow> string \<Rightarrow> 'ct \<Rightarrow> nat list \<Rightarrow> error \<Rightarrow> (nat \<Rightarrow> 'ct) \<Rightarrow> nat \<Rightarrow> 'pt nprog" where
  \<comment> \<open>the nodes after abort_setup, the evaluation and the partial decryptions, with the same nodes missing at all of them\<close>
  "recover_program N n op ct D e part j =
     (if j \<in> set D then NRet (Inl e)
      else abort_recover (N j) (ab_ctx_keys N n op j) (of_nat n) (of_nat j) (Some ct) (ab_recd N n j n) (partials n D part) (map of_nat D))"

definition recover_programs ::
  "('cc, 'pk, 'sk, 'ek, 'es, 'ct, 'pt, 'sh) abort_nodes \<Rightarrow> nat \<Rightarrow> string \<Rightarrow> 'ct \<Rightarrow> nat list \<Rightarrow> error \<Rightarrow> (nat \<Rightarrow> 'ct) \<Rightarrow> (string \<rightharpoonup> 'pt nprog)" where
  "recover_programs N n op ct D e part = (\<lambda>x. if x \<in> node_names n then Some (recover_program N n op ct D e part (node_number x)) else None)"

definition fused :: "('cc, 'pk, 'sk, 'ek, 'es, 'ct, 'pt, 'sh) abort_nodes \<Rightarrow> nat \<Rightarrow> string \<Rightarrow> (nat \<Rightarrow> 'ct) \<Rightarrow> nat \<Rightarrow> 'pt" where
  \<comment> \<open>what node j prints when it has all partial decryptions\<close>
  "fused N n op part j = b_SetLength (N j) 24 (b_MultipartyDecryptFusion (N j) (ab_ctx_keys N n op j) (map part [1..<Suc n]))"

lemma recover_program_rec_at:
  assumes D: "dropped_ok n D" and few: "length D \<le> n div 2"
  shows "recover_program N n op ct D e part j = rec_at N n op ct D e D Map.empty (partials n D part) j"
proof -
  have n: "2 \<le> n" "n < 2 ^ 32" using D by (auto simp: dropped_ok_def)
  have "\<not> drop_threshold (of_nat n) \<le> of_nat (length D)"
    using threshold_nat [OF n] u32_less [of "length D" "n div 2 + 1"] few n by (simp add: not_le)
  then show ?thesis by (simp add: recover_program_def rec_at_def abort_recover_def)
qed

lemma recovery_round_patient: "patient (recovery_round deser js rs ctr)"
  by (induction js arbitrary: rs ctr) (auto intro!: patient_nbind)

lemma recovery_loop_patient: "patient (recovery_loop fuel deser js t rs ctr)"
  by (induction fuel arbitrary: rs ctr) (auto intro!: patient_nbind simp: recovery_round_patient)

lemma send_recovered_patient: "patient (send_recovered ser cp js)"
  by (induction js) (auto intro!: patient_nbind simp: n_sendSerialMsg_timed_def)

lemma recover_nodes_patient: "patient (recover_nodes L c n nid ct recd D ds rs vec)"
proof (induction ds arbitrary: rs vec)
  case (Cons d ds)
  then show ?case
    by (auto intro!: patient_nbind simp: RecoverDroppedSecret_def SendRecoveredPartialCT_def recovery_round_patient recovery_loop_patient send_recovered_patient
      split: prod.split)
qed simp

lemma rec_at_patient: "patient (rec_at N n op ct D e ds rs vec j)"
  by (auto simp: rec_at_def abort_fuse_def intro!: patient_nbind recover_nodes_patient)

lemma recover_start:
  assumes "dropped_ok n D" "length D \<le> n div 2"
  shows "recover_programs N n op ct D e part =
    (\<lambda>x. if x \<in> node_names n then Some (rec_at N n op ct D e D Map.empty (partials n D part) (node_number x)) else None)"
  unfolding recover_programs_def recover_program_rec_at [OF assms] by (rule refl)

text \<open>C7: a minority drops out. Nodes of the aborts demo, for any number n, whose nodes D, fewer than half and
  without Node1, have ended before they sent their partial decryptions; all others agree on who is missing. In every interleaving
  all nodes that are left end with the plaintext fused from n partial decryptions: their own ones, and for
  every dropped node the one made with that node's own secret key, which Node1 has recovered from the shares.\<close>

theorem minority_recovered:
  assumes ok: "p2p_ok who conn y" and sys: "fresh_system (recover_programs N n op ct D e part) y"
    and net: "meshed n conn" and ser: "abort_serial_ok N n" and D: "dropped_ok n D" and enough: "n div 2 + 1 + length D \<le> n"
    and shamir: "shamir_ok N n (ab_ctx_keys N n op 1)" and part: "partials_ok N n op ct D part"
    and reach: "p2p_reach who y u"
  shows "\<exists>z. p2p_reach who u z \<and> (\<forall>j \<in> {1..n} - set D. programs z (nm j) = Some (NRet (Inr (fused N n op part j))))"
proof -
  have few: "length D \<le> n div 2" using enough by linarith
  have "left_map n D Map.empty" "length (partials n D part) = n" by (simp_all add: left_map_def partials_def)
  then obtain rs where run: "net_reach conn (team n (rec_at N n op ct D e D Map.empty (partials n D part)))
      (team n (rec_at N n op ct D e [] rs (fill_in part D (partials n D part))))"
    using recover_all [OF net ser D enough shamir part subset_refl] by blast
  have ends: "rec_at N n op ct D e [] rs (fill_in part D (partials n D part))
      = (\<lambda>j. NRet (if j \<in> set D then Inl e else Inr (fused N n op part j)))"
    by (rule ext) (simp add: rec_at_def fill_in_all [OF D] abort_fuse_def all_present_map fused_def nret_def n_lift_def del: upt_Suc)
  have "\<exists>z. p2p_reach who u z \<and> (\<forall>x \<in> node_names n. programs z x =
      Some (NRet (if node_number x \<in> set D then Inl e else Inr (fused N n op part (node_number x)))))"
    by (rule quiet_outcome [OF ok sys [unfolded recover_start [OF D few]] _ run [unfolded ends team_def] _ reach])
      (simp_all add: rec_at_patient)
  then show ?thesis by (auto simp: node_names_def)
qed

section \<open>Half of the nodes\<close>

lemma ended_stays:
  assumes "p2p_reach who u z" "programs u i = Some (NRet r)"
  shows "programs z i = Some (NRet r)"
  using assms unfolding p2p_reach_def
proof (induction rule: rtranclp_induct)
  case (step v w)
  then obtain k where k: "p2p_move who k v = Some w" by blast
  have "programs v i = Some (NRet r)" using step by simp
  with k show ?case
    by (auto simp: p2p_move_def split: option.splits nprog.splits prod.splits)
qed simp

lemma half_hub:
  assumes ser: "abort_serial_ok N n" and D: "dropped_ok n (d # ds)" and half: "2 * Suc (length ds) = n" and four: "4 \<le> n"
    and vec: "length vec = n"
  shows "\<exists>s k. turn (nm 1) (rec_at N n op ct (d # ds) e (d # ds) rs vec 1)
    (map (\<lambda>j. (nm j, share_mail N (ab_share N n d) j)) (helpers n (d # ds))) [] (NRecv s [] k)"
proof -
  let ?D = "d # ds" and ?t = "drop_threshold (of_nat n)"
  have n: "2 \<le> n" "n < 2 ^ 32" and one: "1 \<notin> set ?D" using D by (auto simp: dropped_ok_def)
  note t = threshold_nat [OF n] and len = helpers_length [OF D]
  have fuel: "unat ?t = Suc (n div 2)" unfolding t using u32_of_nat [of "n div 2 + 1"] n by simp
  have first: "(1 :: u32) < ?t" unfolding t using u32_less [of 1 "n div 2 + 1"] n by simp
  have h: "Suc (length (helpers n ?D)) = n div 2" using len half by simp
  then have "(1 + of_nat (length (helpers n ?D)) :: u32) = of_nat (n div 2)" by (metis of_nat_Suc)
  then have again: "(1 + of_nat (length (helpers n ?D)) :: u32) < ?t"
    unfolding t using u32_less [of "n div 2" "n div 2 + 1"] n by simp
  obtain h js where js: "helpers n ?D = h # js" using h four by (cases "helpers n ?D") auto
  let ?k = "\<lambda>(rs, ctr). nbind (recovery_loop (unat ?t) (b_deser_sh (N 1)) (map of_nat (helpers n ?D)) ?t rs ctr) (hub_rest N n op ct ?D e ds vec d)"
  have "\<exists>s k. ?k (rs, 1 + of_nat (length (helpers n ?D))) = NRecv s [] k" for rs
    using again by (simp add: fuel js n_getSerialMsgWait_def)
  then obtain s k where k: "?k (with_shares (ab_share N n d) (helpers n ?D) (rs(1 \<mapsto> ab_share N n d 1)), 1 + of_nat (length (helpers n ?D))) = NRecv s [] k"
    by blast
  have "turn (nm 1) (nbind (recovery_round (b_deser_sh (N 1)) (map of_nat (helpers n ?D)) (rs(1 \<mapsto> ab_share N n d 1)) 1) ?k)
      (map (\<lambda>j. (nm j, share_mail N (ab_share N n d) j)) (helpers n ?D) @ []) [] (NRecv s [] k)"
    by (rule turn_recovery_round [OF ser n]) (use k in \<open>auto simp: helpers_set turn_here\<close>)
  moreover have "rec_at N n op ct ?D e ?D rs vec 1 = nbind (recovery_round (b_deser_sh (N 1)) (map of_nat (helpers n ?D)) (rs(1 \<mapsto> ab_share N n d 1)) 1) ?k"
    unfolding rec_at_hub_eq [OF D list.set_intros(1) vec]
    using first js by (simp add: nbind_assoc case_prod_beta')
  ultimately show ?thesis by auto
qed

lemma half_stuck:
  assumes net: "meshed n conn" and ser: "abort_serial_ok N n" and D: "dropped_ok n D" and half: "2 * length D = n" and four: "4 \<le> n"
    and vec: "length vec = n"
  shows "\<exists>Q. net_reach conn (team n (rec_at N n op ct D e D rs vec)) (team n Q)
    \<and> (\<forall>j \<in> {1..n}. if j \<in> set D then Q j = NRet (Inl e) else \<exists>s k. Q j = NRecv s [] k)"
proof -
  obtain d ds where d: "D = d # ds" using half four by (cases D) auto
  have D': "dropped_ok n (d # ds)" "2 * Suc (length ds) = n" using D half by (simp_all add: d)
  obtain s k where hub: "turn (nm 1) (rec_at N n op ct D e D rs vec 1) (map (\<lambda>j. (nm j, share_mail N (ab_share N n d) j)) (helpers n D)) [] (NRecv s [] k)"
    using half_hub [OF ser D' four vec] unfolding d by blast
  define Q where "Q j = (if j = 1 then NRecv s [] k else rec_mid N n op ct D e ds Map.empty vec d [] j)" for j
  have js: "set (helpers n D) \<subseteq> {1..n} - {1}" by (auto simp: helpers_set)
  have D1: "1 \<notin> set D" "d \<in> set D" using D by (auto simp: dropped_ok_def d)
  have "net_reach conn (team n (rec_at N n op ct D e D rs vec)) (team n Q)"
  proof (rule team_gather [OF net _ _ helpers_distinct js, where m = "share_mail N (ab_share N n d)"])
    fix j assume "j \<in> set (helpers n D)"
    then have j: "2 \<le> j" "j \<le> n" "j \<notin> set D" by (auto simp: helpers_set)
    have "rec_at N n op ct D e D rs vec j =
        nbind (n_sendSerialMsg (b_ser_sh (N j)) (ab_share N n d j) ''secretsharerecovery'' (nm 1)) (\<lambda>_. rec_mid N n op ct D e ds Map.empty vec d [] j)"
      using rec_at_spoke [OF D D1(2) j vec, of N op ct e ds rs Map.empty "[]"] by (simp add: d)
    then show "turn (nm j) (rec_at N n op ct D e D rs vec j) [] [(nm 1, share_mail N (ab_share N n d) j)] (Q j)"
      unfolding share_mail_def using j abort_serialD [OF ser, of j] by (simp add: turn_put turn_here Q_def)
  next
    show "turn (nm 1) (rec_at N n op ct D e D rs vec 1) (map (\<lambda>j. (nm j, share_mail N (ab_share N n d) j)) (helpers n D)) [] (Q 1)"
      using hub by (simp add: Q_def)
  next
    fix j assume "1 \<le> j" "j \<le> n" "j \<noteq> 1" "j \<notin> set (helpers n D)"
    then show "Q j = rec_at N n op ct D e D rs vec j"
      using helper_cases [of j n D] by (auto simp: Q_def rec_mid_def rec_at_def)
  qed (use four in simp_all)
  moreover have "if j \<in> set D then Q j = NRet (Inl e) else \<exists>s k. Q j = NRecv s [] k" for j
    using D1(1) by (auto simp: Q_def rec_mid_def n_getSerialMsgWait_def)
  ultimately show ?thesis by blast
qed

text \<open>C8: half of the nodes drop out. The guard compares the number of the dropped nodes with the threshold, n / 2 + 1, and not
  the number of those that are left: with exactly half of an even number of nodes missing (four or more), no node
  that is left ever ends, in any interleaving. Node1 has too few shares after the first round and waits
  for a second one, which nobody sends; the others wait for Node1.\<close>

theorem half_never_ends:
  assumes ok: "p2p_ok who conn y" and sys: "fresh_system (recover_programs N n op ct D e part) y"
    and net: "meshed n conn" and ser: "abort_serial_ok N n" and D: "dropped_ok n D" and half: "2 * length D = n" and four: "4 \<le> n"
    and reach: "p2p_reach who y u" and j: "j \<in> {1..n} - set D"
  shows "programs u (nm j) \<noteq> Some (NRet r)"
proof
  assume r: "programs u (nm j) = Some (NRet r)"
  have few: "length D \<le> n div 2" using half by linarith
  have "length (partials n D part) = n" by (simp add: partials_def)
  from half_stuck [OF net ser D half four this] obtain Q where
    run: "net_reach conn (team n (rec_at N n op ct D e D Map.empty (partials n D part))) (team n Q)"
    and Q: "\<And>i. i \<in> {1..n} \<Longrightarrow> if i \<in> set D then Q i = NRet (Inl e) else \<exists>s k. Q i = NRecv s [] k" by blast
  have y: "net_of y = team n (rec_at N n op ct D e D Map.empty (partials n D part))"
    using sys [unfolded recover_start [OF D few]] fresh_system_chan [OF sys]
    by (intro net_eqI) (simp_all add: fresh_system_def team_def crew_def)
  have "patient_net (net_of y)" by (auto simp: patient_net_def y team_def crew_def rec_at_patient split: if_splits)
  moreover have "settled conn (team n Q)"
    unfolding settled_def
  proof
    fix x
    show "node_move conn x (team n Q) = None"
    proof (cases "x \<in> node_names n")
      case True
      then obtain i where i: "x = nm i" "i \<in> {1..n}" by (auto elim: node_namesE)
      then show ?thesis using Q [OF i(2)] by (auto simp: node_move_def team_def crew_def split: if_splits)
    qed (simp add: node_move_def team_def crew_def)
  qed
  moreover have "delivered (team n Q)" by (simp add: delivered_def team_def crew_def)
  ultimately obtain z where z: "p2p_reach who u z" "net_of z = team n Q"
    using p2p_runs_on [OF ok _ _ _ _ reach] run y by metis
  have "programs z = procs (team n Q)" using z(2) procs_net_of [of z] by metis
  then have "programs z (nm j) = Some (Q j)" using j by (simp add: team_def crew_def)
  with ended_stays [OF z(1) r] Q [of j] j show False by auto
qed

section \<open>Three and four nodes\<close>

definition left_aborts :: "nat \<Rightarrow> nat list \<Rightarrow> (nat \<Rightarrow> nat) \<Rightarrow> (string \<times> nat nprog) list" where
  "left_aborts n D part = map (\<lambda>j. (nm j, recover_program toy_abort n ''add'' 129 D (Exit_failure ''abort'') part j)) [1..<Suc n]"

definition toy_part :: "nat \<Rightarrow> nat" where
  "toy_part j = (if j = 1 then 129 - 3 * 11 else 3 * (10 + j))"

lemma left_programs: "map_of (left_aborts n D part) = recover_programs toy_abort n ''add'' 129 D (Exit_failure ''abort'') part"
proof
  fix x
  have "map_of (map (\<lambda>j. (nm j, f j)) is) x = (if x \<in> nm ` set is then Some (f (node_number x)) else None)" for f :: "nat \<Rightarrow> nat nprog" and "is"
    by (induction "is") auto
  moreover have "nm ` set [1..<Suc n] = node_names n" by (auto simp: node_names_def)
  ultimately show "map_of (left_aborts n D part) x = recover_programs toy_abort n ''add'' 129 D (Exit_failure ''abort'') part x"
    by (simp add: left_aborts_def recover_programs_def del: upt_Suc)
qed

lemma left_meshed: "meshed n (mesh_conn (map fst (left_aborts n D part)))"
  by (auto simp: meshed_def mesh_conn_def left_aborts_def image_iff)

lemma toy_key:
  assumes "1 \<le> j"
  shows "ab_sk toy_abort j = 10 + j"
proof -
  obtain i where "j = Suc i" using assms by (cases j) auto
  then show ?thesis by (cases i) (simp_all add: ab_sk_def sk_at_def ab_path_def ab_ctx_def toy_abort_def toy_path_def)
qed

lemma toy_shamir: "shamir_ok toy_abort 3 c"
  unfolding shamir_ok_def
proof (intro ballI allI impI)
  fix d :: nat and I :: "nat set" and m :: "u32 \<rightharpoonup> nat"
  assume a: "I \<subseteq> {1..3} - {d} \<and> 3 div 2 + 1 \<le> card I \<and> dom m = of_nat ` I \<and> (\<forall>i \<in> I. m (of_nat i) = Some (ab_share toy_abort 3 d i))"
  have v: "ab_share toy_abort 3 d i = ab_sk toy_abort d" for i
    by (simp add: ab_share_def ab_shares_def toy_abort_def idx_val_def)
  have none: "m x = None \<or> m x = Some (ab_sk toy_abort d)" for x using a v by (cases "m x") force+
  obtain i where i: "i \<in> I" using a by fastforce
  then have "m (of_nat i) = Some (ab_sk toy_abort d)" "i = 1 \<or> i = 2 \<or> i = 3" using a v by auto
  moreover have "node_ids 3 = [1, 2, 3]" by (simp add: node_ids_def upt_rec)
  ultimately show "b_RecoverSharedKey (toy_abort 1) c m (of_nat 3) (drop_threshold (of_nat 3)) ''shamir'' = Inr (ab_sk toy_abort d)"
    using none [of 1] none [of 2] none [of 3] by (auto simp: toy_abort_def List.map_filter_simps)
qed

lemma toy_partials: "partials_ok toy_abort 3 ''add'' 129 [3] toy_part"
  by (simp add: partials_ok_def toy_key) (simp add: toy_abort_def toy_part_def)

lemma minority_recovered_witness:
  "\<exists>z. p2p_reach mesh_who (mesh (left_aborts 3 [3] toy_part)) z \<and> (\<forall>j \<in> {1, 2}. programs z (nm j) = Some (NRet (Inr 21)))"
proof -
  let ?y = "mesh (left_aborts 3 [3] toy_part)"
  have "p2p_reach mesh_who ?y ?y" by (simp add: p2p_reach_def)
  from minority_recovered [OF mesh_ok mesh_fresh [of "left_aborts 3 [3] toy_part", unfolded left_programs] left_meshed toy_abort_serial _ _ toy_shamir toy_partials this]
  obtain z where z: "p2p_reach mesh_who ?y z"
    "\<forall>j \<in> {1..3} - {3}. programs z (nm j) = Some (NRet (Inr (fused toy_abort 3 ''add'' toy_part j)))"
    by (auto simp: dropped_ok_def)
  have "fused toy_abort 3 ''add'' toy_part j = 21" for j
    by (simp add: fused_def toy_abort_def toy_part_def upt_rec)
  moreover have "{1, 2} = {1..3} - {3 :: nat}" by auto
  ultimately have "\<forall>j \<in> {1, 2}. programs z (nm j) = Some (NRet (Inr 21))" using z(2) by (simp only:)
  with z(1) show ?thesis by blast
qed

lemma half_never_ends_witness:
  "\<not> (\<exists>u j r. p2p_reach mesh_who (mesh (left_aborts 4 [3, 4] toy_part)) u \<and> j \<in> {1, 2} \<and> programs u (nm j) = Some (NRet r))"
proof
  assume "\<exists>u j r. p2p_reach mesh_who (mesh (left_aborts 4 [3, 4] toy_part)) u \<and> j \<in> {1, 2} \<and> programs u (nm j) = Some (NRet r)"
  then obtain u j r where u: "p2p_reach mesh_who (mesh (left_aborts 4 [3, 4] toy_part)) u" "j \<in> {1, 2}" "programs u (nm j) = Some (NRet r)" by blast
  have "programs u (nm j) \<noteq> Some (NRet r)"
    by (rule half_never_ends [OF mesh_ok mesh_fresh [of "left_aborts 4 [3, 4] toy_part", unfolded left_programs] left_meshed toy_abort_serial _ _ _ u(1)])
      (use u(2) in \<open>auto simp: dropped_ok_def\<close>)
  with u(3) show False by simp
qed

end
