(* ===== verification/Adj_Server.thy ===== *)
theory Adj_Server
  imports Rpc Path_Keys Measure_Lib
begin

text \<open>
  The key server of the adjacent measurement demo (\<^verbatim>\<open>threshnet_adjacent_measure_demo/include\<close>): the state of
  \<^verbatim>\<open>thresh_server.h\<close>, one servicer per RPC method, and the servicers \<^verbatim>\<open>HandleRpcs\<close> starts. Unlike the server
  of the demo with aborts, the servicer of the crypto context generates the context in its constructor, so again for
  every request, and three methods answer the controller. Members that no servicer uses, debug files and
  TLS are left out.
\<close>

section \<open>The library\<close>

record ('cc, 'pk, 'sk, 'ek, 'es, 'ct, 'pt) adj_lib =
  x_keys :: "('cc, 'pk, 'sk, 'ek, 'es) path_lib"
  x_GenCryptoContext :: "bfv_params \<Rightarrow> 'cc"
  x_ser_cc :: "'cc option \<Rightarrow> bytes"
  x_deser_cc :: "bytes \<Rightarrow> 'cc option result"
  x_ser_ct :: "'ct \<Rightarrow> bytes"
  x_deser_ct :: "bytes \<Rightarrow> 'ct option result"
  x_ser_cts :: "'ct option list \<Rightarrow> bytes"
  x_deser_cts :: "bytes \<Rightarrow> 'ct option list result"
  x_ClearKeys :: "'cc \<Rightarrow> 'cc" \<comment> \<open>ClearEvalMultKeys, ClearEvalAutomorphismKeys\<close>
  x_InsertEvalMultKey :: "'cc \<Rightarrow> 'ek list \<Rightarrow> 'cc"
  x_PlaintextModulus :: "'cc \<Rightarrow> nat"
  x_MakePackedPlaintext :: "'cc \<Rightarrow> int list \<Rightarrow> 'pt result"
  x_Encrypt :: "'cc \<Rightarrow> 'pk \<Rightarrow> 'pt \<Rightarrow> 'ct"
  x_EvalMult :: "'cc \<Rightarrow> 'ct \<Rightarrow> 'ct \<Rightarrow> 'ct"
  x_EvalSub :: "'cc \<Rightarrow> 'ct option \<Rightarrow> 'ct option \<Rightarrow> 'ct result" \<comment> \<open>of pointers\<close>
  x_MultipartyDecryptLead :: "'cc \<Rightarrow> 'ct option list \<Rightarrow> 'sk \<Rightarrow> 'ct option list result"
  x_MultipartyDecryptMain :: "'cc \<Rightarrow> 'ct option list \<Rightarrow> 'sk \<Rightarrow> 'ct option list result"
  x_MultipartyDecryptFusion :: "'cc \<Rightarrow> 'ct option list \<Rightarrow> 'pt result"
  x_GetPackedValue :: "nat \<Rightarrow> 'pt \<Rightarrow> int list" \<comment> \<open>after SetLength\<close>

definition adj_params :: bfv_params where
  "adj_params = \<lparr> bp_plaintextModulus = 65537, bp_standardDeviation = ''3.2'',
     bp_securityLevel = ''HEStd_128_classic'', bp_secretKeyDist = ''UNIFORM_TERNARY'',
     bp_multiplicativeDepth = 4, bp_batchSize = 1024, bp_enabled = [''PKE'', ''LEVELEDSHE'', ''MULTIPARTY''] \<rparr>"

section \<open>State and service\<close>

record ('cc, 'ct) adj_state =
  a_cc :: "'cc option"
  a_Ciphertexts :: "u32 \<rightharpoonup> 'ct option"
  a_PartialCiphertexts :: "u32 \<rightharpoonup> 'ct option list"
  a_CTRecdFlag :: "u32 \<rightharpoonup> bool"
  a_PublicKeys :: "u32 \<rightharpoonup> bytes"
  a_PublicKeysReady :: "u32 \<rightharpoonup> bool"
  a_EvalKeyMultsReady :: "u32 \<rightharpoonup> bool"
  a_EvalKeyMixMultsReady :: "u32 \<rightharpoonup> bool"
  a_EvalKeyMults :: "u32 \<rightharpoonup> bytes"
  a_EvalKeyMixMults :: "u32 \<rightharpoonup> bytes"

datatype adj_request =
    ACryptoContextFromServer
  | APublicKeyFromClient bytes u32
  | APublicKeyToClient u32
  | AevalMultKeyFromClient bytes u32
  | AevalMultKeyToClient u32
  | AevalMixMultKeyFromClient bytes u32
  | AevalMixMultKeyToClient u32
  | ACipherTextFromClient bytes u32
  | ACipherTextToClient u32
  | APartialCipherTextFromClient bytes u32
  | APartialCipherTextToClient u32
  | APartialCipherTextsReceivedWait u32
  | ACryptoContextRequestFromServer_Controller
  | AJointPublicKeyToController u32
  | AEvalMultKeyToController u32

datatype adj_reply =
    ACryptoContextReturn bytes
  | AAck string
  | AKeyReturn bool bytes
  | ATextReturn bool bytes
  | AFlagReturn bool

fun adj_method :: "adj_request \<Rightarrow> nat" where
  \<comment> \<open>the tags of the requests, RequestTag of thresh_net.proto\<close>
  "adj_method ACryptoContextFromServer = 1"
| "adj_method (APublicKeyFromClient _ _) = 4"
| "adj_method (APublicKeyToClient _) = 5"
| "adj_method (AevalMultKeyFromClient _ _) = 6"
| "adj_method (AevalMultKeyToClient _) = 7"
| "adj_method (AevalMixMultKeyFromClient _ _) = 10"
| "adj_method (AevalMixMultKeyToClient _) = 11"
| "adj_method (ACipherTextFromClient _ _) = 12"
| "adj_method (ACipherTextToClient _) = 13"
| "adj_method (APartialCipherTextFromClient _ _) = 14"
| "adj_method (APartialCipherTextToClient _) = 15"
| "adj_method (APartialCipherTextsReceivedWait _) = 18"
| "adj_method ACryptoContextRequestFromServer_Controller = 19"
| "adj_method (AJointPublicKeyToController _) = 20"
| "adj_method (AEvalMultKeyToController _) = 21"

type_synonym ('cc, 'ct) adj_servicer = "(('cc, 'ct) adj_state, nat, adj_request, adj_reply) servicer"

section \<open>The servicers\<close>

definition a_initializeCC :: "('cc, 'pk, 'sk, 'ek, 'es, 'ct, 'pt) adj_lib \<Rightarrow> ('cc, 'ct) adj_state \<Rightarrow> ('cc, 'ct) adj_state" where
  "a_initializeCC L s = s\<lparr>a_cc := Some (x_GenCryptoContext L adj_params)\<rparr>"

definition a_send_context :: "('cc, 'pk, 'sk, 'ek, 'es, 'ct, 'pt) adj_lib \<Rightarrow> (('cc, 'ct) adj_state, adj_reply) act" where
  \<comment> \<open>serialise cc and reply\<close>
  "a_send_context L s =
     (let os = x_ser_cc L (a_cc s) in
      if os = [] then (Inl (Serialize_error ''CryptoContext serialization error''), s)
      else (Inr (ACryptoContextReturn os), s))"

definition a_CryptoContextRequestServicer :: "('cc, 'pk, 'sk, 'ek, 'es, 'ct, 'pt) adj_lib \<Rightarrow> ('cc, 'ct) adj_servicer" where
  \<comment> \<open>new CryptoContextRequestServicer(service_, cq_, cc) runs initializeCC first\<close>
  "a_CryptoContextRequestServicer L = \<lparr> sv_method = 1, sv_process = (\<lambda>request s.
     case request of ACryptoContextFromServer \<Rightarrow> a_send_context L (a_initializeCC L s) | _ \<Rightarrow> wrong_method s) \<rparr>"

definition a_CryptoContextToControllerRequestServicer :: "('cc, 'pk, 'sk, 'ek, 'es, 'ct, 'pt) adj_lib \<Rightarrow> ('cc, 'ct) adj_servicer" where
  "a_CryptoContextToControllerRequestServicer L = \<lparr> sv_method = 19, sv_process = (\<lambda>request s.
     case request of ACryptoContextRequestFromServer_Controller \<Rightarrow> a_send_context L s | _ \<Rightarrow> wrong_method s) \<rparr>"

definition a_PublicKeyRequestServicer :: "('cc, 'ct) adj_servicer" where
  "a_PublicKeyRequestServicer = \<lparr> sv_method = 4, sv_process = (\<lambda>request s.
     case request of
       APublicKeyFromClient pkey cid \<Rightarrow>
         if pkey = [] then (Inl (Openfhe_error ''Received empty public key buffer''), s)
         else (Inr (AAck ''Received PKEY. Thank you, Your Server''),
               s\<lparr>a_PublicKeys := (a_PublicKeys s)(cid \<mapsto> pkey),
                 a_PublicKeysReady := (a_PublicKeysReady s)(cid \<mapsto> True)\<rparr>)
     | _ \<Rightarrow> wrong_method s) \<rparr>"

definition a_pubkey_reply :: "u32 \<Rightarrow> (('cc, 'ct) adj_state, adj_reply) act" where
  \<comment> \<open>pkeysready[cid], and pkeys[cid] when it is set\<close>
  "a_pubkey_reply cid s =
     (case idx False (a_PublicKeysReady s) cid of
        (pkeyready, rm) \<Rightarrow>
          let s = s\<lparr>a_PublicKeysReady := rm\<rparr> in
          if \<not> pkeyready then (Inr (AKeyReturn False []), s)
          else (case idx [] (a_PublicKeys s) cid of
                  (pkey, pm) \<Rightarrow> (Inr (AKeyReturn True pkey), s\<lparr>a_PublicKeys := pm\<rparr>)))"

definition a_PublicKeyToClientRequestServicer :: "('cc, 'ct) adj_servicer" where
  "a_PublicKeyToClientRequestServicer = \<lparr> sv_method = 5, sv_process = (\<lambda>request s.
     case request of APublicKeyToClient cid \<Rightarrow> a_pubkey_reply cid s | _ \<Rightarrow> wrong_method s) \<rparr>"

definition a_PublicKeyToControllerRequestServicer :: "('cc, 'ct) adj_servicer" where
  "a_PublicKeyToControllerRequestServicer = \<lparr> sv_method = 20, sv_process = (\<lambda>request s.
     case request of AJointPublicKeyToController cid \<Rightarrow> a_pubkey_reply cid s | _ \<Rightarrow> wrong_method s) \<rparr>"

definition a_EvalMultKeyRequestServicer :: "('cc, 'ct) adj_servicer" where
  "a_EvalMultKeyRequestServicer = \<lparr> sv_method = 6, sv_process = (\<lambda>request s.
     case request of
       AevalMultKeyFromClient ekey cid \<Rightarrow>
         if ekey = [] then (Inl (Openfhe_error ''Received empty public key buffer''), s)
         else (Inr (AAck ''Received EKEY. Thank you, Your Server''),
               s\<lparr>a_EvalKeyMults := (a_EvalKeyMults s)(cid \<mapsto> ekey),
                 a_EvalKeyMultsReady := (a_EvalKeyMultsReady s)(cid \<mapsto> True)\<rparr>)
     | _ \<Rightarrow> wrong_method s) \<rparr>"

definition a_EvalMultKeyToClientRequestServicer :: "('cc, 'ct) adj_servicer" where
  "a_EvalMultKeyToClientRequestServicer = \<lparr> sv_method = 7, sv_process = (\<lambda>request s.
     case request of
       AevalMultKeyToClient cid \<Rightarrow>
         (case idx False (a_EvalKeyMultsReady s) cid of
            (ekeyready, rm) \<Rightarrow>
              let s = s\<lparr>a_EvalKeyMultsReady := rm\<rparr> in
              if \<not> ekeyready then (Inr (AKeyReturn False []), s)
              else (case idx [] (a_EvalKeyMults s) cid of
                      (ekey, em) \<Rightarrow> (Inr (AKeyReturn True ekey), s\<lparr>a_EvalKeyMults := em\<rparr>)))
     | _ \<Rightarrow> wrong_method s) \<rparr>"

definition a_EvalMixMultKeyRequestServicer :: "('cc, 'ct) adj_servicer" where
  "a_EvalMixMultKeyRequestServicer = \<lparr> sv_method = 10, sv_process = (\<lambda>request s.
     case request of
       AevalMixMultKeyFromClient ekey cid \<Rightarrow>
         if ekey = [] then (Inl (Openfhe_error ''Received empty public key buffer''), s)
         else (Inr (AAck ''Received mixed eval key. Thank you, Your Server''),
               s\<lparr>a_EvalKeyMixMults := (a_EvalKeyMixMults s)(cid \<mapsto> ekey),
                 a_EvalKeyMixMultsReady := (a_EvalKeyMixMultsReady s)(cid \<mapsto> True)\<rparr>)
     | _ \<Rightarrow> wrong_method s) \<rparr>"

definition a_mixkey_reply :: "u32 \<Rightarrow> (('cc, 'ct) adj_state, adj_reply) act" where
  \<comment> \<open>ekeysready[cid], and ekeys[cid] when it is set\<close>
  "a_mixkey_reply cid s =
     (case idx False (a_EvalKeyMixMultsReady s) cid of
        (ekeyready, rm) \<Rightarrow>
          let s = s\<lparr>a_EvalKeyMixMultsReady := rm\<rparr> in
          if \<not> ekeyready then (Inr (AKeyReturn False []), s)
          else (case idx [] (a_EvalKeyMixMults s) cid of
                  (ekey, em) \<Rightarrow> (Inr (AKeyReturn True ekey), s\<lparr>a_EvalKeyMixMults := em\<rparr>)))"

definition a_EvalMixMultKeyToClientRequestServicer :: "('cc, 'ct) adj_servicer" where
  "a_EvalMixMultKeyToClientRequestServicer = \<lparr> sv_method = 11, sv_process = (\<lambda>request s.
     case request of AevalMixMultKeyToClient cid \<Rightarrow> a_mixkey_reply cid s | _ \<Rightarrow> wrong_method s) \<rparr>"

definition a_EvalMultKeyToControllerRequestServicer :: "('cc, 'ct) adj_servicer" where
  \<comment> \<open>the key of client 1, whatever the request says\<close>
  "a_EvalMultKeyToControllerRequestServicer = \<lparr> sv_method = 21, sv_process = (\<lambda>request s.
     case request of AEvalMultKeyToController cid \<Rightarrow> a_mixkey_reply 1 s | _ \<Rightarrow> wrong_method s) \<rparr>"

definition a_CipherTextRequestServicer :: "('cc, 'pk, 'sk, 'ek, 'es, 'ct, 'pt) adj_lib \<Rightarrow> ('cc, 'ct) adj_servicer" where
  "a_CipherTextRequestServicer L = \<lparr> sv_method = 12, sv_process = (\<lambda>request s.
     case request of
       ACipherTextFromClient ctext cid \<Rightarrow>
         if ctext = [] then (Inl (Openfhe_error ''Received empty cipher text buffer''), s)
         else (case x_deser_ct L ctext of
             Inl e \<Rightarrow> (Inl e, s)
           | Inr ct \<Rightarrow>
               if ct = None then (Inl (Deserialize_error ''CipherText de-serialization error''), s)
               else (Inr (AAck ''Received CTEXT. Thank you, Your Server''),
                     s\<lparr>a_Ciphertexts := (a_Ciphertexts s)(cid \<mapsto> ct)\<rparr>))
     | _ \<Rightarrow> wrong_method s) \<rparr>"

definition a_CipherTextToClientRequestServicer :: "('cc, 'pk, 'sk, 'ek, 'es, 'ct, 'pt) adj_lib \<Rightarrow> ('cc, 'ct) adj_servicer" where
  "a_CipherTextToClientRequestServicer L = \<lparr> sv_method = 13, sv_process = (\<lambda>request s.
     case request of
       ACipherTextToClient cid \<Rightarrow>
         (case idx None (a_Ciphertexts s) cid of
            (cipherText, cm) \<Rightarrow>
              let s = s\<lparr>a_Ciphertexts := cm\<rparr> in
              (case cipherText of
                 None \<Rightarrow> (Inr (ATextReturn False []), s)
               | Some ct \<Rightarrow>
                   if x_ser_ct L ct = [] then (Inl (Serialize_error ''CipherText serialization error''), s)
                   else (Inr (ATextReturn True (x_ser_ct L ct)), s)))
     | _ \<Rightarrow> wrong_method s) \<rparr>"

definition a_PartialCipherTextRequestServicer :: "('cc, 'pk, 'sk, 'ek, 'es, 'ct, 'pt) adj_lib \<Rightarrow> ('cc, 'ct) adj_servicer" where
  "a_PartialCipherTextRequestServicer L = \<lparr> sv_method = 14, sv_process = (\<lambda>request s.
     case request of
       APartialCipherTextFromClient ctext cid \<Rightarrow>
         if ctext = [] then (Inl (Openfhe_error ''Received empty cipher text buffer''), s)
         else (case x_deser_cts L ctext of
             Inl e \<Rightarrow> (Inl e, s)
           | Inr ct \<Rightarrow>
               (Inr (AAck ''Received partial CTEXT. Thank you, Your Server''),
                s\<lparr>a_PartialCiphertexts := (a_PartialCiphertexts s)(cid \<mapsto> ct),
                  a_CTRecdFlag := (a_CTRecdFlag s)(cid \<mapsto> True)\<rparr>))
     | _ \<Rightarrow> wrong_method s) \<rparr>"

definition a_PartialCipherTextToClientRequestServicer :: "('cc, 'pk, 'sk, 'ek, 'es, 'ct, 'pt) adj_lib \<Rightarrow> ('cc, 'ct) adj_servicer" where
  "a_PartialCipherTextToClientRequestServicer L = \<lparr> sv_method = 15, sv_process = (\<lambda>request s.
     case request of
       APartialCipherTextToClient cid \<Rightarrow>
         (case idx [] (a_PartialCiphertexts s) cid of
            (cipherText, cm) \<Rightarrow>
              let s = s\<lparr>a_PartialCiphertexts := cm\<rparr> in
              if cipherText = [] then (Inr (ATextReturn False []), s)
              else if x_ser_cts L cipherText = [] then (Inl (Serialize_error ''CipherText serialization error''), s)
              else (Inr (ATextReturn True (x_ser_cts L cipherText)), s))
     | _ \<Rightarrow> wrong_method s) \<rparr>"

definition a_PartialCipherTextWaitClientRequestServicer :: "('cc, 'ct) adj_servicer" where
  "a_PartialCipherTextWaitClientRequestServicer = \<lparr> sv_method = 18, sv_process = (\<lambda>request s.
     case request of
       APartialCipherTextsReceivedWait cid \<Rightarrow>
         (case idx False (a_CTRecdFlag s) cid of
            (CTRecdval, fm) \<Rightarrow> (Inr (AFlagReturn CTRecdval), s\<lparr>a_CTRecdFlag := fm\<rparr>))
     | _ \<Rightarrow> wrong_method s) \<rparr>"

definition adj_servicers :: "('cc, 'pk, 'sk, 'ek, 'es, 'ct, 'pt) adj_lib \<Rightarrow> ('cc, 'ct) adj_servicer list" where
  \<comment> \<open>the objects HandleRpcs creates, in its order\<close>
  "adj_servicers L =
     [a_CryptoContextRequestServicer L,
      a_PublicKeyRequestServicer, a_PublicKeyToClientRequestServicer,
      a_EvalMultKeyRequestServicer, a_EvalMixMultKeyRequestServicer,
      a_EvalMultKeyToClientRequestServicer, a_EvalMixMultKeyToClientRequestServicer,
      a_CipherTextRequestServicer L, a_PartialCipherTextRequestServicer L,
      a_CipherTextToClientRequestServicer L, a_PartialCipherTextToClientRequestServicer L,
      a_PartialCipherTextWaitClientRequestServicer,
      a_CryptoContextToControllerRequestServicer L, a_PublicKeyToControllerRequestServicer,
      a_EvalMultKeyToControllerRequestServicer]"

definition adj_state0 :: "('cc, 'pk, 'sk, 'ek, 'es, 'ct, 'pt) adj_lib \<Rightarrow> ('cc, 'ct) adj_state" where
  \<comment> \<open>after HandleRpcs created its objects\<close>
  "adj_state0 L = a_initializeCC L \<lparr> a_cc = None, a_Ciphertexts = Map.empty, a_PartialCiphertexts = Map.empty,
     a_CTRecdFlag = Map.empty, a_PublicKeys = Map.empty, a_PublicKeysReady = Map.empty,
     a_EvalKeyMultsReady = Map.empty, a_EvalKeyMixMultsReady = Map.empty, a_EvalKeyMults = Map.empty,
     a_EvalKeyMixMults = Map.empty \<rparr>"

definition adj_Run ::
  "('cc, 'pk, 'sk, 'ek, 'es, 'ct, 'pt) adj_lib \<Rightarrow> adj_request event list
   \<Rightarrow> unit result \<times> (('cc, 'ct) adj_state, nat, adj_request, adj_reply) server" where
  "adj_Run L evs = HandleRpcs adj_method (adj_servicers L) evs (start (adj_servicers L) (adj_state0 L))"

definition adj_handler :: "('cc, 'pk, 'sk, 'ek, 'es, 'ct, 'pt) adj_lib \<Rightarrow> (('cc, 'ct) adj_state, adj_request, adj_reply) handler" where
  \<comment> \<open>the server's reply to a request of any method\<close>
  "adj_handler L = dispatch adj_method (adj_servicers L)"

lemmas adj_servicer_defs =
  a_CryptoContextRequestServicer_def a_CryptoContextToControllerRequestServicer_def a_PublicKeyRequestServicer_def
  a_PublicKeyToClientRequestServicer_def a_PublicKeyToControllerRequestServicer_def a_EvalMultKeyRequestServicer_def
  a_EvalMultKeyToClientRequestServicer_def a_EvalMixMultKeyRequestServicer_def a_EvalMixMultKeyToClientRequestServicer_def
  a_EvalMultKeyToControllerRequestServicer_def a_CipherTextRequestServicer_def a_CipherTextToClientRequestServicer_def
  a_PartialCipherTextRequestServicer_def a_PartialCipherTextToClientRequestServicer_def a_PartialCipherTextWaitClientRequestServicer_def

lemma adj_methods_distinct: "distinct (methods (adj_servicers L))"
  by (simp add: methods_def adj_servicers_def adj_servicer_defs)

lemma adj_method_known: "adj_method q \<in> set (methods (adj_servicers L))"
  by (cases q) (simp_all add: methods_def adj_servicers_def adj_servicer_defs)

lemma adj_handler_simps:
  "adj_handler L ACryptoContextFromServer = sv_process (a_CryptoContextRequestServicer L) ACryptoContextFromServer"
  "adj_handler L (APublicKeyFromClient b i) = sv_process a_PublicKeyRequestServicer (APublicKeyFromClient b i)"
  "adj_handler L (APublicKeyToClient i) = sv_process a_PublicKeyToClientRequestServicer (APublicKeyToClient i)"
  "adj_handler L (AevalMultKeyFromClient b i) = sv_process a_EvalMultKeyRequestServicer (AevalMultKeyFromClient b i)"
  "adj_handler L (AevalMultKeyToClient i) = sv_process a_EvalMultKeyToClientRequestServicer (AevalMultKeyToClient i)"
  "adj_handler L (AevalMixMultKeyFromClient b i) = sv_process a_EvalMixMultKeyRequestServicer (AevalMixMultKeyFromClient b i)"
  "adj_handler L (AevalMixMultKeyToClient i) = sv_process a_EvalMixMultKeyToClientRequestServicer (AevalMixMultKeyToClient i)"
  "adj_handler L (ACipherTextFromClient b i) = sv_process (a_CipherTextRequestServicer L) (ACipherTextFromClient b i)"
  "adj_handler L (ACipherTextToClient i) = sv_process (a_CipherTextToClientRequestServicer L) (ACipherTextToClient i)"
  "adj_handler L (APartialCipherTextFromClient b i) = sv_process (a_PartialCipherTextRequestServicer L) (APartialCipherTextFromClient b i)"
  "adj_handler L (APartialCipherTextToClient i) = sv_process (a_PartialCipherTextToClientRequestServicer L) (APartialCipherTextToClient i)"
  "adj_handler L (APartialCipherTextsReceivedWait i) = sv_process a_PartialCipherTextWaitClientRequestServicer (APartialCipherTextsReceivedWait i)"
  "adj_handler L ACryptoContextRequestFromServer_Controller = sv_process (a_CryptoContextToControllerRequestServicer L) ACryptoContextRequestFromServer_Controller"
  "adj_handler L (AJointPublicKeyToController i) = sv_process a_PublicKeyToControllerRequestServicer (AJointPublicKeyToController i)"
  "adj_handler L (AEvalMultKeyToController i) = sv_process a_EvalMultKeyToControllerRequestServicer (AEvalMultKeyToController i)"
  by (simp_all add: adj_handler_def dispatch_def adj_servicers_def adj_servicer_defs)

lemmas adj_step = adj_handler_simps adj_servicer_defs a_pubkey_reply_def a_mixkey_reply_def a_send_context_def
  a_initializeCC_def idx_eq Let_def wrong_method_def

end
