(* ===== verification/Adj_Controller.thy ===== *)
theory Adj_Controller
  imports Adj_Server
begin

text \<open>
  The controller of the adjacent measurement demo (\<^verbatim>\<open>controller.h\<close>, \<^verbatim>\<open>controller_cipher_text_from_client_request.h\<close>,
  \<^verbatim>\<open>thresh_controller_internal_client.h\<close>): the client of the key server it uses while it serves a request, its
  one servicer, which masks a ciphertext with the random vector of the measurement, and its start. The state of an
  action is the controller's own and whatever the calls to the key server change. \<^verbatim>\<open>rand\<close> is the sequence of
  the values of \<^verbatim>\<open>std::rand()\<close>, of which the controller counts how many it has drawn.
\<close>

type_synonym 'w key_server = "adj_request \<Rightarrow> 'w \<Rightarrow> (string + adj_reply) \<times> 'w"

section \<open>The internal client\<close>

definition key_call :: "'w key_server \<Rightarrow> adj_request \<Rightarrow> ('w, adj_reply) act" where
  \<comment> \<open>if (!status.ok()) OPENFHE_THROW(openfhe_error, status.error_message())\<close>
  "key_call ks q w = (case ks q w of (Inl m, w') \<Rightarrow> (Inl (Openfhe_error m), w') | (Inr p, w') \<Rightarrow> (Inr p, w'))"

definition i_CryptoContextRequestFromServer_Controller :: "'w key_server \<Rightarrow> ('w, bytes) act" where
  "i_CryptoContextRequestFromServer_Controller ks =
     abind (key_call ks ACryptoContextRequestFromServer_Controller) (\<lambda>reply.
       case reply of ACryptoContextReturn cryptocontext \<Rightarrow> ret cryptocontext | _ \<Rightarrow> throw (Undefined ''reply of another method''))"

definition i_JointPublicKeyToController :: "'w key_server \<Rightarrow> bytes \<Rightarrow> u32 \<Rightarrow> ('w, bool \<times> bytes) act" where
  \<comment> \<open>asks for the key of the last client\<close>
  "i_JointPublicKeyToController ks pkey parties =
     abind (key_call ks (AJointPublicKeyToController parties)) (\<lambda>reply.
       case reply of AKeyReturn available value \<Rightarrow> ret (available, if available then value else pkey)
       | _ \<Rightarrow> throw (Undefined ''reply of another method''))"

definition i_EvalMultKeyToController :: "'w key_server \<Rightarrow> bytes \<Rightarrow> ('w, bool \<times> bytes) act" where
  \<comment> \<open>no client id is set\<close>
  "i_EvalMultKeyToController ks ekey =
     abind (key_call ks (AEvalMultKeyToController 0)) (\<lambda>reply.
       case reply of AKeyReturn available value \<Rightarrow> ret (available, if available then value else ekey)
       | _ \<Rightarrow> throw (Undefined ''reply of another method''))"

section \<open>The controller\<close>

record ('cc, 'pt) ctl_state =
  controllercc :: 'cc
  random_s :: "u32 \<rightharpoonup> 'pt option"
  drawn :: nat

definition ctl_init :: "('cc, 'pk, 'sk, 'ek, 'es, 'ct, 'pt) adj_lib \<Rightarrow> 'w key_server \<Rightarrow> ('w, ('cc, 'pt) ctl_state) act" where
  \<comment> \<open>Run, up to the main loop\<close>
  "ctl_init L ks =
     abind (i_CryptoContextRequestFromServer_Controller ks) (\<lambda>reply_cryptocontext.
     abind (require (reply_cryptocontext \<noteq> []) (Openfhe_error ''Received empty serialized CryptoContext'')) (\<lambda>_.
     abind (lift_r (x_deser_cc L reply_cryptocontext)) (\<lambda>c.
       case c of None \<Rightarrow> throw (Deserialize_error ''De-serialized CryptoContext is NULL'')
       | Some c \<Rightarrow> ret \<lparr> controllercc = c, random_s = Map.empty, drawn = 0 \<rparr>)))"

definition with_ks :: "('w, 'a) act \<Rightarrow> ('s \<times> 'w, 'a) act" where
  \<comment> \<open>an action of the internal client\<close>
  "with_ks m = (\<lambda>(s, w). case m w of (r, w') \<Rightarrow> (r, (s, w')))"

definition ctl_mask ::
  "('cc, 'pk, 'sk, 'ek, 'es, 'ct, 'pt) adj_lib \<Rightarrow> (nat \<Rightarrow> nat) \<Rightarrow> u32 \<Rightarrow> ('cc, 'pt) ctl_state \<Rightarrow> 'pt result \<times> ('cc, 'pt) ctl_state" where
  \<comment> \<open>plainrandom_s: rs[measure_id], made of the next twelve random numbers when it is null\<close>
  "ctl_mask L rand mid s =
     (case idx None (random_s s) mid of
        (p, rs) \<Rightarrow>
          let s = s\<lparr>random_s := rs\<rparr> in
          (case p of
             None \<Rightarrow>
               let plaintextModulus = x_PlaintextModulus L (controllercc s);
                   random_svec = map (\<lambda>i. int (rand (drawn s + i) mod plaintextModulus)) [0..<12];
                   s = s\<lparr>drawn := drawn s + 12\<rparr>
               in (case x_MakePackedPlaintext L (controllercc s) random_svec of
                     Inl e \<Rightarrow> (Inl e, s)
                   | Inr plainrandom_s \<Rightarrow> (Inr plainrandom_s, s\<lparr>random_s := (random_s s)(mid \<mapsto> Some plainrandom_s)\<rparr>))
           | Some plainrandom_s \<Rightarrow> (Inr plainrandom_s, s)))"

definition with_own :: "('s \<Rightarrow> 'a result \<times> 's) \<Rightarrow> ('s \<times> 'w, 'a) act" where
  \<comment> \<open>an action on the controller's own state\<close>
  "with_own m = (\<lambda>(s, w). case m s of (r, s') \<Rightarrow> (r, (s', w)))"

definition ControllerCipherTextRequestServicer ::
  "('cc, 'pk, 'sk, 'ek, 'es, 'ct, 'pt) adj_lib \<Rightarrow> (nat \<Rightarrow> nat) \<Rightarrow> u32 \<Rightarrow> 'w key_server \<Rightarrow> bytes \<Rightarrow> u32
   \<Rightarrow> (('cc, 'pt) ctl_state \<times> 'w, bytes) act" where
  \<comment> \<open>Proceed, for the ciphertext and the measure id of a request: maskedctext\<close>
  "ControllerCipherTextRequestServicer L rand parties ks ctext mid =
     abind (require (ctext \<noteq> []) (Openfhe_error ''Received empty cipher text buffer'')) (\<lambda>_.
     abind (lift_r (x_deser_ct L ctext)) (\<lambda>ct.
     case ct of
       None \<Rightarrow> throw (Deserialize_error ''De-serialized ciphertext is NULL'')
     | Some ct \<Rightarrow>
         abind (with_ks (i_JointPublicKeyToController ks [] parties)) (\<lambda>(_, reply_publickeyclient).
         abind (with_ks (i_EvalMultKeyToController ks [])) (\<lambda>(_, reply_evalmultkey).
         abind (require (reply_publickeyclient \<noteq> []) (Openfhe_error ''Received empty serialized public key'')) (\<lambda>_.
         abind (lift_r (k_deser_pk (x_keys L) reply_publickeyclient)) (\<lambda>FinalPubKey.
         abind (require (reply_evalmultkey \<noteq> []) (Openfhe_error ''Received empty evalmult key'')) (\<lambda>_.
         abind (lift_r (k_deser_ek (x_keys L) reply_evalmultkey)) (\<lambda>EvalMultKey.
         abind (with_own (ctl_mask L rand mid)) (\<lambda>plainrandom_s.
         abind (with_own (\<lambda>s.
           let encryptedrandom_s = x_Encrypt L (controllercc s) FinalPubKey plainrandom_s;
               s = s\<lparr>controllercc := x_InsertEvalMultKey L (controllercc s) [EvalMultKey]\<rparr>
           in (Inr (x_EvalMult L (controllercc s) encryptedrandom_s ct), s))) (\<lambda>maskedCText.
         let os = x_ser_ct L maskedCText in
         abind (require (os \<noteq> []) (Serialize_error ''CipherText serialization error'')) (\<lambda>_. ret os)))))))))))"

section \<open>Both servers\<close>

datatype adj_call =
    ToServer adj_request
  | ToController bytes u32

datatype adj_answer =
    FromServer adj_reply
  | FromController bytes

record ('cc, 'ct, 'pt) adj_world =
  w_ks :: "('cc, 'ct) adj_state"
  w_ks_up :: bool
  w_ctl :: "('cc, 'pt) ctl_state"
  w_ctl_up :: bool

definition ks_call :: "('cc, 'pk, 'sk, 'ek, 'es, 'ct, 'pt) adj_lib \<Rightarrow> (('cc, 'ct) adj_state \<times> bool) key_server" where
  \<comment> \<open>a call to the key server: an exception ends it, and a call to a server that has ended fails\<close>
  "ks_call L q = (\<lambda>(s, up).
     if \<not> up then (Inl ''UNAVAILABLE'', (s, False))
     else (case adj_handler L q s of (Inl e, s') \<Rightarrow> (Inl ''UNAVAILABLE'', (s', False)) | (Inr p, s') \<Rightarrow> (Inr p, (s', True))))"

definition adj_exec ::
  "('cc, 'pk, 'sk, 'ek, 'es, 'ct, 'pt) adj_lib \<Rightarrow> ('cc, 'pk, 'sk, 'ek, 'es, 'ct, 'pt) adj_lib \<Rightarrow> (nat \<Rightarrow> nat) \<Rightarrow> u32
   \<Rightarrow> adj_call \<Rightarrow> ('cc, 'ct, 'pt) adj_world \<Rightarrow> (string + adj_answer) \<times> ('cc, 'ct, 'pt) adj_world" where
  \<comment> \<open>a client's call to one of the servers; the controller finishes a request before the key server serves other clients\<close>
  "adj_exec S L rand parties call w =
     (case call of
        ToServer q \<Rightarrow>
          (case ks_call S q (w_ks w, w_ks_up w) of
             (r, s, up) \<Rightarrow> (case r of Inl m \<Rightarrow> Inl m | Inr p \<Rightarrow> Inr (FromServer p), w\<lparr>w_ks := s, w_ks_up := up\<rparr>))
      | ToController ctext mid \<Rightarrow>
          if \<not> w_ctl_up w then (Inl ''UNAVAILABLE'', w)
          else (case ControllerCipherTextRequestServicer L rand parties (ks_call S) ctext mid (w_ctl w, w_ks w, w_ks_up w) of
                  (r, cs, s, up) \<Rightarrow>
                    (case r of Inl e \<Rightarrow> (Inl ''UNAVAILABLE'', w\<lparr>w_ks := s, w_ks_up := up, w_ctl := cs, w_ctl_up := False\<rparr>)
                     | Inr os \<Rightarrow> (Inr (FromController os), w\<lparr>w_ks := s, w_ks_up := up, w_ctl := cs\<rparr>))))"

section \<open>An early ciphertext\<close>

lemma ks_call_simps [simp]: "ks_call L q (s, False) = (Inl ''UNAVAILABLE'', (s, False))"
  by (simp add: ks_call_def)

definition ks_keys :: "('cc, 'ct) adj_state \<Rightarrow> u32 \<Rightarrow> bytes \<times> bytes" where
  \<comment> \<open>what the controller gets: the public key of the last client and the evaluation key of the first, empty when not ready\<close>
  "ks_keys s parties =
     (if idx_val False (a_PublicKeysReady s) parties then idx_val [] (a_PublicKeys s) parties else [],
      if idx_val False (a_EvalKeyMixMultsReady s) 1 then idx_val [] (a_EvalKeyMixMults s) 1 else [])"

lemma ctl_gets_keys:
  "\<exists>w'. with_ks (i_JointPublicKeyToController (ks_call S) [] parties) (cs, s, True)
      = (Inr (idx_val False (a_PublicKeysReady s) parties, fst (ks_keys s parties)), (cs, w', True))
    \<and> (\<exists>u. with_ks (i_EvalMultKeyToController (ks_call S) []) (cs, w', True)
      = (Inr (idx_val False (a_EvalKeyMixMultsReady s) 1, snd (ks_keys s parties)), (cs, u, True)))"
proof -
  let ?s = "s\<lparr>a_PublicKeysReady := idx_map False (a_PublicKeysReady s) parties\<rparr>"
  define w' where "w' = (if idx_val False (a_PublicKeysReady s) parties then ?s\<lparr>a_PublicKeys := idx_map [] (a_PublicKeys s) parties\<rparr> else ?s)"
  have "with_ks (i_JointPublicKeyToController (ks_call S) [] parties) (cs, s, True)
      = (Inr (idx_val False (a_PublicKeysReady s) parties, fst (ks_keys s parties)), (cs, w', True))"
    by (simp add: with_ks_def i_JointPublicKeyToController_def key_call_def ks_call_def adj_step abind_def ks_keys_def w'_def)
  moreover have "\<exists>u. with_ks (i_EvalMultKeyToController (ks_call S) []) (cs, w', True)
      = (Inr (idx_val False (a_EvalKeyMixMultsReady s) 1, snd (ks_keys s parties)), (cs, u, True))"
    by (simp add: with_ks_def i_EvalMultKeyToController_def key_call_def ks_call_def adj_step abind_def ks_keys_def w'_def)
  ultimately show ?thesis by blast
qed

end
