(* ===== verification/Adj_Client.thy ===== *)
theory Adj_Client
  imports Adj_Controller Prog Measure_Main
begin

text \<open>
  The client of the adjacent measurement demo: the stubs of \<^verbatim>\<open>ThreshClient\<close> (\<^verbatim>\<open>thresh_client.h\<close>), \<^verbatim>\<open>genCT\<close>, and the
  program (\<^verbatim>\<open>targets/thresh_client_measure.cpp\<close>), one definition per phase. The result of the program is the list of
  the indices at which it reports a difference. \<^verbatim>\<open>input\<close> is the content of the input file, None when it cannot be
  opened. Pauses, timings, debug files and output are left out.
\<close>

section \<open>The stubs\<close>

type_synonym 'a adj_prog = "(adj_call, adj_answer, 'a) prog"

definition server_rpc :: "adj_request \<Rightarrow> (adj_reply \<Rightarrow> 'a result) \<Rightarrow> 'a adj_prog" where
  "server_rpc q read = call_rpc (ToServer q) (\<lambda>r. case r of FromServer reply \<Rightarrow> read reply | _ \<Rightarrow> wrong_reply)"

definition ack_reply :: "adj_reply \<Rightarrow> string result" where
  "ack_reply reply = (case reply of AAck ackn \<Rightarrow> Inr ackn | _ \<Rightarrow> wrong_reply)"

definition keyed :: "bytes \<Rightarrow> adj_reply \<Rightarrow> (bool \<times> bytes) result" where
  \<comment> \<open>if (reply.keyavailable()) key = reply...; return reply.keyavailable()\<close>
  "keyed old reply = (case reply of AKeyReturn available value \<Rightarrow> Inr (available, if available then value else old) | _ \<Rightarrow> wrong_reply)"

definition texted :: "bytes \<Rightarrow> adj_reply \<Rightarrow> (bool \<times> bytes) result" where
  "texted old reply = (case reply of ATextReturn available value \<Rightarrow> Inr (available, if available then value else old) | _ \<Rightarrow> wrong_reply)"

definition t_CryptoContextFromServer :: "bytes adj_prog" where
  "t_CryptoContextFromServer = server_rpc ACryptoContextFromServer (\<lambda>reply.
     case reply of ACryptoContextReturn cryptocontext \<Rightarrow> Inr cryptocontext | _ \<Rightarrow> wrong_reply)"

definition t_PublicKeyFromClient :: "bytes \<Rightarrow> u32 \<Rightarrow> string adj_prog" where
  "t_PublicKeyFromClient pkey cid = server_rpc (APublicKeyFromClient pkey cid) ack_reply"

definition t_PublicKeyToClient :: "bytes \<Rightarrow> u32 \<Rightarrow> (bool \<times> bytes) adj_prog" where
  "t_PublicKeyToClient pkey cid = server_rpc (APublicKeyToClient cid) (keyed pkey)"

definition t_evalMultKeyFromClient :: "bytes \<Rightarrow> u32 \<Rightarrow> string adj_prog" where
  "t_evalMultKeyFromClient ekey cid = server_rpc (AevalMultKeyFromClient ekey cid) ack_reply"

definition t_evalMixMultKeyFromClient :: "bytes \<Rightarrow> u32 \<Rightarrow> string adj_prog" where
  "t_evalMixMultKeyFromClient ekey cid = server_rpc (AevalMixMultKeyFromClient ekey cid) ack_reply"

definition t_evalMultKeyToClient :: "bytes \<Rightarrow> u32 \<Rightarrow> (bool \<times> bytes) adj_prog" where
  "t_evalMultKeyToClient ekey cid = server_rpc (AevalMultKeyToClient cid) (keyed ekey)"

definition t_evalMixMultKeyToClient :: "bytes \<Rightarrow> u32 \<Rightarrow> (bool \<times> bytes) adj_prog" where
  "t_evalMixMultKeyToClient ekey cid = server_rpc (AevalMixMultKeyToClient cid) (keyed ekey)"

definition t_CipherTextFromClient :: "bytes \<Rightarrow> u32 \<Rightarrow> string adj_prog" where
  "t_CipherTextFromClient cText cid = server_rpc (ACipherTextFromClient cText cid) ack_reply"

definition t_CipherTextFromClientToController :: "bytes \<Rightarrow> u32 \<Rightarrow> bytes adj_prog" where
  "t_CipherTextFromClientToController cText mid = call_rpc (ToController cText mid) (\<lambda>r.
     case r of FromController maskedctext \<Rightarrow> Inr maskedctext | _ \<Rightarrow> wrong_reply)"

definition t_CipherTextToClient :: "bytes \<Rightarrow> u32 \<Rightarrow> (bool \<times> bytes) adj_prog" where
  "t_CipherTextToClient cText cid = server_rpc (ACipherTextToClient cid) (texted cText)"

definition t_PartialCipherTextFromClient :: "bytes \<Rightarrow> u32 \<Rightarrow> string adj_prog" where
  "t_PartialCipherTextFromClient cText cid = server_rpc (APartialCipherTextFromClient cText cid) ack_reply"

definition t_PartialCipherTextsReceivedWait :: "u32 \<Rightarrow> bool adj_prog" where
  "t_PartialCipherTextsReceivedWait cid = server_rpc (APartialCipherTextsReceivedWait cid) (\<lambda>reply.
     case reply of AFlagReturn textavailable \<Rightarrow> Inr textavailable | _ \<Rightarrow> wrong_reply)"

definition t_PartialCipherTextToClient :: "bytes \<Rightarrow> u32 \<Rightarrow> (bool \<times> bytes) adj_prog" where
  "t_PartialCipherTextToClient cText cid = server_rpc (APartialCipherTextToClient cid) (texted cText)"

definition t_genCT :: "('cc, 'pk, 'sk, 'ek, 'es, 'ct, 'pt) adj_lib \<Rightarrow> 'cc \<Rightarrow> 'pk \<Rightarrow> string option \<Rightarrow> 'ct result" where
  "t_genCT L c publicKey input =
     (if x_PlaintextModulus L c < 65536
      then Inl (Math_error (''code is designed for plaintextModulus>=65536; modulus is '' @ digits_of (x_PlaintextModulus L c)))
      else case input of
             None \<Rightarrow> Inl (Exit_failure ''Unable to open input file'')
           | Some text \<Rightarrow> rbind (x_MakePackedPlaintext L c (read_ints text)) (\<lambda>pt. Inr (x_Encrypt L c publicKey pt)))"

section \<open>Context and keys\<close>

definition a_guard :: "bool \<Rightarrow> error \<Rightarrow> unit adj_prog" where
  \<comment> \<open>if (!ok) OPENFHE_THROW(e)\<close>
  "a_guard ok e = (if ok then pret () else pthrow e)"

definition a_received :: "string \<Rightarrow> (bytes \<Rightarrow> 'v result) \<Rightarrow> bytes \<Rightarrow> 'v adj_prog" where
  \<comment> \<open>a polled buffer: an exception when it is empty, otherwise deserialised\<close>
  "a_received what deser s = pbind (a_guard (s \<noteq> []) (Openfhe_error (''Received empty serialized '' @ what))) (\<lambda>_. plift (deser s))"

definition a_serialized :: "string \<Rightarrow> bytes \<Rightarrow> bytes adj_prog" where
  "a_serialized what os = pbind (a_guard (os \<noteq> []) (Serialize_error (''Serialized '' @ what @ '' is empty''))) (\<lambda>_. pret os)"

definition a_get_context :: "('cc, 'pk, 'sk, 'ek, 'es, 'ct, 'pt) adj_lib \<Rightarrow> 'cc adj_prog" where
  "a_get_context L =
     pbind t_CryptoContextFromServer (\<lambda>ser.
     pbind (a_received ''CryptoContext'' (x_deser_cc L) ser) (\<lambda>c.
       case c of None \<Rightarrow> pthrow (Deserialize_error ''De-serialized CryptoContext is NULL'') | Some c \<Rightarrow> pret (x_ClearKeys L c)))"

definition a_keygen ::
  "('cc, 'pk, 'sk, 'ek, 'es, 'ct, 'pt) adj_lib \<Rightarrow> 'cc \<Rightarrow> u32 \<Rightarrow> u32 \<Rightarrow> (('pk \<times> 'sk) \<times> 'pk) adj_prog" where
  \<comment> \<open>the client's key pair and the final public key\<close>
  "a_keygen L c cid parties =
     (let K = x_keys L in
     pbind (if cid = 1 then pret (k_KeyGen K c)
            else pbind (poll (\<lambda>s. t_PublicKeyToClient s (cid - 1))) (\<lambda>ser.
                 pbind (a_received ''public key'' (k_deser_pk K) ser) (\<lambda>prevPubKey.
                   pret (k_MultipartyKeyGen K c prevPubKey)))) (\<lambda>keyPair.
     pbind (a_serialized ''public key'' (k_ser_pk K (fst keyPair))) (\<lambda>ospKey.
     pbind (t_PublicKeyFromClient ospKey cid) (\<lambda>_.
     if cid \<noteq> parties
     then pbind (poll (\<lambda>s. t_PublicKeyToClient s parties)) (\<lambda>ser.
          pbind (a_received ''final public key'' (k_deser_pk K) ser) (\<lambda>FinalPubKey. pret (keyPair, FinalPubKey)))
     else pret (keyPair, fst keyPair)))))"

definition a_first_evalmult ::
  "('cc, 'pk, 'sk, 'ek, 'es, 'ct, 'pt) adj_lib \<Rightarrow> 'cc \<Rightarrow> u32 \<Rightarrow> u32 \<Rightarrow> 'pk \<times> 'sk \<Rightarrow> 'pk \<Rightarrow> unit adj_prog" where
  \<comment> \<open>the sum of the parts of the clients so far; the last client begins the way back\<close>
  "a_first_evalmult L c cid parties keyPair FinalPubKey =
     (let K = x_keys L in
      if cid = 1
      then pbind (a_serialized ''public key'' (k_ser_ek K (k_KeySwitchGen K c (snd keyPair) (snd keyPair)))) (\<lambda>evKey.
           pbind (t_evalMultKeyFromClient evKey cid) (\<lambda>_. pret ()))
      else if cid \<le> parties \<and> cid > 1
      then pbind (poll (\<lambda>s. t_evalMultKeyToClient s (cid - 1))) (\<lambda>ser.
           pbind (a_received ''previous client evalmult key'' (k_deser_ek K) ser) (\<lambda>PrevevalMultKey.
           let evalMultKey = k_MultiKeySwitchGen K c (snd keyPair) (snd keyPair) PrevevalMultKey;
               evalMultPrevandCurrent = k_MultiAddEvalKeys K c PrevevalMultKey evalMultKey (k_KeyTag K (fst keyPair))
           in pbind (a_serialized ''eval key'' (k_ser_ek K evalMultPrevandCurrent)) (\<lambda>evKey.
              pbind (t_evalMultKeyFromClient evKey cid) (\<lambda>_.
              if cid = parties
              then pbind (a_serialized ''evalmultfinal key''
                     (k_ser_ek K (k_MultiMultEvalKey K c (snd keyPair) evalMultPrevandCurrent (k_KeyTag K FinalPubKey)))) (\<lambda>evmmKey.
                   pbind (t_evalMixMultKeyFromClient evmmKey cid) (\<lambda>_. pret ()))
              else pret ()))))
      else pret ())"

definition a_second_evalmult ::
  "('cc, 'pk, 'sk, 'ek, 'es, 'ct, 'pt) adj_lib \<Rightarrow> 'cc \<Rightarrow> u32 \<Rightarrow> u32 \<Rightarrow> 'pk \<times> 'sk \<Rightarrow> 'pk \<Rightarrow> 'cc adj_prog" where
  \<comment> \<open>back from the last client to the first, which inserts the result; the context\<close>
  "a_second_evalmult L c cid parties keyPair FinalPubKey =
     (let K = x_keys L in
      if cid \<noteq> parties
      then pbind (poll (\<lambda>s. t_evalMultKeyToClient s parties)) (\<lambda>serAll.
           pbind (a_received ''evalmultall key'' (k_deser_ek K) serAll) (\<lambda>evalMultAll.
           pbind (poll (\<lambda>s. t_evalMixMultKeyToClient s (cid + 1))) (\<lambda>serMix.
           pbind (a_received ''PrevevalMixMultKey key'' (k_deser_ek K) serMix) (\<lambda>PrevevalMixMultKey.
           let evalMultKeyskAll = k_MultiMultEvalKey K c (snd keyPair) evalMultAll (k_KeyTag K FinalPubKey);
               evalMultAddskAll = k_MultiAddEvalMultKeys K c evalMultKeyskAll PrevevalMixMultKey (k_KeyTag K FinalPubKey)
           in pbind (a_serialized ''evalmultfinal key'' (k_ser_ek K evalMultAddskAll)) (\<lambda>evmmKey.
              pbind (t_evalMixMultKeyFromClient evmmKey cid) (\<lambda>_.
                pret (if cid = 1 then x_InsertEvalMultKey L c [evalMultAddskAll] else c)))))))
      else pret c)"

definition a_evalmult ::
  "('cc, 'pk, 'sk, 'ek, 'es, 'ct, 'pt) adj_lib \<Rightarrow> 'cc \<Rightarrow> u32 \<Rightarrow> u32 \<Rightarrow> 'pk \<times> 'sk \<Rightarrow> 'pk \<Rightarrow> 'cc adj_prog" where
  "a_evalmult L c cid parties keyPair FinalPubKey =
     pbind (a_first_evalmult L c cid parties keyPair FinalPubKey) (\<lambda>_.
     pbind (a_second_evalmult L c cid parties keyPair FinalPubKey) (\<lambda>c'.
     if cid \<noteq> 1
     then pbind (poll (\<lambda>s. t_evalMixMultKeyToClient s 1)) (\<lambda>ser.
          pbind (a_received ''evalmultfinal key'' (k_deser_ek (x_keys L)) ser) (\<lambda>evalMultFinal.
            pret (x_InsertEvalMultKey L c' [evalMultFinal])))
     else pret c'))"

section \<open>Ciphertexts\<close>

definition a_party_ids :: "u32 \<Rightarrow> u32 list" where
  \<comment> \<open>for (uint32_t i = 1; i <= Num_of_parties; i++)\<close>
  "a_party_ids parties = map of_nat [1..<Suc (unat parties)]"

fun a_collect_cts ::
  "('cc, 'pk, 'sk, 'ek, 'es, 'ct, 'pt) adj_lib \<Rightarrow> u32 \<Rightarrow> 'ct option \<Rightarrow> u32 list \<Rightarrow> 'ct option list adj_prog" where
  \<comment> \<open>CipherTexts\<close>
  "a_collect_cts L cid own [] = pret []"
| "a_collect_cts L cid own (i # is) =
     pbind (if cid \<noteq> i
            then pbind (poll (\<lambda>s. t_CipherTextToClient s i)) (\<lambda>ser.
                 pbind (a_received ''cipher text result'' (x_deser_ct L) ser) (\<lambda>ClientCT.
                   if ClientCT = None then pthrow (Deserialize_error ''De-serialized client ciphertext is NULL'')
                   else pret ClientCT))
            else pret own) (\<lambda>ct.
     pbind (a_collect_cts L cid own is) (\<lambda>cts. pret (ct # cts)))"

definition a_exchange ::
  "('cc, 'pk, 'sk, 'ek, 'es, 'ct, 'pt) adj_lib \<Rightarrow> 'cc \<Rightarrow> u32 \<Rightarrow> u32 \<Rightarrow> u32 \<Rightarrow> 'pk \<Rightarrow> string option \<Rightarrow> 'ct option list adj_prog" where
  \<comment> \<open>the ciphertext, masked by the controller, to the server; those of all clients\<close>
  "a_exchange L c cid mid parties FinalPubKey input =
     pbind (plift (t_genCT L c FinalPubKey input)) (\<lambda>cipherText.
     pbind (a_serialized ''cipher text'' (x_ser_ct L cipherText)) (\<lambda>osCT.
     pbind (t_CipherTextFromClientToController osCT mid) (\<lambda>controllerct.
     pbind (plift (x_deser_ct L controllerct)) (\<lambda>controllerCipherText.
     pbind (t_CipherTextFromClient controllerct cid) (\<lambda>_.
       a_collect_cts L cid controllerCipherText (a_party_ids parties))))))"

fun sub_loop :: "('cc, 'pk, 'sk, 'ek, 'es, 'ct, 'pt) adj_lib \<Rightarrow> 'cc \<Rightarrow> 'ct option \<Rightarrow> 'ct option list \<Rightarrow> 'ct option result" where
  \<comment> \<open>for (uint32_t i = 1; i < Num_of_parties; i++) resultCT = EvalSub(resultCT, CipherTexts[i])\<close>
  "sub_loop L c resultCT [] = Inr resultCT"
| "sub_loop L c resultCT (ct # cts) = rbind (x_EvalSub L c resultCT ct) (\<lambda>temp. sub_loop L c (Some temp) cts)"

definition a_result :: "('cc, 'pk, 'sk, 'ek, 'es, 'ct, 'pt) adj_lib \<Rightarrow> 'cc \<Rightarrow> 'ct option list \<Rightarrow> 'ct option result" where
  "a_result L c CipherTexts = rbind (at ''CipherTexts'' CipherTexts 0) (\<lambda>ct. sub_loop L c ct (tl CipherTexts))"

section \<open>Distributed decryption\<close>

fun a_collect_partials ::
  "('cc, 'pk, 'sk, 'ek, 'es, 'ct, 'pt) adj_lib \<Rightarrow> u32 \<Rightarrow> 'ct option list \<Rightarrow> u32 list \<Rightarrow> 'ct option list adj_prog" where
  \<comment> \<open>partialCiphertextVec\<close>
  "a_collect_partials L cid ciphertextPartial [] = pret []"
| "a_collect_partials L cid ciphertextPartial (i # is) =
     pbind (if cid \<noteq> i
            then pbind (poll (\<lambda>s. t_PartialCipherTextToClient s i)) (\<lambda>ser.
                 pbind (a_received ''mult partial cipher text result'' (x_deser_cts L) ser) (\<lambda>ciphertextPartial1.
                 pbind (plift (at ''ciphertextPartial1'' ciphertextPartial1 0)) (\<lambda>x.
                   if x = None then pthrow (Deserialize_error ''De-serialized mult partial ciphertext is NULL'') else pret x)))
            else plift (at ''ciphertextPartial'' ciphertextPartial 0)) (\<lambda>x.
     pbind (a_collect_partials L cid ciphertextPartial is) (\<lambda>v. pret (x # v)))"

definition a_decrypt ::
  "('cc, 'pk, 'sk, 'ek, 'es, 'ct, 'pt) adj_lib \<Rightarrow> 'cc \<Rightarrow> u32 \<Rightarrow> u32 \<Rightarrow> 'sk \<Rightarrow> 'ct option \<Rightarrow> nat list adj_prog" where
  \<comment> \<open>and the comparison: the indices at which a difference is reported\<close>
  "a_decrypt L c cid parties sk resultCT =
     pbind (plift (if cid = 1 then x_MultipartyDecryptLead L c [resultCT] sk
                   else x_MultipartyDecryptMain L c [resultCT] sk)) (\<lambda>ciphertextPartial.
     pbind (a_serialized ''partial cipher text'' (x_ser_cts L ciphertextPartial)) (\<lambda>osPartialCT.
     pbind (t_PartialCipherTextFromClient osPartialCT cid) (\<lambda>_.
     pbind (t_PartialCipherTextsReceivedWait cid) (\<lambda>PartialCTSent.
     pbind (if PartialCTSent then a_collect_partials L cid ciphertextPartial (a_party_ids parties)
            else pret (replicate (unat parties) None)) (\<lambda>partialCiphertextVec.
     pbind (plift (x_MultipartyDecryptFusion L c partialCiphertextVec)) (\<lambda>plaintextMultipartyNew.
       plift (differences (x_GetPackedValue L 12 plaintextMultipartyNew) [0..<12])))))))"

definition thresh_client_measure ::
  "('cc, 'pk, 'sk, 'ek, 'es, 'ct, 'pt) adj_lib \<Rightarrow> u32 \<Rightarrow> u32 \<Rightarrow> u32 \<Rightarrow> string option \<Rightarrow> nat list adj_prog" where
  "thresh_client_measure L cid mid parties input =
     pbind (a_get_context L) (\<lambda>c.
     pbind (a_keygen L c cid parties) (\<lambda>(keyPair, FinalPubKey).
     pbind (a_evalmult L c cid parties keyPair FinalPubKey) (\<lambda>c'.
     pbind (a_exchange L c' cid mid parties FinalPubKey input) (\<lambda>CipherTexts.
     pbind (plift (a_result L c' CipherTexts)) (\<lambda>resultCT.
       a_decrypt L c' cid parties (snd keyPair) resultCT)))))"

end
