(* ===== verification/Board.thy ===== *)
theory Board
  imports Prog
begin

text \<open>
  Client programs that communicate over a board: what one client posts under a key, the others poll for. Calls act
  on a world of several servers (\<open>sys_call\<close>). A program follows a script of posts, awaited keys and calls
  that rely on keys already there (\<open>scripted\<close>); if every awaited key is posted by some client that itself only
  waits for keys of lower rank before (\<open>scripts_ok\<close>), then every interleaving of the clients ends as the
  scripts say (\<open>board_outcome\<close>): polls that come too early change nothing.
\<close>

section \<open>Systems of several servers\<close>

record ('c, 'q, 'p, 'a, 'w) wsys =
  clients :: "'c \<rightharpoonup> ('q, 'p, 'a) prog"
  world :: 'w

inductive sys_call :: "('q \<Rightarrow> 'w \<Rightarrow> string + 'p \<Rightarrow> 'w \<Rightarrow> bool) \<Rightarrow> ('c, 'q, 'p, 'a, 'w) wsys \<Rightarrow> ('c, 'q, 'p, 'a, 'w) wsys \<Rightarrow> bool"
  for exec where
  called: "clients y c = Some (Call q k) \<Longrightarrow> exec q (world y) r w'
    \<Longrightarrow> sys_call exec y (y\<lparr>clients := (clients y)(c \<mapsto> k r), world := w'\<rparr>)"

definition call_reach ::
  "('q \<Rightarrow> 'w \<Rightarrow> string + 'p \<Rightarrow> 'w \<Rightarrow> bool) \<Rightarrow> ('c, 'q, 'p, 'a, 'w) wsys \<Rightarrow> ('c, 'q, 'p, 'a, 'w) wsys \<Rightarrow> bool" where
  "call_reach exec = (sys_call exec)\<^sup>*\<^sup>*"

lemma call_reach_refl [simp, intro]: "call_reach exec y y"
  by (simp add: call_reach_def)

lemma call_reach_step: "sys_call exec y u \<Longrightarrow> call_reach exec u z \<Longrightarrow> call_reach exec y z"
  unfolding call_reach_def by (rule converse_rtranclp_into_rtranclp)

lemma call_reach_induct [consumes 1, case_names start step]:
  assumes "call_reach exec y z" "P y" "\<And>u v. P u \<Longrightarrow> sys_call exec u v \<Longrightarrow> P v"
  shows "P z"
  using assms(1) unfolding call_reach_def by (induction rule: rtranclp_induct) (use assms(2,3) in auto)

section \<open>Scripts\<close>

datatype 'k item =
    Post 'k
  | Await 'k
  | Use "'k set"

fun posted :: "'k item list \<Rightarrow> 'k set" where
  "posted [] = {}"
| "posted (Post k # es) = insert k (posted es)"
| "posted (e # es) = posted es"

fun known :: "'k item list \<Rightarrow> 'k set" where
  \<comment> \<open>the keys a client has posted or seen\<close>
  "known [] = {}"
| "known (Post k # es) = insert k (known es)"
| "known (Await k # es) = insert k (known es)"
| "known (Use K # es) = known es"

fun ordered :: "('k \<Rightarrow> nat) \<Rightarrow> 'k item list \<Rightarrow> bool" where
  \<comment> \<open>an awaited key has a lower rank than the keys posted later\<close>
  "ordered lev [] = True"
| "ordered lev (Await k # es) = ((\<forall>k' \<in> posted es. lev k < lev k') \<and> ordered lev es)"
| "ordered lev (e # es) = ordered lev es"

fun guarded :: "'k set \<Rightarrow> 'k item list \<Rightarrow> bool" where
  \<comment> \<open>a call relies on keys that the client has posted or seen\<close>
  "guarded K [] = True"
| "guarded K (Post k # es) = guarded (insert k K) es"
| "guarded K (Await k # es) = guarded (insert k K) es"
| "guarded K (Use J # es) = (J \<subseteq> K \<and> guarded K es)"

fun awaited :: "'k item list \<Rightarrow> 'k set" where
  "awaited [] = {}"
| "awaited (Await k # es) = insert k (awaited es)"
| "awaited (e # es) = awaited es"

lemma script_append:
  "posted (xs @ ys) = posted xs \<union> posted ys" "known (xs @ ys) = known xs \<union> known ys"
  "awaited (xs @ ys) = awaited xs \<union> awaited ys"
  "ordered lev (xs @ ys) \<longleftrightarrow> ordered lev xs \<and> ordered lev ys \<and> (\<forall>k \<in> awaited xs. \<forall>k' \<in> posted ys. lev k < lev k')"
  "guarded K (xs @ ys) \<longleftrightarrow> guarded K xs \<and> guarded (K \<union> known xs) ys"
proof -
  show "posted (xs @ ys) = posted xs \<union> posted ys" by (induction xs rule: posted.induct) auto
  then show "ordered lev (xs @ ys) \<longleftrightarrow> ordered lev xs \<and> ordered lev ys \<and> (\<forall>k \<in> awaited xs. \<forall>k' \<in> posted ys. lev k < lev k')"
  proof (induction xs)
    case (Cons e xs)
    have "posted (xs @ ys) = posted xs \<union> posted ys" by (induction xs rule: posted.induct) auto
    then show ?case using Cons.IH by (cases e) auto
  qed simp
  show "known (xs @ ys) = known xs \<union> known ys" by (induction xs rule: known.induct) auto
  show "awaited (xs @ ys) = awaited xs \<union> awaited ys" by (induction xs rule: awaited.induct) auto
  show "guarded K (xs @ ys) \<longleftrightarrow> guarded K xs \<and> guarded (K \<union> known xs) ys"
    by (induction K xs rule: guarded.induct) (auto simp: Un_commute Un_assoc)
qed

definition scripts_ok :: "('k \<Rightarrow> nat) \<Rightarrow> 'c set \<Rightarrow> ('c \<Rightarrow> 'k item list) \<Rightarrow> bool" where
  "scripts_ok lev C S \<longleftrightarrow> finite C
     \<and> (\<forall>c \<in> C. ordered lev (S c) \<and> guarded {} (S c) \<and> awaited (S c) \<subseteq> (\<Union>c' \<in> C. posted (S c')))"

section \<open>Programs that follow a script\<close>

fun ready :: "'k set \<Rightarrow> 'k item \<Rightarrow> bool" where
  "ready B (Post k) = True"
| "ready B (Await k) = (k \<in> B)"
| "ready B (Use K) = (K \<subseteq> B)"

fun effect :: "'k item \<Rightarrow> 'k set \<Rightarrow> 'k set" where
  "effect (Post k) B = insert k B"
| "effect e B = B"

locale board =
  fixes exec :: "'q \<Rightarrow> 'w \<Rightarrow> string + 'p \<Rightarrow> 'w \<Rightarrow> bool" and on :: "'k set \<Rightarrow> 'w \<Rightarrow> bool"
    \<comment> \<open>the world has exactly these keys on the board, with the values that belong there\<close>
  assumes answers: "on B w \<Longrightarrow> \<exists>r w'. exec q w r w'"
begin

definition performs :: "('q, 'p, 'a) prog \<Rightarrow> 'k item \<Rightarrow> ('q, 'p, 'a) prog \<Rightarrow> bool" where
  \<comment> \<open>one call: done when the item is ready, and an awaited key that is not there is asked for again\<close>
  "performs p e p' \<longleftrightarrow> (\<exists>q k. p = Call q k \<and> (\<forall>B w r w'. on B w \<longrightarrow> exec q w r w' \<longrightarrow>
     (if ready B e then k r = p' \<and> on (effect e B) w'
      else (case e of Await _ \<Rightarrow> k r = p \<and> on B w' | _ \<Rightarrow> True))))"

inductive scripted :: "('q, 'p, 'a) prog \<Rightarrow> 'k item list \<Rightarrow> ('q, 'p, 'a) prog \<Rightarrow> bool" where
  scripted_end: "scripted p [] p"
| scripted_item: "performs p e p' \<Longrightarrow> scripted p' es p'' \<Longrightarrow> scripted p (e # es) p''"

inductive_cases scripted_NilE: "scripted p [] p'"
inductive_cases scripted_ConsE: "scripted p (e # es) p'"

lemma scripted_append: "scripted p xs p' \<Longrightarrow> scripted p' ys p'' \<Longrightarrow> scripted p (xs @ ys) p''"
  by (induction rule: scripted.induct) (auto intro: scripted_item)

lemma performsE:
  assumes "performs p e p'"
  obtains q k where "p = Call q k"
    "\<And>B w r w'. on B w \<Longrightarrow> exec q w r w' \<Longrightarrow> ready B e \<Longrightarrow> k r = p' \<and> on (effect e B) w'"
    "\<And>B w r w' j. on B w \<Longrightarrow> exec q w r w' \<Longrightarrow> \<not> ready B e \<Longrightarrow> e = Await j \<Longrightarrow> k r = p \<and> on B w'"
proof -
  from assms obtain q k where p: "p = Call q k" and *: "\<And>B w r w'. on B w \<Longrightarrow> exec q w r w' \<Longrightarrow>
     if ready B e then k r = p' \<and> on (effect e B) w' else (case e of Await _ \<Rightarrow> k r = p \<and> on B w' | _ \<Rightarrow> True)"
    unfolding performs_def by blast
  have a: "k r = p' \<and> on (effect e B) w'" if "on B w" "exec q w r w'" "ready B e" for B w r w'
    using * [OF that(1,2)] that(3) by simp
  have b: "k r = p \<and> on B w'" if "on B w" "exec q w r w'" "\<not> ready B e" "e = Await j" for B w r w' j
    using * [OF that(1,2)] that(3,4) by simp
  show thesis using that [OF p] a b by metis
qed

lemma performsI:
  assumes "\<And>B w r w'. on B w \<Longrightarrow> exec q w r w' \<Longrightarrow> ready B e \<Longrightarrow> k r = p' \<and> on (effect e B) w'"
    and "\<And>B w r w' j. on B w \<Longrightarrow> exec q w r w' \<Longrightarrow> j \<notin> B \<Longrightarrow> e = Await j \<Longrightarrow> k r = Call q k \<and> on B w'"
  shows "performs (Call q k) e p'"
  unfolding performs_def
proof (intro exI [of _ q] exI [of _ k] conjI allI impI refl)
  fix B w r w' assume on: "on B w" "exec q w r w'"
  show "if ready B e then k r = p' \<and> on (effect e B) w' else (case e of Await _ \<Rightarrow> k r = Call q k \<and> on B w' | _ \<Rightarrow> True)"
  proof (cases "ready B e")
    case True
    then show ?thesis using assms(1) [OF on] by simp
  next
    case False
    then show ?thesis using assms(2) [OF on] by (cases e) simp_all
  qed
qed

lemma performs_pbind:
  assumes "performs p e p'" shows "performs (pbind p f) e (pbind p' f)"
proof -
  from assms obtain q k where k: "p = Call q k"
    "\<And>B w r w'. on B w \<Longrightarrow> exec q w r w' \<Longrightarrow> ready B e \<Longrightarrow> k r = p' \<and> on (effect e B) w'"
    "\<And>B w r w' j. on B w \<Longrightarrow> exec q w r w' \<Longrightarrow> \<not> ready B e \<Longrightarrow> e = Await j \<Longrightarrow> k r = p \<and> on B w'"
    by (rule performsE) blast
  have "performs (Call q (\<lambda>r. pbind (k r) f)) e (pbind p' f)"
  proof (rule performsI)
    show "pbind (k r) f = pbind p' f \<and> on (effect e B) w'" if "on B w" "exec q w r w'" "ready B e" for B w r w'
      using k(2) [OF that] by simp
    show "pbind (k r) f = Call q (\<lambda>r. pbind (k r) f) \<and> on B w'" if "on B w" "exec q w r w'" "j \<notin> B" "e = Await j" for B w r w' j
      using k(3) [OF that(1,2) _ that(4)] that(3,4) k(1) by simp
  qed
  then show ?thesis using k(1) by simp
qed

lemma scripted_pbind: "scripted p xs p' \<Longrightarrow> scripted (pbind p f) xs (pbind p' f)"
  by (induction rule: scripted.induct) (auto intro: scripted.intros performs_pbind)

lemma scripted_bind: "scripted p xs (Ret (Inr x)) \<Longrightarrow> scripted (f x) ys p'' \<Longrightarrow> scripted (pbind p f) (xs @ ys) p''"
  using scripted_pbind [of p xs "Ret (Inr x)" f] by (auto intro: scripted_append)

definition under_way ::
  "'c set \<Rightarrow> ('c \<Rightarrow> 'k item list) \<Rightarrow> ('c \<Rightarrow> 'a result) \<Rightarrow> ('c \<Rightarrow> 'k item list) \<Rightarrow> ('c, 'q, 'p, 'a, 'w) wsys \<Rightarrow> bool" where
  \<comment> \<open>D c is what client c has done of its script\<close>
  "under_way C S res D y \<longleftrightarrow> dom (clients y) = C \<and> on (\<Union>c \<in> C. posted (D c)) (world y)
     \<and> (\<forall>c \<in> C. \<exists>rest. S c = D c @ rest \<and> known (D c) \<subseteq> (\<Union>c \<in> C. posted (D c))
         \<and> scripted (the (clients y c)) rest (Ret (res c)))"

lemma under_wayE:
  assumes "under_way C S res D y" "c \<in> C"
  obtains p rest where "clients y c = Some p" "S c = D c @ rest" "known (D c) \<subseteq> (\<Union>c \<in> C. posted (D c))" "scripted p rest (Ret (res c))"
proof -
  from assms(1) have dom: "dom (clients y) = C" and all: "\<And>c. c \<in> C \<Longrightarrow> \<exists>rest. S c = D c @ rest \<and> known (D c) \<subseteq> (\<Union>c \<in> C. posted (D c))
         \<and> scripted (the (clients y c)) rest (Ret (res c))"
    unfolding under_way_def by blast+
  from dom assms(2) obtain p where "clients y c = Some p" by blast
  with all [OF assms(2)] that show thesis by auto
qed

lemma scripts_okD:
  assumes "scripts_ok lev C S" "c \<in> C"
  shows "ordered lev (S c)" "guarded {} (S c)" "awaited (S c) \<subseteq> (\<Union>c' \<in> C. posted (S c'))"
  using assms unfolding scripts_ok_def by blast+

lemma under_way_call:
  assumes U: "under_way C S res D y" and ok: "scripts_ok lev C S" and c: "clients y c = Some (Call q k)" and ex: "exec q (world y) r w'"
  shows "\<exists>e rest. S c = D c @ e # rest
    \<and> (let u = y\<lparr>clients := (clients y)(c \<mapsto> k r), world := w'\<rparr> in
       if ready (\<Union>c \<in> C. posted (D c)) e then under_way C S res (D(c := D c @ [e])) u else under_way C S res D u)"
proof -
  let ?B = "\<Union>c \<in> C. posted (D c)"
  have cC: "c \<in> C" and on: "on ?B (world y)" using U c by (auto simp: under_way_def)
  obtain rest where S: "S c = D c @ rest" "known (D c) \<subseteq> ?B" "scripted (Call q k) rest (Ret (res c))"
    using under_wayE [OF U cC] c by auto
  have rest: "\<And>d. d \<in> C \<Longrightarrow> \<exists>rest. S d = D d @ rest \<and> known (D d) \<subseteq> ?B \<and> scripted (the (clients y d)) rest (Ret (res d))"
    using under_wayE [OF U] by (metis option.sel)
  obtain e es p' where e: "rest = e # es" "performs (Call q k) e p'" "scripted p' es (Ret (res c))"
    using S(3) by (cases rest) (auto elim: scripted_NilE scripted_ConsE)
  have "guarded {} (D c @ e # es)" using scripts_okD(2) [OF ok cC] S(1) e(1) by simp
  then have use: "K \<subseteq> ?B" if "e = Use K" for K using that S(2) by (auto simp: script_append)
  have step: "if ready ?B e then k r = p' \<and> on (effect e ?B) w' else k r = Call q k \<and> on ?B w'"
  proof -
    from e(2) obtain q' k' where k: "Call q k = Call q' k'"
      "\<And>B w r w'. on B w \<Longrightarrow> exec q' w r w' \<Longrightarrow> ready B e \<Longrightarrow> k' r = p' \<and> on (effect e B) w'"
      "\<And>B w r w' j. on B w \<Longrightarrow> exec q' w r w' \<Longrightarrow> \<not> ready B e \<Longrightarrow> e = Await j \<Longrightarrow> k' r = Call q k \<and> on B w'"
      by (rule performsE) blast
    have "ready ?B e \<or> (\<exists>j. e = Await j)" using use by (cases e) auto
    then show ?thesis using k(2,3) [OF on, of r w'] k(1) ex by auto
  qed
  let ?u = "y\<lparr>clients := (clients y)(c \<mapsto> k r), world := w'\<rparr>" and ?D = "D(c := D c @ [e])"
  have B': "(\<Union>d \<in> C. posted (?D d)) = effect e ?B"
    using cC by (cases e) (auto simp: script_append split: if_splits)
  have "under_way C S res ?D ?u" if "ready ?B e"
    unfolding under_way_def B'
  proof (intro conjI ballI)
    show "dom (clients ?u) = C" using U c by (auto simp: under_way_def)
    show "on (effect e ?B) (world ?u)" using step that by simp
    show "\<exists>rest. S d = ?D d @ rest \<and> known (?D d) \<subseteq> effect e ?B \<and> scripted (the (clients ?u d)) rest (Ret (res d))" if d: "d \<in> C" for d
    proof (cases "d = c")
      case True
      have "known (D c @ [e]) \<subseteq> effect e ?B" using S(2) \<open>ready ?B e\<close> by (cases e) (auto simp: script_append)
      then show ?thesis using True S(1) e step \<open>ready ?B e\<close> by auto
    next
      case False
      moreover have "?B \<subseteq> effect e ?B" by (cases e) auto
      ultimately show ?thesis using rest [OF d] by auto
    qed
  qed
  moreover have "under_way C S res D ?u" if "\<not> ready ?B e"
    unfolding under_way_def
  proof (intro conjI ballI)
    show "dom (clients ?u) = C" using U c by (auto simp: under_way_def)
    show "on ?B (world ?u)" using step that by simp
    show "\<exists>rest. S d = D d @ rest \<and> known (D d) \<subseteq> ?B \<and> scripted (the (clients ?u d)) rest (Ret (res d))" if d: "d \<in> C" for d
      using rest [OF d] c step \<open>\<not> ready ?B e\<close> by (cases "d = c") auto
  qed
  ultimately show ?thesis using S(1) e(1) by (intro exI [of _ e] exI [of _ es]) (simp add: Let_def)
qed

lemma under_way_reach:
  assumes "call_reach exec y u" "under_way C S res D y" "scripts_ok lev C S"
  shows "\<exists>D. under_way C S res D u"
  using assms(1)
proof (induction rule: call_reach_induct)
  case (step u v)
  then obtain D where U: "under_way C S res D u" by blast
  from step(2) show ?case
  proof cases
    case (called c q k r w')
    from under_way_call [OF U assms(3) this(2,3)] called(1) show ?thesis by (auto simp: Let_def split: if_splits)
  qed
qed (use assms(2) in blast)

lemma someone_ready:
  assumes U: "under_way C S res D y" and ok: "scripts_ok lev C S" and left: "c \<in> C" "D c \<noteq> S c"
  shows "\<exists>c \<in> C. \<exists>e rest. S c = D c @ e # rest \<and> ready (\<Union>c \<in> C. posted (D c)) e"
proof (rule ccontr)
  let ?B = "\<Union>c \<in> C. posted (D c)"
  assume no: "\<not> ?thesis"
  have pre: "\<exists>rest. S c = D c @ rest \<and> known (D c) \<subseteq> ?B" if "c \<in> C" for c using under_wayE [OF U that] by metis
  have stuck: "\<exists>k rest. S c = D c @ Await k # rest \<and> k \<notin> ?B" if c: "c \<in> C" "D c \<noteq> S c" for c
  proof -
    obtain rest where r: "S c = D c @ rest" "known (D c) \<subseteq> ?B" using pre [OF c(1)] by blast
    then obtain e es where e: "rest = e # es" using c(2) by (cases rest) auto
    then have "\<not> ready ?B e" using no c(1) r(1) by blast
    moreover have "guarded {} (D c @ e # es)" using scripts_okD(2) [OF ok c(1)] r(1) e by simp
    ultimately show ?thesis using r e by (cases e) (auto simp: script_append)
  qed
  have down: "\<exists>k' < n. \<exists>c \<in> C. \<exists>k rest. S c = D c @ Await k # rest \<and> k \<notin> ?B \<and> lev k = k'"
    if at: "c \<in> C" "S c = D c @ Await k # rest" "k \<notin> ?B" "lev k = n" for c k rest n
  proof -
    have "k \<in> awaited (S c)" using at(2) by (simp add: script_append)
    then obtain d where d: "d \<in> C" "k \<in> posted (S d)" using scripts_okD(3) [OF ok at(1)] by blast
    obtain es where es: "S d = D d @ es" using pre [OF d(1)] by blast
    have "k \<in> posted es" using d at(3) es by (auto simp: script_append)
    then have "D d \<noteq> S d" using es by auto
    then obtain j es' where j: "S d = D d @ Await j # es'" "j \<notin> ?B" using stuck [OF d(1)] by blast
    then have "k \<in> posted es'" using \<open>k \<in> posted es\<close> es by simp
    moreover have "ordered lev (S d)" using scripts_okD(1) [OF ok d(1)] .
    ultimately have "lev j < lev k" using j(1) by (auto simp: script_append)
    then show ?thesis using d(1) j at(4) by blast
  qed
  have "\<not> (\<exists>c \<in> C. \<exists>k rest. S c = D c @ Await k # rest \<and> k \<notin> ?B \<and> lev k = n)" for n
  proof (induction n rule: less_induct)
    case (less n)
    show ?case
    proof
      assume "\<exists>c \<in> C. \<exists>k rest. S c = D c @ Await k # rest \<and> k \<notin> ?B \<and> lev k = n"
      then obtain c k rest where at: "c \<in> C" "S c = D c @ Await k # rest" "k \<notin> ?B" "lev k = n" by (elim bexE exE conjE)
      from down [OF at] less.IH show False by blast
    qed
  qed
  then show False using stuck [OF left] left(1) by blast
qed

lemma board_finishes:
  assumes "under_way C S res D y" and ok: "scripts_ok lev C S"
  shows "\<exists>z. call_reach exec y z \<and> under_way C S res S z"
  using assms(1)
proof (induction "\<Sum>c \<in> C. length (S c) - length (D c)" arbitrary: D y rule: less_induct)
  case less
  show ?case
  proof (cases "\<forall>c \<in> C. D c = S c")
    case True
    have "(\<Union>c \<in> C. posted (S c)) = (\<Union>c \<in> C. posted (D c))" using True by auto
    then have "under_way C S res S y" using less.prems True unfolding under_way_def by auto
    then show ?thesis by blast
  next
    case False
    then obtain c e rest where c: "c \<in> C" "S c = D c @ e # rest" "ready (\<Union>c \<in> C. posted (D c)) e"
      using someone_ready [OF less.prems ok] by blast
    obtain pr where r: "clients y c = Some pr" "scripted pr (e # rest) (Ret (res c))"
      using under_wayE [OF less.prems c(1)] c(2) by (metis same_append_eq)
    then obtain q k where p: "clients y c = Some (Call q k)"
      by (auto elim!: scripted_ConsE simp: performs_def)
    have "on (\<Union>c \<in> C. posted (D c)) (world y)" using less.prems by (simp add: under_way_def)
    from answers [OF this] obtain x w' where ex: "exec q (world y) x w'" by blast
    let ?u = "y\<lparr>clients := (clients y)(c \<mapsto> k x), world := w'\<rparr>" and ?D = "D(c := D c @ [e])"
    have U: "under_way C S res ?D ?u"
      using under_way_call [OF less.prems ok p ex] c(2,3) by (auto simp: Let_def)
    have "(\<Sum>d \<in> C. length (S d) - length (?D d)) < (\<Sum>d \<in> C. length (S d) - length (D d))"
      using c(1,2) ok by (intro sum_strict_mono_ex1) (auto simp: scripts_ok_def)
    from less.hyps [OF this U] obtain z where "call_reach exec ?u z" "under_way C S res S z" by blast
    with call_reach_step [OF called [where y = y and exec = exec and k = k, OF p ex]] show ?thesis by blast
  qed
qed

lemma board_outcome:
  assumes ok: "scripts_ok lev C S" and dom: "dom (clients y) = C" and on: "on {} (world y)"
    and fol: "\<And>c. c \<in> C \<Longrightarrow> scripted (the (clients y c)) (S c) (Ret (res c))"
    and reach: "call_reach exec y u"
  shows "(\<forall>c \<in> C. \<forall>r. clients u c = Some (Ret r) \<longrightarrow> r = res c)
    \<and> (\<exists>z. call_reach exec u z \<and> (\<forall>c \<in> C. clients z c = Some (Ret (res c))))"
proof -
  have "under_way C S res (\<lambda>_. []) y" using dom on fol by (auto simp: under_way_def)
  then obtain D where D: "under_way C S res D u" using under_way_reach [OF reach _ ok] by blast
  have "r = res c" if c: "c \<in> C" "clients u c = Some (Ret r)" for c r
  proof -
    obtain rest where "scripted (Ret r) rest (Ret (res c))" using under_wayE [OF D c(1)] c(2) by (metis option.inject)
    then show ?thesis by cases (auto simp: performs_def)
  qed
  moreover obtain z where z: "call_reach exec u z" "under_way C S res S z" using board_finishes [OF D ok] by blast
  have "clients z c = Some (Ret (res c))" if c: "c \<in> C" for c
  proof -
    obtain p where "clients z c = Some p" "scripted p [] (Ret (res c))"
      using under_wayE [OF z(2) c] by (metis append_self_conv)
    then show ?thesis by (auto elim: scripted_NilE)
  qed
  ultimately show ?thesis using z(1) by blast
qed

end

end
