(* ===== verification/Adj_Run.thy ===== *)
theory Adj_Run
  imports Adj_Client Board Path_Correct Measure_Controller_Correct
begin

text \<open>
  The clients of the adjacent measurement demo follow scripts on a board (theory \<open>Board\<close>): the board is what the
  key server would send to a client that asks (\<open>adj_look\<close>), a request that puts a key or ciphertext posts it, a polling loop
  awaits it, and the other calls rely on what the caller has posted or seen. The controller's
  mask is drawn once (\<open>ctl_ok\<close>).
\<close>

section \<open>What the key server holds\<close>

datatype adj_key =
    PK u32 \<comment> \<open>the public key of a client\<close>
  | EM u32 \<comment> \<open>its evaluation key\<close>
  | MX u32 \<comment> \<open>its mixed evaluation key\<close>
  | CT u32 \<comment> \<open>its masked ciphertext\<close>
  | PCT u32 \<comment> \<open>its partial decryption\<close>

fun adj_look :: "('cc, 'pk, 'sk, 'ek, 'es, 'ct, 'pt) adj_lib \<Rightarrow> ('cc, 'ct) adj_state \<Rightarrow> adj_key \<Rightarrow> bytes option" where
  "adj_look S s (PK i) = (if idx_val False (a_PublicKeysReady s) i then Some (idx_val [] (a_PublicKeys s) i) else None)"
| "adj_look S s (EM i) = (if idx_val False (a_EvalKeyMultsReady s) i then Some (idx_val [] (a_EvalKeyMults s) i) else None)"
| "adj_look S s (MX i) = (if idx_val False (a_EvalKeyMixMultsReady s) i then Some (idx_val [] (a_EvalKeyMixMults s) i) else None)"
| "adj_look S s (CT i) = map_option (x_ser_ct S) (idx_val None (a_Ciphertexts s) i)"
| "adj_look S s (PCT i) = (case idx_val [] (a_PartialCiphertexts s) i of [] \<Rightarrow> None | v # vs \<Rightarrow> Some (x_ser_cts S (v # vs)))"

fun get_request :: "adj_key \<Rightarrow> adj_request" where
  "get_request (PK i) = APublicKeyToClient i"
| "get_request (EM i) = AevalMultKeyToClient i"
| "get_request (MX i) = AevalMixMultKeyToClient i"
| "get_request (CT i) = ACipherTextToClient i"
| "get_request (PCT i) = APartialCipherTextToClient i"

fun put_request :: "bytes \<Rightarrow> adj_key \<Rightarrow> adj_request" where
  "put_request b (PK i) = APublicKeyFromClient b i"
| "put_request b (EM i) = AevalMultKeyFromClient b i"
| "put_request b (MX i) = AevalMixMultKeyFromClient b i"
| "put_request b (CT i) = ACipherTextFromClient b i"
| "put_request b (PCT i) = APartialCipherTextFromClient b i"

fun get_reply :: "adj_key \<Rightarrow> bytes option \<Rightarrow> adj_reply" where
  "get_reply (PK i) v = AKeyReturn (v \<noteq> None) (case v of None \<Rightarrow> [] | Some b \<Rightarrow> b)"
| "get_reply (EM i) v = AKeyReturn (v \<noteq> None) (case v of None \<Rightarrow> [] | Some b \<Rightarrow> b)"
| "get_reply (MX i) v = AKeyReturn (v \<noteq> None) (case v of None \<Rightarrow> [] | Some b \<Rightarrow> b)"
| "get_reply (CT i) v = ATextReturn (v \<noteq> None) (case v of None \<Rightarrow> [] | Some b \<Rightarrow> b)"
| "get_reply (PCT i) v = ATextReturn (v \<noteq> None) (case v of None \<Rightarrow> [] | Some b \<Rightarrow> b)"

fun put_value :: "('cc, 'pk, 'sk, 'ek, 'es, 'ct, 'pt) adj_lib \<Rightarrow> adj_key \<Rightarrow> bytes \<Rightarrow> bytes option" where
  \<comment> \<open>what is on the board when b is put there: ciphertexts are stored as such and serialised again\<close>
  "put_value S (CT i) b = (case x_deser_ct S b of Inr (Some ct) \<Rightarrow> Some (x_ser_ct S ct) | _ \<Rightarrow> None)"
| "put_value S (PCT i) b = (case x_deser_cts S b of Inr (v # vs) \<Rightarrow> Some (x_ser_cts S (v # vs)) | _ \<Rightarrow> None)"
| "put_value S k b = Some b"

definition same_board :: "('cc, 'ct) adj_state \<Rightarrow> ('cc, 'ct) adj_state \<Rightarrow> ('cc, 'pk, 'sk, 'ek, 'es, 'ct, 'pt) adj_lib \<Rightarrow> bool" where
  "same_board s s' S \<longleftrightarrow> adj_look S s' = adj_look S s \<and> a_cc s' = a_cc s
     \<and> idx_val False (a_CTRecdFlag s') = idx_val False (a_CTRecdFlag s)"

lemma idx_map_fun [simp]: "idx_val d (idx_map d m k) = idx_val d m"
  by (rule ext) simp

lemma look_eqI:
  assumes "\<And>i. adj_look S s (PK i) = f (PK i)" "\<And>i. adj_look S s (EM i) = f (EM i)" "\<And>i. adj_look S s (MX i) = f (MX i)"
    "\<And>i. adj_look S s (CT i) = f (CT i)" "\<And>i. adj_look S s (PCT i) = f (PCT i)"
  shows "adj_look S s = f"
proof (rule ext)
  show "adj_look S s k = f k" for k using assms by (cases k) (simp_all del: adj_look.simps)
qed

text \<open>A request that gets something replies what the board holds and leaves it as it is.\<close>

lemma key_server_get:
  assumes ser: "\<And>ct. x_ser_ct S ct \<noteq> []" "\<And>v vs. x_ser_cts S (v # vs) \<noteq> []"
  shows "\<exists>s'. adj_handler S (get_request k) s = (Inr (get_reply k (adj_look S s k)), s') \<and> same_board s s' S"
proof (cases k)
  case (PK i)
  then show ?thesis by (auto simp: adj_step same_board_def intro!: look_eqI)
next
  case (EM i)
  then show ?thesis by (auto simp: adj_step same_board_def intro!: look_eqI)
next
  case (MX i)
  then show ?thesis by (auto simp: adj_step same_board_def intro!: look_eqI)
next
  case (CT i)
  then show ?thesis using ser(1) by (auto simp: adj_step same_board_def intro!: look_eqI split: option.split)
next
  case (PCT i)
  then show ?thesis using ser(2) by (auto simp: adj_step same_board_def intro!: look_eqI split: list.split)
qed

text \<open>A request that puts something puts it on the board.\<close>

lemma key_server_put:
  assumes "b \<noteq> []" "put_value S k b = Some v"
  shows "\<exists>a s'. adj_handler S (put_request b k) s = (Inr (AAck a), s') \<and> adj_look S s' = (adj_look S s)(k \<mapsto> v)
    \<and> a_cc s' = a_cc s \<and> (\<forall>i. idx_val False (a_CTRecdFlag s') i \<longleftrightarrow> idx_val False (a_CTRecdFlag s) i \<or> k = PCT i)"
proof (cases k)
  case (PK i)
  then show ?thesis using assms by (auto simp: adj_step idx_val_upd intro!: look_eqI)
next
  case (EM i)
  then show ?thesis using assms by (auto simp: adj_step idx_val_upd intro!: look_eqI)
next
  case (MX i)
  then show ?thesis using assms by (auto simp: adj_step idx_val_upd intro!: look_eqI)
next
  case (CT i)
  then show ?thesis using assms by (auto simp: adj_step idx_val_upd intro!: look_eqI split: sum.splits option.splits)
next
  case (PCT i)
  then show ?thesis using assms by (auto simp: adj_step idx_val_upd intro!: look_eqI split: sum.splits list.splits)
qed

section \<open>A system of the demo\<close>

record ('cc, 'pk, 'sk, 'ek, 'es, 'ct, 'pt) adj_setup =
  server_lib :: "('cc, 'pk, 'sk, 'ek, 'es, 'ct, 'pt) adj_lib"
  controller_lib :: "('cc, 'pk, 'sk, 'ek, 'es, 'ct, 'pt) adj_lib"
  client_lib :: "nat \<Rightarrow> ('cc, 'pk, 'sk, 'ek, 'es, 'ct, 'pt) adj_lib"
  n_clients :: nat
  the_measure :: u32
  rand_nums :: "nat \<Rightarrow> nat"
  input_of :: "nat \<Rightarrow> string"

definition adj_cid :: "nat \<Rightarrow> u32" where
  "adj_cid j = of_nat j"

definition adj_cc :: "('cc, 'pk, 'sk, 'ek, 'es, 'ct, 'pt) adj_setup \<Rightarrow> 'cc" where
  "adj_cc V = x_GenCryptoContext (server_lib V) adj_params"

definition adj_nodes :: "('cc, 'pk, 'sk, 'ek, 'es, 'ct, 'pt) adj_setup \<Rightarrow> ('cc, 'pk, 'sk, 'ek, 'es) path_nodes" where
  "adj_nodes V j = (x_keys (client_lib V j), x_ClearKeys (client_lib V j) (adj_cc V))"

definition adj_pk :: "('cc, 'pk, 'sk, 'ek, 'es, 'ct, 'pt) adj_setup \<Rightarrow> 'pk" where
  "adj_pk V = pk_at (adj_nodes V) (n_clients V)"

definition adj_ek :: "('cc, 'pk, 'sk, 'ek, 'es, 'ct, 'pt) adj_setup \<Rightarrow> 'ek" where
  "adj_ek V = path_mix (adj_nodes V) (n_clients V) (n_clients V - 1)"

definition adj_ctx :: "('cc, 'pk, 'sk, 'ek, 'es, 'ct, 'pt) adj_setup \<Rightarrow> nat \<Rightarrow> 'cc" where
  \<comment> \<open>of client j with the joint evaluation key\<close>
  "adj_ctx V j = x_InsertEvalMultKey (client_lib V j) (Ctx (adj_nodes V) j) [adj_ek V]"

definition adj_ctl_ctx :: "('cc, 'pk, 'sk, 'ek, 'es, 'ct, 'pt) adj_setup \<Rightarrow> 'cc" where
  "adj_ctl_ctx V = x_InsertEvalMultKey (controller_lib V) (adj_cc V) [adj_ek V]"

definition adj_mask :: "('cc, 'pk, 'sk, 'ek, 'es, 'ct, 'pt) adj_setup \<Rightarrow> int list" where
  "adj_mask V = map (\<lambda>i. int (rand_nums V i mod x_PlaintextModulus (controller_lib V) (adj_cc V))) [0..<12]"

definition adj_start :: "('cc, 'pk, 'sk, 'ek, 'es, 'ct, 'pt) adj_setup \<Rightarrow> ('cc, 'ct, 'pt) adj_world option" where
  \<comment> \<open>both servers started; None when the controller ends at once\<close>
  "adj_start V = (case ctl_init (controller_lib V) (ks_call (server_lib V)) (adj_state0 (server_lib V), True) of
     (Inr cs, s, up) \<Rightarrow> Some \<lparr> w_ks = s, w_ks_up = up, w_ctl = cs, w_ctl_up = True \<rparr>
   | _ \<Rightarrow> None)"

definition adj_rel ::
  "('cc, 'pk, 'sk, 'ek, 'es, 'ct, 'pt) adj_setup \<Rightarrow> adj_call \<Rightarrow> ('cc, 'ct, 'pt) adj_world \<Rightarrow> string + adj_answer
   \<Rightarrow> ('cc, 'ct, 'pt) adj_world \<Rightarrow> bool" where
  "adj_rel V q w r w' \<longleftrightarrow> adj_exec (server_lib V) (controller_lib V) (rand_nums V) (adj_cid (n_clients V)) q w = (r, w')"

definition adj_clients :: "('cc, 'pk, 'sk, 'ek, 'es, 'ct, 'pt) adj_setup \<Rightarrow> nat \<rightharpoonup> nat list adj_prog" where
  "adj_clients V = (\<lambda>j. if j \<in> {1..n_clients V}
     then Some (thresh_client_measure (client_lib V j) (adj_cid j) (the_measure V) (adj_cid (n_clients V)) (Some (input_of V j)))
     else None)"

section \<open>Its board\<close>

definition adj_serial :: "('cc, 'pk, 'sk, 'ek, 'es, 'ct, 'pt) adj_lib \<Rightarrow> ('cc, 'pk, 'sk, 'ek, 'es, 'ct, 'pt) adj_lib \<Rightarrow> bool" where
  \<comment> \<open>L reads what K has written\<close>
  "adj_serial K L \<longleftrightarrow>
     (\<forall>c. x_ser_cc K (Some c) \<noteq> [] \<and> x_deser_cc L (x_ser_cc K (Some c)) = Inr (Some c))
   \<and> (\<forall>x. k_ser_pk (x_keys K) x \<noteq> [] \<and> k_deser_pk (x_keys L) (k_ser_pk (x_keys K) x) = Inr x)
   \<and> (\<forall>x. k_ser_ek (x_keys K) x \<noteq> [] \<and> k_deser_ek (x_keys L) (k_ser_ek (x_keys K) x) = Inr x)
   \<and> (\<forall>x. x_ser_ct K x \<noteq> [] \<and> x_deser_ct L (x_ser_ct K x) = Inr (Some x))
   \<and> (\<forall>v vs. x_ser_cts K (v # vs) \<noteq> [] \<and> x_deser_cts L (x_ser_cts K (v # vs)) = Inr (v # vs))"

definition adj_libs :: "('cc, 'pk, 'sk, 'ek, 'es, 'ct, 'pt) adj_setup \<Rightarrow> ('cc, 'pk, 'sk, 'ek, 'es, 'ct, 'pt) adj_lib set" where
  "adj_libs V = {server_lib V, controller_lib V} \<union> client_lib V ` {1..n_clients V}"

definition adj_serial_ok :: "('cc, 'pk, 'sk, 'ek, 'es, 'ct, 'pt) adj_setup \<Rightarrow> bool" where
  "adj_serial_ok V \<longleftrightarrow> (\<forall>K \<in> adj_libs V. \<forall>L \<in> adj_libs V. adj_serial K L)"

fun adj_val :: "('cc, 'pk, 'sk, 'ek, 'es, 'ct, 'pt) adj_setup \<Rightarrow> (nat \<Rightarrow> 'ct) \<Rightarrow> (nat \<Rightarrow> 'ct) \<Rightarrow> adj_key \<Rightarrow> bytes" where
  \<comment> \<open>m j is the masked ciphertext of client j, a j its partial decryption\<close>
  "adj_val V m a (PK i) = k_ser_pk (x_keys (client_lib V (unat i))) (pk_at (adj_nodes V) (unat i))"
| "adj_val V m a (EM i) = k_ser_ek (x_keys (client_lib V (unat i))) (path_em (adj_nodes V) (unat i - 1))"
| "adj_val V m a (MX i) = k_ser_ek (x_keys (client_lib V (unat i))) (path_mix (adj_nodes V) (n_clients V) (n_clients V - unat i))"
| "adj_val V m a (CT i) = x_ser_ct (server_lib V) (m (unat i))"
| "adj_val V m a (PCT i) = x_ser_cts (server_lib V) [Some (a (unat i))]"

definition ctl_ok :: "('cc, 'pk, 'sk, 'ek, 'es, 'ct, 'pt) adj_setup \<Rightarrow> 'pt \<Rightarrow> ('cc, 'pt) ctl_state \<Rightarrow> bool" where
  \<comment> \<open>before and after the first ciphertext of the measurement\<close>
  "ctl_ok V pm s \<longleftrightarrow>
     controllercc s = adj_cc V \<and> idx_val None (random_s s) (the_measure V) = None \<and> drawn s = 0
   \<or> controllercc s = adj_ctl_ctx V \<and> idx_val None (random_s s) (the_measure V) = Some pm"

definition adj_on ::
  "('cc, 'pk, 'sk, 'ek, 'es, 'ct, 'pt) adj_setup \<Rightarrow> 'pt \<Rightarrow> (nat \<Rightarrow> 'ct) \<Rightarrow> (nat \<Rightarrow> 'ct)
   \<Rightarrow> adj_key set \<Rightarrow> ('cc, 'ct, 'pt) adj_world \<Rightarrow> bool" where
  "adj_on V pm m a B w \<longleftrightarrow> w_ks_up w \<and> w_ctl_up w \<and> a_cc (w_ks w) = Some (adj_cc V)
     \<and> adj_look (server_lib V) (w_ks w) = (\<lambda>k. if k \<in> B then Some (adj_val V m a k) else None)
     \<and> (\<forall>i. PCT i \<in> B \<longrightarrow> idx_val False (a_CTRecdFlag (w_ks w)) i)
     \<and> ctl_ok V pm (w_ctl w)"

interpretation adj: board "adj_rel V" "adj_on V pm m a" for V pm m a
proof
  show "\<exists>r w'. adj_rel V q w r w'" for q w by (simp add: adj_rel_def)
qed

lemma adj_onD:
  assumes "adj_on V pm m a B w"
  shows "w_ks_up w" "w_ctl_up w" "a_cc (w_ks w) = Some (adj_cc V)" "PCT i \<in> B \<Longrightarrow> idx_val False (a_CTRecdFlag (w_ks w)) i"
    "adj_look (server_lib V) (w_ks w) k = (if k \<in> B then Some (adj_val V m a k) else None)" "ctl_ok V pm (w_ctl w)"
  using assms by (simp_all add: adj_on_def)

lemma adj_serialD:
  assumes "adj_serial_ok V" "K \<in> adj_libs V"
  shows "x_ser_cc K (Some c) \<noteq> []" "k_ser_pk (x_keys K) x \<noteq> []" "k_ser_ek (x_keys K) y \<noteq> []" "x_ser_ct K z \<noteq> []" "x_ser_cts K (v # vs) \<noteq> []"
    "L \<in> adj_libs V \<Longrightarrow> x_deser_cc L (x_ser_cc K (Some c)) = Inr (Some c)"
    "L \<in> adj_libs V \<Longrightarrow> k_deser_pk (x_keys L) (k_ser_pk (x_keys K) x) = Inr x"
    "L \<in> adj_libs V \<Longrightarrow> k_deser_ek (x_keys L) (k_ser_ek (x_keys K) y) = Inr y"
    "L \<in> adj_libs V \<Longrightarrow> x_deser_ct L (x_ser_ct K z) = Inr (Some z)"
    "L \<in> adj_libs V \<Longrightarrow> x_deser_cts L (x_ser_cts K (v # vs)) = Inr (v # vs)"
proof -
  have "adj_serial K L" if "L \<in> adj_libs V" for L using assms that unfolding adj_serial_ok_def by blast
  then show "x_ser_cc K (Some c) \<noteq> []" "k_ser_pk (x_keys K) x \<noteq> []" "k_ser_ek (x_keys K) y \<noteq> []" "x_ser_ct K z \<noteq> []" "x_ser_cts K (v # vs) \<noteq> []"
    "L \<in> adj_libs V \<Longrightarrow> x_deser_cc L (x_ser_cc K (Some c)) = Inr (Some c)"
    "L \<in> adj_libs V \<Longrightarrow> k_deser_pk (x_keys L) (k_ser_pk (x_keys K) x) = Inr x"
    "L \<in> adj_libs V \<Longrightarrow> k_deser_ek (x_keys L) (k_ser_ek (x_keys K) y) = Inr y"
    "L \<in> adj_libs V \<Longrightarrow> x_deser_ct L (x_ser_ct K z) = Inr (Some z)"
    "L \<in> adj_libs V \<Longrightarrow> x_deser_cts L (x_ser_cts K (v # vs)) = Inr (v # vs)"
    using assms(2) by (auto simp: adj_serial_def)
qed

lemma adj_libs_in [simp]: "server_lib V \<in> adj_libs V" "controller_lib V \<in> adj_libs V"
    "1 \<le> j \<Longrightarrow> j \<le> n_clients V \<Longrightarrow> client_lib V j \<in> adj_libs V"
  by (simp_all add: adj_libs_def)

abbreviation adj_performs where
  "adj_performs V pm m a \<equiv> board.performs (adj_rel V) (adj_on V pm m a)"

abbreviation adj_scripted where
  "adj_scripted V pm m a \<equiv> board.scripted (adj_rel V) (adj_on V pm m a)"

lemma adj_exec_server:
  assumes "w_ks_up w" "adj_handler S q (w_ks w) = (Inr p, s')"
  shows "adj_exec S L rand parties (ToServer q) w = (Inr (FromServer p), w\<lparr>w_ks := s', w_ks_up := True\<rparr>)"
  using assms by (simp add: adj_exec_def ks_call_def)

lemma adj_on_same:
  assumes "adj_on V pm m a B w" "same_board (w_ks w) s' (server_lib V)"
  shows "adj_on V pm m a B (w\<lparr>w_ks := s', w_ks_up := True\<rparr>)"
  using assms by (simp add: adj_on_def same_board_def)

lemma awaits:
  assumes ser: "adj_serial_ok V"
    and read: "\<And>v. read [] (get_reply k v) = Inr (v \<noteq> None, case v of None \<Rightarrow> [] | Some b \<Rightarrow> b)"
  shows "adj_performs V pm m a (poll (\<lambda>s. server_rpc (get_request k) (read s))) (Await k) (Ret (Inr (adj_val V m a k)))"
proof -
  let ?read = "\<lambda>s r. case r of FromServer reply \<Rightarrow> read s reply | _ \<Rightarrow> wrong_reply"
  have p: "poll (\<lambda>s. server_rpc (get_request k) (read s)) = poll_from (ToServer (get_request k)) ?read []"
    unfolding server_rpc_def by (rule poll_eq)
  have step: "\<exists>s'. r = Inr (FromServer (get_reply k (if k \<in> B then Some (adj_val V m a k) else None)))
      \<and> adj_on V pm m a B w'"
    if on: "adj_on V pm m a B w" and ex: "adj_rel V (ToServer (get_request k)) w r w'" for B w r w'
  proof -
    obtain s' where s': "adj_handler (server_lib V) (get_request k) (w_ks w) = (Inr (get_reply k (adj_look (server_lib V) (w_ks w) k)), s')"
      "same_board (w_ks w) s' (server_lib V)"
      using key_server_get [of "server_lib V" k "w_ks w"] adj_serialD(4,5) [OF ser adj_libs_in(1)] by blast
    from adj_exec_server [OF adj_onD(1) [OF on] s'(1)] ex adj_on_same [OF on s'(2)] adj_onD(5) [OF on, of k]
    show ?thesis by (simp add: adj_rel_def)
  qed
  show ?thesis
    unfolding p
    by (subst poll_from_unfold, rule adj.performsI)
      (use step in \<open>fastforce simp: read poll_from_unfold [where read = ?read, symmetric]\<close>)+
qed

lemma posts:
  assumes ser: "adj_serial_ok V" and b: "b \<noteq> []" and v: "put_value (server_lib V) k b = Some (adj_val V m a k)"
  shows "adj_performs V pm m a (pbind (server_rpc (put_request b k) ack_reply) (\<lambda>_. p)) (Post k) p"
  unfolding server_rpc_def call_rpc_def pbind_simps
proof (rule adj.performsI, goal_cases)
  case (1 B w r w')
  obtain ack s' where s': "adj_handler (server_lib V) (put_request b k) (w_ks w) = (Inr (AAck ack), s')"
    "adj_look (server_lib V) s' = (adj_look (server_lib V) (w_ks w))(k \<mapsto> adj_val V m a k)" "a_cc s' = a_cc (w_ks w)"
    "\<And>i. idx_val False (a_CTRecdFlag s') i \<longleftrightarrow> idx_val False (a_CTRecdFlag (w_ks w)) i \<or> k = PCT i"
    using key_server_put [OF b v, of "w_ks w"] by blast
  have "r = Inr (FromServer (AAck ack))" "w' = w\<lparr>w_ks := s', w_ks_up := True\<rparr>"
    using adj_exec_server [OF adj_onD(1) [OF 1(1)] s'(1)] 1(2) by (simp_all add: adj_rel_def)
  then show ?case using 1(1) s'(2-4) by (auto simp: adj_on_def ack_reply_def fun_eq_iff)
qed simp

lemma context_call:
  assumes ser: "adj_serial_ok V" and L: "L \<in> adj_libs V"
  shows "adj_scripted V pm m a (a_get_context L) [Use {}] (Ret (Inr (x_ClearKeys L (adj_cc V))))"
proof (rule adj.scripted_item [OF _ adj.scripted_end])
  show "adj_performs V pm m a (a_get_context L) (Use {}) (Ret (Inr (x_ClearKeys L (adj_cc V))))"
    unfolding a_get_context_def t_CryptoContextFromServer_def server_rpc_def call_rpc_def pbind_simps
  proof (rule adj.performsI, goal_cases)
    case (1 B w r w')
    note on = adj_onD [OF 1(1)]
    have "adj_handler (server_lib V) ACryptoContextFromServer (w_ks w) =
        (Inr (ACryptoContextReturn (x_ser_cc (server_lib V) (Some (adj_cc V)))), w_ks w)"
      using adj_serialD(1) [OF ser adj_libs_in(1)] on(3) by (simp add: adj_step adj_cc_def)
    from adj_exec_server [OF on(1) this] 1(2) adj_on_same [OF 1(1), of "w_ks w"]
    have "r = Inr (FromServer (ACryptoContextReturn (x_ser_cc (server_lib V) (Some (adj_cc V)))))" "adj_on V pm m a B w'"
      by (auto simp: adj_rel_def same_board_def)
    then show ?case using 1(1) adj_serialD(1,6) [OF ser adj_libs_in(1)] L by (simp add: a_received_def a_guard_def)
  qed simp
qed

lemma flag_look: "adj_look S (s\<lparr>a_CTRecdFlag := f\<rparr>) = adj_look S s"
  by (rule look_eqI) simp_all

lemma received_call:
  assumes ser: "adj_serial_ok V" and L: "i \<in> {1..n_clients V}"
  shows "adj_performs V pm m a (t_PartialCipherTextsReceivedWait (adj_cid i)) (Use {PCT (adj_cid i)}) (Ret (Inr True))"
  unfolding t_PartialCipherTextsReceivedWait_def server_rpc_def call_rpc_def
proof (rule adj.performsI, goal_cases)
  case (1 B w r w')
  note on = adj_onD [OF 1(1)]
  obtain s' where s': "adj_handler (server_lib V) (APartialCipherTextsReceivedWait (adj_cid i)) (w_ks w) = (Inr (AFlagReturn True), s')"
    "same_board (w_ks w) s' (server_lib V)"
    using on(4) [of "adj_cid i"] 1(3) by (auto simp: adj_step same_board_def flag_look)
  from adj_exec_server [OF on(1) s'(1)] 1(2) adj_on_same [OF 1(1) s'(2)]
  show ?case by (auto simp: adj_rel_def)
qed simp

section \<open>The controller's answer\<close>

lemma joint_keys_calls:
  "\<exists>s'. with_ks (i_JointPublicKeyToController (ks_call S) [] parties) (cs, s, True)
      = (Inr (adj_look S s (PK parties) \<noteq> None, case adj_look S s (PK parties) of None \<Rightarrow> [] | Some b \<Rightarrow> b), (cs, s', True))
     \<and> same_board s s' S"
  "\<exists>s'. with_ks (i_EvalMultKeyToController (ks_call S) []) (cs, s, True)
      = (Inr (adj_look S s (MX 1) \<noteq> None, case adj_look S s (MX 1) of None \<Rightarrow> [] | Some b \<Rightarrow> b), (cs, s', True))
     \<and> same_board s s' S"
  by (auto simp: with_ks_def i_JointPublicKeyToController_def i_EvalMultKeyToController_def key_call_def ks_call_def
      adj_step abind_def same_board_def intro!: look_eqI)

lemma ctl_mask_call:
  assumes pack: "x_MakePackedPlaintext (controller_lib V) (adj_cc V) (adj_mask V) = Inr pm" and ok: "ctl_ok V pm cs"
    and idem: "x_InsertEvalMultKey (controller_lib V) (adj_ctl_ctx V) [adj_ek V] = adj_ctl_ctx V"
    and enc: "x_Encrypt (controller_lib V) (adj_ctl_ctx V) (adj_pk V) pm = x_Encrypt (controller_lib V) (adj_cc V) (adj_pk V) pm"
  shows "\<exists>cs'. ctl_mask (controller_lib V) (rand_nums V) (the_measure V) cs = (Inr pm, cs')
    \<and> x_Encrypt (controller_lib V) (controllercc cs') (adj_pk V) pm = x_Encrypt (controller_lib V) (adj_cc V) (adj_pk V) pm
    \<and> x_InsertEvalMultKey (controller_lib V) (controllercc cs') [adj_ek V] = adj_ctl_ctx V
    \<and> idx_val None (random_s cs') (the_measure V) = Some pm"
proof -
  consider (fresh) "controllercc cs = adj_cc V" "idx_val None (random_s cs) (the_measure V) = None" "drawn cs = 0"
    | (used) "controllercc cs = adj_ctl_ctx V" "idx_val None (random_s cs) (the_measure V) = Some pm"
    using ok by (auto simp: ctl_ok_def)
  then show ?thesis
  proof cases
    case fresh
    then show ?thesis using pack by (simp add: ctl_mask_def idx_eq Let_def adj_mask_def adj_ctl_ctx_def del: upt_Suc of_nat_mod)
  next
    case used
    then show ?thesis using idem enc by (simp add: ctl_mask_def idx_eq Let_def)
  qed
qed

lemma controller_call:
  assumes ser: "adj_serial_ok V" and n: "2 \<le> n_clients V" "n_clients V < 2 ^ 32" and j: "j \<in> {1..n_clients V}"
    and pack: "x_MakePackedPlaintext (controller_lib V) (adj_cc V) (adj_mask V) = Inr pm"
    and idem: "x_InsertEvalMultKey (controller_lib V) (adj_ctl_ctx V) [adj_ek V] = adj_ctl_ctx V"
    and enc: "x_Encrypt (controller_lib V) (adj_ctl_ctx V) (adj_pk V) pm = x_Encrypt (controller_lib V) (adj_cc V) (adj_pk V) pm"
    and m: "m j = x_EvalMult (controller_lib V) (adj_ctl_ctx V) (x_Encrypt (controller_lib V) (adj_cc V) (adj_pk V) pm) x"
  shows "adj_performs V pm m a (t_CipherTextFromClientToController (x_ser_ct (client_lib V j) x) (the_measure V))
    (Use {PK (adj_cid (n_clients V)), MX 1}) (Ret (Inr (x_ser_ct (controller_lib V) (m j))))"
  unfolding t_CipherTextFromClientToController_def call_rpc_def
proof (rule adj.performsI, goal_cases)
  case (1 B w r w')
  let ?S = "server_lib V" and ?K = "controller_lib V" and ?n = "adj_cid (n_clients V)" and ?N = "client_lib V"
  let ?x = "x_ser_ct (?N j) x"
  note on = adj_onD [OF 1(1)]
  have uns: "unat ?n = n_clients V" using n by (simp add: adj_cid_def u32_of_nat)
  have libs: "?N j \<in> adj_libs V" "?N 1 \<in> adj_libs V" "?N (n_clients V) \<in> adj_libs V" using n j by simp_all
  define pb where "pb = k_ser_pk (x_keys (?N (n_clients V))) (adj_pk V)"
  define eb where "eb = k_ser_ek (x_keys (?N 1)) (adj_ek V)"
  have keys: "adj_look ?S (w_ks w) (PK ?n) = Some pb" "adj_look ?S (w_ks w) (MX 1) = Some eb"
    using on(5) 1(3) uns by (simp_all add: pb_def eb_def adj_pk_def adj_ek_def del: adj_look.simps)
  obtain s1 where s1: "with_ks (i_JointPublicKeyToController (ks_call ?S) [] ?n) (w_ctl w, w_ks w, True) = (Inr (True, pb), (w_ctl w, s1, True))"
    "same_board (w_ks w) s1 ?S"
    using joint_keys_calls(1) [of ?S ?n "w_ctl w" "w_ks w"] keys(1) by (auto simp del: adj_look.simps)
  have "adj_look ?S s1 (MX 1) = Some eb" using s1(2) keys(2) by (simp add: same_board_def del: adj_look.simps)
  then obtain s2 where s2: "with_ks (i_EvalMultKeyToController (ks_call ?S) []) (w_ctl w, s1, True) = (Inr (True, eb), (w_ctl w, s2, True))"
    "same_board s1 s2 ?S"
    using joint_keys_calls(2) [of ?S "w_ctl w" s1] by (auto simp del: adj_look.simps)
  obtain cs where cs: "ctl_mask ?K (rand_nums V) (the_measure V) (w_ctl w) = (Inr pm, cs)"
    "x_Encrypt ?K (controllercc cs) (adj_pk V) pm = x_Encrypt ?K (adj_cc V) (adj_pk V) pm"
    "x_InsertEvalMultKey ?K (controllercc cs) [adj_ek V] = adj_ctl_ctx V"
    "idx_val None (random_s cs) (the_measure V) = Some pm"
    using ctl_mask_call [OF pack on(6) idem enc] by blast
  define cs' where "cs' = cs\<lparr>controllercc := adj_ctl_ctx V\<rparr>"
  have bytes: "?x \<noteq> []" "pb \<noteq> []" "eb \<noteq> []" "x_deser_ct ?K ?x = Inr (Some x)" "k_deser_pk (x_keys ?K) pb = Inr (adj_pk V)"
    "k_deser_ek (x_keys ?K) eb = Inr (adj_ek V)" "x_ser_ct ?K (m j) \<noteq> []"
    using adj_serialD [OF ser] libs by (simp_all add: pb_def eb_def)
  have "ControllerCipherTextRequestServicer ?K (rand_nums V) ?n (ks_call ?S) ?x (the_measure V) (w_ctl w, w_ks w, True)
      = (Inr (x_ser_ct ?K (m j)), (cs', s2, True))"
    using bytes s1(1) s2(1) cs
    by (simp add: ControllerCipherTextRequestServicer_def abind_def require_def lift_r_def ret_def with_own_def Let_def m cs'_def)
  then have rw: "r = Inr (FromController (x_ser_ct ?K (m j)))" "w' = w\<lparr>w_ks := s2, w_ks_up := True, w_ctl := cs'\<rparr>"
    using 1(2) on(1,2) by (simp_all add: adj_rel_def adj_exec_def)
  have "ctl_ok V pm cs'" using cs(4) by (simp add: ctl_ok_def cs'_def)
  then have "adj_on V pm m a B w'" using 1(1) s1(2) s2(2) rw(2) by (simp add: adj_on_def same_board_def)
  then show ?case using rw(1) by simp
qed simp

end
