(* ===== verification/Adj_Scripts.thy ===== *)
theory Adj_Scripts
  imports Adj_Run
begin

text \<open>
  The script of a client of the adjacent measurement demo, phase by phase, and the proof that the program follows it.
\<close>

section \<open>Client numbers\<close>

lemma adj_cid_simps:
  assumes "i < 2 ^ 32" "j < 2 ^ 32"
  shows "unat (adj_cid j) = j" "adj_cid i = adj_cid j \<longleftrightarrow> i = j" "adj_cid i < adj_cid j \<longleftrightarrow> i < j" "adj_cid i \<le> adj_cid j \<longleftrightarrow> i \<le> j"
proof -
  have u: "unat (adj_cid i) = i" "unat (adj_cid j) = j" using assms by (simp_all add: adj_cid_def u32_of_nat)
  then show "unat (adj_cid j) = j" "adj_cid i = adj_cid j \<longleftrightarrow> i = j" by metis+
  show "adj_cid i < adj_cid j \<longleftrightarrow> i < j" "adj_cid i \<le> adj_cid j \<longleftrightarrow> i \<le> j"
    using u by (simp_all add: word_less_nat_alt word_le_nat_alt)
qed

lemma adj_cid_arith: "adj_cid 1 = 1" "adj_cid (Suc 0) = 1" "1 \<le> j \<Longrightarrow> adj_cid j - 1 = adj_cid (j - 1)" "adj_cid j + 1 = adj_cid (Suc j)"
  by (simp_all add: adj_cid_def of_nat_diff)

lemma adj_cid_one: "j < 2 ^ 32 \<Longrightarrow> adj_cid j = 1 \<longleftrightarrow> j = 1" "j < 2 ^ 32 \<Longrightarrow> 1 < adj_cid j \<longleftrightarrow> 1 < j"
  using adj_cid_simps [of j 1] adj_cid_simps [of 1 j] by (simp_all add: adj_cid_arith)

section \<open>Polls and puts\<close>

lemma await_bind:
  assumes "adj_performs V pm m a p (Await k) (Ret (Inr v))" "adj_scripted V pm m a (f v) ys q"
  shows "adj_scripted V pm m a (pbind p f) (Await k # ys) q"
  using adj.scripted_bind [where p = p and f = f and ys = ys and xs = "[Await k]" and x = v, OF adj.scripted_item [OF assms(1) adj.scripted_end] assms(2)]
  by simp

lemma poll_awaits:
  assumes "adj_serial_ok V"
  shows "adj_performs V pm m a (poll (\<lambda>s. t_PublicKeyToClient s i)) (Await (PK i)) (Ret (Inr (adj_val V m a (PK i))))"
    "adj_performs V pm m a (poll (\<lambda>s. t_evalMultKeyToClient s i)) (Await (EM i)) (Ret (Inr (adj_val V m a (EM i))))"
    "adj_performs V pm m a (poll (\<lambda>s. t_evalMixMultKeyToClient s i)) (Await (MX i)) (Ret (Inr (adj_val V m a (MX i))))"
    "adj_performs V pm m a (poll (\<lambda>s. t_CipherTextToClient s i)) (Await (CT i)) (Ret (Inr (adj_val V m a (CT i))))"
    "adj_performs V pm m a (poll (\<lambda>s. t_PartialCipherTextToClient s i)) (Await (PCT i)) (Ret (Inr (adj_val V m a (PCT i))))"
  using awaits [OF assms, of keyed "PK i" pm m a] awaits [OF assms, of keyed "EM i" pm m a] awaits [OF assms, of keyed "MX i" pm m a]
    awaits [OF assms, of texted "CT i" pm m a] awaits [OF assms, of texted "PCT i" pm m a]
  by (simp_all add: t_PublicKeyToClient_def t_evalMultKeyToClient_def t_evalMixMultKeyToClient_def t_CipherTextToClient_def
      t_PartialCipherTextToClient_def keyed_def texted_def split: option.split)

lemmas polls = await_bind [OF poll_awaits(1)] await_bind [OF poll_awaits(2)] await_bind [OF poll_awaits(3)]
  await_bind [OF poll_awaits(4)] await_bind [OF poll_awaits(5)]

lemma puts:
  assumes ser: "adj_serial_ok V" and next_item: "adj_scripted V pm m a p ys q"
  shows "b = adj_val V m a (PK i) \<Longrightarrow> b \<noteq> [] \<Longrightarrow> adj_scripted V pm m a (pbind (t_PublicKeyFromClient b i) (\<lambda>_. p)) (Post (PK i) # ys) q"
    "b = adj_val V m a (EM i) \<Longrightarrow> b \<noteq> [] \<Longrightarrow> adj_scripted V pm m a (pbind (t_evalMultKeyFromClient b i) (\<lambda>_. p)) (Post (EM i) # ys) q"
    "b = adj_val V m a (MX i) \<Longrightarrow> b \<noteq> [] \<Longrightarrow> adj_scripted V pm m a (pbind (t_evalMixMultKeyFromClient b i) (\<lambda>_. p)) (Post (MX i) # ys) q"
    "b \<noteq> [] \<Longrightarrow> x_deser_ct (server_lib V) b = Inr (Some (m (unat i)))
      \<Longrightarrow> adj_scripted V pm m a (pbind (t_CipherTextFromClient b i) (\<lambda>_. p)) (Post (CT i) # ys) q"
    "b \<noteq> [] \<Longrightarrow> x_deser_cts (server_lib V) b = Inr [Some (a (unat i))]
      \<Longrightarrow> adj_scripted V pm m a (pbind (t_PartialCipherTextFromClient b i) (\<lambda>_. p)) (Post (PCT i) # ys) q"
  using posts [OF ser, of b "PK i" m a pm p] posts [OF ser, of b "EM i" m a pm p] posts [OF ser, of b "MX i" m a pm p]
    posts [OF ser, of b "CT i" m a pm p] posts [OF ser, of b "PCT i" m a pm p] adj.scripted_item [OF _ next_item]
  by (simp_all add: t_PublicKeyFromClient_def t_evalMultKeyFromClient_def t_evalMixMultKeyFromClient_def t_CipherTextFromClient_def
      t_PartialCipherTextFromClient_def)

section \<open>The keys\<close>

definition keygen_script :: "nat \<Rightarrow> nat \<Rightarrow> adj_key item list" where
  "keygen_script n j =
     (if j = 1 then [] else [Await (PK (adj_cid (j - 1)))])
     @ [Post (PK (adj_cid j))] @ (if j = n then [] else [Await (PK (adj_cid n))])"

definition first_script :: "nat \<Rightarrow> nat \<Rightarrow> adj_key item list" where
  "first_script n j =
     (if j = 1 then [] else [Await (EM (adj_cid (j - 1)))])
     @ [Post (EM (adj_cid j))] @ (if j = n then [Post (MX (adj_cid n))] else [])"

definition second_script :: "nat \<Rightarrow> nat \<Rightarrow> adj_key item list" where
  "second_script n j =
     (if j = n then [] else [Await (EM (adj_cid n)), Await (MX (adj_cid (Suc j))), Post (MX (adj_cid j))])"

definition final_script :: "nat \<Rightarrow> adj_key item list" where
  "final_script j = (if j = 1 then [] else [Await (MX (adj_cid 1))])"

lemma received_ok:
  assumes "b \<noteq> []" "deser b = Inr x"
  shows "a_received what deser b = Ret (Inr x)"
  using assms by (simp add: a_received_def a_guard_def)

lemma serialized_ok: "b \<noteq> [] \<Longrightarrow> a_serialized what b = Ret (Inr b)"
  by (simp add: a_serialized_def a_guard_def)

definition adj_sizes :: "('cc, 'pk, 'sk, 'ek, 'es, 'ct, 'pt) adj_setup \<Rightarrow> bool" where
  "adj_sizes V \<longleftrightarrow> 2 \<le> n_clients V \<and> n_clients V < 2 ^ 32"

lemma read_awaited:
  assumes perf: "adj_performs V pm m a p (Await k) (Ret (Inr b))" and b: "b \<noteq> []" "deser b = Inr x" and rest: "adj_scripted V pm m a (f x) ys q"
  shows "adj_scripted V pm m a (pbind p (\<lambda>ser. pbind (a_received what deser ser) f)) (Await k # ys) q"
  by (rule await_bind [OF perf]) (simp add: received_ok [where deser = deser and b = b and x = x, OF b] rest)

lemma adj_val_ok:
  assumes ser: "adj_serial_ok V" and size: "adj_sizes V" and i: "1 \<le> i" "i \<le> n_clients V" and L: "L \<in> adj_libs V"
  shows "adj_val V m a (PK (adj_cid i)) \<noteq> []" "k_deser_pk (x_keys L) (adj_val V m a (PK (adj_cid i))) = Inr (pk_at (adj_nodes V) i)"
    "adj_val V m a (EM (adj_cid i)) \<noteq> []" "k_deser_ek (x_keys L) (adj_val V m a (EM (adj_cid i))) = Inr (path_em (adj_nodes V) (i - 1))"
    "adj_val V m a (MX (adj_cid i)) \<noteq> []" "k_deser_ek (x_keys L) (adj_val V m a (MX (adj_cid i))) = Inr (path_mix (adj_nodes V) (n_clients V) (n_clients V - i))"
    "adj_val V m a (CT (adj_cid i)) \<noteq> []" "x_deser_ct L (adj_val V m a (CT (adj_cid i))) = Inr (Some (m i))"
    "adj_val V m a (PCT (adj_cid i)) \<noteq> []" "x_deser_cts L (adj_val V m a (PCT (adj_cid i))) = Inr [Some (a i)]"
proof -
  have "unat (adj_cid i) = i" using i size by (intro adj_cid_simps [of i i]) (simp_all add: adj_sizes_def)
  then show "adj_val V m a (PK (adj_cid i)) \<noteq> []" "k_deser_pk (x_keys L) (adj_val V m a (PK (adj_cid i))) = Inr (pk_at (adj_nodes V) i)"
    "adj_val V m a (EM (adj_cid i)) \<noteq> []" "k_deser_ek (x_keys L) (adj_val V m a (EM (adj_cid i))) = Inr (path_em (adj_nodes V) (i - 1))"
    "adj_val V m a (MX (adj_cid i)) \<noteq> []" "k_deser_ek (x_keys L) (adj_val V m a (MX (adj_cid i))) = Inr (path_mix (adj_nodes V) (n_clients V) (n_clients V - i))"
    "adj_val V m a (CT (adj_cid i)) \<noteq> []" "x_deser_ct L (adj_val V m a (CT (adj_cid i))) = Inr (Some (m i))"
    "adj_val V m a (PCT (adj_cid i)) \<noteq> []" "x_deser_cts L (adj_val V m a (PCT (adj_cid i))) = Inr [Some (a i)]"
    using adj_serialD [OF ser] i L by simp_all
qed

lemma reads:
  assumes ser: "adj_serial_ok V" and size: "adj_sizes V" and i: "1 \<le> i" "i \<le> n_clients V" and L: "L \<in> adj_libs V"
  shows "adj_scripted V pm m a (f (pk_at (adj_nodes V) i)) ys q \<Longrightarrow> adj_scripted V pm m a
      (pbind (poll (\<lambda>s. t_PublicKeyToClient s (adj_cid i))) (\<lambda>ser. pbind (a_received what (k_deser_pk (x_keys L)) ser) f))
      (Await (PK (adj_cid i)) # ys) q"
    "adj_scripted V pm m a (g (path_em (adj_nodes V) (i - 1))) ys q \<Longrightarrow> adj_scripted V pm m a
      (pbind (poll (\<lambda>s. t_evalMultKeyToClient s (adj_cid i))) (\<lambda>ser. pbind (a_received what (k_deser_ek (x_keys L)) ser) g))
      (Await (EM (adj_cid i)) # ys) q"
    "adj_scripted V pm m a (g (path_mix (adj_nodes V) (n_clients V) (n_clients V - i))) ys q \<Longrightarrow> adj_scripted V pm m a
      (pbind (poll (\<lambda>s. t_evalMixMultKeyToClient s (adj_cid i))) (\<lambda>ser. pbind (a_received what (k_deser_ek (x_keys L)) ser) g))
      (Await (MX (adj_cid i)) # ys) q"
    "adj_scripted V pm m a (h (Some (m i))) ys q \<Longrightarrow> adj_scripted V pm m a
      (pbind (poll (\<lambda>s. t_CipherTextToClient s (adj_cid i))) (\<lambda>ser. pbind (a_received what (x_deser_ct L) ser) h))
      (Await (CT (adj_cid i)) # ys) q"
    "adj_scripted V pm m a (k [Some (a i)]) ys q \<Longrightarrow> adj_scripted V pm m a
      (pbind (poll (\<lambda>s. t_PartialCipherTextToClient s (adj_cid i))) (\<lambda>ser. pbind (a_received what (x_deser_cts L) ser) k))
      (Await (PCT (adj_cid i)) # ys) q"
  by (rule read_awaited [where deser = "k_deser_pk (x_keys L)", OF poll_awaits(1) [OF ser] adj_val_ok(1,2) [OF ser size i L]]
      read_awaited [where deser = "k_deser_ek (x_keys L)", OF poll_awaits(2) [OF ser] adj_val_ok(3,4) [OF ser size i L]]
      read_awaited [where deser = "k_deser_ek (x_keys L)", OF poll_awaits(3) [OF ser] adj_val_ok(5,6) [OF ser size i L]]
      read_awaited [where deser = "x_deser_ct L", OF poll_awaits(4) [OF ser] adj_val_ok(7,8) [OF ser size i L]]
      read_awaited [where deser = "x_deser_cts L", OF poll_awaits(5) [OF ser] adj_val_ok(9,10) [OF ser size i L]], assumption)+

lemma adj_keys: "x_keys (client_lib V j) = Lib (adj_nodes V) j"
  by (simp add: adj_nodes_def)

lemma adj_facts:
  assumes "adj_sizes V" "1 \<le> j" "j \<le> n_clients V"
  shows "unat (adj_cid j) = j" "adj_cid j = adj_cid (n_clients V) \<longleftrightarrow> j = n_clients V" "adj_cid j = 1 \<longleftrightarrow> j = 1" "1 < adj_cid j \<longleftrightarrow> 1 < j"
    "adj_cid j \<le> adj_cid (n_clients V)" "adj_cid j - 1 = adj_cid (j - 1)"
proof -
  have b: "j < 2 ^ 32" "n_clients V < 2 ^ 32" using assms by (simp_all add: adj_sizes_def)
  show "unat (adj_cid j) = j" "adj_cid j = adj_cid (n_clients V) \<longleftrightarrow> j = n_clients V" "adj_cid j = 1 \<longleftrightarrow> j = 1" "1 < adj_cid j \<longleftrightarrow> 1 < j"
    "adj_cid j \<le> adj_cid (n_clients V)" "adj_cid j - 1 = adj_cid (j - 1)"
    using adj_cid_simps [OF b] adj_cid_simps [OF b(2,1)] adj_cid_one [OF b(1)] adj_cid_arith(3) [OF assms(2)] assms(3)
    by simp_all
qed

lemma keygen_follows:
  assumes ser: "adj_serial_ok V" and size: "adj_sizes V" and j: "1 \<le> j" "j \<le> n_clients V"
  shows "adj_scripted V pm m a (a_keygen (client_lib V j) (Ctx (adj_nodes V) j) (adj_cid j) (adj_cid (n_clients V)))
    (keygen_script (n_clients V) j) (Ret (Inr (path_pair (adj_nodes V) (j - 1), adj_pk V)))"
proof -
  let ?n = "n_clients V" and ?K = "x_keys (client_lib V j)" and ?c = "Ctx (adj_nodes V) j" and ?P = "adj_nodes V"
  note facts = adj_facts [OF size j]
  have pair: "adj_scripted V pm m a
     (if adj_cid j = 1 then pret (k_KeyGen ?K ?c)
            else pbind (poll (\<lambda>s. t_PublicKeyToClient s (adj_cid j - 1))) (\<lambda>ser.
                 pbind (a_received ''public key'' (k_deser_pk ?K) ser) (\<lambda>prevPubKey. pret (k_MultipartyKeyGen ?K ?c prevPubKey))))
     (if j = 1 then [] else [Await (PK (adj_cid (j - 1)))]) (Ret (Inr (path_pair ?P (j - 1))))"
  proof (cases "j = 1")
    case True
    then show ?thesis using facts(3) adj_keys [of V j] by (simp add: adj.scripted_end)
  next
    case False
    then have "1 \<le> j - 1" "j - 1 \<le> ?n" using j by simp_all
    note read = reads(1) [OF ser size this adj_libs_in(3) [OF j]]
    obtain i where i: "j = Suc (Suc i)" using False j(1) by (cases j; cases "j - 1") auto
    then have "k_MultipartyKeyGen ?K ?c (pk_at ?P (j - 1)) = path_pair ?P (j - 1)" by (simp add: adj_keys pk_at_def)
    then have "adj_scripted V pm m a (pret (k_MultipartyKeyGen ?K ?c (pk_at ?P (j - 1)))) [] (Ret (Inr (path_pair ?P (j - 1))))"
      by (simp add: adj.scripted_end)
    then show ?thesis using False by (simp only: facts(3,6) if_False) (rule read)
  qed
  have pk: "k_ser_pk ?K (fst (path_pair ?P (j - 1))) = adj_val V m a (PK (adj_cid j))" by (simp add: facts(1) pk_at_def)
  note own = adj_val_ok(1,2) [OF ser size j adj_libs_in(3) [OF j]]
  have "1 \<le> ?n" using size by (simp add: adj_sizes_def)
  note read = reads(1) [OF ser size this order_refl adj_libs_in(3) [OF j]]
  have final: "adj_scripted V pm m a (if adj_cid j \<noteq> adj_cid ?n
     then pbind (poll (\<lambda>s. t_PublicKeyToClient s (adj_cid ?n))) (\<lambda>ser.
          pbind (a_received ''final public key'' (k_deser_pk ?K) ser) (\<lambda>FinalPubKey. pret (path_pair ?P (j - 1), FinalPubKey)))
     else pret (path_pair ?P (j - 1), fst (path_pair ?P (j - 1))))
     (if j = ?n then [] else [Await (PK (adj_cid ?n))]) (Ret (Inr (path_pair ?P (j - 1), adj_pk V)))"
  proof (cases "j = ?n")
    case True
    then show ?thesis using facts(2) by (simp add: adj_pk_def pk_at_def adj.scripted_end)
  next
    case False
    then have "adj_cid j \<noteq> adj_cid ?n" using facts(2) by simp
    then show ?thesis using False
      by (simp only: if_True if_False simp_thms) (rule read, simp add: adj_pk_def adj.scripted_end)
  qed
  show ?thesis
    unfolding a_keygen_def Let_def keygen_script_def
    by (rule adj.scripted_bind [OF pair], simp only: pk serialized_ok [OF own(1)] pbind_simps append.simps,
        rule puts(1) [OF ser final refl own(1)])
qed

lemma path_em_step:
  assumes "1 < j"
  shows "path_em P (j - 1) = k_MultiAddEvalKeys (Lib P j) (Ctx P j) (path_em P (j - 1 - 1))
    (k_MultiKeySwitchGen (Lib P j) (Ctx P j) (sk_at P j) (sk_at P j) (path_em P (j - 1 - 1))) (k_KeyTag (Lib P j) (pk_at P j))"
proof -
  obtain i where "j = Suc (Suc i)" using assms by (cases j; cases "j - 1") auto
  then show ?thesis by (simp add: Let_def)
qed

lemma first_follows:
  assumes ser: "adj_serial_ok V" and size: "adj_sizes V" and j: "1 \<le> j" "j \<le> n_clients V"
  shows "adj_scripted V pm m a (a_first_evalmult (client_lib V j) (Ctx (adj_nodes V) j) (adj_cid j) (adj_cid (n_clients V))
      (path_pair (adj_nodes V) (j - 1)) (adj_pk V)) (first_script (n_clients V) j) (Ret (Inr ()))"
proof -
  let ?n = "n_clients V" and ?K = "x_keys (client_lib V j)" and ?P = "adj_nodes V"
  note facts = adj_facts [OF size j]
  note own = adj_val_ok [OF ser size j adj_libs_in(3) [OF j], where m = m and a = a]
  have em: "k_ser_ek ?K (path_em ?P (j - 1)) = adj_val V m a (EM (adj_cid j))" by (simp add: facts(1))
  have pair: "snd (path_pair ?P (j - 1)) = sk_at ?P j" "fst (path_pair ?P (j - 1)) = pk_at ?P j" by (simp_all add: sk_at_def pk_at_def)
  show ?thesis
  proof (cases "j = 1")
    case True
    have "n_clients V \<noteq> 1" using size by (simp add: adj_sizes_def)
    then show ?thesis
      using True own(3) facts(3) em puts(2) [OF ser adj.scripted_end, of "adj_val V m a (EM (adj_cid j))" m a "adj_cid j" pm "pret ()"]
      by (simp add: a_first_evalmult_def first_script_def serialized_ok sk_at_def adj_keys Let_def)
  next
    case False
    then have i: "1 < j" "1 \<le> j - 1" "j - 1 \<le> ?n" using j by simp_all
    note read = reads(2) [OF ser size i(2,3) adj_libs_in(3) [OF j]]
    have mx: "k_ser_ek ?K (k_MultiMultEvalKey ?K (Ctx ?P j) (sk_at ?P j) (path_em ?P (j - 1)) (k_KeyTag ?K (adj_pk V))) = adj_val V m a (MX (adj_cid j))"
      if "j = ?n" using facts(1) unfolding that by (simp add: mix_own_def adj_keys adj_pk_def)
    have rest: "adj_scripted V pm m a (if adj_cid j = adj_cid ?n
       then pbind (a_serialized ''evalmultfinal key'' (k_ser_ek ?K (k_MultiMultEvalKey ?K (Ctx ?P j) (sk_at ?P j) (path_em ?P (j - 1)) (k_KeyTag ?K (adj_pk V)))))
          (\<lambda>evmmKey. pbind (t_evalMixMultKeyFromClient evmmKey (adj_cid j)) (\<lambda>_. pret ()))
       else pret ()) (if j = ?n then [Post (MX (adj_cid ?n))] else []) (Ret (Inr ()))"
    proof (cases "j = ?n")
      case True
      show ?thesis
        using True own(5) mx [OF True] puts(3) [OF ser adj.scripted_end, of "adj_val V m a (MX (adj_cid j))" m a "adj_cid j" pm "pret ()"]
        by (simp add: serialized_ok)
    next
      case False
      then show ?thesis using facts(2) by (simp add: adj.scripted_end)
    qed
    have em': "k_MultiAddEvalKeys ?K (Ctx ?P j) (path_em ?P (j - 1 - 1)) (k_MultiKeySwitchGen ?K (Ctx ?P j) (sk_at ?P j) (sk_at ?P j) (path_em ?P (j - 1 - 1)))
        (k_KeyTag ?K (pk_at ?P j)) = path_em ?P (j - 1)"
      using path_em_step [OF i(1), of ?P] by (simp add: adj_keys)
    have prog: "a_first_evalmult (client_lib V j) (Ctx ?P j) (adj_cid j) (adj_cid ?n) (path_pair ?P (j - 1)) (adj_pk V)
      = pbind (poll (\<lambda>s. t_evalMultKeyToClient s (adj_cid (j - 1)))) (\<lambda>ser.
        pbind (a_received ''previous client evalmult key'' (k_deser_ek ?K) ser) (\<lambda>prev.
         pbind (a_serialized ''eval key'' (k_ser_ek ?K (k_MultiAddEvalKeys ?K (Ctx ?P j) prev
            (k_MultiKeySwitchGen ?K (Ctx ?P j) (sk_at ?P j) (sk_at ?P j) prev) (k_KeyTag ?K (pk_at ?P j))))) (\<lambda>evKey.
         pbind (t_evalMultKeyFromClient evKey (adj_cid j)) (\<lambda>_.
         if adj_cid j = adj_cid ?n
         then pbind (a_serialized ''evalmultfinal key'' (k_ser_ek ?K (k_MultiMultEvalKey ?K (Ctx ?P j) (sk_at ?P j)
              (k_MultiAddEvalKeys ?K (Ctx ?P j) prev (k_MultiKeySwitchGen ?K (Ctx ?P j) (sk_at ?P j) (sk_at ?P j) prev) (k_KeyTag ?K (pk_at ?P j)))
                (k_KeyTag ?K (adj_pk V))))) (\<lambda>evmmKey.
              pbind (t_evalMixMultKeyFromClient evmmKey (adj_cid j)) (\<lambda>_. pret ()))
         else pret ()))))"
      using False i(1) by (simp only: a_first_evalmult_def Let_def pair facts(3,4,5,6) if_True if_False simp_thms)
    show ?thesis
      unfolding prog first_script_def
      using False by (simp only: if_False append.simps)
        (intro read, simp only: em' em serialized_ok [OF own(3)] pbind_simps, rule puts(2) [OF ser rest refl own(3)])
  qed
qed

lemma second_follows:
  assumes ser: "adj_serial_ok V" and size: "adj_sizes V" and j: "1 \<le> j" "j \<le> n_clients V"
  shows "adj_scripted V pm m a (a_second_evalmult (client_lib V j) (Ctx (adj_nodes V) j) (adj_cid j) (adj_cid (n_clients V))
      (path_pair (adj_nodes V) (j - 1)) (adj_pk V)) (second_script (n_clients V) j)
      (Ret (Inr (if j = 1 then adj_ctx V j else Ctx (adj_nodes V) j)))"
proof (cases "j = n_clients V")
  case True
  then have "j \<noteq> 1" using size by (simp add: adj_sizes_def)
  then show ?thesis using True by (simp add: a_second_evalmult_def second_script_def adj.scripted_end)
next
  case False
  let ?n = "n_clients V" and ?K = "x_keys (client_lib V j)" and ?P = "adj_nodes V" and ?L = "client_lib V j"
  note facts = adj_facts [OF size j]
  have n: "1 \<le> Suc j" "Suc j \<le> ?n" "1 \<le> ?n" "j < ?n" using j False by simp_all
  note own = adj_val_ok [OF ser size j adj_libs_in(3) [OF j], where m = m and a = a]
  note em = reads(2) [OF ser size n(3) order_refl adj_libs_in(3) [OF j]]
  note mx = reads(3) [OF ser size n(1,2) adj_libs_in(3) [OF j]]
  have mix: "k_ser_ek ?K (path_mix ?P ?n (?n - j)) = adj_val V m a (MX (adj_cid j))" by (simp add: facts(1))
  have sk: "snd (path_pair ?P (j - 1)) = sk_at ?P j" by (simp add: sk_at_def)
  note step = path_mix_step [OF j(1) n(4), of ?P, symmetric, folded adj_keys adj_pk_def]
  have result: "adj_scripted V pm m a (pret (if adj_cid j = 1 then x_InsertEvalMultKey ?L (Ctx ?P j) [path_mix ?P ?n (?n - j)] else Ctx ?P j)) []
    (Ret (Inr (if j = 1 then adj_ctx V j else Ctx ?P j)))"
    using facts(3) by (auto simp: adj.scripted_end adj_ctx_def adj_ek_def)
  have ne: "adj_cid j \<noteq> adj_cid ?n" using facts(2) False by simp
  show ?thesis
    unfolding a_second_evalmult_def second_script_def Let_def
    using False ne
    by (simp only: if_True if_False simp_thms sk adj_cid_arith(4), intro em mx)
      (simp only: step mix serialized_ok [OF own(5)] pbind_simps, rule puts(3) [OF ser result refl own(5)])
qed

lemma evalmult_follows:
  assumes ser: "adj_serial_ok V" and size: "adj_sizes V" and j: "1 \<le> j" "j \<le> n_clients V"
  shows "adj_scripted V pm m a (a_evalmult (client_lib V j) (Ctx (adj_nodes V) j) (adj_cid j) (adj_cid (n_clients V))
      (path_pair (adj_nodes V) (j - 1)) (adj_pk V))
      (first_script (n_clients V) j @ second_script (n_clients V) j @ final_script j) (Ret (Inr (adj_ctx V j)))"
proof -
  let ?n = "n_clients V" and ?K = "x_keys (client_lib V j)" and ?P = "adj_nodes V" and ?L = "client_lib V j"
  have n: "(1 :: nat) \<le> 1" "1 \<le> ?n" using j by simp_all
  note facts = adj_facts [OF size j]
  note mx = reads(3) [OF ser size n adj_libs_in(3) [OF j], unfolded adj_cid_arith(1)]
  have "adj_scripted V pm m a (pret (x_InsertEvalMultKey ?L (Ctx ?P j) [path_mix ?P ?n (?n - 1)])) [] (Ret (Inr (adj_ctx V j)))"
    by (simp add: adj_ctx_def adj_ek_def adj.scripted_end)
  note last = mx [where g = "\<lambda>k. pret (x_InsertEvalMultKey ?L (Ctx ?P j) [k])", OF this]
  have rest: "adj_scripted V pm m a
     (if adj_cid j \<noteq> 1
      then pbind (poll (\<lambda>s. t_evalMixMultKeyToClient s 1)) (\<lambda>ser.
           pbind (a_received ''evalmultfinal key'' (k_deser_ek ?K) ser) (\<lambda>evalMultFinal.
             pret (x_InsertEvalMultKey ?L (if j = 1 then adj_ctx V j else Ctx ?P j) [evalMultFinal])))
      else pret (if j = 1 then adj_ctx V j else Ctx ?P j)) (final_script j) (Ret (Inr (adj_ctx V j)))"
    using last facts(3) by (cases "j = 1") (simp_all add: final_script_def adj.scripted_end adj_cid_arith(1,2))
  show ?thesis
    unfolding a_evalmult_def
    by (rule adj.scripted_bind [OF first_follows [OF ser size j]], rule adj.scripted_bind [OF second_follows [OF ser size j]], rule rest)
qed

section \<open>Ciphertexts and partial decryptions\<close>

definition others :: "nat \<Rightarrow> nat list \<Rightarrow> nat list" where
  "others j is = filter (\<lambda>i. i \<noteq> j) is"

lemma others_simps [simp]: "others j [] = []" "others j (i # is) = (if i = j then others j is else i # others j is)"
  "set (others j is) = set is - {j}"
  by (auto simp: others_def)

lemma collect_cts_follows:
  assumes ser: "adj_serial_ok V" and size: "adj_sizes V" and j: "1 \<le> j" "j \<le> n_clients V" and "is": "set is \<subseteq> {1..n_clients V}"
  shows "adj_scripted V pm m a (a_collect_cts (client_lib V j) (adj_cid j) (Some (m j)) (map adj_cid is))
     (map (\<lambda>i. Await (CT (adj_cid i))) (others j is)) (Ret (Inr (map (\<lambda>i. Some (m i)) is)))"
  using "is"
proof (induction "is")
  case Nil
  then show ?case by (simp add: adj.scripted_end)
next
  case (Cons i "is")
  then have i: "1 \<le> i" "i \<le> n_clients V" by auto
  have b: "i < 2 ^ 32" "j < 2 ^ 32" using i j size by (simp_all add: adj_sizes_def)
  note cid = adj_cid_simps(2) [OF b(2,1)]
  have rest: "adj_scripted V pm m a (pbind (a_collect_cts (client_lib V j) (adj_cid j) (Some (m j)) (map adj_cid is)) (\<lambda>cts. pret (Some (m i) # cts)))
     (map (\<lambda>i. Await (CT (adj_cid i))) (others j is) @ []) (Ret (Inr (map (\<lambda>i. Some (m i)) (i # is))))"
    using Cons by (intro adj.scripted_bind [where x = "map (\<lambda>i. Some (m i)) is"]) (auto simp: adj.scripted_end)
  show ?case
  proof (cases "i = j")
    case True
    then show ?thesis using rest by simp
  next
    case False
    then have ne: "adj_cid j \<noteq> adj_cid i" using cid by simp
    have "adj_scripted V pm m a (pbind (poll (\<lambda>s. t_CipherTextToClient s (adj_cid i))) (\<lambda>ser.
                 pbind (a_received ''cipher text result'' (x_deser_ct (client_lib V j)) ser) (\<lambda>ClientCT.
                   if ClientCT = None then pthrow (Deserialize_error ''De-serialized client ciphertext is NULL'')
                   else pret ClientCT))) [Await (CT (adj_cid i))] (Ret (Inr (Some (m i))))"
      by (rule reads(4) [OF ser size i adj_libs_in(3) [OF j]]) (simp add: adj.scripted_end)
    from adj.scripted_bind [OF this, where f = "\<lambda>ct. pbind (a_collect_cts (client_lib V j) (adj_cid j) (Some (m j)) (map adj_cid is)) (\<lambda>cts. pret (ct # cts))", OF rest]
    show ?thesis using False ne by simp
  qed
qed

lemma collect_partials_follows:
  assumes ser: "adj_serial_ok V" and size: "adj_sizes V" and j: "1 \<le> j" "j \<le> n_clients V" and "is": "set is \<subseteq> {1..n_clients V}"
  shows "adj_scripted V pm m a (a_collect_partials (client_lib V j) (adj_cid j) [Some (a j)] (map adj_cid is))
     (map (\<lambda>i. Await (PCT (adj_cid i))) (others j is)) (Ret (Inr (map (\<lambda>i. Some (a i)) is)))"
  using "is"
proof (induction "is")
  case Nil
  then show ?case by (simp add: adj.scripted_end)
next
  case (Cons i "is")
  then have i: "1 \<le> i" "i \<le> n_clients V" by auto
  have b: "i < 2 ^ 32" "j < 2 ^ 32" using i j size by (simp_all add: adj_sizes_def)
  note cid = adj_cid_simps(2) [OF b(2,1)]
  let ?c = "\<lambda>is. a_collect_partials (client_lib V j) (adj_cid j) [Some (a j)] (map adj_cid is)"
  have rest: "adj_scripted V pm m a (pbind (?c is) (\<lambda>v. pret (Some (a i) # v)))
     (map (\<lambda>i. Await (PCT (adj_cid i))) (others j is) @ []) (Ret (Inr (map (\<lambda>i. Some (a i)) (i # is))))"
    using Cons by (intro adj.scripted_bind [where x = "map (\<lambda>i. Some (a i)) is"]) (auto simp: adj.scripted_end)
  show ?case
  proof (cases "i = j")
    case True
    then show ?thesis using rest by (simp add: Prelude.at_def)
  next
    case False
    then have ne: "adj_cid j \<noteq> adj_cid i" using cid by simp
    have "adj_scripted V pm m a (pbind (poll (\<lambda>s. t_PartialCipherTextToClient s (adj_cid i))) (\<lambda>ser.
                 pbind (a_received ''mult partial cipher text result'' (x_deser_cts (client_lib V j)) ser) (\<lambda>ciphertextPartial1.
                 pbind (plift (Prelude.at ''ciphertextPartial1'' ciphertextPartial1 0)) (\<lambda>x.
                   if x = None then pthrow (Deserialize_error ''De-serialized mult partial ciphertext is NULL'') else pret x))))
      [Await (PCT (adj_cid i))] (Ret (Inr (Some (a i))))"
      by (rule reads(5) [OF ser size i adj_libs_in(3) [OF j]]) (simp add: adj.scripted_end Prelude.at_def)
    from adj.scripted_bind [OF this, where f = "\<lambda>x. pbind (?c is) (\<lambda>v. pret (x # v))", OF rest]
    show ?thesis using False ne by simp
  qed
qed

end
