(* ===== verification/Adj_Correct.thy ===== *)
theory Adj_Correct
  imports Adj_Scripts
begin

text \<open>
  Any number of clients of the adjacent measurement demo, with the controller and the key server: in every interleaving
  the clients end and report the same indices. These are the ones at which the measurement of the first client minus
  those of all others, times the controller's mask, is not zero modulo the plaintext modulus.
\<close>

section \<open>The whole script\<close>

definition parties_of :: "nat \<Rightarrow> nat list" where
  "parties_of n = [1..<Suc n]"

definition ct_script :: "nat \<Rightarrow> nat \<Rightarrow> adj_key item list" where
  "ct_script n j = [Use {PK (adj_cid n), MX 1}, Post (CT (adj_cid j))] @ map (\<lambda>i. Await (CT (adj_cid i))) (others j (parties_of n))"

definition pct_script :: "nat \<Rightarrow> nat \<Rightarrow> adj_key item list" where
  "pct_script n j = [Post (PCT (adj_cid j)), Use {PCT (adj_cid j)}] @ map (\<lambda>i. Await (PCT (adj_cid i))) (others j (parties_of n))"

definition client_script :: "nat \<Rightarrow> nat \<Rightarrow> adj_key item list" where
  "client_script n j = [Use {}] @ keygen_script n j @ (first_script n j @ second_script n j @ final_script j) @ ct_script n j @ pct_script n j"

fun adj_rank :: "nat \<Rightarrow> adj_key \<Rightarrow> nat" where
  "adj_rank n (PK i) = unat i"
| "adj_rank n (EM i) = n + unat i"
| "adj_rank n (MX i) = 3 * n + 1 - unat i"
| "adj_rank n (CT i) = 4 * n"
| "adj_rank n (PCT i) = 4 * n + 1"

lemma parties_of_set [simp]: "set (parties_of n) = {1..n}"
  by (auto simp: parties_of_def)

lemma awaits_script:
  "posted (map (\<lambda>i. Await (f i)) is) = {}" "awaited (map (\<lambda>i. Await (f i)) is) = f ` set is" "known (map (\<lambda>i. Await (f i)) is) = f ` set is"
  "ordered lev (map (\<lambda>i. Await (f i)) is)" "guarded K (map (\<lambda>i. Await (f i)) is)"
proof -
  show post: "posted (map (\<lambda>i. Await (f i)) is) = {}" for "is" by (induction "is") simp_all
  show "awaited (map (\<lambda>i. Await (f i)) is) = f ` set is" "known (map (\<lambda>i. Await (f i)) is) = f ` set is" by (induction "is") simp_all
  show "ordered lev (map (\<lambda>i. Await (f i)) is)" by (induction "is") (simp_all add: post)
  show "guarded K (map (\<lambda>i. Await (f i)) is)" by (induction "is" arbitrary: K) simp_all
qed

lemma client_script_ok:
  assumes n: "2 \<le> n" "n < 2 ^ 32" and j: "1 \<le> j" "j \<le> n"
  shows "ordered (adj_rank n) (client_script n j)" "guarded {} (client_script n j)"
    "PK (adj_cid j) \<in> posted (client_script n j)" "EM (adj_cid j) \<in> posted (client_script n j)" "MX (adj_cid j) \<in> posted (client_script n j)"
    "CT (adj_cid j) \<in> posted (client_script n j)" "PCT (adj_cid j) \<in> posted (client_script n j)"
proof -
  have u: "unat (adj_cid i) = i" if "i \<le> n" for i using adj_cid_simps(1) [of i i] that n by simp
  have one: "unat (1 :: u32) = 1" "adj_cid (Suc 0) = 1" using adj_cid_arith by simp_all
  note sets = client_script_def keygen_script_def first_script_def second_script_def final_script_def ct_script_def pct_script_def
    script_append awaits_script
  show "ordered (adj_rank n) (client_script n j)"
    using n j by (auto simp: sets u one)
  show "guarded {} (client_script n j)"
    using n j by (auto simp: sets one)
  show "PK (adj_cid j) \<in> posted (client_script n j)" "EM (adj_cid j) \<in> posted (client_script n j)" "MX (adj_cid j) \<in> posted (client_script n j)"
    "CT (adj_cid j) \<in> posted (client_script n j)" "PCT (adj_cid j) \<in> posted (client_script n j)"
    using n j by (auto simp: sets)
qed

lemma client_scripts_ok:
  assumes n: "2 \<le> n" "n < 2 ^ 32"
  shows "scripts_ok (adj_rank n) {1..n} (client_script n)"
  unfolding scripts_ok_def
proof (intro conjI ballI)
  show "finite {1..n}" by simp
  fix j assume j: "j \<in> {1..n}"
  then show "ordered (adj_rank n) (client_script n j)" "guarded {} (client_script n j)"
    using client_script_ok(1,2) [OF n] by simp_all
  have i: "k (adj_cid i) \<in> (\<Union>c \<in> {1..n}. posted (client_script n c))"
    if "1 \<le> i" "i \<le> n" "k \<in> {PK, EM, MX, CT, PCT}" for i k
    using client_script_ok(3-) [OF n that(1,2)] that by auto
  have prev: "\<exists>i \<in> {Suc 0..n}. adj_cid (j - Suc 0) = adj_cid i" if "j \<noteq> Suc 0"
    using that j by (intro bexI [of _ "j - Suc 0"]) auto
  have "awaited (client_script n j) \<subseteq> (\<lambda>(k, i). k (adj_cid i)) ` ({PK, EM, MX, CT, PCT} \<times> {1..n})"
    using n j unfolding client_script_def keygen_script_def first_script_def second_script_def final_script_def ct_script_def pct_script_def
    by (auto simp: script_append awaits_script image_iff prev)
  also have "\<dots> \<subseteq> (\<Union>c \<in> {1..n}. posted (client_script n c))"
  proof (rule image_subsetI)
    fix x :: "(u32 \<Rightarrow> adj_key) \<times> nat" assume x: "x \<in> {PK, EM, MX, CT, PCT} \<times> {1..n}"
    obtain k h where kh: "x = (k, h)" by (cases x)
    show "(case x of (k, i) \<Rightarrow> k (adj_cid i)) \<in> (\<Union>c \<in> {1..n}. posted (client_script n c))"
      unfolding kh prod.case using x kh by (intro i) simp_all
  qed
  finally show "awaited (client_script n j) \<subseteq> (\<Union>c \<in> {1..n}. posted (client_script n c))" .
qed

section \<open>The scheme\<close>

definition adj_mod :: "('cc, 'pk, 'sk, 'ek, 'es, 'ct, 'pt) adj_setup \<Rightarrow> nat" where
  "adj_mod V = x_PlaintextModulus (controller_lib V) (adj_cc V)"

definition adj_partial :: "('cc, 'pk, 'sk, 'ek, 'es, 'ct, 'pt) adj_setup \<Rightarrow> nat \<Rightarrow> 'ct \<Rightarrow> 'ct option list result" where
  \<comment> \<open>the partial decryption of client j\<close>
  "adj_partial V j ct = (if j = 1 then x_MultipartyDecryptLead (client_lib V j) (adj_ctx V j) [Some ct] (sk_at (adj_nodes V) j)
     else x_MultipartyDecryptMain (client_lib V j) (adj_ctx V j) [Some ct] (sk_at (adj_nodes V) j))"

definition adj_fused_ok :: "('cc, 'pk, 'sk, 'ek, 'es, 'ct, 'pt) adj_setup \<Rightarrow> nat \<Rightarrow> (nat \<Rightarrow> 'ct) \<Rightarrow> (nat \<Rightarrow> int) \<Rightarrow> bool" where
  \<comment> \<open>client j reads u in the partial decryptions a\<close>
  "adj_fused_ok V j a u \<longleftrightarrow> (\<exists>pt.
     x_MultipartyDecryptFusion (client_lib V j) (adj_ctx V j) (map (\<lambda>i. Some (a i)) (parties_of (n_clients V))) = Inr pt
     \<and> (let v = x_GetPackedValue (client_lib V j) 12 pt in
        length v = 12 \<and> (\<forall>i < 12. \<bar>v ! i\<bar> < int (adj_mod V) \<and> int (adj_mod V) dvd v ! i - u i)))"

definition adj_eval_ok :: "('cc, 'pk, 'sk, 'ek, 'es, 'ct, 'pt) adj_setup \<Rightarrow> 'ct meaning \<Rightarrow> 'ct meaning \<Rightarrow> bool" where
  \<comment> \<open>fresh: of fresh encryptions under the joint key; enc: of their products and the differences of those\<close>
  "adj_eval_ok V fresh enc \<longleftrightarrow> (let K = controller_lib V; N = client_lib V; n = n_clients V in
     (\<forall>v pt. x_MakePackedPlaintext K (adj_cc V) v = Inr pt \<longrightarrow> fresh (x_Encrypt K (adj_cc V) (adj_pk V) pt) (slot v))
   \<and> (\<forall>j \<in> {1..n}. \<forall>v pt. x_MakePackedPlaintext (N j) (adj_ctx V j) v = Inr pt
        \<longrightarrow> fresh (x_Encrypt (N j) (adj_ctx V j) (adj_pk V) pt) (slot v))
   \<and> (\<forall>a b u w. fresh a u \<longrightarrow> fresh b w \<longrightarrow> enc (x_EvalMult K (adj_ctl_ctx V) a b) (\<lambda>i. u i * w i))
   \<and> (\<forall>j \<in> {1..n}. x_EvalSub (N j) (adj_ctx V j) = x_EvalSub (N 1) (adj_ctx V 1))
   \<and> (\<forall>a b u w. enc a u \<longrightarrow> enc b w
        \<longrightarrow> (\<exists>d. x_EvalSub (N 1) (adj_ctx V 1) (Some a) (Some b) = Inr d \<and> enc d (\<lambda>i. u i - w i))))"

definition adj_scheme_ok :: "('cc, 'pk, 'sk, 'ek, 'es, 'ct, 'pt) adj_setup \<Rightarrow> 'ct meaning \<Rightarrow> 'ct meaning \<Rightarrow> bool" where
  \<comment> \<open>a key may be inserted twice, and encryption does not depend on the inserted keys\<close>
  "adj_scheme_ok V fresh enc \<longleftrightarrow>
     65536 \<le> adj_mod V \<and> (\<forall>j \<in> {1..n_clients V}. x_PlaintextModulus (client_lib V j) (adj_ctx V j) = adj_mod V)
   \<and> x_InsertEvalMultKey (controller_lib V) (adj_ctl_ctx V) [adj_ek V] = adj_ctl_ctx V
   \<and> x_Encrypt (controller_lib V) (adj_ctl_ctx V) = x_Encrypt (controller_lib V) (adj_cc V)
   \<and> adj_eval_ok V fresh enc
   \<and> (\<forall>ct u. enc ct u \<longrightarrow> (\<exists>a. \<forall>j \<in> {1..n_clients V}. adj_partial V j ct = Inr [Some (a j)] \<and> adj_fused_ok V j a u))"

definition adj_packs :: "('cc, 'pk, 'sk, 'ek, 'es, 'ct, 'pt) adj_setup \<Rightarrow> bool" where
  \<comment> \<open>the measurements and the mask can be encoded\<close>
  "adj_packs V \<longleftrightarrow> (\<exists>pt. x_MakePackedPlaintext (controller_lib V) (adj_cc V) (adj_mask V) = Inr pt)
     \<and> (\<forall>j \<in> {1..n_clients V}. \<exists>pt. x_MakePackedPlaintext (client_lib V j) (adj_ctx V j) (read_ints (input_of V j)) = Inr pt)"

definition adj_value :: "('cc, 'pk, 'sk, 'ek, 'es, 'ct, 'pt) adj_setup \<Rightarrow> nat \<Rightarrow> int" where
  \<comment> \<open>the first measurement minus all others\<close>
  "adj_value V i = slot (read_ints (input_of V 1)) i - (\<Sum>j \<in> {2..n_clients V}. slot (read_ints (input_of V j)) i)"

definition adj_differ :: "('cc, 'pk, 'sk, 'ek, 'es, 'ct, 'pt) adj_setup \<Rightarrow> nat list" where
  "adj_differ V = filter (\<lambda>i. \<not> int (adj_mod V) dvd adj_value V i * int (rand_nums V i mod adj_mod V)) [0..<12]"

section \<open>The computation\<close>

lemma sub_loop_ok:
  assumes sub: "\<And>a b u w. enc a u \<Longrightarrow> enc b w \<Longrightarrow> \<exists>d. x_EvalSub L c (Some a) (Some b) = Inr d \<and> enc d (\<lambda>i. u i - w i :: int)"
    and enc: "enc ct u" "\<And>j. j \<in> set js \<Longrightarrow> enc (m j) (w j)"
  shows "\<exists>d. sub_loop L c (Some ct) (map (\<lambda>j. Some (m j)) js) = Inr (Some d) \<and> enc d (\<lambda>i. u i - (\<Sum>j\<leftarrow>js. w j i))"
  using enc
proof (induction js arbitrary: ct u)
  case Nil
  then show ?case by simp
next
  case (Cons j js)
  obtain d where d: "x_EvalSub L c (Some ct) (Some (m j)) = Inr d" "enc d (\<lambda>i. u i - w j i)"
    using sub [OF Cons.prems(1), of "m j" "w j"] Cons.prems(2) by auto
  have "\<exists>e. sub_loop L c (Some d) (map (\<lambda>j. Some (m j)) js) = Inr (Some e) \<and> enc e (\<lambda>i. (u i - w j i) - (\<Sum>j\<leftarrow>js. w j i))"
    by (rule Cons.IH [OF d(2)]) (use Cons.prems(2) in simp)
  then show ?case using d(1) by (simp add: diff_diff_eq)
qed

lemma sub_loop_cong:
  assumes "x_EvalSub L c = x_EvalSub L' c'"
  shows "sub_loop L c ct cts = sub_loop L' c' ct cts"
  using assms by (induction L c ct cts rule: sub_loop.induct) (auto split: sum.split simp: rbind_def)

lemma adj_differences:
  assumes "length v = 12" and v: "\<And>i. i < 12 \<Longrightarrow> \<bar>v ! i\<bar> < int (adj_mod V) \<and> int (adj_mod V) dvd v ! i - adj_value V i * slot (adj_mask V) i"
  shows "differences v [0..<12] = Inr (adj_differ V)"
proof -
  have "v ! i = 0 \<longleftrightarrow> int (adj_mod V) dvd adj_value V i * int (rand_nums V i mod adj_mod V)" if "i < 12" for i
  proof -
    have "slot (adj_mask V) i = int (rand_nums V i mod adj_mod V)" using that by (simp add: slot_def adj_mask_def adj_mod_def del: upt_Suc)
    then show ?thesis using zero_iff_dvd [of "v ! i" "int (adj_mod V)"] v [OF that] by (simp del: of_nat_mod)
  qed
  then have "filter (\<lambda>i. v ! i \<noteq> 0) [0..<12] = adj_differ V"
    unfolding adj_differ_def by (intro filter_cong) simp_all
  then show ?thesis using differences_eq [of "[0..<12]" v] assms(1) by simp
qed

section \<open>A client follows its script\<close>

lemma party_ids: "adj_sizes V \<Longrightarrow> a_party_ids (adj_cid (n_clients V)) = map adj_cid (parties_of (n_clients V))"
  using adj_cid_simps(1) [of "n_clients V" "n_clients V"] by (simp add: adj_sizes_def a_party_ids_def parties_of_def adj_cid_def fun_eq_iff)

lemma exchange_follows:
  assumes ser: "adj_serial_ok V" and size: "adj_sizes V" and scheme: "adj_scheme_ok V fresh enc" and j: "1 \<le> j" "j \<le> n_clients V"
    and mask: "x_MakePackedPlaintext (controller_lib V) (adj_cc V) (adj_mask V) = Inr pm"
    and px: "x_MakePackedPlaintext (client_lib V j) (adj_ctx V j) (read_ints (input_of V j)) = Inr px"
    and m: "m j = x_EvalMult (controller_lib V) (adj_ctl_ctx V) (x_Encrypt (controller_lib V) (adj_cc V) (adj_pk V) pm)
              (x_Encrypt (client_lib V j) (adj_ctx V j) (adj_pk V) px)"
  shows "adj_scripted V pm m a
    (a_exchange (client_lib V j) (adj_ctx V j) (adj_cid j) (the_measure V) (adj_cid (n_clients V)) (adj_pk V) (Some (input_of V j)))
    (ct_script (n_clients V) j) (Ret (Inr (map (\<lambda>i. Some (m i)) (parties_of (n_clients V)))))"
proof -
  let ?n = "n_clients V" and ?L = "client_lib V j" and ?K = "controller_lib V"
  let ?x = "x_Encrypt ?L (adj_ctx V j) (adj_pk V) px"
  have p: "65536 \<le> adj_mod V" "x_PlaintextModulus ?L (adj_ctx V j) = adj_mod V"
    "x_InsertEvalMultKey ?K (adj_ctl_ctx V) [adj_ek V] = adj_ctl_ctx V" "x_Encrypt ?K (adj_ctl_ctx V) = x_Encrypt ?K (adj_cc V)"
    using scheme j by (simp_all add: adj_scheme_ok_def)
  note facts = adj_facts [OF size j] and s = adj_serialD [OF ser]
  have own: "x_ser_ct ?L ?x \<noteq> []" "x_ser_ct ?K (m j) \<noteq> []" "x_deser_ct ?L (x_ser_ct ?K (m j)) = Inr (Some (m j))"
    "x_deser_ct (server_lib V) (x_ser_ct ?K (m j)) = Inr (Some (m (unat (adj_cid j))))"
    using s j facts(1) by simp_all
  have gen: "t_genCT ?L (adj_ctx V j) (adj_pk V) (Some (input_of V j)) = Inr ?x"
    using p px by (simp add: t_genCT_def)
  have "adj_performs V pm m a (t_CipherTextFromClientToController (x_ser_ct ?L ?x) (the_measure V))
    (Use {PK (adj_cid ?n), MX 1}) (Ret (Inr (x_ser_ct ?K (m j))))"
    using size j p(4) by (intro controller_call [where V = V and m = m and j = j, OF ser _ _ _ mask p(3) _ m]) (simp_all add: adj_sizes_def)
  note masked = adj.scripted_item [OF this adj.scripted_end]
  have rest: "adj_scripted V pm m a (a_collect_cts ?L (adj_cid j) (Some (m j)) (a_party_ids (adj_cid ?n)))
     (map (\<lambda>i. Await (CT (adj_cid i))) (others j (parties_of ?n))) (Ret (Inr (map (\<lambda>i. Some (m i)) (parties_of ?n))))"
    unfolding party_ids [OF size] by (rule collect_cts_follows [OF ser size j]) simp
  have "adj_scripted V pm m a
    (a_exchange ?L (adj_ctx V j) (adj_cid j) (the_measure V) (adj_cid ?n) (adj_pk V) (Some (input_of V j)))
    ([Use {PK (adj_cid ?n), MX 1}] @ Post (CT (adj_cid j)) # map (\<lambda>i. Await (CT (adj_cid i))) (others j (parties_of ?n)))
    (Ret (Inr (map (\<lambda>i. Some (m i)) (parties_of ?n))))"
    unfolding a_exchange_def gen prog_defs pbind_simps serialized_ok [OF own(1)]
    by (rule adj.scripted_bind [OF masked], unfold own(3) pbind_simps, rule puts(4) [OF ser rest own(2,4)])
  then show ?thesis by (simp add: ct_script_def)
qed

lemma decrypt_follows:
  assumes ser: "adj_serial_ok V" and size: "adj_sizes V" and j: "1 \<le> j" "j \<le> n_clients V"
    and part: "adj_partial V j ct = Inr [Some (a j)]" and fused: "adj_fused_ok V j a (\<lambda>i. adj_value V i * slot (adj_mask V) i)"
  shows "adj_scripted V pm m a (a_decrypt (client_lib V j) (adj_ctx V j) (adj_cid j) (adj_cid (n_clients V)) (sk_at (adj_nodes V) j) (Some ct))
    (pct_script (n_clients V) j) (Ret (Inr (adj_differ V)))"
proof -
  let ?n = "n_clients V" and ?L = "client_lib V j"
  note facts = adj_facts [OF size j] and s = adj_serialD [OF ser]
  have own: "x_ser_cts ?L [Some (a j)] \<noteq> []" "x_deser_cts (server_lib V) (x_ser_cts ?L [Some (a j)]) = Inr [Some (a (unat (adj_cid j)))]"
    using s j facts(1) by simp_all
  have part': "(if adj_cid j = 1 then x_MultipartyDecryptLead ?L (adj_ctx V j) [Some ct] (sk_at (adj_nodes V) j)
       else x_MultipartyDecryptMain ?L (adj_ctx V j) [Some ct] (sk_at (adj_nodes V) j)) = Inr [Some (a j)]"
    using part facts(3) by (simp add: adj_partial_def)
  obtain pt where pt: "x_MultipartyDecryptFusion ?L (adj_ctx V j) (map (\<lambda>i. Some (a i)) (parties_of ?n)) = Inr pt"
    "differences (x_GetPackedValue ?L 12 pt) [0..<12] = Inr (adj_differ V)"
    using fused adj_differences [of "x_GetPackedValue ?L 12 _"] by (auto simp: adj_fused_ok_def Let_def simp del: upt_Suc)
  have wait: "adj_scripted V pm m a (t_PartialCipherTextsReceivedWait (adj_cid j)) [Use {PCT (adj_cid j)}] (Ret (Inr True))"
    using received_call [OF ser] j by (intro adj.scripted_item [OF _ adj.scripted_end]) simp
  let ?finish = "\<lambda>v. pbind (plift (x_MultipartyDecryptFusion ?L (adj_ctx V j) v)) (\<lambda>pt. plift (differences (x_GetPackedValue ?L 12 pt) [0..<12]))"
  have "adj_scripted V pm m a (?finish (map (\<lambda>i. Some (a i)) (parties_of ?n))) [] (Ret (Inr (adj_differ V)))"
    by (simp add: pt adj.scripted_end del: upt_Suc)
  from adj.scripted_bind [OF collect_partials_follows [OF ser size j, of "parties_of ?n"], where f = ?finish, OF _ this]
  have coll: "adj_scripted V pm m a (pbind (a_collect_partials ?L (adj_cid j) [Some (a j)] (a_party_ids (adj_cid ?n))) ?finish)
     (map (\<lambda>i. Await (PCT (adj_cid i))) (others j (parties_of ?n))) (Ret (Inr (adj_differ V)))"
    by (simp add: party_ids [OF size])
  let ?rest = "\<lambda>sent. pbind (if sent then a_collect_partials ?L (adj_cid j) [Some (a j)] (a_party_ids (adj_cid ?n))
            else pret (replicate (unat (adj_cid ?n)) None)) ?finish"
  have "adj_scripted V pm m a (pbind (t_PartialCipherTextsReceivedWait (adj_cid j)) ?rest)
     ([Use {PCT (adj_cid j)}] @ map (\<lambda>i. Await (PCT (adj_cid i))) (others j (parties_of ?n))) (Ret (Inr (adj_differ V)))"
    by (rule adj.scripted_bind [OF wait]) (simp only: if_True coll)
  from puts(5) [OF ser this own] show ?thesis
    unfolding a_decrypt_def part' prog_defs pbind_simps serialized_ok [OF own(1)] by (simp add: pct_script_def)
qed

lemma client_follows:
  assumes ser: "adj_serial_ok V" and size: "adj_sizes V" and scheme: "adj_scheme_ok V fresh enc" and j: "1 \<le> j" "j \<le> n_clients V"
    and mask: "x_MakePackedPlaintext (controller_lib V) (adj_cc V) (adj_mask V) = Inr pm"
    and px: "x_MakePackedPlaintext (client_lib V j) (adj_ctx V j) (read_ints (input_of V j)) = Inr px"
    and m: "m j = x_EvalMult (controller_lib V) (adj_ctl_ctx V) (x_Encrypt (controller_lib V) (adj_cc V) (adj_pk V) pm)
              (x_Encrypt (client_lib V j) (adj_ctx V j) (adj_pk V) px)"
    and ct: "a_result (client_lib V j) (adj_ctx V j) (map (\<lambda>i. Some (m i)) (parties_of (n_clients V))) = Inr (Some ct)"
    and part: "adj_partial V j ct = Inr [Some (a j)]" and fused: "adj_fused_ok V j a (\<lambda>i. adj_value V i * slot (adj_mask V) i)"
  shows "adj_scripted V pm m a (thresh_client_measure (client_lib V j) (adj_cid j) (the_measure V) (adj_cid (n_clients V)) (Some (input_of V j)))
    (client_script (n_clients V) j) (Ret (Inr (adj_differ V)))"
proof -
  have ctx: "x_ClearKeys (client_lib V j) (adj_cc V) = Ctx (adj_nodes V) j" and sk: "snd (path_pair (adj_nodes V) (j - 1)) = sk_at (adj_nodes V) j"
    by (simp_all add: adj_nodes_def sk_at_def)
  note decrypt = decrypt_follows [OF ser size j part fused, of pm m]
  show ?thesis
    unfolding thresh_client_measure_def client_script_def
    by (rule adj.scripted_bind [OF context_call [OF ser adj_libs_in(3) [OF j]]], unfold ctx,
        rule adj.scripted_bind [OF keygen_follows [OF ser size j]], unfold prod.case,
        rule adj.scripted_bind [OF evalmult_follows [OF ser size j]],
        rule adj.scripted_bind [OF exchange_follows [where V = V and m = m and j = j, OF ser size scheme j mask px m]], unfold ct prog_defs pbind_simps sk, rule decrypt)
qed

section \<open>All clients\<close>

lemma adj_start_on:
  assumes ser: "adj_serial_ok V" and start: "adj_start V = Some w"
  shows "adj_on V pm m a {} w"
proof -
  let ?b = "x_ser_cc (server_lib V) (Some (adj_cc V))"
  have b: "?b \<noteq> []" "x_deser_cc (controller_lib V) ?b = Inr (Some (adj_cc V))"
    using adj_serialD(1,6) [OF ser adj_libs_in(1)] by simp_all
  have cc: "adj_state0 (server_lib V) = (adj_state0 (server_lib V))\<lparr>a_cc := Some (adj_cc V)\<rparr>"
    by (simp add: adj_state0_def a_initializeCC_def adj_cc_def)
  have "adj_handler (server_lib V) ACryptoContextRequestFromServer_Controller (adj_state0 (server_lib V))
      = (Inr (ACryptoContextReturn ?b), adj_state0 (server_lib V))"
    using b(1) by (subst (1 2) cc) (simp add: adj_step)
  then have "w = \<lparr> w_ks = adj_state0 (server_lib V), w_ks_up = True,
      w_ctl = \<lparr> controllercc = adj_cc V, random_s = Map.empty, drawn = 0 \<rparr>, w_ctl_up = True \<rparr>"
    using start b by (simp add: adj_start_def ctl_init_def i_CryptoContextRequestFromServer_Controller_def key_call_def ks_call_def
        abind_def require_def lift_r_def ret_def)
  moreover have "adj_look (server_lib V) (adj_state0 (server_lib V)) = (\<lambda>k. None)"
    by (rule look_eqI) (simp_all add: adj_state0_def a_initializeCC_def)
  moreover have "a_cc (adj_state0 (server_lib V)) = Some (adj_cc V)" by (simp add: adj_state0_def a_initializeCC_def adj_cc_def)
  ultimately show ?thesis by (simp add: adj_on_def ctl_ok_def)
qed

lemma adj_all_follow:
  assumes ser: "adj_serial_ok V" and size: "adj_sizes V" and scheme: "adj_scheme_ok V fresh enc" and packs: "adj_packs V"
  shows "\<exists>pm m a. \<forall>j \<in> {1..n_clients V}. adj_scripted V pm m a (the (adj_clients V j)) (client_script (n_clients V) j) (Ret (Inr (adj_differ V)))"
proof -
  let ?n = "n_clients V" and ?N = "client_lib V" and ?K = "controller_lib V" and ?xs = "\<lambda>j. slot (read_ints (input_of V j))"
  have "adj_eval_ok V fresh enc" and dec: "\<forall>ct u. enc ct u \<longrightarrow> (\<exists>a. \<forall>j \<in> {1..?n}. adj_partial V j ct = Inr [Some (a j)] \<and> adj_fused_ok V j a u)"
    using scheme by (simp_all add: adj_scheme_ok_def)
  note ev = this(1) [unfolded adj_eval_ok_def Let_def]
  note E = ev [THEN conjunct1, rule_format] ev [THEN conjunct2, THEN conjunct1, rule_format]
    ev [THEN conjunct2, THEN conjunct2, THEN conjunct1, rule_format]
    ev [THEN conjunct2, THEN conjunct2, THEN conjunct2, THEN conjunct1, rule_format]
    ev [THEN conjunct2, THEN conjunct2, THEN conjunct2, THEN conjunct2, rule_format] dec [rule_format]
  obtain pm where pm: "x_MakePackedPlaintext ?K (adj_cc V) (adj_mask V) = Inr pm" using packs by (auto simp: adj_packs_def)
  have "\<forall>j \<in> {1..?n}. \<exists>pt. x_MakePackedPlaintext (?N j) (adj_ctx V j) (read_ints (input_of V j)) = Inr pt"
    using packs by (simp add: adj_packs_def)
  then obtain px where px: "\<And>j. j \<in> {1..?n} \<Longrightarrow> x_MakePackedPlaintext (?N j) (adj_ctx V j) (read_ints (input_of V j)) = Inr (px j)"
    by metis
  define e where "e = x_Encrypt ?K (adj_cc V) (adj_pk V) pm"
  define m where "m j = x_EvalMult ?K (adj_ctl_ctx V) e (x_Encrypt (?N j) (adj_ctx V j) (adj_pk V) (px j))" for j
  have m: "enc (m j) (\<lambda>i. slot (adj_mask V) i * ?xs j i)" if "j \<in> {1..?n}" for j
    unfolding m_def e_def by (rule E(3) [OF E(1) [OF pm] E(2) [OF that px [OF that]]])
  have n: "1 \<in> {1..?n}" "parties_of ?n = 1 # [2..<Suc ?n]" using size by (auto simp: adj_sizes_def parties_of_def upt_rec numeral_2_eq_2)
  have tail: "enc (m j) (\<lambda>i. slot (adj_mask V) i * ?xs j i)" if "j \<in> set [2..<Suc ?n]" for j using that by (intro m) auto
  obtain d where d: "sub_loop (?N 1) (adj_ctx V 1) (Some (m 1)) (map (\<lambda>j. Some (m j)) [2..<Suc ?n]) = Inr (Some d)"
    "enc d (\<lambda>i. slot (adj_mask V) i * ?xs 1 i - (\<Sum>j\<leftarrow>[2..<Suc ?n]. slot (adj_mask V) i * ?xs j i))"
    using sub_loop_ok [where m = m and w = "\<lambda>j i. slot (adj_mask V) i * ?xs j i" and js = "[2..<Suc ?n]", OF E(5) m [OF n(1)]] tail
    by blast
  have "(\<Sum>j\<leftarrow>[2..<Suc ?n]. slot (adj_mask V) i * ?xs j i) = slot (adj_mask V) i * (\<Sum>j \<in> {2..?n}. ?xs j i)" for i
    by (simp add: interv_sum_list_conv_sum_set_nat sum_distrib_left atLeastLessThanSuc_atLeastAtMost del: upt_Suc)
  then have "enc d (\<lambda>i. adj_value V i * slot (adj_mask V) i)"
    using d(2) by (simp add: adj_value_def algebra_simps del: upt_Suc)
  from E(6) [OF this] obtain a where a: "\<And>j. j \<in> {1..?n} \<Longrightarrow> adj_partial V j d = Inr [Some (a j)]"
    "\<And>j. j \<in> {1..?n} \<Longrightarrow> adj_fused_ok V j a (\<lambda>i. adj_value V i * slot (adj_mask V) i)" by blast
  have "adj_scripted V pm m a (the (adj_clients V j)) (client_script ?n j) (Ret (Inr (adj_differ V)))" if j: "j \<in> {1..?n}" for j
  proof -
    have "a_result (?N j) (adj_ctx V j) (map (\<lambda>i. Some (m i)) (parties_of ?n)) = Inr (Some d)"
      unfolding n(2) a_result_def using sub_loop_cong [OF E(4) [OF j]] d(1) by (simp del: upt_Suc)
    from client_follows [where V = V and m = m and a = a and j = j, OF ser size scheme _ _ pm px [OF j] m_def [unfolded e_def] this a [OF j]] j
    show ?thesis by (simp add: adj_clients_def)
  qed
  then show ?thesis by blast
qed

text \<open>C12: any number of clients, from two, of the adjacent measurement demo, each with its input file, with the key
  server and the controller. In every interleaving, a client that has ended reports a difference at exactly the
  indices i below twelve at which (x_1 - x_2 - ... - x_n)_i * r_i is not zero modulo the plaintext modulus,
  for the mask r drawn by the controller; and whatever has happened so far, the run can go on until all
  clients have reported.\<close>

theorem adjacent_measure_correct:
  assumes size: "adj_sizes V" and ser: "adj_serial_ok V" and scheme: "adj_scheme_ok V fresh enc" and packs: "adj_packs V"
    and started: "adj_start V = Some (world y)" "clients y = adj_clients V" and reach: "call_reach (adj_rel V) y u"
  shows "(\<forall>j \<in> {1..n_clients V}. \<forall>r. clients u j = Some (Ret r) \<longrightarrow> r = Inr (adj_differ V))
    \<and> (\<exists>z. call_reach (adj_rel V) u z \<and> (\<forall>j \<in> {1..n_clients V}. clients z j = Some (Ret (Inr (adj_differ V)))))"
proof -
  obtain pm m a where follow: "\<And>j. j \<in> {1..n_clients V} \<Longrightarrow>
      adj_scripted V pm m a (the (adj_clients V j)) (client_script (n_clients V) j) (Ret (Inr (adj_differ V)))"
    using adj_all_follow [OF ser size scheme packs] by blast
  have n: "2 \<le> n_clients V" "n_clients V < 2 ^ 32" using size by (simp_all add: adj_sizes_def)
  show ?thesis
  proof (rule adj.board_outcome [OF client_scripts_ok [OF n] _ adj_start_on [OF ser started(1), of pm m a] _ reach])
    show "dom (clients y) = {1..n_clients V}" by (auto simp: started(2) adj_clients_def split: if_splits)
    show "adj_scripted V pm m a (the (clients y j)) (client_script (n_clients V) j) (Ret (Inr (adj_differ V)))"
      if "j \<in> {1..n_clients V}" for j
      using follow [OF that] by (simp add: started(2))
  qed
qed

section \<open>A concrete instance\<close>

fun dec_cts :: "nat list \<Rightarrow> nat list option list" where
  "dec_cts [] = []"
| "dec_cts (0 # ns) = None # dec_cts ns"
| "dec_cts (Suc k # ns) = Some (take k ns) # dec_cts (drop k ns)"

definition enc_cts :: "nat list option list \<Rightarrow> nat list" where
  "enc_cts = concat \<circ> map (\<lambda>ct. case ct of None \<Rightarrow> [0] | Some ns \<Rightarrow> Suc (length ns) # ns)"

lemma dec_enc_cts: "dec_cts (enc_cts cts) = cts"
  by (induction cts) (auto simp: enc_cts_def split: option.split)

definition toy_adj :: "(nat, nat, nat, nat, nat, nat list, int list) adj_lib" where
  "toy_adj = \<lparr> x_keys = toy_path, x_GenCryptoContext = (\<lambda>_. 0),
     x_ser_cc = (\<lambda>c. case c of None \<Rightarrow> [] | Some n \<Rightarrow> enc_nats [n]), x_deser_cc = (\<lambda>s. Inr (Some (hd (dec_nats s)))),
     x_ser_ct = (\<lambda>ns. enc_nats (0 # ns)), x_deser_ct = (\<lambda>s. Inr (Some (tl (dec_nats s)))),
     x_ser_cts = (\<lambda>cts. enc_nats (0 # enc_cts cts)), x_deser_cts = (\<lambda>s. Inr (dec_cts (tl (dec_nats s)))),
     x_ClearKeys = (\<lambda>c. c), x_InsertEvalMultKey = (\<lambda>c _. c), x_PlaintextModulus = (\<lambda>_. 65537),
     x_MakePackedPlaintext = (\<lambda>_ v. Inr v), x_Encrypt = m_Encrypt toy_bfv, x_EvalMult = m_EvalMult toy_bfv,
     x_EvalSub = (\<lambda>c a b. case (a, b) of (Some a, Some b) \<Rightarrow> Inr (m_EvalSub toy_bfv c a b) | _ \<Rightarrow> Inl (Undefined ''null ciphertext'')),
     x_MultipartyDecryptLead = (\<lambda>_ cts _. Inr cts), x_MultipartyDecryptMain = (\<lambda>_ cts _. Inr cts),
     x_MultipartyDecryptFusion = (\<lambda>_ cts. case cts of Some ct # _ \<Rightarrow> Inr (map int ct) | _ \<Rightarrow> Inl (Undefined ''null ciphertext'')),
     x_GetPackedValue = take \<rparr>"

definition toy_setup :: "(nat, nat, nat, nat, nat, nat list, int list) adj_setup" where
  \<comment> \<open>three clients with the same measurement\<close>
  "toy_setup = \<lparr> server_lib = toy_adj, controller_lib = toy_adj, client_lib = (\<lambda>_. toy_adj), n_clients = 3, the_measure = 7,
     rand_nums = toy_masks, input_of = (\<lambda>_. ''1 2 3'') \<rparr>"

lemma toy_setup_serial: "adj_serial_ok toy_setup"
proof -
  have "adj_libs toy_setup = {toy_adj}" by (auto simp: adj_libs_def toy_setup_def)
  moreover have "adj_serial toy_adj toy_adj"
    by (simp add: adj_serial_def toy_adj_def toy_path_def dec_enc_cts)
  ultimately show ?thesis by (simp add: adj_serial_ok_def)
qed

lemma toy_fused:
  assumes "toy_slots ct u"
  shows "adj_fused_ok toy_setup j (\<lambda>_. ct) u"
proof -
  have "\<bar>int (nat (u i mod 65537))\<bar> < 65537 \<and> 65537 dvd int (nat (u i mod 65537)) - u i" for i
    by simp (metis dvd_minus_mod dvd_diff_commute)
  moreover have "parties_of 3 = [1, 2, 3]" by (simp add: parties_of_def upt_rec)
  ultimately show ?thesis
    using assms by (simp add: adj_fused_ok_def Let_def adj_mod_def toy_setup_def toy_adj_def toy_slots_def del: upt_Suc)
qed

lemma toy_setup_scheme: "adj_scheme_ok toy_setup toy_slots toy_slots"
proof -
  have ev: "bfv_eval_ok toy_bfv c pk toy_slots" for c pk by (rule toy_eval)
  have lib: "client_lib toy_setup j = toy_adj" "controller_lib toy_setup = toy_adj" for j by (simp_all add: toy_setup_def)
  have ctx: "adj_ctx toy_setup j = 0" "adj_ctl_ctx toy_setup = 0" for j
    by (simp_all add: adj_ctx_def adj_ctl_ctx_def adj_nodes_def adj_cc_def toy_setup_def toy_adj_def)
  have pack: "x_Encrypt toy_adj = m_Encrypt toy_bfv" "x_EvalMult toy_adj = m_EvalMult toy_bfv" "x_MakePackedPlaintext toy_adj c v = Inr v"
    "x_EvalSub toy_adj c (Some a) (Some b) = Inr (m_EvalSub toy_bfv c a b)" "m_MakePackedPlaintext toy_bfv c v = Inr v" for c v a b
    by (simp_all add: toy_adj_def) (simp add: toy_bfv_def)
  have "adj_eval_ok toy_setup toy_slots toy_slots"
    unfolding adj_eval_ok_def Let_def lib ctx pack
    using eval_ok_encrypt [OF ev] eval_ok_ops [OF ev] by (simp add: pack)
  moreover have "\<exists>a. \<forall>j \<in> {1..n_clients toy_setup}. adj_partial toy_setup j ct = Inr [Some (a j)] \<and> adj_fused_ok toy_setup j a u"
    if "toy_slots ct u" for ct u
  proof (intro exI [of _ "\<lambda>_. ct"] ballI conjI)
    show "adj_partial toy_setup j ct = Inr [Some ct]" for j by (simp add: adj_partial_def toy_setup_def toy_adj_def)
  qed (rule toy_fused [OF that])
  ultimately show ?thesis
    unfolding adj_scheme_ok_def by (simp add: adj_mod_def toy_setup_def toy_adj_def adj_ctl_ctx_def)
qed

lemma toy_setup_starts: "\<exists>w. adj_start toy_setup = Some w"
  by (simp add: adj_start_def ctl_init_def i_CryptoContextRequestFromServer_Controller_def key_call_def ks_call_def adj_step
      abind_def require_def lift_r_def ret_def adj_state0_def a_initializeCC_def toy_setup_def toy_adj_def)

lemma adjacent_measure_correct_witness:
  "\<exists>y u. clients y = adj_clients toy_setup \<and> call_reach (adj_rel toy_setup) y u
     \<and> (\<forall>j \<in> {1, 2, 3}. clients u j = Some (Ret (Inr [1, 2])))"
proof -
  obtain w where w: "adj_start toy_setup = Some w" using toy_setup_starts by blast
  define y where "y = \<lparr> clients = adj_clients toy_setup, world = w \<rparr>"
  have y: "adj_start toy_setup = Some (world y)" "clients y = adj_clients toy_setup" by (simp_all add: y_def w)
  have size: "adj_sizes toy_setup" by (simp add: adj_sizes_def toy_setup_def)
  have packs: "adj_packs toy_setup" by (simp add: adj_packs_def toy_setup_def toy_adj_def)
  have "read_ints ''1 2 3'' = [1, 2, 3]" by code_simp
  then have "adj_value toy_setup i = - slot [1, 2, 3] i" "adj_mod toy_setup = 65537" for i
    by (simp_all add: adj_value_def adj_mod_def toy_setup_def toy_adj_def)
  then have d: "adj_differ toy_setup = [1, 2]"
    by (simp add: adj_differ_def toy_setup_def toy_masks_def slot_def upt_rec)
  have "{1..n_clients toy_setup} = {1, 2, 3}" by (auto simp: toy_setup_def)
  then show ?thesis
    using adjacent_measure_correct [OF size toy_setup_serial toy_setup_scheme packs y call_reach_refl] y(2) unfolding d by auto
qed

section \<open>A ciphertext that is too early\<close>

lemma early_throws:
  assumes early: "adj_look S s (PK parties) = None \<or> adj_look S s (MX 1) = None"
  shows "\<exists>e st. ControllerCipherTextRequestServicer L rand parties (ks_call S) ctext mid (cs, s, up) = (Inl e, st)"
proof (cases "ctext \<noteq> [] \<and> (\<exists>ct. x_deser_ct L ctext = Inr (Some ct)) \<and> up")
  case True
  obtain s1 where s1: "with_ks (i_JointPublicKeyToController (ks_call S) [] parties) (cs, s, True)
      = (Inr (adj_look S s (PK parties) \<noteq> None, case adj_look S s (PK parties) of None \<Rightarrow> [] | Some b \<Rightarrow> b), (cs, s1, True))"
    "same_board s s1 S"
    using joint_keys_calls(1) [of S parties cs s] by (elim exE conjE)
  obtain s2 where s2: "with_ks (i_EvalMultKeyToController (ks_call S) []) (cs, s1, True)
      = (Inr (adj_look S s (MX 1) \<noteq> None, case adj_look S s (MX 1) of None \<Rightarrow> [] | Some b \<Rightarrow> b), (cs, s2, True))"
    using joint_keys_calls(2) [of S cs s1] s1(2) unfolding same_board_def by metis
  from early show ?thesis
    using True s1(1) s2
    by (auto simp: ControllerCipherTextRequestServicer_def abind_def require_def lift_r_def throw_def ret_def simp del: adj_look.simps
        split: option.splits sum.splits)
next
  case False
  then show ?thesis
    by (auto simp: ControllerCipherTextRequestServicer_def abind_def require_def lift_r_def throw_def ret_def with_ks_def
        i_JointPublicKeyToController_def key_call_def split: option.splits sum.splits)
qed

text \<open>C21: a ciphertext that reaches the controller before the key server has the public key of the last client and the
  mixed evaluation key of the first one ends the controller: the call fails, and so does every later one.\<close>

theorem early_ciphertext_ends_controller:
  assumes "w_ctl_up w" and early: "adj_look S (w_ks w) (PK parties) = None \<or> adj_look S (w_ks w) (MX 1) = None"
  shows "\<exists>w'. adj_exec S L rand parties (ToController ctext mid) w = (Inl ''UNAVAILABLE'', w') \<and> \<not> w_ctl_up w'
    \<and> adj_exec S L rand parties (ToController ctext' mid') w' = (Inl ''UNAVAILABLE'', w')"
proof -
  obtain e cs s up where "ControllerCipherTextRequestServicer L rand parties (ks_call S) ctext mid (w_ctl w, w_ks w, w_ks_up w) = (Inl e, (cs, s, up))"
    using early_throws [OF early, of L rand ctext mid "w_ctl w" "w_ks_up w"] by (metis prod_cases3)
  then show ?thesis using assms(1) by (simp add: adj_exec_def)
qed

lemma early_ciphertext_ends_controller_witness:
  "\<exists>w w'. adj_start toy_setup = Some w \<and> adj_exec toy_adj toy_adj toy_masks 3 (ToController ''y'' 7) w = (Inl ''UNAVAILABLE'', w')
    \<and> \<not> w_ctl_up w'"
proof -
  obtain w where w: "adj_start toy_setup = Some w" using toy_setup_starts by blast
  from adj_start_on [OF toy_setup_serial this] have on: "adj_on toy_setup [] (\<lambda>_. []) (\<lambda>_. []) {} w" .
  have "adj_look toy_adj (w_ks w) (PK 3) = None" using adj_onD(5) [OF on, of "PK 3"] by (simp add: toy_setup_def del: adj_look.simps)
  then show ?thesis using early_ciphertext_ends_controller [OF adj_onD(2) [OF on], of toy_adj 3 toy_adj toy_masks "''y''" 7] w by blast
qed

end
