(* ===== verification/Fhe_Examples.thy ===== *)
theory Fhe_Examples
  imports Complex_Main Path_Correct Measure_Controller_Correct
begin

text \<open>
  The examples that run all parties in one process: \<^verbatim>\<open>threshold_fhe.cpp\<close> (three parties with BGV, two with BFV and
  with CKKS) and \<^verbatim>\<open>threshold_fhe_aborts.cpp\<close> (three parties with BFV, one of which drops out and is recovered from
  the shares of its key). The result of an example is the list of the plaintexts it prints. Their joint keys
  are those that the nodes of the path protocol agree on (\<open>final_keys\<close>).
\<close>

section \<open>Library\<close>

record fhe_params =
  fp_scheme :: string
  fp_set :: "(string \<times> string) list" \<comment> \<open>the setters called, in order\<close>
  fp_enabled :: "string list"

record ('cc, 'pk, 'sk, 'ek, 'es, 'ct, 'pt, 'sh) fhe_lib =
  f_keys :: "('cc, 'pk, 'sk, 'ek, 'es) path_lib"
  f_GenCryptoContext :: "fhe_params \<Rightarrow> 'cc"
  f_good :: "'pk \<times> 'sk \<Rightarrow> bool"
  f_EvalKeyTag :: "'ek \<Rightarrow> string"
  f_InsertEvalMultKey :: "'cc \<Rightarrow> 'ek list \<Rightarrow> 'cc"
  f_InsertEvalSumKey :: "'cc \<Rightarrow> 'es \<Rightarrow> 'cc"
  f_MakePackedPlaintext :: "'cc \<Rightarrow> int list \<Rightarrow> 'pt"
  f_MakeCKKSPackedPlaintext :: "'cc \<Rightarrow> rat list \<Rightarrow> 'pt"
  f_GetLength :: "'pt \<Rightarrow> nat"
  f_SetLength :: "nat \<Rightarrow> 'pt \<Rightarrow> 'pt"
  f_Encrypt :: "'cc \<Rightarrow> 'pk \<Rightarrow> 'pt \<Rightarrow> 'ct"
  f_EvalAdd :: "'cc \<Rightarrow> 'ct \<Rightarrow> 'ct \<Rightarrow> 'ct"
  f_EvalMult :: "'cc \<Rightarrow> 'ct \<Rightarrow> 'ct \<Rightarrow> 'ct"
  f_ModReduce :: "'cc \<Rightarrow> 'ct \<Rightarrow> 'ct"
  f_EvalSum :: "'cc \<Rightarrow> 'ct \<Rightarrow> u32 \<Rightarrow> 'ct"
  f_MultipartyDecryptLead :: "'cc \<Rightarrow> 'ct list \<Rightarrow> 'sk \<Rightarrow> 'ct list"
  f_MultipartyDecryptMain :: "'cc \<Rightarrow> 'ct list \<Rightarrow> 'sk \<Rightarrow> 'ct list"
  f_MultipartyDecryptFusion :: "'cc \<Rightarrow> 'ct list \<Rightarrow> 'pt"
  f_ShareKeys :: "'cc \<Rightarrow> 'sk \<Rightarrow> u32 \<Rightarrow> u32 \<Rightarrow> u32 \<Rightarrow> string \<Rightarrow> (u32 \<rightharpoonup> 'sh)"
  f_RecoverSharedKey :: "'cc \<Rightarrow> (u32 \<rightharpoonup> 'sh) \<Rightarrow> u32 \<Rightarrow> u32 \<Rightarrow> string \<Rightarrow> 'sk result"

definition bgv_params :: fhe_params where
  "bgv_params = \<lparr> fp_scheme = ''BGVRNS'',
     fp_set = [(''PlaintextModulus'', ''65537''), (''SecurityLevel'', ''HEStd_128_classic'')],
     fp_enabled = [''PKE'', ''LEVELEDSHE'', ''MULTIPARTY''] \<rparr>"

definition bfv_example_params :: fhe_params where
  "bfv_example_params = \<lparr> fp_scheme = ''BFVRNS'',
     fp_set = [(''PlaintextModulus'', ''65537''), (''SecurityLevel'', ''HEStd_128_classic''), (''StandardDeviation'', ''3.2''),
       (''SecretKeyDist'', ''UNIFORM_TERNARY''), (''MultiplicativeDepth'', ''2''), (''BatchSize'', ''1024''), (''DigitSize'', ''30''),
       (''ScalingModSize'', ''60'')],
     fp_enabled = [''PKE'', ''LEVELEDSHE'', ''ADVANCEDSHE'', ''MULTIPARTY''] \<rparr>"

definition ckks_example_params :: fhe_params where
  "ckks_example_params = \<lparr> fp_scheme = ''CKKSRNS'',
     fp_set = [(''SecurityLevel'', ''HEStd_128_classic''), (''StandardDeviation'', ''3.2''),
       (''SecretKeyDist'', ''UNIFORM_TERNARY''), (''MultiplicativeDepth'', ''3''), (''BatchSize'', ''16''), (''DigitSize'', ''5''),
       (''ScalingModSize'', ''50''), (''NumLargeDigits'', ''2'')],
     fp_enabled = [''PKE'', ''LEVELEDSHE'', ''ADVANCEDSHE'', ''MULTIPARTY''] \<rparr>"

section \<open>Distributed decryption\<close>

fun main_parts :: "('cc, 'pk, 'sk, 'ek, 'es, 'ct, 'pt, 'sh) fhe_lib \<Rightarrow> 'cc \<Rightarrow> 'ct \<Rightarrow> 'sk list \<Rightarrow> 'ct list result" where
  \<comment> \<open>the partial decryptions of the second party and those after it\<close>
  "main_parts L c ct [] = Inr []"
| "main_parts L c ct (sk # sks) =
     rbind (Prelude.at ''ciphertextPartial'' (f_MultipartyDecryptMain L c [ct] sk) 0) (\<lambda>p.
     rbind (main_parts L c ct sks) (\<lambda>ps. Inr (p # ps)))"

definition distributed_decrypt ::
  "('cc, 'pk, 'sk, 'ek, 'es, 'ct, 'pt, 'sh) fhe_lib \<Rightarrow> 'cc \<Rightarrow> nat \<Rightarrow> 'sk \<Rightarrow> 'sk list \<Rightarrow> 'ct \<Rightarrow> 'pt result" where
  \<comment> \<open>MultipartyDecryptLead by the first party, MultipartyDecryptMain by the others, MultipartyDecryptFusion, SetLength\<close>
  "distributed_decrypt L c len lead others ct =
     rbind (Prelude.at ''ciphertextPartial1'' (f_MultipartyDecryptLead L c [ct] lead) 0) (\<lambda>p.
     rbind (main_parts L c ct others) (\<lambda>ps.
       Inr (f_SetLength L len (f_MultipartyDecryptFusion L c (p # ps)))))"

section \<open>Addition with three parties\<close>

definition RunBGVrnsAdditive :: "('cc, 'pk, 'sk, 'ek, 'es, 'ct, 'pt, 'sh) fhe_lib \<Rightarrow> 'pt list result" where
  "RunBGVrnsAdditive L =
     (let c = f_GenCryptoContext L bgv_params;
          kp1 = k_KeyGen (f_keys L) c;
          kp2 = k_MultipartyKeyGen (f_keys L) c (fst kp1);
          kp3 = k_MultipartyKeyGen (f_keys L) c (fst kp2)
      in if \<not> f_good L kp1 \<or> \<not> f_good L kp2 \<or> \<not> f_good L kp3 then Inl (Exit_failure ''Key generation failed!'')
         else let plaintext1 = f_MakePackedPlaintext L c [1, 1, 1, 1, 1, 1, 1, 0, 0, 0, 0, 0];
                  plaintext2 = f_MakePackedPlaintext L c [1, 0, 0, 1, 1, 0, 0, 0, 0, 0, 0, 0];
                  plaintext3 = f_MakePackedPlaintext L c [1, 2, 3, 4, 5, 6, 7, 8, 9, 10, 0, 0];
                  ciphertext1 = f_Encrypt L c (fst kp3) plaintext1;
                  ciphertext2 = f_Encrypt L c (fst kp3) plaintext2;
                  ciphertext3 = f_Encrypt L c (fst kp3) plaintext3;
                  ciphertextAdd123 = f_EvalAdd L c (f_EvalAdd L c ciphertext1 ciphertext2) ciphertext3
              in rbind (distributed_decrypt L c (f_GetLength L plaintext1) (snd kp1) [snd kp2, snd kp3] ciphertextAdd123) (\<lambda>plaintextMultipartyNew.
                   Inr [plaintext1, plaintext2, plaintext3, plaintextMultipartyNew]))"

section \<open>Two parties\<close>

definition two_party_keys ::
  "('cc, 'pk, 'sk, 'ek, 'es, 'ct, 'pt, 'sh) fhe_lib \<Rightarrow> 'cc \<Rightarrow> ('pk \<times> 'sk) \<times> ('pk \<times> 'sk) \<times> 'ek \<times> 'es" where
  \<comment> \<open>the key pairs, evalMultFinal and evalSumKeysJoin\<close>
  "two_party_keys L c =
     (let K = f_keys L;
          kp1 = k_KeyGen K c;
          evalMultKey = k_KeySwitchGen K c (snd kp1) (snd kp1);
          evalSumKeys = k_EvalSumKeyGen K c (snd kp1);
          kp2 = k_MultipartyKeyGen K c (fst kp1);
          tag = k_KeyTag K (fst kp2);
          evalMultKey2 = k_MultiKeySwitchGen K c (snd kp2) (snd kp2) evalMultKey;
          evalMultAB = k_MultiAddEvalKeys K c evalMultKey evalMultKey2 tag;
          evalMultBAB = k_MultiMultEvalKey K c (snd kp2) evalMultAB tag;
          evalSumKeysB = k_MultiEvalSumKeyGen K c (snd kp2) evalSumKeys tag;
          evalSumKeysJoin = k_MultiAddEvalSumKeys K c evalSumKeys evalSumKeysB tag;
          evalMultAAB = k_MultiMultEvalKey K c (snd kp1) evalMultAB tag;
          evalMultFinal = k_MultiAddEvalMultKeys K c evalMultAAB evalMultBAB (f_EvalKeyTag L evalMultAB)
      in (kp1, kp2, evalMultFinal, evalSumKeysJoin))"

definition insert_keys :: "('cc, 'pk, 'sk, 'ek, 'es, 'ct, 'pt, 'sh) fhe_lib \<Rightarrow> 'cc \<Rightarrow> 'ek \<Rightarrow> 'es \<Rightarrow> 'cc" where
  "insert_keys L c evalMultFinal evalSumKeysJoin = f_InsertEvalMultKey L (f_InsertEvalSumKey L c evalSumKeysJoin) [evalMultFinal]"

definition RunBFVrns :: "('cc, 'pk, 'sk, 'ek, 'es, 'ct, 'pt, 'sh) fhe_lib \<Rightarrow> 'pt list result" where
  "RunBFVrns L =
     (let c0 = f_GenCryptoContext L bfv_example_params in
      case two_party_keys L c0 of (kp1, kp2, evalMultFinal, evalSumKeysJoin) \<Rightarrow>
        let c = insert_keys L c0 evalMultFinal evalSumKeysJoin;
            plaintext1 = f_MakePackedPlaintext L c [1, 2, 3, 4, 5, 6, 5, 4, 3, 2, 1, 0];
            plaintext2 = f_MakePackedPlaintext L c [1, 0, 0, 1, 1, 0, 0, 0, 0, 0, 0, 0];
            plaintext3 = f_MakePackedPlaintext L c [2, 2, 3, 4, 5, 6, 7, 8, 9, 10, 0, 0];
            ciphertext1 = f_Encrypt L c (fst kp2) plaintext1;
            ciphertext2 = f_Encrypt L c (fst kp2) plaintext2;
            ciphertext3 = f_Encrypt L c (fst kp2) plaintext3;
            ciphertextAdd123 = f_EvalAdd L c (f_EvalAdd L c ciphertext1 ciphertext2) ciphertext3;
            ciphertextMult = f_EvalMult L c ciphertext1 ciphertext3;
            ciphertextEvalSum = f_EvalSum L c ciphertext3 1024;
            fused = distributed_decrypt L c (f_GetLength L plaintext1) (snd kp1) [snd kp2]
        in rbind (fused ciphertextAdd123) (\<lambda>plaintextMultipartyNew.
           rbind (fused ciphertextMult) (\<lambda>plaintextMultipartyMult.
           rbind (fused ciphertextEvalSum) (\<lambda>plaintextMultipartyEvalSum.
             Inr [plaintext1, plaintext2, plaintext3, plaintextMultipartyNew, plaintextMultipartyMult, plaintextMultipartyEvalSum]))))"

definition RunCKKS :: "('cc, 'pk, 'sk, 'ek, 'es, 'ct, 'pt, 'sh) fhe_lib \<Rightarrow> 'pt list result" where
  "RunCKKS L =
     (let c0 = f_GenCryptoContext L ckks_example_params in
      case two_party_keys L c0 of (kp1, kp2, evalMultFinal, evalSumKeysJoin) \<Rightarrow>
        let c = insert_keys L c0 evalMultFinal evalSumKeysJoin;
            plaintext1 = f_MakeCKKSPackedPlaintext L c [1, 2, 3, 4, 5, 6, 5, 4, 3, 2, 1, 0];
            plaintext2 = f_MakeCKKSPackedPlaintext L c [1, 0, 0, 1, 1, 0, 0, 0, 0, 0, 0, 0];
            plaintext3 = f_MakeCKKSPackedPlaintext L c [2, 2, 3, 4, 5, 6, 7, 8, 9, 10, 0, 0];
            ciphertext1 = f_Encrypt L c (fst kp2) plaintext1;
            ciphertext2 = f_Encrypt L c (fst kp2) plaintext2;
            ciphertext3 = f_Encrypt L c (fst kp2) plaintext3;
            ciphertextAdd123 = f_EvalAdd L c (f_EvalAdd L c ciphertext1 ciphertext2) ciphertext3;
            ciphertextMult = f_ModReduce L c (f_EvalMult L c ciphertext1 ciphertext3);
            ciphertextEvalSum = f_EvalSum L c ciphertext3 16;
            fused = distributed_decrypt L c (f_GetLength L plaintext1) (snd kp1) [snd kp2]
        in rbind (fused ciphertextAdd123) (\<lambda>plaintextMultipartyNew.
           rbind (fused ciphertextMult) (\<lambda>plaintextMultipartyMult.
           rbind (fused ciphertextEvalSum) (\<lambda>plaintextMultipartyEvalSum.
             Inr [plaintext1, plaintext2, plaintext3, plaintextMultipartyNew, plaintextMultipartyMult, plaintextMultipartyEvalSum]))))"

definition threshold_fhe ::
  "('cc, 'pk, 'sk, 'ek, 'es, 'ct, 'pt, 'sh) fhe_lib \<Rightarrow> ('pt list \<times> 'pt list \<times> 'pt list) result" where
  \<comment> \<open>main\<close>
  "threshold_fhe L = rbind (RunBGVrnsAdditive L) (\<lambda>bgv. rbind (RunBFVrns L) (\<lambda>bfv. rbind (RunCKKS L) (\<lambda>ckks. Inr (bgv, bfv, ckks))))"

section \<open>Three parties, one of which drops out\<close>

definition three_party_keys ::
  "('cc, 'pk, 'sk, 'ek, 'es, 'ct, 'pt, 'sh) fhe_lib \<Rightarrow> 'cc \<Rightarrow> ('pk \<times> 'sk) \<times> ('pk \<times> 'sk) \<times> ('pk \<times> 'sk) \<times> 'ek \<times> 'es" where
  "three_party_keys L c =
     (let K = f_keys L;
          kp1 = k_KeyGen K c;
          kp2 = k_MultipartyKeyGen K c (fst kp1);
          kp3 = k_MultipartyKeyGen K c (fst kp2);
          tag2 = k_KeyTag K (fst kp2);
          tag3 = k_KeyTag K (fst kp3);
          evalMultKey = k_KeySwitchGen K c (snd kp1) (snd kp1);
          evalMultKey2 = k_MultiKeySwitchGen K c (snd kp2) (snd kp2) evalMultKey;
          evalMultAB = k_MultiAddEvalKeys K c evalMultKey evalMultKey2 tag2;
          evalMultKey3 = k_MultiKeySwitchGen K c (snd kp3) (snd kp3) evalMultAB;
          evalMultABC = k_MultiAddEvalKeys K c evalMultAB evalMultKey3 tag3;
          evalMultCABC = k_MultiMultEvalKey K c (snd kp3) evalMultABC tag3;
          evalMultBABC = k_MultiMultEvalKey K c (snd kp2) evalMultABC tag3;
          evalMultBCABC = k_MultiAddEvalMultKeys K c evalMultCABC evalMultBABC (f_EvalKeyTag L evalMultCABC);
          evalMultAABC = k_MultiMultEvalKey K c (snd kp1) evalMultABC tag3;
          evalMultFinal = k_MultiAddEvalMultKeys K c evalMultAABC evalMultBCABC (f_EvalKeyTag L evalMultAABC);
          c1 = f_InsertEvalMultKey L c [evalMultFinal];
          evalSumKeys = k_EvalSumKeyGen K c1 (snd kp1);
          evalSumKeysB = k_MultiEvalSumKeyGen K c1 (snd kp2) evalSumKeys tag2;
          evalSumKeysAB = k_MultiAddEvalSumKeys K c1 evalSumKeys evalSumKeysB tag2;
          evalSumKeysC = k_MultiEvalSumKeyGen K c1 (snd kp3) evalSumKeysB tag3;
          evalSumKeysJoin = k_MultiAddEvalSumKeys K c1 evalSumKeysC evalSumKeysAB tag3
      in (kp1, kp2, kp3, evalMultFinal, evalSumKeysJoin))"

definition RunBFVrns_aborts :: "('cc, 'pk, 'sk, 'ek, 'es, 'ct, 'pt, 'sh) fhe_lib \<Rightarrow> 'pt list result" where
  \<comment> \<open>RunBFVrns of threshold_fhe_aborts.cpp; the shares of the second and third key are not used\<close>
  "RunBFVrns_aborts L =
     (let c0 = f_GenCryptoContext L bfv_example_params in
      case three_party_keys L c0 of (kp1, kp2, kp3, evalMultFinal, evalSumKeysJoin) \<Rightarrow>
        let kp1smap = f_ShareKeys L c0 (snd kp1) 3 2 1 ''shamir'';
            c = f_InsertEvalSumKey L (f_InsertEvalMultKey L c0 [evalMultFinal]) evalSumKeysJoin;
            plaintext1 = f_MakePackedPlaintext L c [1, 2, 3, 4, 5, 6, 5, 4, 3, 2, 1, 0];
            plaintext2 = f_MakePackedPlaintext L c [1, 0, 0, 1, 1, 0, 0, 0, 0, 0, 0, 0];
            plaintext3 = f_MakePackedPlaintext L c [2, 2, 3, 4, 5, 6, 7, 8, 9, 10, 0, 0];
            ciphertext1 = f_Encrypt L c (fst kp3) plaintext1;
            ciphertext2 = f_Encrypt L c (fst kp3) plaintext2;
            ciphertext3 = f_Encrypt L c (fst kp3) plaintext3;
            ciphertextAdd123 = f_EvalAdd L c (f_EvalAdd L c ciphertext1 ciphertext2) ciphertext3;
            ciphertextMult = f_EvalMult L c ciphertext1 ciphertext3;
            ciphertextEvalSum = f_EvalSum L c ciphertext3 1024;
            fused = (\<lambda>lead. distributed_decrypt L c (f_GetLength L plaintext1) lead [snd kp2, snd kp3])
        in rbind (f_RecoverSharedKey L c kp1smap 3 2 ''shamir'') (\<lambda>kp1_recovered_sk.
           rbind (fused kp1_recovered_sk ciphertextAdd123) (\<lambda>plaintextMultipartyNew.
           rbind (fused (snd kp1) ciphertextMult) (\<lambda>plaintextMultipartyMult.
           rbind (fused kp1_recovered_sk ciphertextEvalSum) (\<lambda>plaintextMultipartyEvalSum.
             Inr [plaintext1, plaintext2, plaintext3, plaintextMultipartyNew, plaintextMultipartyMult, plaintextMultipartyEvalSum])))))"

section \<open>The keys are those of the path protocol\<close>

definition same_nodes :: "('cc, 'pk, 'sk, 'ek, 'es, 'ct, 'pt, 'sh) fhe_lib \<Rightarrow> 'cc \<Rightarrow> ('cc, 'pk, 'sk, 'ek, 'es) path_nodes" where
  \<comment> \<open>nodes of the path that have the example's library and context\<close>
  "same_nodes L c = (\<lambda>j. (f_keys L, c))"

definition key_laws :: "('cc, 'pk, 'sk, 'ek, 'es, 'ct, 'pt, 'sh) fhe_lib \<Rightarrow> 'cc \<Rightarrow> bool" where
  \<comment> \<open>keys carry the tag they were given, their addition is commutative, and generating rotation keys does not depend on the inserted ones\<close>
  "key_laws L c \<longleftrightarrow> (let K = f_keys L in
     (\<forall>a b pk. f_EvalKeyTag L (k_MultiAddEvalKeys K c a b (k_KeyTag K pk)) = k_KeyTag K pk)
   \<and> (\<forall>sk a pk. f_EvalKeyTag L (k_MultiMultEvalKey K c sk a (k_KeyTag K pk)) = k_KeyTag K pk)
   \<and> (\<forall>a b t. k_MultiAddEvalMultKeys K c a b t = k_MultiAddEvalMultKeys K c b a t)
   \<and> (\<forall>a b t. k_MultiAddEvalSumKeys K c a b t = k_MultiAddEvalSumKeys K c b a t)
   \<and> (\<forall>ek. k_EvalSumKeyGen K (f_InsertEvalMultKey L c ek) = k_EvalSumKeyGen K c
        \<and> k_MultiEvalSumKeyGen K (f_InsertEvalMultKey L c ek) = k_MultiEvalSumKeyGen K c
        \<and> k_MultiAddEvalSumKeys K (f_InsertEvalMultKey L c ek) = k_MultiAddEvalSumKeys K c))"

lemma key_lawsD:
  assumes "key_laws L c"
  shows "f_EvalKeyTag L (k_MultiAddEvalKeys (f_keys L) c a b (k_KeyTag (f_keys L) pk)) = k_KeyTag (f_keys L) pk"
    "f_EvalKeyTag L (k_MultiMultEvalKey (f_keys L) c sk a (k_KeyTag (f_keys L) pk)) = k_KeyTag (f_keys L) pk"
    "k_MultiAddEvalMultKeys (f_keys L) c a b t = k_MultiAddEvalMultKeys (f_keys L) c b a t"
    "k_MultiAddEvalSumKeys (f_keys L) c s u t = k_MultiAddEvalSumKeys (f_keys L) c u s t"
    "k_EvalSumKeyGen (f_keys L) (f_InsertEvalMultKey L c ek) = k_EvalSumKeyGen (f_keys L) c"
    "k_MultiEvalSumKeyGen (f_keys L) (f_InsertEvalMultKey L c ek) = k_MultiEvalSumKeyGen (f_keys L) c"
    "k_MultiAddEvalSumKeys (f_keys L) (f_InsertEvalMultKey L c ek) = k_MultiAddEvalSumKeys (f_keys L) c"
  using assms unfolding key_laws_def Let_def by blast+

text \<open>C22: the joint keys of the examples, for two and for three parties, are the ones that the nodes of the path
  protocol agree on: the order in which the examples add the shares does not matter.\<close>

theorem reference_keys:
  assumes laws: "key_laws L c"
  shows "(case two_party_keys L c of (_, kp2, em, es) \<Rightarrow> (fst kp2, Some em, Some es) = final_keys (same_nodes L c) 2)
    \<and> (case three_party_keys L c of (_, _, kp3, em, es) \<Rightarrow> (fst kp3, Some em, Some es) = final_keys (same_nodes L c) 3)"
proof -
  note K = key_lawsD(1,2,5-7) [OF laws]
  let ?K = "f_keys L" and ?N = "same_nodes L c"
  have "case two_party_keys L c of (_, kp2, em, es) \<Rightarrow> (fst kp2, Some em, Some es) = final_keys ?N 2"
    by (simp add: two_party_keys_def Let_def final_keys_def pk_at_def sk_at_def mix_own_def same_nodes_def numeral_2_eq_2 K)
  moreover obtain kp1 kp2 kp3 em es where keys: "three_party_keys L c = (kp1, kp2, kp3, em, es)" by (metis surj_pair)
  have pair: "kp3 = path_pair ?N 2"
    using keys by (auto simp: three_party_keys_def Let_def same_nodes_def numeral_2_eq_2)
  have mult: "em = path_mix ?N 3 2"
    using keys
    by (auto simp: three_party_keys_def Let_def same_nodes_def mix_own_def pk_at_def sk_at_def numeral_2_eq_2 numeral_3_eq_3 K
        intro: arg_cong2 [where f = "\<lambda>a b. k_MultiAddEvalMultKeys ?K c a b t" for t] key_lawsD(3) [OF laws])
  have sum: "es = snd (path_es ?N 2)"
    using keys
    by (auto simp: three_party_keys_def Let_def same_nodes_def pk_at_def sk_at_def numeral_2_eq_2 K intro: key_lawsD(4) [OF laws])
  have "case three_party_keys L c of (_, _, kp3, em, es) \<Rightarrow> (fst kp3, Some em, Some es) = final_keys ?N 3"
    using mult sum by (simp add: keys final_keys_def pair pk_at_def)
  ultimately show ?thesis by blast
qed

section \<open>The recovered party\<close>

definition example_ctx :: "('cc, 'pk, 'sk, 'ek, 'es, 'ct, 'pt, 'sh) fhe_lib \<Rightarrow> 'cc" where
  "example_ctx L = (let c = f_GenCryptoContext L bfv_example_params in
     case three_party_keys L c of (_, _, _, em, es) \<Rightarrow> f_InsertEvalSumKey L (f_InsertEvalMultKey L c [em]) es)"

definition fits :: "(nat \<Rightarrow> int) \<Rightarrow> bool" where
  \<comment> \<open>at most half of the plaintext modulus 65537 in every slot\<close>
  "fits u \<longleftrightarrow> (\<forall>i. \<bar>u i\<bar> \<le> 32768)"

definition computes ::
  "('cc, 'pk, 'sk, 'ek, 'es, 'ct, 'pt, 'sh) fhe_lib \<Rightarrow> 'cc \<Rightarrow> 'pk \<Rightarrow> (nat \<Rightarrow> 'ct meaning) \<Rightarrow> bool" where
  \<comment> \<open>enc d: what a ciphertext under the joint key encrypts that comes from d multiplications, at most two, in a batch of 1024 slots.
    EvalSum promises the sum of the batch in the first slot only\<close>
  "computes L c pk enc \<longleftrightarrow>
     (\<forall>v. length v \<le> 1024 \<longrightarrow> fits (slot v) \<longrightarrow> enc 0 (f_Encrypt L c pk (f_MakePackedPlaintext L c v)) (slot v))
   \<and> (\<forall>d a b u w. enc d a u \<longrightarrow> enc d b w \<longrightarrow> fits (\<lambda>i. u i + w i) \<longrightarrow> enc d (f_EvalAdd L c a b) (\<lambda>i. u i + w i))
   \<and> (\<forall>d a b u w. d < 2 \<longrightarrow> enc d a u \<longrightarrow> enc d b w \<longrightarrow> fits (\<lambda>i. u i * w i) \<longrightarrow> enc (Suc d) (f_EvalMult L c a b) (\<lambda>i. u i * w i))
   \<and> (\<forall>d a u. enc d a u \<longrightarrow> \<bar>\<Sum>k < 1024. u k\<bar> \<le> 32768 \<longrightarrow>
        (\<exists>w. enc d (f_EvalSum L c a 1024) w \<and> w 0 = (\<Sum>k < 1024. u k)))"

definition fuses ::
  "('cc, 'pk, 'sk, 'ek, 'es, 'ct, 'pt, 'sh) fhe_lib \<Rightarrow> 'cc \<Rightarrow> 'sk \<Rightarrow> 'sk list \<Rightarrow> (nat \<Rightarrow> 'ct meaning) \<Rightarrow> ('pt \<Rightarrow> (nat \<Rightarrow> int) \<Rightarrow> bool) \<Rightarrow> bool" where
  \<comment> \<open>the partial decryptions of the lead and of the two others fuse to a plaintext that reads as what was encrypted\<close>
  "fuses L c lead others enc reads \<longleftrightarrow> (\<forall>d ct u n. d \<le> 2 \<longrightarrow> enc d ct u \<longrightarrow>
     (\<exists>p1 p2 p3. f_MultipartyDecryptLead L c [ct] lead = [p1]
        \<and> map (f_MultipartyDecryptMain L c [ct]) others = [[p2], [p3]]
        \<and> reads (f_SetLength L n (f_MultipartyDecryptFusion L c [p1, p2, p3])) u))"

definition example_ok ::
  "('cc, 'pk, 'sk, 'ek, 'es, 'ct, 'pt, 'sh) fhe_lib \<Rightarrow> (nat \<Rightarrow> 'ct meaning) \<Rightarrow> ('sk \<Rightarrow> 'pt \<Rightarrow> (nat \<Rightarrow> int) \<Rightarrow> bool) \<Rightarrow> 'sk \<Rightarrow> bool" where
  \<comment> \<open>the shares of the first party's key recover a key r, and the decryption can be led with either of the two;
    reads sk: what a plaintext shows whose decryption sk led\<close>
  "example_ok L enc reads r \<longleftrightarrow> (let c0 = f_GenCryptoContext L bfv_example_params; c = example_ctx L in
     case three_party_keys L c0 of (kp1, kp2, kp3, _, _) \<Rightarrow>
       f_RecoverSharedKey L c (f_ShareKeys L c0 (snd kp1) 3 2 1 ''shamir'') 3 2 ''shamir'' = Inr r
     \<and> computes L c (fst kp3) enc
     \<and> (\<forall>sk \<in> {r, snd kp1}. fuses L c sk [snd kp2, snd kp3] enc (reads sk)))"

lemma fuses_decrypt:
  assumes "fuses L c lead others enc reads" "d \<le> 2" "enc d ct u"
  shows "\<exists>r. distributed_decrypt L c n lead others ct = Inr r \<and> reads r u"
proof -
  obtain p1 p2 p3 where p: "f_MultipartyDecryptLead L c [ct] lead = [p1]" "map (f_MultipartyDecryptMain L c [ct]) others = [[p2], [p3]]"
    "reads (f_SetLength L n (f_MultipartyDecryptFusion L c [p1, p2, p3])) u"
    using assms(1) [unfolded fuses_def, rule_format, OF assms(2,3), where n = n] by (elim exE conjE) (rule that)
  from p(2) obtain k2 k3 where "others = [k2, k3]" "f_MultipartyDecryptMain L c [ct] k2 = [p2]" "f_MultipartyDecryptMain L c [ct] k3 = [p3]"
    by (auto simp: map_eq_Cons_conv)
  with p(1,3) show ?thesis by (simp add: distributed_decrypt_def)
qed

lemma computesD:
  assumes "computes L c pk enc"
  shows "length v \<le> 1024 \<Longrightarrow> fits (slot v) \<Longrightarrow> enc 0 (f_Encrypt L c pk (f_MakePackedPlaintext L c v)) (slot v)"
    "enc d a u \<Longrightarrow> enc d b w \<Longrightarrow> fits (\<lambda>i. u i + w i) \<Longrightarrow> enc d (f_EvalAdd L c a b) (\<lambda>i. u i + w i)"
    "d < 2 \<Longrightarrow> enc d a u \<Longrightarrow> enc d b w \<Longrightarrow> fits (\<lambda>i. u i * w i) \<Longrightarrow> enc (Suc d) (f_EvalMult L c a b) (\<lambda>i. u i * w i)"
    "enc d a u \<Longrightarrow> \<bar>\<Sum>k < 1024. u k\<bar> \<le> 32768 \<Longrightarrow> \<exists>w. enc d (f_EvalSum L c a 1024) w \<and> w 0 = (\<Sum>k < 1024. u k)"
  using assms unfolding computes_def by blast+

lemma slot_bound:
  assumes "\<forall>x \<in> set v. \<bar>x\<bar> \<le> m" "0 \<le> m"
  shows "\<bar>slot v i\<bar> \<le> m"
  using assms by (auto simp: slot_def)

lemma slot_total:
  assumes "length v \<le> n" "sum_list v = t"
  shows "(\<Sum>k < n. slot v k) = t"
proof -
  have "(\<Sum>k < n. slot v k) = (\<Sum>k < length v. slot v k)"
    using assms(1) by (intro sum.mono_neutral_right) (auto simp: slot_def)
  also have "\<dots> = sum_list v" by (simp add: slot_def sum_list_sum_nth atLeast0LessThan)
  finally show ?thesis using assms(2) by simp
qed

text \<open>C23: the example with aborts, in which the first party drops out. The key recovered from its shares
  leads the decryption of the sum of the three vectors and of the sum of the third over its slots, which the
  first slot shows. The product, which the program decrypts for comparison without aborts, is decrypted
  with the first party's own key. All three results are right. The recovered key r need not be the key of
  the first party, so that the results tell which key decrypted them.\<close>

theorem aborted_example_correct:
  assumes ok: "example_ok L enc reads r"
    and own: "own = snd (fst (three_party_keys L (f_GenCryptoContext L bfv_example_params)))"
  shows "\<exists>p1 p2 p3 r1 r2 r3 total. RunBFVrns_aborts L = Inr [p1, p2, p3, r1, r2, r3]
    \<and> reads r r1 (\<lambda>i. slot [1, 2, 3, 4, 5, 6, 5, 4, 3, 2, 1, 0] i + slot [1, 0, 0, 1, 1, 0, 0, 0, 0, 0, 0, 0] i
        + slot [2, 2, 3, 4, 5, 6, 7, 8, 9, 10, 0, 0] i)
    \<and> reads own r2 (\<lambda>i. slot [1, 2, 3, 4, 5, 6, 5, 4, 3, 2, 1, 0] i * slot [2, 2, 3, 4, 5, 6, 7, 8, 9, 10, 0, 0] i)
    \<and> reads r r3 total \<and> total 0 = 56"
proof -
  let ?d = "f_GenCryptoContext L bfv_example_params" and ?x = "example_ctx L"
  obtain kp1 kp2 kp3 em es where keys: "three_party_keys L ?d = (kp1, kp2, kp3, em, es)" by (metis surj_pair)
  have c: "?x = f_InsertEvalSumKey L (f_InsertEvalMultKey L ?d [em]) es" by (simp add: example_ctx_def keys)
  have own': "own = snd kp1" by (simp add: own keys)
  have rec: "f_RecoverSharedKey L ?x (f_ShareKeys L ?d (snd kp1) 3 2 1 ''shamir'') 3 2 ''shamir'' = Inr r"
    and comp: "computes L ?x (fst kp3) enc" and fused: "fuses L ?x r [snd kp2, snd kp3] enc (reads r)"
      "fuses L ?x own [snd kp2, snd kp3] enc (reads own)"
    using ok by (simp_all add: example_ok_def Let_def keys own')
  let ?e = "\<lambda>v. f_Encrypt L ?x (fst kp3) (f_MakePackedPlaintext L ?x v)"
  let ?v1 = "[1, 2, 3, 4, 5, 6, 5, 4, 3, 2, 1, 0]" and ?v2 = "[1, 0, 0, 1, 1, 0, 0, 0, 0, 0, 0, 0]" and ?v3 = "[2, 2, 3, 4, 5, 6, 7, 8, 9, 10, 0, 0]"
  let ?n = "f_GetLength L (f_MakePackedPlaintext L ?x ?v1)"
  have small: "\<bar>slot ?v1 i\<bar> \<le> 10" "\<bar>slot ?v2 i\<bar> \<le> 10" "\<bar>slot ?v3 i\<bar> \<le> 10" for i by (rule slot_bound; simp)+
  have prod: "\<bar>slot ?v1 i\<bar> * \<bar>slot ?v3 i\<bar> \<le> 10 * 10" for i using small(1,3) [of i] by (intro mult_mono) auto
  have fit_at: "\<bar>slot ?v1 i\<bar> \<le> 32768 \<and> \<bar>slot ?v2 i\<bar> \<le> 32768 \<and> \<bar>slot ?v3 i\<bar> \<le> 32768 \<and> \<bar>slot ?v1 i + slot ?v2 i\<bar> \<le> 32768
      \<and> \<bar>slot ?v1 i + slot ?v2 i + slot ?v3 i\<bar> \<le> 32768 \<and> \<bar>slot ?v1 i * slot ?v3 i\<bar> \<le> 32768" for i
    using small [of i] prod [of i] unfolding abs_mult by arith
  have fit: "fits (slot ?v1)" "fits (slot ?v2)" "fits (slot ?v3)" "fits (\<lambda>i. slot ?v1 i + slot ?v2 i)"
    "fits (\<lambda>i. slot ?v1 i + slot ?v2 i + slot ?v3 i)" "fits (\<lambda>i. slot ?v1 i * slot ?v3 i)"
    unfolding fits_def using fit_at by blast+
  have e: "enc 0 (?e ?v1) (slot ?v1)" "enc 0 (?e ?v2) (slot ?v2)" "enc 0 (?e ?v3) (slot ?v3)"
    by (rule computesD(1) [OF comp]; use fit in simp)+
  note comp' = computesD [OF comp]
  note add12 = comp'(2) [where u = "slot ?v1" and w = "slot ?v2", OF e(1,2) fit(4)]
  note add123 = comp'(2) [where u = "\<lambda>i. slot ?v1 i + slot ?v2 i" and w = "slot ?v3", OF add12 e(3) fit(5)]
  have prod13: "enc (Suc 0) (f_EvalMult L ?x (?e ?v1) (?e ?v3)) (\<lambda>i. slot ?v1 i * slot ?v3 i)"
    by (rule comp'(3) [where u = "slot ?v1" and w = "slot ?v3", OF _ e(1,3) fit(6)]) simp
  note lead = fused(1) [THEN fuses_decrypt, where n = ?n] fused(2) [THEN fuses_decrypt, where n = ?n]
  from lead(2) [OF _ prod13] obtain r2 where
    r2: "distributed_decrypt L ?x ?n own [snd kp2, snd kp3] (f_EvalMult L ?x (?e ?v1) (?e ?v3)) = Inr r2"
      "reads own r2 (\<lambda>i. slot ?v1 i * slot ?v3 i)" by auto
  from lead(1) [OF _ add123] obtain r1 where
    r1: "distributed_decrypt L ?x ?n r [snd kp2, snd kp3] (f_EvalAdd L ?x (f_EvalAdd L ?x (?e ?v1) (?e ?v2)) (?e ?v3)) = Inr r1"
      "reads r r1 (\<lambda>i. slot ?v1 i + slot ?v2 i + slot ?v3 i)" by auto
  have total: "(\<Sum>k < 1024. slot ?v3 k) = 56" by (rule slot_total) simp_all
  then obtain w where w: "enc 0 (f_EvalSum L ?x (?e ?v3) 1024) w" "w 0 = 56"
    using comp'(4) [OF e(3), unfolded total] by auto
  from lead(1) [OF _ w(1)] obtain r3 where
    r3: "distributed_decrypt L ?x ?n r [snd kp2, snd kp3] (f_EvalSum L ?x (?e ?v3) 1024) = Inr r3" "reads r r3 w" by auto
  have "RunBFVrns_aborts L = Inr [f_MakePackedPlaintext L ?x ?v1, f_MakePackedPlaintext L ?x ?v2, f_MakePackedPlaintext L ?x ?v3, r1, r2, r3]"
    unfolding RunBFVrns_aborts_def Let_def keys prod.case c [symmetric] own' [symmetric]
    by (simp only: rec [folded own'] rbind_simps r1(1) r2(1) r3(1))
  note run = this
  show ?thesis by (intro exI conjI, rule run, rule r1(2), rule r2(2), rule r3(2), rule w(2))
qed

section \<open>A concrete instance\<close>

definition toy_fhe :: "(nat, nat, nat, nat, nat, nat \<times> (nat \<Rightarrow> int), nat \<times> (nat \<Rightarrow> int), nat) fhe_lib" where
  \<comment> \<open>a ciphertext is the function of its slots with the key that led its decryption; every party has the secret
    key 10, and shares recover the other key 7\<close>
  "toy_fhe = \<lparr> f_keys = toy_path, f_GenCryptoContext = (\<lambda>_. 10), f_good = (\<lambda>_. True), f_EvalKeyTag = (\<lambda>_. []),
     f_InsertEvalMultKey = (\<lambda>c _. c), f_InsertEvalSumKey = (\<lambda>c _. c), f_MakePackedPlaintext = (\<lambda>_ v. (0, slot v)),
     f_MakeCKKSPackedPlaintext = (\<lambda>_ v. (0, slot (map floor v))), f_GetLength = (\<lambda>_. 12), f_SetLength = (\<lambda>_ p. p),
     f_Encrypt = (\<lambda>_ _ p. p), f_EvalAdd = (\<lambda>_ a b. (0, \<lambda>i. snd a i + snd b i)), f_EvalMult = (\<lambda>_ a b. (0, \<lambda>i. snd a i * snd b i)),
     f_ModReduce = (\<lambda>_ a. a), f_EvalSum = (\<lambda>_ a n. (0, \<lambda>i. \<Sum>k < unat n. snd a (i + k))),
     f_MultipartyDecryptLead = (\<lambda>_ cts sk. map (\<lambda>ct. (sk, snd ct)) cts), f_MultipartyDecryptMain = (\<lambda>_ cts _. cts),
     f_MultipartyDecryptFusion = (\<lambda>_. hd), f_ShareKeys = (\<lambda>_ sk _ _ _ _. [2 \<mapsto> sk, 3 \<mapsto> sk]),
     f_RecoverSharedKey = (\<lambda>_ m _ _ _. case m 2 of None \<Rightarrow> Inl (Openfhe_error ''not enough shares'') | Some sk \<Rightarrow> Inr 7) \<rparr>"

lemma reference_keys_witness:
  "two_party_keys toy_fhe 10 = ((10, 10), (20, 10), 400, 20) \<and> final_keys (same_nodes toy_fhe 10) 2 = (20, Some 400, Some 20)
   \<and> fst (final_keys (same_nodes toy_fhe 10) 3) = 30"
proof -
  have "key_laws toy_fhe 10" by (simp add: key_laws_def toy_fhe_def toy_path_def)
  note keys = reference_keys [OF this]
  have two: "two_party_keys toy_fhe 10 = ((10, 10), (20, 10), 400, 20)" by (simp add: two_party_keys_def toy_fhe_def toy_path_def)
  have "\<exists>em es. three_party_keys toy_fhe 10 = ((10, 10), (20, 10), (30, 10), em, es)"
    by (simp add: three_party_keys_def toy_fhe_def toy_path_def)
  with keys two show ?thesis by (auto simp: split_beta) (metis fst_conv)
qed

lemma aborted_example_correct_witness:
  "\<exists>p1 p2 p3 r1 r2 r3. RunBFVrns_aborts toy_fhe = Inr [p1, p2, p3, r1, r2, r3]
    \<and> fst r1 = 7 \<and> snd r1 0 = 4 \<and> snd r1 1 = 4 \<and> fst r2 = 10 \<and> snd r2 2 = 9 \<and> fst r3 = 7 \<and> snd r3 0 = 56"
proof -
  let ?reads = "\<lambda>sk pt u. pt = (sk, u)"
  have "example_ok toy_fhe (\<lambda>d ct u. snd ct = u) ?reads 7"
    by (auto simp: example_ok_def computes_def fuses_def example_ctx_def Let_def split_beta toy_fhe_def toy_path_def three_party_keys_def)
  moreover have "10 = snd (fst (three_party_keys toy_fhe (f_GenCryptoContext toy_fhe bfv_example_params)))"
    by (simp add: three_party_keys_def toy_fhe_def toy_path_def)
  ultimately obtain p1 p2 p3 r1 r2 r3 total where "RunBFVrns_aborts toy_fhe = Inr [p1, p2, p3, r1, r2, r3]"
    "r1 = (7, \<lambda>i. slot [1, 2, 3, 4, 5, 6, 5, 4, 3, 2, 1, 0] i + slot [1, 0, 0, 1, 1, 0, 0, 0, 0, 0, 0, 0] i
        + slot [2, 2, 3, 4, 5, 6, 7, 8, 9, 10, 0, 0] i)"
    "r2 = (10, \<lambda>i. slot [1, 2, 3, 4, 5, 6, 5, 4, 3, 2, 1, 0] i * slot [2, 2, 3, 4, 5, 6, 7, 8, 9, 10, 0, 0] i)"
    "r3 = (7, total)" "total 0 = 56"
    using aborted_example_correct [where L = toy_fhe and enc = "\<lambda>d ct u. snd ct = u" and reads = ?reads and r = 7 and own = 10] by blast
  note run = this
  show ?thesis by (intro exI conjI, rule run(1)) (simp_all add: run(2-5) slot_def)
qed

end
