(* ===== verification/Pre_Hops.thy ===== *)
theory Pre_Hops
  imports Cmdline
begin

text \<open>
  The two programs that re-encrypt a ciphertext over several hops in one process and compare what is decrypted before
  and after: \<^verbatim>\<open>pre_grpc_demo/targets/pre.cpp\<close> and the benchmark \<^verbatim>\<open>benchmarks/pre_d.cpp\<close>. The result
  of a program is the list of the positions at which it reports a decryption failure; None when an option made it
  return at once. The library is a record of functions; \<open>h_KeyGen\<close> gets the number of the call, and
  \<^verbatim>\<open>rand\<close> is the sequence of the values of \<^verbatim>\<open>std::rand()\<close>. Timings, sizes and other output are left out.
\<close>

section \<open>Library\<close>

type_synonym settings = "(string \<times> string) list" \<comment> \<open>the setters called, in order, with their arguments\<close>

record ('cc, 'pk, 'sk, 'rk, 'ct, 'pt) hop_lib =
  h_GenCryptoContext :: "settings \<Rightarrow> 'cc" \<comment> \<open>with PKE, KEYSWITCH, LEVELEDSHE and PRE enabled\<close>
  h_RingDimension :: "'cc \<Rightarrow> nat"
  h_KeyGen :: "'cc \<Rightarrow> nat \<Rightarrow> 'pk \<times> 'sk"
  h_good :: "'pk \<times> 'sk \<Rightarrow> bool"
  h_MakeCoefPackedPlaintext :: "'cc \<Rightarrow> int list \<Rightarrow> 'pt"
  h_GetLength :: "'pt \<Rightarrow> nat"
  h_SetLength :: "nat \<Rightarrow> 'pt \<Rightarrow> 'pt"
  h_GetCoefPackedValue :: "'pt \<Rightarrow> int list"
  h_Encrypt :: "'cc \<Rightarrow> 'pk \<Rightarrow> 'pt \<Rightarrow> 'ct"
  h_Decrypt :: "'cc \<Rightarrow> 'sk \<Rightarrow> 'ct \<Rightarrow> 'pt"
  h_ReKeyGen :: "'cc \<Rightarrow> 'sk \<Rightarrow> 'pk \<Rightarrow> 'rk"
  h_ReEncrypt :: "'cc \<Rightarrow> 'ct \<Rightarrow> 'rk \<Rightarrow> 'pk option \<Rightarrow> 'ct"
  h_ModReduce :: "'cc \<Rightarrow> 'ct \<Rightarrow> 'ct"

section \<open>Options\<close>

definition hop_switch :: "char \<Rightarrow> string option \<Rightarrow> int \<times> int \<Rightarrow> (bool \<times> int \<times> int) result" where
  \<comment> \<open>the security model and the number of hops; case 'h' goes on to the default, return\<close>
  "hop_switch opt a = (\<lambda>(model, hops).
     if opt = CHR ''m'' then rbind (arg a) (\<lambda>s. rbind (atoi s) (\<lambda>n. Inr (True, n, hops)))
     else if opt = CHR ''d'' then rbind (arg a) (\<lambda>s. rbind (atoi s) (\<lambda>n. Inr (True, model, n)))
     else Inr (False, model, hops))"

section \<open>What both programs share\<close>

fun failures :: "int list \<Rightarrow> int list \<Rightarrow> nat list \<Rightarrow> nat list result" where
  \<comment> \<open>for (j ...) if (unpackedPT[j] != unpackedDecPT[j]) report j\<close>
  "failures before_v after_v [] = Inr []"
| "failures before_v after_v (j # js) =
     rbind (at ''unpackedPT'' before_v j) (\<lambda>x. rbind (at ''unpackedDecPT'' after_v j) (\<lambda>y.
     rbind (failures before_v after_v js) (\<lambda>r. Inr (if x \<noteq> y then j # r else r))))"

fun hop_loop ::
  "('cc, 'pk, 'sk, 'rk, 'ct, 'pt) hop_lib \<Rightarrow> 'cc \<Rightarrow> (nat \<Rightarrow> 'pk \<times> 'sk \<Rightarrow> 'rk \<Rightarrow> 'ct \<Rightarrow> 'ct result) \<Rightarrow> nat \<Rightarrow> nat list \<Rightarrow> ('pk \<times> 'sk) \<times> 'ct
   \<Rightarrow> (('pk \<times> 'sk) \<times> 'ct) result" where
  \<comment> \<open>the loop over the hops, on the last elements of keyPairs and reEncryptedCTs\<close>
  "hop_loop L c step calls [] latest = Inr latest"
| "hop_loop L c step calls (i # is) latest =
     (case latest of (kp, ct) \<Rightarrow>
        let kp' = h_KeyGen L c calls;
            reencryptionKey = h_ReKeyGen L c (snd kp) (fst kp')
        in rbind (step i kp reencryptionKey ct) (\<lambda>ct'. hop_loop L c step (Suc calls) is (kp', ct')))"

definition compare_hops ::
  "('cc, 'pk, 'sk, 'rk, 'ct, 'pt) hop_lib \<Rightarrow> 'cc \<Rightarrow> 'pt \<Rightarrow> 'pk \<times> 'sk \<Rightarrow> 'ct \<Rightarrow> ('pk \<times> 'sk) \<times> 'ct \<Rightarrow> nat list result" where
  \<comment> \<open>decryption before and after the hops, and the verification\<close>
  "compare_hops L c plaintext kp1 ciphertext1 latest =
     (let plaintextDec1 = h_SetLength L (h_GetLength L plaintext) (h_Decrypt L c (snd kp1) ciphertext1);
          plaintextDec = h_Decrypt L c (snd (fst latest)) (snd latest);
          unpackedPT = h_GetCoefPackedValue L plaintextDec1
      in failures unpackedPT (h_GetCoefPackedValue L plaintextDec) [0..<length unpackedPT])"

section \<open>pre.cpp\<close>

definition model_settings :: "u32 \<Rightarrow> u32 \<Rightarrow> (settings \<times> nat \<times> nat) result" where
  \<comment> \<open>the settings of a security model, ringDimension and digitSize\<close>
  "model_settings model hops =
     (if model = 0 then Inr ([(''PREMode'', ''INDCPA''), (''KeySwitchTechnique'', ''BV''), (''FirstModSize'', ''27'')], 2048, 3)
      else if model = 1 then Inr ([(''PREMode'', ''FIXED_NOISE_HRA''), (''KeySwitchTechnique'', ''BV''), (''FirstModSize'', ''54'')], 4096, 16)
      else if model = 2 then Inr ([(''PREMode'', ''NOISE_FLOODING_HRA''), (''KeySwitchTechnique'', ''BV''), (''PRENumHops'', digits_of (unat hops)),
          (''StatisticalSecurity'', ''40''), (''NumAdversarialQueries'', ''1048576'')], 32768, 10)
      else if model = 3 then Inr ([(''PREMode'', ''NOISE_FLOODING_HRA''), (''KeySwitchTechnique'', ''HYBRID''), (''PRENumHops'', digits_of (unat hops)),
          (''StatisticalSecurity'', ''40''), (''NumAdversarialQueries'', ''1048576'')], 32768, 0)
      else Inl (Exit_failure ''Not a valid security mode''))"

definition pre_settings :: "settings \<Rightarrow> nat \<Rightarrow> nat \<Rightarrow> settings" where
  "pre_settings s ringDimension digitSize = s @
     [(''MultiplicativeDepth'', ''0''), (''PlaintextModulus'', ''2''), (''RingDim'', digits_of ringDimension),
      (''DigitSize'', digits_of digitSize), (''ScalingTechnique'', ''FIXEDMANUAL''), (''SecurityLevel'', ''HEStd_128_quantum'')]"

fun keygen_rounds ::
  "('cc, 'pk, 'sk, 'rk, 'ct, 'pt) hop_lib \<Rightarrow> 'cc \<Rightarrow> nat \<Rightarrow> nat \<Rightarrow> 'pk \<times> 'sk \<Rightarrow> ('pk \<times> 'sk) result" where
  \<comment> \<open>keyPair1 = cc->KeyGen() once more for every hop; the last one is kept\<close>
  "keygen_rounds L c calls 0 keyPair1 = Inr keyPair1"
| "keygen_rounds L c calls (Suc n) keyPair1 =
     (let keyPair1 = h_KeyGen L c calls in
      if \<not> h_good L keyPair1 then Inl (Exit_failure ''Key generation failed!'')
      else keygen_rounds L c (Suc calls) n keyPair1)"

definition pre_reencrypt ::
  "('cc, 'pk, 'sk, 'rk, 'ct, 'pt) hop_lib \<Rightarrow> 'cc \<Rightarrow> u32 \<Rightarrow> u32 \<Rightarrow> nat \<Rightarrow> 'pk \<times> 'sk \<Rightarrow> 'rk \<Rightarrow> 'ct \<Rightarrow> 'ct result" where
  \<comment> \<open>switch (security_model)\<close>
  "pre_reencrypt L c model hops i kp rk ct =
     (if model = 0 then Inr (h_ReEncrypt L c ct rk None)
      else if model = 1 then Inr (h_ReEncrypt L c ct rk (Some (fst kp)))
      else if model = 2 \<or> model = 3 then
        let reEncryptedCT = h_ReEncrypt L c ct rk (Some (fst kp))
        in Inr (if of_nat i < hops - 1 then h_ModReduce L c reEncryptedCT else reEncryptedCT)
      else Inl (Exit_failure ''Not a valid security mode''))"

definition pre_main ::
  "('cc, 'pk, 'sk, 'rk, 'ct, 'pt) hop_lib \<Rightarrow> (nat \<Rightarrow> nat) \<Rightarrow> parsed \<Rightarrow> nat list option result" where
  "pre_main L rand opts =
     rbind (opt_loop hop_switch opts (0, 5)) (\<lambda>(go, m, d).
     if \<not> go then Inr None
     else let model = of_int m; hops = of_int d in
       rbind (model_settings model hops) (\<lambda>(s, ringDimension, digitSize).
       let c = h_GenCryptoContext L (pre_settings s ringDimension digitSize) in
       rbind (keygen_rounds L c 1 (unat hops) (h_KeyGen L c 0)) (\<lambda>keyPair1.
       let plaintext = h_MakeCoefPackedPlaintext L c (map (\<lambda>i. int (rand i mod 2)) [0..<ringDimension]);
           ciphertext1 = h_Encrypt L c (fst keyPair1) plaintext
       in rbind (hop_loop L c (pre_reencrypt L c model hops) (Suc (unat hops)) [0..<unat hops] (keyPair1, ciphertext1)) (\<lambda>latest.
          rbind (compare_hops L c plaintext keyPair1 ciphertext1 latest) (\<lambda>r. Inr (Some r))))))"

section \<open>pre_d.cpp\<close>

record bench_params =
  bd_plaintextModulus :: int
  bd_ringDimension :: nat
  bd_digitSize :: nat
  bd_dcrtbits :: nat
  bd_qmodulus :: nat
  bd_firstqmod :: nat
  bd_model :: settings

definition bench_model :: "u32 \<Rightarrow> bench_params" where
  \<comment> \<open>the default is the IND-CPA parameters\<close>
  "bench_model model =
     (if model = 0 then \<lparr> bd_plaintextModulus = 2, bd_ringDimension = 1024, bd_digitSize = 9, bd_dcrtbits = 0, bd_qmodulus = 27, bd_firstqmod = 27,
         bd_model = [(''PREMode'', ''INDCPA''), (''PREMode'', ''INDCPA''), (''KeySwitchTechnique'', ''BV'')] \<rparr>
      else if model = 1 then \<lparr> bd_plaintextModulus = 65536, bd_ringDimension = 2048, bd_digitSize = 18, bd_dcrtbits = 0, bd_qmodulus = 54, bd_firstqmod = 54,
         bd_model = [(''PREMode'', ''INDCPA''), (''PREMode'', ''FIXED_NOISE_HRA''), (''KeySwitchTechnique'', ''BV'')] \<rparr>
      else if model = 2 then \<lparr> bd_plaintextModulus = 2, bd_ringDimension = 16384, bd_digitSize = 1, bd_dcrtbits = 30, bd_qmodulus = 438, bd_firstqmod = 60,
         bd_model = [(''PREMode'', ''INDCPA''), (''PREMode'', ''NOISE_FLOODING_HRA''), (''KeySwitchTechnique'', ''BV'')] \<rparr>
      else if model = 3 then \<lparr> bd_plaintextModulus = 2, bd_ringDimension = 16384, bd_digitSize = 0, bd_dcrtbits = 30, bd_qmodulus = 438, bd_firstqmod = 60,
         bd_model = [(''PREMode'', ''INDCPA''), (''PREMode'', ''NOISE_FLOODING_HRA''), (''KeySwitchTechnique'', ''HYBRID''), (''NumLargeDigits'', ''3'')] \<rparr>
      else \<lparr> bd_plaintextModulus = 2, bd_ringDimension = 1024, bd_digitSize = 9, bd_dcrtbits = 0, bd_qmodulus = 27, bd_firstqmod = 27,
         bd_model = [(''PREMode'', ''INDCPA'')] \<rparr>)"

definition bench_settings :: "bench_params \<Rightarrow> settings" where
  "bench_settings b = bd_model b @
     [(''MultiplicativeDepth'', ''0''), (''PlaintextModulus'', digits_of (nat (bd_plaintextModulus b))), (''SecurityLevel'', ''HEStd_128_classic''),
      (''StandardDeviation'', ''3.2''), (''SecretKeyDist'', ''UNIFORM_TERNARY''), (''RingDim'', digits_of (bd_ringDimension b)),
      (''FirstModSize'', digits_of (bd_firstqmod b)), (''ScalingModSize'', digits_of (bd_dcrtbits b)), (''DigitSize'', digits_of (bd_digitSize b)),
      (''ScalingTechnique'', ''FIXEDMANUAL''), (''MultiHopModSize'', digits_of (bd_qmodulus b)), (''StatisticalSecurity'', ''48''),
      (''NumAdversarialQueries'', ''262144'')]"

definition bench_reencrypt ::
  "('cc, 'pk, 'sk, 'rk, 'ct, 'pt) hop_lib \<Rightarrow> 'cc \<Rightarrow> u32 \<Rightarrow> nat \<Rightarrow> 'pk \<times> 'sk \<Rightarrow> 'rk \<Rightarrow> 'ct \<Rightarrow> 'ct result" where
  "bench_reencrypt L c model i kp rk ct =
     (if model = 0 \<or> model = 1 then Inr (h_ReEncrypt L c ct rk (Some (fst kp)))
      else if model = 2 \<or> model = 3 then Inr (h_ModReduce L c (h_ReEncrypt L c ct rk (Some (fst kp))))
      else Inl (Exit_failure ''Not a valid security mode''))"

definition pre_bench ::
  "('cc, 'pk, 'sk, 'rk, 'ct, 'pt) hop_lib \<Rightarrow> (nat \<Rightarrow> nat) \<Rightarrow> parsed \<Rightarrow> nat list option result" where
  \<comment> \<open>num_of_hops is a signed integer: a negative one is no hop\<close>
  "pre_bench L rand opts =
     rbind (opt_loop hop_switch opts (0, 1)) (\<lambda>(go, m, hops).
     if \<not> go then Inr None
     else let model = of_int m;
              b = bench_model model;
              p = bd_plaintextModulus b;
              c = h_GenCryptoContext L (bench_settings b);
              keyPair1 = h_KeyGen L c 0
       in if \<not> h_good L keyPair1 then Inl (Exit_failure ''Key generation failed!'')
       else let vectorOfInts = map (\<lambda>i. if p = 2 then int (rand i) mod p else int (rand i) mod p - (p div 2 - 1)) [0..<h_RingDimension L c];
                plaintext = h_MakeCoefPackedPlaintext L c vectorOfInts;
                ciphertext1 = h_Encrypt L c (fst keyPair1) plaintext
            in rbind (hop_loop L c (bench_reencrypt L c model) 1 [0..<nat hops] (keyPair1, ciphertext1)) (\<lambda>latest.
               rbind (compare_hops L c plaintext keyPair1 ciphertext1 latest) (\<lambda>r. Inr (Some r))))"

section \<open>Correctness\<close>

definition made_keys :: "('cc, 'pk, 'sk, 'rk, 'ct, 'pt) hop_lib \<Rightarrow> 'cc \<Rightarrow> 'pk \<times> 'sk \<Rightarrow> bool" where
  "made_keys L c kp \<longleftrightarrow> kp \<in> range (h_KeyGen L c)"

definition hops_ok ::
  "('cc, 'pk, 'sk, 'rk, 'ct, 'pt) hop_lib \<Rightarrow> 'cc \<Rightarrow> nat \<Rightarrow> int set \<Rightarrow> (nat \<Rightarrow> 'pk \<times> 'sk \<Rightarrow> 'ct \<Rightarrow> 'pt \<Rightarrow> bool) \<Rightarrow> bool" where
  \<comment> \<open>enc k: encryption under a key pair, after k hops; the parameters allow for h hops and coefficients in V\<close>
  "hops_ok L c h V enc \<longleftrightarrow>
     (\<forall>kp v. made_keys L c kp \<longrightarrow> set v \<subseteq> V
        \<longrightarrow> enc 0 kp (h_Encrypt L c (fst kp) (h_MakeCoefPackedPlaintext L c v)) (h_MakeCoefPackedPlaintext L c v))
   \<and> (\<forall>k kp kp' ct pt pk. k < h \<longrightarrow> made_keys L c kp' \<longrightarrow> pk \<in> {None, Some (fst kp)} \<longrightarrow> enc k kp ct pt
        \<longrightarrow> enc (Suc k) kp' (h_ReEncrypt L c ct (h_ReKeyGen L c (snd kp) (fst kp')) pk) pt)
   \<and> (\<forall>k kp ct pt. enc k kp ct pt \<longrightarrow> enc k kp (h_ModReduce L c ct) pt)
   \<and> (\<forall>k kp ct pt. enc k kp ct pt \<longrightarrow> h_GetCoefPackedValue L (h_Decrypt L c (snd kp) ct) = h_GetCoefPackedValue L pt)
   \<and> (\<forall>n pt. h_GetCoefPackedValue L (h_SetLength L n pt) = take n (h_GetCoefPackedValue L pt))"

lemma made_keys_KeyGen [simp]: "made_keys L c (h_KeyGen L c i)"
  by (simp add: made_keys_def)

lemma hops_okD:
  assumes "hops_ok L c h V enc"
  shows "made_keys L c kp \<Longrightarrow> set v \<subseteq> V
      \<Longrightarrow> enc 0 kp (h_Encrypt L c (fst kp) (h_MakeCoefPackedPlaintext L c v)) (h_MakeCoefPackedPlaintext L c v)"
    "k < h \<Longrightarrow> made_keys L c kp' \<Longrightarrow> pk \<in> {None, Some (fst kp)} \<Longrightarrow> enc k kp ct pt
      \<Longrightarrow> enc (Suc k) kp' (h_ReEncrypt L c ct (h_ReKeyGen L c (snd kp) (fst kp')) pk) pt"
    "enc k kp ct pt \<Longrightarrow> enc k kp (h_ModReduce L c ct) pt"
    "enc k kp ct pt \<Longrightarrow> h_GetCoefPackedValue L (h_Decrypt L c (snd kp) ct) = h_GetCoefPackedValue L pt"
    "h_GetCoefPackedValue L (h_SetLength L n pt) = take n (h_GetCoefPackedValue L pt)"
  using assms unfolding hops_ok_def by blast+

lemma failures_same: "\<forall>j \<in> set js. j < length v \<and> j < length w \<and> v ! j = w ! j \<Longrightarrow> failures v w js = Inr []"
  by (induction js) (simp_all add: at_def)

lemma failures_prefix: "failures (take n w) w [0..<length (take n w)] = Inr []"
  by (rule failures_same) simp

definition reencrypts ::
  "('cc, 'pk, 'sk, 'rk, 'ct, 'pt) hop_lib \<Rightarrow> 'cc \<Rightarrow> (nat \<Rightarrow> 'pk \<times> 'sk \<Rightarrow> 'rk \<Rightarrow> 'ct \<Rightarrow> 'ct result) \<Rightarrow> bool" where
  "reencrypts L c step \<longleftrightarrow> (\<forall>i kp rk ct. \<exists>pk ct'. step i kp rk ct = Inr ct' \<and> pk \<in> {None, Some (fst kp)}
      \<and> (ct' = h_ReEncrypt L c ct rk pk \<or> ct' = h_ModReduce L c (h_ReEncrypt L c ct rk pk)))"

lemma pre_reencrypts: "m \<in> {0, 1, 2, 3} \<Longrightarrow> reencrypts L c (pre_reencrypt L c m hops)"
  unfolding reencrypts_def by (auto simp: pre_reencrypt_def Let_def)

lemma bench_reencrypts: "m \<in> {0, 1, 2, 3} \<Longrightarrow> reencrypts L c (bench_reencrypt L c m)"
  unfolding reencrypts_def by (auto simp: bench_reencrypt_def)

lemma hop_loop_enc:
  assumes ok: "hops_ok L c h V enc"
    and step: "reencrypts L c step"
  shows "enc k kp ct pt \<Longrightarrow> k + length js \<le> h
    \<Longrightarrow> \<exists>kp' ct'. hop_loop L c step calls js (kp, ct) = Inr (kp', ct') \<and> enc (k + length js) kp' ct' pt"
proof (induction js arbitrary: k calls kp ct)
  case (Cons i js)
  let ?kp = "h_KeyGen L c calls"
  let ?rk = "h_ReKeyGen L c (snd kp) (fst ?kp)"
  obtain pk ct' where ct': "step i kp ?rk ct = Inr ct'" "pk \<in> {None, Some (fst kp)}"
    "ct' = h_ReEncrypt L c ct ?rk pk \<or> ct' = h_ModReduce L c (h_ReEncrypt L c ct ?rk pk)"
    using step unfolding reencrypts_def by blast
  have "enc (Suc k) ?kp (h_ReEncrypt L c ct ?rk pk) pt"
    using Cons.prems ct'(2) by (intro hops_okD(2) [OF ok]) simp_all
  then have "enc (Suc k) ?kp ct' pt" using ct'(3) hops_okD(3) [OF ok] by blast
  from Cons.IH [OF this, of "Suc calls"] Cons.prems(2) ct'(1) show ?case by (simp add: Let_def)
qed simp

lemma compare_hops_enc:
  assumes ok: "hops_ok L c h V enc" and "enc 0 kp ct pt" and "enc k kp' ct' pt"
  shows "compare_hops L c pt kp ct (kp', ct') = Inr []"
  using failures_prefix [of "h_GetLength L pt" "h_GetCoefPackedValue L pt"] hops_okD(4) [OF ok assms(2)] hops_okD(4) [OF ok assms(3)]
  by (simp add: compare_hops_def Let_def hops_okD(5) [OF ok])

lemma hops_then_compare:
  assumes ok: "hops_ok L c h V enc" and kp: "made_keys L c kp" and v: "set v \<subseteq> V" and len: "length js \<le> h"
    and step: "reencrypts L c step"
  defines "pt \<equiv> h_MakeCoefPackedPlaintext L c v"
  shows "rbind (hop_loop L c step calls js (kp, h_Encrypt L c (fst kp) pt)) (compare_hops L c pt kp (h_Encrypt L c (fst kp) pt)) = Inr []"
proof -
  note e = hops_okD(1) [OF ok kp v, folded pt_def]
  obtain kp' ct' where last: "hop_loop L c step calls js (kp, h_Encrypt L c (fst kp) pt) = Inr (kp', ct')" "enc (0 + length js) kp' ct' pt"
    using hop_loop_enc [OF ok step e, of js calls] len by auto
  have "compare_hops L c pt kp (h_Encrypt L c (fst kp) pt) (kp', ct') = Inr []"
    by (rule compare_hops_enc [OF ok, OF e last(2)])
  then show ?thesis by (simp only: last(1) rbind_simps)
qed

lemma keygen_rounds_good:
  assumes "\<And>i. h_good L (h_KeyGen L c i)"
  shows "made_keys L c kp0 \<Longrightarrow> \<exists>kp. keygen_rounds L c calls n kp0 = Inr kp \<and> made_keys L c kp"
  using assms by (induction n arbitrary: calls kp0) (simp_all add: Let_def)

lemma rbind_Some: "rbind x (\<lambda>l. rbind (f l) (\<lambda>r. Inr (Some r))) = rbind (rbind x f) (\<lambda>r. Inr (Some r))"
  by (cases x) simp_all

text \<open>If the parameters of a security model allow for as many hops as were asked for, \<^verbatim>\<open>pre.cpp\<close> ends without
  a decryption failure, whatever the number of hops; any other security model makes it exit.\<close>

theorem pre_main_correct:
  assumes opts: "opt_loop hop_switch opts (0, 5) = Inr (True, m, d)"
    and keys: "\<And>c i. h_good L (h_KeyGen L c i)"
    and ok: "\<And>s ring digit. model_settings (of_int m) (of_int d) = Inr (s, ring, digit)
      \<Longrightarrow> hops_ok L (h_GenCryptoContext L (pre_settings s ring digit)) (unat (of_int d :: u32)) {0, 1} enc"
  shows "pre_main L rand opts =
    (if (of_int m :: u32) \<in> {0, 1, 2, 3} then Inr (Some []) else Inl (Exit_failure ''Not a valid security mode''))"
proof (cases "(of_int m :: u32) \<in> {0, 1, 2, 3}")
  case False
  then show ?thesis using opts by (simp add: pre_main_def model_settings_def Let_def)
next
  case True
  let ?m = "of_int m :: u32" and ?d = "of_int d :: u32"
  obtain s ring digit where s: "model_settings ?m ?d = Inr (s, ring, digit)"
    using True unfolding model_settings_def by auto
  let ?c = "h_GenCryptoContext L (pre_settings s ring digit)"
  let ?v = "map (\<lambda>i. int (rand i mod 2)) [0..<ring]"
  obtain kp where kp: "keygen_rounds L ?c 1 (unat ?d) (h_KeyGen L ?c 0) = Inr kp" "made_keys L ?c kp"
    using keygen_rounds_good [OF keys] made_keys_KeyGen by metis
  have v: "set ?v \<subseteq> {0, 1}" by auto
  have "rbind (hop_loop L ?c (pre_reencrypt L ?c ?m ?d) (Suc (unat ?d)) [0..<unat ?d]
      (kp, h_Encrypt L ?c (fst kp) (h_MakeCoefPackedPlaintext L ?c ?v)))
    (compare_hops L ?c (h_MakeCoefPackedPlaintext L ?c ?v) kp (h_Encrypt L ?c (fst kp) (h_MakeCoefPackedPlaintext L ?c ?v))) = Inr []"
    by (rule hops_then_compare [OF ok [OF s] kp(2) v _ pre_reencrypts [OF True]]) simp
  then show ?thesis using True opts s kp(1) by (simp add: pre_main_def Let_def rbind_Some del: insert_iff)
qed

definition toy_hops :: "(settings, unit, unit, unit, int list, int list) hop_lib" where
  \<comment> \<open>a library whose ciphertexts are the plaintexts\<close>
  "toy_hops = \<lparr> h_GenCryptoContext = (\<lambda>s. s), h_RingDimension = (\<lambda>c. 4), h_KeyGen = (\<lambda>c i. ((), ())), h_good = (\<lambda>kp. True),
     h_MakeCoefPackedPlaintext = (\<lambda>c v. v), h_GetLength = length, h_SetLength = take, h_GetCoefPackedValue = (\<lambda>v. v),
     h_Encrypt = (\<lambda>c pk v. v), h_Decrypt = (\<lambda>c sk v. v), h_ReKeyGen = (\<lambda>c sk pk. ()), h_ReEncrypt = (\<lambda>c v rk pk. v),
     h_ModReduce = (\<lambda>c v. v) \<rparr>"

lemma toy_hops_ok: "hops_ok toy_hops c h V (\<lambda>k kp ct pt. ct = pt)"
  by (simp add: hops_ok_def toy_hops_def)

lemma toy_hops_good: "h_good toy_hops kp"
  by (simp add: toy_hops_def)

lemma atoi_2 [simp]: "atoi ''2'' = Inr 2"
  by code_simp

lemma pre_main_correct_witness: "pre_main toy_hops (\<lambda>i. 7 * i) [(CHR ''m'', Some ''2'')] = Inr (Some [])"
  using pre_main_correct [where L = toy_hops and opts = "[(CHR ''m'', Some ''2'')]" and m = 2 and d = 5 and rand = "\<lambda>i. 7 * i"
      and enc = "\<lambda>k kp ct pt. ct = pt"] toy_hops_ok toy_hops_good
  by (simp add: hop_switch_def)

text \<open>The benchmark \<^verbatim>\<open>pre_d.cpp\<close> ends without a decryption failure for the four security models; with another security model
  it exits in its first hop, and without a hop it ends as if the model were valid.\<close>

theorem pre_bench_correct:
  assumes opts: "opt_loop hop_switch opts (0, 1) = Inr (True, m, hops)"
    and keys: "\<And>c i. h_good L (h_KeyGen L c i)"
    and ok: "hops_ok L (h_GenCryptoContext L (bench_settings (bench_model (of_int m)))) (nat hops) {- 32767..32768} enc"
  shows "pre_bench L rand opts =
    (if (of_int m :: u32) \<in> {0, 1, 2, 3} \<or> hops \<le> 0 then Inr (Some []) else Inl (Exit_failure ''Not a valid security mode''))"
proof -
  let ?m = "of_int m :: u32" and ?b = "bench_model (of_int m)"
  let ?c = "h_GenCryptoContext L (bench_settings ?b)"
  let ?p = "bd_plaintextModulus ?b"
  let ?v = "map (\<lambda>i. if ?p = 2 then int (rand i) mod ?p else int (rand i) mod ?p - (?p div 2 - 1)) [0..<h_RingDimension L ?c]"
  have p: "?p = 2 \<or> ?p = 65536" by (simp add: bench_model_def)
  have "x mod 2 \<in> {- 32767..32768}" "x mod 65536 - 32767 \<in> {- 32767..32768}" for x :: int
    using pos_mod_bound [of 2 x] pos_mod_sign [of 2 x] pos_mod_bound [of 65536 x] pos_mod_sign [of 65536 x] by auto
  then have v: "set ?v \<subseteq> {- 32767..32768}" using p by (auto simp del: atLeastAtMost_iff)
  note e = hops_okD(1) [OF ok made_keys_KeyGen v]
  show ?thesis
  proof (cases "?m \<in> {0, 1, 2, 3}")
    case True
    have "rbind (hop_loop L ?c (bench_reencrypt L ?c ?m) 1 [0..<nat hops]
        (h_KeyGen L ?c 0, h_Encrypt L ?c (fst (h_KeyGen L ?c 0)) (h_MakeCoefPackedPlaintext L ?c ?v)))
      (compare_hops L ?c (h_MakeCoefPackedPlaintext L ?c ?v) (h_KeyGen L ?c 0)
        (h_Encrypt L ?c (fst (h_KeyGen L ?c 0)) (h_MakeCoefPackedPlaintext L ?c ?v))) = Inr []"
      by (rule hops_then_compare [OF ok made_keys_KeyGen v _ bench_reencrypts [OF True]]) simp
    then show ?thesis using True opts keys by (simp add: pre_bench_def Let_def rbind_Some del: insert_iff)
  next
    case False
    show ?thesis
    proof (cases "hops \<le> 0")
      case True
      from compare_hops_enc [OF ok, OF e e]
      show ?thesis using True opts keys by (simp add: pre_bench_def Let_def)
    next
      case pos: False
      then have "[0..<nat hops] = 0 # [1..<nat hops]" by (simp add: upt_conv_Cons)
      then show ?thesis using False pos opts keys by (simp add: pre_bench_def Let_def bench_reencrypt_def)
    qed
  qed
qed

lemma pre_bench_correct_witness:
  "pre_bench toy_hops (\<lambda>i. 7 * i) [(CHR ''m'', Some ''2'')] = Inr (Some [])"
  using pre_bench_correct [where L = toy_hops and opts = "[(CHR ''m'', Some ''2'')]" and m = 2 and hops = 1 and rand = "\<lambda>i. 7 * i"
      and enc = "\<lambda>k kp ct pt. ct = pt"] toy_hops_ok toy_hops_good
  by (simp add: hop_switch_def)

end
