(* ===== verification/Credentials.thy ===== *)
theory Credentials
  imports Cmdline
begin

text \<open>
  The ports on which the servers of all demos listen and the channels that their clients open: \<^verbatim>\<open>Init\<close> and \<^verbatim>\<open>Run\<close> of
  the servers, the constructors of the clients inside servers, and the beginning of the client programs. A
  port or channel is its address with the credentials it was given. gRPC is a record of the
  default \<^verbatim>\<open>SslServerCredentialsOptions\<close> and of which channel can connect to which port;
  \<open>tls_laws\<close> is what its documentation says about them, for each way in which a server can treat its clients' certificates. \<open>fs\<close> is \<^verbatim>\<open>file2String\<close>, the contents of a file. The
  property \<open>links_open\<close> follows command lines and certificate files to the connections.
\<close>

section \<open>Credentials\<close>

datatype client_certificates = DONT_REQUEST | REQUEST_BUT_DONT_VERIFY | REQUEST_AND_VERIFY
  | REQUIRE_BUT_DONT_VERIFY | REQUIRE_AND_VERIFY

record ssl_server_options =
  pem_root_certs :: string
  pem_key_cert_pairs :: "(string \<times> string) list"
  client_certificate_request :: client_certificates

datatype server_credentials = InsecureServerCredentials | SslServerCredentials ssl_server_options

datatype channel_credentials = InsecureChannelCredentials
  | SslCredentials string string string \<comment> \<open>roots, private key, certificate chain\<close>

record grpc_lib =
  SslServerCredentialsOptions :: ssl_server_options
  can_connect :: "string \<Rightarrow> server_credentials \<Rightarrow> channel_credentials \<Rightarrow> bool"

type_synonym listening = "string \<times> server_credentials"
type_synonym channel = "string \<times> channel_credentials"

definition server_creds :: "grpc_lib \<Rightarrow> (string \<Rightarrow> string) \<Rightarrow> bool \<Rightarrow> string \<Rightarrow> string \<Rightarrow> string \<Rightarrow> server_credentials" where
  "server_creds G fs ssloff root key crt =
     (if ssloff then InsecureServerCredentials
      else let keyCert = (fs key, fs crt);
               opts = SslServerCredentialsOptions G;
               opts = opts\<lparr>pem_root_certs := fs root\<rparr>;
               opts = opts\<lparr>pem_key_cert_pairs := pem_key_cert_pairs opts @ [keyCert]\<rparr>
           in SslServerCredentials opts)"

definition channel_creds :: "(string \<Rightarrow> string) \<Rightarrow> bool \<Rightarrow> string \<Rightarrow> string \<Rightarrow> string \<Rightarrow> channel_credentials" where
  "channel_creds fs ssloff root key crt =
     (if ssloff then InsecureChannelCredentials else SslCredentials (fs root) (fs key) (fs crt))"

definition dial :: "grpc_lib \<Rightarrow> listening \<Rightarrow> channel \<Rightarrow> bool" where
  \<comment> \<open>a channel to the address of the port connects\<close>
  "dial G open_port chan \<longleftrightarrow> fst chan = fst open_port \<and> can_connect G (fst open_port) (snd open_port) (snd chan)"

section \<open>The programs\<close>

definition node_port :: "grpc_lib \<Rightarrow> (string \<Rightarrow> string) \<Rightarrow> CommParams \<Rightarrow> listening" where
  "node_port G fs nodeparams = (socket_address nodeparams, server_creds G fs (disableSSLAuthentication nodeparams)
     (root_cert_file nodeparams) (server_private_key_file nodeparams) (server_cert_chain_file nodeparams))"

definition NodeClient :: "(string \<Rightarrow> string) \<Rightarrow> string \<Rightarrow> CommParams \<Rightarrow> channel" where
  "NodeClient fs receiver_node_socket_address params = (receiver_node_socket_address, channel_creds fs (disableSSLAuthentication params)
     (root_cert_file params) (client_private_key_file params) (client_cert_chain_file params))"

definition thr_server_creds :: "grpc_lib \<Rightarrow> (string \<Rightarrow> string) \<Rightarrow> 'a ThrParams_scheme \<Rightarrow> server_credentials" where
  "thr_server_creds G fs params = server_creds G fs (thr_disableSSL params)
     (thr_root_cert_file params) (thr_server_private_key_file params) (thr_server_cert_chain_file params)"

definition thr_channel_creds :: "(string \<Rightarrow> string) \<Rightarrow> 'a ThrParams_scheme \<Rightarrow> channel_credentials" where
  "thr_channel_creds fs params = channel_creds fs (thr_disableSSL params)
     (thr_root_cert_file params) (thr_client_private_key_file params) (thr_client_cert_chain_file params)"

definition thr_port :: "grpc_lib \<Rightarrow> (string \<Rightarrow> string) \<Rightarrow> ThrParams \<Rightarrow> listening" where
  "thr_port G fs params = (thr_socket_address params, thr_server_creds G fs params)"

definition thr_channel :: "(string \<Rightarrow> string) \<Rightarrow> ThrParams \<Rightarrow> channel" where
  "thr_channel fs params = (thr_socket_address params, thr_channel_creds fs params)"

definition adj_port :: "grpc_lib \<Rightarrow> (string \<Rightarrow> string) \<Rightarrow> AdjParams \<Rightarrow> listening" where
  "adj_port G fs params = (thr_socket_address params, thr_server_creds G fs params)"

definition controller_port :: "grpc_lib \<Rightarrow> (string \<Rightarrow> string) \<Rightarrow> AdjParams \<Rightarrow> listening" where
  "controller_port G fs params = (controller_socket_address params, thr_server_creds G fs params)"

definition ThreshControllerInternalClient :: "(string \<Rightarrow> string) \<Rightarrow> AdjParams \<Rightarrow> channel" where
  "ThreshControllerInternalClient fs params = (thr_socket_address params, thr_channel_creds fs params)"

definition adj_channels :: "(string \<Rightarrow> string) \<Rightarrow> AdjParams \<Rightarrow> channel \<times> channel" where
  \<comment> \<open>channel_server and channel_controller\<close>
  "adj_channels fs params =
     (let channel_creds = thr_channel_creds fs params
      in ((thr_socket_address params, channel_creds), (controller_socket_address params, channel_creds)))"

definition key_server_port :: "grpc_lib \<Rightarrow> (string \<Rightarrow> string) \<Rightarrow> PreParams \<Rightarrow> listening" where
  \<comment> \<open>the roots are read from the server's own client certificate\<close>
  "key_server_port G fs params = (key_server_socket_address params, server_creds G fs (pre_disableSSL params)
     (pre_client_cert_chain_file params) (pre_server_private_key_file params) (pre_server_cert_chain_file params))"

definition broker_port :: "grpc_lib \<Rightarrow> (string \<Rightarrow> string) \<Rightarrow> PreParams \<Rightarrow> listening" where
  "broker_port G fs params = (broker_socket_address params, server_creds G fs (pre_disableSSL params)
     (pre_root_cert_file params) (pre_server_private_key_file params) (pre_server_cert_chain_file params))"

definition pre_channel_creds :: "(string \<Rightarrow> string) \<Rightarrow> PreParams \<Rightarrow> channel_credentials" where
  "pre_channel_creds fs params = channel_creds fs (pre_disableSSL params)
     (pre_root_cert_file params) (pre_client_private_key_file params) (pre_client_cert_chain_file params)"

definition KeyServerInternalClient :: "(string \<Rightarrow> string) \<Rightarrow> PreParams \<Rightarrow> channel" where
  "KeyServerInternalClient fs params = (upstream_key_server_socket_address params, pre_channel_creds fs params)"

definition BrokerKeyServerInternalClient :: "(string \<Rightarrow> string) \<Rightarrow> PreParams \<Rightarrow> channel" where
  "BrokerKeyServerInternalClient fs params = (key_server_socket_address params, pre_channel_creds fs params)"

definition BrokerUpstreamInternalClient :: "(string \<Rightarrow> string) \<Rightarrow> PreParams \<Rightarrow> channel" where
  "BrokerUpstreamInternalClient fs params = (upstream_broker_socket_address params, pre_channel_creds fs params)"

definition producer_channels :: "(string \<Rightarrow> string) \<Rightarrow> PreParams \<Rightarrow> channel \<times> channel" where
  \<comment> \<open>channel_key_server and channel_broker_server\<close>
  "producer_channels fs params =
     (let channel_creds = pre_channel_creds fs params
      in ((key_server_socket_address params, channel_creds), (broker_socket_address params, channel_creds)))"

definition consumer_channels :: "(string \<Rightarrow> string) \<Rightarrow> PreParams \<Rightarrow> channel \<times> channel" where
  "consumer_channels fs params =
     (let channel_creds = pre_channel_creds fs params
      in ((key_server_socket_address params, channel_creds), (upstream_broker_socket_address params, channel_creds)))"

section \<open>What gRPC documents\<close>

definition admits :: "(string \<Rightarrow> string \<times> string \<Rightarrow> bool) \<Rightarrow> client_certificates \<Rightarrow> string \<Rightarrow> string \<times> string \<Rightarrow> bool" where
  \<comment> \<open>does a server with these roots let a client with this key and certificate in? Empty ones are not presented. The
    comments of grpc_ssl_client_certificate_request_type, mode by mode\<close>
  "admits trusts mode roots kc =
     (case mode of
        DONT_REQUEST \<Rightarrow> True
      | REQUEST_BUT_DONT_VERIFY \<Rightarrow> True
      | REQUEST_AND_VERIFY \<Rightarrow> kc = ([], []) \<or> trusts roots kc
      | REQUIRE_BUT_DONT_VERIFY \<Rightarrow> kc \<noteq> ([], [])
      | REQUIRE_AND_VERIFY \<Rightarrow> kc \<noteq> ([], []) \<and> trusts roots kc)"

definition presentable :: "(string \<times> string \<Rightarrow> bool) \<Rightarrow> string \<times> string \<Rightarrow> bool" where
  \<comment> \<open>SslCredentialsOptions: key and certificate may both be empty, otherwise they have to be a valid pair\<close>
  "presentable valid kc \<longleftrightarrow> kc = ([], []) \<or> valid kc"

definition tls_laws :: "grpc_lib \<Rightarrow> (string \<times> string \<Rightarrow> bool) \<Rightarrow> (string \<Rightarrow> string \<Rightarrow> string \<times> string \<Rightarrow> bool)
    \<Rightarrow> (string \<Rightarrow> string \<times> string \<Rightarrow> bool) \<Rightarrow> bool" where
  \<comment> \<open>valid: the PEM key belongs to the PEM certificate; vouches a r kc: the roots r make a client accept a server with kc
    at the address a; trusts r kc: the roots r make a server accept a client with kc\<close>
  "tls_laws G valid vouches trusts \<longleftrightarrow>
     pem_key_cert_pairs (SslServerCredentialsOptions G) = []
   \<and> client_certificate_request (SslServerCredentialsOptions G) = DONT_REQUEST
   \<and> (\<forall>a. can_connect G a InsecureServerCredentials InsecureChannelCredentials)
   \<and> (\<forall>a s. \<not> can_connect G a (SslServerCredentials s) InsecureChannelCredentials)
   \<and> (\<forall>a r k c. \<not> can_connect G a InsecureServerCredentials (SslCredentials r k c))
   \<and> (\<forall>a s r k c. presentable valid (k, c) \<longrightarrow>
        can_connect G a (SslServerCredentials s) (SslCredentials r k c) =
          ((\<exists>kc \<in> set (pem_key_cert_pairs s). vouches a r kc)
           \<and> admits trusts (client_certificate_request s) (pem_root_certs s) (k, c)))"

lemmas port_defs = node_port_def thr_port_def adj_port_def controller_port_def thr_server_creds_def key_server_port_def broker_port_def

lemmas channel_defs = NodeClient_def thr_channel_def adj_channels_def ThreshControllerInternalClient_def thr_channel_creds_def
  producer_channels_def consumer_channels_def pre_channel_creds_def KeyServerInternalClient_def BrokerKeyServerInternalClient_def
  BrokerUpstreamInternalClient_def Let_def

lemma dial_creds:
  assumes "tls_laws G valid vouches trusts" "presentable valid (fs' key', fs' crt')"
  shows "dial G (a, server_creds G fs off root key crt) (b, channel_creds fs' off' root' key' crt')
    \<longleftrightarrow> b = a \<and> off = off' \<and> (\<not> off \<longrightarrow> vouches a (fs' root') (fs key, fs crt))"
  using assms
  by (cases off; cases off') (auto simp: tls_laws_def admits_def dial_def server_creds_def channel_creds_def Let_def)

section \<open>From command lines to connections\<close>

definition comm_started :: "string \<Rightarrow> string \<Rightarrow> string \<Rightarrow> CommParams \<Rightarrow> bool" where
  \<comment> \<open>a program of the peer to peer framework was started with these parameters\<close>
  "comm_started certs_dir dir n p \<longleftrightarrow>
     (\<exists>opts. processInputParams certs_dir opts CommParams0 = Inr (True, p)) \<and> NodeName p = n \<and> credentials_location p = dir"

definition aborts_started :: "string \<Rightarrow> string \<Rightarrow> string \<Rightarrow> ThrParams \<Rightarrow> bool" where
  "aborts_started certs_dir dir n p \<longleftrightarrow>
     (\<exists>opts. processInputParams_aborts certs_dir opts ThrParams0 = Inr (True, p)) \<and> thr_process_name p = n \<and> thr_credentials_location p = dir"

definition adj_started :: "string \<Rightarrow> string \<Rightarrow> string \<Rightarrow> AdjParams \<Rightarrow> bool" where
  "adj_started certs_dir dir n p \<longleftrightarrow>
     (\<exists>opts. processInputParams_adjacent certs_dir opts AdjParams0 = Inr (True, p)) \<and> thr_process_name p = n \<and> thr_credentials_location p = dir"

definition pre_started :: "string \<Rightarrow> string \<Rightarrow> string \<Rightarrow> PreParams \<Rightarrow> bool" where
  "pre_started certs_dir dir n p \<longleftrightarrow>
     (\<exists>opts. processInputParams_pre certs_dir opts PreParams0 = Inr (True, p)) \<and> pre_process_name p = n \<and> pre_credentials_location p = dir"

definition certs_made :: "(string \<Rightarrow> string) \<Rightarrow> string \<Rightarrow> string \<Rightarrow> string set \<Rightarrow> (string \<Rightarrow> string \<times> string) \<Rightarrow> bool" where
  \<comment> \<open>the files that the scripts make in a directory, for the nodes of a demo; kc n: key and certificate of n's server\<close>
  "certs_made fs dir ca N kc \<longleftrightarrow> fs (in_dirs [dir] ''ca.crt'') = ca
     \<and> (\<forall>n \<in> N. fs (in_dirs [dir, n] ''ca.crt'') = ca
          \<and> (fs (in_dirs [dir, n] (server_key_name n)), fs (in_dirs [dir, n] (server_crt_name n))) = kc n)"

definition own_certs :: "(string \<Rightarrow> string) \<Rightarrow> string \<Rightarrow> string \<Rightarrow> string \<times> string" where
  \<comment> \<open>key and certificate with which n's clients are set up; empty if the files are missing\<close>
  "own_certs fs dir n = (fs (in_dirs [dir, n] (client_key_name n)), fs (in_dirs [dir, n] (client_crt_name n)))"

lemma comm_started_files:
  "comm_started certs_dir dir n p \<Longrightarrow> root_cert_file p = in_dirs [dir, n] ''ca.crt''
    \<and> server_private_key_file p = in_dirs [dir, n] (server_key_name n) \<and> server_cert_chain_file p = in_dirs [dir, n] (server_crt_name n)
    \<and> client_private_key_file p = in_dirs [dir, n] (client_key_name n) \<and> client_cert_chain_file p = in_dirs [dir, n] (client_crt_name n)"
  by (auto simp: comm_started_def processInputParams_def comm_files_def rbind_Inr_iff Let_def split: if_splits)

lemma thr_finish_files:
  "thr_finish certs_dir p0 = Inr (True, p) \<Longrightarrow> thr_process_name p = n \<Longrightarrow> thr_credentials_location p = dir \<Longrightarrow>
     thr_root_cert_file p = in_dirs [dir] ''ca.crt''
    \<and> thr_server_private_key_file p = in_dirs [dir, n] (server_key_name n) \<and> thr_server_cert_chain_file p = in_dirs [dir, n] (server_crt_name n)
    \<and> thr_client_private_key_file p = in_dirs [dir, n] (client_key_name n) \<and> thr_client_cert_chain_file p = in_dirs [dir, n] (client_crt_name n)"
  by (auto simp: thr_finish_def thr_files_def rbind_Inr_iff Let_def split: if_splits)

lemma aborts_started_files:
  "aborts_started certs_dir dir n p \<Longrightarrow> thr_root_cert_file p = in_dirs [dir] ''ca.crt''
    \<and> thr_server_private_key_file p = in_dirs [dir, n] (server_key_name n) \<and> thr_server_cert_chain_file p = in_dirs [dir, n] (server_crt_name n)
    \<and> thr_client_private_key_file p = in_dirs [dir, n] (client_key_name n) \<and> thr_client_cert_chain_file p = in_dirs [dir, n] (client_crt_name n)"
  by (auto simp: aborts_started_def processInputParams_aborts_def rbind_Inr_iff split: if_splits dest: thr_finish_files)

lemma adj_started_files:
  "adj_started certs_dir dir n p \<Longrightarrow> thr_root_cert_file p = in_dirs [dir] ''ca.crt''
    \<and> thr_server_private_key_file p = in_dirs [dir, n] (server_key_name n) \<and> thr_server_cert_chain_file p = in_dirs [dir, n] (server_crt_name n)
    \<and> thr_client_private_key_file p = in_dirs [dir, n] (client_key_name n) \<and> thr_client_cert_chain_file p = in_dirs [dir, n] (client_crt_name n)"
  by (auto simp: adj_started_def processInputParams_adjacent_def rbind_Inr_iff split: if_splits dest: thr_finish_files)

lemma pre_started_files:
  "pre_started certs_dir dir n p \<Longrightarrow> pre_root_cert_file p = in_dirs [dir, n] ''ca.crt''
    \<and> pre_server_private_key_file p = in_dirs [dir, n] (server_key_name n) \<and> pre_server_cert_chain_file p = in_dirs [dir, n] (server_crt_name n)
    \<and> pre_client_private_key_file p = in_dirs [dir, n] (client_key_name n) \<and> pre_client_cert_chain_file p = in_dirs [dir, n] (client_crt_name n)"
  by (auto simp: pre_started_def processInputParams_pre_def pre_files_def rbind_Inr_iff Let_def split: if_splits)

lemma certs_madeD:
  assumes "certs_made fs dir ca N kc"
  shows "fs (in_dirs [dir] ''ca.crt'') = ca"
    "n \<in> N \<Longrightarrow> fs (in_dirs [dir, n] ''ca.crt'') = ca"
    "n \<in> N \<Longrightarrow> (fs (in_dirs [dir, n] (server_key_name n)), fs (in_dirs [dir, n] (server_crt_name n))) = kc n"
  using assms by (auto simp: certs_made_def)

text \<open>C24: Who can connect to whom. Take two programs of a demo, n a client of m, whose command lines were accepted, that use the
  directory in which the scripts made the certificate files, the one of m's server for the host of its
  address a. The client's own key and certificate are a valid pair, of whatever issuer, or missing. Then the
  client's channel connects exactly when both or neither of them were given -Wssloff. The authentication is not
  mutual, as README.md has it: gRPC could check the clients in several ways, but the servers leave the option at its default.\<close>

theorem links_open:
  assumes laws: "tls_laws G valid vouches trusts" and made: "certs_made fs dir ca N kc" and nodes: "n \<in> N" "m \<in> N"
    and vouched: "vouches a ca (kc m)" and own: "presentable valid (own_certs fs dir n)"
  shows
    "(\<forall>p q. comm_started certs_dir dir n p \<longrightarrow> comm_started certs_dir dir m q \<longrightarrow> socket_address q = a
       \<longrightarrow> dial G (node_port G fs q) (NodeClient fs a p) = (disableSSLAuthentication p = disableSSLAuthentication q))
   \<and> (\<forall>p q. aborts_started certs_dir dir n p \<longrightarrow> aborts_started certs_dir dir m q \<longrightarrow> thr_socket_address p = a \<longrightarrow> thr_socket_address q = a
       \<longrightarrow> dial G (thr_port G fs q) (thr_channel fs p) = (thr_disableSSL p = thr_disableSSL q))
   \<and> (\<forall>p q. adj_started certs_dir dir n p \<longrightarrow> adj_started certs_dir dir m q \<longrightarrow> thr_socket_address p = a \<longrightarrow> thr_socket_address q = a
       \<longrightarrow> (\<forall>ch \<in> {fst (adj_channels fs p), ThreshControllerInternalClient fs p}.
             dial G (adj_port G fs q) ch = (thr_disableSSL p = thr_disableSSL q)))
   \<and> (\<forall>p q. adj_started certs_dir dir n p \<longrightarrow> adj_started certs_dir dir m q
       \<longrightarrow> controller_socket_address p = a \<longrightarrow> controller_socket_address q = a
       \<longrightarrow> dial G (controller_port G fs q) (snd (adj_channels fs p)) = (thr_disableSSL p = thr_disableSSL q))
   \<and> (\<forall>p q. pre_started certs_dir dir n p \<longrightarrow> pre_started certs_dir dir m q \<longrightarrow> key_server_socket_address q = a
       \<longrightarrow> (\<forall>ch \<in> {fst (producer_channels fs p), fst (consumer_channels fs p), BrokerKeyServerInternalClient fs p, KeyServerInternalClient fs p}.
             fst ch = a \<longrightarrow> dial G (key_server_port G fs q) ch = (pre_disableSSL p = pre_disableSSL q)))
   \<and> (\<forall>p q. pre_started certs_dir dir n p \<longrightarrow> pre_started certs_dir dir m q \<longrightarrow> broker_socket_address q = a
       \<longrightarrow> (\<forall>ch \<in> {snd (producer_channels fs p), snd (consumer_channels fs p), BrokerUpstreamInternalClient fs p}.
             fst ch = a \<longrightarrow> dial G (broker_port G fs q) ch = (pre_disableSSL p = pre_disableSSL q)))"
  using certs_madeD(2) [OF made nodes(1)] certs_madeD(3) [OF made nodes(2)] certs_madeD(1) [OF made] vouched
    own [unfolded own_certs_def]
  by (intro conjI allI impI)
    (auto simp: port_defs channel_defs dial_creds [OF laws]
      dest!: comm_started_files aborts_started_files adj_started_files pre_started_files)

text \<open>If the options made the servers verify their clients, the key server, whose roots are its own client certificate
  and not the certificate authority's, would trust other clients than the broker.\<close>

lemma key_server_roots:
  assumes "tls_laws G valid vouches trusts" "\<not> pre_disableSSL q"
  shows "\<exists>s t. key_server_port G fs q = (key_server_socket_address q, SslServerCredentials s)
    \<and> broker_port G fs q = (broker_socket_address q, SslServerCredentials t)
    \<and> pem_root_certs s = fs (pre_client_cert_chain_file q) \<and> pem_root_certs t = fs (pre_root_cert_file q)
    \<and> client_certificate_request s = DONT_REQUEST \<and> client_certificate_request t = DONT_REQUEST"
  using assms by (simp add: key_server_port_def broker_port_def server_creds_def tls_laws_def Let_def)

section \<open>A concrete instance\<close>

definition toy_grpc :: grpc_lib where
  \<comment> \<open>a key belongs to the same certificate; servers are accepted by clients with the roots CA and clients by no server that verifies\<close>
  "toy_grpc = \<lparr> SslServerCredentialsOptions = \<lparr> pem_root_certs = [], pem_key_cert_pairs = [], client_certificate_request = DONT_REQUEST \<rparr>,
     can_connect = (\<lambda>a s c. case (s, c) of
        (InsecureServerCredentials, InsecureChannelCredentials) \<Rightarrow> True
      | (SslServerCredentials opts, SslCredentials r k crt) \<Rightarrow>
          k = crt \<and> r = ''CA'' \<and> list_ex (\<lambda>kc. fst kc = snd kc) (pem_key_cert_pairs opts)
          \<and> (case client_certificate_request opts of
               REQUEST_AND_VERIFY \<Rightarrow> k = [] | REQUIRE_BUT_DONT_VERIFY \<Rightarrow> k \<noteq> [] | REQUIRE_AND_VERIFY \<Rightarrow> False | _ \<Rightarrow> True)
      | _ \<Rightarrow> False) \<rparr>"

definition toy_files :: "string \<Rightarrow> string" where
  \<comment> \<open>Node1 has no key and certificate of its own\<close>
  "toy_files f = (if f \<in> {''certs/ca.crt'', ''certs/Node1/ca.crt'', ''certs/Node2/ca.crt''} then ''CA''
     else if f \<in> {''certs/Node1/client_Node1.key'', ''certs/Node1/client_Node1.crt''} then [] else ''secret'')"

lemma toy_tls_laws: "tls_laws toy_grpc (\<lambda>kc. fst kc = snd kc) (\<lambda>a r kc. r = ''CA'' \<and> fst kc = snd kc) (\<lambda>r kc. False)"
  by (auto simp: tls_laws_def admits_def presentable_def toy_grpc_def list_ex_iff split: client_certificates.split)

lemma toy_own: "presentable (\<lambda>kc. fst kc = snd kc) (own_certs toy_files ''certs'' ''Node1'')"
  by (simp add: presentable_def own_certs_def toy_files_def in_dirs_def client_key_name_def client_crt_name_def)

lemma toy_certs_made: "certs_made toy_files ''certs'' ''CA'' {''Node1'', ''Node2''} (\<lambda>n. (''secret'', ''secret''))"
  by (simp add: certs_made_def toy_files_def in_dirs_def server_key_name_def server_crt_name_def)

lemma links_open_witness:
  "\<exists>p q r. processInputParams [] [(CHR ''n'', Some ''Node1''), (CHR ''s'', Some ''h:1''), (CHR ''l'', Some ''certs'')] CommParams0 = Inr (True, p)
    \<and> processInputParams [] [(CHR ''n'', Some ''Node2''), (CHR ''s'', Some ''h:2''), (CHR ''l'', Some ''certs'')] CommParams0 = Inr (True, q)
    \<and> processInputParams [] [(CHR ''n'', Some ''Node2''), (CHR ''s'', Some ''h:2''), (CHR ''l'', Some ''certs''), (CHR ''W'', Some ''ssloff'')] CommParams0
        = Inr (True, r)
    \<and> dial toy_grpc (node_port toy_grpc toy_files q) (NodeClient toy_files ''h:2'' p)
    \<and> \<not> dial toy_grpc (node_port toy_grpc toy_files r) (NodeClient toy_files ''h:2'' p)"
proof -
  let ?o = "\<lambda>n s. [(CHR ''n'', Some n), (CHR ''s'', Some s), (CHR ''l'', Some ''certs'')]"
  let ?p = "\<lambda>n s off. comm_files (CommParams0\<lparr>NodeName := n, socket_address := s, credentials_location := ''certs'', disableSSLAuthentication := off\<rparr>)"
  have p: "processInputParams [] (?o ''Node1'' ''h:1'') CommParams0 = Inr (True, ?p ''Node1'' ''h:1'' False)"
    "processInputParams [] (?o ''Node2'' ''h:2'') CommParams0 = Inr (True, ?p ''Node2'' ''h:2'' False)"
    "processInputParams [] (?o ''Node2'' ''h:2'' @ [(CHR ''W'', Some ''ssloff'')]) CommParams0 = Inr (True, ?p ''Node2'' ''h:2'' True)"
    by (simp_all add: processInputParams_def comm_switch_def CommParams0_def)
  have started: "comm_started [] ''certs'' ''Node1'' (?p ''Node1'' ''h:1'' False)"
    "comm_started [] ''certs'' ''Node2'' (?p ''Node2'' ''h:2'' False)" "comm_started [] ''certs'' ''Node2'' (?p ''Node2'' ''h:2'' True)"
    using p by (auto simp: comm_started_def comm_files_def Let_def intro: exI)
  note link = links_open [OF toy_tls_laws toy_certs_made, where n = "''Node1''" and m = "''Node2''" and a = "''h:2''" and certs_dir = "[]", THEN conjunct1, rule_format]
  have "dial toy_grpc (node_port toy_grpc toy_files (?p ''Node2'' ''h:2'' off)) (NodeClient toy_files ''h:2'' (?p ''Node1'' ''h:1'' False)) = (\<not> off)"
    if "comm_started [] ''certs'' ''Node2'' (?p ''Node2'' ''h:2'' off)" for off
    using link [OF _ _ _ toy_own started(1) that] by (simp add: comm_files_def Let_def)
  then show ?thesis using started p by fastforce
qed

end
