(* ===== verification/Spec2Isabelle.thy ===== *)
theory Spec2Isabelle
  imports Text_Utils Hex_Codec Cmdline Routing_Table Call_Data Msg_Queue Node Node_Send Node_Receive
    Rpc Thresh_Server Thresh_Mailbox Thresh_Spec Thresh_Client Prog Thresh_Main Thresh_Keygen Thresh_Aborts Pre_Broker Pre_Demo
    P2P_Ring Measure_Correct Measure_Controller_Correct Statistics_Correct P2P_Rounds Aborts_P2P Aborts_Setup Aborts_Recovery Adj_Correct Fhe_Examples Pre_Hops Credentials
begin

text \<open>
  The network examples of OpenFHE: C++ programs that run threshold and proxy re-encryption protocols over
  gRPC. OpenFHE and gRPC themselves are not part of the repository. What the programs use of OpenFHE
  (key generation, evaluation, serialisation) is a record of functions, an argument of the definitions;
  gRPC is modelled by what the programs see of it: a call that returns a reply or an error status,
  and a completion queue whose events arrive in some order. Directories are below \<^verbatim>\<open>src\<close> of the repository.

  \<^bold>\<open>The parts of the program and their theories\<close>

  \<^item> Shared: \<^theory_text>\<open>Prelude\<close> has the errors (exceptions, process exits, undefined behaviour) as values, actions
    on a state that can fail, and \<^verbatim>\<open>std::map\<close>'s \<^verbatim>\<open>operator[]\<close>, which inserts a default.
    \<^theory_text>\<open>Text_Utils\<close> has \<^verbatim>\<open>SplitString\<close> and \<^verbatim>\<open>buffer2PrintableString\<close>, \<^theory_text>\<open>Cmdline\<close> the four
    \<^verbatim>\<open>processInputParams\<close>, \<^theory_text>\<open>Credentials\<close> the ports and channels the programs open with them:
    \<open>links_open\<close> says which of them connect.
  \<^item> The asynchronous servers of all demos: \<^theory_text>\<open>Call_Data\<close> (\<^verbatim>\<open>CallData::Proceed\<close>, \<^verbatim>\<open>HandleRpcs\<close>) is the
    state machine of call objects and completion queue events; \<^theory_text>\<open>Rpc\<close> states what a handler keeps
    (\<open>handler_inv\<close>), what two runs of it have in common (\<open>handler_rel\<close>) and what a
    store for clients that poll promises (\<open>mailbox\<close>). The demos' servers are proved as handlers: a function from
    a request and a state to a reply and a state.
  \<^item> The peer to peer framework (\<^verbatim>\<open>peer_to_peer_framework\<close>): \<^theory_text>\<open>Msg_Queue\<close> is \<^verbatim>\<open>tsqueue\<close>, with the interface of
    a queue as the locale \<open>fifo\<close>; \<^theory_text>\<open>Node\<close> is \<^verbatim>\<open>NodeImpl\<close>, \<^verbatim>\<open>NodeClient\<close> and \<^verbatim>\<open>MessageServicer\<close>;
    \<^theory_text>\<open>Node_Send\<close> and \<^theory_text>\<open>Node_Receive\<close> prove what sending and receiving do on every branch, timeouts
    included.
  \<^item> Programs on the framework: \<^theory_text>\<open>P2P_Net\<close> has programs as trees of the calls they make on their \<^verbatim>\<open>NodeImpl\<close>
    and the abstract network of channels, which is confluent; \<^theory_text>\<open>P2P_Nodes\<close> runs the same programs on the
    routines of \<^theory_text>\<open>Node\<close> and proves that this refines the abstract network. \<^theory_text>\<open>P2P_Runs\<close> (schedules of few
    nodes), \<^theory_text>\<open>P2P_Ring\<close> (sweeps over any number of nodes) and \<^theory_text>\<open>P2P_Rounds\<close> (rounds of messages between any
    number of nodes) build one run, which by confluence decides all runs.
  \<^item> The network measurement demos (\<^verbatim>\<open>network_measure_examples\<close>): \<^theory_text>\<open>Measure_Lib\<close> has the library, the input files and
    \<^verbatim>\<open>int64_t\<close>; \<^theory_text>\<open>Measure_Main\<close> is \<^verbatim>\<open>network_measure.cpp\<close>, \<^theory_text>\<open>Measure_Controller\<close> the two programs with a
    controller, \<^theory_text>\<open>Path_Keys\<close> the joint keys of a path of nodes, \<^theory_text>\<open>Registers\<close> (with \<^theory_text>\<open>Floats\<close>)
    \<^verbatim>\<open>register_functions.h\<close>, \<^theory_text>\<open>Statistics\<close> the two statistics programs. \<^theory_text>\<open>Measure_Correct\<close>,
    \<^theory_text>\<open>Measure_Controller_Correct\<close>, \<^theory_text>\<open>Path_Correct\<close>, \<^theory_text>\<open>Statistics_Run\<close> and \<^theory_text>\<open>Statistics_Correct\<close> prove that
    every interleaving ends, and with which result.
  \<^item> The threshold demo with aborting nodes on the framework (\<^verbatim>\<open>threshnet_aborts_p2p_demo\<close>): \<^theory_text>\<open>Aborts_P2P\<close> is the
    program and its \<^verbatim>\<open>crypto_functions.cpp\<close>; \<^theory_text>\<open>Aborts_Setup\<close> proves the phases up to the exchange of the ciphertexts,
    \<^theory_text>\<open>Aborts_Recovery\<close> what happens when nodes have dropped out.
  \<^item> The threshold demo with aborting clients of a server (\<^verbatim>\<open>threshnet_aborts_grpc_demo\<close>): \<^theory_text>\<open>Thresh_Server\<close> is the server's
    state and its eighteen servicers, \<^theory_text>\<open>Thresh_Client\<close> the client's stubs, \<^theory_text>\<open>Thresh_Main\<close> its program;
    \<^theory_text>\<open>Prog\<close> says how client programs and a server run together. \<^theory_text>\<open>Thresh_Mailbox\<close> and
    \<^theory_text>\<open>Thresh_Spec\<close> give the server's abstract specification, \<^theory_text>\<open>Thresh_Keygen\<close> the joint key
    protocol of n clients, \<^theory_text>\<open>Thresh_Aborts\<close> what happens when a client drops out: client 1 is not recovered,
    any other one is, in every interleaving of the clients that wait for it.
  \<^item> The adjacent measurement demo (\<^verbatim>\<open>threshnet_adjacent_measure_demo\<close>): \<^theory_text>\<open>Adj_Server\<close> is the key server,
    \<^theory_text>\<open>Adj_Controller\<close> the controller, \<^theory_text>\<open>Adj_Client\<close> the client. \<^theory_text>\<open>Board\<close> states as a locale what polling clients rely on
    in servers and proves that every interleaving of clients that follow scripts ends as the scripts say; \<^theory_text>\<open>Adj_Run\<close>
    interprets it on the two servers, \<^theory_text>\<open>Adj_Scripts\<close> proves that the client follows its script,
    \<^theory_text>\<open>Adj_Correct\<close> what the clients report.
  \<^item> The proxy re-encryption demo (\<^verbatim>\<open>pre_grpc_demo\<close>): \<^theory_text>\<open>Pre_KS\<close> is the key server, \<^theory_text>\<open>Pre_Broker\<close> the broker,
    \<^theory_text>\<open>Pre_Clients\<close> the producer and the consumer, \<^theory_text>\<open>Routing_Table\<close> and \<^theory_text>\<open>Hex_Codec\<close> their files
    (\<^verbatim>\<open>utils.cpp\<close>); \<^theory_text>\<open>Pre_Scheme\<close> states what they rely on in OpenFHE; \<^theory_text>\<open>Pre_Access\<close>, \<^theory_text>\<open>Pre_Flow\<close>
    and \<^theory_text>\<open>Pre_Demo\<close> prove who learns and who receives what. \<^theory_text>\<open>Pre_Hops\<close> has the two programs that re-encrypt
    over several hops in one process (\<^verbatim>\<open>pre.cpp\<close> and \<^verbatim>\<open>benchmarks/pre_d.cpp\<close>).
  \<^item> The examples without a network (\<^verbatim>\<open>threshold_fhe_aborts\<close>): \<^theory_text>\<open>Fhe_Examples\<close>, which also proves that the path
    demo generates the same joint keys.

  \<^bold>\<open>What is assumed\<close>

  Of OpenFHE, per theorem and as a named hypothesis: serialised objects are not empty and are read back; keys generated by the
  parties of a protocol act as one joint key, under which evaluation and the fusion of the partial decryptions
  do what they say (\<open>bfv_joint_ok\<close>, \<open>stat_scheme_ok\<close>, \<open>example_ok\<close>, \<open>hops_ok\<close> and the like; CKKS up to the errors
  \<open>\<eta>\<close>, \<open>\<epsilon>\<close> and \<open>\<delta>\<close> of encryption, operations and decryption); a majority of its shares recovers a secret key; inserting the
  same key twice is inserting it once. Of proxy re-encryption, \<open>scheme_ok\<close> is about vectors of 256 bits and two hops, of the threshold example
  \<open>example_ok\<close> about values that fit the plaintext modulus and two multiplications; \<open>ckks_add_ok\<close> and \<open>bfv_eval_ok\<close> are idealised: they hold
  for vectors of any magnitude and sums of any depth, of which the programs only make those of their inputs. Each such theorem has a witness on a concrete library. Of gRPC: a call to a
  server that runs reaches it and returns its reply, one to a server that has ended fails; an event may come with ok = false (\<open>Not_ok\<close>), which aborts a server of the demos and ends the
  server loop of a node; \<open>tls_laws\<close>, which says for each way of treating clients' certificates who is let in. Of the
  programs of a demo: all are started. The nodes that drop out of the peer to peer aborts demo are not Node1 (\<open>dropped_ok\<close>): Node1 is the
  one that recovers, and without it the others wait for ever; the same holds for client 1 in the demo with a server.

  \<^bold>\<open>Bounds and fuel\<close>

  Integers of the code that can wrap around are words of their width. Loops that may not end are partial functions into options,
  where None means that the code does not return (\<open>LookUpNetworkMap\<close>, \<open>sendMsg\<close>, \<open>getMsgWait\<close>); that they return is
  proved where they do. Polling loops between programs are calls that wait in the abstract systems (\<^theory_text>\<open>P2P_Net\<close>,
  \<^theory_text>\<open>Board\<close>), after it is proved that a poll that comes too early changes nothing. \<open>recovery_loop\<close> has as fuel the threshold
  plus one, as every round counts at least one more share; the timed wait of the aborts demo makes at most 103 polls, by its 32-bit
  arithmetic. Floating point numbers are rationals rounded to their precision without a bound on the exponent.

  \<^bold>\<open>Not modelled\<close>

  Pauses, timings, debug files and what is written to the terminal besides results; the threads of a node, whose queues
  are guarded by a lock, so that the model's step is one operation on a queue; the handshake of TLS, of which \<^theory_text>\<open>Credentials\<close> only has
  the configuration. The controller of the adjacent measurement demo serves a request in one step, although it calls the key
  server in between: the clients of the demo send each key once, so the key server's replies to it do not change once they are not empty. The entry points that
  only call \<^verbatim>\<open>processInputParams\<close> and \<^verbatim>\<open>Run\<close>, the test programs of the framework, build files and scripts are left out.
\<close>

end
